(* ===== verification/Prelude.thy ===== *)
theory Prelude
  imports Complex_Main "HOL-Library.Word"
begin

text \<open>
  Shared vocabulary of the development: names for the C++ integer and floating types, the
  two-valued outcome of an operation that may run into undefined behaviour, the generic facts on
  words and lists that several components use, and the collections of facts their proofs draw on.
  Nothing in this theory models a file of the repository.
\<close>

unbundle bit_operations_syntax

section \<open>Machine types\<close>

text \<open>
  \<open>uint8_t\<close>, \<open>uint16_t\<close>, \<open>uint32_t\<close> and \<open>uint64_t\<close> keep their width, so \<open>+\<close>, \<open>-\<close> and \<open>*\<close>
  wrap. An \<open>int64_t\<close> is the same 64 bits read with \<open>sint\<close>. A \<open>float\<close> or \<open>double\<close> is a real number:
  rounding is not modelled, but for the times in \<open>Chc_Cgi\<close> and \<open>Preproc\<close> where it is a parameter. Where the code asks \<open>std::isfinite\<close>, the field has the type \<open>dbl\<close>
  below, which has the non-finite values.
\<close>

type_synonym u8 = "8 word"
type_synonym u16 = "16 word"
type_synonym u32 = "32 word"
type_synonym u64 = "64 word"
type_synonym f32 = real
type_synonym f64 = real

text \<open>A \<open>double\<close> that may be non-finite. Every comparison with \<open>NaN\<close> is false, as in IEEE 754.\<close>

datatype dbl = Num real | NaN | PInf | NInf

fun isfinite :: "dbl \<Rightarrow> bool" where
  "isfinite (Num x) = True"
| "isfinite _ = False"

fun dbl_less :: "dbl \<Rightarrow> dbl \<Rightarrow> bool" where
  "dbl_less NaN _ = False"
| "dbl_less _ NaN = False"
| "dbl_less (Num x) (Num y) = (x < y)"
| "dbl_less NInf y = (y \<noteq> NInf)"
| "dbl_less x PInf = (x \<noteq> PInf)"
| "dbl_less _ _ = False"

definition dbl_le :: "dbl \<Rightarrow> dbl \<Rightarrow> bool" where
  "dbl_le x y = (dbl_less x y \<or> (x = y \<and> x \<noteq> NaN))"

text \<open>\<open>std::max(x, y)\<close> returns its first argument unless that is less than the second.\<close>

definition dbl_max :: "dbl \<Rightarrow> dbl \<Rightarrow> dbl" where
  "dbl_max x y = (if dbl_less x y then y else x)"

fun dbl_neg :: "dbl \<Rightarrow> dbl" where
  "dbl_neg (Num x) = Num (- x)"
| "dbl_neg PInf = NInf"
| "dbl_neg NInf = PInf"
| "dbl_neg NaN = NaN"

fun dbl_add :: "dbl \<Rightarrow> dbl \<Rightarrow> dbl" where
  "dbl_add NaN _ = NaN"
| "dbl_add _ NaN = NaN"
| "dbl_add (Num x) (Num y) = Num (x + y)"
| "dbl_add PInf NInf = NaN"
| "dbl_add NInf PInf = NaN"
| "dbl_add PInf _ = PInf"
| "dbl_add NInf _ = NInf"
| "dbl_add _ PInf = PInf"
| "dbl_add _ NInf = NInf"

definition dbl_sub :: "dbl \<Rightarrow> dbl \<Rightarrow> dbl" where
  "dbl_sub x y = dbl_add x (dbl_neg y)"

text \<open>Multiplication by a positive finite constant.\<close>

fun dbl_scale :: "real \<Rightarrow> dbl \<Rightarrow> dbl" where
  "dbl_scale c (Num x) = Num (c * x)"
| "dbl_scale c x = x"

text \<open>The number a finite \<open>dbl\<close> holds.\<close>

fun dbl_val :: "dbl \<Rightarrow> real" where
  "dbl_val (Num x) = x"
| "dbl_val _ = 0"

lemma isfinite_Num: "isfinite x \<longleftrightarrow> (\<exists>r. x = Num r)"
  by (cases x) auto

section \<open>Fact collections\<close>

named_theorems inv_intros \<open>preservation of the components' invariants\<close>
named_theorems model_defs \<open>defining equations the proofs of a component unfold together\<close>

section \<open>Outcomes\<close>

text \<open>
  \<open>Undef\<close> is C++ undefined behaviour (a null or dangling pointer dereferenced, an index outside an
  array, a division by zero, a double free); \<open>Ret\<close> is a normal return.
\<close>

datatype 'a exec = Undef | Ret 'a

fun bind_exec :: "'a exec \<Rightarrow> ('a \<Rightarrow> 'b exec) \<Rightarrow> 'b exec" where
  "bind_exec Undef f = Undef"
| "bind_exec (Ret x) f = f x"

lemma bind_exec_Ret_iff: "bind_exec m f = Ret y \<longleftrightarrow> (\<exists>x. m = Ret x \<and> f x = Ret y)"
  by (cases m) auto

lemma bind_exec_cong [fundef_cong]:
  "m = m' \<Longrightarrow> (\<And>x. m' = Ret x \<Longrightarrow> f x = g x) \<Longrightarrow> bind_exec m f = bind_exec m' g"
  by (cases m') auto

lemma bind_exec_assoc: "bind_exec (bind_exec m f) g = bind_exec m (\<lambda>x. bind_exec (f x) g)"
  by (cases m) auto

text \<open>A total correctness judgement: every normal result satisfies \<open>P\<close>, and when \<open>d\<close> holds the
  computation is defined.\<close>

definition outcome :: "bool \<Rightarrow> ('a \<Rightarrow> bool) \<Rightarrow> 'a exec \<Rightarrow> bool" where
  "outcome d P m = (case m of Undef \<Rightarrow> \<not> d | Ret x \<Rightarrow> P x)"

lemma outcome_simps [simp]: "outcome d P Undef \<longleftrightarrow> \<not> d" "outcome d P (Ret x) \<longleftrightarrow> P x"
  by (simp_all add: outcome_def)

lemma outcome_bind: "outcome d P m \<Longrightarrow> (\<And>x. m = Ret x \<Longrightarrow> P x \<Longrightarrow> outcome d Q (f x)) \<Longrightarrow> outcome d Q (bind_exec m f)"
  by (cases m) auto

lemma outcome_less: "outcome d' P m \<Longrightarrow> (d \<Longrightarrow> d') \<Longrightarrow> outcome d P m"
  by (cases m) auto

lemma outcome_weaken: "outcome d P m \<Longrightarrow> (\<And>x. m = Ret x \<Longrightarrow> P x \<Longrightarrow> Q x) \<Longrightarrow> outcome d Q m"
  by (cases m) auto

text \<open>Partial correctness, step by step.\<close>

lemma outcome_step: "(\<And>x. m = Ret x \<Longrightarrow> outcome False Q (f x)) \<Longrightarrow> outcome False Q (bind_exec m f)"
  by (cases m) auto

lemma outcome_False: "outcome False P m \<longleftrightarrow> (\<forall>x. m = Ret x \<longrightarrow> P x)"
  by (cases m) auto

lemma outcome_Ret: "outcome d P m \<Longrightarrow> m = Ret x \<Longrightarrow> P x"
  by simp

lemma outcome_defined: "outcome d P m \<Longrightarrow> d \<Longrightarrow> \<exists>x. m = Ret x \<and> P x"
  by (cases m) auto

text \<open>Loops over a list whose body may be undefined.\<close>

fun exec_fold :: "('a \<Rightarrow> 's \<Rightarrow> 's exec) \<Rightarrow> 'a list \<Rightarrow> 's \<Rightarrow> 's exec" where
  "exec_fold f [] s = Ret s"
| "exec_fold f (x # xs) s = bind_exec (f x s) (exec_fold f xs)"

fun exec_map :: "('a \<Rightarrow> 'b exec) \<Rightarrow> 'a list \<Rightarrow> 'b list exec" where
  "exec_map f [] = Ret []"
| "exec_map f (x # xs) = bind_exec (f x) (\<lambda>y. bind_exec (exec_map f xs) (\<lambda>ys. Ret (y # ys)))"

lemma exec_fold_outcome:
  "P s \<Longrightarrow> (\<And>x s. x \<in> set xs \<Longrightarrow> P s \<Longrightarrow> outcome d P (f x s)) \<Longrightarrow> outcome d P (exec_fold f xs s)"
  by (induction xs arbitrary: s) (auto intro!: outcome_bind)

lemma exec_fold_inv:
  "exec_fold f xs s = Ret s' \<Longrightarrow> P s \<Longrightarrow> (\<And>x s s'. x \<in> set xs \<Longrightarrow> P s \<Longrightarrow> f x s = Ret s' \<Longrightarrow> P s') \<Longrightarrow> P s'"
  by (induction xs arbitrary: s) (auto simp: bind_exec_Ret_iff)

lemma exec_fold_append: "exec_fold f (xs @ ys) s = bind_exec (exec_fold f xs s) (exec_fold f ys)"
  by (induction xs arbitrary: s) (auto simp: bind_exec_assoc intro!: bind_exec_cong)

lemma exec_map_defined: "(\<And>x. x \<in> set xs \<Longrightarrow> f x = Ret (g x)) \<Longrightarrow> exec_map f xs = Ret (map g xs)"
  by (induction xs) simp_all

lemma exec_map_length: "exec_map f xs = Ret ys \<Longrightarrow> length ys = length xs"
  by (induction xs arbitrary: ys) (auto simp: bind_exec_Ret_iff)

lemma exec_map_outcome: "(\<And>x. x \<in> set xs \<Longrightarrow> outcome d P (f x)) \<Longrightarrow> outcome d (\<lambda>ys. list_all P ys \<and> length ys = length xs) (exec_map f xs)"
  by (induction xs) (auto intro!: outcome_bind)

text \<open>A heap array reached through a pointer: the null pointer, a pointer whose target was
  deleted, or a live allocation.\<close>

datatype 'a heap_array = Null | Freed | Alloc "'a list"

section \<open>Words\<close>

lemma nat_and_dec_eq_0_iff: "0 < n \<Longrightarrow> (n AND (n - 1) = (0::nat)) = (\<exists>k. n = 2 ^ k)"
proof (induction n rule: less_induct)
  case (less n)
  show ?case
  proof (cases "even n")
    case True
    then obtain m where m: "n = 2 * m" by (elim evenE)
    with less.prems have "0 < m" by simp
    then obtain m' where m': "m = Suc m'" by (cases m) auto
    have "n AND (n - 1) = 2 * (m AND (m - 1))"
      by (subst and_nat_rec) (simp add: m m')
    moreover have "(\<exists>k. n = 2 ^ k) = (\<exists>k. m = 2 ^ k)"
    proof
      assume "\<exists>k. n = 2 ^ k"
      then obtain k where "n = 2 ^ k" by blast
      with m True show "\<exists>k. m = 2 ^ k" by (cases k) auto
    next
      assume "\<exists>k. m = 2 ^ k"
      then obtain k where "m = 2 ^ k" by blast
      with m have "n = 2 ^ Suc k" by simp
      then show "\<exists>k. n = 2 ^ k" by blast
    qed
    ultimately show ?thesis using less.IH [of m] m \<open>0 < m\<close> by simp
  next
    case False
    then obtain m where m: "n = 2 * m + 1" by (elim oddE)
    have "n AND (n - 1) = 2 * m"
      by (subst and_nat_rec) (simp add: m)
    moreover have "(\<exists>k. n = 2 ^ k) = (m = 0)"
    proof
      assume "\<exists>k. n = 2 ^ k"
      then obtain k where "n = 2 ^ k" by blast
      with m show "m = 0" by (cases k) (auto dest: arg_cong [of _ _ even])
    next
      assume "m = 0" then have "n = 2 ^ 0" using m by simp
      then show "\<exists>k. n = 2 ^ k" by blast
    qed
    ultimately show ?thesis by simp
  qed
qed

lemma unat_and_mask: "unat (a AND (2 ^ k - 1) :: 'a::len word) = unat a mod 2 ^ k"
proof -
  have "a AND (2 ^ k - 1) = take_bit k a"
    by (simp only: take_bit_eq_mask mask_eq_exp_minus_1)
  then have "unat (a AND (2 ^ k - 1)) = take_bit k (unat a)"
    by (simp only: unsigned_take_bit_eq)
  then show ?thesis by (simp only: take_bit_eq_mod)
qed

lemma unat_pow2: "k < LENGTH('a) \<Longrightarrow> unat (2 ^ k :: 'a::len word) = 2 ^ k"
proof -
  assume k: "k < LENGTH('a)"
  have "(2::nat) ^ k < 2 ^ LENGTH('a)" using k by simp
  then have "unat (of_nat (2 ^ k) :: 'a word) = 2 ^ k" by (simp only: unat_of_nat mod_less)
  then show ?thesis by simp
qed

lemma word_and_dec_eq_0_iff:
  fixes x :: "'a::len word"
  assumes "x \<noteq> 0"
  shows "(x AND (x - 1) = 0) = (\<exists>k < LENGTH('a). x = 2 ^ k)"
proof -
  have pos: "0 < unat x" using assms by (simp add: unat_gt_0)
  have "(x AND (x - 1) = 0) = (unat x AND (unat x - 1) = 0)"
  proof -
    have "unat (x - 1) = unat x - 1" using assms by (simp add: unat_minus_one)
    then have "unat (x AND (x - 1)) = unat x AND (unat x - 1)"
      by (simp add: unsigned_and_eq)
    then show ?thesis by (metis unsigned_0 unsigned_word_eqI)
  qed
  also have "\<dots> = (\<exists>k. unat x = 2 ^ k)" using nat_and_dec_eq_0_iff pos by blast
  also have "\<dots> = (\<exists>k < LENGTH('a). x = 2 ^ k)"
  proof
    assume "\<exists>k. unat x = 2 ^ k"
    then obtain k where k: "unat x = 2 ^ k" by blast
    have "unat x < 2 ^ LENGTH('a)" by (rule unsigned_less)
    then have "(2::nat) ^ k < 2 ^ LENGTH('a)" by (simp only: k)
    then have kl: "k < LENGTH('a)" by simp
    have "unat x = unat ((2::'a word) ^ k)" using k kl by (simp add: unat_pow2)
    then have "x = 2 ^ k" by (rule unsigned_word_eqI)
    with kl show "\<exists>k < LENGTH('a). x = 2 ^ k" by blast
  next
    assume "\<exists>k < LENGTH('a). x = 2 ^ k"
    then show "\<exists>k. unat x = 2 ^ k" by (metis unat_pow2)
  qed
  finally show ?thesis .
qed

text \<open>The distance between two wrapping counters changes by one when either counter moves by
  one.\<close>

lemma unat_diff_Suc_right:
  fixes a b :: "'a::len word"
  assumes "a \<noteq> b"
  shows "Suc (unat (a - (b + 1))) = unat (a - b)"
proof -
  have "a - b \<noteq> 0" using assms by simp
  then have "unat (a - b - 1) = unat (a - b) - 1" by (rule unat_minus_one)
  moreover have "0 < unat (a - b)" using \<open>a - b \<noteq> 0\<close> by (simp add: unat_gt_0)
  moreover have "a - (b + 1) = a - b - 1" by (simp add: algebra_simps)
  ultimately show ?thesis by (simp only: Suc_diff_1)
qed

lemma unat_diff_Suc_left:
  fixes a b :: "'a::len word"
  assumes "Suc (unat (a - b)) < 2 ^ LENGTH('a)"
  shows "unat (a + 1 - b) = Suc (unat (a - b))"
proof -
  have "a + 1 - b = (a - b) + 1" by (simp add: algebra_simps)
  moreover have "unat ((a - b) + 1) = (unat (a - b) + 1) mod 2 ^ LENGTH('a)"
    by (simp add: unat_word_ariths)
  ultimately show ?thesis using assms by (metis Suc_eq_plus1 mod_less)
qed

section \<open>Lists kept in time order\<close>

text \<open>
  \<open>queue.insert(std::upper_bound(begin, end, key), x)\<close>: the element goes before the first one with
  a greater key. \<open>std::upper_bound\<close> requires the range to be sorted, which every user of this
  function maintains.
\<close>

fun ub_insert :: "('a \<Rightarrow> 'k::linorder) \<Rightarrow> 'a \<Rightarrow> 'a list \<Rightarrow> 'a list" where
  "ub_insert key x [] = [x]"
| "ub_insert key x (y # ys) = (if key x < key y then x # y # ys else y # ub_insert key x ys)"

lemma set_ub_insert [simp]: "set (ub_insert key x ys) = insert x (set ys)"
  by (induction ys) auto

lemma length_ub_insert [simp]: "length (ub_insert key x ys) = Suc (length ys)"
  by (induction ys) auto

lemma sorted_ub_insert [inv_intros]:
  "sorted (map key ys) \<Longrightarrow> sorted (map key (ub_insert key x ys))"
  by (induction ys) auto

lemma ub_insert_append:
  "sorted (map key ys) \<Longrightarrow>
   ub_insert key x ys = filter (\<lambda>y. key y \<le> key x) ys @ x # filter (\<lambda>y. key x < key y) ys"
proof (induction ys)
  case Nil
  then show ?case by simp
next
  case (Cons y ys)
  show ?case
  proof (cases "key x < key y")
    case True
    with Cons.prems have "\<forall>z \<in> set ys. key x < key z" by fastforce
    with True show ?thesis by (auto simp: filter_empty_conv filter_id_conv)
  next
    case False
    with Cons show ?thesis by auto
  qed
qed

text \<open>\<open>while (queue.size() > n) queue.pop_front();\<close>\<close>

function pop_while_longer :: "nat \<Rightarrow> 'a list \<Rightarrow> 'a list" where
  "pop_while_longer n xs = (if n < length xs then pop_while_longer n (tl xs) else xs)"
  by pat_completeness auto
termination
  by (relation "measure (\<lambda>(n, xs). length xs)") auto

declare pop_while_longer.simps [simp del]

lemma pop_while_longer_eq: "pop_while_longer n xs = drop (length xs - n) xs"
proof (induction n xs rule: pop_while_longer.induct)
  case (1 n xs)
  show ?case
  proof (cases "n < length xs")
    case True
    then have "Suc (length (tl xs) - n) = length xs - n" by simp
    then have "drop (length (tl xs) - n) (tl xs) = drop (length xs - n) xs"
      by (metis drop_Suc)
    with True 1 show ?thesis by (simp add: pop_while_longer.simps [of n xs])
  next
    case False
    then show ?thesis by (simp add: pop_while_longer.simps [of n xs])
  qed
qed

lemma sorted_drop [inv_intros]: "sorted xs \<Longrightarrow> sorted (drop n xs)"
  by (simp add: sorted_wrt_drop)

lemma sorted_map_drop [inv_intros]: "sorted (map f xs) \<Longrightarrow> sorted (map f (drop n xs))"
  by (simp add: drop_map [symmetric] sorted_drop)

text \<open>Reading a time-ordered queue up to a time is filtering it.\<close>

lemma sorted_takeWhile_filter:
  "sorted (map f xs) \<Longrightarrow> takeWhile (\<lambda>x. f x \<le> (t::'k::linorder)) xs = filter (\<lambda>x. f x \<le> t) xs"
proof (induction xs)
  case (Cons x xs)
  show ?case
  proof (cases "f x \<le> t")
    case False
    with Cons.prems have "\<forall>y \<in> set xs. \<not> f y \<le> t" by auto
    with False show ?thesis by (simp add: filter_empty_conv)
  qed (use Cons in simp)
qed simp

lemma sorted_dropWhile_filter:
  "sorted (map f xs) \<Longrightarrow> dropWhile (\<lambda>x. f x \<le> (t::'k::linorder)) xs = filter (\<lambda>x. t < f x) xs"
proof (induction xs)
  case (Cons x xs)
  show ?case
  proof (cases "f x \<le> t")
    case False
    with Cons.prems have "\<forall>y \<in> set xs. t < f y" by auto
    with False show ?thesis by (simp add: filter_id_conv)
  qed (use Cons in \<open>auto simp: not_less\<close>)
qed simp

end
