(* ===== verification/Geometry.thy ===== *)
theory Geometry
  imports Prelude
begin

text \<open>
  Three-vectors and 3x3 matrices over the reals, in the executable form the component models use
  for the \<open>Eigen::Vector3d\<close> and \<open>Eigen::Matrix3d\<close> values of \<^verbatim>\<open>fast_livo\<close>. Nothing here models a file
  of the repository.
\<close>

type_synonym vec3 = "real \<times> real \<times> real"
type_synonym mat3 = "vec3 \<times> vec3 \<times> vec3"

fun v3_add :: "vec3 \<Rightarrow> vec3 \<Rightarrow> vec3" where
  "v3_add (a, b, c) (x, y, z) = (a + x, b + y, c + z)"

fun v3_sub :: "vec3 \<Rightarrow> vec3 \<Rightarrow> vec3" where
  "v3_sub (a, b, c) (x, y, z) = (a - x, b - y, c - z)"

fun v3_scale :: "real \<Rightarrow> vec3 \<Rightarrow> vec3" where
  "v3_scale k (x, y, z) = (k * x, k * y, k * z)"

fun v3_dot :: "vec3 \<Rightarrow> vec3 \<Rightarrow> real" where
  "v3_dot (a, b, c) (x, y, z) = a * x + b * y + c * z"

definition v3_norm :: "vec3 \<Rightarrow> real" where
  "v3_norm v = sqrt (v3_dot v v)"

definition v3_zero :: vec3 where "v3_zero = (0, 0, 0)"

fun m3_apply :: "mat3 \<Rightarrow> vec3 \<Rightarrow> vec3" where
  "m3_apply (r1, r2, r3) v = (v3_dot r1 v, v3_dot r2 v, v3_dot r3 v)"

fun m3_transpose :: "mat3 \<Rightarrow> mat3" where
  "m3_transpose ((a, b, c), (d, e, f), (g, h, i)) = ((a, d, g), (b, e, h), (c, f, i))"

definition m3_mult :: "mat3 \<Rightarrow> mat3 \<Rightarrow> mat3" where
  "m3_mult m n =
     (case m3_transpose n of (c1, c2, c3) \<Rightarrow>
        (case m of (r1, r2, r3) \<Rightarrow>
           ((v3_dot r1 c1, v3_dot r1 c2, v3_dot r1 c3),
            (v3_dot r2 c1, v3_dot r2 c2, v3_dot r2 c3),
            (v3_dot r3 c1, v3_dot r3 c2, v3_dot r3 c3))))"

definition m3_diag :: "real \<Rightarrow> real \<Rightarrow> real \<Rightarrow> mat3" where
  "m3_diag a b c = ((a, 0, 0), (0, b, 0), (0, 0, c))"

definition m3_one :: mat3 where "m3_one = m3_diag 1 1 1"

fun m3_add :: "mat3 \<Rightarrow> mat3 \<Rightarrow> mat3" where
  "m3_add (a, b, c) (x, y, z) = (v3_add a x, v3_add b y, v3_add c z)"

fun m3_trace :: "mat3 \<Rightarrow> real" where
  "m3_trace ((a, b, c), (d, e, f), (g, h, i)) = a + e + i"

fun m3_quad :: "mat3 \<Rightarrow> vec3 \<Rightarrow> real" where
  "m3_quad m v = v3_dot v (m3_apply m v)"

fun m3_det :: "mat3 \<Rightarrow> real" where
  "m3_det ((a, b, c), (d, e, f), (g, h, i)) =
     a * (e * i - f * h) - b * (d * i - f * g) + c * (d * h - e * g)"

fun v3_outer :: "vec3 \<Rightarrow> vec3 \<Rightarrow> mat3" where
  "v3_outer (a, b, c) v = (v3_scale a v, v3_scale b v, v3_scale c v)"

definition m3_zero :: mat3 where "m3_zero = m3_diag 0 0 0"

fun v3_cross :: "vec3 \<Rightarrow> vec3 \<Rightarrow> vec3" where
  "v3_cross (a, b, c) (x, y, z) = (b * z - c * y, c * x - a * z, a * y - b * x)"

fun m3_neg :: "mat3 \<Rightarrow> mat3" where
  "m3_neg (r1, r2, r3) = (v3_scale (- 1) r1, v3_scale (- 1) r2, v3_scale (- 1) r3)"

definition m3_diag_of :: "vec3 \<Rightarrow> mat3" where
  "m3_diag_of v = (case v of (a, b, c) \<Rightarrow> m3_diag a b c)"

definition sq_norm :: "vec3 \<Rightarrow> real" where "sq_norm v = v3_dot v v"

fun m3_scale :: "real \<Rightarrow> mat3 \<Rightarrow> mat3" where
  "m3_scale k (a, b, c) = (v3_scale k a, v3_scale k b, v3_scale k c)"

fun skew_sym :: "vec3 \<Rightarrow> mat3" where
  "skew_sym (x, y, z) = ((0, - z, y), (z, 0, - x), (- y, x, 0))"

text \<open>\<open>v.normalize()\<close> of Eigen leaves a zero vector as it is.\<close>

definition v3_normalize :: "vec3 \<Rightarrow> vec3" where
  "v3_normalize v = (if sq_norm v > 0 then v3_scale (1 / v3_norm v) v else v)"

text \<open>\<open>std::atan2\<close> on the reals.\<close>

definition atan2 :: "real \<Rightarrow> real \<Rightarrow> real" where
  "atan2 y x =
     (if x > 0 then arctan (y / x)
      else if x < 0 then (if y \<ge> 0 then arctan (y / x) + pi else arctan (y / x) - pi)
      else if y > 0 then pi / 2 else if y < 0 then - pi / 2 else 0)"

lemma m3_one_apply [simp]: "m3_apply m3_one v = v"
  by (cases v) (simp add: m3_one_def m3_diag_def)

lemma m3_mult_apply: "m3_apply (m3_mult m n) v = m3_apply m (m3_apply n v)"
proof -
  obtain a b c d e f g h i where m: "m = ((a, b, c), (d, e, f), (g, h, i))" by (metis prod.exhaust)
  obtain a' b' c' d' e' f' g' h' i' where n: "n = ((a', b', c'), (d', e', f'), (g', h', i'))"
    by (metis prod.exhaust)
  obtain x y z where v: "v = (x, y, z)" by (metis prod.exhaust)
  show ?thesis by (simp add: m n v m3_mult_def algebra_simps)
qed

lemma v3_dot_transpose: "v3_dot u (m3_apply m v) = v3_dot (m3_apply (m3_transpose m) u) v"
proof -
  obtain a b c d e f g h i where m: "m = ((a, b, c), (d, e, f), (g, h, i))" by (metis prod.exhaust)
  show ?thesis by (cases u; cases v) (simp add: m algebra_simps)
qed

lemma m3_transpose_transpose [simp]: "m3_transpose (m3_transpose m) = m"
  by (metis m3_transpose.simps prod.exhaust)

text \<open>A rotated covariance gives a direction the variance the original gave the direction rotated
  back.\<close>

lemma m3_quad_conj:
  "m3_quad (m3_mult (m3_mult r p) (m3_transpose r)) v = m3_quad p (m3_apply (m3_transpose r) v)"
  by (simp add: m3_mult_apply v3_dot_transpose)

lemma m3_quad_add: "m3_quad (m3_add m n) v = m3_quad m v + m3_quad n v"
proof -
  obtain a b c d e f g h i where m: "m = ((a, b, c), (d, e, f), (g, h, i))" by (metis prod.exhaust)
  obtain a' b' c' d' e' f' g' h' i' where n: "n = ((a', b', c'), (d', e', f'), (g', h', i'))"
    by (metis prod.exhaust)
  show ?thesis by (cases v) (simp add: m n algebra_simps)
qed

lemma m3_mult_assoc: "m3_mult (m3_mult a b) c = m3_mult a (m3_mult b c)"
proof -
  obtain a1 a2 a3 a4 a5 a6 a7 a8 a9 where a: "a = ((a1, a2, a3), (a4, a5, a6), (a7, a8, a9))" by (metis prod.exhaust)
  obtain b1 b2 b3 b4 b5 b6 b7 b8 b9 where b: "b = ((b1, b2, b3), (b4, b5, b6), (b7, b8, b9))" by (metis prod.exhaust)
  obtain c1 c2 c3 c4 c5 c6 c7 c8 c9 where c: "c = ((c1, c2, c3), (c4, c5, c6), (c7, c8, c9))" by (metis prod.exhaust)
  show ?thesis by (simp add: a b c m3_mult_def algebra_simps)
qed

lemma m3_transpose_mult: "m3_transpose (m3_mult a b) = m3_mult (m3_transpose b) (m3_transpose a)"
proof -
  obtain a1 a2 a3 a4 a5 a6 a7 a8 a9 where a: "a = ((a1, a2, a3), (a4, a5, a6), (a7, a8, a9))" by (metis prod.exhaust)
  obtain b1 b2 b3 b4 b5 b6 b7 b8 b9 where b: "b = ((b1, b2, b3), (b4, b5, b6), (b7, b8, b9))" by (metis prod.exhaust)
  show ?thesis by (simp add: a b m3_mult_def algebra_simps)
qed

lemma v3_dot_self_nonneg [simp]: "0 \<le> v3_dot v v"
  by (cases v) simp

lemma m3_quad_diag: "m3_quad (m3_diag a b c) (x, y, z) = a * x\<^sup>2 + b * y\<^sup>2 + c * z\<^sup>2"
  by (simp add: m3_diag_def power2_eq_square algebra_simps)

end
