(* ===== verification/Gnss_Types.thy ===== *)
theory Gnss_Types
  imports Geometry
begin

text \<open>
  The GNSS messages that pass between the receiver's nodes, the mapper and the back end:
  \<^verbatim>\<open>gnss_comm/msg/GnssPVTSolnMsg.msg\<close>, the receiver's \<^verbatim>\<open>msg_interfaces/msg/Hcinspvatzcb.msg\<close> and ROS's
  \<open>NavSatFix\<close>, with the fields the repository's code reads or writes. Fields that some consumer tests
  with \<open>std::isfinite\<close> have the type \<open>dbl\<close>.
\<close>

record GnssPVTSolnMsg =
  pvt_week :: nat
  pvt_tow :: dbl
  pvt_fix_type :: nat
  pvt_valid_fix :: bool
  pvt_diff_soln :: bool
  pvt_carr_soln :: nat
  pvt_num_sv :: nat
  pvt_latitude :: dbl
  pvt_longitude :: dbl
  pvt_altitude :: dbl
  pvt_height_msl :: dbl
  pvt_h_acc :: dbl
  pvt_v_acc :: dbl
  pvt_p_dop :: dbl
  pvt_vel_n :: dbl
  pvt_vel_e :: dbl
  pvt_vel_d :: dbl
  pvt_vel_acc :: dbl
  pvt_heading_valid :: bool
  pvt_heading :: dbl
  pvt_heading_acc :: dbl

text \<open>\<open>STATUS_FIX\<close> is 0; the covariance entries are those of the diagonal.\<close>

record NavSatFix =
  nsf_stamp :: real
  nsf_status :: int
  nsf_latitude :: dbl
  nsf_longitude :: dbl
  nsf_altitude :: dbl
  nsf_cov0 :: dbl
  nsf_cov4 :: dbl
  nsf_cov8 :: dbl

definition STATUS_FIX :: int where "STATUS_FIX = 0"

record Hcinspvatzcb =
  hc_week :: nat
  hc_second :: dbl
  hc_stat :: "nat list"
  hc_latitude :: dbl
  hc_longitude :: dbl
  hc_altitude :: dbl
  hc_undulation :: dbl
  hc_position_stdev :: "dbl \<times> dbl \<times> dbl"
  hc_enu_velocity :: "dbl \<times> dbl \<times> dbl"
  hc_enu_velocity_stdev :: "dbl \<times> dbl \<times> dbl"
  hc_euler_stdev2 :: dbl
  hc_heading2 :: dbl
  hc_pdop :: dbl
  hc_ns :: nat

text \<open>The receiver clock in Unix time: GPS week and second of the week, less the leap seconds.\<close>

definition gps_to_unix :: "nat \<Rightarrow> real \<Rightarrow> real" where
  "gps_to_unix week tow = 315964800 + real week * 604800 + tow - 18"

lemma gps_to_unix_mono:
  assumes "0 \<le> tow" "tow < 604800" "0 \<le> tow'" "tow' < 604800"
  shows "gps_to_unix w tow < gps_to_unix w' tow' \<longleftrightarrow> w < w' \<or> (w = w' \<and> tow < tow')"
proof (cases w w' rule: linorder_cases)
  case less
  then have "real w + 1 \<le> real w'" by linarith
  with less assms show ?thesis by (simp add: gps_to_unix_def algebra_simps)
next
  case equal
  then show ?thesis by (simp add: gps_to_unix_def)
next
  case greater
  then have "real w' + 1 \<le> real w" by linarith
  with greater assms show ?thesis by (simp add: gps_to_unix_def algebra_simps)
qed

end
