(* ===== verification/Gnss_Adapter.thy ===== *)
theory Gnss_Adapter
  imports Gnss_Types
begin

text \<open>
  The adapter from the CHCNAV receiver's message to the PVT message of the estimators,
  \<^verbatim>\<open>chcnav_gnss_adapter/src/chcnav_to_gnss.cpp\<close>. Publishing is the result; the state is the counter of
  rejected messages.
\<close>

definition degrees_to_radians :: real where
  "degrees_to_radians = 1745329251994329577 / 100000000000000000000"

text \<open>The conversion of an accepted message.\<close>

definition chcnav_to_pvt :: "bool \<Rightarrow> nat \<Rightarrow> Hcinspvatzcb \<Rightarrow> GnssPVTSolnMsg" where
  "chcnav_to_pvt fixed status msg =
     (case (hc_position_stdev msg, hc_enu_velocity msg, hc_enu_velocity_stdev msg) of
        ((p0, p1, p2), (vx, vy, vz), (s0, s1, s2)) \<Rightarrow>
        \<lparr>pvt_week = hc_week msg, pvt_tow = hc_second msg, pvt_fix_type = 3, pvt_valid_fix = True,
         pvt_diff_soln = True, pvt_carr_soln = (if fixed then 2 else 1),
         pvt_num_sv = min (hc_ns msg) 255,
         pvt_latitude = hc_latitude msg, pvt_longitude = hc_longitude msg,
         pvt_altitude = hc_altitude msg,
         pvt_height_msl = dbl_sub (hc_altitude msg) (hc_undulation msg),
         pvt_h_acc = dbl_max p0 p1, pvt_v_acc = p2, pvt_p_dop = hc_pdop msg,
         pvt_vel_n = vy, pvt_vel_e = vx, pvt_vel_d = dbl_neg vz,
         pvt_vel_acc = dbl_max (dbl_max s0 s1) s2,
         pvt_heading_valid =
           (status = 4 \<and> isfinite (hc_heading2 msg) \<and> dbl_le (Num 0) (hc_heading2 msg)
            \<and> dbl_le (hc_heading2 msg) (Num 360) \<and> isfinite (hc_euler_stdev2 msg)
            \<and> dbl_less (Num 0) (hc_euler_stdev2 msg)),
         pvt_heading = dbl_scale degrees_to_radians (dbl_sub (Num 90) (hc_heading2 msg)),
         pvt_heading_acc = dbl_max (Num (degrees_to_radians / 100))
                             (dbl_scale degrees_to_radians (hc_euler_stdev2 msg))\<rparr>)"

definition adapter_callback ::
  "bool \<Rightarrow> Hcinspvatzcb \<Rightarrow> nat \<Rightarrow> GnssPVTSolnMsg option \<times> nat" where
  "adapter_callback accept_float msg rejected =
     (let status = hc_stat msg ! 1;
          fixed = (status = 4 \<or> status = 8);
          floating = (status = 5 \<or> status = 9)
      in if \<not> fixed \<and> \<not> (accept_float \<and> floating) then (None, rejected + 1)
         else if hc_week msg = 0 \<or> \<not> isfinite (hc_second msg) \<or> \<not> isfinite (hc_latitude msg)
                 \<or> \<not> isfinite (hc_longitude msg)
         then (None, rejected)
         else (Some (chcnav_to_pvt fixed status msg), rejected))"

lemma adapter_callback_Some:
  assumes "adapter_callback accept_float msg n = (Some out, n')"
  shows "out = chcnav_to_pvt (hc_stat msg ! 1 = 4 \<or> hc_stat msg ! 1 = 8) (hc_stat msg ! 1) msg"
    and "hc_stat msg ! 1 \<in> {4, 8} \<or> (accept_float \<and> hc_stat msg ! 1 \<in> {5, 9})"
    and "hc_week msg \<noteq> 0" and "isfinite (hc_second msg)"
    and "isfinite (hc_latitude msg)" and "isfinite (hc_longitude msg)" and "n' = n"
  using assms by (auto simp: adapter_callback_def Let_def split: if_splits)

lemma chcnav_to_pvt_simps [simp]:
  "pvt_carr_soln (chcnav_to_pvt fixed status msg) = (if fixed then 2 else 1)"
  "pvt_week (chcnav_to_pvt fixed status msg) = hc_week msg"
  "pvt_tow (chcnav_to_pvt fixed status msg) = hc_second msg"
  "pvt_latitude (chcnav_to_pvt fixed status msg) = hc_latitude msg"
  "pvt_longitude (chcnav_to_pvt fixed status msg) = hc_longitude msg"
  "pvt_altitude (chcnav_to_pvt fixed status msg) = hc_altitude msg"
  "pvt_valid_fix (chcnav_to_pvt fixed status msg)"
  "pvt_diff_soln (chcnav_to_pvt fixed status msg)"
  by (simp_all add: chcnav_to_pvt_def split: prod.splits)

lemma pvt_heading_eq:
  "pvt_heading (chcnav_to_pvt fixed status msg) =
     dbl_scale degrees_to_radians (dbl_sub (Num 90) (hc_heading2 msg))"
  "pvt_heading_valid (chcnav_to_pvt fixed status msg) \<longleftrightarrow>
     status = 4 \<and> isfinite (hc_heading2 msg) \<and> dbl_le (Num 0) (hc_heading2 msg)
     \<and> dbl_le (hc_heading2 msg) (Num 360) \<and> isfinite (hc_euler_stdev2 msg)
     \<and> dbl_less (Num 0) (hc_euler_stdev2 msg)"
  "pvt_heading_acc (chcnav_to_pvt fixed status msg) =
     dbl_max (Num (degrees_to_radians / 100)) (dbl_scale degrees_to_radians (hc_euler_stdev2 msg))"
  by (simp_all add: chcnav_to_pvt_def split: prod.splits)

end
