(* ===== verification/Dense.thy ===== *)
theory Dense
  imports Geometry
begin

text \<open>
  Dense matrices as entry functions with the dimensions as arguments, the form in which the filter
  models use \<open>Eigen::MatrixXd\<close>; symmetry and positive semidefiniteness, and the facts on the
  products that Kalman filters are made of. Nothing here models a file of the repository.
\<close>

type_synonym mat = "nat \<Rightarrow> nat \<Rightarrow> real"
type_synonym vec = "nat \<Rightarrow> real"

definition mmul :: "nat \<Rightarrow> mat \<Rightarrow> mat \<Rightarrow> mat" where
  "mmul n a b = (\<lambda>i j. \<Sum>k<n. a i k * b k j)"

definition mvmul :: "nat \<Rightarrow> mat \<Rightarrow> vec \<Rightarrow> vec" where
  "mvmul n a v = (\<lambda>i. \<Sum>k<n. a i k * v k)"

definition vdot :: "nat \<Rightarrow> vec \<Rightarrow> vec \<Rightarrow> real" where
  "vdot n u v = (\<Sum>k<n. u k * v k)"

definition mtrans :: "mat \<Rightarrow> mat" where
  "mtrans a = (\<lambda>i j. a j i)"

definition madd :: "mat \<Rightarrow> mat \<Rightarrow> mat" where
  "madd a b = (\<lambda>i j. a i j + b i j)"

definition msub :: "mat \<Rightarrow> mat \<Rightarrow> mat" where
  "msub a b = (\<lambda>i j. a i j - b i j)"

definition mscale :: "real \<Rightarrow> mat \<Rightarrow> mat" where
  "mscale c a = (\<lambda>i j. c * a i j)"

definition mident :: mat where
  "mident = (\<lambda>i j. if i = j then 1 else 0)"

definition mzero :: mat where
  "mzero = (\<lambda>i j. 0)"

definition mdiag :: "vec \<Rightarrow> mat" where
  "mdiag d = (\<lambda>i j. if i = j then d i else 0)"

text \<open>Coordinates of three-vectors and entries of 3x3 matrices.\<close>

fun v3_at :: "vec3 \<Rightarrow> nat \<Rightarrow> real" where
  "v3_at (x, y, z) i = (if i = 0 then x else if i = 1 then y else z)"

fun m3_at :: "mat3 \<Rightarrow> nat \<Rightarrow> nat \<Rightarrow> real" where
  "m3_at (r1, r2, r3) i j = (if i = 0 then v3_at r1 j else if i = 1 then v3_at r2 j else v3_at r3 j)"

text \<open>\<open>m.block<3, 3>(r, c) = b\<close>\<close>

definition set_block3 :: "nat \<Rightarrow> nat \<Rightarrow> mat3 \<Rightarrow> mat \<Rightarrow> mat" where
  "set_block3 r c b m =
     (\<lambda>i j. if r \<le> i \<and> i < r + 3 \<and> c \<le> j \<and> j < c + 3 then m3_at b (i - r) (j - c) else m i j)"

definition seg3 :: "nat \<Rightarrow> vec \<Rightarrow> vec3" where
  "seg3 r v = (v r, v (r + 1), v (r + 2))"

section \<open>Symmetry and definiteness\<close>

definition msym :: "nat \<Rightarrow> mat \<Rightarrow> bool" where
  "msym n a = (\<forall>i < n. \<forall>j < n. a i j = a j i)"

definition quad :: "nat \<Rightarrow> mat \<Rightarrow> vec \<Rightarrow> real" where
  "quad n a x = (\<Sum>i<n. \<Sum>j<n. x i * a i j * x j)"

definition mpsd :: "nat \<Rightarrow> mat \<Rightarrow> bool" where
  "mpsd n a = (\<forall>x. 0 \<le> quad n a x)"

lemma quad_add: "quad n (madd a b) x = quad n a x + quad n b x"
  by (simp add: quad_def madd_def algebra_simps sum.distrib)

lemma quad_scale: "quad n (mscale c a) x = c * quad n a x"
  by (simp add: quad_def mscale_def sum_distrib_left algebra_simps)

lemma quad_trans: "quad n (mtrans a) x = quad n a x"
proof -
  have "quad n (mtrans a) x = (\<Sum>i<n. \<Sum>j<n. x j * a j i * x i)"
    by (simp add: quad_def mtrans_def algebra_simps)
  also have "\<dots> = quad n a x" unfolding quad_def by (rule sum.swap)
  finally show ?thesis .
qed

lemma quad_conj:
  "quad n (mmul m (mmul m a p) (mtrans a)) x = quad m p (\<lambda>k. \<Sum>i<n. x i * a i k)"
proof -
  have "quad n (mmul m (mmul m a p) (mtrans a)) x =
      (\<Sum>i<n. \<Sum>j<n. \<Sum>l<m. \<Sum>k<m. x i * a i k * p k l * (x j * a j l))"
    by (simp add: quad_def mmul_def mtrans_def sum_distrib_left sum_distrib_right algebra_simps)
  also have "\<dots> = (\<Sum>i<n. \<Sum>l<m. \<Sum>j<n. \<Sum>k<m. x i * a i k * p k l * (x j * a j l))"
    by (intro sum.cong refl sum.swap)
  also have "\<dots> = (\<Sum>i<n. \<Sum>l<m. \<Sum>k<m. \<Sum>j<n. x i * a i k * p k l * (x j * a j l))"
    by (intro sum.cong refl sum.swap)
  also have "\<dots> = (\<Sum>i<n. \<Sum>k<m. \<Sum>l<m. \<Sum>j<n. x i * a i k * p k l * (x j * a j l))"
    by (intro sum.cong refl sum.swap)
  also have "\<dots> = (\<Sum>k<m. \<Sum>i<n. \<Sum>l<m. \<Sum>j<n. x i * a i k * p k l * (x j * a j l))"
    by (rule sum.swap)
  also have "\<dots> = (\<Sum>k<m. \<Sum>l<m. \<Sum>i<n. \<Sum>j<n. x i * a i k * p k l * (x j * a j l))"
    by (intro sum.cong refl sum.swap)
  also have "\<dots> = quad m p (\<lambda>k. \<Sum>i<n. x i * a i k)"
    unfolding quad_def by (intro sum.cong refl, subst sum_distrib_right, subst sum_product) (rule refl)
  finally show ?thesis .
qed

lemma mpsd_conj [inv_intros]: "mpsd m p \<Longrightarrow> mpsd n (mmul m (mmul m a p) (mtrans a))"
  by (simp add: mpsd_def quad_conj)

lemma mpsd_add [inv_intros]: "mpsd n a \<Longrightarrow> mpsd n b \<Longrightarrow> mpsd n (madd a b)"
  by (simp add: mpsd_def quad_add)

lemma mpsd_symmetrise [inv_intros]: "mpsd n a \<Longrightarrow> mpsd n (mscale (1 / 2) (madd a (mtrans a)))"
  by (simp add: mpsd_def quad_scale quad_add quad_trans)

lemma msym_symmetrise [inv_intros]: "msym n (mscale (1 / 2) (madd a (mtrans a)))"
  by (simp add: msym_def mscale_def madd_def mtrans_def add.commute)

lemma quad_mdiag: "quad n (mdiag d) x = (\<Sum>i<n. d i * (x i)\<^sup>2)"
proof -
  have "quad n (mdiag d) x = (\<Sum>i<n. \<Sum>j<n. if j = i then d i * (x i)\<^sup>2 else 0)"
    unfolding quad_def mdiag_def by (intro sum.cong refl) (auto simp: power2_eq_square)
  also have "\<dots> = (\<Sum>i<n. d i * (x i)\<^sup>2)" by simp
  finally show ?thesis .
qed

lemma mpsd_mdiag [inv_intros]: "(\<And>i. i < n \<Longrightarrow> 0 \<le> d i) \<Longrightarrow> mpsd n (mdiag d)"
  unfolding mpsd_def quad_mdiag by (auto intro!: sum_nonneg)

lemma msym_mdiag [inv_intros]: "msym n (mdiag d)"
  by (simp add: msym_def mdiag_def)

lemma mdiag_eqI: "(\<And>i j. i < n \<Longrightarrow> j < n \<Longrightarrow> a i j = mdiag d i j) \<Longrightarrow> quad n a x = quad n (mdiag d) x"
  unfolding quad_def by (intro sum.cong refl) simp_all

lemma mpsd_diagI:
  assumes "\<And>i j. i < n \<Longrightarrow> j < n \<Longrightarrow> a i j = mdiag d i j" and "\<And>i. i < n \<Longrightarrow> 0 \<le> d i"
  shows "mpsd n a" and "msym n a"
  using mdiag_eqI [of n a d] mpsd_mdiag [OF assms(2)] assms(1)
  by (simp_all add: mpsd_def msym_def mdiag_def)

text \<open>Products and sums of symmetric matrices; a symmetric or definite 3x3 block put on the diagonal.\<close>

lemma msym_conj [inv_intros]:
  assumes "msym m p"
  shows "msym n (mmul m (mmul m a p) (mtrans a))"
proof -
  have "(\<Sum>k<m. (\<Sum>l<m. a i l * p l k) * a j k) = (\<Sum>k<m. (\<Sum>l<m. a j l * p l k) * a i k)" for i j
  proof -
    have "(\<Sum>k<m. (\<Sum>l<m. a i l * p l k) * a j k) = (\<Sum>k<m. \<Sum>l<m. a i l * p l k * a j k)"
      by (simp add: sum_distrib_right)
    also have "\<dots> = (\<Sum>l<m. \<Sum>k<m. a i l * p l k * a j k)" by (rule sum.swap)
    also have "\<dots> = (\<Sum>l<m. \<Sum>k<m. a j k * p k l * a i l)"
      using assms by (intro sum.cong refl) (simp add: msym_def)
    finally show ?thesis by (simp add: sum_distrib_right)
  qed
  then show ?thesis by (simp add: msym_def mmul_def mtrans_def)
qed

lemma msym_add [inv_intros]: "msym n a \<Longrightarrow> msym n b \<Longrightarrow> msym n (madd a b)"
  by (simp add: msym_def madd_def)

lemma mzero_sym_psd [simp, inv_intros]: "msym n mzero" "mpsd n mzero"
  by (simp_all add: msym_def mpsd_def quad_def mzero_def)

lemma sum_block3:
  fixes f :: "nat \<Rightarrow> real"
  assumes "k + 3 \<le> n" "\<And>i. i < k \<or> k + 3 \<le> i \<Longrightarrow> f i = 0"
  shows "(\<Sum>i<n. f i) = f k + f (k + 1) + f (k + 2)"
proof -
  have "f i = 0" if "i \<noteq> k" "i \<noteq> k + 1" "i \<noteq> k + 2" for i
    using assms(2) [of i] that by linarith
  then have "(\<Sum>i<n. f i) = (\<Sum>i\<in>{k, k + 1, k + 2}. f i)"
    using assms(1) by (intro sum.mono_neutral_right) auto
  then show ?thesis by simp
qed

lemma quad_block3:
  assumes "k + 3 \<le> n"
  shows "quad n (set_block3 k k b mzero) x = m3_quad b (seg3 k x)"
proof -
  obtain p q r s t u v w z where b: "b = ((p, q, r), (s, t, u), (v, w, z))" by (metis prod.exhaust)
  let ?e = "set_block3 k k b mzero"
  have row: "(\<Sum>j<n. x i * ?e i j * x j) = x i * ?e i k * x k + x i * ?e i (k + 1) * x (k + 1) + x i * ?e i (k + 2) * x (k + 2)" for i
    by (rule sum_block3 [OF assms]) (auto simp: set_block3_def mzero_def)
  have e: "?e k k = p" "?e k (k + 1) = q" "?e k (k + 2) = r" "?e (k + 1) k = s" "?e (k + 1) (k + 1) = t" "?e (k + 1) (k + 2) = u"
      "?e (k + 2) k = v" "?e (k + 2) (k + 1) = w" "?e (k + 2) (k + 2) = z"
    by (simp_all add: set_block3_def b)
  have "quad n ?e x = (\<Sum>j<n. x k * ?e k j * x j) + (\<Sum>j<n. x (k + 1) * ?e (k + 1) j * x j) + (\<Sum>j<n. x (k + 2) * ?e (k + 2) j * x j)"
    unfolding quad_def by (rule sum_block3 [OF assms]) (auto simp: set_block3_def mzero_def)
  also have "\<dots> = m3_quad b (seg3 k x)"
    unfolding row e by (simp add: b seg3_def algebra_simps)
  finally show ?thesis .
qed

lemma quad_set_block3:
  assumes "k + 3 \<le> n" "\<And>i j. k \<le> i \<Longrightarrow> i < k + 3 \<Longrightarrow> k \<le> j \<Longrightarrow> j < k + 3 \<Longrightarrow> a i j = 0"
  shows "quad n (set_block3 k k b a) x = quad n a x + m3_quad b (seg3 k x)"
proof -
  have "set_block3 k k b a = madd a (set_block3 k k b mzero)"
    using assms(2) by (auto simp: fun_eq_iff madd_def set_block3_def mzero_def)
  then show ?thesis by (simp add: quad_add quad_block3 [OF assms(1)] del: m3_quad.simps)
qed

definition m3_sym_psd :: "mat3 \<Rightarrow> bool" where
  "m3_sym_psd b = (m3_transpose b = b \<and> (\<forall>v. 0 \<le> m3_quad b v))"

lemma m3_at_transpose: "i < 3 \<Longrightarrow> j < 3 \<Longrightarrow> m3_at (m3_transpose b) i j = m3_at b j i"
  by (cases b) (auto simp: less_Suc_eq numeral_3_eq_3)

lemma set_block3_sym_psd:
  assumes "k + 3 \<le> n" "\<And>i j. k \<le> i \<Longrightarrow> i < k + 3 \<Longrightarrow> k \<le> j \<Longrightarrow> j < k + 3 \<Longrightarrow> a i j = 0"
    and "m3_sym_psd b" "msym n a" "mpsd n a"
  shows "msym n (set_block3 k k b a)" "mpsd n (set_block3 k k b a)"
proof -
  show "mpsd n (set_block3 k k b a)"
    using assms(3,5) by (simp add: mpsd_def quad_set_block3 [OF assms(1,2)] m3_sym_psd_def add_nonneg_nonneg del: m3_quad.simps split_paired_All)
  have "m3_at b i j = m3_at b j i" if "i < 3" "j < 3" for i j
    using m3_at_transpose [OF that, of b] assms(3) by (simp add: m3_sym_psd_def)
  then show "msym n (set_block3 k k b a)"
    using assms(4) by (auto simp: msym_def set_block3_def)
qed

lemma m3_sym_psd_diag: "0 \<le> a \<Longrightarrow> 0 \<le> b \<Longrightarrow> 0 \<le> c \<Longrightarrow> m3_sym_psd (m3_diag a b c)"
  unfolding m3_sym_psd_def by (auto simp: m3_quad_diag simp del: m3_quad.simps) (simp add: m3_diag_def)

lemma m3_sym_psd_conj: "m3_sym_psd b \<Longrightarrow> m3_sym_psd (m3_mult (m3_mult r b) (m3_transpose r))"
proof -
  assume b: "m3_sym_psd b"
  then have "m3_transpose (m3_mult (m3_mult r b) (m3_transpose r)) = m3_mult (m3_mult r b) (m3_transpose r)"
    by (simp add: m3_sym_psd_def m3_transpose_mult m3_mult_assoc)
  with b show ?thesis by (simp add: m3_sym_psd_def m3_quad_conj del: m3_quad.simps split_paired_All)
qed

lemma m3_quad_scale: "m3_quad (m3_scale c b) x = c * m3_quad b x"
proof -
  obtain p q r s t u v w z where e: "b = ((p, q, r), (s, t, u), (v, w, z))" by (metis prod.exhaust)
  show ?thesis by (cases x) (simp add: e algebra_simps)
qed

lemma m3_transpose_scale: "m3_transpose (m3_scale c b) = m3_scale c (m3_transpose b)"
  by (cases b) auto

lemma m3_sym_psd_scale: "0 \<le> c \<Longrightarrow> m3_sym_psd b \<Longrightarrow> m3_sym_psd (m3_scale c b)"
  by (simp add: m3_sym_psd_def m3_quad_scale m3_transpose_scale del: m3_quad.simps split_paired_All)

section \<open>Inverses and quadratic minima\<close>

lemma mmul_assoc: "mmul n (mmul n a b) c = mmul n a (mmul n b c)"
proof (intro ext)
  fix i j
  have "mmul n (mmul n a b) c i j = (\<Sum>k<n. \<Sum>l<n. a i l * b l k * c k j)"
    by (simp add: mmul_def sum_distrib_right)
  also have "\<dots> = (\<Sum>l<n. \<Sum>k<n. a i l * b l k * c k j)" by (rule sum.swap)
  finally show "mmul n (mmul n a b) c i j = mmul n a (mmul n b c) i j"
    by (simp add: mmul_def sum_distrib_left mult.assoc)
qed

lemma mvmul_mmul: "mvmul n (mmul n a b) v = mvmul n a (mvmul n b v)"
proof (intro ext)
  fix i
  have "mvmul n (mmul n a b) v i = (\<Sum>k<n. \<Sum>l<n. a i l * b l k * v k)"
    by (simp add: mvmul_def mmul_def sum_distrib_right)
  also have "\<dots> = (\<Sum>l<n. \<Sum>k<n. a i l * b l k * v k)" by (rule sum.swap)
  finally show "mvmul n (mmul n a b) v i = mvmul n a (mvmul n b v) i"
    by (simp add: mvmul_def sum_distrib_left mult.assoc)
qed

lemma mmul_distrib: "mmul n (madd a b) c = madd (mmul n a c) (mmul n b c)" "mmul n c (madd a b) = madd (mmul n c a) (mmul n c b)"
  "mmul n (msub a b) c = msub (mmul n a c) (mmul n b c)" "mmul n c (msub a b) = msub (mmul n c a) (mmul n c b)"
  by (auto simp: mmul_def madd_def msub_def algebra_simps sum.distrib sum_subtractf)

text \<open>Equality and inverse up to the dimension.\<close>

definition meq :: "nat \<Rightarrow> mat \<Rightarrow> mat \<Rightarrow> bool" where
  "meq n a b \<longleftrightarrow> (\<forall>i < n. \<forall>j < n. a i j = b i j)"

definition is_inverse :: "nat \<Rightarrow> mat \<Rightarrow> mat \<Rightarrow> bool" where
  "is_inverse n a b \<longleftrightarrow> meq n (mmul n a b) mident \<and> meq n (mmul n b a) mident"

lemma mmul_cong: "meq n a a' \<Longrightarrow> meq n b b' \<Longrightarrow> meq n (mmul n a b) (mmul n a' b')"
  by (auto simp: meq_def mmul_def intro!: sum.cong)

lemma meq_refl [simp]: "meq n a a"
  by (simp add: meq_def)

lemma meq_trans: "meq n a b \<Longrightarrow> meq n b c \<Longrightarrow> meq n a c"
  by (simp add: meq_def)

lemma meq_sym: "meq n a b \<Longrightarrow> meq n b a"
  by (simp add: meq_def)

lemma mmul_ident: "meq n (mmul n mident a) a" "meq n (mmul n a mident) a"
  by (simp_all add: meq_def mmul_def mident_def if_distrib [of "\<lambda>x. x * _"] if_distrib [of "\<lambda>x. _ * x"] cong: if_cong)

lemma mvmul_ident: "i < n \<Longrightarrow> mvmul n mident v i = v i"
  by (simp add: mvmul_def mident_def if_distrib [of "\<lambda>x. x * _"] cong: if_cong)

lemma mvmul_cong: "meq n a b \<Longrightarrow> (\<And>k. k < n \<Longrightarrow> u k = v k) \<Longrightarrow> i < n \<Longrightarrow> mvmul n a u i = mvmul n b v i"
  by (auto simp: meq_def mvmul_def intro!: sum.cong)

lemma quad_vdot: "quad n a x = vdot n x (mvmul n a x)"
  by (simp add: quad_def vdot_def mvmul_def sum_distrib_left mult.assoc)

lemma vdot_cong: "(\<And>k. k < n \<Longrightarrow> u k = u' k) \<Longrightarrow> (\<And>k. k < n \<Longrightarrow> v k = v' k) \<Longrightarrow> vdot n u v = vdot n u' v'"
  by (auto simp: vdot_def intro!: sum.cong)

lemma msym_mvmul: "msym n a \<Longrightarrow> vdot n x (mvmul n a y) = vdot n (mvmul n a x) y"
proof -
  assume s: "msym n a"
  have "vdot n x (mvmul n a y) = (\<Sum>i<n. \<Sum>j<n. x i * a i j * y j)"
    by (simp add: vdot_def mvmul_def sum_distrib_left mult.assoc)
  also have "\<dots> = (\<Sum>j<n. \<Sum>i<n. x i * a i j * y j)" by (rule sum.swap)
  also have "\<dots> = (\<Sum>j<n. \<Sum>i<n. a j i * x i * y j)"
    using s by (intro sum.cong refl) (simp add: msym_def)
  finally show ?thesis by (simp add: vdot_def mvmul_def sum_distrib_right)
qed

text \<open>The inverse of a symmetric positive semidefinite matrix is one.\<close>

lemma inverse_msym:
  assumes "is_inverse n a b" and "msym n a"
  shows "msym n b"
proof -
  have t: "mmul n (mtrans x) (mtrans y) = mtrans (mmul n y x)" for x y
    by (simp add: mmul_def mtrans_def mult.commute)
  have sa: "meq n (mtrans a) a" using assms(2) by (simp add: meq_def msym_def mtrans_def)
  have ti: "meq n (mtrans x) mident" if "meq n x mident" for x
    using that by (auto simp: meq_def mtrans_def mident_def)
  have "meq n (mtrans b) (mmul n (mtrans b) (mmul n a b))"
  proof -
    have "meq n (mmul n a b) mident" using assms(1) by (simp add: is_inverse_def)
    from mmul_cong [OF meq_refl [of n "mtrans b"] this] show ?thesis
      using mmul_ident(2) meq_sym meq_trans by blast
  qed
  moreover have "meq n (mmul n (mmul n (mtrans b) a) b) (mmul n mident b)"
  proof (rule mmul_cong [OF _ meq_refl])
    have "meq n (mmul n (mtrans b) (mtrans a)) mident"
      unfolding t using assms(1) ti by (simp add: is_inverse_def)
    then show "meq n (mmul n (mtrans b) a) mident"
      using mmul_cong [OF meq_refl [of n "mtrans b"] meq_sym [OF sa]] meq_trans by blast
  qed
  ultimately have "meq n (mtrans b) b" unfolding mmul_assoc using mmul_ident(1) meq_trans by blast
  then show ?thesis by (auto simp: meq_def msym_def mtrans_def)
qed

lemma inverse_mpsd:
  assumes "is_inverse n a b" and "msym n a" and "mpsd n a"
  shows "mpsd n b"
  unfolding mpsd_def
proof
  fix x
  have s: "msym n b" by (rule inverse_msym [OF assms(1,2)])
  have x: "mvmul n a (mvmul n b x) k = x k" if "k < n" for k
    using mvmul_cong [of n "mmul n a b" mident x x k] assms(1) that
    by (simp add: is_inverse_def mvmul_mmul mvmul_ident)
  have "quad n b x = vdot n (mvmul n a (mvmul n b x)) (mvmul n b x)"
    unfolding quad_vdot by (rule vdot_cong) (simp_all add: x)
  also have "\<dots> = quad n a (mvmul n b x)" unfolding quad_vdot using msym_mvmul [OF assms(2)] by simp
  finally show "0 \<le> quad n b x" using assms(3) by (simp add: mpsd_def)
qed

text \<open>Where a quadratic function with a positive semidefinite matrix is least.\<close>

lemma quadratic_minimum:
  assumes "msym n m" and "mpsd n m" and "\<And>i. i < n \<Longrightarrow> mvmul n m y i = g i"
  shows "quad n m y - 2 * vdot n g y \<le> quad n m x - 2 * vdot n g x"
proof -
  let ?d = "\<lambda>i. x i - y i"
  have g: "vdot n g z = vdot n (mvmul n m y) z" for z using assms(3) by (intro vdot_cong) simp_all
  have dist: "mvmul n m ?d = (\<lambda>i. mvmul n m x i - mvmul n m y i)"
    by (simp add: mvmul_def algebra_simps sum_subtractf)
  have "quad n m ?d = quad n m x - vdot n x (mvmul n m y) - vdot n y (mvmul n m x) + quad n m y"
    unfolding quad_vdot dist by (simp add: vdot_def algebra_simps sum_subtractf sum.distrib)
  also have "vdot n x (mvmul n m y) = vdot n (mvmul n m y) x" by (simp add: vdot_def mult.commute)
  also have "vdot n y (mvmul n m x) = vdot n (mvmul n m y) x" by (rule msym_mvmul [OF assms(1)])
  finally have "quad n m x - 2 * vdot n (mvmul n m y) x = quad n m ?d - quad n m y" by simp
  moreover have "vdot n (mvmul n m y) y = quad n m y" by (simp add: quad_vdot vdot_def mult.commute)
  ultimately show ?thesis using assms(2) unfolding g by (simp add: mpsd_def)
qed

end
