(* ===== verification/Global_Esikf.thy ===== *)
theory Global_Esikf
  imports Dense
begin

text \<open>
  The real-time global error-state filter, \<^verbatim>\<open>fast_livo/include/global_esikf.h\<close> and
  \<^verbatim>\<open>fast_livo/src/global_esikf.cpp\<close>: a bounded, time-ordered queue of RTK observations, the matching
  of observations to LIVO poses, propagation, initialisation and the gated Kalman updates on the
  nine-dimensional error state. Each public method runs under the filter's mutex and is one atomic
  step. GTSAM's rotations and poses and Eigen's LDLT solver and angle-axis products are the fields of
  \<open>gtsam\<close>, an argument of the operations that use them. A number is a real; \<open>std::isfinite\<close> is modelled
  for the time stamps, while the squared innovation, computed from finite numbers, is always finite
  here.
\<close>

section \<open>Data\<close>

type_synonym 'r pose = "'r \<times> vec3"

record 'r gtsam =
  g_matrix :: "'r \<Rightarrow> mat3"
  g_rcompose :: "'r \<Rightarrow> 'r \<Rightarrow> 'r"
  g_expmap :: "vec3 \<Rightarrow> 'r"
  g_logmap :: "'r \<Rightarrow> vec3"
  g_of_matrix :: "mat3 \<Rightarrow> 'r"
  g_identity :: 'r
  g_compose :: "'r pose \<Rightarrow> 'r pose \<Rightarrow> 'r pose"
  g_between :: "'r pose \<Rightarrow> 'r pose \<Rightarrow> 'r pose"
  g_zyx_matrix :: "real \<Rightarrow> real \<Rightarrow> real \<Rightarrow> mat3"
  g_ldlt :: "nat \<Rightarrow> mat \<Rightarrow> (mat \<Rightarrow> mat) option"

text \<open>\<open>g_ldlt n a\<close> is the LDLT decomposition of an \<open>n\<close> by \<open>n\<close> matrix: \<open>None\<close> when it fails, the solver
  otherwise. \<open>g_zyx_matrix yaw pitch roll\<close> is the product of the three angle-axis rotations about
  z, y and x.\<close>

record GlobalRtkObservation =
  ob_stamp :: dbl
  ob_position :: vec3
  ob_position_variance :: vec3
  ob_velocity :: vec3
  ob_velocity_variance :: vec3
  ob_heading :: real
  ob_heading_variance :: real
  ob_velocity_valid :: bool
  ob_heading_valid :: bool

record GlobalEsikfConfig =
  ec_enabled :: bool
  ec_sync_tolerance :: real
  ec_rotation_process_variance :: real
  ec_position_process_variance :: real
  ec_velocity_process_variance :: real
  ec_position_nis_gate :: real
  ec_velocity_nis_gate :: real
  ec_heading_nis_gate :: real
  ec_heading_offset :: real
  ec_imu_to_antenna :: vec3

record 'r esikf =
  es_config :: GlobalEsikfConfig
  es_rtk_queue :: "GlobalRtkObservation list"
  es_last_local_pose :: "'r pose"
  es_global_pose :: "'r pose"
  es_velocity :: vec3
  es_angular_velocity_body :: vec3
  es_covariance :: mat
  es_last_livo_stamp :: real
  es_have_livo :: bool
  es_globally_initialized :: bool

definition ob_time :: "GlobalRtkObservation \<Rightarrow> real" where
  "ob_time ob = dbl_val (ob_stamp ob)"

section \<open>Angles and small matrices\<close>

definition kPi :: real where
  "kPi = 314159265358979323846 / 100000000000000000000"

text \<open>The two loops of \<open>wrapAngle\<close>.\<close>

function wrap_down :: "real \<Rightarrow> real" where
  "wrap_down angle = (if angle > kPi then wrap_down (angle - 2 * kPi) else angle)"
  by pat_completeness auto
termination
proof (relation "measure (\<lambda>a. nat \<lceil>(a - kPi) / (2 * kPi)\<rceil>)")
  fix a :: real
  assume "kPi < a"
  then have "0 < (a - kPi) / (2 * kPi)" by (simp add: kPi_def)
  moreover have "(a - 2 * kPi - kPi) / (2 * kPi) = (a - kPi) / (2 * kPi) - 1"
    by (simp add: kPi_def field_simps)
  ultimately show "(a - 2 * kPi, a) \<in> measure (\<lambda>a. nat \<lceil>(a - kPi) / (2 * kPi)\<rceil>)"
    by (simp add: zless_nat_conj)
qed simp

function wrap_up :: "real \<Rightarrow> real" where
  "wrap_up angle = (if angle < - kPi then wrap_up (angle + 2 * kPi) else angle)"
  by pat_completeness auto
termination
proof (relation "measure (\<lambda>a. nat \<lceil>(- a - kPi) / (2 * kPi)\<rceil>)")
  fix a :: real
  assume "a < - kPi"
  then have "0 < (- a - kPi) / (2 * kPi)" by (simp add: kPi_def)
  moreover have "(- (a + 2 * kPi) - kPi) / (2 * kPi) = (- a - kPi) / (2 * kPi) - 1"
    by (simp add: kPi_def field_simps)
  ultimately show "(a + 2 * kPi, a) \<in> measure (\<lambda>a. nat \<lceil>(- a - kPi) / (2 * kPi)\<rceil>)"
    by (simp add: zless_nat_conj)
qed simp

declare wrap_down.simps [simp del] wrap_up.simps [simp del]

definition wrapAngle :: "real \<Rightarrow> real" where
  "wrapAngle angle = wrap_up (wrap_down angle)"

fun skew :: "vec3 \<Rightarrow> mat3" where
  "skew (x, y, z) = ((0, - z, y), (z, 0, - x), (- y, x, 0))"

definition yawOf :: "'r gtsam \<Rightarrow> 'r \<Rightarrow> real" where
  "yawOf g rotation =
     (let m = g_matrix g rotation in atan2 (m3_at m 1 0) (m3_at m 0 0))"

definition replaceYaw :: "'r gtsam \<Rightarrow> 'r \<Rightarrow> real \<Rightarrow> 'r" where
  "replaceYaw g rotation yaw =
     (let m = g_matrix g rotation;
          pitch = arcsin (max (- 1) (min 1 (- m3_at m 2 0)));
          roll = atan2 (m3_at m 2 1) (m3_at m 2 2)
      in g_of_matrix g (g_zyx_matrix g yaw pitch roll))"

section \<open>Configuration and the observation queue\<close>

definition initial_covariance :: mat where
  "initial_covariance =
     mdiag (\<lambda>i. if i < 2 then 1 / 4 else if i = 2 then 1 else if i < 6 then 100 else 4)"

definition es_configure :: "'r gtsam \<Rightarrow> GlobalEsikfConfig \<Rightarrow> 'r esikf \<Rightarrow> 'r esikf" where
  "es_configure g config f =
     f\<lparr>es_config := config, es_rtk_queue := [], es_global_pose := (g_identity g, v3_zero),
       es_velocity := v3_zero, es_angular_velocity_body := v3_zero,
       es_covariance := initial_covariance, es_last_livo_stamp := 0, es_have_livo := False,
       es_globally_initialized := False\<rparr>"

definition pushRtk :: "GlobalRtkObservation \<Rightarrow> 'r esikf \<Rightarrow> 'r esikf" where
  "pushRtk observation f =
     (if \<not> isfinite (ob_stamp observation) then f
      else f\<lparr>es_rtk_queue :=
               pop_while_longer 2000 (ub_insert ob_time observation (es_rtk_queue f))\<rparr>)"

section \<open>Propagation and updates\<close>

definition symmetrise :: "mat \<Rightarrow> mat" where
  "symmetrise p = mscale (1 / 2) (madd p (mtrans p))"

definition predict :: "'r gtsam \<Rightarrow> 'r pose \<Rightarrow> real \<Rightarrow> 'r esikf \<Rightarrow> 'r esikf" where
  "predict g local_relative dt f =
     (let old_position = snd (es_global_pose f);
          old_rotation = g_matrix g (fst (es_global_pose f));
          pose = g_compose g (es_global_pose f) local_relative;
          transition = set_block3 3 0 (m3_neg (m3_mult old_rotation (skew (snd local_relative))))
                         (set_block3 0 0 (m3_transpose (g_matrix g (fst local_relative))) mident);
          c = es_config f;
          process_noise = mdiag (\<lambda>i. if i < 3 then ec_rotation_process_variance c * dt
                                     else if i < 6 then ec_position_process_variance c * dt
                                     else ec_velocity_process_variance c * dt);
          p = madd (mmul 9 (mmul 9 transition (es_covariance f)) (mtrans transition)) process_noise
      in f\<lparr>es_angular_velocity_body := v3_scale (1 / dt) (g_logmap g (fst local_relative)),
           es_global_pose := pose,
           es_velocity := v3_scale (1 / dt) (v3_sub (snd pose) old_position),
           es_covariance := symmetrise p\<rparr>)"

definition initializeFromRtk ::
  "'r gtsam \<Rightarrow> GlobalRtkObservation \<Rightarrow> 'r pose \<Rightarrow> 'r esikf \<Rightarrow> 'r esikf" where
  "initializeFromRtk g observation local_pose f =
     (let c = es_config f;
          rotation = (if ob_heading_valid observation
                      then replaceYaw g (fst local_pose)
                             (wrapAngle (ob_heading observation + ec_heading_offset c))
                      else fst local_pose);
          imu_position = v3_sub (ob_position observation)
                           (m3_apply (g_matrix g rotation) (ec_imu_to_antenna c));
          velocity = (if ob_velocity_valid observation
                      then v3_sub (ob_velocity observation)
                             (m3_apply (g_matrix g rotation)
                                (v3_cross (es_angular_velocity_body f) (ec_imu_to_antenna c)))
                      else v3_zero);
          rv = (if ob_heading_valid observation then ob_heading_variance observation else 1);
          p = set_block3 6 6 (if ob_velocity_valid observation
                              then m3_diag_of (ob_velocity_variance observation) else m3_diag 4 4 4)
               (set_block3 3 3 (m3_diag_of (ob_position_variance observation))
                 (mdiag (\<lambda>i. if i < 3 then rv else 1)))
      in f\<lparr>es_global_pose := (rotation, imu_position), es_velocity := velocity, es_covariance := p,
           es_globally_initialized := True\<rparr>)"

definition injectError :: "'r gtsam \<Rightarrow> vec \<Rightarrow> 'r esikf \<Rightarrow> 'r esikf" where
  "injectError g error f =
     f\<lparr>es_global_pose := (g_rcompose g (fst (es_global_pose f)) (g_expmap g (seg3 0 error)),
                          v3_add (snd (es_global_pose f)) (seg3 3 error)),
       es_velocity := v3_add (es_velocity f) (seg3 6 error)\<rparr>"

text \<open>\<open>kalmanUpdate\<close> with \<open>n\<close> measurements. A vector is solved for as the first column of a matrix.\<close>

definition kalmanUpdate ::
  "'r gtsam \<Rightarrow> nat \<Rightarrow> vec \<Rightarrow> mat \<Rightarrow> mat \<Rightarrow> real \<Rightarrow> 'r esikf \<Rightarrow> bool \<times> 'r esikf" where
  "kalmanUpdate g n innovation jacobian measurement_covariance nis_gate f =
     (let p = es_covariance f;
          s = madd (mmul 9 (mmul 9 jacobian p) (mtrans jacobian)) measurement_covariance
      in case g_ldlt g n s of
           None \<Rightarrow> (False, f)
         | Some solve \<Rightarrow>
             (let nis = vdot n innovation (\<lambda>i. solve (\<lambda>k _. innovation k) i 0)
              in if nis > nis_gate then (False, f)
                 else let gain = mmul n (mmul 9 p (mtrans jacobian)) (solve mident);
                          f = injectError g (mvmul n gain innovation) f;
                          residual = msub mident (mmul n gain jacobian);
                          p = madd (mmul 9 (mmul 9 residual p) (mtrans residual))
                                (mmul n (mmul n gain measurement_covariance) (mtrans gain))
                      in (True, f\<lparr>es_covariance := symmetrise p\<rparr>)))"

definition updatePosition :: "'r gtsam \<Rightarrow> GlobalRtkObservation \<Rightarrow> 'r esikf \<Rightarrow> bool \<times> 'r esikf" where
  "updatePosition g observation f =
     (let c = es_config f;
          rotation = g_matrix g (fst (es_global_pose f));
          predicted = v3_add (snd (es_global_pose f)) (m3_apply rotation (ec_imu_to_antenna c));
          jacobian = set_block3 0 3 m3_one
                       (set_block3 0 0 (m3_neg (m3_mult rotation (skew (ec_imu_to_antenna c)))) mzero)
      in kalmanUpdate g 3 (v3_at (v3_sub (ob_position observation) predicted)) jacobian
           (mdiag (v3_at (ob_position_variance observation))) (ec_position_nis_gate c) f)"

definition updateVelocity :: "'r gtsam \<Rightarrow> GlobalRtkObservation \<Rightarrow> 'r esikf \<Rightarrow> bool \<times> 'r esikf" where
  "updateVelocity g observation f =
     (let c = es_config f;
          rotation = g_matrix g (fst (es_global_pose f));
          lever = v3_cross (es_angular_velocity_body f) (ec_imu_to_antenna c);
          predicted = v3_add (es_velocity f) (m3_apply rotation lever);
          jacobian = set_block3 0 6 m3_one
                       (set_block3 0 0 (m3_neg (m3_mult rotation (skew lever))) mzero)
      in kalmanUpdate g 3 (v3_at (v3_sub (ob_velocity observation) predicted)) jacobian
           (mdiag (v3_at (ob_velocity_variance observation))) (ec_velocity_nis_gate c) f)"

definition updateHeading :: "'r gtsam \<Rightarrow> GlobalRtkObservation \<Rightarrow> 'r esikf \<Rightarrow> bool \<times> 'r esikf" where
  "updateHeading g observation f =
     (let c = es_config f;
          derivative_step = 1 / 1000000;
          rotation = fst (es_global_pose f);
          nominal_yaw = yawOf g rotation;
          column = (\<lambda>axis. wrapAngle (yawOf g (g_rcompose g rotation
                       (g_expmap g (if axis = 0 then (derivative_step, 0, 0)
                                    else if axis = 1 then (0, derivative_step, 0)
                                    else (0, 0, derivative_step))))
                     - nominal_yaw) / derivative_step);
          jacobian = (\<lambda>i j. if i = 0 \<and> j < 3 then column j else 0);
          innovation = (\<lambda>_. wrapAngle (ob_heading observation + ec_heading_offset c - nominal_yaw));
          noise = (\<lambda>_ _. max (1 / 1000000) (ob_heading_variance observation))
      in kalmanUpdate g 1 innovation jacobian noise (ec_heading_nis_gate c) f)"

section \<open>Matching\<close>

text \<open>\<open>while (front.stamp < stamp - tolerance) pop_front()\<close>\<close>

fun drop_expired :: "real \<Rightarrow> GlobalRtkObservation list \<Rightarrow> GlobalRtkObservation list" where
  "drop_expired limit [] = []"
| "drop_expired limit (x # q) = (if ob_time x < limit then drop_expired limit q else x # q)"

text \<open>The search loop from index \<open>i\<close>, with the best index and difference so far.\<close>

fun find_best ::
  "real \<Rightarrow> real \<Rightarrow> nat \<Rightarrow> GlobalRtkObservation list \<Rightarrow> nat option \<Rightarrow> real \<Rightarrow> nat option" where
  "find_best stamp tolerance i [] best best_difference = best"
| "find_best stamp tolerance i (x # q) best best_difference =
     (let difference = \<bar>ob_time x - stamp\<bar>;
          better = difference \<le> best_difference;
          best = (if better then Some i else best);
          best_difference = (if better then difference else best_difference)
      in if ob_time x > stamp + tolerance then best
         else find_best stamp tolerance (i + 1) q best best_difference)"

definition applyRtk ::
  "'r gtsam \<Rightarrow> GlobalRtkObservation \<Rightarrow> 'r pose \<Rightarrow> 'r esikf \<Rightarrow> bool \<times> 'r esikf" where
  "applyRtk g observation local_pose f =
     (if \<not> es_globally_initialized f then (False, initializeFromRtk g observation local_pose f)
      else let (position_used, f) = updatePosition g observation f;
               (velocity_used, f) = (if ob_velocity_valid observation
                                     then updateVelocity g observation f else (False, f));
               (heading_used, f) = (if ob_heading_valid observation
                                    then updateHeading g observation f else (False, f))
           in (position_used \<or> velocity_used \<or> heading_used, f))"

definition propagate :: "'r gtsam \<Rightarrow> real \<Rightarrow> 'r pose \<Rightarrow> 'r esikf \<Rightarrow> 'r esikf" where
  "propagate g stamp local_pose f =
     (if \<not> es_have_livo f
      then f\<lparr>es_last_local_pose := local_pose, es_global_pose := local_pose,
             es_last_livo_stamp := stamp, es_have_livo := True\<rparr>
      else let dt = stamp - es_last_livo_stamp f;
               f = (if dt \<le> 0 \<or> dt > 1 then f
                    else predict g (g_between g (es_last_local_pose f) local_pose) dt f)
           in f\<lparr>es_last_local_pose := local_pose, es_last_livo_stamp := stamp\<rparr>)"

text \<open>The result is the return value, the flag \<open>rtk_updated\<close> and the state; the other outputs of
  \<open>processLivo\<close> are fields of the state.\<close>

definition processLivo ::
  "'r gtsam \<Rightarrow> dbl \<Rightarrow> 'r pose \<Rightarrow> 'r esikf \<Rightarrow> bool \<times> bool \<times> 'r esikf" where
  "processLivo g stamp local_pose f =
     (if \<not> ec_enabled (es_config f) \<or> \<not> isfinite stamp then (False, False, f)
      else let t = dbl_val stamp;
               f = propagate g t local_pose f;
               tolerance = ec_sync_tolerance (es_config f);
               q = drop_expired (t - tolerance) (es_rtk_queue f)
           in case find_best t tolerance 0 q None tolerance of
                None \<Rightarrow> (es_globally_initialized f, False, f\<lparr>es_rtk_queue := q\<rparr>)
              | Some i \<Rightarrow>
                  (let (updated, f) = applyRtk g (q ! i) local_pose
                                        (f\<lparr>es_rtk_queue := drop (i + 1) q\<rparr>)
                   in (es_globally_initialized f, updated, f)))"

definition globallyInitialized :: "'r esikf \<Rightarrow> bool" where
  "globallyInitialized f = es_globally_initialized f"

section \<open>Angles\<close>

lemma kPi_pos: "0 < kPi" by (simp add: kPi_def)

lemma wrap_down_bounds: "wrap_down a \<le> kPi \<and> (- kPi \<le> a \<longrightarrow> - kPi \<le> wrap_down a)"
proof (induction a rule: wrap_down.induct)
  case (1 a)
  then show ?case
    using kPi_pos by (subst (1 2) wrap_down.simps) auto
qed

lemma wrap_up_bounds: "- kPi \<le> wrap_up a \<and> (a \<le> kPi \<longrightarrow> wrap_up a \<le> kPi)"
proof (induction a rule: wrap_up.induct)
  case (1 a)
  then show ?case
    using kPi_pos by (subst (1 2) wrap_up.simps) auto
qed

lemma wrap_down_cong: "\<exists>k::int. wrap_down a = a + of_int k * (2 * kPi)"
proof (induction a rule: wrap_down.induct)
  case (1 a)
  show ?case
  proof (cases "a > kPi")
    case True
    with 1 obtain k :: int where "wrap_down (a - 2 * kPi) = a - 2 * kPi + of_int k * (2 * kPi)" by blast
    with True have "wrap_down a = a + of_int (k - 1) * (2 * kPi)"
      by (subst wrap_down.simps) (simp add: algebra_simps)
    then show ?thesis by blast
  next
    case False
    then show ?thesis by (subst wrap_down.simps) (auto intro: exI [of _ 0])
  qed
qed

lemma wrap_up_cong: "\<exists>k::int. wrap_up a = a + of_int k * (2 * kPi)"
proof (induction a rule: wrap_up.induct)
  case (1 a)
  show ?case
  proof (cases "a < - kPi")
    case True
    with 1 obtain k :: int where "wrap_up (a + 2 * kPi) = a + 2 * kPi + of_int k * (2 * kPi)" by blast
    with True have "wrap_up a = a + of_int (k + 1) * (2 * kPi)"
      by (subst wrap_up.simps) (simp add: algebra_simps)
    then show ?thesis by blast
  next
    case False
    then show ?thesis by (subst wrap_up.simps) (auto intro: exI [of _ 0])
  qed
qed

text \<open>\<open>wrapAngle\<close> terminates on every angle and returns the equivalent angle of the
  interval from minus to plus \<open>kPi\<close>: it differs from its argument by a multiple of a full turn.\<close>

theorem wrapAngle_normalises:
  "- kPi \<le> wrapAngle angle \<and> wrapAngle angle \<le> kPi
   \<and> (\<exists>k::int. wrapAngle angle = angle + of_int k * (2 * kPi))"
proof -
  obtain k :: int where k: "wrap_down angle = angle + of_int k * (2 * kPi)"
    using wrap_down_cong by blast
  obtain l :: int where "wrap_up (wrap_down angle) = wrap_down angle + of_int l * (2 * kPi)"
    using wrap_up_cong by blast
  with k have "wrapAngle angle = angle + of_int (k + l) * (2 * kPi)"
    by (simp add: wrapAngle_def algebra_simps)
  then show ?thesis
    using wrap_up_bounds [of "wrap_down angle"] wrap_down_bounds [of angle]
    unfolding wrapAngle_def by blast
qed

section \<open>Matching picks the nearest observation\<close>

lemma drop_expired_eq: "drop_expired limit q = dropWhile (\<lambda>x. ob_time x < limit) q"
  by (induction limit q rule: drop_expired.induct) auto

lemma find_best_spec:
  assumes "sorted (map ob_time q)" and "bd \<le> tol"
  shows "find_best t tol i q best bd = best \<and> (\<forall>x \<in> set q. bd < \<bar>ob_time x - t\<bar>)
       \<or> (\<exists>k < length q. find_best t tol i q best bd = Some (i + k) \<and> \<bar>ob_time (q ! k) - t\<bar> \<le> bd
            \<and> (\<forall>x \<in> set q. \<bar>ob_time (q ! k) - t\<bar> \<le> \<bar>ob_time x - t\<bar>))"
  using assms
proof (induction q arbitrary: i best bd)
  case Nil
  then show ?case by simp
next
  case (Cons x q)
  let ?d = "\<bar>ob_time x - t\<bar>"
  let ?best = "if ?d \<le> bd then Some i else best"
  let ?bd = "if ?d \<le> bd then ?d else bd"
  show ?case
  proof (cases "ob_time x > t + tol")
    case True
    with Cons.prems have far: "\<forall>y \<in> set (x # q). bd < \<bar>ob_time y - t\<bar>" by auto
    with True show ?thesis by (simp add: Let_def)
  next
    case False
    have bd: "?bd \<le> tol" "?bd \<le> bd" "?bd \<le> ?d" using Cons.prems(2) by auto
    have step: "find_best t tol i (x # q) best bd = find_best t tol (i + 1) q ?best ?bd"
      using False by (simp add: Let_def)
    have "sorted (map ob_time q)" using Cons.prems(1) by simp
    from Cons.IH [OF this bd(1), of "i + 1" ?best] show ?thesis
    proof (elim disjE conjE exE)
      assume *: "find_best t tol (i + 1) q ?best ?bd = ?best" "\<forall>x \<in> set q. ?bd < \<bar>ob_time x - t\<bar>"
      show ?thesis
      proof (cases "?d \<le> bd")
        case True
        with * show ?thesis unfolding step by (intro disjI2 exI [of _ 0]) auto
      next
        case False
        with * show ?thesis unfolding step by auto
      qed
    next
      fix k assume *: "k < length q" "find_best t tol (i + 1) q ?best ?bd = Some (i + 1 + k)"
        "\<bar>ob_time (q ! k) - t\<bar> \<le> ?bd" "\<forall>x \<in> set q. \<bar>ob_time (q ! k) - t\<bar> \<le> \<bar>ob_time x - t\<bar>"
      then show ?thesis
        using bd(2,3) unfolding step by (intro disjI2 exI [of _ "Suc k"]) auto
    qed
  qed
qed

section \<open>Invariant\<close>

definition config_ok :: "GlobalEsikfConfig \<Rightarrow> bool" where
  "config_ok c =
     (0 \<le> ec_rotation_process_variance c \<and> 0 \<le> ec_position_process_variance c
      \<and> 0 \<le> ec_velocity_process_variance c \<and> 0 \<le> ec_sync_tolerance c)"

fun v3_nonneg :: "vec3 \<Rightarrow> bool" where
  "v3_nonneg (x, y, z) = (0 \<le> x \<and> 0 \<le> y \<and> 0 \<le> z)"

definition ob_ok :: "GlobalRtkObservation \<Rightarrow> bool" where
  "ob_ok ob =
     (v3_nonneg (ob_position_variance ob) \<and> v3_nonneg (ob_velocity_variance ob)
      \<and> 0 \<le> ob_heading_variance ob)"

definition queue_inv :: "'r esikf \<Rightarrow> bool" where
  "queue_inv f =
     (sorted (map ob_time (es_rtk_queue f)) \<and> length (es_rtk_queue f) \<le> 2000
      \<and> (\<forall>x \<in> set (es_rtk_queue f). isfinite (ob_stamp x) \<and> ob_ok x))"

definition cov_inv :: "'r esikf \<Rightarrow> bool" where
  "cov_inv f = (msym 9 (es_covariance f) \<and> mpsd 9 (es_covariance f))"

definition esikf_inv :: "'r esikf \<Rightarrow> bool" where
  "esikf_inv f = (config_ok (es_config f) \<and> queue_inv f \<and> cov_inv f)"

lemma v3_at_nonneg: "v3_nonneg v \<Longrightarrow> 0 \<le> v3_at v i"
  by (cases v) auto

lemma m3_at_diag:
  "i < 3 \<Longrightarrow> j < 3 \<Longrightarrow> m3_at (m3_diag_of v) i j = (if i = j then v3_at v i else 0)"
  by (cases v) (auto simp: m3_diag_of_def m3_diag_def)

lemma symmetrise_inv [inv_intros]:
  "mpsd n p \<Longrightarrow> msym n (symmetrise p) \<and> mpsd n (symmetrise p)"
  unfolding symmetrise_def by (intro conjI msym_symmetrise mpsd_symmetrise)

lemma cov_inv_predict [inv_intros]:
  assumes "cov_inv f" and "config_ok (es_config f)" and "0 < dt"
  shows "cov_inv (predict g rel dt f)"
proof -
  let ?c = "es_config f"
  have "mpsd 9 (mdiag (\<lambda>i. if i < 3 then ec_rotation_process_variance ?c * dt
                           else if i < 6 then ec_position_process_variance ?c * dt
                           else ec_velocity_process_variance ?c * dt))"
    using assms(2,3) by (intro mpsd_mdiag) (auto simp: config_ok_def)
  then show ?thesis
    using assms(1) unfolding cov_inv_def predict_def Let_def
    by (simp add: symmetrise_inv mpsd_add mpsd_conj)
qed

lemma cov_inv_init [inv_intros]:
  assumes "ob_ok ob"
  shows "cov_inv (initializeFromRtk g ob pose f)"
proof -
  let ?rv = "if ob_heading_valid ob then ob_heading_variance ob else 1"
  let ?vv = "if ob_velocity_valid ob then ob_velocity_variance ob else (4, 4, 4)"
  let ?d = "\<lambda>i. if i < 3 then ?rv else if i < 6 then v3_at (ob_position_variance ob) (i - 3)
              else v3_at ?vv (i - 6)"
  let ?p = "es_covariance (initializeFromRtk g ob pose f)"
  have vv: "(if ob_velocity_valid ob then m3_diag_of (ob_velocity_variance ob) else m3_diag 4 4 4)
      = m3_diag_of ?vv" by (simp add: m3_diag_of_def)
  have nn: "0 \<le> v3_at ?vv i" for i
    using assms by (cases "ob_velocity_valid ob") (simp_all add: ob_ok_def v3_at_nonneg)
  have "?p i j = mdiag ?d i j" if "i < 9" "j < 9" for i j
    using that unfolding initializeFromRtk_def Let_def vv
    by (auto simp: set_block3_def mdiag_def m3_at_diag)
  moreover have "0 \<le> ?d i" for i
    using assms nn by (auto simp: ob_ok_def v3_at_nonneg)
  ultimately show ?thesis unfolding cov_inv_def by (blast intro: mpsd_diagI)
qed

lemma cov_inv_kalmanUpdate [inv_intros]:
  assumes "cov_inv f" and "mpsd n r"
  shows "cov_inv (snd (kalmanUpdate g n v h r gate f))"
  using assms unfolding cov_inv_def kalmanUpdate_def Let_def
  by (auto simp: symmetrise_inv mpsd_add mpsd_conj split: option.split)

lemma kalmanUpdate_frame:
  "es_config (snd (kalmanUpdate g n v h r gate f)) = es_config f"
  "es_rtk_queue (snd (kalmanUpdate g n v h r gate f)) = es_rtk_queue f"
  "es_globally_initialized (snd (kalmanUpdate g n v h r gate f)) = es_globally_initialized f"
  by (simp_all add: kalmanUpdate_def Let_def injectError_def split: option.split)

lemma update_frame:
  "es_config (snd (updatePosition g ob f)) = es_config f"
  "es_rtk_queue (snd (updatePosition g ob f)) = es_rtk_queue f"
  "es_config (snd (updateVelocity g ob f)) = es_config f"
  "es_rtk_queue (snd (updateVelocity g ob f)) = es_rtk_queue f"
  "es_config (snd (updateHeading g ob f)) = es_config f"
  "es_rtk_queue (snd (updateHeading g ob f)) = es_rtk_queue f"
  by (simp_all add: updatePosition_def updateVelocity_def updateHeading_def Let_def kalmanUpdate_frame)

lemma cov_inv_updates [inv_intros]:
  assumes "cov_inv f" and "ob_ok ob"
  shows "cov_inv (snd (updatePosition g ob f))" and "cov_inv (snd (updateVelocity g ob f))"
    and "cov_inv (snd (updateHeading g ob f))"
proof -
  have "mpsd 3 (mdiag (v3_at (ob_position_variance ob)))" "mpsd 3 (mdiag (v3_at (ob_velocity_variance ob)))"
    using assms(2) by (auto simp: ob_ok_def v3_at_nonneg intro: mpsd_mdiag)
  moreover have "mpsd 1 (\<lambda>_ _. max (1 / 1000000) (ob_heading_variance ob))"
    by (simp add: mpsd_def quad_def zero_le_mult_iff le_max_iff_disj mult.commute [of _ "max _ _"]
        mult.assoc)
  ultimately show "cov_inv (snd (updatePosition g ob f))" "cov_inv (snd (updateVelocity g ob f))"
    "cov_inv (snd (updateHeading g ob f))"
    using assms(1) unfolding updatePosition_def updateVelocity_def updateHeading_def Let_def
    by (blast intro: cov_inv_kalmanUpdate)+
qed

lemma init_frame:
  "es_config (initializeFromRtk g ob pose f) = es_config f"
  "es_rtk_queue (initializeFromRtk g ob pose f) = es_rtk_queue f"
  by (simp_all add: initializeFromRtk_def Let_def)

lemma applyRtk_inv:
  assumes "cov_inv f" and "ob_ok ob"
  shows "cov_inv (snd (applyRtk g ob pose f))"
    and "es_config (snd (applyRtk g ob pose f)) = es_config f"
    and "es_rtk_queue (snd (applyRtk g ob pose f)) = es_rtk_queue f"
  using assms
  by (auto simp: applyRtk_def case_prod_beta Let_def update_frame init_frame
      intro: cov_inv_updates cov_inv_init)

lemma propagate_inv:
  assumes "cov_inv f" and "config_ok (es_config f)"
  shows "cov_inv (propagate g t pose f)"
    and "es_config (propagate g t pose f) = es_config f"
    and "es_rtk_queue (propagate g t pose f) = es_rtk_queue f"
  using assms cov_inv_predict [OF assms]
  by (auto simp: propagate_def Let_def cov_inv_def predict_def)

lemma queue_inv_suffix:
  assumes "queue_inv f" and "\<exists>n. es_rtk_queue f' = drop n (es_rtk_queue f)"
  shows "queue_inv f'"
proof -
  obtain n where n: "es_rtk_queue f' = drop n (es_rtk_queue f)" using assms(2) by blast
  show ?thesis
    using assms(1) set_drop_subset [of n "es_rtk_queue f"] unfolding queue_inv_def n
    by (auto intro: sorted_map_drop)
qed

text \<open>One call of \<open>processLivo\<close>, by outcome of the search.\<close>

lemma processLivo_cases:
  assumes "queue_inv f" and "cov_inv f" and "config_ok (es_config f)" and "ec_enabled (es_config f)"
    and "processLivo g (Num t) pose f = (ready, updated, f')"
  defines "tol \<equiv> ec_sync_tolerance (es_config f)"
  obtains (none) "\<forall>x \<in> set (es_rtk_queue f). tol < \<bar>ob_time x - t\<bar>" "\<not> updated"
      "f' = (propagate g t pose f)\<lparr>es_rtk_queue := dropWhile (\<lambda>x. ob_time x < t - tol) (es_rtk_queue f)\<rparr>"
  | (match) pre x post where "es_rtk_queue f = pre @ x # post" "\<bar>ob_time x - t\<bar> \<le> tol"
      "\<forall>y \<in> set (es_rtk_queue f). \<bar>ob_time x - t\<bar> \<le> \<bar>ob_time y - t\<bar>"
      "(updated, f') = applyRtk g x pose ((propagate g t pose f)\<lparr>es_rtk_queue := post\<rparr>)"
proof -
  let ?Q = "es_rtk_queue f"
  let ?q = "dropWhile (\<lambda>x. ob_time x < t - tol) ?Q"
  let ?early = "takeWhile (\<lambda>x. ob_time x < t - tol) ?Q"
  have pf: "es_config (propagate g t pose f) = es_config f"
    "es_rtk_queue (propagate g t pose f) = ?Q"
    using propagate_inv [OF assms(2,3)] by auto
  have split: "?Q = ?early @ ?q" by simp
  have sets: "set ?Q = set ?early \<union> set ?q" by (metis set_append split)
  have sorted: "sorted (map ob_time ?q)"
    using assms(1) by (metis queue_inv_def dropWhile_eq_drop sorted_map_drop)
  have early: "\<forall>x \<in> set ?early. tol < \<bar>ob_time x - t\<bar>" by (auto dest: set_takeWhileD)
  have P: "processLivo g (Num t) pose f =
      (case find_best t tol 0 ?q None tol of
         None \<Rightarrow> (es_globally_initialized (propagate g t pose f), False,
                   (propagate g t pose f)\<lparr>es_rtk_queue := ?q\<rparr>)
       | Some i \<Rightarrow>
           (let (updated, f) = applyRtk g (?q ! i) pose ((propagate g t pose f)\<lparr>es_rtk_queue := drop (i + 1) ?q\<rparr>)
            in (es_globally_initialized f, updated, f)))"
    using assms(4) by (simp add: processLivo_def Let_def pf drop_expired_eq tol_def cong: option.case_cong)
  from find_best_spec [OF sorted order_refl, of t tol 0 None] show thesis
  proof (elim disjE conjE exE)
    assume f: "find_best t tol 0 ?q None tol = None" and far: "\<forall>x \<in> set ?q. tol < \<bar>ob_time x - t\<bar>"
    from far early sets have "\<forall>x \<in> set ?Q. tol < \<bar>ob_time x - t\<bar>" by blast
    with f P assms(5) show thesis by (intro none) simp_all
  next
    fix k assume k: "k < length ?q" "find_best t tol 0 ?q None tol = Some (0 + k)"
      "\<bar>ob_time (?q ! k) - t\<bar> \<le> tol"
      "\<forall>x \<in> set ?q. \<bar>ob_time (?q ! k) - t\<bar> \<le> \<bar>ob_time x - t\<bar>"
    have "?Q = (?early @ take k ?q) @ ?q ! k # drop (Suc k) ?q"
      using id_take_nth_drop [OF k(1)] split by simp
    moreover have "\<forall>x \<in> set ?Q. \<bar>ob_time (?q ! k) - t\<bar> \<le> \<bar>ob_time x - t\<bar>"
      using k(3,4) early sets by force
    moreover have "(updated, f') = applyRtk g (?q ! k) pose
        ((propagate g t pose f)\<lparr>es_rtk_queue := drop (Suc k) ?q\<rparr>)"
      using P k(2) assms(5) by (simp add: case_prod_beta Let_def)
    ultimately show thesis by (rule match [OF _ k(3)])
  qed
qed

lemma esikf_inv_processLivo:
  assumes "esikf_inv f"
  shows "esikf_inv (snd (snd (processLivo g stamp pose f)))"
proof (cases "ec_enabled (es_config f) \<and> isfinite stamp")
  case False
  with assms show ?thesis by (auto simp: processLivo_def)
next
  case True
  then obtain t where t: "stamp = Num t" by (cases stamp) auto
  have inv: "queue_inv f" "cov_inv f" "config_ok (es_config f)" using assms by (auto simp: esikf_inv_def)
  obtain ready updated f' where r: "processLivo g (Num t) pose f = (ready, updated, f')"
    by (metis prod.exhaust)
  note p = propagate_inv [OF inv(2,3), of g t pose]
  from inv(1) inv(2) inv(3) True[THEN conjunct1] r have "esikf_inv f'"
  proof (cases rule: processLivo_cases)
    case none
    have "queue_inv f'" by (rule queue_inv_suffix [OF inv(1)]) (simp add: none, metis dropWhile_eq_drop)
    with none(3) p inv(3) show ?thesis by (simp add: esikf_inv_def cov_inv_def)
  next
    case (match pre x post)
    let ?f = "(propagate g t pose f)\<lparr>es_rtk_queue := post\<rparr>"
    have "ob_ok x" using inv(1) match(1) by (simp add: queue_inv_def)
    moreover have "cov_inv ?f" using p by (simp add: cov_inv_def)
    ultimately have a: "cov_inv (snd (applyRtk g x pose ?f))"
      "es_config (snd (applyRtk g x pose ?f)) = es_config f"
      "es_rtk_queue (snd (applyRtk g x pose ?f)) = post"
      using applyRtk_inv [of ?f x g pose] p by auto
    have f': "f' = snd (applyRtk g x pose ?f)" using match(4) by (metis snd_conv)
    have "queue_inv f'"
      by (rule queue_inv_suffix [OF inv(1)]) (simp add: f' a match(1), rule exI [of _ "Suc (length pre)"], simp)
    with a inv(3) f' show ?thesis by (simp add: esikf_inv_def)
  qed
  with r t show ?thesis by simp
qed

lemma esikf_inv_pushRtk:
  assumes "esikf_inv f" and "ob_ok ob"
  shows "esikf_inv (pushRtk ob f)"
proof (cases "isfinite (ob_stamp ob)")
  case False
  with assms(1) show ?thesis by (simp add: pushRtk_def)
next
  case True
  let ?q = "ub_insert ob_time ob (es_rtk_queue f)"
  have "sorted (map ob_time ?q)" using assms(1)
    by (auto simp: esikf_inv_def queue_inv_def intro: sorted_ub_insert)
  moreover have "\<forall>x \<in> set (drop (length ?q - 2000) ?q). isfinite (ob_stamp x) \<and> ob_ok x"
    using assms True set_drop_subset [of "length ?q - 2000" ?q]
    by (auto simp: esikf_inv_def queue_inv_def)
  ultimately show ?thesis
    using assms(1) True
    by (auto simp: esikf_inv_def queue_inv_def cov_inv_def pushRtk_def pop_while_longer_eq
        intro: sorted_map_drop)
qed

lemma esikf_inv_configure:
  assumes "config_ok c"
  shows "esikf_inv (es_configure g c f)"
proof -
  have "msym 9 initial_covariance" "mpsd 9 initial_covariance"
    unfolding initial_covariance_def by (auto intro: msym_mdiag mpsd_mdiag)
  then show ?thesis using assms by (simp add: esikf_inv_def es_configure_def queue_inv_def cov_inv_def)
qed

section \<open>Runs\<close>

text \<open>The filter after \<open>configure\<close>, under any sequence of RTK and LIVO callbacks.\<close>

inductive esikf_reach :: "'r gtsam \<Rightarrow> 'r esikf \<Rightarrow> bool" for g where
  configured: "config_ok c \<Longrightarrow> esikf_reach g (es_configure g c f)"
| rtk: "esikf_reach g f \<Longrightarrow> ob_ok ob \<Longrightarrow> esikf_reach g (pushRtk ob f)"
| livo: "esikf_reach g f \<Longrightarrow> processLivo g stamp pose f = (r, u, f') \<Longrightarrow> esikf_reach g f'"

lemma esikf_reach_inv: "esikf_reach g f \<Longrightarrow> esikf_inv f"
proof (induction rule: esikf_reach.induct)
  case (livo f stamp pose r u f')
  then show ?case using esikf_inv_processLivo [of f g stamp pose] by simp
qed (auto intro: esikf_inv_configure esikf_inv_pushRtk)

text \<open>C3: Whatever the callbacks deliver, in whatever order, and whatever the LDLT solver
  returns, the nine by nine error covariance stays symmetric and positive semidefinite, as long as
  the configured process variances and the reported variances are not negative. The header claims
  this of the Joseph form; here it covers configuration, propagation, initialisation and all three
  updates.\<close>

theorem covariance_symmetric_psd:
  assumes "esikf_reach g f"
  shows "msym 9 (es_covariance f) \<and> mpsd 9 (es_covariance f)"
  using esikf_reach_inv [OF assms] by (simp add: esikf_inv_def cov_inv_def)

text \<open>Along every run the observation queue is in time order, holds at most 2000
  observations and only finite time stamps, whatever order the messages arrive in.\<close>

theorem rtk_queue_sorted_bounded:
  assumes "esikf_reach g f"
  shows "sorted (map ob_time (es_rtk_queue f)) \<and> length (es_rtk_queue f) \<le> 2000
       \<and> (\<forall>x \<in> set (es_rtk_queue f). isfinite (ob_stamp x))"
  using esikf_reach_inv [OF assms] by (simp add: esikf_inv_def queue_inv_def)

text \<open>C35: A LIVO frame uses at most one observation, the one nearest in time among all queued
  ones, and only if it is within the tolerance; it is applied after propagation and removed together
  with everything queued before it, so no observation is used twice. Without a match the filter
  only propagates and drops the observations that can no longer match.\<close>

theorem processLivo_matches_nearest:
  assumes "esikf_reach g f" and "ec_enabled (es_config f)"
    and "processLivo g (Num t) pose f = (ready, updated, f')"
  defines "tol \<equiv> ec_sync_tolerance (es_config f)"
  shows "(\<forall>x \<in> set (es_rtk_queue f). tol < \<bar>ob_time x - t\<bar>) \<and> \<not> updated
         \<and> f' = (propagate g t pose f)\<lparr>es_rtk_queue := dropWhile (\<lambda>x. ob_time x < t - tol) (es_rtk_queue f)\<rparr>
       \<or> (\<exists>pre x post. es_rtk_queue f = pre @ x # post \<and> \<bar>ob_time x - t\<bar> \<le> tol
            \<and> (\<forall>y \<in> set (es_rtk_queue f). \<bar>ob_time x - t\<bar> \<le> \<bar>ob_time y - t\<bar>)
            \<and> (updated, f') = applyRtk g x pose ((propagate g t pose f)\<lparr>es_rtk_queue := post\<rparr>))"
proof -
  have inv: "queue_inv f" "cov_inv f" "config_ok (es_config f)"
    using esikf_reach_inv [OF assms(1)] by (auto simp: esikf_inv_def)
  show ?thesis unfolding tol_def by (rule processLivo_cases [OF inv assms(2,3)]) blast+
qed

section \<open>A concrete run\<close>

text \<open>Poses without rotation, and a solver for diagonal matrices, instantiate the library; two
  observations 40 ms apart and one LIVO frame between them.\<close>

definition ex_g :: "unit gtsam" where
  "ex_g = \<lparr>g_matrix = (\<lambda>_. m3_one), g_rcompose = (\<lambda>_ _. ()), g_expmap = (\<lambda>_. ()),
     g_logmap = (\<lambda>_. v3_zero), g_of_matrix = (\<lambda>_. ()), g_identity = (),
     g_compose = (\<lambda>a b. ((), v3_add (snd a) (snd b))), g_between = (\<lambda>a b. ((), v3_sub (snd b) (snd a))),
     g_zyx_matrix = (\<lambda>_ _ _. m3_one), g_ldlt = (\<lambda>n s. Some (\<lambda>b i j. b i j / s i i))\<rparr>"

definition ex_config :: GlobalEsikfConfig where
  "ex_config = \<lparr>ec_enabled = True, ec_sync_tolerance = 1 / 10, ec_rotation_process_variance = 1 / 40000,
     ec_position_process_variance = 1 / 400, ec_velocity_process_variance = 1 / 40,
     ec_position_nis_gate = 1627 / 100, ec_velocity_nis_gate = 1627 / 100, ec_heading_nis_gate = 9,
     ec_heading_offset = 0, ec_imu_to_antenna = v3_zero\<rparr>"

definition ex_ob :: "real \<Rightarrow> GlobalRtkObservation" where
  "ex_ob t = \<lparr>ob_stamp = Num t, ob_position = (5, 6, 7), ob_position_variance = (1, 1, 1),
     ob_velocity = (0, 0, 0), ob_velocity_variance = (1, 1, 1), ob_heading = 0,
     ob_heading_variance = 1, ob_velocity_valid = False, ob_heading_valid = False\<rparr>"

definition ex_blank :: "unit esikf" where
  "ex_blank = \<lparr>es_config = ex_config, es_rtk_queue = [], es_last_local_pose = ((), v3_zero),
     es_global_pose = ((), v3_zero), es_velocity = v3_zero, es_angular_velocity_body = v3_zero,
     es_covariance = mident, es_last_livo_stamp = 0, es_have_livo = False,
     es_globally_initialized = False\<rparr>"

definition ex_filter :: "unit esikf" where
  "ex_filter = pushRtk (ex_ob (100 + 1 / 100)) (pushRtk (ex_ob (100 + 5 / 100))
     (es_configure ex_g ex_config ex_blank))"

lemma ex_filter_reach: "esikf_reach ex_g ex_filter"
  unfolding ex_filter_def
  by (intro esikf_reach.rtk esikf_reach.configured) (simp_all add: config_ok_def ex_config_def ob_ok_def ex_ob_def)

lemma ex_filter_queue: "es_rtk_queue ex_filter = [ex_ob (100 + 1 / 100), ex_ob (100 + 5 / 100)]"
  by (simp add: ex_filter_def pushRtk_def es_configure_def ex_ob_def ob_time_def pop_while_longer_eq)

lemma ex_filter_config: "es_config ex_filter = ex_config"
  by (simp add: ex_filter_def pushRtk_def es_configure_def ex_ob_def)

theorem covariance_symmetric_psd_witness:
  "\<exists>f'. snd (snd (processLivo ex_g (Num (100 + 4 / 100)) ((), v3_zero) ex_filter)) = f'
     \<and> es_globally_initialized f' \<and> msym 9 (es_covariance f') \<and> mpsd 9 (es_covariance f')"
proof -
  let ?p = "processLivo ex_g (Num (100 + 4 / 100)) ((), v3_zero) ex_filter"
  obtain r u f' where p: "?p = (r, u, f')" by (metis prod.exhaust)
  have "esikf_reach ex_g f'" by (rule esikf_reach.livo [OF ex_filter_reach p])
  moreover have "\<not> es_globally_initialized ex_filter" "\<not> es_have_livo ex_filter"
    by (simp_all add: ex_filter_def pushRtk_def es_configure_def ex_ob_def)
  then have "es_globally_initialized f'"
    using p by (auto simp: processLivo_def propagate_def ex_filter_queue ex_filter_config ex_config_def
        ex_ob_def ob_time_def Let_def applyRtk_def initializeFromRtk_def case_prod_beta)
  ultimately show ?thesis using covariance_symmetric_psd [of ex_g f'] p by simp
qed

theorem rtk_queue_sorted_bounded_witness:
  "sorted (map ob_time (es_rtk_queue ex_filter)) \<and> es_rtk_queue ex_filter \<noteq> []"
  using rtk_queue_sorted_bounded [OF ex_filter_reach] by (simp add: ex_filter_queue)

theorem processLivo_matches_nearest_witness:
  "\<exists>r u f'. processLivo ex_g (Num (100 + 4 / 100)) ((), v3_zero) ex_filter = (r, u, f')
     \<and> (\<exists>pre x post. es_rtk_queue ex_filter = pre @ x # post
          \<and> (\<forall>y \<in> set (es_rtk_queue ex_filter).
               \<bar>ob_time x - (100 + 4 / 100)\<bar> \<le> \<bar>ob_time y - (100 + 4 / 100)\<bar>))"
proof -
  let ?p = "processLivo ex_g (Num (100 + 4 / 100)) ((), v3_zero) ex_filter"
  obtain r u f' where p: "?p = (r, u, f')" by (metis prod.exhaust)
  have near: "\<not> (\<forall>x \<in> set (es_rtk_queue ex_filter). ec_sync_tolerance (es_config ex_filter)
                  < \<bar>ob_time x - (100 + 4 / 100)\<bar>)"
    by (simp add: ex_filter_queue ex_filter_config ex_config_def ex_ob_def ob_time_def)
  have "ec_enabled (es_config ex_filter)" by (simp add: ex_filter_config ex_config_def)
  from processLivo_matches_nearest [OF ex_filter_reach this p] near p show ?thesis by blast
qed

end
