(* ===== verification/Rtk_Backend.thy ===== *)
theory Rtk_Backend
  imports Global_Esikf Gnss_Types
begin

text \<open>
  The online global back end, \<^verbatim>\<open>fast_livo/include/optimization.h\<close> and \<^verbatim>\<open>fast_livo/src/optimization.cpp\<close>:
  the RTK gates and queues, keyframe selection and the bounded keyframe queue, the growth of the
  factor graph keyframe by keyframe, Scan Context loop detection, GICP verification, and the smoothed
  global correction. GTSAM (poses, iSAM2), PCL (voxel filter, GICP) and GeographicLib are the fields of
  \<open>backend_lib\<close>. iSAM2 is used through its history: the state keeps the list of updates, and an
  estimate is a function of that list. Publishing, files and parameter loading are left out.
\<close>

section \<open>Data\<close>

type_synonym cloud = "vec3 list"

datatype kernel = Gaussian | Huber real | Cauchy real

datatype 'r factor =
    PriorFactor nat "'r pose" "real list"
  | BetweenFactor nat nat "'r pose" "real list" kernel
  | AntennaPositionFactor nat vec3 vec3 vec3 kernel
  | AntennaVelocityFactor nat nat vec3 vec3 real vec3 kernel
  | HeadingFactor nat real real kernel

text \<open>One \<open>isam_->update\<close> with new factors and the value of one new node, followed by the given
  number of updates without arguments.\<close>

record 'r isam_update =
  iu_factors :: "'r factor list"
  iu_key :: nat
  iu_value :: "'r pose"
  iu_extra :: nat

record 'r backend_lib =
  bl_g :: "'r gtsam"
  bl_rotate :: "'r \<Rightarrow> vec3 \<Rightarrow> vec3"
  bl_inverse :: "'r pose \<Rightarrow> 'r pose"
  bl_pose_logmap :: "'r pose \<Rightarrow> vec"
  bl_pose_expmap :: "vec \<Rightarrow> 'r pose"
  bl_pose_matrix :: "'r pose \<Rightarrow> mat"
  bl_estimate :: "'r isam_update list \<Rightarrow> 'r pose list"
  bl_voxel_filter :: "real \<Rightarrow> cloud \<Rightarrow> cloud"
  bl_gicp :: "cloud \<Rightarrow> cloud \<Rightarrow> mat \<Rightarrow> bool \<times> dbl \<times> mat"
  bl_forward :: "vec3 \<Rightarrow> vec3 \<Rightarrow> vec3"

record ScanContextEntry =
  sc_descriptor :: "real list list"
  sc_ring_key :: "real list"

record 'r BackendKeyframeInput =
  ki_stamp :: real
  ki_local_pose :: "'r pose"
  ki_cloud :: cloud

record backend_config =
  bc_gps_enabled :: bool
  bc_gps_time_offset :: real
  bc_rtk_sync_tolerance :: real
  bc_rtk_max_horizontal_std :: real
  bc_rtk_max_vertical_std :: real
  bc_rtk_heading_offset :: real
  bc_imu_to_antenna :: vec3
  bc_keyframe_distance :: real
  bc_keyframe_angle :: real
  bc_keyframe_time :: real
  bc_odom_rotation_variance :: real
  bc_odom_translation_variance :: real
  bc_max_pending_keyframes :: nat
  bc_loop_enabled :: bool
  bc_sc_rings :: nat
  bc_sc_sectors :: nat
  bc_sc_max_radius :: real
  bc_sc_sensor_height :: real
  bc_sc_exclude_recent :: nat
  bc_sc_distance_threshold :: real
  bc_gicp_voxel_size :: real
  bc_gicp_fitness_threshold :: real
  bc_loop_rotation_variance :: real
  bc_loop_translation_variance :: real
  bc_correction_smoothing_alpha :: real

record 'r backend =
  be_config :: backend_config
  be_updates :: "'r isam_update list"
  be_latest_estimate :: "'r pose list"
  be_local_keyposes :: "'r pose list"
  be_keyframe_clouds :: "cloud list"
  be_keyframe_stamps :: "real list"
  be_keyframe_rtk :: "GlobalRtkObservation option list"
  be_scan_context_database :: "ScanContextEntry list"
  be_loop_edges :: "(nat \<times> nat) list"
  be_rtk_queue :: "GlobalRtkObservation list"
  be_esikf :: "'r esikf"
  be_enu_origin :: "vec3 option"
  be_keyframe_queue :: "'r BackendKeyframeInput list"
  be_last_enqueued_local_pose :: "'r pose"
  be_last_enqueued_stamp :: real
  be_have_enqueued_keyframe :: bool
  be_smoothed_map_to_odom :: "'r pose"
  be_target_map_to_odom :: "'r pose"
  be_correction_initialized :: bool

section \<open>RTK input\<close>

text \<open>The gate and the measurement of \<open>gpsHandler\<close>. Velocity and heading entries that are not finite
  make the measurement's velocity or heading invalid; their numbers read as zero here.\<close>

definition gps_gate :: "backend_config \<Rightarrow> GnssPVTSolnMsg \<Rightarrow> bool" where
  "gps_gate c msg =
     (\<not> (\<not> pvt_valid_fix msg \<or> \<not> pvt_diff_soln msg \<or> pvt_carr_soln msg \<noteq> 2
         \<or> pvt_week msg = 0 \<or> \<not> isfinite (pvt_tow msg)
         \<or> dbl_val (pvt_tow msg) < 0 \<or> dbl_val (pvt_tow msg) \<ge> 604800
         \<or> \<not> isfinite (pvt_latitude msg) \<or> \<not> isfinite (pvt_longitude msg)
         \<or> \<not> isfinite (pvt_altitude msg) \<or> \<bar>dbl_val (pvt_latitude msg)\<bar> > 90
         \<or> \<bar>dbl_val (pvt_longitude msg)\<bar> > 180
         \<or> \<not> isfinite (pvt_h_acc msg) \<or> \<not> isfinite (pvt_v_acc msg)
         \<or> dbl_val (pvt_h_acc msg) \<le> 0 \<or> dbl_val (pvt_v_acc msg) \<le> 0
         \<or> dbl_val (pvt_h_acc msg) > bc_rtk_max_horizontal_std c
         \<or> dbl_val (pvt_v_acc msg) > bc_rtk_max_vertical_std c))"

definition gps_measurement :: "backend_config \<Rightarrow> vec3 \<Rightarrow> GnssPVTSolnMsg \<Rightarrow> GlobalRtkObservation" where
  "gps_measurement c p msg =
     (let h = dbl_val (pvt_h_acc msg); v = dbl_val (pvt_v_acc msg);
          velocity_std = max (2 / 100) (dbl_val (pvt_vel_acc msg));
          acc = dbl_val (pvt_heading_acc msg)
      in \<lparr>ob_stamp = Num (gps_to_unix (pvt_week msg) (dbl_val (pvt_tow msg)) - bc_gps_time_offset c),
          ob_position = p,
          ob_position_variance = (max (1 / 10000) (h * h), max (1 / 10000) (h * h), max (25 / 10000) (v * v)),
          ob_velocity = (dbl_val (pvt_vel_e msg), dbl_val (pvt_vel_n msg), - dbl_val (pvt_vel_d msg)),
          ob_velocity_variance = (velocity_std * velocity_std, velocity_std * velocity_std,
                                  velocity_std * velocity_std),
          ob_heading = dbl_val (pvt_heading msg),
          ob_heading_variance = max (1 / 1000000) (acc * acc),
          ob_velocity_valid = (isfinite (pvt_vel_e msg) \<and> isfinite (pvt_vel_n msg) \<and> isfinite (pvt_vel_d msg)
                               \<and> isfinite (pvt_vel_acc msg) \<and> dbl_val (pvt_vel_acc msg) > 0),
          ob_heading_valid = (pvt_heading_valid msg \<and> isfinite (pvt_heading msg)
                              \<and> isfinite (pvt_heading_acc msg) \<and> dbl_val (pvt_heading_acc msg) > 0)\<rparr>)"

text \<open>The common tail of both handlers: the filter and the back end each queue the measurement.\<close>

definition be_enqueue :: "GlobalRtkObservation \<Rightarrow> 'r backend \<Rightarrow> 'r backend" where
  "be_enqueue m b =
     b\<lparr>be_esikf := pushRtk m (be_esikf b),
       be_rtk_queue := pop_while_longer 10000 (ub_insert ob_time m (be_rtk_queue b))\<rparr>"

definition be_origin :: "vec3 \<Rightarrow> 'r backend \<Rightarrow> vec3" where
  "be_origin lla b = (case be_enu_origin b of Some o' \<Rightarrow> o' | None \<Rightarrow> lla)"

definition gpsHandler :: "'r backend_lib \<Rightarrow> GnssPVTSolnMsg \<Rightarrow> 'r backend \<Rightarrow> 'r backend" where
  "gpsHandler lib msg b =
     (if \<not> gps_gate (be_config b) msg then b
      else let lla = (dbl_val (pvt_latitude msg), dbl_val (pvt_longitude msg), dbl_val (pvt_altitude msg));
               org = be_origin lla b
           in be_enqueue (gps_measurement (be_config b) (bl_forward lib org lla) msg)
                (b\<lparr>be_enu_origin := Some org\<rparr>))"

definition nsf_gate :: "backend_config \<Rightarrow> NavSatFix \<Rightarrow> bool" where
  "nsf_gate c msg =
     (\<not> (nsf_status msg < STATUS_FIX \<or> \<not> isfinite (nsf_latitude msg) \<or> \<not> isfinite (nsf_longitude msg)
         \<or> \<not> isfinite (nsf_altitude msg) \<or> \<bar>dbl_val (nsf_latitude msg)\<bar> > 90
         \<or> \<bar>dbl_val (nsf_longitude msg)\<bar> > 180
         \<or> \<not> isfinite (nsf_cov0 msg) \<or> \<not> isfinite (nsf_cov4 msg) \<or> \<not> isfinite (nsf_cov8 msg)
         \<or> dbl_val (nsf_cov0 msg) < 0 \<or> dbl_val (nsf_cov4 msg) < 0 \<or> dbl_val (nsf_cov8 msg) < 0)
      \<and> \<not> (sqrt (max 0 (max (dbl_val (nsf_cov0 msg)) (dbl_val (nsf_cov4 msg)))) > bc_rtk_max_horizontal_std c
           \<or> sqrt (max 0 (dbl_val (nsf_cov8 msg))) > bc_rtk_max_vertical_std c))"

text \<open>The fields \<open>navSatFixHandler\<close> does not set keep the struct's defaults.\<close>

definition nsf_measurement :: "backend_config \<Rightarrow> vec3 \<Rightarrow> NavSatFix \<Rightarrow> GlobalRtkObservation" where
  "nsf_measurement c p msg =
     \<lparr>ob_stamp = Num (nsf_stamp msg - bc_gps_time_offset c), ob_position = p,
      ob_position_variance = (max (1 / 10000) (dbl_val (nsf_cov0 msg)), max (1 / 10000) (dbl_val (nsf_cov4 msg)),
                              max (25 / 10000) (dbl_val (nsf_cov8 msg))),
      ob_velocity = v3_zero, ob_velocity_variance = (1, 1, 1), ob_heading = 0, ob_heading_variance = 1,
      ob_velocity_valid = False, ob_heading_valid = False\<rparr>"

definition navSatFixHandler :: "'r backend_lib \<Rightarrow> NavSatFix \<Rightarrow> 'r backend \<Rightarrow> 'r backend" where
  "navSatFixHandler lib msg b =
     (if \<not> nsf_gate (be_config b) msg then b
      else let lla = (dbl_val (nsf_latitude msg), dbl_val (nsf_longitude msg), dbl_val (nsf_altitude msg));
               org = be_origin lla b
           in be_enqueue (nsf_measurement (be_config b) (bl_forward lib org lla) msg)
                (b\<lparr>be_enu_origin := Some org\<rparr>))"

section \<open>Keyframe input\<close>

definition pose_moved :: "'r backend_lib \<Rightarrow> 'r pose \<Rightarrow> 'r pose \<Rightarrow> real \<times> real" where
  "pose_moved lib from_pose to_pose =
     (let relative = g_between (bl_g lib) from_pose to_pose
      in (v3_norm (snd relative), v3_norm (g_logmap (bl_g lib) (fst relative))))"

text \<open>\<open>pixels\<close> is \<open>width * height\<close> of the message and \<open>input\<close> its stamp, pose and converted cloud.\<close>

definition syncedCallback ::
  "'r backend_lib \<Rightarrow> nat \<Rightarrow> 'r BackendKeyframeInput \<Rightarrow> 'r backend \<Rightarrow> 'r backend" where
  "syncedCallback lib pixels input b =
     (let c = be_config b;
          (distance, angle) = pose_moved lib (be_last_enqueued_local_pose b) (ki_local_pose input);
          elapsed = ki_stamp input - be_last_enqueued_stamp b
      in if be_have_enqueued_keyframe b \<and> distance < bc_keyframe_distance c
            \<and> angle < bc_keyframe_angle c \<and> elapsed < bc_keyframe_time c then b
         else if pixels < 100 then b
         else let b = b\<lparr>be_last_enqueued_local_pose := ki_local_pose input,
                        be_last_enqueued_stamp := ki_stamp input, be_have_enqueued_keyframe := True\<rparr>
              in if length (ki_cloud input) < 100 then b
                 else let q = be_keyframe_queue b;
                          q = (if length q \<ge> bc_max_pending_keyframes c then tl q else q)
                      in b\<lparr>be_keyframe_queue := q @ [input]\<rparr>)"

definition shouldCreateKeyframe :: "'r backend_lib \<Rightarrow> 'r pose \<Rightarrow> real \<Rightarrow> 'r backend \<Rightarrow> bool" where
  "shouldCreateKeyframe lib pose stamp b =
     (if be_local_keyposes b = [] then True
      else let c = be_config b;
               (distance, angle) = pose_moved lib (last (be_local_keyposes b)) pose;
               elapsed = stamp - last (be_keyframe_stamps b)
           in distance \<ge> bc_keyframe_distance c \<or> angle \<ge> bc_keyframe_angle c
              \<or> elapsed \<ge> bc_keyframe_time c)"

section \<open>RTK matching\<close>

text \<open>The search loop over the rest of the queue from index \<open>i\<close>.\<close>

fun nearest_loop :: "real \<Rightarrow> nat \<Rightarrow> GlobalRtkObservation list \<Rightarrow> nat \<Rightarrow> real \<Rightarrow> nat \<times> real" where
  "nearest_loop stamp i [] best best_difference = (best, best_difference)"
| "nearest_loop stamp i (x # q) best best_difference =
     (let difference = \<bar>ob_time x - stamp\<bar>
      in if difference \<ge> best_difference \<and> ob_time x > stamp then (best, best_difference)
         else if difference < best_difference then nearest_loop stamp (i + 1) q i difference
         else nearest_loop stamp (i + 1) q best best_difference)"

definition findNearestRtk :: "real \<Rightarrow> 'r backend \<Rightarrow> GlobalRtkObservation option \<times> 'r backend" where
  "findNearestRtk stamp b =
     (let q = drop_expired (stamp - 5) (be_rtk_queue b);
          b = b\<lparr>be_rtk_queue := q\<rparr>
      in case q of
           [] \<Rightarrow> (None, b)
         | x # rest \<Rightarrow>
             (let (best, best_difference) = nearest_loop stamp 1 rest 0 \<bar>ob_time x - stamp\<bar>
              in if best_difference > bc_rtk_sync_tolerance (be_config b) then (None, b)
                 else (Some (q ! best), b\<lparr>be_rtk_queue := drop (best + 1) q\<rparr>)))"

section \<open>Scan Context\<close>

definition hypot :: "real \<Rightarrow> real \<Rightarrow> real" where
  "hypot x y = sqrt (x\<^sup>2 + y\<^sup>2)"

definition sc_angle :: "real \<Rightarrow> real \<Rightarrow> real" where
  "sc_angle x y = (let a = atan2 y x in if a < 0 then a + 2 * kPi else a)"

text \<open>Ring and sector of a point; the casts to \<open>int\<close> truncate numbers that are not negative. The
  result is an \<open>int\<close>, so that an index below zero is visible.\<close>

definition sc_bin :: "backend_config \<Rightarrow> vec3 \<Rightarrow> int \<times> int" where
  "sc_bin c p =
     (case p of (x, y, z) \<Rightarrow>
        (min (int (bc_sc_rings c) - 1) \<lfloor>hypot x y / bc_sc_max_radius c * real (bc_sc_rings c)\<rfloor>,
         min (int (bc_sc_sectors c) - 1) \<lfloor>sc_angle x y / (2 * kPi) * real (bc_sc_sectors c)\<rfloor>))"

definition raise_cell :: "nat \<Rightarrow> nat \<Rightarrow> real \<Rightarrow> real list list \<Rightarrow> real list list" where
  "raise_cell ring sector height d =
     d[ring := (d ! ring)[sector := max (d ! ring ! sector) height]]"

definition sc_point :: "backend_config \<Rightarrow> vec3 \<Rightarrow> real list list \<Rightarrow> real list list exec" where
  "sc_point c p d =
     (case p of (x, y, z) \<Rightarrow>
        let radius = hypot x y
        in if radius < 1 / 1000 \<or> radius > bc_sc_max_radius c then Ret d
           else case sc_bin c p of (ring, sector) \<Rightarrow>
                if 0 \<le> ring \<and> ring < int (length d)
                   \<and> 0 \<le> sector \<and> sector < int (length (d ! nat ring))
                then Ret (raise_cell (nat ring) (nat sector) (z + bc_sc_sensor_height c) d)
                else Undef)"

fun sc_points :: "backend_config \<Rightarrow> cloud \<Rightarrow> real list list \<Rightarrow> real list list exec" where
  "sc_points c [] d = Ret d"
| "sc_points c (p # ps) d = bind_exec (sc_point c p d) (sc_points c ps)"

definition row_mean :: "real list \<Rightarrow> real" where
  "row_mean xs = sum_list xs / real (length xs)"

definition makeScanContext :: "backend_config \<Rightarrow> cloud \<Rightarrow> ScanContextEntry exec" where
  "makeScanContext c cl =
     bind_exec (sc_points c cl (replicate (bc_sc_rings c) (replicate (bc_sc_sectors c) 0))) (\<lambda>d.
     Ret \<lparr>sc_descriptor = d, sc_ring_key = map row_mean d\<rparr>)"

definition column :: "real list list \<Rightarrow> nat \<Rightarrow> real list" where
  "column d j = map (\<lambda>row. row ! j) d"

definition list_dot :: "real list \<Rightarrow> real list \<Rightarrow> real" where
  "list_dot xs ys = sum_list (map2 (*) xs ys)"

definition list_norm :: "real list \<Rightarrow> real" where
  "list_norm xs = sqrt (list_dot xs xs)"

text \<open>The inner loop: the sum of the column cosines and the number of columns compared.\<close>

fun cosine_loop ::
  "nat \<Rightarrow> real list list \<Rightarrow> real list list \<Rightarrow> nat \<Rightarrow> nat list \<Rightarrow> real \<times> nat \<Rightarrow> real \<times> nat" where
  "cosine_loop sectors query candidate shift [] acc = acc"
| "cosine_loop sectors query candidate shift (sector # rest) (cosine_sum, valid_columns) =
     (let q = column query sector;
          k = column candidate ((sector + shift) mod sectors);
          denominator = list_norm q * list_norm k
      in if denominator < 1 / 1000000
         then cosine_loop sectors query candidate shift rest (cosine_sum, valid_columns)
         else cosine_loop sectors query candidate shift rest
                (cosine_sum + list_dot q k / denominator, valid_columns + 1))"

fun shift_loop ::
  "nat \<Rightarrow> real list list \<Rightarrow> real list list \<Rightarrow> nat list \<Rightarrow> real \<Rightarrow> real" where
  "shift_loop sectors query candidate [] best = best"
| "shift_loop sectors query candidate (shift # rest) best =
     (case cosine_loop sectors query candidate shift [0..<sectors] (0, 0) of
        (cosine_sum, valid_columns) \<Rightarrow>
          shift_loop sectors query candidate rest
            (if valid_columns = 0 then best else min best (1 - cosine_sum / real valid_columns)))"

definition scanContextDistance :: "backend_config \<Rightarrow> real list list \<Rightarrow> real list list \<Rightarrow> real" where
  "scanContextDistance c query candidate =
     shift_loop (bc_sc_sectors c) query candidate [0..<bc_sc_sectors c] 1"

section \<open>Loop closure\<close>

text \<open>The shortlist of the ten smallest ring key distances. \<open>std::partial_sort\<close> leaves the order of
  equal keys open; the stable order is taken here.\<close>

definition ring_shortlist :: "ScanContextEntry \<Rightarrow> ScanContextEntry list \<Rightarrow> nat list" where
  "ring_shortlist query db =
     map snd (take 10 (sort_key fst
       (map (\<lambda>i. (list_norm (map2 (-) (sc_ring_key query) (sc_ring_key (db ! i))), i)) [0..<length db])))"

fun best_candidate ::
  "backend_config \<Rightarrow> ScanContextEntry \<Rightarrow> ScanContextEntry list \<Rightarrow> nat list
     \<Rightarrow> nat \<times> real option \<Rightarrow> nat \<times> real option" where
  "best_candidate c query db [] acc = acc"
| "best_candidate c query db (i # rest) (candidate, context_distance) =
     (let distance = scanContextDistance c (sc_descriptor query) (sc_descriptor (db ! i))
      in best_candidate c query db rest
           (if (case context_distance of None \<Rightarrow> True | Some d \<Rightarrow> distance < d)
            then (i, Some distance) else (candidate, context_distance)))"

text \<open>The infinite initial distance is \<open>None\<close>.\<close>

definition detectLoopCandidate :: "ScanContextEntry \<Rightarrow> nat \<Rightarrow> 'r backend \<Rightarrow> (nat \<times> real) option" where
  "detectLoopCandidate query current_index b =
     (let c = be_config b; db = be_scan_context_database b
      in if current_index \<le> bc_sc_exclude_recent c \<or> length db \<le> bc_sc_exclude_recent c then None
         else let candidate_limit = current_index - bc_sc_exclude_recent c
              in case best_candidate c query db (ring_shortlist query (take candidate_limit db)) (0, None) of
                   (candidate, None) \<Rightarrow> None
                 | (candidate, Some d) \<Rightarrow> if d < bc_sc_distance_threshold c then Some (candidate, d) else None)"

definition matrix4fToPose :: "'r backend_lib \<Rightarrow> mat \<Rightarrow> 'r pose" where
  "matrix4fToPose lib m =
     (g_of_matrix (bl_g lib) ((m 0 0, m 0 1, m 0 2), (m 1 0, m 1 1, m 1 2), (m 2 0, m 2 1, m 2 2)),
      (m 0 3, m 1 3, m 2 3))"

definition verifyLoopWithGicp ::
  "'r backend_lib \<Rightarrow> nat \<Rightarrow> 'r BackendKeyframeInput \<Rightarrow> 'r backend \<Rightarrow> 'r pose option" where
  "verifyLoopWithGicp lib candidate_index current b =
     (let c = be_config b
      in if candidate_index \<ge> length (be_keyframe_clouds b) then None
         else let source = bl_voxel_filter lib (bc_gicp_voxel_size c) (ki_cloud current);
                  target = bl_voxel_filter lib (bc_gicp_voxel_size c) (be_keyframe_clouds b ! candidate_index)
              in if length source < 100 \<or> length target < 100 then None
                 else let initial = g_between (bl_g lib) (be_local_keyposes b ! candidate_index) (ki_local_pose current);
                          (converged, fitness, transform) = bl_gicp lib source target (bl_pose_matrix lib initial)
                      in if \<not> converged \<or> \<not> isfinite fitness \<or> dbl_val fitness > bc_gicp_fitness_threshold c
                         then None else Some (matrix4fToPose lib transform))"

section \<open>Correction\<close>

definition updateGlobalCorrection ::
  "'r backend_lib \<Rightarrow> 'r pose \<Rightarrow> 'r pose \<Rightarrow> 'r backend \<Rightarrow> 'r backend" where
  "updateGlobalCorrection lib latest_local_pose latest_global_pose b =
     (let b = b\<lparr>be_target_map_to_odom :=
                  g_compose (bl_g lib) latest_global_pose (bl_inverse lib latest_local_pose)\<rparr>
      in if \<not> be_correction_initialized b
         then b\<lparr>be_smoothed_map_to_odom := be_target_map_to_odom b, be_correction_initialized := True\<rparr>
         else b)"

definition smoothCorrectionStep :: "'r backend_lib \<Rightarrow> 'r backend \<Rightarrow> 'r pose \<times> 'r backend" where
  "smoothCorrectionStep lib b =
     (if \<not> be_correction_initialized b then ((g_identity (bl_g lib), v3_zero), b)
      else let delta = g_between (bl_g lib) (be_smoothed_map_to_odom b) (be_target_map_to_odom b);
               scaled_delta = (\<lambda>i. bc_correction_smoothing_alpha (be_config b) * bl_pose_logmap lib delta i);
               smoothed = g_compose (bl_g lib) (be_smoothed_map_to_odom b) (bl_pose_expmap lib scaled_delta)
           in (smoothed, b\<lparr>be_smoothed_map_to_odom := smoothed\<rparr>))"

section \<open>Keyframe processing\<close>

text \<open>\<open>latest_estimate_.at(i)\<close> throws when there is no value \<open>i\<close>; nothing catches the exception.\<close>

definition estimate_at :: "'r pose list \<Rightarrow> nat \<Rightarrow> 'r pose exec" where
  "estimate_at es i = (if i < length es then Ret (es ! i) else Undef)"

definition rotationWithYaw :: "'r gtsam \<Rightarrow> 'r \<Rightarrow> real \<Rightarrow> 'r" where
  "rotationWithYaw g rotation yaw =
     (let m = g_matrix g rotation;
          pitch = arcsin (max (- 1) (min 1 (- m3_at m 2 0)));
          roll = atan2 (m3_at m 2 1) (m3_at m 2 2)
      in g_of_matrix g (g_zyx_matrix g yaw pitch roll))"

text \<open>The initial pose and the prior of the first node, with an RTK measurement or without.\<close>

definition first_pose ::
  "'r backend_lib \<Rightarrow> backend_config \<Rightarrow> GlobalRtkObservation option \<Rightarrow> 'r pose \<Rightarrow> 'r pose" where
  "first_pose lib c rtk local_pose =
     (case rtk of
        None \<Rightarrow> local_pose
      | Some m \<Rightarrow>
          (let rot = (if ob_heading_valid m
                      then rotationWithYaw (bl_g lib) (fst local_pose) (ob_heading m + bc_rtk_heading_offset c)
                      else fst local_pose)
           in (rot, v3_sub (ob_position m) (bl_rotate lib rot (bc_imu_to_antenna c)))))"

definition prior_variance :: "real list" where
  "prior_variance = [1 / 1000, 1 / 1000, 10, 100, 100, 100]"

definition six_variances :: "real \<Rightarrow> real \<Rightarrow> real list" where
  "six_variances r t = [r, r, r, t, t, t]"

definition v3_mid_variance :: "vec3 \<Rightarrow> vec3 \<Rightarrow> vec3" where
  "v3_mid_variance a b =
     v3_add (v3_scale (1 / 4) (v3_add a b)) (25 / 10000, 25 / 10000, 25 / 10000)"

text \<open>The RTK factors of node \<open>index\<close>: position, velocity against the previous node, heading.\<close>

definition rtk_factors ::
  "backend_config \<Rightarrow> nat \<Rightarrow> real \<Rightarrow> GlobalRtkObservation \<Rightarrow> 'r backend \<Rightarrow> 'r factor list" where
  "rtk_factors c index stamp m b =
     [AntennaPositionFactor index (ob_position m) (bc_imu_to_antenna c) (ob_position_variance m)
        (Huber (1345 / 1000))]
     @ (if index > 0 \<and> ob_velocity_valid m
        then (case last (be_keyframe_rtk b) of
                None \<Rightarrow> []
              | Some prev \<Rightarrow>
                  (let dt = stamp - last (be_keyframe_stamps b)
                   in if ob_velocity_valid prev \<and> dt > 2 / 100
                      then [AntennaVelocityFactor (index - 1) index
                              (v3_scale (1 / 2) (v3_add (ob_velocity prev) (ob_velocity m)))
                              (bc_imu_to_antenna c) dt
                              (v3_mid_variance (ob_velocity_variance prev) (ob_velocity_variance m))
                              (Huber (1345 / 1000))]
                      else []))
        else [])
     @ (if ob_heading_valid m
        then [HeadingFactor index (ob_heading m + bc_rtk_heading_offset c) (ob_heading_variance m)
                (Huber (1345 / 1000))]
        else [])"

text \<open>The loop closure of a keyframe: candidate and verified relative pose.\<close>

definition loop_closure ::
  "'r backend_lib \<Rightarrow> ScanContextEntry \<Rightarrow> nat \<Rightarrow> 'r BackendKeyframeInput \<Rightarrow> 'r backend
     \<Rightarrow> (nat \<times> 'r pose) option" where
  "loop_closure lib scan_context index input b =
     (if bc_loop_enabled (be_config b)
      then case detectLoopCandidate scan_context index b of
             None \<Rightarrow> None
           | Some (candidate, _) \<Rightarrow>
               map_option (Pair candidate) (verifyLoopWithGicp lib candidate input b)
      else None)"

definition processKeyframe ::
  "'r backend_lib \<Rightarrow> 'r BackendKeyframeInput \<Rightarrow> 'r backend \<Rightarrow> 'r backend exec" where
  "processKeyframe lib input b =
     (if \<not> shouldCreateKeyframe lib (ki_local_pose input) (ki_stamp input) b then Ret b
      else
      let c = be_config b; index = length (be_local_keyposes b) in
      bind_exec (makeScanContext c (ki_cloud input)) (\<lambda>scan_context.
      let (rtk, b) = (if bc_gps_enabled c then findNearestRtk (ki_stamp input) b else (None, b)) in
      bind_exec
        (if index = 0
         then (let pose = first_pose lib c rtk (ki_local_pose input)
               in Ret (pose, [PriorFactor 0 pose prior_variance]))
         else (let rel = g_between (bl_g lib) (last (be_local_keyposes b)) (ki_local_pose input)
               in bind_exec (estimate_at (be_latest_estimate b) (index - 1)) (\<lambda>prev.
                  Ret (g_compose (bl_g lib) prev rel,
                       [BetweenFactor (index - 1) index rel
                          (six_variances (bc_odom_rotation_variance c) (bc_odom_translation_variance c))
                          Gaussian])))) (\<lambda>(initial_pose, base_factors).
      let rtk_fs = (case rtk of None \<Rightarrow> [] | Some m \<Rightarrow> rtk_factors c index (ki_stamp input) m b);
          loop = loop_closure lib scan_context index input b;
          loop_fs = (case loop of
                       None \<Rightarrow> []
                     | Some (candidate, rel) \<Rightarrow>
                         [BetweenFactor candidate index rel
                            (six_variances (bc_loop_rotation_variance c) (bc_loop_translation_variance c))
                            (Cauchy 1)]);
          updates = be_updates b @
            [\<lparr>iu_factors = base_factors @ rtk_fs @ loop_fs, iu_key = index, iu_value = initial_pose,
              iu_extra = (if loop = None then 0 else 2)\<rparr>];
          b = b\<lparr>be_updates := updates, be_latest_estimate := bl_estimate lib updates,
                be_local_keyposes := be_local_keyposes b @ [ki_local_pose input],
                be_keyframe_clouds := be_keyframe_clouds b @ [ki_cloud input],
                be_keyframe_stamps := be_keyframe_stamps b @ [ki_stamp input],
                be_keyframe_rtk := be_keyframe_rtk b @ [rtk],
                be_scan_context_database := be_scan_context_database b @ [scan_context],
                be_loop_edges := be_loop_edges b @ (case loop of None \<Rightarrow> [] | Some (k, _) \<Rightarrow> [(k, index)])\<rparr>
      in
      bind_exec (estimate_at (be_latest_estimate b) index) (\<lambda>optimized.
      Ret (updateGlobalCorrection lib (ki_local_pose input) optimized b)))))"

text \<open>One round of \<open>backendWorker\<close> with a keyframe in the queue; without one there is nothing to do.\<close>

definition worker_round :: "'r backend_lib \<Rightarrow> 'r backend \<Rightarrow> 'r backend exec" where
  "worker_round lib b =
     (case be_keyframe_queue b of
        [] \<Rightarrow> Ret b
      | input # q \<Rightarrow> processKeyframe lib input (b\<lparr>be_keyframe_queue := q\<rparr>))"

text \<open>\<open>localOdometryCallback\<close>: the filter step, the pose and covariance it publishes when the filter is
  initialised, and the graph pose.\<close>

record 'r odometry_out =
  oo_global :: "('r pose \<times> vec3 \<times> mat) option"
  oo_graph_pose :: "'r pose"
  oo_correction :: "'r pose"

definition pose_covariance :: "mat \<Rightarrow> mat" where
  "pose_covariance p =
     (\<lambda>i j. if i < 3 \<and> j < 3 then p (i + 3) (j + 3)
            else if 3 \<le> i \<and> i < 6 \<and> 3 \<le> j \<and> j < 6 then p (i - 3) (j - 3) else 0)"

definition localOdometryCallback ::
  "'r backend_lib \<Rightarrow> dbl \<Rightarrow> 'r pose \<Rightarrow> 'r backend \<Rightarrow> 'r odometry_out \<times> 'r backend" where
  "localOdometryCallback lib stamp local_pose b =
     (let (global_valid, _, f) = processLivo (bl_g lib) stamp local_pose (be_esikf b);
          b = b\<lparr>be_esikf := f\<rparr>;
          global = (if global_valid
                    then Some (es_global_pose f,
                               m3_apply (m3_transpose (g_matrix (bl_g lib) (fst (es_global_pose f)))) (es_velocity f),
                               pose_covariance (es_covariance f))
                    else None);
          (correction, b) = smoothCorrectionStep lib b
      in (\<lparr>oo_global = global, oo_graph_pose = g_compose (bl_g lib) correction local_pose,
           oo_correction = correction\<rparr>, b))"

section \<open>RTK input: gate and queues\<close>

lemma max_sq_nonneg: "0 < e \<Longrightarrow> 0 \<le> max e (x::real)" by simp

lemma gps_measurement_ok: "ob_ok (gps_measurement c p msg) \<and> isfinite (ob_stamp (gps_measurement c p msg))"
  by (simp add: gps_measurement_def ob_ok_def Let_def le_max_iff_disj)

lemma nsf_measurement_ok: "ob_ok (nsf_measurement c p msg) \<and> isfinite (ob_stamp (nsf_measurement c p msg))"
  by (simp add: nsf_measurement_def ob_ok_def le_max_iff_disj)

definition be_rtk_inv :: "'r backend_lib \<Rightarrow> 'r backend \<Rightarrow> bool" where
  "be_rtk_inv lib b =
     (sorted (map ob_time (be_rtk_queue b)) \<and> length (be_rtk_queue b) \<le> 10000
      \<and> esikf_reach (bl_g lib) (be_esikf b))"

lemma be_enqueue_inv:
  assumes "be_rtk_inv lib b" and "ob_ok m"
  shows "be_rtk_inv lib (be_enqueue m b)"
proof -
  have "sorted (map ob_time (ub_insert ob_time m (be_rtk_queue b)))"
    using assms(1) by (intro sorted_ub_insert) (simp add: be_rtk_inv_def)
  then show ?thesis
    using assms by (auto simp: be_rtk_inv_def be_enqueue_def pop_while_longer_eq
        intro: sorted_map_drop esikf_reach.rtk)
qed

lemma be_rtk_inv_origin [simp]: "be_rtk_inv lib (b\<lparr>be_enu_origin := o'\<rparr>) = be_rtk_inv lib b"
  by (simp add: be_rtk_inv_def)

text \<open>The back end and the filter receive exactly the RTK samples that pass the quality
  gate. A PVT message is used only when it is a fixed solution with a sane time, position and
  accuracy; then both queues hold its measurement, the back end's queue stays in time order and below
  its bound, and the filter's state stays one that its own callbacks can reach, so that everything
  proved of the filter holds for it inside the back end.\<close>

theorem gps_gate_and_queues:
  assumes "be_rtk_inv lib b"
  shows "be_rtk_inv lib (gpsHandler lib msg b) \<and> be_rtk_inv lib (navSatFixHandler lib nsf b)
       \<and> (gpsHandler lib msg b \<noteq> b \<longrightarrow>
            pvt_valid_fix msg \<and> pvt_diff_soln msg \<and> pvt_carr_soln msg = 2
            \<and> (\<exists>tow h v. pvt_tow msg = Num tow \<and> 0 \<le> tow \<and> tow < 604800 \<and> pvt_h_acc msg = Num h
                 \<and> pvt_v_acc msg = Num v \<and> 0 < h \<and> h \<le> bc_rtk_max_horizontal_std (be_config b)
                 \<and> 0 < v \<and> v \<le> bc_rtk_max_vertical_std (be_config b)))"
proof (intro conjI impI)
  show "be_rtk_inv lib (gpsHandler lib msg b)" "be_rtk_inv lib (navSatFixHandler lib nsf b)"
    using assms
    by (auto simp: gpsHandler_def navSatFixHandler_def Let_def gps_measurement_ok nsf_measurement_ok
        intro!: be_enqueue_inv)
  assume "gpsHandler lib msg b \<noteq> b"
  then have g: "gps_gate (be_config b) msg" by (metis gpsHandler_def)
  then show "pvt_valid_fix msg" "pvt_diff_soln msg" "pvt_carr_soln msg = 2" by (simp_all add: gps_gate_def)
  from g have "isfinite (pvt_tow msg)" "isfinite (pvt_h_acc msg)" "isfinite (pvt_v_acc msg)"
    by (simp_all add: gps_gate_def)
  then obtain tow h v where "pvt_tow msg = Num tow" "pvt_h_acc msg = Num h" "pvt_v_acc msg = Num v"
    by (auto simp: isfinite_Num)
  with g show "\<exists>tow h v. pvt_tow msg = Num tow \<and> 0 \<le> tow \<and> tow < 604800 \<and> pvt_h_acc msg = Num h
                 \<and> pvt_v_acc msg = Num v \<and> 0 < h \<and> h \<le> bc_rtk_max_horizontal_std (be_config b)
                 \<and> 0 < v \<and> v \<le> bc_rtk_max_vertical_std (be_config b)"
    by (intro exI [of _ tow] exI [of _ h] exI [of _ v]) (simp add: gps_gate_def)
qed

section \<open>RTK matching\<close>

lemma nearest_loop_spec:
  assumes "sorted (map ob_time all)" and "q = drop i all" and "i \<le> length all"
    and "best < i" and "bd = \<bar>ob_time (all ! best) - stamp\<bar>"
    and "\<forall>j < i. bd \<le> \<bar>ob_time (all ! j) - stamp\<bar>"
    and "nearest_loop stamp i q best bd = (best', bd')"
  shows "best' < length all \<and> bd' = \<bar>ob_time (all ! best') - stamp\<bar>
       \<and> (\<forall>j < length all. bd' \<le> \<bar>ob_time (all ! j) - stamp\<bar>)"
  using assms(2-)
proof (induction q arbitrary: i best bd)
  case Nil
  then show ?case by auto
next
  case (Cons x q)
  have d: "drop i all = x # q" using Cons.prems(1) by simp
  then have i: "i < length all" by (metis drop_all leI list.discI)
  have "all ! i # drop (Suc i) all = x # q" using Cons_nth_drop_Suc [OF i] d by simp
  then have x: "x = all ! i" and q: "q = drop (i + 1) all" by simp_all
  let ?d = "\<bar>ob_time x - stamp\<bar>"
  note bd = Cons.prems(4) and low = Cons.prems(5) and run = Cons.prems(6)
  consider (stop) "?d \<ge> bd" "ob_time x > stamp" | (better) "?d < bd" | (worse) "?d \<ge> bd" "\<not> ob_time x > stamp"
    by linarith
  then show ?case
  proof cases
    case stop
    have "bd \<le> \<bar>ob_time (all ! j) - stamp\<bar>" if "j < length all" for j
    proof (cases "j < i")
      case False
      then have "ob_time (all ! i) \<le> ob_time (all ! j)"
        using sorted_nth_mono [OF assms(1), of i j] that by simp
      then show ?thesis using stop x by simp
    qed (use low in simp)
    then show ?thesis using stop run bd Cons.prems(3) i by (auto simp: Let_def)
  next
    case better
    have "\<forall>j < i + 1. ?d \<le> \<bar>ob_time (all ! j) - stamp\<bar>"
    proof (intro allI impI)
      fix j assume "j < i + 1"
      then have "j = i \<or> bd \<le> \<bar>ob_time (all ! j) - stamp\<bar>" using low by (cases "j = i") auto
      then show "?d \<le> \<bar>ob_time (all ! j) - stamp\<bar>" using better x by auto
    qed
    moreover have "nearest_loop stamp (i + 1) q i ?d = (best', bd')"
      using run better by (simp add: Let_def)
    ultimately show ?thesis using i x by (intro Cons.IH [OF q]) simp_all
  next
    case worse
    have "\<forall>j < i + 1. bd \<le> \<bar>ob_time (all ! j) - stamp\<bar>"
    proof (intro allI impI)
      fix j assume "j < i + 1"
      then have "j = i \<or> bd \<le> \<bar>ob_time (all ! j) - stamp\<bar>" using low by (cases "j = i") auto
      then show "bd \<le> \<bar>ob_time (all ! j) - stamp\<bar>" using worse x by auto
    qed
    moreover have "nearest_loop stamp (i + 1) q best bd = (best', bd')"
      using run worse by (simp add: Let_def)
    ultimately show ?thesis using i bd Cons.prems(3) by (intro Cons.IH [OF q]) simp_all
  qed
qed

text \<open>A keyframe is matched with the RTK sample nearest to it in time among all samples of
  the last five seconds and later, and only within the tolerance; the sample and everything queued
  before it leave the queue, so that one sample serves at most one graph node. Without a match only
  samples older than five seconds are dropped.\<close>

theorem findNearestRtk_nearest:
  assumes "be_rtk_inv lib b" and "findNearestRtk stamp b = (result, b')"
  defines "q \<equiv> dropWhile (\<lambda>x. ob_time x < stamp - 5) (be_rtk_queue b)"
  shows "(case result of
            None \<Rightarrow> be_rtk_queue b' = q
                    \<and> (\<forall>x \<in> set q. bc_rtk_sync_tolerance (be_config b) < \<bar>ob_time x - stamp\<bar>)
          | Some m \<Rightarrow> \<exists>pre post. q = pre @ m # post \<and> be_rtk_queue b' = post
                    \<and> \<bar>ob_time m - stamp\<bar> \<le> bc_rtk_sync_tolerance (be_config b)
                    \<and> (\<forall>x \<in> set q. \<bar>ob_time m - stamp\<bar> \<le> \<bar>ob_time x - stamp\<bar>))
       \<and> b' = b\<lparr>be_rtk_queue := be_rtk_queue b'\<rparr>"
proof (cases q)
  case Nil
  have "findNearestRtk stamp b = (None, b\<lparr>be_rtk_queue := []\<rparr>)"
    using Nil by (simp add: findNearestRtk_def drop_expired_eq q_def Let_def del: dropWhile_eq_Nil_conv)
  with assms(2) Nil show ?thesis by (auto simp del: dropWhile_eq_Nil_conv)
next
  case (Cons x rest)
  have sorted: "sorted (map ob_time q)"
    using assms(1) unfolding q_def be_rtk_inv_def by (metis dropWhile_eq_drop sorted_map_drop)
  obtain best bd where n: "nearest_loop stamp 1 rest 0 \<bar>ob_time x - stamp\<bar> = (best, bd)"
    by (metis prod.exhaust)
  have spec: "best < length q \<and> bd = \<bar>ob_time (q ! best) - stamp\<bar>
      \<and> (\<forall>j < length q. bd \<le> \<bar>ob_time (q ! j) - stamp\<bar>)"
    by (rule nearest_loop_spec [OF sorted _ _ _ _ _ n]) (simp_all add: Cons)
  have all: "\<forall>y \<in> set q. bd \<le> \<bar>ob_time y - stamp\<bar>" using spec by (auto simp: in_set_conv_nth)
  have split: "q = take best q @ q ! best # drop (best + 1) q"
    using spec by (simp add: id_take_nth_drop [symmetric])
  have run: "findNearestRtk stamp b =
      (if bd > bc_rtk_sync_tolerance (be_config b) then (None, b\<lparr>be_rtk_queue := q\<rparr>)
       else (Some (q ! best), b\<lparr>be_rtk_queue := drop (best + 1) q\<rparr>))"
    using Cons n by (simp add: findNearestRtk_def drop_expired_eq q_def Let_def)
  show ?thesis
  proof (cases "bd > bc_rtk_sync_tolerance (be_config b)")
    case True
    with run assms(2) all show ?thesis by fastforce
  next
    case False
    with run assms(2) have r: "result = Some (q ! best)" "b' = b\<lparr>be_rtk_queue := drop (best + 1) q\<rparr>"
      by simp_all
    have "\<exists>pre post. q = pre @ q ! best # post \<and> be_rtk_queue b' = post
        \<and> \<bar>ob_time (q ! best) - stamp\<bar> \<le> bc_rtk_sync_tolerance (be_config b)
        \<and> (\<forall>x \<in> set q. \<bar>ob_time (q ! best) - stamp\<bar> \<le> \<bar>ob_time x - stamp\<bar>)"
      using split False spec all r(2)
      by (intro exI [of _ "take best q"] exI [of _ "drop (best + 1) q"]) auto
    with r show ?thesis by simp
  qed
qed

section \<open>Keyframe queue\<close>

lemma syncedCallback_queue:
  "be_keyframe_queue (syncedCallback lib pixels input b) = be_keyframe_queue b
   \<or> be_keyframe_queue (syncedCallback lib pixels input b) =
       (if length (be_keyframe_queue b) \<ge> bc_max_pending_keyframes (be_config b)
        then tl (be_keyframe_queue b) else be_keyframe_queue b) @ [input]"
  by (auto simp: syncedCallback_def Let_def split: prod.split)

text \<open>The pending keyframe queue never exceeds its bound of at least one, whatever the
  callbacks deliver; a frame that is queued is the newest in the queue, and when the queue is full it is
  the oldest pending frame that gives way.\<close>

theorem keyframe_queue_bounded:
  assumes "0 < bc_max_pending_keyframes (be_config b)"
    and "length (be_keyframe_queue b) \<le> bc_max_pending_keyframes (be_config b)"
  shows "length (be_keyframe_queue (syncedCallback lib pixels input b)) \<le> bc_max_pending_keyframes (be_config b)
       \<and> (be_keyframe_queue (syncedCallback lib pixels input b) \<noteq> be_keyframe_queue b \<longrightarrow>
            (\<exists>kept. be_keyframe_queue (syncedCallback lib pixels input b) = kept @ [input]
               \<and> (\<exists>old. be_keyframe_queue b = old @ kept \<and> length old \<le> 1)))"
proof (rule disjE [OF syncedCallback_queue [of lib pixels input b]])
  assume "be_keyframe_queue (syncedCallback lib pixels input b) = be_keyframe_queue b"
  with assms show ?thesis by simp
next
  let ?q = "be_keyframe_queue b" and ?n = "bc_max_pending_keyframes (be_config b)"
  assume *: "be_keyframe_queue (syncedCallback lib pixels input b) =
    (if length ?q \<ge> ?n then tl ?q else ?q) @ [input]"
  have "\<exists>old. ?q = old @ (if length ?q \<ge> ?n then tl ?q else ?q) \<and> length old \<le> 1"
    using assms(1) by (cases ?q) (auto intro: exI [of _ "[hd ?q]"] exI [of _ "[]"])
  moreover have "length ((if length ?q \<ge> ?n then tl ?q else ?q) @ [input]) \<le> ?n"
    using assms by auto
  ultimately show ?thesis unfolding * by blast
qed

section \<open>Scan Context\<close>

definition sc_shape :: "backend_config \<Rightarrow> real list list \<Rightarrow> bool" where
  "sc_shape c d = (length d = bc_sc_rings c \<and> (\<forall>row \<in> set d. length row = bc_sc_sectors c))"

definition sc_config_ok :: "backend_config \<Rightarrow> bool" where
  "sc_config_ok c = (0 < bc_sc_rings c \<and> 0 < bc_sc_sectors c \<and> 0 < bc_sc_max_radius c)"

lemma sc_shape_raise: "sc_shape c d \<Longrightarrow> r < length d \<Longrightarrow> sc_shape c (raise_cell r k h d)"
  by (auto simp: sc_shape_def raise_cell_def dest!: set_update_subset_insert [THEN subsetD])

lemma hypot_nonneg: "0 \<le> hypot x y" by (simp add: hypot_def)

lemma atan2_bounds: "- pi \<le> atan2 y x \<and> atan2 y x \<le> pi"
proof -
  have a: "- (pi / 2) < arctan t \<and> arctan t < pi / 2" for t using arctan_bounded by blast
  have neg: "arctan t \<le> 0" if "t \<le> 0" for t using that by (simp add: arctan_le_zero_iff)
  have pos: "0 \<le> arctan t" if "0 \<le> t" for t using that by (simp add: zero_le_arctan_iff)
  consider "x > 0" | "x < 0" "y \<ge> 0" | "x < 0" "y < 0" | "x = 0" by linarith
  then show ?thesis
  proof cases
    case 2
    then have "y / x \<le> 0" by (simp add: divide_nonneg_neg)
    with a [of "y / x"] neg [of "y / x"] 2 show ?thesis by (simp add: atan2_def)
  next
    case 3
    then have "0 \<le> y / x" by (simp add: divide_neg_neg less_imp_le)
    with a [of "y / x"] pos [of "y / x"] 3 show ?thesis by (simp add: atan2_def)
  next
    case 4
    have "- (pi / 2) \<le> pi" using pi_gt_zero by linarith
    with 4 show ?thesis by (auto simp: atan2_def)
  qed (use a [of "y / x"] in \<open>auto simp: atan2_def\<close>)
qed

end
