(* ===== verification/Rtk_Graph.thy ===== *)
theory Rtk_Graph
  imports Rtk_Backend
begin

text \<open>
  What the back end's graph and its Scan Context descriptors satisfy: descriptors are built within
  bounds and their distance does not see a rotation by whole sectors; a loop candidate is the best of the
  shortlist and old enough; every factor graph the callbacks and the worker can build is anchored,
  chained and refers only to nodes that exist.
\<close>

section \<open>Scan Context\<close>

lemma sc_angle_bounds: "0 \<le> sc_angle x y"
proof -
  have "- pi \<le> atan2 y x" using atan2_bounds by simp
  moreover have "pi < 2 * kPi" using pi_less_4 by (simp add: kPi_def)
  ultimately show ?thesis by (simp add: sc_angle_def Let_def)
qed

lemma sc_point_ok:
  assumes "sc_config_ok c" and "sc_shape c d" and "\<forall>row \<in> set d. \<forall>h \<in> set row. 0 \<le> h"
  shows "\<exists>d'. sc_point c p d = Ret d' \<and> sc_shape c d' \<and> (\<forall>row \<in> set d'. \<forall>h \<in> set row. 0 \<le> h)"
proof -
  obtain x y z where p: "p = (x, y, z)" by (metis prod.exhaust)
  obtain ring sector where bin: "sc_bin c p = (ring, sector)" by (metis prod.exhaust)
  have "0 \<le> hypot x y / bc_sc_max_radius c * real (bc_sc_rings c)"
    and "0 \<le> sc_angle x y / (2 * kPi) * real (bc_sc_sectors c)"
    using assms(1) hypot_nonneg sc_angle_bounds kPi_pos by (auto simp: sc_config_ok_def)
  with bin p assms(1) have r: "0 \<le> ring" "ring < int (bc_sc_rings c)" "0 \<le> sector" "sector < int (bc_sc_sectors c)"
    by (auto simp: sc_bin_def sc_config_ok_def min_def split: if_splits)
  have len: "length d = bc_sc_rings c" and row: "length (d ! nat ring) = bc_sc_sectors c"
    using assms(2) r by (auto simp: sc_shape_def)
  have nn: "0 \<le> max (d ! nat ring ! nat sector) h" for h
  proof -
    have "d ! nat ring \<in> set d" and "d ! nat ring ! nat sector \<in> set (d ! nat ring)" using len row r by simp_all
    then have "0 \<le> d ! nat ring ! nat sector" using assms(3) by blast
    then show ?thesis by (simp add: le_max_iff_disj)
  qed
  let ?d = "raise_cell (nat ring) (nat sector) (z + bc_sc_sensor_height c) d"
  have "sc_shape c ?d" using sc_shape_raise [OF assms(2), of "nat ring"] len r by simp
  moreover have "\<forall>row \<in> set ?d. \<forall>h \<in> set row. 0 \<le> h"
  proof (intro ballI)
    fix row' h assume "row' \<in> set ?d" and h: "h \<in> set row'"
    then consider "row' \<in> set d" | "row' = (d ! nat ring)[nat sector := max (d ! nat ring ! nat sector) (z + bc_sc_sensor_height c)]"
      by (auto simp: raise_cell_def dest!: set_update_subset_insert [THEN subsetD])
    then show "0 \<le> h"
    proof cases
      case 2
      with h have "h \<in> set (d ! nat ring) \<or> h = max (d ! nat ring ! nat sector) (z + bc_sc_sensor_height c)"
        by (auto dest!: set_update_subset_insert [THEN subsetD])
      moreover have "d ! nat ring \<in> set d" using len r by simp
      ultimately show ?thesis using nn assms(3) by blast
    qed (use h assms(3) in blast)
  qed
  ultimately show ?thesis
    using assms(2,3) bin p len row r by (auto simp: sc_point_def Let_def)
qed

lemma sc_points_ok:
  assumes "sc_config_ok c"
  shows "sc_shape c d \<Longrightarrow> \<forall>row \<in> set d. \<forall>h \<in> set row. 0 \<le> h \<Longrightarrow>
    \<exists>d'. sc_points c ps d = Ret d' \<and> sc_shape c d' \<and> (\<forall>row \<in> set d'. \<forall>h \<in> set row. 0 \<le> h)"
proof (induction ps arbitrary: d)
  case (Cons p ps)
  obtain d1 where "sc_point c p d = Ret d1" "sc_shape c d1" "\<forall>row \<in> set d1. \<forall>h \<in> set row. 0 \<le> h"
    using sc_point_ok [OF assms Cons.prems] by blast
  with Cons.IH [of d1] show ?case by simp
qed simp

definition sc_entry_ok :: "backend_config \<Rightarrow> ScanContextEntry \<Rightarrow> bool" where
  "sc_entry_ok c e =
     (sc_shape c (sc_descriptor e) \<and> (\<forall>row \<in> set (sc_descriptor e). \<forall>h \<in> set row. 0 \<le> h)
      \<and> sc_ring_key e = map row_mean (sc_descriptor e))"

lemma makeScanContext_ok:
  assumes "sc_config_ok c"
  shows "\<exists>e. makeScanContext c cl = Ret e \<and> sc_entry_ok c e"
proof -
  have "sc_shape c (replicate (bc_sc_rings c) (replicate (bc_sc_sectors c) 0))" by (auto simp: sc_shape_def)
  from sc_points_ok [OF assms this, of cl] show ?thesis
    by (auto simp: makeScanContext_def sc_entry_ok_def)
qed

subsection \<open>Distance\<close>

lemma list_dot_Cons [simp]: "list_dot (x # xs) (y # ys) = x * y + list_dot xs ys"
  by (simp add: list_dot_def)

lemma list_dot_Nil [simp]: "list_dot [] ys = 0" "list_dot xs [] = 0"
  by (simp_all add: list_dot_def)

lemma list_dot_self: "0 \<le> list_dot xs xs"
  by (induction xs) simp_all

lemma cauchy_schwarz:
  "length xs = length ys \<Longrightarrow> (list_dot xs ys)\<^sup>2 \<le> list_dot xs xs * list_dot ys ys"
proof (induction xs ys rule: list_induct2)
  case (Cons x xs y ys)
  let ?A = "list_dot xs xs" and ?B = "list_dot ys ys" and ?S = "list_dot xs ys"
  have ab: "0 \<le> ?A" "0 \<le> ?B" by (rule list_dot_self)+
  have "(2 * x * y * ?S)\<^sup>2 \<le> (x\<^sup>2 * ?B + y\<^sup>2 * ?A)\<^sup>2"
  proof -
    have "(2 * x * y * ?S)\<^sup>2 = 4 * (x * y)\<^sup>2 * ?S\<^sup>2" by (simp add: power_mult_distrib algebra_simps)
    also have "\<dots> \<le> 4 * (x * y)\<^sup>2 * (?A * ?B)" by (rule mult_left_mono [OF Cons.IH]) simp
    also have "\<dots> \<le> (x\<^sup>2 * ?B + y\<^sup>2 * ?A)\<^sup>2"
    proof -
      have "0 \<le> (x\<^sup>2 * ?B - y\<^sup>2 * ?A)\<^sup>2" by simp
      then show ?thesis by (simp add: power2_eq_square algebra_simps)
    qed
    finally show ?thesis .
  qed
  moreover have "0 \<le> x\<^sup>2 * ?B + y\<^sup>2 * ?A" using ab by simp
  ultimately have "2 * x * y * ?S \<le> x\<^sup>2 * ?B + y\<^sup>2 * ?A" using power2_le_imp_le by blast
  with Cons.IH show ?case by (simp add: power2_eq_square algebra_simps)
qed simp

lemma cosine_bound:
  assumes "length xs = length ys"
  shows "list_dot xs ys / (list_norm xs * list_norm ys) \<le> 1"
proof -
  have "(list_dot xs ys)\<^sup>2 \<le> (list_norm xs * list_norm ys)\<^sup>2"
    using cauchy_schwarz [OF assms] list_dot_self by (simp add: list_norm_def power_mult_distrib)
  moreover have "0 \<le> list_norm xs * list_norm ys" using list_dot_self by (simp add: list_norm_def)
  ultimately have "list_dot xs ys \<le> list_norm xs * list_norm ys" using power2_le_imp_le by blast
  moreover have "a / b \<le> 1" if "0 \<le> b" "a \<le> b" for a b :: real
    using that by (cases "b = 0") (simp_all add: divide_le_eq)
  ultimately show ?thesis using \<open>0 \<le> list_norm xs * list_norm ys\<close> by blast
qed

lemma cosine_loop_bound:
  assumes "length query = length candidate"
  shows "cosine_sum \<le> real valid \<Longrightarrow>
    cosine_loop n query candidate shift ss (cosine_sum, valid) = (s', v') \<Longrightarrow> s' \<le> real v'"
proof (induction ss arbitrary: cosine_sum valid)
  case (Cons sector ss)
  let ?q = "column query sector" and ?k = "column candidate ((sector + shift) mod n)"
  have bound: "list_dot ?q ?k / (list_norm ?q * list_norm ?k) \<le> 1"
    using assms by (intro cosine_bound) (simp add: column_def)
  show ?case
  proof (cases "list_norm ?q * list_norm ?k < 1 / 1000000")
    case True
    with Cons.prems(2) have "cosine_loop n query candidate shift ss (cosine_sum, valid) = (s', v')"
      by (simp add: Let_def)
    with Cons.IH Cons.prems(1) show ?thesis by blast
  next
    case False
    with Cons.prems(2) have "cosine_loop n query candidate shift ss
        (cosine_sum + list_dot ?q ?k / (list_norm ?q * list_norm ?k), valid + 1) = (s', v')"
      by (simp add: Let_def)
    moreover have "cosine_sum + list_dot ?q ?k / (list_norm ?q * list_norm ?k) \<le> real (valid + 1)"
      using bound Cons.prems(1) by simp
    ultimately show ?thesis using Cons.IH by blast
  qed
qed simp

lemma shift_loop_le: "shift_loop n query candidate ss best \<le> best"
proof (induction ss arbitrary: best)
  case (Cons s ss)
  then show ?case
    by (auto split: prod.split intro: order_trans [OF Cons.IH])
qed simp

lemma shift_loop_nonneg:
  assumes "length query = length candidate"
  shows "0 \<le> best \<Longrightarrow> 0 \<le> shift_loop n query candidate ss best"
proof (induction ss arbitrary: best)
  case (Cons s ss)
  obtain a v where r: "cosine_loop n query candidate s [0..<n] (0, 0) = (a, v)" by (metis prod.exhaust)
  then have "a \<le> real v" using cosine_loop_bound [OF assms, of 0 0] by simp
  then have "v \<noteq> 0 \<longrightarrow> 0 \<le> 1 - a / real v" by (simp add: divide_le_eq_1)
  with r Cons show ?case by simp
qed simp

lemma shift_loop_hit:
  assumes "shift \<in> set ss" and "cosine_loop n query candidate shift [0..<n] (0, 0) = (real v, v)" and "0 < v"
  shows "shift_loop n query candidate ss best \<le> 0"
  using assms(1)
proof (induction ss arbitrary: best)
  case (Cons s ss)
  show ?case
  proof (cases "s = shift")
    case True
    then have "shift_loop n query candidate (s # ss) best = shift_loop n query candidate ss (min best 0)"
      using assms(2,3) by simp
    also have "\<dots> \<le> min best 0" by (rule shift_loop_le)
    finally show ?thesis by simp
  next
    case False
    with Cons.prems have "shift \<in> set ss" by simp
    then show ?thesis by (simp add: Cons.IH split: prod.split)
  qed
qed simp

text \<open>The cosine of two columns is one exactly when one is a positive multiple of the other.\<close>

lemma list_residual:
  assumes "length xs = length ys"
  shows "0 \<le> list_dot ys ys - 2 * t * list_dot xs ys + t\<^sup>2 * list_dot xs xs"
    and "list_dot ys ys - 2 * t * list_dot xs ys + t\<^sup>2 * list_dot xs xs = 0 \<Longrightarrow> ys = map ((*) t) xs"
proof -
  have "0 \<le> list_dot ys ys - 2 * t * list_dot xs ys + t\<^sup>2 * list_dot xs xs
    \<and> (list_dot ys ys - 2 * t * list_dot xs ys + t\<^sup>2 * list_dot xs xs = 0 \<longrightarrow> ys = map ((*) t) xs)"
    using assms
  proof (induction xs ys rule: list_induct2)
    case (Cons x xs y ys)
    let ?r = "list_dot ys ys - 2 * t * list_dot xs ys + t\<^sup>2 * list_dot xs xs"
    have e: "list_dot (y # ys) (y # ys) - 2 * t * list_dot (x # xs) (y # ys) + t\<^sup>2 * list_dot (x # xs) (x # xs)
        = (y - t * x)\<^sup>2 + ?r" by (simp add: power2_eq_square algebra_simps)
    have "(y - t * x)\<^sup>2 + ?r = 0 \<Longrightarrow> (y - t * x)\<^sup>2 = 0 \<and> ?r = 0"
      using Cons.IH by (subst (asm) add_nonneg_eq_0_iff) simp_all
    then show ?case unfolding e using Cons.IH by auto
  qed simp
  then show "0 \<le> list_dot ys ys - 2 * t * list_dot xs ys + t\<^sup>2 * list_dot xs xs"
    and "list_dot ys ys - 2 * t * list_dot xs ys + t\<^sup>2 * list_dot xs xs = 0 \<Longrightarrow> ys = map ((*) t) xs" by blast+
qed

lemma list_dot_scaled: "list_dot xs (map ((*) t) xs) = t * list_dot xs xs" "list_norm (map ((*) t) xs) = \<bar>t\<bar> * list_norm xs"
proof -
  show "list_dot xs (map ((*) t) xs) = t * list_dot xs xs" by (induction xs) (simp_all add: algebra_simps)
  have "list_dot (map ((*) t) xs) (map ((*) t) xs) = t\<^sup>2 * list_dot xs xs"
    by (induction xs) (simp_all add: algebra_simps power2_eq_square)
  then show "list_norm (map ((*) t) xs) = \<bar>t\<bar> * list_norm xs" by (simp add: list_norm_def real_sqrt_mult)
qed

lemma cosine_one:
  assumes "length xs = length ys" and "0 < list_norm xs * list_norm ys"
  shows "list_dot xs ys / (list_norm xs * list_norm ys) = 1 \<longleftrightarrow> (\<exists>t > 0. ys = map ((*) t) xs)"
proof
  let ?a = "list_norm xs" and ?b = "list_norm ys"
  have n: "0 \<le> ?a" "0 \<le> ?b" "?a * ?a = list_dot xs xs" "?b * ?b = list_dot ys ys"
    using list_dot_self by (simp_all add: list_norm_def)
  then have ab: "0 < ?a" "0 < ?b" using assms(2) by (auto simp: zero_less_mult_iff)
  show "\<exists>t > 0. ys = map ((*) t) xs" if one: "list_dot xs ys / (?a * ?b) = 1"
  proof (intro exI conjI)
    show "0 < ?b / ?a" using ab by simp
    have "list_dot xs ys = ?a * ?b" using one ab by simp
    then have "list_dot ys ys - 2 * (?b / ?a) * list_dot xs ys + (?b / ?a)\<^sup>2 * list_dot xs xs = 0"
      using ab by (simp add: power2_eq_square flip: n(3,4))
    then show "ys = map ((*) (?b / ?a)) xs" by (rule list_residual(2) [OF assms(1)])
  qed
  show "list_dot xs ys / (?a * ?b) = 1" if ex: "\<exists>t > 0. ys = map ((*) t) xs"
  proof -
    from ex obtain t where "0 < t" "ys = map ((*) t) xs" by blast
    moreover from this have "t * (?a * ?a) / (?a * (t * ?a)) = 1" using ab by simp
    ultimately show ?thesis by (simp add: list_dot_scaled n(3))
  qed
qed

text \<open>The columns a shift compares, and the loops in closed form.\<close>

definition compared :: "nat \<Rightarrow> real list list \<Rightarrow> real list list \<Rightarrow> nat \<Rightarrow> nat \<Rightarrow> bool" where
  "compared n query candidate shift s \<longleftrightarrow>
     1 / 1000000 \<le> list_norm (column query s) * list_norm (column candidate ((s + shift) mod n))"

definition column_cosine :: "nat \<Rightarrow> real list list \<Rightarrow> real list list \<Rightarrow> nat \<Rightarrow> nat \<Rightarrow> real" where
  "column_cosine n query candidate shift s =
     list_dot (column query s) (column candidate ((s + shift) mod n))
       / (list_norm (column query s) * list_norm (column candidate ((s + shift) mod n)))"

lemma cosine_loop_closed:
  "cosine_loop n query candidate shift ss (a, v) =
     (a + sum_list (map (column_cosine n query candidate shift) (filter (compared n query candidate shift) ss)),
      v + length (filter (compared n query candidate shift) ss))"
  by (induction ss arbitrary: a v) (simp_all add: Let_def compared_def column_cosine_def not_le [symmetric] add.assoc)

lemma sum_list_all_one:
  fixes f :: "'a \<Rightarrow> real"
  assumes "\<forall>x \<in> set xs. f x \<le> 1"
  shows "sum_list (map f xs) \<le> real (length xs)" and "real (length xs) \<le> sum_list (map f xs) \<Longrightarrow> \<forall>x \<in> set xs. f x = 1"
proof -
  have "sum_list (map f xs) \<le> real (length xs) \<and> (real (length xs) \<le> sum_list (map f xs) \<longrightarrow> (\<forall>x \<in> set xs. f x = 1))"
    using assms
  proof (induction xs)
    case (Cons x xs)
    then show ?case by auto
  qed simp
  then show "sum_list (map f xs) \<le> real (length xs)" and "real (length xs) \<le> sum_list (map f xs) \<Longrightarrow> \<forall>x \<in> set xs. f x = 1"
    by blast+
qed

lemma sum_list_ones: "\<forall>x \<in> set xs. f x = (1 :: real) \<Longrightarrow> sum_list (map f xs) = real (length xs)"
  by (induction xs) simp_all

lemma shift_loop_zero:
  assumes "shift_loop n query candidate ss best \<le> 0" and "0 < best"
  shows "\<exists>shift \<in> set ss. \<exists>a v. cosine_loop n query candidate shift [0..<n] (0, 0) = (a, v) \<and> 0 < v \<and> real v \<le> a"
  using assms
proof (induction ss arbitrary: best)
  case (Cons s ss)
  obtain a v where r: "cosine_loop n query candidate s [0..<n] (0, 0) = (a, v)" by (metis prod.exhaust)
  show ?case
  proof (cases "0 < v \<and> real v \<le> a")
    case True
    then show ?thesis using r by auto
  next
    case False
    then have "0 < (if v = 0 then best else min best (1 - a / real v))" using Cons.prems(2) by auto
    moreover have "shift_loop n query candidate ss (if v = 0 then best else min best (1 - a / real v)) \<le> 0"
      using Cons.prems(1) r by simp
    ultimately show ?thesis using Cons.IH by auto
  qed
qed simp

text \<open>C37: What a Scan Context distance of zero means. The distance of two descriptors of the same shape lies between
  zero and one. It is zero if and only if for some rotation of the candidate by whole sectors at least one pair of
  columns is compared (the product of their norms reaches a millionth) and in every compared pair the candidate's
  column is a positive multiple of the query's; columns that are empty on either side are not compared and so do not
  matter. In particular it is zero when the candidate is the query with its columns rotated, as it is when the vehicle
  returns to a place with another yaw, provided one column is not empty.\<close>

theorem scan_context_yaw_invariant:
  assumes "sc_shape c query" and "sc_shape c candidate"
  shows "0 \<le> scanContextDistance c query candidate \<and> scanContextDistance c query candidate \<le> 1
    \<and> (scanContextDistance c query candidate = 0 \<longleftrightarrow>
         (\<exists>shift < bc_sc_sectors c.
            (\<exists>s < bc_sc_sectors c.
               1 / 1000000 \<le> list_norm (column query s) * list_norm (column candidate ((s + shift) mod bc_sc_sectors c)))
            \<and> (\<forall>s < bc_sc_sectors c.
               1 / 1000000 \<le> list_norm (column query s) * list_norm (column candidate ((s + shift) mod bc_sc_sectors c))
               \<longrightarrow> (\<exists>t > 0. column candidate ((s + shift) mod bc_sc_sectors c) = map ((*) t) (column query s)))))
    \<and> (\<forall>shift < bc_sc_sectors c.
         (\<forall>s < bc_sc_sectors c. column candidate ((s + shift) mod bc_sc_sectors c) = column query s)
         \<and> (\<exists>s < bc_sc_sectors c. 1 / 1000000 \<le> list_dot (column query s) (column query s))
         \<longrightarrow> scanContextDistance c query candidate = 0)"
proof -
  let ?n = "bc_sc_sectors c" and ?d = "scanContextDistance c query candidate"
  let ?C = "compared ?n query candidate" and ?cos = "column_cosine ?n query candidate"
  have len: "length query = length candidate" using assms by (simp add: sc_shape_def)
  have lower: "0 \<le> ?d"
    unfolding scanContextDistance_def by (rule shift_loop_nonneg [OF len]) simp
  have upper: "?d \<le> 1"
    unfolding scanContextDistance_def by (rule shift_loop_le)
  have cols: "length (column query s) = length (column candidate k)" for s k using len by (simp add: column_def)
  have one: "?cos shift s = 1 \<longleftrightarrow> (\<exists>t > 0. column candidate ((s + shift) mod ?n) = map ((*) t) (column query s))"
    if "?C shift s" for shift s
    unfolding column_cosine_def using that by (intro cosine_one [OF cols]) (simp add: compared_def)
  have le1: "\<forall>s \<in> set (filter (?C shift) [0..<?n]). ?cos shift s \<le> 1" for shift
    unfolding column_cosine_def using cosine_bound [OF cols] by blast
  have main: "?d = 0 \<longleftrightarrow> (\<exists>shift < ?n. (\<exists>s < ?n. ?C shift s)
      \<and> (\<forall>s < ?n. ?C shift s \<longrightarrow> (\<exists>t > 0. column candidate ((s + shift) mod ?n) = map ((*) t) (column query s))))"
    (is "_ \<longleftrightarrow> ?R")
  proof
    assume "?d = 0"
    then have "shift_loop ?n query candidate [0..<?n] 1 \<le> 0" by (simp add: scanContextDistance_def)
    then obtain shift a v where v: "shift \<in> set [0..<?n]" "cosine_loop ?n query candidate shift [0..<?n] (0, 0) = (a, v)"
      "0 < v" "real v \<le> a" using shift_loop_zero [of ?n query candidate "[0..<?n]" 1] by auto
    let ?S = "filter (?C shift) [0..<?n]"
    have a: "a = sum_list (map (?cos shift) ?S)" "v = length ?S" using v(2) by (simp_all add: cosine_loop_closed)
    have all: "\<forall>s \<in> set ?S. ?cos shift s = 1"
      using sum_list_all_one(2) [OF le1] v(4) unfolding a by blast
    have "?S \<noteq> []" using v(3) unfolding a by auto
    then have "\<exists>s < ?n. ?C shift s" by (auto simp: filter_empty_conv)
    moreover have "\<forall>s < ?n. ?C shift s \<longrightarrow> (\<exists>t > 0. column candidate ((s + shift) mod ?n) = map ((*) t) (column query s))"
      using all one [of shift] by simp
    moreover have "shift < ?n" using v(1) by simp
    ultimately show ?R by blast
  next
    assume ?R
    then obtain shift where s: "shift < ?n" "\<exists>s < ?n. ?C shift s"
      "\<forall>s < ?n. ?C shift s \<longrightarrow> (\<exists>t > 0. column candidate ((s + shift) mod ?n) = map ((*) t) (column query s))" by blast
    let ?S = "filter (?C shift) [0..<?n]"
    have "\<forall>s \<in> set ?S. ?cos shift s = 1" using s(3) one [of shift] by simp
    from sum_list_ones [OF this] have "cosine_loop ?n query candidate shift [0..<?n] (0, 0) = (real (length ?S), length ?S)"
      by (simp only: cosine_loop_closed add_0)
    moreover have "0 < length ?S" using s(2) by (auto simp: filter_empty_conv)
    ultimately have "?d \<le> 0"
      unfolding scanContextDistance_def using s(1) by (intro shift_loop_hit [where shift = shift and v = "length ?S"]) simp_all
    with lower show "?d = 0" by simp
  qed
  moreover have "\<exists>shift < ?n. (\<exists>s < ?n. ?C shift s)
      \<and> (\<forall>s < ?n. ?C shift s \<longrightarrow> (\<exists>t > 0. column candidate ((s + shift) mod ?n) = map ((*) t) (column query s)))"
    if "shift < ?n" "\<forall>s < ?n. column candidate ((s + shift) mod ?n) = column query s"
      "\<exists>s < ?n. 1 / 1000000 \<le> list_dot (column query s) (column query s)" for shift
  proof -
    have nn: "list_norm q * list_norm q = list_dot q q" for q using list_dot_self by (simp add: list_norm_def)
    have "\<exists>s < ?n. ?C shift s" using that(2,3) by (auto simp: compared_def nn)
    moreover have "\<exists>t > 0. column query s = map ((*) t) (column query s)" for s by (rule exI [of _ 1]) (simp add: map_idI)
    ultimately show ?thesis using that(1,2) by auto
  qed
  ultimately show ?thesis using lower upper unfolding compared_def by blast
qed

section \<open>Loop candidates\<close>

lemma best_candidate_spec:
  assumes "best_candidate c query db ks (i0, d0) = (i, d)"
  defines "scd \<equiv> \<lambda>k. scanContextDistance c (sc_descriptor query) (sc_descriptor (db ! k))"
  shows "(d = d0 \<and> i = i0 \<or> (i \<in> set ks \<and> d = Some (scd i)))
    \<and> (\<forall>k \<in> set ks. \<exists>m. d = Some m \<and> m \<le> scd k) \<and> (\<forall>m0. d0 = Some m0 \<longrightarrow> (\<exists>m. d = Some m \<and> m \<le> m0))"
  using assms(1)
proof (induction ks arbitrary: i0 d0)
  case (Cons k ks)
  have step: "best_candidate c query db (k # ks) (i0, d0) = best_candidate c query db ks
      (if (case d0 of None \<Rightarrow> True | Some m \<Rightarrow> scd k < m) then (k, Some (scd k)) else (i0, d0))"
    by (simp only: best_candidate.simps Let_def scd_def)
  show ?case
  proof (cases "case d0 of None \<Rightarrow> True | Some m \<Rightarrow> scd k < m")
    case True
    then have "best_candidate c query db ks (k, Some (scd k)) = (i, d)"
      using Cons.prems unfolding step by (simp only: if_True if_False)
    from Cons.IH [OF this] True show ?thesis by (force split: option.splits)
  next
    case False
    then have "best_candidate c query db ks (i0, d0) = (i, d)"
      using Cons.prems unfolding step by (simp only: if_True if_False)
    from Cons.IH [OF this] False show ?thesis by (force split: option.splits)
  qed
qed simp

lemma ring_shortlist_bound: "k \<in> set (ring_shortlist q db) \<Longrightarrow> k < length db"
  by (auto simp: ring_shortlist_def dest!: in_set_takeD)

definition ring_distance :: "ScanContextEntry \<Rightarrow> ScanContextEntry list \<Rightarrow> nat \<Rightarrow> real" where
  "ring_distance query db i = list_norm (map2 (-) (sc_ring_key query) (sc_ring_key (db ! i)))"

lemma ring_shortlist_best:
  assumes "i \<in> set (ring_shortlist q db)" and "j < length db" and "j \<notin> set (ring_shortlist q db)"
  shows "ring_distance q db i \<le> ring_distance q db j"
proof -
  let ?l = "sort_key fst (map (\<lambda>i. (ring_distance q db i, i)) [0..<length db])"
  have sl: "ring_shortlist q db = map snd (take 10 ?l)"
    by (simp add: ring_shortlist_def ring_distance_def)
  have mem: "(ring_distance q db j, j) \<in> set ?l" using assms(2) by auto
  have "set ?l = set (take 10 ?l) \<union> set (drop 10 ?l)" by (metis append_take_drop_id set_append)
  with mem assms(3) have j: "(ring_distance q db j, j) \<in> set (drop 10 ?l)" by (force simp: sl)
  obtain x where x: "x \<in> set (take 10 ?l)" "snd x = i" using assms(1) by (auto simp: sl)
  then have "x \<in> set ?l" by (meson in_set_takeD)
  with x(2) have xi: "x = (ring_distance q db i, i)" by auto
  have "sorted (map fst (take 10 ?l @ drop 10 ?l))" by simp
  then have "\<forall>a \<in> set (take 10 ?l). \<forall>b \<in> set (drop 10 ?l). fst a \<le> fst b"
    by (simp only: map_append sorted_append) auto
  with x(1) j xi show ?thesis by fastforce
qed

lemma detectLoopCandidate_bound:
  assumes "detectLoopCandidate q n b = Some (i, d)"
  shows "i + bc_sc_exclude_recent (be_config b) < n \<and> i < length (be_scan_context_database b)"
proof -
  let ?c = "be_config b" and ?db = "be_scan_context_database b"
  let ?short = "ring_shortlist q (take (n - bc_sc_exclude_recent ?c) ?db)"
  have n: "bc_sc_exclude_recent ?c < n" and b: "best_candidate ?c q ?db ?short (0, None) = (i, Some d)"
    using assms by (auto simp: detectLoopCandidate_def Let_def split: if_splits prod.splits option.splits)
  then have "i \<in> set ?short" using best_candidate_spec [OF b] by auto
  from ring_shortlist_bound [OF this] n show ?thesis by auto
qed

text \<open>A loop candidate is a keyframe older than the current one by more than the excluded
  number of recent keyframes, its Scan Context distance to the query is the one reported, is below the
  threshold, and is the least on the shortlist; and no old keyframe outside the shortlist has a smaller ring
  key distance than one on it.\<close>

theorem loop_candidate_is_best:
  assumes "detectLoopCandidate query n b = Some (i, d)"
  defines "db \<equiv> be_scan_context_database b" and "c \<equiv> be_config b"
  defines "short \<equiv> ring_shortlist query (take (n - bc_sc_exclude_recent c) db)"
  shows "i + bc_sc_exclude_recent c < n \<and> i < length db \<and> i \<in> set short
    \<and> d = scanContextDistance c (sc_descriptor query) (sc_descriptor (db ! i)) \<and> d < bc_sc_distance_threshold c
    \<and> (\<forall>k \<in> set short. d \<le> scanContextDistance c (sc_descriptor query) (sc_descriptor (db ! k)))
    \<and> (\<forall>j < min (n - bc_sc_exclude_recent c) (length db). j \<notin> set short \<longrightarrow>
         (\<forall>k \<in> set short. ring_distance query db k \<le> ring_distance query db j))"
proof (intro conjI)
  have b: "best_candidate c query db short (0, None) = (i, Some d)" and thr: "d < bc_sc_distance_threshold c"
    using assms by (auto simp: detectLoopCandidate_def Let_def split: if_splits prod.splits option.splits)
  note spec = best_candidate_spec [OF b]
  show "i + bc_sc_exclude_recent c < n" "i < length db"
    using detectLoopCandidate_bound [OF assms(1)] by (simp_all add: c_def db_def)
  show "i \<in> set short" "d = scanContextDistance c (sc_descriptor query) (sc_descriptor (db ! i))"
    and "d < bc_sc_distance_threshold c" using spec thr by auto
  show "\<forall>k \<in> set short. d \<le> scanContextDistance c (sc_descriptor query) (sc_descriptor (db ! k))"
    using spec by auto
  show "\<forall>j < min (n - bc_sc_exclude_recent c) (length db). j \<notin> set short \<longrightarrow>
      (\<forall>k \<in> set short. ring_distance query db k \<le> ring_distance query db j)"
  proof (intro allI impI ballI)
    fix j k assume j: "j < min (n - bc_sc_exclude_recent c) (length db)" "j \<notin> set short" and k: "k \<in> set short"
    have "k < length (take (n - bc_sc_exclude_recent c) db)" using k ring_shortlist_bound unfolding short_def by blast
    with ring_shortlist_best [of k query "take (n - bc_sc_exclude_recent c) db" j] j k
    show "ring_distance query db k \<le> ring_distance query db j" by (simp add: short_def ring_distance_def)
  qed
qed

section \<open>The factor graph\<close>

text \<open>What the update of node \<open>k\<close> may contain.\<close>

definition update_ok :: "backend_config \<Rightarrow> nat \<Rightarrow> 'r isam_update \<Rightarrow> bool" where
  "update_ok c k u =
     (iu_key u = k
      \<and> (case iu_factors u of
           [] \<Rightarrow> False
         | base # rest \<Rightarrow>
             (if k = 0 then \<exists>p v. base = PriorFactor 0 p v
              else \<exists>p v. base = BetweenFactor (k - 1) k p v Gaussian)
             \<and> (\<forall>f \<in> set rest. case f of
                  PriorFactor i p v \<Rightarrow> False
                | BetweenFactor i j p v kern \<Rightarrow> j = k \<and> i + bc_sc_exclude_recent c < k \<and> kern = Cauchy 1
                | AntennaPositionFactor i a l v kern \<Rightarrow> i = k
                | AntennaVelocityFactor i j a l dt v kern \<Rightarrow> i + 1 = k \<and> j = k \<and> 2 / 100 < dt
                | HeadingFactor i h v kern \<Rightarrow> i = k)))"

definition graph_inv :: "'r backend \<Rightarrow> bool" where
  "graph_inv b =
     (let n = length (be_local_keyposes b)
      in length (be_keyframe_clouds b) = n \<and> length (be_keyframe_stamps b) = n
         \<and> length (be_keyframe_rtk b) = n \<and> length (be_scan_context_database b) = n
         \<and> length (be_updates b) = n \<and> length (be_latest_estimate b) = n
         \<and> (be_correction_initialized b \<longleftrightarrow> 0 < n)
         \<and> (\<forall>k < n. update_ok (be_config b) k (be_updates b ! k))
         \<and> (\<forall>e \<in> set (be_scan_context_database b). sc_entry_ok (be_config b) e)
         \<and> (\<forall>(i, j) \<in> set (be_loop_edges b). i + bc_sc_exclude_recent (be_config b) < j \<and> j < n))"

inductive be_reach :: "'r backend_lib \<Rightarrow> 'r backend \<Rightarrow> bool" for lib :: "'r backend_lib" where
  start: "sc_config_ok (be_config b) \<Longrightarrow> 0 < bc_max_pending_keyframes (be_config b) \<Longrightarrow>
    be_updates b = [] \<Longrightarrow> be_latest_estimate b = [] \<Longrightarrow> be_local_keyposes b = [] \<Longrightarrow>
    be_keyframe_clouds b = [] \<Longrightarrow> be_keyframe_stamps b = [] \<Longrightarrow> be_keyframe_rtk b = [] \<Longrightarrow>
    be_scan_context_database b = [] \<Longrightarrow> be_loop_edges b = [] \<Longrightarrow> be_rtk_queue b = [] \<Longrightarrow>
    be_keyframe_queue b = [] \<Longrightarrow> \<not> be_correction_initialized b \<Longrightarrow>
    esikf_reach (bl_g lib) (be_esikf b) \<Longrightarrow> be_reach lib b"
| frame: "be_reach lib b \<Longrightarrow> be_reach lib (syncedCallback lib pixels input b)"
| odometry: "be_reach lib b \<Longrightarrow> localOdometryCallback lib stamp pose b = (out, b') \<Longrightarrow> be_reach lib b'"
| gps: "be_reach lib b \<Longrightarrow> be_reach lib (gpsHandler lib msg b)"
| fix_message: "be_reach lib b \<Longrightarrow> be_reach lib (navSatFixHandler lib nsf b)"
| worker: "be_reach lib b \<Longrightarrow> worker_round lib b = Ret b' \<Longrightarrow> be_reach lib b'"

text \<open>The part of the state only the worker writes, apart from the target correction.\<close>

definition graph_part :: "'r backend \<Rightarrow> _" where
  "graph_part b = (be_config b, be_updates b, be_latest_estimate b, be_local_keyposes b, be_keyframe_clouds b,
     be_keyframe_stamps b, be_keyframe_rtk b, be_scan_context_database b, be_loop_edges b,
     be_correction_initialized b)"

lemma graph_inv_part: "graph_part b = graph_part b' \<Longrightarrow> graph_inv b = graph_inv b'"
  by (simp add: graph_part_def graph_inv_def)

lemma be_enqueue_part [simp]: "graph_part (be_enqueue m b) = graph_part b"
  by (simp add: graph_part_def be_enqueue_def)

lemma callbacks_keep_graph:
  "graph_part (syncedCallback lib pixels input b) = graph_part b"
  "graph_part (gpsHandler lib msg b) = graph_part b"
  "graph_part (navSatFixHandler lib nsf b) = graph_part b"
  "graph_part (snd (localOdometryCallback lib stamp pose b)) = graph_part b"
  "graph_part (snd (findNearestRtk stamp' b)) = graph_part b"
  by (auto simp: graph_part_def syncedCallback_def gpsHandler_def navSatFixHandler_def be_enqueue_def
      localOdometryCallback_def smoothCorrectionStep_def findNearestRtk_def Let_def
      split: prod.split list.split if_splits)

lemma rtk_factors_ok:
  "f \<in> set (rtk_factors c k stamp m b) \<Longrightarrow>
     (\<exists>a l v kern. f = AntennaPositionFactor k a l v kern) \<or> (\<exists>h v kern. f = HeadingFactor k h v kern)
     \<or> (\<exists>a l dt v kern. f = AntennaVelocityFactor (k - 1) k a l dt v kern \<and> 0 < k \<and> 2 / 100 < dt)"
proof -
  assume "f \<in> set (rtk_factors c k stamp m b)"
  then consider "f = AntennaPositionFactor k (ob_position m) (bc_imu_to_antenna c) (ob_position_variance m)
        (Huber (1345 / 1000))"
    | "ob_heading_valid m" "f = HeadingFactor k (ob_heading m + bc_rtk_heading_offset c) (ob_heading_variance m)
        (Huber (1345 / 1000))"
    | prev where "0 < k" "last (be_keyframe_rtk b) = Some prev"
        "2 / 100 < stamp - last (be_keyframe_stamps b)"
        "f = AntennaVelocityFactor (k - 1) k (v3_scale (1 / 2) (v3_add (ob_velocity prev) (ob_velocity m)))
           (bc_imu_to_antenna c) (stamp - last (be_keyframe_stamps b))
           (v3_mid_variance (ob_velocity_variance prev) (ob_velocity_variance m)) (Huber (1345 / 1000))"
    unfolding rtk_factors_def Let_def
    by (cases "last (be_keyframe_rtk b)") (simp_all only: set_append Un_iff option.case, auto split: if_split_asm)
  then show ?thesis by cases blast+
qed

lemma loop_closure_bound:
  "loop_closure lib q n input b = Some (i, rel) \<Longrightarrow> i + bc_sc_exclude_recent (be_config b) < n"
  by (auto simp: loop_closure_def split: if_splits option.splits dest: detectLoopCandidate_bound)

text \<open>Appending one keyframe to a well formed graph.\<close>

lemma graph_inv_append:
  assumes "graph_inv b" and "update_ok (be_config b) (length (be_local_keyposes b)) u"
    and "sc_entry_ok (be_config b) e" and "length es = Suc (length (be_local_keyposes b))"
    and "\<forall>(i, j) \<in> set new. i + bc_sc_exclude_recent (be_config b) < j \<and> j = length (be_local_keyposes b)"
  shows "graph_inv (updateGlobalCorrection lib p opt
     (b\<lparr>be_updates := be_updates b @ [u], be_latest_estimate := es,
        be_local_keyposes := be_local_keyposes b @ [p], be_keyframe_clouds := be_keyframe_clouds b @ [cl],
        be_keyframe_stamps := be_keyframe_stamps b @ [t], be_keyframe_rtk := be_keyframe_rtk b @ [r],
        be_scan_context_database := be_scan_context_database b @ [e],
        be_loop_edges := be_loop_edges b @ new\<rparr>))"
proof -
  let ?n = "length (be_local_keyposes b)"
  have n: "length (be_updates b) = ?n" and ok: "\<forall>k < ?n. update_ok (be_config b) k (be_updates b ! k)"
    using assms(1) by (simp_all add: graph_inv_def Let_def)
  have "update_ok (be_config b) k ((be_updates b @ [u]) ! k)" if "k < Suc ?n" for k
    using that ok assms(2) n by (cases "k = ?n") (simp_all add: nth_append)
  moreover have "\<forall>(i, j) \<in> set (be_loop_edges b @ new). i + bc_sc_exclude_recent (be_config b) < j \<and> j < Suc ?n"
    using assms(1,5) by (fastforce simp: graph_inv_def Let_def)
  ultimately show ?thesis
    using assms(1,3,4) by (cases "be_local_keyposes b = []") (simp_all add: graph_inv_def updateGlobalCorrection_def Let_def)
qed

lemma processKeyframe_ok:
  assumes est: "\<And>us. length (bl_estimate lib us) = length us"
    and inv: "graph_inv b" and cfg: "sc_config_ok (be_config b)"
  shows "\<exists>b'. processKeyframe lib input b = Ret b' \<and> graph_inv b' \<and> be_config b' = be_config b
    \<and> (shouldCreateKeyframe lib (ki_local_pose input) (ki_stamp input) b \<longrightarrow>
         be_local_keyposes b' = be_local_keyposes b @ [ki_local_pose input]
         \<and> be_target_map_to_odom b' =
             g_compose (bl_g lib) (last (be_latest_estimate b')) (bl_inverse lib (ki_local_pose input))
         \<and> (\<not> be_correction_initialized b \<longrightarrow> be_smoothed_map_to_odom b' = be_target_map_to_odom b'))"
proof (cases "shouldCreateKeyframe lib (ki_local_pose input) (ki_stamp input) b")
  case False
  then show ?thesis using inv by (simp add: processKeyframe_def)
next
  case create: True
  let ?c = "be_config b" and ?n = "length (be_local_keyposes b)"
  obtain e where e: "makeScanContext ?c (ki_cloud input) = Ret e" "sc_entry_ok ?c e"
    using makeScanContext_ok [OF cfg] by blast
  obtain rtk b1 where rtk: "(if bc_gps_enabled ?c then findNearestRtk (ki_stamp input) b else (None, b)) = (rtk, b1)"
    by (metis prod.exhaust)
  have part: "graph_part b1 = graph_part b"
    using rtk callbacks_keep_graph(5) [of "ki_stamp input" b] by (auto split: if_splits)
  then have inv1: "graph_inv b1" using graph_inv_part inv by blast
  have same: "be_config b1 = ?c" "be_local_keyposes b1 = be_local_keyposes b"
    "be_latest_estimate b1 = be_latest_estimate b" "be_updates b1 = be_updates b"
    "be_correction_initialized b1 = be_correction_initialized b"
    using part by (simp_all add: graph_part_def)
  define rel where "rel = g_between (bl_g lib) (last (be_local_keyposes b)) (ki_local_pose input)"
  define start where "start = (if ?n = 0 then first_pose lib ?c rtk (ki_local_pose input)
    else g_compose (bl_g lib) (be_latest_estimate b ! (?n - 1)) rel)"
  define base where "base = (if ?n = 0 then PriorFactor 0 start prior_variance
    else BetweenFactor (?n - 1) ?n rel
       (six_variances (bc_odom_rotation_variance ?c) (bc_odom_translation_variance ?c)) Gaussian)"
  have lens: "length (be_latest_estimate b) = ?n" "length (be_updates b) = ?n"
    using inv by (simp_all add: graph_inv_def Let_def)
  define rtk_fs where "rtk_fs = (case rtk of None \<Rightarrow> [] | Some m \<Rightarrow> rtk_factors ?c ?n (ki_stamp input) m b1)"
  define loop where "loop = loop_closure lib e ?n input b1"
  define loop_fs :: "'a factor list" where "loop_fs = (case loop of None \<Rightarrow> []
      | Some (candidate, r) \<Rightarrow> [BetweenFactor candidate ?n r
          (six_variances (bc_loop_rotation_variance ?c) (bc_loop_translation_variance ?c)) (Cauchy 1)])"
  define u where "u = \<lparr>iu_factors = [base] @ rtk_fs @ loop_fs, iu_key = ?n, iu_value = start,
    iu_extra = (if loop = None then 0 else 2)\<rparr>"
  define new where "new = (case loop of None \<Rightarrow> [] | Some (k, _) \<Rightarrow> [(k, ?n)])"
  let ?us = "be_updates b @ [u]"
  define b2 where "b2 = b1\<lparr>be_updates := be_updates b1 @ [u], be_latest_estimate := bl_estimate lib ?us,
        be_local_keyposes := be_local_keyposes b1 @ [ki_local_pose input],
        be_keyframe_clouds := be_keyframe_clouds b1 @ [ki_cloud input],
        be_keyframe_stamps := be_keyframe_stamps b1 @ [ki_stamp input],
        be_keyframe_rtk := be_keyframe_rtk b1 @ [rtk],
        be_scan_context_database := be_scan_context_database b1 @ [e],
        be_loop_edges := be_loop_edges b1 @ new\<rparr>"
  have rtk_ok: "(\<exists>a l v kern. f = AntennaPositionFactor ?n a l v kern) \<or> (\<exists>h v kern. f = HeadingFactor ?n h v kern)
     \<or> (\<exists>a l dt v kern. f = AntennaVelocityFactor (?n - 1) ?n a l dt v kern \<and> 0 < ?n \<and> 2 / 100 < dt)"
    if "f \<in> set rtk_fs" for f
  proof -
    from that obtain m where "f \<in> set (rtk_factors ?c ?n (ki_stamp input) m b1)"
      by (cases rtk) (simp_all add: rtk_fs_def)
    from rtk_factors_ok [OF this] show ?thesis .
  qed
  have bound: "i + bc_sc_exclude_recent ?c < ?n" if "loop = Some (i, r)" for i r
    using loop_closure_bound [of lib e ?n input b1 i r] that same by (simp add: loop_def)
  have loop_ok: "\<forall>(i, j) \<in> set new. i + bc_sc_exclude_recent ?c < j \<and> j = ?n"
  proof (cases loop)
    case (Some x)
    then show ?thesis using bound by (cases x) (simp add: new_def)
  qed (simp add: new_def)
  have loop_fs_ok: "\<exists>i r v. f = BetweenFactor i ?n r v (Cauchy 1) \<and> i + bc_sc_exclude_recent ?c < ?n"
    if "f \<in> set loop_fs" for f
  proof (cases loop)
    case (Some x)
    with that bound show ?thesis by (cases x) (simp add: loop_fs_def)
  qed (use that in \<open>simp add: loop_fs_def\<close>)
  have u_ok: "update_ok ?c ?n u"
  proof -
    have "case f of
                  PriorFactor i p v \<Rightarrow> False
                | BetweenFactor i j p v kern \<Rightarrow> j = ?n \<and> i + bc_sc_exclude_recent ?c < ?n \<and> kern = Cauchy 1
                | AntennaPositionFactor i a l v kern \<Rightarrow> i = ?n
                | AntennaVelocityFactor i j a l dt v kern \<Rightarrow> i + 1 = ?n \<and> j = ?n \<and> 2 / 100 < dt
                | HeadingFactor i h v kern \<Rightarrow> i = ?n" if f: "f \<in> set (rtk_fs @ loop_fs)" for f
    proof (cases "f \<in> set rtk_fs")
      case True
      from rtk_ok [OF this] show ?thesis by (elim disjE exE conjE) simp_all
    next
      case False
      with f have "f \<in> set loop_fs" by simp
      from loop_fs_ok [OF this] show ?thesis by (elim exE conjE) simp
    qed
    moreover have "if ?n = 0 then \<exists>p v. base = PriorFactor 0 p v
        else \<exists>p v. base = BetweenFactor (?n - 1) ?n p v Gaussian"
    proof (cases "?n = 0")
      case True
      then have "base = PriorFactor 0 start prior_variance" by (simp add: base_def)
      with True show ?thesis by metis
    next
      case False
      then have "base = BetweenFactor (?n - 1) ?n rel
          (six_variances (bc_odom_rotation_variance ?c) (bc_odom_translation_variance ?c)) Gaussian"
        by (simp add: base_def)
      with False show ?thesis by metis
    qed
    ultimately show ?thesis by (simp only: update_ok_def u_def isam_update.simps append_Cons append_Nil list.case) blast
  qed
  have b2_inv: "graph_inv (updateGlobalCorrection lib (ki_local_pose input) opt b2)" for opt
    unfolding b2_def
    by (rule graph_inv_append [OF inv1]) (use u_ok e(2) loop_ok same lens est in simp_all)
  have run: "processKeyframe lib input b =
      bind_exec (estimate_at (bl_estimate lib ?us) ?n) (\<lambda>optimized.
        Ret (updateGlobalCorrection lib (ki_local_pose input) optimized b2))"
    using create e rtk lens
    by (auto simp: processKeyframe_def Let_def estimate_at_def same start_def base_def rel_def
        rtk_fs_def loop_def loop_fs_def u_def b2_def new_def split: option.split prod.split)
  have "estimate_at (bl_estimate lib ?us) ?n = Ret (last (bl_estimate lib ?us))"
    using est [of ?us] lens by (simp add: estimate_at_def last_conv_nth flip: length_greater_0_conv)
  with run have "processKeyframe lib input b =
      Ret (updateGlobalCorrection lib (ki_local_pose input) (last (bl_estimate lib ?us)) b2)" by simp
  then show ?thesis
    using b2_inv same by (simp add: updateGlobalCorrection_def b2_def Let_def)
qed

lemma shouldCreateKeyframe_queue [simp]:
  "shouldCreateKeyframe lib p t (b\<lparr>be_keyframe_queue := q\<rparr>) = shouldCreateKeyframe lib p t b"
  by (simp add: shouldCreateKeyframe_def)

lemma graph_part_config: "graph_part b' = graph_part b \<Longrightarrow> be_config b' = be_config b"
  by (simp add: graph_part_def)

lemma updateGlobalCorrection_keeps:
  "be_keyframe_queue (updateGlobalCorrection lib p o' b) = be_keyframe_queue b"
  "be_esikf (updateGlobalCorrection lib p o' b) = be_esikf b"
  "be_rtk_queue (updateGlobalCorrection lib p o' b) = be_rtk_queue b"
  by (simp_all add: updateGlobalCorrection_def Let_def)

lemma processKeyframe_queues:
  assumes "processKeyframe lib input b = Ret b'"
  shows "be_keyframe_queue b' = be_keyframe_queue b \<and> be_esikf b' = be_esikf b
    \<and> (\<exists>k. be_rtk_queue b' = drop k (be_rtk_queue b))"
proof -
  have drops: "\<exists>k. be_rtk_queue (snd (findNearestRtk t b)) = drop k (be_rtk_queue b)" for t
  proof -
    obtain j where j: "drop_expired (t - 5) (be_rtk_queue b) = drop j (be_rtk_queue b)"
      by (metis drop_expired_eq dropWhile_eq_drop)
    have "\<exists>i. be_rtk_queue (snd (findNearestRtk t b)) = drop i (drop j (be_rtk_queue b))"
    proof (cases "drop j (be_rtk_queue b)")
      case Nil
      then show ?thesis by (simp add: findNearestRtk_def j)
    next
      case (Cons x rest)
      obtain k d where "nearest_loop t 1 rest 0 \<bar>ob_time x - t\<bar> = (k, d)" by (metis prod.exhaust)
      then have "be_rtk_queue (snd (findNearestRtk t b)) = x # rest
          \<or> be_rtk_queue (snd (findNearestRtk t b)) = drop (Suc k) (x # rest)"
        by (simp add: findNearestRtk_def j Cons Let_def)
      then show ?thesis unfolding Cons by (metis drop0)
    qed
    then show ?thesis by (metis drop_drop)
  qed
  have others: "be_keyframe_queue (snd (findNearestRtk t b)) = be_keyframe_queue b"
    "be_esikf (snd (findNearestRtk t b)) = be_esikf b" for t
    by (auto simp: findNearestRtk_def Let_def split: list.split prod.split)
  show ?thesis
  proof (cases "shouldCreateKeyframe lib (ki_local_pose input) (ki_stamp input) b")
    case False
    with assms show ?thesis by (auto simp: processKeyframe_def intro: exI [of _ 0])
  next
    case True
    obtain rtk b1 where r: "(if bc_gps_enabled (be_config b) then findNearestRtk (ki_stamp input) b else (None, b)) = (rtk, b1)"
      by (metis prod.exhaust)
    have "be_keyframe_queue b' = be_keyframe_queue b1 \<and> be_esikf b' = be_esikf b1 \<and> be_rtk_queue b' = be_rtk_queue b1"
      using assms
      unfolding processKeyframe_def Let_def r prod.case
      by (clarsimp simp: True bind_exec_Ret_iff case_prod_unfold updateGlobalCorrection_keeps split del: if_split)
    moreover have "be_keyframe_queue b1 = be_keyframe_queue b \<and> be_esikf b1 = be_esikf b
        \<and> (\<exists>k. be_rtk_queue b1 = drop k (be_rtk_queue b))"
    proof (cases "bc_gps_enabled (be_config b)")
      case True
      then have "b1 = snd (findNearestRtk (ki_stamp input) b)" using r by simp
      with drops others show ?thesis by simp
    next
      case False
      then show ?thesis using r by (auto intro: exI [of _ 0])
    qed
    ultimately show ?thesis by simp
  qed
qed

definition backend_inv :: "'r backend_lib \<Rightarrow> 'r backend \<Rightarrow> bool" where
  "backend_inv lib b =
     (graph_inv b \<and> sc_config_ok (be_config b) \<and> be_rtk_inv lib b
      \<and> 0 < bc_max_pending_keyframes (be_config b)
      \<and> length (be_keyframe_queue b) \<le> bc_max_pending_keyframes (be_config b))"

lemma worker_round_inv:
  assumes est: "\<And>us. length (bl_estimate lib us) = length us" and inv: "backend_inv lib b"
  shows "\<exists>b'. worker_round lib b = Ret b' \<and> backend_inv lib b'
    \<and> length (be_keyframe_queue b') = length (be_keyframe_queue b) - 1"
proof (cases "be_keyframe_queue b")
  case Nil
  then show ?thesis using inv by (simp add: worker_round_def)
next
  case (Cons input q)
  let ?b = "b\<lparr>be_keyframe_queue := q\<rparr>"
  have "graph_inv ?b" "sc_config_ok (be_config ?b)"
    using inv by (simp_all add: backend_inv_def graph_inv_def)
  from processKeyframe_ok [OF est this, of input] obtain b' where
    b': "processKeyframe lib input ?b = Ret b'" "graph_inv b'" "be_config b' = be_config b" by auto
  from processKeyframe_queues [OF b'(1)]
  have "backend_inv lib b'" and "be_keyframe_queue b' = q"
    using inv b'(2,3) Cons by (auto simp: backend_inv_def be_rtk_inv_def intro: sorted_map_drop)
  then show ?thesis using Cons b'(1) by (simp add: worker_round_def)
qed

lemma syncedCallback_keeps:
  "be_esikf (syncedCallback lib pixels input b) = be_esikf b"
  "be_rtk_queue (syncedCallback lib pixels input b) = be_rtk_queue b"
  by (simp_all add: syncedCallback_def Let_def case_prod_unfold)

lemma odometry_keeps:
  assumes "localOdometryCallback lib stamp pose b = (out, b')"
  shows "be_rtk_queue b' = be_rtk_queue b" "be_keyframe_queue b' = be_keyframe_queue b"
    "\<exists>r u. processLivo (bl_g lib) stamp pose (be_esikf b) = (r, u, be_esikf b')"
proof -
  obtain r u f where p: "processLivo (bl_g lib) stamp pose (be_esikf b) = (r, u, f)" by (metis prod.exhaust)
  then show "be_rtk_queue b' = be_rtk_queue b" "be_keyframe_queue b' = be_keyframe_queue b"
    "\<exists>r u. processLivo (bl_g lib) stamp pose (be_esikf b) = (r, u, be_esikf b')"
    using assms by (auto simp: localOdometryCallback_def smoothCorrectionStep_def Let_def split: if_splits)
qed

lemma handlers_keep_queue:
  "be_keyframe_queue (gpsHandler lib msg b) = be_keyframe_queue b"
  "be_keyframe_queue (navSatFixHandler lib nsf b) = be_keyframe_queue b"
  by (simp_all add: gpsHandler_def navSatFixHandler_def be_enqueue_def Let_def)

lemma handlers_keep_rtk_inv:
  assumes "be_rtk_inv lib b"
  shows "be_rtk_inv lib (gpsHandler lib msg b)" "be_rtk_inv lib (navSatFixHandler lib nsf b)"
  using assms
  by (auto simp: gpsHandler_def navSatFixHandler_def Let_def gps_measurement_ok nsf_measurement_ok
      intro!: be_enqueue_inv)

lemma be_reach_inv:
  assumes est: "\<And>us. length (bl_estimate lib us) = length us"
  shows "be_reach lib b \<Longrightarrow> backend_inv lib b"
proof (induction rule: be_reach.induct)
  case (start b)
  then show ?case by (simp add: backend_inv_def graph_inv_def be_rtk_inv_def)
next
  case (frame b pixels input)
  note part = callbacks_keep_graph(1) [of lib pixels input b]
  have "length (be_keyframe_queue (syncedCallback lib pixels input b)) \<le> bc_max_pending_keyframes (be_config b)"
    using frame.IH syncedCallback_queue [of lib pixels input b] by (auto simp: backend_inv_def split: if_splits)
  with frame.IH graph_inv_part [OF part] graph_part_config [OF part] show ?case
    by (simp add: backend_inv_def be_rtk_inv_def syncedCallback_keeps)
next
  case (odometry b stamp pose out b')
  have part: "graph_part b' = graph_part b" using callbacks_keep_graph(4) [of lib stamp pose b] odometry.hyps by simp
  have "esikf_reach (bl_g lib) (be_esikf b')"
    using odometry_keeps(3) [OF odometry.hyps(2)] odometry.IH
    by (auto simp: backend_inv_def be_rtk_inv_def intro: esikf_reach.livo)
  with odometry.IH graph_inv_part [OF part] graph_part_config [OF part] odometry_keeps [OF odometry.hyps(2)]
  show ?case by (simp add: backend_inv_def be_rtk_inv_def)
next
  case (gps b msg)
  note part = callbacks_keep_graph(2) [of lib msg b]
  from gps.IH graph_inv_part [OF part] graph_part_config [OF part] handlers_keep_rtk_inv(1) [of lib b msg]
  show ?case by (simp add: backend_inv_def handlers_keep_queue)
next
  case (fix_message b nsf)
  note part = callbacks_keep_graph(3) [of lib nsf b]
  from fix_message.IH graph_inv_part [OF part] graph_part_config [OF part] handlers_keep_rtk_inv(2) [of lib b nsf]
  show ?case by (simp add: backend_inv_def handlers_keep_queue)
next
  case (worker b b')
  from worker_round_inv [OF est worker.IH] worker.hyps(2) show ?case by auto
qed

text \<open>C2: Whatever the interleaving of the callbacks and the worker, the factor graph is well
  formed: the arrays over keyframes have the same length; node 0 carries the only prior and every later
  node a Gaussian odometry factor to its predecessor, so the graph is anchored and connected; RTK factors
  touch only the new node and, for velocity, its predecessor; a loop factor goes to a sufficiently old
  node, has the Cauchy kernel and is recorded. The worker always finishes its round: no index is out of
  range and the estimates it reads exist.\<close>

theorem backend_graph_well_formed:
  assumes "\<And>us. length (bl_estimate lib us) = length us" and "be_reach lib b"
  shows "graph_inv b
    \<and> (\<exists>b'. worker_round lib b = Ret b' \<and> graph_inv b'
         \<and> length (be_keyframe_queue b') = length (be_keyframe_queue b) - 1)"
proof -
  have "backend_inv lib b" by (rule be_reach_inv [OF assms])
  with worker_round_inv [OF assms(1) this] show ?thesis by (auto simp: backend_inv_def)
qed

text \<open>C36: The global correction is anchored at the newest keyframe: applied to the keyframe's
  local pose, the target correction gives the optimised pose of that keyframe. After the first keyframe
  the correction is published without smoothing, so the graph odometry of that pose is the optimised
  pose at once.\<close>

theorem correction_anchors_keyframe:
  assumes "\<And>us. length (bl_estimate lib us) = length us" and "be_reach lib b"
    and "be_keyframe_queue b = input # q"
    and "shouldCreateKeyframe lib (ki_local_pose input) (ki_stamp input) b"
    and "worker_round lib b = Ret b'"
    and inverse: "\<And>x p. g_compose (bl_g lib) (g_compose (bl_g lib) x (bl_inverse lib p)) p = x"
    and still: "\<And>x. g_compose (bl_g lib) x (bl_pose_expmap lib
        (\<lambda>i. bc_correction_smoothing_alpha (be_config b) * bl_pose_logmap lib (g_between (bl_g lib) x x) i)) = x"
  shows "g_compose (bl_g lib) (be_target_map_to_odom b') (ki_local_pose input) = last (be_latest_estimate b')
    \<and> (be_local_keyposes b = [] \<longrightarrow>
        oo_graph_pose (fst (localOdometryCallback lib stamp (ki_local_pose input) b')) = last (be_latest_estimate b'))"
proof -
  let ?b = "b\<lparr>be_keyframe_queue := q\<rparr>"
  have inv: "backend_inv lib b" by (rule be_reach_inv [OF assms(1,2)])
  then have "graph_inv ?b" "sc_config_ok (be_config ?b)" by (simp_all add: backend_inv_def graph_inv_def)
  from processKeyframe_ok [OF assms(1) this, of input] assms(3-5)
  have target: "be_target_map_to_odom b' =
      g_compose (bl_g lib) (last (be_latest_estimate b')) (bl_inverse lib (ki_local_pose input))"
    and cfg: "be_config b' = be_config b" and g': "graph_inv b'"
    and poses: "be_local_keyposes b' = be_local_keyposes b @ [ki_local_pose input]"
    and smoothed: "\<not> be_correction_initialized b \<longrightarrow> be_smoothed_map_to_odom b' = be_target_map_to_odom b'"
    by (auto simp: worker_round_def)
  have first: "g_compose (bl_g lib) (be_target_map_to_odom b') (ki_local_pose input) = last (be_latest_estimate b')"
    unfolding target by (rule inverse)
  moreover have "oo_graph_pose (fst (localOdometryCallback lib stamp (ki_local_pose input) b')) = last (be_latest_estimate b')"
    if "be_local_keyposes b = []"
  proof -
    have init: "be_correction_initialized b'" using g' poses by (simp add: graph_inv_def Let_def)
    have "\<not> be_correction_initialized b" using inv that by (simp add: backend_inv_def graph_inv_def Let_def)
    with smoothed first still init cfg show ?thesis
      by (simp add: localOdometryCallback_def smoothCorrectionStep_def Let_def case_prod_unfold)
  qed
  ultimately show ?thesis by blast
qed

section \<open>Shutdown\<close>

text \<open>
  The worker's wait and the destructor's request, at the level of their atomic actions. The worker
  takes \<open>queue_mutex_\<close>, evaluates the predicate of \<open>queue_cv_.wait\<close>, and blocks, which releases the
  mutex; a notification that arrives before it blocks is lost. The destructor stores the flag and
  notifies without the mutex, then joins. Enqueuing is left out: the callbacks have ended.
\<close>

datatype worker_pc = Checking | Deciding bool | Blocked | Finished

datatype closer_pc = Storing | Notifying | Joining | Joined

record shutdown =
  sd_worker :: worker_pc
  sd_closer :: closer_pc
  sd_stop_requested :: bool
  sd_save_requested :: bool
  sd_queue_length :: nat

text \<open>\<open>Deciding p\<close>: the predicate has been read as \<open>p\<close>. With a keyframe or a save request the worker
  does its round and checks again.\<close>

inductive shutdown_step :: "shutdown \<Rightarrow> shutdown \<Rightarrow> bool" where
  check: "sd_worker s = Checking \<Longrightarrow>
    shutdown_step s (s\<lparr>sd_worker := Deciding (sd_stop_requested s \<or> sd_save_requested s \<or> 0 < sd_queue_length s)\<rparr>)"
| block: "sd_worker s = Deciding False \<Longrightarrow> shutdown_step s (s\<lparr>sd_worker := Blocked\<rparr>)"
| process: "sd_worker s = Deciding True \<Longrightarrow> 0 < sd_queue_length s \<Longrightarrow>
    shutdown_step s (s\<lparr>sd_worker := Checking, sd_queue_length := sd_queue_length s - 1, sd_save_requested := False\<rparr>)"
| finish: "sd_worker s = Deciding True \<Longrightarrow> sd_queue_length s = 0 \<Longrightarrow> sd_stop_requested s \<Longrightarrow>
    shutdown_step s (s\<lparr>sd_worker := Finished\<rparr>)"
| save: "sd_worker s = Deciding True \<Longrightarrow> sd_queue_length s = 0 \<Longrightarrow> \<not> sd_stop_requested s \<Longrightarrow>
    shutdown_step s (s\<lparr>sd_worker := Checking, sd_save_requested := False\<rparr>)"
| store: "sd_closer s = Storing \<Longrightarrow> shutdown_step s (s\<lparr>sd_stop_requested := True, sd_closer := Notifying\<rparr>)"
| notify: "sd_closer s = Notifying \<Longrightarrow>
    shutdown_step s (s\<lparr>sd_closer := Joining, sd_worker := (if sd_worker s = Blocked then Checking else sd_worker s)\<rparr>)"
| join: "sd_closer s = Joining \<Longrightarrow> sd_worker s = Finished \<Longrightarrow> shutdown_step s (s\<lparr>sd_closer := Joined\<rparr>)"

inductive_cases shutdown_stepE: "shutdown_step s s'"

definition shutdown_start :: "nat \<Rightarrow> bool \<Rightarrow> shutdown" where
  "shutdown_start n save = \<lparr>sd_worker = Checking, sd_closer = Storing, sd_stop_requested = False,
     sd_save_requested = save, sd_queue_length = n\<rparr>"

lemma shutdown_queue_mono: "shutdown_step s s' \<Longrightarrow> sd_queue_length s' \<le> sd_queue_length s"
  by (auto elim: shutdown_step.cases)

lemma shutdown_join_empty:
  "shutdown_step\<^sup>*\<^sup>* s s' \<Longrightarrow> sd_worker s = Checking \<Longrightarrow> sd_closer s = Storing \<Longrightarrow>
   (sd_worker s' = Finished \<longrightarrow> sd_queue_length s' = 0) \<and> (sd_closer s' = Joined \<longrightarrow> sd_worker s' = Finished)"
proof (induction rule: rtranclp_induct)
  case (step t u)
  from step.hyps(2) step.IH [OF step.prems] show ?case by (auto elim!: shutdown_stepE split: if_splits)
qed simp

text \<open>The join in the destructor returns only after the queue has been drained, but it may
  never return: the request to stop takes no lock, so it can fall between the worker's check of the
  predicate and its wait. In the state reached then no step is possible, the worker waits for a
  notification that has already been sent, and the destructor waits for the worker.\<close>

theorem shutdown_lost_wakeup:
  "(\<forall>s. shutdown_step\<^sup>*\<^sup>* (shutdown_start n save) s \<and> sd_closer s = Joined \<longrightarrow> sd_queue_length s = 0)
   \<and> (\<exists>s. shutdown_step\<^sup>*\<^sup>* (shutdown_start 0 False) s \<and> sd_worker s = Blocked \<and> sd_closer s = Joining
        \<and> (\<forall>s'. \<not> shutdown_step s s'))"
proof (intro conjI allI impI exI)
  fix s assume "shutdown_step\<^sup>*\<^sup>* (shutdown_start n save) s \<and> sd_closer s = Joined"
  then show "sd_queue_length s = 0"
    using shutdown_join_empty [of "shutdown_start n save" s] by (simp add: shutdown_start_def)
next
  let ?s0 = "shutdown_start 0 False"
  let ?s1 = "?s0\<lparr>sd_worker := Deciding False\<rparr>"
  let ?s2 = "?s1\<lparr>sd_stop_requested := True, sd_closer := Notifying\<rparr>"
  let ?s3 = "?s2\<lparr>sd_closer := Joining, sd_worker := Deciding False\<rparr>"
  let ?s4 = "?s3\<lparr>sd_worker := Blocked\<rparr>"
  have "shutdown_step ?s0 ?s1" using check [of ?s0] by (simp add: shutdown_start_def)
  moreover have "shutdown_step ?s1 ?s2" by (rule store) (simp add: shutdown_start_def)
  moreover have "shutdown_step ?s2 ?s3" using notify [of ?s2] by (simp add: shutdown_start_def)
  moreover have "shutdown_step ?s3 ?s4" by (rule block) simp
  ultimately show "shutdown_step\<^sup>*\<^sup>* ?s0 ?s4" by (meson rtranclp.rtrancl_into_rtrancl rtranclp.rtrancl_refl)
  show "sd_worker ?s4 = Blocked" "sd_closer ?s4 = Joining" by simp_all
  show "\<not> shutdown_step ?s4 s'" for s' by (auto elim: shutdown_stepE)
qed

theorem shutdown_lost_wakeup_witness:
  "\<exists>s. shutdown_step\<^sup>*\<^sup>* (shutdown_start 1 False) s \<and> sd_closer s = Joined \<and> sd_queue_length s = 0"
proof -
  let ?s0 = "shutdown_start 1 False"
  let ?s1 = "?s0\<lparr>sd_stop_requested := True, sd_closer := Notifying\<rparr>"
  let ?s2 = "?s1\<lparr>sd_closer := Joining, sd_worker := Checking\<rparr>"
  let ?s3 = "?s2\<lparr>sd_worker := Deciding True\<rparr>"
  let ?s4 = "?s3\<lparr>sd_worker := Checking, sd_queue_length := 0, sd_save_requested := False\<rparr>"
  let ?s5 = "?s4\<lparr>sd_worker := Deciding True\<rparr>"
  let ?s6 = "?s5\<lparr>sd_worker := Finished\<rparr>"
  let ?s7 = "?s6\<lparr>sd_closer := Joined\<rparr>"
  have "shutdown_step ?s0 ?s1" by (rule store) (simp add: shutdown_start_def)
  moreover have "shutdown_step ?s1 ?s2" using notify [of ?s1] by (simp add: shutdown_start_def)
  moreover have "shutdown_step ?s2 ?s3" using check [of ?s2] by (simp add: shutdown_start_def)
  moreover have "shutdown_step ?s3 ?s4" using process [of ?s3] by (simp add: shutdown_start_def)
  moreover have "shutdown_step ?s4 ?s5" using check [of ?s4] by (simp add: shutdown_start_def)
  moreover have "shutdown_step ?s5 ?s6" by (rule finish) simp_all
  moreover have "shutdown_step ?s6 ?s7" by (rule join) simp_all
  ultimately have "shutdown_step\<^sup>*\<^sup>* ?s0 ?s7"
    by (meson rtranclp.rtrancl_into_rtrancl rtranclp.rtrancl_refl)
  moreover have "sd_closer ?s7 = Joined" by simp
  ultimately show ?thesis using shutdown_lost_wakeup [of 1 False] by blast
qed

section \<open>A concrete run\<close>

text \<open>Poses without rotation; an estimate that keeps the inserted values; GICP that always converges
  with the initial guess. A cloud of two hundred points gives a descriptor with one ring.\<close>

definition ex_backend_config :: backend_config where
  "ex_backend_config = \<lparr>bc_gps_enabled = True, bc_gps_time_offset = 0, bc_rtk_sync_tolerance = 1 / 10,
     bc_rtk_max_horizontal_std = 1 / 10, bc_rtk_max_vertical_std = 1 / 5, bc_rtk_heading_offset = 0,
     bc_imu_to_antenna = v3_zero, bc_keyframe_distance = 1, bc_keyframe_angle = 1 / 5, bc_keyframe_time = 2,
     bc_odom_rotation_variance = 1 / 10000, bc_odom_translation_variance = 1 / 100,
     bc_max_pending_keyframes = 2, bc_loop_enabled = True, bc_sc_rings = 1, bc_sc_sectors = 2,
     bc_sc_max_radius = 80, bc_sc_sensor_height = 2, bc_sc_exclude_recent = 1,
     bc_sc_distance_threshold = 1 / 5, bc_gicp_voxel_size = 1 / 2, bc_gicp_fitness_threshold = 1 / 2,
     bc_loop_rotation_variance = 1 / 100, bc_loop_translation_variance = 1 / 10,
     bc_correction_smoothing_alpha = 1 / 10\<rparr>"

definition ex_backend_lib :: "unit backend_lib" where
  "ex_backend_lib = \<lparr>bl_g = ex_g, bl_rotate = (\<lambda>_ v. v), bl_inverse = (\<lambda>(_, t). ((), v3_sub v3_zero t)),
     bl_pose_logmap = (\<lambda>_ _. 0), bl_pose_expmap = (\<lambda>_. ((), v3_zero)), bl_pose_matrix = (\<lambda>_. mident),
     bl_estimate = map iu_value, bl_voxel_filter = (\<lambda>_ cl. cl), bl_gicp = (\<lambda>_ _ m. (True, Num 0, m)),
     bl_forward = (\<lambda>_ v. v)\<rparr>"

definition ex_start_backend :: "unit backend" where
  "ex_start_backend = \<lparr>be_config = ex_backend_config, be_updates = [], be_latest_estimate = [],
     be_local_keyposes = [], be_keyframe_clouds = [], be_keyframe_stamps = [], be_keyframe_rtk = [],
     be_scan_context_database = [], be_loop_edges = [], be_rtk_queue = [],
     be_esikf = es_configure ex_g ex_config ex_blank, be_enu_origin = None, be_keyframe_queue = [],
     be_last_enqueued_local_pose = ((), v3_zero), be_last_enqueued_stamp = 0,
     be_have_enqueued_keyframe = False, be_smoothed_map_to_odom = ((), v3_zero),
     be_target_map_to_odom = ((), v3_zero), be_correction_initialized = False\<rparr>"

definition ex_pvt :: GnssPVTSolnMsg where
  "ex_pvt = \<lparr>pvt_week = 2300, pvt_tow = Num 1000, pvt_fix_type = 3, pvt_valid_fix = True,
     pvt_diff_soln = True, pvt_carr_soln = 2, pvt_num_sv = 20, pvt_latitude = Num 30, pvt_longitude = Num 120,
     pvt_altitude = Num 10, pvt_height_msl = Num 10, pvt_h_acc = Num (1 / 50), pvt_v_acc = Num (1 / 20),
     pvt_p_dop = Num 1, pvt_vel_n = Num 0, pvt_vel_e = Num 0, pvt_vel_d = Num 0, pvt_vel_acc = Num (1 / 100),
     pvt_heading_valid = True, pvt_heading = Num 0, pvt_heading_acc = Num (1 / 100)\<rparr>"

definition ex_frame :: "unit BackendKeyframeInput" where
  "ex_frame = \<lparr>ki_stamp = gps_to_unix 2300 1000, ki_local_pose = ((), (1, 0, 0)), ki_cloud = replicate 200 (10, 1, 0)\<rparr>"

definition ex_backend :: "unit backend" where
  "ex_backend = syncedCallback ex_backend_lib 307200 ex_frame (gpsHandler ex_backend_lib ex_pvt ex_start_backend)"

lemma ex_start_reach: "be_reach ex_backend_lib ex_start_backend"
proof (rule be_reach.start)
  show "esikf_reach (bl_g ex_backend_lib) (be_esikf ex_start_backend)"
    by (simp add: ex_start_backend_def ex_backend_lib_def)
      (rule esikf_reach.configured, simp_all add: config_ok_def ex_config_def)
qed (simp_all add: ex_start_backend_def ex_backend_config_def sc_config_ok_def)

lemma ex_reach: "be_reach ex_backend_lib ex_backend"
  unfolding ex_backend_def by (intro be_reach.frame be_reach.gps ex_start_reach)

lemma ex_estimate: "length (bl_estimate ex_backend_lib us) = length us"
  by (simp add: ex_backend_lib_def)

lemma ex_gate: "gps_gate ex_backend_config ex_pvt"
  by (simp add: gps_gate_def ex_backend_config_def ex_pvt_def)

lemma ex_backend_queue: "be_keyframe_queue ex_backend = [ex_frame]"
  by (simp add: ex_backend_def syncedCallback_def gpsHandler_def be_enqueue_def ex_start_backend_def
      ex_gate Let_def case_prod_unfold ex_frame_def ex_backend_config_def)

lemma ex_backend_rtk: "be_rtk_queue ex_backend = [gps_measurement ex_backend_config (30, 120, 10) ex_pvt]"
proof -
  have "be_config ex_start_backend = ex_backend_config" "be_enu_origin ex_start_backend = None"
    "be_rtk_queue ex_start_backend = []" by (simp_all add: ex_start_backend_def)
  then have "be_rtk_queue ex_backend = [gps_measurement ex_backend_config
      (bl_forward ex_backend_lib (dbl_val (pvt_latitude ex_pvt), dbl_val (pvt_longitude ex_pvt), dbl_val (pvt_altitude ex_pvt))
        (dbl_val (pvt_latitude ex_pvt), dbl_val (pvt_longitude ex_pvt), dbl_val (pvt_altitude ex_pvt))) ex_pvt]"
    by (simp add: ex_backend_def syncedCallback_keeps gpsHandler_def be_enqueue_def ex_gate Let_def
        be_origin_def pop_while_longer_eq)
  then show ?thesis by (simp add: ex_backend_lib_def) (simp add: ex_pvt_def)
qed

lemma ex_backend_config_eq: "be_config ex_backend = ex_backend_config"
  by (simp add: ex_backend_def graph_part_config [OF callbacks_keep_graph(1)]
      graph_part_config [OF callbacks_keep_graph(2)])
    (simp add: ex_start_backend_def)

theorem scan_context_yaw_invariant_witness:
  "scanContextDistance ex_backend_config [[1, 2]] [[2, 1]] = 0"
proof -
  have "sc_shape ex_backend_config [[1, 2]]" "sc_shape ex_backend_config [[2, 1]]"
    by (simp_all add: sc_shape_def ex_backend_config_def)
  note main = scan_context_yaw_invariant [OF this]
  have two: "bc_sc_sectors ex_backend_config = 2" by (simp add: ex_backend_config_def)
  have rot: "\<forall>s < 2. column [[2, 1]] ((s + 1) mod 2) = column [[1, 2]] s"
  proof (intro allI impI)
    fix s :: nat assume "s < 2"
    then have "s = 0 \<or> s = 1" by linarith
    then show "column [[2, 1]] ((s + 1) mod 2) = column [[1, 2]] s" by (auto simp: column_def)
  qed
  have "1 / 1000000 \<le> list_dot (column [[1, 2]] 0) (column [[1, 2]] 0)" by (simp add: column_def)
  then have full: "\<exists>s < 2. 1 / 1000000 \<le> list_dot (column [[1, 2]] s) (column [[1, 2]] s)" by (intro exI [of _ 0]) simp
  from main [THEN conjunct2, THEN conjunct2, THEN conjunct2, THEN spec, of 1] rot full show ?thesis unfolding two by simp
qed

definition ex_entry :: ScanContextEntry where
  "ex_entry = \<lparr>sc_descriptor = [[1, 0]], sc_ring_key = [1 / 2]\<rparr>"

lemma ex_entry_distance: "scanContextDistance ex_backend_config [[1, 0]] [[1, 0]] = 0"
  by (simp add: scanContextDistance_def ex_backend_config_def column_def list_norm_def upt_rec numeral_2_eq_2)

theorem loop_candidate_is_best_witness:
  "detectLoopCandidate ex_entry 2 (ex_start_backend\<lparr>be_scan_context_database := [ex_entry, ex_entry]\<rparr>) = Some (0, 0)
   \<and> 0 + bc_sc_exclude_recent ex_backend_config < 2"
proof -
  have d: "detectLoopCandidate ex_entry 2 (ex_start_backend\<lparr>be_scan_context_database := [ex_entry, ex_entry]\<rparr>) = Some (0, 0)"
    using ex_entry_distance
    by (simp add: detectLoopCandidate_def ex_start_backend_def ring_shortlist_def ex_entry_def Let_def
        ex_backend_config_def list_norm_def numeral_2_eq_2)
  from loop_candidate_is_best [OF d] d show ?thesis by (simp add: ex_start_backend_def)
qed

theorem backend_graph_well_formed_witness:
  "\<exists>b'. worker_round ex_backend_lib ex_backend = Ret b' \<and> graph_inv b' \<and> be_keyframe_queue b' = []"
  using backend_graph_well_formed [OF ex_estimate ex_reach] by (auto simp: ex_backend_queue)

theorem correction_anchors_keyframe_witness:
  "\<exists>b'. worker_round ex_backend_lib ex_backend = Ret b'
     \<and> g_compose (bl_g ex_backend_lib) (be_target_map_to_odom b') ((), (1, 0, 0)) = last (be_latest_estimate b')"
proof -
  have add_sub: "v3_add (v3_add x (v3_sub v3_zero p)) p = x" "v3_add x v3_zero = x" for x p
    by (cases x; cases p; simp add: v3_zero_def)+
  have poses: "be_local_keyposes ex_backend = []"
    by (simp add: ex_backend_def syncedCallback_def gpsHandler_def be_enqueue_def ex_start_backend_def
        Let_def case_prod_unfold)
  have inv: "backend_inv ex_backend_lib ex_backend" by (rule be_reach_inv [OF ex_estimate ex_reach])
  from worker_round_inv [OF ex_estimate inv]
  obtain b' where b': "worker_round ex_backend_lib ex_backend = Ret b'" by auto
  have "shouldCreateKeyframe ex_backend_lib (ki_local_pose ex_frame) (ki_stamp ex_frame) ex_backend"
    by (simp add: shouldCreateKeyframe_def poses)
  note main = correction_anchors_keyframe [OF ex_estimate ex_reach ex_backend_queue this b']
  have "g_compose (bl_g ex_backend_lib) (be_target_map_to_odom b') (ki_local_pose ex_frame) = last (be_latest_estimate b')"
    by (rule conjunct1 [OF main])
      (simp_all add: ex_backend_lib_def ex_g_def case_prod_unfold add_sub prod_eq_iff)
  with b' show ?thesis by (simp add: ex_frame_def)
qed

theorem gps_gate_and_queues_witness:
  "be_rtk_inv ex_backend_lib (gpsHandler ex_backend_lib ex_pvt ex_start_backend)
   \<and> gpsHandler ex_backend_lib ex_pvt ex_start_backend \<noteq> ex_start_backend \<and> pvt_carr_soln ex_pvt = 2"
proof -
  have "be_rtk_inv ex_backend_lib ex_start_backend"
    using be_reach_inv [OF ex_estimate ex_start_reach] by (simp add: backend_inv_def)
  from gps_gate_and_queues [OF this, of ex_pvt]
  have "be_rtk_inv ex_backend_lib (gpsHandler ex_backend_lib ex_pvt ex_start_backend)"
    "gpsHandler ex_backend_lib ex_pvt ex_start_backend \<noteq> ex_start_backend \<longrightarrow> pvt_carr_soln ex_pvt = 2"
    by blast+
  moreover have "be_enu_origin (gpsHandler ex_backend_lib ex_pvt ex_start_backend) \<noteq> be_enu_origin ex_start_backend"
    using ex_gate by (simp add: gpsHandler_def Let_def be_enqueue_def ex_start_backend_def)
  ultimately show ?thesis by auto
qed

theorem findNearestRtk_nearest_witness:
  "\<exists>m b'. findNearestRtk (gps_to_unix 2300 1000) ex_backend = (Some m, b')
     \<and> be_rtk_queue b' = [] \<and> \<bar>ob_time m - gps_to_unix 2300 1000\<bar> \<le> 1 / 10"
proof -
  have inv: "be_rtk_inv ex_backend_lib ex_backend"
    using be_reach_inv [OF ex_estimate ex_reach] by (simp add: backend_inv_def)
  obtain r b' where f: "findNearestRtk (gps_to_unix 2300 1000) ex_backend = (r, b')" by (metis prod.exhaust)
  let ?m = "gps_measurement ex_backend_config (30, 120, 10) ex_pvt"
  have time: "ob_time ?m = gps_to_unix 2300 1000"
    by (simp add: gps_measurement_def Let_def ob_time_def ex_pvt_def ex_backend_config_def)
  then have q: "dropWhile (\<lambda>x. ob_time x < gps_to_unix 2300 1000 - 5) (be_rtk_queue ex_backend) = [?m]"
    by (simp add: ex_backend_rtk)
  have tol: "bc_rtk_sync_tolerance (be_config ex_backend) = 1 / 10"
    by (simp add: ex_backend_config_eq ex_backend_config_def)
  from findNearestRtk_nearest [OF inv f] show ?thesis
    unfolding q tol using f time
    by (cases r) (auto simp: Cons_eq_append_conv)
qed

theorem keyframe_queue_bounded_witness:
  "length (be_keyframe_queue (syncedCallback ex_backend_lib 307200 ex_frame ex_start_backend)) \<le> 2"
  using keyframe_queue_bounded [of ex_start_backend ex_backend_lib 307200 ex_frame]
  by (simp add: ex_start_backend_def ex_backend_config_def)

end
