(* ===== verification/Livo_Sync.thy ===== *)
theory Livo_Sync
  imports Geometry
begin

text \<open>
  The measurement front end of the mapper, \<^verbatim>\<open>fast_livo/src/LIVMapper.cpp\<close>: the sensor callbacks that
  fill the buffers and \<open>sync_packages\<close>, which cuts them into the measurement groups that the LIO and
  VIO updates consume, in the three modes \<open>ONLY_LIO\<close>, \<open>LIVO\<close> and \<open>ONLY_LO\<close>; the data types are those of
  \<^verbatim>\<open>fast_livo/include/common_lib.h\<close>. Times are seconds. The callbacks run under the buffer mutex on the
  thread of \<open>run\<close>, so each is one atomic step. An image is opaque (\<open>'img\<close>). The point cloud that the
  LiDAR callbacks append is the one \<open>p_pre->process\<close> returned, their argument here.
\<close>

section \<open>Data\<close>

datatype SLAM_MODE = ONLY_LO | ONLY_LIO | LIVO
datatype EKF_STATE = WAIT | VIO | LIO | LO

record LPoint =
  lp_xyz :: vec3
  lp_intensity :: real
  curvature :: real

record ImuMsg =
  im_stamp :: real
  im_acc :: vec3
  im_gyr :: vec3

record RTK =
  rtk_timestamp :: real
  rtk_p :: vec3
  rtk_v :: vec3
  rtk_position_cov :: mat3
  rtk_valid :: bool

definition new_RTK :: RTK where
  "new_RTK = \<lparr>rtk_timestamp = 0, rtk_p = v3_zero, rtk_v = v3_zero, rtk_position_cov = m3_one,
              rtk_valid = False\<rparr>"

record 'img MeasureGroup =
  m_vio_time :: real
  m_lio_time :: real
  m_rtk :: RTK
  m_imu :: "ImuMsg list"
  m_img :: "'img option"

definition new_MeasureGroup :: "'img MeasureGroup" where
  "new_MeasureGroup = \<lparr>m_vio_time = 0, m_lio_time = 0, m_rtk = new_RTK, m_imu = [], m_img = None\<rparr>"

record 'img LidarMeasureGroup =
  lidar_frame_beg_time :: real
  lidar_frame_end_time :: real
  last_lio_update_time :: real
  lidar :: "LPoint list"
  pcl_proc_cur :: "LPoint list"
  pcl_proc_next :: "LPoint list"
  measures :: "'img MeasureGroup list"
  lio_vio_flg :: EKF_STATE

definition new_LidarMeasureGroup :: "'img LidarMeasureGroup" where
  "new_LidarMeasureGroup =
     \<lparr>lidar_frame_beg_time = 0, lidar_frame_end_time = 0, last_lio_update_time = - 1, lidar = [],
      pcl_proc_cur = [], pcl_proc_next = [], measures = [], lio_vio_flg = WAIT\<rparr>"

text \<open>The part of \<open>LIVMapper\<close> the callbacks and \<open>sync_packages\<close> touch, configuration first.\<close>

record 'img LIVMapper =
  slam_mode :: SLAM_MODE
  lidar_en :: bool
  imu_en :: bool
  img_en :: bool
  rtk_en :: bool
  hilti_en :: bool
  ros_driver_fix_en :: bool
  imu_prop_enable :: bool
  lidar_time_offset :: real
  imu_time_offset :: real
  img_time_offset :: real
  exposure_time_init :: real
  lid_raw_data_buffer :: "LPoint list list"
  lid_header_time_buffer :: "real list"
  imu_buffer :: "ImuMsg list"
  img_buffer :: "'img list"
  img_time_buffer :: "real list"
  rtk_buffer :: "RTK list"
  prop_imu_buffer :: "ImuMsg list"
  newest_imu :: "ImuMsg option"
  new_imu :: bool
  last_timestamp_lidar :: real
  last_timestamp_imu :: real
  last_timestamp_img :: real
  keyframe_time :: real
  lidar_pushed :: bool
  rtk_ini :: bool
  frame_counter :: nat

section \<open>Callbacks\<close>

definition standard_pcl_cbk :: "real \<Rightarrow> LPoint list \<Rightarrow> 'img LIVMapper \<Rightarrow> 'img LIVMapper" where
  "standard_pcl_cbk stamp ptr s =
     (if \<not> lidar_en s then s
      else let cur_head_time = stamp + lidar_time_offset s;
               s = (if cur_head_time < last_timestamp_lidar s
                    then s\<lparr>lid_raw_data_buffer := []\<rparr> else s)
           in s\<lparr>lid_raw_data_buffer := lid_raw_data_buffer s @ [ptr],
                lid_header_time_buffer := lid_header_time_buffer s @ [cur_head_time],
                last_timestamp_lidar := cur_head_time\<rparr>)"

definition livox_pcl_cbk :: "real \<Rightarrow> LPoint list \<Rightarrow> 'img LIVMapper \<Rightarrow> 'img LIVMapper" where
  "livox_pcl_cbk stamp ptr s =
     (if \<not> lidar_en s then s
      else let cur_head_time = stamp;
               s = (if cur_head_time < last_timestamp_lidar s
                    then s\<lparr>lid_raw_data_buffer := []\<rparr> else s)
           in if ptr = [] then s
              else s\<lparr>lid_raw_data_buffer := lid_raw_data_buffer s @ [ptr],
                     lid_header_time_buffer := lid_header_time_buffer s @ [cur_head_time],
                     last_timestamp_lidar := cur_head_time\<rparr>)"

text \<open>\<open>std::round\<close>: to the nearest integer, halves away from zero.\<close>

definition round_away :: "real \<Rightarrow> real" where
  "round_away x = (if 0 \<le> x then of_int \<lfloor>x + 1 / 2\<rfloor> else - of_int \<lfloor>- x + 1 / 2\<rfloor>)"

text \<open>The argument \<open>need_init\<close> is \<open>p_imu->imu_need_init\<close>.\<close>

definition imu_cbk :: "bool \<Rightarrow> ImuMsg \<Rightarrow> 'img LIVMapper \<Rightarrow> 'img LIVMapper" where
  "imu_cbk need_init msg_in s =
     (if \<not> imu_en s then s
      else if last_timestamp_lidar s < 0 then s
      else let timestamp = im_stamp msg_in - imu_time_offset s;
               timestamp = (if ros_driver_fix_en s
                            then timestamp + round_away (last_timestamp_lidar s - timestamp)
                            else timestamp);
               msg = msg_in\<lparr>im_stamp := timestamp\<rparr>
           in if last_timestamp_imu s > 0 \<and> timestamp < last_timestamp_imu s then s
              else let s = s\<lparr>last_timestamp_imu := timestamp, imu_buffer := imu_buffer s @ [msg]\<rparr>
                   in if imu_prop_enable s
                      then s\<lparr>prop_imu_buffer := (if \<not> need_init then prop_imu_buffer s @ [msg]
                                                 else prop_imu_buffer s),
                             newest_imu := Some msg, new_imu := True\<rparr>
                      else s)"

definition img_cbk :: "real \<Rightarrow> 'img \<Rightarrow> 'img LIVMapper \<Rightarrow> 'img LIVMapper" where
  "img_cbk stamp img_cur s =
     (if \<not> img_en s then s
      else let s = (if hilti_en s then s\<lparr>frame_counter := frame_counter s + 1\<rparr> else s)
           in if hilti_en s \<and> frame_counter s mod 4 \<noteq> 0 then s
      else let msg_header_time = stamp + img_time_offset s
           in if \<bar>msg_header_time - last_timestamp_img s\<bar> < 1 / 1000 then s
      else if last_timestamp_lidar s < 0 then s
      else if msg_header_time < last_timestamp_img s then s
      else if msg_header_time - last_timestamp_img s < 2 / 100 then s
      else s\<lparr>img_buffer := img_buffer s @ [img_cur],
             img_time_buffer := img_time_buffer s @ [msg_header_time],
             last_timestamp_img := msg_header_time\<rparr>)"

section \<open>Synchronisation\<close>

text \<open>\<open>front()\<close> and \<open>back()\<close> of an empty container are undefined.\<close>

definition front_of :: "'a list \<Rightarrow> 'a exec" where
  "front_of xs = (case xs of [] \<Rightarrow> Undef | x # _ \<Rightarrow> Ret x)"

definition back_of :: "'a list \<Rightarrow> 'a exec" where
  "back_of xs = (if xs = [] then Undef else Ret (last xs))"

definition pop_front :: "'a list \<Rightarrow> 'a list exec" where
  "pop_front xs = (case xs of [] \<Rightarrow> Undef | _ # ys \<Rightarrow> Ret ys)"

text \<open>The loop of \<open>ONLY_LIO\<close> that moves the IMU samples up to the end of the scan. The arguments are
  the buffer and the samples moved so far.\<close>

fun move_imu :: "real \<Rightarrow> ImuMsg list \<Rightarrow> ImuMsg list \<Rightarrow> ImuMsg list \<times> ImuMsg list" where
  "move_imu end_time [] imu = ([], imu)"
| "move_imu end_time (x # buf) imu =
     (if im_stamp x > end_time then (x # buf, imu) else move_imu end_time buf (imu @ [x]))"

definition sync_only_lio ::
  "'img LIVMapper \<Rightarrow> 'img LidarMeasureGroup \<Rightarrow> (bool \<times> 'img LIVMapper \<times> 'img LidarMeasureGroup) exec"
where
  "sync_only_lio s meas =
     bind_exec (if last_lio_update_time meas < 0
                then bind_exec (front_of (lid_header_time_buffer s))
                       (\<lambda>t. Ret (meas\<lparr>last_lio_update_time := t\<rparr>))
                else Ret meas) (\<lambda>meas.
     bind_exec (if lidar_pushed s then Ret (True, s, meas)
                else bind_exec (front_of (lid_raw_data_buffer s)) (\<lambda>pcl.
                     let meas = meas\<lparr>lidar := pcl\<rparr>
                     in if length pcl \<le> 1 then Ret (False, s, meas)
                        else bind_exec (front_of (lid_header_time_buffer s)) (\<lambda>beg.
                             Ret (True, s\<lparr>lidar_pushed := True\<rparr>,
                                  meas\<lparr>lidar_frame_beg_time := beg,
                                       lidar_frame_end_time := beg + curvature (last pcl) / 1000,
                                       pcl_proc_cur := pcl\<rparr>)))) (\<lambda>(go, s, meas).
     if \<not> go then Ret (False, s, meas)
     else if imu_en s \<and> last_timestamp_imu s < lidar_frame_end_time meas then Ret (False, s, meas)
     else case move_imu (lidar_frame_end_time meas) (imu_buffer s) [] of (imus, moved) \<Rightarrow>
          bind_exec (pop_front (lid_raw_data_buffer s)) (\<lambda>raw.
          bind_exec (pop_front (lid_header_time_buffer s)) (\<lambda>hdr.
          let m = new_MeasureGroup\<lparr>m_lio_time := lidar_frame_end_time meas, m_imu := moved\<rparr>
          in Ret (True,
                  s\<lparr>imu_buffer := imus, lid_raw_data_buffer := raw, lid_header_time_buffer := hdr,
                    lidar_pushed := False,
                    keyframe_time := (if \<not> img_en s then lidar_frame_end_time meas
                                      else keyframe_time s)\<rparr>,
                  meas\<lparr>lio_vio_flg := LIO, measures := measures meas @ [m]\<rparr>)))))"

text \<open>The RTK loop: the whole interval is consumed, and its newest valid sample kept.\<close>

fun take_rtk :: "real \<Rightarrow> real \<Rightarrow> RTK list \<Rightarrow> RTK \<Rightarrow> RTK list \<times> RTK" where
  "take_rtk last_update lio_time [] r = ([], r)"
| "take_rtk last_update lio_time (x # buf) r =
     (if rtk_timestamp x > lio_time then (x # buf, r)
      else take_rtk last_update lio_time buf
             (if rtk_timestamp x > last_update \<and> rtk_valid x then x else r))"

fun take_imu :: "real \<Rightarrow> real \<Rightarrow> ImuMsg list \<Rightarrow> ImuMsg list \<Rightarrow> ImuMsg list \<times> ImuMsg list" where
  "take_imu last_update lio_time [] imu = ([], imu)"
| "take_imu last_update lio_time (x # buf) imu =
     (if im_stamp x > lio_time then (x # buf, imu)
      else take_imu last_update lio_time buf
             (if im_stamp x > last_update then imu @ [x] else imu))"

text \<open>The loop over the points of one scan: what is captured before the image goes to the current
  cloud, the rest to the next one, with the point's offset taken from the new time base.\<close>

fun cut_points ::
  "real \<Rightarrow> real \<Rightarrow> real \<Rightarrow> LPoint list \<Rightarrow> LPoint list \<times> LPoint list \<Rightarrow> LPoint list \<times> LPoint list"
where
  "cut_points header last_update lio_time [] (cur, nxt) = (cur, nxt)"
| "cut_points header last_update lio_time (pt # pcl) (cur, nxt) =
     (let max_offs_time_ms = (lio_time - header) * 1000
      in if curvature pt < max_offs_time_ms
         then cut_points header last_update lio_time pcl
                (cur @ [pt\<lparr>curvature := curvature pt + (header - last_update) * 1000\<rparr>], nxt)
         else cut_points header last_update lio_time pcl
                (cur, nxt @ [pt\<lparr>curvature := curvature pt + (header - lio_time) * 1000\<rparr>]))"

text \<open>The loop over the buffered scans that start before the image.\<close>

fun cut_scans ::
  "real \<Rightarrow> real \<Rightarrow> LPoint list list \<Rightarrow> real list \<Rightarrow> LPoint list \<times> LPoint list
     \<Rightarrow> (LPoint list list \<times> real list \<times> LPoint list \<times> LPoint list) exec"
where
  "cut_scans last_update lio_time [] hdr (cur, nxt) = Ret ([], hdr, cur, nxt)"
| "cut_scans last_update lio_time (pcl # raw) [] (cur, nxt) = Undef"
| "cut_scans last_update lio_time (pcl # raw) (h # hdr) (cur, nxt) =
     (if h > lio_time then Ret (pcl # raw, h # hdr, cur, nxt)
      else cut_scans last_update lio_time raw hdr (cut_points h last_update lio_time pcl (cur, nxt)))"

definition sync_livo_lio ::
  "'img LIVMapper \<Rightarrow> 'img LidarMeasureGroup \<Rightarrow> (bool \<times> 'img LIVMapper \<times> 'img LidarMeasureGroup) exec"
where
  "sync_livo_lio s meas =
     bind_exec (front_of (img_time_buffer s)) (\<lambda>img_time.
     let img_capture_time = img_time + exposure_time_init s;
         s = (if img_en s then s\<lparr>keyframe_time := img_capture_time\<rparr> else s)
     in
     bind_exec (if last_lio_update_time meas < 0
                then bind_exec (front_of (lid_header_time_buffer s))
                       (\<lambda>t. Ret (meas\<lparr>last_lio_update_time := t\<rparr>))
                else Ret meas) (\<lambda>meas.
     bind_exec (back_of (lid_header_time_buffer s)) (\<lambda>newest_header.
     bind_exec (back_of (lid_raw_data_buffer s)) (\<lambda>newest_scan.
     bind_exec (back_of newest_scan) (\<lambda>newest_point.
     bind_exec (back_of (imu_buffer s)) (\<lambda>newest_imu.
     let lid_newest_time = newest_header + curvature newest_point / 1000;
         imu_newest_time = im_stamp newest_imu
     in
     if img_capture_time < last_lio_update_time meas + 1 / 100000
     then bind_exec (pop_front (img_buffer s)) (\<lambda>imgs.
          bind_exec (pop_front (img_time_buffer s)) (\<lambda>img_times.
          Ret (False, s\<lparr>img_buffer := imgs, img_time_buffer := img_times\<rparr>, meas)))
     else if img_capture_time > lid_newest_time \<or> img_capture_time > imu_newest_time
     then Ret (False, s, meas)
     else
       let lio_time = img_capture_time;
           (rtks, rtk) = (if rtk_en s \<and> rtk_ini s
                          then take_rtk (last_lio_update_time meas) lio_time (rtk_buffer s) new_RTK
                          else (rtk_buffer s, new_RTK));
           (imus, imu) = take_imu (last_lio_update_time meas) lio_time (imu_buffer s) []
       in
       bind_exec (cut_scans (last_lio_update_time meas) lio_time (lid_raw_data_buffer s)
                    (lid_header_time_buffer s) (pcl_proc_next meas, [])) (\<lambda>(raw, hdr, cur, nxt).
       Ret (True,
            s\<lparr>rtk_buffer := rtks, imu_buffer := imus, lid_raw_data_buffer := raw,
              lid_header_time_buffer := hdr\<rparr>,
            meas\<lparr>pcl_proc_cur := cur, pcl_proc_next := nxt, lio_vio_flg := LIO,
                 measures := measures meas @
                   [new_MeasureGroup\<lparr>m_lio_time := lio_time, m_rtk := rtk, m_imu := imu\<rparr>]\<rparr>))))))))"

definition sync_livo_vio ::
  "'img LIVMapper \<Rightarrow> 'img LidarMeasureGroup \<Rightarrow> (bool \<times> 'img LIVMapper \<times> 'img LidarMeasureGroup) exec"
where
  "sync_livo_vio s meas =
     bind_exec (front_of (img_time_buffer s)) (\<lambda>img_time.
     bind_exec (front_of (imu_buffer s)) (\<lambda>_.
     bind_exec (front_of (img_buffer s)) (\<lambda>img.
     bind_exec (pop_front (img_buffer s)) (\<lambda>imgs.
     bind_exec (pop_front (img_time_buffer s)) (\<lambda>img_times.
     Ret (True,
          s\<lparr>img_buffer := imgs, img_time_buffer := img_times, lidar_pushed := False\<rparr>,
          meas\<lparr>lio_vio_flg := VIO,
               measures := [new_MeasureGroup\<lparr>m_vio_time := img_time + exposure_time_init s,
                              m_lio_time := last_lio_update_time meas,
                              m_img := Some img\<rparr>]\<rparr>))))))"

definition sync_only_lo ::
  "'img LIVMapper \<Rightarrow> 'img LidarMeasureGroup \<Rightarrow> (bool \<times> 'img LIVMapper \<times> 'img LidarMeasureGroup) exec"
where
  "sync_only_lo s meas =
     (if \<not> lidar_pushed s \<and> lid_raw_data_buffer s = [] then Ret (False, s, meas)
      else
      bind_exec (if lidar_pushed s then Ret meas
                 else bind_exec (front_of (lid_raw_data_buffer s)) (\<lambda>pcl.
                      bind_exec (front_of (lid_header_time_buffer s)) (\<lambda>beg.
                      bind_exec (back_of pcl) (\<lambda>pt.
                      Ret (meas\<lparr>lidar := pcl, lidar_frame_beg_time := beg,
                                lidar_frame_end_time := beg + curvature pt / 1000\<rparr>))))) (\<lambda>meas.
      bind_exec (pop_front (lid_raw_data_buffer s)) (\<lambda>raw.
      bind_exec (pop_front (lid_header_time_buffer s)) (\<lambda>hdr.
      Ret (True,
           s\<lparr>lid_raw_data_buffer := raw, lid_header_time_buffer := hdr, lidar_pushed := False\<rparr>,
           meas\<lparr>lio_vio_flg := LO,
                measures := measures meas @
                  [new_MeasureGroup\<lparr>m_lio_time := lidar_frame_end_time meas\<rparr>]\<rparr>)))))"

definition sync_packages ::
  "'img LIVMapper \<Rightarrow> 'img LidarMeasureGroup \<Rightarrow> (bool \<times> 'img LIVMapper \<times> 'img LidarMeasureGroup) exec"
where
  "sync_packages s meas =
     (if lid_raw_data_buffer s = [] \<and> lidar_en s then Ret (False, s, meas)
      else if img_buffer s = [] \<and> img_en s then Ret (False, s, meas)
      else if imu_buffer s = [] \<and> imu_en s then Ret (False, s, meas)
      else case slam_mode s of
             ONLY_LIO \<Rightarrow> sync_only_lio s meas
           | LIVO \<Rightarrow> (case lio_vio_flg meas of
                        WAIT \<Rightarrow> sync_livo_lio s meas
                      | VIO \<Rightarrow> sync_livo_lio s meas
                      | LIO \<Rightarrow> sync_livo_vio s meas
                      | LO \<Rightarrow> Ret (False, s, meas))
           | ONLY_LO \<Rightarrow> sync_only_lo s meas)"

text \<open>What the estimators do to the group: \<open>ImuProcess::UndistortPcl\<close> takes the group's end time as
  the time of the last update.\<close>

definition prop_end_time :: "'img LidarMeasureGroup \<Rightarrow> real exec" where
  "prop_end_time meas =
     bind_exec (back_of (measures meas)) (\<lambda>m.
     Ret (if lio_vio_flg meas = LIO then m_lio_time m else m_vio_time m))"

definition mark_updated :: "'img LidarMeasureGroup \<Rightarrow> 'img LidarMeasureGroup exec" where
  "mark_updated meas =
     bind_exec (prop_end_time meas) (\<lambda>t.
     Ret (if lio_vio_flg meas = LIO \<or> lio_vio_flg meas = VIO
          then meas\<lparr>last_lio_update_time := t\<rparr> else meas))"

section \<open>What the loops compute\<close>

lemma move_imu_eq:
  "move_imu t buf acc = (dropWhile (\<lambda>x. im_stamp x \<le> t) buf, acc @ takeWhile (\<lambda>x. im_stamp x \<le> t) buf)"
  by (induction t buf acc rule: move_imu.induct) (auto simp: not_less)

lemma take_imu_eq:
  "take_imu l t buf acc =
     (dropWhile (\<lambda>x. im_stamp x \<le> t) buf,
      acc @ filter (\<lambda>x. im_stamp x > l) (takeWhile (\<lambda>x. im_stamp x \<le> t) buf))"
  by (induction l t buf acc rule: take_imu.induct) (auto simp: not_less)

text \<open>The newest valid sample of the interval, the default \<open>r\<close> when there is none.\<close>

lemma take_rtk_eq:
  "take_rtk l t buf r =
     (dropWhile (\<lambda>x. rtk_timestamp x \<le> t) buf,
      last (r # filter (\<lambda>x. rtk_timestamp x > l \<and> rtk_valid x)
                  (takeWhile (\<lambda>x. rtk_timestamp x \<le> t) buf)))"
  by (induction l t buf r rule: take_rtk.induct) (auto simp: not_less)

text \<open>The samples a cloud stands for when its offsets count from \<open>base\<close>: absolute time, position and
  intensity.\<close>

definition samples_of :: "real \<Rightarrow> LPoint list \<Rightarrow> (real \<times> vec3 \<times> real) list" where
  "samples_of base = map (\<lambda>p. (base + curvature p / 1000, lp_xyz p, lp_intensity p))"

lemma samples_of_simps [simp]:
  "samples_of base [] = []"
  "samples_of base (p # ps) = (base + curvature p / 1000, lp_xyz p, lp_intensity p) # samples_of base ps"
  "samples_of base (ps @ qs) = samples_of base ps @ samples_of base qs"
  by (simp_all add: samples_of_def)

lemma cut_points_samples:
  assumes "cut_points h l t pcl (cur, nxt) = (cur', nxt')"
  shows "samples_of l cur' = samples_of l cur @ filter (\<lambda>x. fst x < t) (samples_of h pcl)"
    and "samples_of t nxt' = samples_of t nxt @ filter (\<lambda>x. \<not> fst x < t) (samples_of h pcl)"
proof -
  have "samples_of l cur' = samples_of l cur @ filter (\<lambda>x. fst x < t) (samples_of h pcl)
      \<and> samples_of t nxt' = samples_of t nxt @ filter (\<lambda>x. \<not> fst x < t) (samples_of h pcl)"
    using assms
  proof (induction pcl arbitrary: cur nxt)
    case Nil
    then show ?case by simp
  next
    case (Cons pt pcl)
    have "curvature pt < (t - h) * 1000 \<longleftrightarrow> h + curvature pt / 1000 < t" by (simp add: field_simps)
    moreover have "b + (curvature pt + (h - b) * 1000) / 1000 = h + curvature pt / 1000" for b
      by (simp add: field_simps)
    ultimately show ?case
      using Cons.IH Cons.prems by (auto simp: Let_def split: if_splits)
  qed
  then show "samples_of l cur' = samples_of l cur @ filter (\<lambda>x. fst x < t) (samples_of h pcl)"
    and "samples_of t nxt' = samples_of t nxt @ filter (\<lambda>x. \<not> fst x < t) (samples_of h pcl)"
    by blast+
qed

text \<open>The number of scans the loop consumes.\<close>

definition scans_cut :: "real \<Rightarrow> LPoint list list \<Rightarrow> real list \<Rightarrow> nat" where
  "scans_cut t raw hdr = length (takeWhile (\<lambda>h. h \<le> t) (take (length raw) hdr))"

definition buffered_samples :: "nat \<Rightarrow> real list \<Rightarrow> LPoint list list \<Rightarrow> (real \<times> vec3 \<times> real) list" where
  "buffered_samples k hdr raw = concat (map2 samples_of (take k hdr) (take k raw))"

lemma cut_scans_result:
  assumes "length raw \<le> length hdr"
  obtains cur' nxt' where
    "cut_scans l t raw hdr (cur, nxt) =
       Ret (drop (scans_cut t raw hdr) raw, drop (scans_cut t raw hdr) hdr, cur', nxt')"
    "samples_of l cur' = samples_of l cur @
       filter (\<lambda>x. fst x < t) (buffered_samples (scans_cut t raw hdr) hdr raw)"
    "samples_of t nxt' = samples_of t nxt @
       filter (\<lambda>x. \<not> fst x < t) (buffered_samples (scans_cut t raw hdr) hdr raw)"
  using assms
proof (induction raw arbitrary: hdr cur nxt thesis)
  case Nil
  show ?case by (rule Nil.prems(1) [of cur nxt]) (simp_all add: scans_cut_def buffered_samples_def)
next
  case (Cons pcl raw)
  then obtain h hdr' where hdr: "hdr = h # hdr'" by (metis Suc_le_length_iff length_Cons)
  show ?case
  proof (cases "h \<le> t")
    case False
    show ?thesis
      by (rule Cons.prems(1) [of cur nxt]) (use False in \<open>simp_all add: hdr scans_cut_def buffered_samples_def\<close>)
  next
    case True
    obtain c n where cn: "cut_points h l t pcl (cur, nxt) = (c, n)" by (metis prod.exhaust)
    have len: "length raw \<le> length hdr'" using Cons.prems(2) by (simp add: hdr)
    have k: "scans_cut t (pcl # raw) hdr = Suc (scans_cut t raw hdr')"
      using True by (simp add: scans_cut_def hdr)
    obtain c' n' where r: "cut_scans l t raw hdr' (c, n) =
        Ret (drop (scans_cut t raw hdr') raw, drop (scans_cut t raw hdr') hdr', c', n')"
      "samples_of l c' = samples_of l c @
         filter (\<lambda>x. fst x < t) (buffered_samples (scans_cut t raw hdr') hdr' raw)"
      "samples_of t n' = samples_of t n @
         filter (\<lambda>x. \<not> fst x < t) (buffered_samples (scans_cut t raw hdr') hdr' raw)"
      using Cons.IH [OF _ len] by blast
    have b: "buffered_samples (Suc j) hdr (pcl # raw) = samples_of h pcl @ buffered_samples j hdr' raw"
      for j by (simp add: buffered_samples_def hdr)
    show ?thesis
      by (rule Cons.prems(1) [of c' n'])
        (use True cn r cut_points_samples [OF cn] in \<open>simp_all add: k b\<close>, simp_all add: hdr)
  qed
qed

lemma front_of_Ret: "front_of xs = Ret x \<longleftrightarrow> (\<exists>ys. xs = x # ys)"
  by (auto simp: front_of_def split: list.splits)

lemma pop_front_Ret: "pop_front xs = Ret ys \<longleftrightarrow> (\<exists>x. xs = x # ys)"
  by (auto simp: pop_front_def split: list.splits)

lemma back_of_Ret: "back_of xs = Ret x \<longleftrightarrow> xs \<noteq> [] \<and> x = last xs"
  by (auto simp: back_of_def)

lemmas deque_Ret = front_of_Ret pop_front_Ret back_of_Ret

definition update_base :: "'img LIVMapper \<Rightarrow> 'img LidarMeasureGroup \<Rightarrow> real" where
  "update_base s meas =
     (if last_lio_update_time meas < 0 then hd (lid_header_time_buffer s)
      else last_lio_update_time meas)"

lemma update_base_keyframe [simp]: "update_base (s\<lparr>keyframe_time := t\<rparr>) meas = update_base s meas"
  by (simp add: update_base_def)

lemma update_base_bind:
  "bind_exec (if last_lio_update_time meas < 0
              then bind_exec (front_of (lid_header_time_buffer s))
                     (\<lambda>t. Ret (meas\<lparr>last_lio_update_time := t\<rparr>))
              else Ret meas) f =
   (if last_lio_update_time meas < 0 \<and> lid_header_time_buffer s = [] then Undef
    else f (meas\<lparr>last_lio_update_time := update_base s meas\<rparr>))"
  by (cases "lid_header_time_buffer s") (auto simp: update_base_def front_of_def)

text \<open>The LIO cut in straight-line form, once every container it reads is non-empty.\<close>

definition livo_marked :: "'img LIVMapper \<Rightarrow> 'img LIVMapper" where
  "livo_marked s =
     (if img_en s then s\<lparr>keyframe_time := hd (img_time_buffer s) + exposure_time_init s\<rparr> else s)"

definition lid_newest :: "'img LIVMapper \<Rightarrow> real" where
  "lid_newest s =
     last (lid_header_time_buffer s) + curvature (last (last (lid_raw_data_buffer s))) / 1000"

definition livo_ready :: "'img LIVMapper \<Rightarrow> bool" where
  "livo_ready s =
     (img_time_buffer s \<noteq> [] \<and> lid_header_time_buffer s \<noteq> [] \<and> lid_raw_data_buffer s \<noteq> []
      \<and> last (lid_raw_data_buffer s) \<noteq> [] \<and> imu_buffer s \<noteq> [])"

lemma livo_marked_simps [simp]:
  "img_buffer (livo_marked s) = img_buffer s" "img_time_buffer (livo_marked s) = img_time_buffer s"
  "imu_buffer (livo_marked s) = imu_buffer s" "rtk_buffer (livo_marked s) = rtk_buffer s"
  "lid_header_time_buffer (livo_marked s) = lid_header_time_buffer s"
  "lid_raw_data_buffer (livo_marked s) = lid_raw_data_buffer s"
  "rtk_en (livo_marked s) = rtk_en s" "rtk_ini (livo_marked s) = rtk_ini s"
  "exposure_time_init (livo_marked s) = exposure_time_init s" "slam_mode (livo_marked s) = slam_mode s"
  "last_timestamp_img (livo_marked s) = last_timestamp_img s"
  "last_timestamp_imu (livo_marked s) = last_timestamp_imu s"
  "update_base (livo_marked s) meas = update_base s meas"
  by (simp_all add: livo_marked_def)

lemma sync_livo_lio_eq:
  "sync_livo_lio s meas =
     (if \<not> livo_ready s then Undef
      else let t = hd (img_time_buffer s) + exposure_time_init s;
               base = update_base s meas;
               r = (if rtk_en s \<and> rtk_ini s then take_rtk base t (rtk_buffer s) new_RTK
                    else (rtk_buffer s, new_RTK));
               i = take_imu base t (imu_buffer s) []
           in if t < base + 1 / 100000
              then bind_exec (pop_front (img_buffer s)) (\<lambda>imgs.
                   Ret (False, livo_marked s\<lparr>img_buffer := imgs,
                                  img_time_buffer := tl (img_time_buffer s)\<rparr>,
                        meas\<lparr>last_lio_update_time := base\<rparr>))
              else if t > lid_newest s \<or> t > im_stamp (last (imu_buffer s))
              then Ret (False, livo_marked s, meas\<lparr>last_lio_update_time := base\<rparr>)
              else bind_exec (cut_scans base t (lid_raw_data_buffer s) (lid_header_time_buffer s)
                                (pcl_proc_next meas, [])) (\<lambda>c.
                   Ret (True,
                     livo_marked s\<lparr>rtk_buffer := fst r, imu_buffer := fst i,
                       lid_raw_data_buffer := fst c, lid_header_time_buffer := fst (snd c)\<rparr>,
                     meas\<lparr>last_lio_update_time := base, pcl_proc_cur := fst (snd (snd c)),
                          pcl_proc_next := snd (snd (snd c)), lio_vio_flg := LIO,
                          measures := measures meas @
                            [new_MeasureGroup\<lparr>m_lio_time := t, m_rtk := snd r, m_imu := snd i\<rparr>]\<rparr>)))"
proof (cases "img_time_buffer s")
  case Nil
  then show ?thesis by (simp add: sync_livo_lio_def front_of_def livo_ready_def)
next
  case (Cons it its)
  show ?thesis
    unfolding sync_livo_lio_def Let_def update_base_bind
    by (cases "img_en s")
      (simp_all add: back_of_def livo_ready_def lid_newest_def Cons case_prod_unfold front_of_def
        livo_marked_def pop_front_def update_base_def)
qed

text \<open>A successful LIO cut of \<open>LIVO\<close> mode, unfolded once.\<close>

lemma sync_livo_lio_True:
  assumes "sync_livo_lio s meas = Ret (True, s', meas')"
  obtains t where
    "img_time_buffer s \<noteq> []" "t = hd (img_time_buffer s) + exposure_time_init s"
    "update_base s meas + 1 / 100000 \<le> t"
    "t \<le> last (lid_header_time_buffer s) + curvature (last (last (lid_raw_data_buffer s))) / 1000"
    "t \<le> im_stamp (last (imu_buffer s))"
    "cut_scans (update_base s meas) t (lid_raw_data_buffer s) (lid_header_time_buffer s)
       (pcl_proc_next meas, []) =
       Ret (lid_raw_data_buffer s', lid_header_time_buffer s', pcl_proc_cur meas', pcl_proc_next meas')"
    "measures meas' = measures meas @ [new_MeasureGroup\<lparr>m_lio_time := t,
       m_rtk := (if rtk_en s \<and> rtk_ini s
                 then snd (take_rtk (update_base s meas) t (rtk_buffer s) new_RTK) else new_RTK),
       m_imu := snd (take_imu (update_base s meas) t (imu_buffer s) [])\<rparr>]"
    "lio_vio_flg meas' = LIO" "last_lio_update_time meas' = update_base s meas"
    "imu_buffer s' = fst (take_imu (update_base s meas) t (imu_buffer s) [])"
    "img_buffer s' = img_buffer s" "img_time_buffer s' = img_time_buffer s"
    "rtk_buffer s' = (if rtk_en s \<and> rtk_ini s
                      then fst (take_rtk (update_base s meas) t (rtk_buffer s) new_RTK)
                      else rtk_buffer s)"
    "exposure_time_init s' = exposure_time_init s" "slam_mode s' = slam_mode s"
    "last_timestamp_img s' = last_timestamp_img s" "last_timestamp_imu s' = last_timestamp_imu s"
proof -
  from assms show thesis
    by (cases "livo_ready s")
      (auto simp: sync_livo_lio_eq Let_def bind_exec_Ret_iff livo_ready_def lid_newest_def
         split: if_splits intro!: that)
qed

lemma sync_packages_livo:
  assumes "sync_packages s meas = Ret (True, s', meas')" and "slam_mode s = LIVO"
  shows "lio_vio_flg meas \<in> {WAIT, VIO} \<and> sync_livo_lio s meas = Ret (True, s', meas')
       \<or> lio_vio_flg meas = LIO \<and> sync_livo_vio s meas = Ret (True, s', meas')"
  using assms by (auto simp: sync_packages_def split: if_splits EKF_STATE.splits)

section \<open>The cut loses nothing and mixes nothing\<close>

text \<open>C1: In LIVO mode a successful LIO cut hands over every point of the scans that start
  before the image exactly once: the current cloud holds what was left over from the previous cut
  followed by every point captured before the image, the next cloud every other point, each with
  its absolute capture time, position and intensity unchanged when its offset is read against the
  cloud's own time base (the last update for the current cloud, the new update for the next). The
  scans that start after the image stay buffered.\<close>

theorem livo_cut_conserves_points:
  assumes "sync_packages s meas = Ret (True, s', meas')"
    and "slam_mode s = LIVO" and "lio_vio_flg meas \<in> {WAIT, VIO}"
    and "length (lid_raw_data_buffer s) \<le> length (lid_header_time_buffer s)"
  defines "t \<equiv> m_lio_time (last (measures meas'))"
  defines "k \<equiv> scans_cut t (lid_raw_data_buffer s) (lid_header_time_buffer s)"
  defines "pts \<equiv> buffered_samples k (lid_header_time_buffer s) (lid_raw_data_buffer s)"
  shows "samples_of (last_lio_update_time meas') (pcl_proc_cur meas') =
           samples_of (last_lio_update_time meas') (pcl_proc_next meas) @ filter (\<lambda>x. fst x < t) pts
       \<and> samples_of t (pcl_proc_next meas') = filter (\<lambda>x. \<not> fst x < t) pts
       \<and> lid_raw_data_buffer s' = drop k (lid_raw_data_buffer s)
       \<and> lid_header_time_buffer s' = drop k (lid_header_time_buffer s)"
proof -
  have "sync_livo_lio s meas = Ret (True, s', meas')"
    using sync_packages_livo [OF assms(1,2)] assms(3) by auto
  then obtain u where u: "cut_scans (update_base s meas) u (lid_raw_data_buffer s)
        (lid_header_time_buffer s) (pcl_proc_next meas, []) =
        Ret (lid_raw_data_buffer s', lid_header_time_buffer s', pcl_proc_cur meas', pcl_proc_next meas')"
      "m_lio_time (last (measures meas')) = u" "last_lio_update_time meas' = update_base s meas"
    by (rule sync_livo_lio_True) (auto simp: new_MeasureGroup_def)
  then have tu: "t = u" by (simp add: t_def)
  obtain c n where c: "cut_scans (update_base s meas) u (lid_raw_data_buffer s)
        (lid_header_time_buffer s) (pcl_proc_next meas, []) =
        Ret (drop k (lid_raw_data_buffer s), drop k (lid_header_time_buffer s), c, n)"
      "samples_of (update_base s meas) c = samples_of (update_base s meas) (pcl_proc_next meas) @
         filter (\<lambda>x. fst x < u) pts"
      "samples_of u n = samples_of u [] @ filter (\<lambda>x. \<not> fst x < u) pts"
    using cut_scans_result [OF assms(4)] unfolding k_def pts_def tu by metis
  with u show ?thesis by (simp add: tu)
qed

text \<open>The measurement group of a successful LIO cut holds exactly the IMU samples of the
  half-open interval from the last update to the image, in order, and the newest valid RTK fix of
  that interval when fusion is enabled (the invalid default when there is none); the buffers keep
  exactly the samples after the image. Both buffers must be in time order.\<close>

theorem livo_cut_group:
  assumes "sync_packages s meas = Ret (True, s', meas')"
    and "slam_mode s = LIVO" and "lio_vio_flg meas \<in> {WAIT, VIO}"
    and "sorted (map im_stamp (imu_buffer s))" and "sorted (map rtk_timestamp (rtk_buffer s))"
  defines "g \<equiv> last (measures meas')"
  defines "beg \<equiv> last_lio_update_time meas'"
  shows "m_lio_time g = hd (img_time_buffer s) + exposure_time_init s
       \<and> m_imu g = filter (\<lambda>x. beg < im_stamp x \<and> im_stamp x \<le> m_lio_time g) (imu_buffer s)
       \<and> imu_buffer s' = filter (\<lambda>x. m_lio_time g < im_stamp x) (imu_buffer s)
       \<and> (if rtk_en s \<and> rtk_ini s
          then m_rtk g = last (new_RTK # filter (\<lambda>x. beg < rtk_timestamp x \<and> rtk_timestamp x \<le> m_lio_time g
                                              \<and> rtk_valid x) (rtk_buffer s))
             \<and> rtk_buffer s' = filter (\<lambda>x. m_lio_time g < rtk_timestamp x) (rtk_buffer s)
          else m_rtk g = new_RTK \<and> rtk_buffer s' = rtk_buffer s)"
proof -
  have "sync_livo_lio s meas = Ret (True, s', meas')"
    using sync_packages_livo [OF assms(1,2)] assms(3) by auto
  then obtain t where t: "t = hd (img_time_buffer s) + exposure_time_init s"
      "g = new_MeasureGroup\<lparr>m_lio_time := t,
         m_rtk := (if rtk_en s \<and> rtk_ini s then snd (take_rtk beg t (rtk_buffer s) new_RTK) else new_RTK),
         m_imu := snd (take_imu beg t (imu_buffer s) [])\<rparr>"
      "imu_buffer s' = fst (take_imu beg t (imu_buffer s) [])"
      "rtk_buffer s' = (if rtk_en s \<and> rtk_ini s then fst (take_rtk beg t (rtk_buffer s) new_RTK)
                        else rtk_buffer s)"
    unfolding g_def beg_def by (rule sync_livo_lio_True) simp
  have le: "takeWhile (\<lambda>x. f x \<le> t) xs = filter (\<lambda>x. f x \<le> t) xs"
      "dropWhile (\<lambda>x. f x \<le> t) xs = filter (\<lambda>x. t < f x) xs"
    if "sorted (map f xs)" for f :: "'b \<Rightarrow> real" and xs
    using that by (auto simp: sorted_takeWhile_filter sorted_dropWhile_filter)
  show ?thesis
    using t le(1,2) [OF assms(4)] le(1,2) [OF assms(5)]
    by (auto simp: take_imu_eq take_rtk_eq new_MeasureGroup_def conj_ac intro!: filter_cong arg_cong [of _ _ last])
qed

section \<open>Runs\<close>

text \<open>
  A run interleaves the callbacks with the iterations of \<open>LIVMapper::run\<close>: an iteration whose
  \<open>sync_packages\<close> fails leaves what the call left, one that succeeds goes on to the estimators,
  which mark the group's end as the time of the last update unless the IMU is still initialising.
  The RTK callbacks change only the RTK buffer and the flag \<open>rtk_ini\<close>.
\<close>

type_synonym 'img livo_state = "'img LIVMapper \<times> 'img LidarMeasureGroup"

inductive run_step :: "'img livo_state \<Rightarrow> 'img livo_state \<Rightarrow> bool" where
  std_lidar: "run_step (s, m) (standard_pcl_cbk stamp pcl s, m)"
| livox_lidar: "run_step (s, m) (livox_pcl_cbk stamp pcl s, m)"
| imu: "run_step (s, m) (imu_cbk need_init msg s, m)"
| image: "run_step (s, m) (img_cbk stamp img s, m)"
| rtk: "run_step (s, m) (s\<lparr>rtk_buffer := buf, rtk_ini := ini\<rparr>, m)"
| idle: "sync_packages s m = Ret (False, s', m') \<Longrightarrow> run_step (s, m) (s', m')"
| init_cycle: "sync_packages s m = Ret (True, s', m') \<Longrightarrow> run_step (s, m) (s', m')"
| cycle: "sync_packages s m = Ret (True, s', m') \<Longrightarrow> mark_updated m' = Ret m'' \<Longrightarrow>
          run_step (s, m) (s', m'')"

definition run_start :: "'img livo_state \<Rightarrow> bool" where
  "run_start x =
     (case x of (s, m) \<Rightarrow>
        lid_raw_data_buffer s = [] \<and> lid_header_time_buffer s = [] \<and> imu_buffer s = []
        \<and> img_buffer s = [] \<and> img_time_buffer s = [] \<and> last_timestamp_img s = - 1
        \<and> last_timestamp_imu s = - 1 \<and> last_timestamp_lidar s = - 1 \<and> \<not> lidar_pushed s
        \<and> slam_mode s = LIVO \<and> m = new_LidarMeasureGroup)"

inductive run_reach :: "'img livo_state \<Rightarrow> bool" where
  start: "run_start x \<Longrightarrow> run_reach x"
| step: "run_reach x \<Longrightarrow> run_step x y \<Longrightarrow> run_reach y"

inductive_cases run_stepE: "run_step x y"

text \<open>The invariant of the buffers.\<close>

definition buffers_inv :: "'img LIVMapper \<Rightarrow> bool" where
  "buffers_inv s =
     (length (img_buffer s) = length (img_time_buffer s)
      \<and> sorted_wrt (\<lambda>a b. a + 2 / 100 \<le> b) (img_time_buffer s)
      \<and> (\<forall>t \<in> set (img_time_buffer s). t \<le> last_timestamp_img s)
      \<and> sorted_wrt (\<lambda>x y. im_stamp x \<le> 0 \<or> im_stamp x \<le> im_stamp y) (imu_buffer s)
      \<and> (\<forall>x \<in> set (imu_buffer s). im_stamp x \<le> 0 \<or> im_stamp x \<le> last_timestamp_imu s)
      \<and> length (lid_raw_data_buffer s) \<le> length (lid_header_time_buffer s))"

text \<open>In LIVO mode the image that ended the LIO group is still the first one buffered.\<close>

definition livo_inv :: "'img livo_state \<Rightarrow> bool" where
  "livo_inv x =
     (case x of (s, m) \<Rightarrow>
        buffers_inv s \<and> slam_mode s = LIVO \<and> lio_vio_flg m \<noteq> LO
        \<and> (lio_vio_flg m = LIO \<longrightarrow>
             img_time_buffer s \<noteq> [] \<and> measures m \<noteq> []
             \<and> m_lio_time (last (measures m)) = hd (img_time_buffer s) + exposure_time_init s))"

lemma sorted_wrt_snoc: "sorted_wrt r (xs @ [x]) \<longleftrightarrow> sorted_wrt r xs \<and> (\<forall>y \<in> set xs. r y x)"
  by (auto simp: sorted_wrt_append)

lemma buffers_inv_std [inv_intros]: "buffers_inv s \<Longrightarrow> buffers_inv (standard_pcl_cbk stamp pcl s)"
  by (auto simp: buffers_inv_def standard_pcl_cbk_def Let_def)

lemma buffers_inv_livox [inv_intros]: "buffers_inv s \<Longrightarrow> buffers_inv (livox_pcl_cbk stamp pcl s)"
  by (auto simp: buffers_inv_def livox_pcl_cbk_def Let_def)

lemma buffers_inv_imu_push:
  assumes "buffers_inv s" and "\<not> (last_timestamp_imu s > 0 \<and> im_stamp msg < last_timestamp_imu s)"
  shows "buffers_inv (s\<lparr>last_timestamp_imu := im_stamp msg, imu_buffer := imu_buffer s @ [msg]\<rparr>)"
  using assms by (force simp: buffers_inv_def sorted_wrt_snoc not_less)

lemma buffers_inv_frame [simp]:
  "buffers_inv (s\<lparr>prop_imu_buffer := b\<rparr>) = buffers_inv s"
  "buffers_inv (s\<lparr>newest_imu := n\<rparr>) = buffers_inv s"
  "buffers_inv (s\<lparr>new_imu := v\<rparr>) = buffers_inv s"
  "buffers_inv (s\<lparr>frame_counter := c\<rparr>) = buffers_inv s"
  "buffers_inv (s\<lparr>rtk_buffer := r\<rparr>) = buffers_inv s"
  "buffers_inv (s\<lparr>rtk_ini := i\<rparr>) = buffers_inv s"
  "buffers_inv (s\<lparr>keyframe_time := k\<rparr>) = buffers_inv s"
  "buffers_inv (s\<lparr>lidar_pushed := l\<rparr>) = buffers_inv s"
  by (simp_all add: buffers_inv_def)

lemma buffers_inv_imu [inv_intros]:
  assumes "buffers_inv s"
  shows "buffers_inv (imu_cbk need_init msg s)"
proof -
  let ?t0 = "im_stamp msg - imu_time_offset s"
  let ?t = "if ros_driver_fix_en s then ?t0 + round_away (last_timestamp_lidar s - ?t0) else ?t0"
  let ?m = "msg\<lparr>im_stamp := ?t\<rparr>"
  have "buffers_inv (s\<lparr>last_timestamp_imu := ?t, imu_buffer := imu_buffer s @ [?m]\<rparr>)"
    if "\<not> (last_timestamp_imu s > 0 \<and> ?t < last_timestamp_imu s)"
    using buffers_inv_imu_push [OF assms, of ?m] that by simp
  then show ?thesis
    using assms by (auto simp: imu_cbk_def Let_def)
qed

lemma buffers_inv_img_push:
  assumes "buffers_inv z" and "\<not> t - last_timestamp_img z < 2 / 100"
    and "b = img_buffer z @ [img]" and "c = img_time_buffer z @ [t]"
  shows "buffers_inv (z\<lparr>img_buffer := b, img_time_buffer := c, last_timestamp_img := t\<rparr>)"
  using assms by (force simp: buffers_inv_def sorted_wrt_snoc)

lemma buffers_inv_img [inv_intros]:
  assumes "buffers_inv s"
  shows "buffers_inv (img_cbk stamp img s)"
  using assms by (auto simp: img_cbk_def Let_def intro!: buffers_inv_img_push)

lemma buffers_inv_popped:
  assumes "buffers_inv s"
    and "length (img_buffer s') = length (img_time_buffer s')"
    and "\<exists>n. img_time_buffer s' = drop n (img_time_buffer s)"
    and "\<exists>n. imu_buffer s' = drop n (imu_buffer s)"
    and "length (lid_raw_data_buffer s') \<le> length (lid_header_time_buffer s')"
    and "last_timestamp_img s' = last_timestamp_img s" "last_timestamp_imu s' = last_timestamp_imu s"
  shows "buffers_inv s'"
proof -
  obtain n k where n: "img_time_buffer s' = drop n (img_time_buffer s)"
    and k: "imu_buffer s' = drop k (imu_buffer s)" using assms(3,4) by blast
  show ?thesis
    using assms(1,2,5-7) set_drop_subset [of n "img_time_buffer s"] set_drop_subset [of k "imu_buffer s"]
    unfolding buffers_inv_def n k by (simp add: sorted_wrt_drop subset_iff)
qed

lemma length_cut_scans:
  "cut_scans l t raw hdr (cur, nxt) = Ret (raw', hdr', cur', nxt') \<Longrightarrow>
   length raw \<le> length hdr \<Longrightarrow> length raw' \<le> length hdr'"
  by (rule cut_scans_result [of raw hdr l t cur nxt]) auto

lemma dropWhile_drop: "\<exists>n. dropWhile P xs = drop n xs"
  by (metis dropWhile_eq_drop)

text \<open>A failed LIO cut of LIVO mode either changes no buffer or throws away the oldest image, which
  is not later than the last update.\<close>

lemma sync_livo_lio_False:
  assumes "sync_livo_lio s meas = Ret (False, s', meas')"
  obtains (wait) "meas' = meas\<lparr>last_lio_update_time := update_base s meas\<rparr>" "s' = livo_marked s"
  | (late) "meas' = meas\<lparr>last_lio_update_time := update_base s meas\<rparr>"
      "hd (img_time_buffer s) + exposure_time_init s < update_base s meas + 1 / 100000"
      "s' = livo_marked s\<lparr>img_buffer := tl (img_buffer s), img_time_buffer := tl (img_time_buffer s)\<rparr>"
      "img_buffer s \<noteq> []" "img_time_buffer s \<noteq> []"
proof -
  from assms show thesis
    by (cases "livo_ready s")
      (auto simp: sync_livo_lio_eq Let_def bind_exec_Ret_iff livo_ready_def pop_front_Ret
         split: if_splits intro: that)
qed

lemma sync_livo_vio_Ret:
  assumes "sync_livo_vio s meas = Ret (ok, s', meas')"
  obtains img imgs t ts where "ok" "img_buffer s = img # imgs" "img_time_buffer s = t # ts"
    "imu_buffer s \<noteq> []"
    "s' = s\<lparr>img_buffer := imgs, img_time_buffer := ts, lidar_pushed := False\<rparr>"
    "meas' = meas\<lparr>lio_vio_flg := VIO,
       measures := [new_MeasureGroup\<lparr>m_vio_time := t + exposure_time_init s,
                      m_lio_time := last_lio_update_time meas, m_img := Some img\<rparr>]\<rparr>"
proof -
  obtain t ts where t: "img_time_buffer s = t # ts" and "imu_buffer s \<noteq> []"
    using assms by (cases "img_time_buffer s"; cases "imu_buffer s")
      (simp_all add: sync_livo_vio_def front_of_def)
  moreover obtain img imgs where "img_buffer s = img # imgs"
    using assms t by (cases "img_buffer s"; cases "imu_buffer s")
      (simp_all add: sync_livo_vio_def front_of_def)
  ultimately show thesis
    using assms by (intro that [of img imgs t ts]; cases "imu_buffer s")
      (simp_all add: sync_livo_vio_def front_of_def pop_front_def)
qed

lemma buffers_inv_livo_marked [simp]: "buffers_inv (livo_marked s) = buffers_inv s"
  by (simp add: livo_marked_def)

lemma buffers_inv_pop_img:
  "buffers_inv s \<Longrightarrow>
   buffers_inv (s\<lparr>img_buffer := tl (img_buffer s), img_time_buffer := tl (img_time_buffer s)\<rparr>)"
  by (cases "img_time_buffer s"; cases "img_buffer s") (simp_all add: buffers_inv_def)

lemma livo_inv_lio:
  assumes "livo_inv (s, m)" and "sync_livo_lio s m = Ret (ok, s', m')" and "lio_vio_flg m \<noteq> LIO"
  shows "livo_inv (s', m')"
proof (cases ok)
  case True
  with assms(2) have "sync_livo_lio s m = Ret (True, s', m')" by simp
  then show ?thesis
  proof (rule sync_livo_lio_True)
    fix t
    let ?b = "update_base s m"
    assume *: "img_time_buffer s \<noteq> []" "t = hd (img_time_buffer s) + exposure_time_init s"
      "cut_scans ?b t (lid_raw_data_buffer s) (lid_header_time_buffer s) (pcl_proc_next m, []) =
        Ret (lid_raw_data_buffer s', lid_header_time_buffer s', pcl_proc_cur m', pcl_proc_next m')"
      "measures m' = measures m @ [new_MeasureGroup\<lparr>m_lio_time := t,
       m_rtk := (if rtk_en s \<and> rtk_ini s
                 then snd (take_rtk ?b t (rtk_buffer s) new_RTK) else new_RTK),
       m_imu := snd (take_imu ?b t (imu_buffer s) [])\<rparr>]" "lio_vio_flg m' = LIO"
      "imu_buffer s' = fst (take_imu ?b t (imu_buffer s) [])" "img_buffer s' = img_buffer s"
      "img_time_buffer s' = img_time_buffer s" "exposure_time_init s' = exposure_time_init s"
      "slam_mode s' = slam_mode s" "last_timestamp_img s' = last_timestamp_img s"
      "last_timestamp_imu s' = last_timestamp_imu s"
    have inv: "buffers_inv s" using assms(1) by (simp add: livo_inv_def)
    have "buffers_inv s'"
    proof (rule buffers_inv_popped [OF inv])
      show "length (img_buffer s') = length (img_time_buffer s')"
        using inv * by (simp add: buffers_inv_def)
      show "\<exists>n. img_time_buffer s' = drop n (img_time_buffer s)" by (rule exI [of _ 0]) (simp add: *)
      show "\<exists>n. imu_buffer s' = drop n (imu_buffer s)" by (simp add: * take_imu_eq dropWhile_drop)
      show "length (lid_raw_data_buffer s') \<le> length (lid_header_time_buffer s')"
        using length_cut_scans [OF *(3)] inv by (simp add: buffers_inv_def)
    qed (simp_all add: *)
    then show ?thesis using assms(1) * by (simp add: livo_inv_def new_MeasureGroup_def)
  qed
next
  case False
  with assms(2) have "sync_livo_lio s m = Ret (False, s', m')" by simp
  then show ?thesis
  proof (cases rule: sync_livo_lio_False)
    case wait
    with assms(1,3) show ?thesis by (simp add: livo_inv_def)
  next
    case late
    have "buffers_inv (livo_marked s)" using assms(1) by (simp add: livo_inv_def)
    from buffers_inv_pop_img [OF this] late assms(1,3) show ?thesis by (simp add: livo_inv_def)
  qed
qed

lemma livo_inv_sync:
  assumes "livo_inv (s, m)" and "sync_packages s m = Ret (ok, s', m')"
  shows "livo_inv (s', m')"
proof -
  have mode: "slam_mode s = LIVO" "lio_vio_flg m \<noteq> LO" "buffers_inv s"
    using assms(1) by (auto simp: livo_inv_def)
  then consider "s' = s" "m' = m" | "lio_vio_flg m \<noteq> LIO" "sync_livo_lio s m = Ret (ok, s', m')"
    | "sync_livo_vio s m = Ret (ok, s', m')"
    using assms(2) by (auto simp: sync_packages_def split: if_splits EKF_STATE.splits)
  then show ?thesis
  proof cases
    case 1
    with assms(1) show ?thesis by simp
  next
    case 2
    show ?thesis by (rule livo_inv_lio [OF assms(1) 2(2,1)])
  next
    case 3
    then obtain img imgs t ts where v: "img_buffer s = img # imgs" "img_time_buffer s = t # ts"
        "s' = s\<lparr>img_buffer := imgs, img_time_buffer := ts, lidar_pushed := False\<rparr>"
        "lio_vio_flg m' = VIO"
      by (rule sync_livo_vio_Ret) simp
    have "s' = (s\<lparr>img_buffer := tl (img_buffer s), img_time_buffer := tl (img_time_buffer s)\<rparr>)
              \<lparr>lidar_pushed := False\<rparr>" using v by simp
    then show ?thesis using buffers_inv_pop_img [OF mode(3)] mode v(4) by (simp add: livo_inv_def)
  qed
qed

lemma cbk_frame [simp]:
  "slam_mode (standard_pcl_cbk t pcl s) = slam_mode s" "slam_mode (livox_pcl_cbk t pcl s) = slam_mode s"
  "slam_mode (imu_cbk b msg s) = slam_mode s" "slam_mode (img_cbk t img s) = slam_mode s"
  "exposure_time_init (standard_pcl_cbk t pcl s) = exposure_time_init s"
  "exposure_time_init (livox_pcl_cbk t pcl s) = exposure_time_init s"
  "exposure_time_init (imu_cbk b msg s) = exposure_time_init s"
  "exposure_time_init (img_cbk t img s) = exposure_time_init s"
  "img_time_buffer (standard_pcl_cbk t pcl s) = img_time_buffer s"
  "img_time_buffer (livox_pcl_cbk t pcl s) = img_time_buffer s"
  "img_time_buffer (imu_cbk b msg s) = img_time_buffer s"
  by (simp_all add: standard_pcl_cbk_def livox_pcl_cbk_def imu_cbk_def img_cbk_def Let_def)

lemma img_cbk_keeps_front:
  "img_time_buffer s \<noteq> [] \<Longrightarrow>
   img_time_buffer (img_cbk t img s) \<noteq> [] \<and> hd (img_time_buffer (img_cbk t img s)) = hd (img_time_buffer s)"
  by (simp add: img_cbk_def Let_def)

lemma livo_inv_mark:
  assumes "livo_inv (s, m)" and "mark_updated m = Ret m'"
  shows "livo_inv (s, m')"
  using assms by (auto simp: livo_inv_def mark_updated_def bind_exec_Ret_iff split: if_splits)

lemma livo_inv_step:
  assumes "livo_inv x" and "run_step x y"
  shows "livo_inv y"
  using assms(2,1)
proof (cases rule: run_step.cases)
  case (image s m stamp img)
  with assms(1) img_cbk_keeps_front [of s stamp img] show ?thesis
    by (auto simp: livo_inv_def intro: inv_intros)
next
  case (idle s m s' m')
  with assms(1) show ?thesis by (auto intro: livo_inv_sync)
next
  case (init_cycle s m s' m')
  with assms(1) show ?thesis by (auto intro: livo_inv_sync)
next
  case (cycle s m s' m' m'')
  with assms(1) show ?thesis by (auto intro: livo_inv_sync livo_inv_mark)
qed (use assms(1) in \<open>auto simp: livo_inv_def intro: inv_intros\<close>)

lemma run_reach_inv: "run_reach x \<Longrightarrow> livo_inv x"
proof (induction rule: run_reach.induct)
  case (start x)
  then show ?case
    by (auto simp: run_start_def livo_inv_def buffers_inv_def new_LidarMeasureGroup_def)
next
  case (step x y)
  show ?case by (rule livo_inv_step [OF step.IH step.hyps(2)])
qed

section \<open>Properties of runs\<close>

text \<open>C32: Along every run in LIVO mode the buffers stay well formed: image and image-time buffer
  have the same length, buffered images are at least 20 ms apart and none is newer than the last
  accepted one, IMU samples with a positive stamp never go back in time, and there is a header time
  for every buffered scan.\<close>

theorem run_buffers_ordered:
  assumes "run_reach (s, m)"
  shows "length (img_buffer s) = length (img_time_buffer s)
       \<and> sorted_wrt (\<lambda>a b. a + 2 / 100 \<le> b) (img_time_buffer s)
       \<and> (\<forall>t \<in> set (img_time_buffer s). t \<le> last_timestamp_img s)
       \<and> sorted_wrt (\<lambda>x y. im_stamp x \<le> 0 \<or> im_stamp x \<le> im_stamp y) (imu_buffer s)
       \<and> length (lid_raw_data_buffer s) \<le> length (lid_header_time_buffer s)"
  using run_reach_inv [OF assms] by (simp add: livo_inv_def buffers_inv_def)

text \<open>C33: LIO and VIO updates alternate on the same image: whenever a run in LIVO mode stands after
  an LIO cut, a successful synchronisation yields exactly one VIO group, its image is the oldest one
  buffered, its VIO time is the end time of the LIO group before it, and it takes that image and
  its time off the buffers.\<close>

theorem vio_uses_the_lio_image:
  assumes "run_reach (s, m)" and "lio_vio_flg m = LIO"
    and "sync_packages s m = Ret (True, s', m')"
  shows "\<exists>g. measures m' = [g] \<and> lio_vio_flg m' = VIO
          \<and> m_vio_time g = m_lio_time (last (measures m))
          \<and> img_buffer s = the (m_img g) # img_buffer s' \<and> m_img g \<noteq> None
          \<and> img_time_buffer s' = tl (img_time_buffer s)"
proof -
  have inv: "livo_inv (s, m)" by (rule run_reach_inv [OF assms(1)])
  then have "sync_livo_vio s m = Ret (True, s', m')"
    using sync_packages_livo [OF assms(3)] assms(2) by (auto simp: livo_inv_def)
  then show ?thesis
    by (rule sync_livo_vio_Ret) (use inv assms(2) in \<open>auto simp: livo_inv_def new_MeasureGroup_def\<close>)
qed

text \<open>In LIVO mode with all three sensors enabled a run never reads past the end of a buffer:
  as long as no empty cloud is buffered, every call of \<open>sync_packages\<close> returns.\<close>

theorem livo_sync_defined:
  assumes "run_reach (s, m)" and "lidar_en s" and "img_en s" and "imu_en s"
    and "\<forall>pcl \<in> set (lid_raw_data_buffer s). pcl \<noteq> []"
  shows "\<exists>ok s' m'. sync_packages s m = Ret (ok, s', m')"
proof -
  have inv: "slam_mode s = LIVO" "buffers_inv s" using run_reach_inv [OF assms(1)]
    by (auto simp: livo_inv_def)
  show ?thesis
  proof (cases "lid_raw_data_buffer s = [] \<or> img_buffer s = [] \<or> imu_buffer s = []")
    case True
    with assms show ?thesis by (auto simp: sync_packages_def)
  next
    case False
    have len: "length (lid_raw_data_buffer s) \<le> length (lid_header_time_buffer s)"
      and img: "img_time_buffer s \<noteq> []" and hdr: "lid_header_time_buffer s \<noteq> []"
      using inv(2) False by (auto simp: buffers_inv_def)
    have "\<exists>c. cut_scans b t (lid_raw_data_buffer s) (lid_header_time_buffer s) (p, []) = Ret c" for b t p
      using cut_scans_result [OF len] by metis
    then have "\<exists>ok s' m'. sync_livo_lio s m = Ret (ok, s', m')"
      using False img hdr assms(5) unfolding sync_livo_lio_eq
      by (auto simp: livo_ready_def Let_def bind_exec_Ret_iff pop_front_Ret neq_Nil_conv)
    moreover have "\<exists>ok s' m'. sync_livo_vio s m = Ret (ok, s', m')"
      using False img by (auto simp: sync_livo_vio_def front_of_def pop_front_def neq_Nil_conv)
    moreover have "lio_vio_flg m \<noteq> LO" using run_reach_inv [OF assms(1)] by (simp add: livo_inv_def)
    ultimately show ?thesis
      using False inv(1) by (auto simp: sync_packages_def split: EKF_STATE.splits)
  qed
qed

section \<open>A concrete run\<close>

text \<open>Two scans, two IMU samples and one image, the image inside the first scan; used by the
  witnesses below.\<close>

definition ex_point :: "real \<Rightarrow> LPoint" where
  "ex_point ms = \<lparr>lp_xyz = (1, 2, 3), lp_intensity = 10, curvature = ms\<rparr>"

definition ex_imu :: "real \<Rightarrow> ImuMsg" where
  "ex_imu t = \<lparr>im_stamp = t, im_acc = (0, 0, 1), im_gyr = (0, 0, 0)\<rparr>"

definition ex_start :: "nat LIVMapper" where
  "ex_start =
     \<lparr>slam_mode = LIVO, lidar_en = True, imu_en = True, img_en = True, rtk_en = False,
      hilti_en = False, ros_driver_fix_en = False, imu_prop_enable = False, lidar_time_offset = 0,
      imu_time_offset = 0, img_time_offset = 0, exposure_time_init = 0, lid_raw_data_buffer = [],
      lid_header_time_buffer = [], imu_buffer = [], img_buffer = [], img_time_buffer = [],
      rtk_buffer = [], prop_imu_buffer = [], newest_imu = None, new_imu = False,
      last_timestamp_lidar = - 1, last_timestamp_imu = - 1, last_timestamp_img = - 1,
      keyframe_time = 0, lidar_pushed = False, rtk_ini = False, frame_counter = 0\<rparr>"

definition ex_scan1 :: "LPoint list" where "ex_scan1 = [ex_point 0, ex_point 50, ex_point 90]"
definition ex_scan2 :: "LPoint list" where "ex_scan2 = [ex_point 0, ex_point 80]"

definition ex_ready :: "nat LIVMapper" where
  "ex_ready = img_cbk (100 + 40 / 1000) 7 (imu_cbk True (ex_imu (100 + 60 / 1000))
     (imu_cbk True (ex_imu (100 + 10 / 1000)) (livox_pcl_cbk (100 + 100 / 1000) ex_scan2
     (livox_pcl_cbk 100 ex_scan1 ex_start))))"

lemmas ex_defs = ex_point_def ex_imu_def ex_start_def ex_scan1_def ex_scan2_def

lemma ex_ready_eq:
  "ex_ready = ex_start\<lparr>lid_raw_data_buffer := [ex_scan1, ex_scan2],
     lid_header_time_buffer := [100, 1001 / 10], imu_buffer := [ex_imu (10001 / 100), ex_imu (5003 / 50)],
     img_buffer := [7], img_time_buffer := [2501 / 25], last_timestamp_lidar := 1001 / 10,
     last_timestamp_imu := 5003 / 50, last_timestamp_img := 2501 / 25\<rparr>"
  by (simp add: ex_ready_def ex_defs img_cbk_def imu_cbk_def livox_pcl_cbk_def Let_def)

lemma ex_ready_reach: "run_reach (ex_ready, new_LidarMeasureGroup)"
  unfolding ex_ready_def
  by (intro run_reach.step [OF _ run_step.image] run_reach.step [OF _ run_step.imu]
        run_reach.step [OF _ run_step.livox_lidar] run_reach.start)
    (simp add: run_start_def ex_start_def)

definition ex_cut_s :: "nat LIVMapper" where
  "ex_cut_s = ex_ready\<lparr>lid_raw_data_buffer := [ex_scan2], lid_header_time_buffer := [1001 / 10],
     imu_buffer := [ex_imu (5003 / 50)], keyframe_time := 2501 / 25\<rparr>"

definition ex_cut_m :: "nat LidarMeasureGroup" where
  "ex_cut_m = new_LidarMeasureGroup\<lparr>last_lio_update_time := 100, pcl_proc_cur := [ex_point 0],
     pcl_proc_next := [ex_point 10, ex_point 50], lio_vio_flg := LIO,
     measures := [new_MeasureGroup\<lparr>m_lio_time := 2501 / 25, m_imu := [ex_imu (10001 / 100)]\<rparr>]\<rparr>"

lemma ex_cut: "sync_packages ex_ready new_LidarMeasureGroup = Ret (True, ex_cut_s, ex_cut_m)"
  by (simp add: sync_packages_def sync_livo_lio_eq livo_ready_def livo_marked_def ex_ready_eq ex_defs
      ex_cut_s_def ex_cut_m_def new_LidarMeasureGroup_def new_MeasureGroup_def lid_newest_def
      update_base_def Let_def)

lemma ex_ready_simps:
  "slam_mode ex_ready = LIVO" "lio_vio_flg (new_LidarMeasureGroup :: nat LidarMeasureGroup) = WAIT"
  "lid_raw_data_buffer ex_ready = [ex_scan1, ex_scan2]"
  "lid_header_time_buffer ex_ready = [100, 1001 / 10]"
  "imu_buffer ex_ready = [ex_imu (10001 / 100), ex_imu (5003 / 50)]"
  "rtk_buffer ex_ready = []" "rtk_en ex_ready = False" "img_time_buffer ex_ready = [2501 / 25]"
  "lidar_en ex_ready" "img_en ex_ready" "imu_en ex_ready" "exposure_time_init ex_ready = 0"
  by (simp_all add: ex_ready_eq ex_start_def new_LidarMeasureGroup_def)

theorem livo_cut_conserves_points_witness:
  "samples_of 100 (pcl_proc_cur ex_cut_m) = [(100, (1, 2, 3), 10)]
   \<and> samples_of (2501 / 25) (pcl_proc_next ex_cut_m) =
       [(100 + 50 / 1000, (1, 2, 3), 10), (100 + 90 / 1000, (1, 2, 3), 10)]
   \<and> lid_raw_data_buffer ex_cut_s = [ex_scan2]"
  using livo_cut_conserves_points [OF ex_cut]
  by (simp add: ex_ready_simps ex_cut_m_def new_MeasureGroup_def new_LidarMeasureGroup_def
      scans_cut_def buffered_samples_def ex_scan1_def ex_point_def)

theorem livo_cut_group_witness:
  "m_imu (last (measures ex_cut_m)) = [ex_imu (10001 / 100)]
   \<and> imu_buffer ex_cut_s = [ex_imu (5003 / 50)]"
  using livo_cut_group [OF ex_cut]
  by (simp add: ex_ready_simps ex_imu_def ex_cut_m_def new_MeasureGroup_def)

theorem run_buffers_ordered_witness:
  "length (img_buffer ex_ready) = length (img_time_buffer ex_ready)
   \<and> length (lid_raw_data_buffer ex_ready) \<le> length (lid_header_time_buffer ex_ready)"
  using run_buffers_ordered [OF ex_ready_reach] by blast

lemma ex_cut_reach: "run_reach (ex_cut_s, ex_cut_m)"
  by (rule run_reach.step [OF ex_ready_reach run_step.init_cycle [OF ex_cut]])

lemma ex_vio:
  "\<exists>s' m'. sync_packages ex_cut_s ex_cut_m = Ret (True, s', m')"
  by (simp add: sync_packages_def sync_livo_vio_def ex_cut_s_def ex_cut_m_def ex_ready_eq ex_start_def
      front_of_def pop_front_def)

theorem vio_uses_the_lio_image_witness:
  "\<exists>s' m' g. sync_packages ex_cut_s ex_cut_m = Ret (True, s', m') \<and> measures m' = [g]
      \<and> m_vio_time g = 2501 / 25 \<and> lio_vio_flg m' = VIO"
proof -
  obtain s' m' where v: "sync_packages ex_cut_s ex_cut_m = Ret (True, s', m')" using ex_vio by blast
  have "lio_vio_flg ex_cut_m = LIO" "m_lio_time (last (measures ex_cut_m)) = 2501 / 25"
    by (simp_all add: ex_cut_m_def new_MeasureGroup_def)
  with vio_uses_the_lio_image [OF ex_cut_reach _ v] v show ?thesis by auto
qed

theorem livo_sync_defined_witness:
  "\<exists>ok s' m'. sync_packages ex_ready new_LidarMeasureGroup = Ret (ok, s', m')"
  by (rule livo_sync_defined [OF ex_ready_reach])
    (simp_all add: ex_ready_simps ex_scan1_def ex_scan2_def)

section \<open>Faults of the front end\<close>

text \<open>When the LiDAR clock goes back while scans are buffered, the callback drops the
  buffered scans but keeps their header times: the next group of \<open>ONLY_LIO\<close> mode pairs the new scan
  with the header time of a scan that was dropped.\<close>

theorem loop_back_pairs_stale_header:
  assumes "lidar_en s" and "stamp + lidar_time_offset s < last_timestamp_lidar s"
    and "lid_header_time_buffer s = h # hs" and "\<not> lidar_pushed s"
    and "sync_only_lio (standard_pcl_cbk stamp pcl s) m = Ret (True, s', m')"
  shows "lidar m' = pcl \<and> lidar_frame_beg_time m' = h
       \<and> last (lid_header_time_buffer s') = stamp + lidar_time_offset s"
proof -
  let ?s = "standard_pcl_cbk stamp pcl s"
  have s: "lid_raw_data_buffer ?s = [pcl]" "\<not> lidar_pushed ?s"
    "lid_header_time_buffer ?s = (h # hs) @ [stamp + lidar_time_offset s]"
    using assms(1-4) by (simp_all add: standard_pcl_cbk_def Let_def)
  then show ?thesis
    using assms(5)
    by (auto simp: sync_only_lio_def bind_exec_Ret_iff deque_Ret Let_def move_imu_eq
        split: if_splits)
qed

definition ex_jumped :: "nat LIVMapper" where
  "ex_jumped = ex_ready\<lparr>slam_mode := ONLY_LIO, imu_en := False, img_en := False\<rparr>"

theorem loop_back_pairs_stale_header_witness:
  "\<exists>s' m'. sync_only_lio (standard_pcl_cbk 50 ex_scan1 ex_jumped) new_LidarMeasureGroup = Ret (True, s', m')
     \<and> lidar m' = ex_scan1 \<and> lidar_frame_beg_time m' = 100"
proof -
  have "\<exists>s' m'. sync_only_lio (standard_pcl_cbk 50 ex_scan1 ex_jumped) new_LidarMeasureGroup =
      Ret (True, s', m')"
    by (simp add: ex_jumped_def ex_ready_eq standard_pcl_cbk_def sync_only_lio_def Let_def ex_defs
        front_of_def pop_front_def move_imu_eq new_LidarMeasureGroup_def)
  then obtain s' m' where
    r: "sync_only_lio (standard_pcl_cbk 50 ex_scan1 ex_jumped) new_LidarMeasureGroup = Ret (True, s', m')"
    by blast
  have "lid_header_time_buffer ex_jumped = 100 # [1001 / 10]" "lidar_en ex_jumped"
    "50 + lidar_time_offset ex_jumped < last_timestamp_lidar ex_jumped" "\<not> lidar_pushed ex_jumped"
    by (simp_all add: ex_jumped_def ex_ready_eq ex_start_def)
  from loop_back_pairs_stale_header [OF this(2,3,1,4) r] r show ?thesis by auto
qed

text \<open>In \<open>ONLY_LIO\<close> mode a scan of at most one point at the head of the buffer blocks the
  front end: \<open>sync_packages\<close> fails without consuming it, leaves every buffer as it is, and still
  fails after any further scan whose time does not go back.\<close>

theorem short_scan_blocks_only_lio:
  assumes "slam_mode s = ONLY_LIO" and "\<not> lidar_pushed s" and "lid_raw_data_buffer s = pcl # raw"
    and "length pcl \<le> 1" and "lid_header_time_buffer s \<noteq> []"
    and "last_timestamp_lidar s \<le> stamp + lidar_time_offset s"
  shows "(\<exists>m'. sync_packages s m = Ret (False, s, m'))
       \<and> (let s2 = standard_pcl_cbk stamp pcl2 s in \<exists>m'. sync_packages s2 m = Ret (False, s2, m'))"
proof -
  have block: "\<exists>m'. sync_packages z m = Ret (False, z, m')"
    if "slam_mode z = ONLY_LIO" "\<not> lidar_pushed z" "lid_raw_data_buffer z = pcl # r"
      "lid_header_time_buffer z \<noteq> []" for z :: "'a LIVMapper" and r
    using that assms(4)
    by (cases "lid_header_time_buffer z")
      (auto simp: sync_packages_def sync_only_lio_def front_of_def Let_def)
  moreover have "lid_raw_data_buffer (standard_pcl_cbk stamp pcl2 s) =
      pcl # (if lidar_en s then raw @ [pcl2] else raw)"
    "\<not> lidar_pushed (standard_pcl_cbk stamp pcl2 s)"
    "lid_header_time_buffer (standard_pcl_cbk stamp pcl2 s) \<noteq> []"
    using assms by (simp_all add: standard_pcl_cbk_def Let_def)
  ultimately show ?thesis
    unfolding Let_def using assms(1,2,3,5) by (intro conjI block) simp_all
qed

theorem short_scan_blocks_only_lio_witness:
  "\<exists>m'. sync_packages (standard_pcl_cbk 0 [ex_point 0] (ex_start\<lparr>slam_mode := ONLY_LIO\<rparr>))
          new_LidarMeasureGroup
        = Ret (False, standard_pcl_cbk 0 [ex_point 0] (ex_start\<lparr>slam_mode := ONLY_LIO\<rparr>), m')"
  using short_scan_blocks_only_lio [of "standard_pcl_cbk 0 [ex_point 0] (ex_start\<lparr>slam_mode := ONLY_LIO\<rparr>)"
      "[ex_point 0]" "[]" 1 new_LidarMeasureGroup]
  by (simp add: standard_pcl_cbk_def ex_start_def Let_def)

text \<open>The standard point cloud callback accepts an empty cloud, and in LIVO mode the next
  synchronisation then reads the last point of an empty vector, which is undefined.\<close>

theorem empty_cloud_breaks_livo:
  assumes "lidar_en s" and "slam_mode s = LIVO" and "lio_vio_flg m \<in> {WAIT, VIO}"
    and "img_buffer s \<noteq> []" and "imu_buffer s \<noteq> []"
  shows "sync_packages (standard_pcl_cbk stamp [] s) m = Undef"
proof -
  let ?s = "standard_pcl_cbk stamp [] s"
  have "\<not> livo_ready ?s" "lid_raw_data_buffer ?s \<noteq> []" "img_buffer ?s = img_buffer s"
    "imu_buffer ?s = imu_buffer s"
    using assms(1) by (auto simp: standard_pcl_cbk_def Let_def livo_ready_def)
  then show ?thesis using assms by (auto simp: sync_packages_def sync_livo_lio_eq)
qed

theorem empty_cloud_breaks_livo_witness:
  "sync_packages (standard_pcl_cbk 101 [] ex_ready) new_LidarMeasureGroup = Undef"
  by (rule empty_cloud_breaks_livo)
    (simp_all add: ex_ready_simps ex_ready_eq ex_start_def new_LidarMeasureGroup_def)

end
