(* ===== verification/Livo_Rtk.thy ===== *)
theory Livo_Rtk
  imports Livo_Sync Gnss_Types
begin

text \<open>
  The mapper's RTK input, \<^verbatim>\<open>fast_livo/src/LIVMapper.cpp\<close> (\<open>rtk_cbk\<close>, \<open>navsatfix_cbk\<close>, \<open>computeSVD\<close>,
  \<open>InitializeRTK\<close> and the antenna trajectory that \<open>publish_frame_world\<close> keeps for it) and
  \<open>ImuProcess::GetRTKCorrectedState\<close> of \<^verbatim>\<open>fast_livo/src/IMU_Processing.cpp\<close>. The projection to
  local coordinates (GeographicLib), Eigen's SVD and its \<open>allFinite\<close> are arguments; writing the debug
  files and publishing the odometry message are left out.
\<close>

section \<open>State\<close>

record rtk_config =
  rc_gps_time_offset :: real
  rc_min_h_std :: real
  rc_min_v_std :: real
  rc_max_h_acc :: real
  rc_max_v_acc :: real
  rc_sync_threshold :: real
  rc_min_distance :: real
  rc_min_matches :: nat

text \<open>\<open>ms_origin_set\<close> stands for the callbacks' static flag \<open>first_gps\<close> and \<open>ms_origin\<close> for the
  origin of \<open>gps_trans_\<close>; only one of the two callbacks is ever subscribed. A rigid transformation is a
  rotation matrix and a translation.\<close>

type_synonym se3 = "mat3 \<times> vec3"

record rtk_state =
  ms_origin_set :: bool
  ms_origin :: vec3
  ms_rtk_buffer :: "RTK list"
  ms_rtk_ini :: bool
  ms_livo_state_buffer :: "real list list"
  ms_T_W_to_G :: se3
  ms_T_G_to_W :: se3

record rtk_lib =
  rl_forward :: "vec3 \<Rightarrow> vec3 \<Rightarrow> vec3"
  rl_svd :: "mat3 \<Rightarrow> mat3 \<times> mat3"
  rl_allFinite :: "se3 \<Rightarrow> bool"

fun se3_apply :: "se3 \<Rightarrow> vec3 \<Rightarrow> vec3" where
  "se3_apply (r, t) p = v3_add (m3_apply r p) t"

fun se3_inverse :: "se3 \<Rightarrow> se3" where
  "se3_inverse (r, t) = (m3_transpose r, v3_scale (- 1) (m3_apply (m3_transpose r) t))"

section \<open>Alignment\<close>

definition centroid :: "vec3 list \<Rightarrow> vec3" where
  "centroid ps = v3_scale (1 / real (length ps)) (foldl v3_add v3_zero ps)"

definition computeSVD :: "rtk_lib \<Rightarrow> vec3 list \<Rightarrow> vec3 list \<Rightarrow> se3" where
  "computeSVD lib target source =
     (if target = [] \<or> length target \<noteq> length source then (m3_one, v3_zero)
      else let tc = centroid target; sc = centroid source;
               w = foldl m3_add m3_zero
                     (map2 (\<lambda>t s. v3_outer (v3_sub t tc) (v3_sub s sc)) target source);
               (u, v) = rl_svd lib w;
               r = m3_mult u (m3_transpose v);
               r = (if m3_det r < 0 then m3_mult (m3_mult u (m3_diag 1 1 (- 1))) (m3_transpose v)
                    else r)
           in (r, v3_sub tc (m3_apply r sc)))"

text \<open>The inner \<open>while\<close> loop: skip the poses too old for the fix.\<close>

fun skip_old :: "real \<Rightarrow> real list list \<Rightarrow> real list list exec" where
  "skip_old limit [] = Ret []"
| "skip_old limit (x # xs) =
     bind_exec (front_of x) (\<lambda>t. if t < limit then skip_old limit xs else Ret (x # xs))"

text \<open>The choice between the first remaining pose and the one after it.\<close>

fun nearest_pose :: "real \<Rightarrow> real list list \<Rightarrow> (real list \<times> real) exec" where
  "nearest_pose t_rtk [] = Undef"
| "nearest_pose t_rtk [p] = bind_exec (front_of p) (\<lambda>t. Ret (p, \<bar>t - t_rtk\<bar>))"
| "nearest_pose t_rtk (p # p2 # rest) =
     bind_exec (front_of p) (\<lambda>t. bind_exec (front_of p2) (\<lambda>t2.
       Ret (if \<bar>t2 - t_rtk\<bar> < \<bar>t - t_rtk\<bar> then (p2, \<bar>t2 - t_rtk\<bar>) else (p, \<bar>t - t_rtk\<bar>))))"

text \<open>The loop over the fixes. \<open>poses\<close> is the range from \<open>livo_it\<close> to the end; the result is the
  matched positions, of the LIVO antenna and of the fix.\<close>

fun match_loop ::
  "real \<Rightarrow> RTK list \<Rightarrow> real list list \<Rightarrow> (vec3 \<times> vec3) list \<Rightarrow> (vec3 \<times> vec3) list exec" where
  "match_loop threshold [] poses acc = Ret acc"
| "match_loop threshold (r # rs) poses acc =
     bind_exec (skip_old (rtk_timestamp r - threshold) poses) (\<lambda>poses.
     if poses = [] then Ret acc
     else bind_exec (nearest_pose (rtk_timestamp r) poses) (\<lambda>(best, min_dt).
          match_loop threshold rs poses
            (if min_dt < threshold \<and> \<not> length best < 4
             then acc @ [((best ! 1, best ! 2, best ! 3), rtk_p r)] else acc)))"

definition max_baseline :: "vec3 list \<Rightarrow> real" where
  "max_baseline ps = foldl (\<lambda>m p. max m (v3_norm (v3_sub p (hd ps)))) 0 ps"

definition InitializeRTK :: "rtk_lib \<Rightarrow> rtk_config \<Rightarrow> rtk_state \<Rightarrow> (bool \<times> rtk_state) exec" where
  "InitializeRTK lib c s =
     (if length (ms_rtk_buffer s) < rc_min_matches c
         \<or> length (ms_livo_state_buffer s) < rc_min_matches c
      then Ret (False, s)
      else bind_exec (match_loop (rc_sync_threshold c) (ms_rtk_buffer s) (ms_livo_state_buffer s) [])
           (\<lambda>m. let source = map fst m; target = map snd m
                in if length target < rc_min_matches c then Ret (False, s)
                   else if max_baseline source < rc_min_distance c then Ret (False, s)
                   else let t = computeSVD lib target source;
                            s = s\<lparr>ms_T_W_to_G := t, ms_T_G_to_W := se3_inverse t\<rparr>
                        in if \<not> rl_allFinite lib t then Ret (False, s) else Ret (True, s)))"

text \<open>What \<open>publish_frame_world\<close> records while the alignment is missing.\<close>

definition record_antenna ::
  "bool \<Rightarrow> real \<Rightarrow> vec3 \<Rightarrow> mat3 \<Rightarrow> vec3 \<Rightarrow> rtk_state \<Rightarrow> rtk_state" where
  "record_antenna rtk_enabled stamp pos rot lever s =
     (if rtk_enabled \<and> \<not> ms_rtk_ini s
      then case v3_add pos (m3_apply rot lever) of (x, y, z) \<Rightarrow>
           s\<lparr>ms_livo_state_buffer :=
               pop_while_longer 5000 (ms_livo_state_buffer s @ [[stamp, x, y, z]])\<rparr>
      else s)"

section \<open>Callbacks\<close>

text \<open>The common tail of the callbacks: queue a valid fix and try to align.\<close>

definition accept_fix ::
  "rtk_lib \<Rightarrow> rtk_config \<Rightarrow> bool \<Rightarrow> RTK \<Rightarrow> rtk_state \<Rightarrow> rtk_state exec" where
  "accept_fix lib c rtk_enabled fix s =
     (if rtk_enabled \<and> rtk_valid fix
      then let s = s\<lparr>ms_rtk_buffer := pop_while_longer 5000 (ms_rtk_buffer s @ [fix])\<rparr>
           in if ms_rtk_ini s then Ret s
              else bind_exec (InitializeRTK lib c s) (\<lambda>(ok, s).
                   Ret (if ok then s\<lparr>ms_rtk_ini := True\<rparr> else s))
      else Ret s)"

definition set_origin :: "vec3 \<Rightarrow> rtk_state \<Rightarrow> rtk_state" where
  "set_origin lla s =
     (if \<not> ms_origin_set s then s\<lparr>ms_origin_set := True, ms_origin := lla\<rparr> else s)"

definition pvt_lla :: "GnssPVTSolnMsg \<Rightarrow> vec3" where
  "pvt_lla msg = (dbl_val (pvt_latitude msg), dbl_val (pvt_longitude msg), dbl_val (pvt_altitude msg))"

text \<open>The fix of a PVT message; a field that is not finite reads as zero here.\<close>

definition pvt_fix :: "rtk_config \<Rightarrow> vec3 \<Rightarrow> GnssPVTSolnMsg \<Rightarrow> RTK" where
  "pvt_fix c p msg =
     (let h = dbl_val (dbl_max (pvt_h_acc msg) (Num (rc_min_h_std c)));
          v = dbl_val (dbl_max (pvt_v_acc msg) (Num (rc_min_v_std c)))
      in \<lparr>rtk_timestamp = gps_to_unix (pvt_week msg) (dbl_val (pvt_tow msg)) - rc_gps_time_offset c,
          rtk_p = p,
          rtk_v = (dbl_val (pvt_vel_e msg), dbl_val (pvt_vel_n msg), - dbl_val (pvt_vel_d msg)),
          rtk_position_cov = m3_diag (h * h) (h * h) (v * v),
          rtk_valid = (pvt_valid_fix msg \<and> pvt_diff_soln msg \<and> pvt_carr_soln msg = 2
                       \<and> isfinite (pvt_h_acc msg) \<and> isfinite (pvt_v_acc msg)
                       \<and> dbl_le (pvt_h_acc msg) (Num (rc_max_h_acc c))
                       \<and> dbl_le (pvt_v_acc msg) (Num (rc_max_v_acc c)))\<rparr>)"

definition rtk_cbk ::
  "rtk_lib \<Rightarrow> rtk_config \<Rightarrow> bool \<Rightarrow> GnssPVTSolnMsg \<Rightarrow> rtk_state \<Rightarrow> rtk_state exec" where
  "rtk_cbk lib c rtk_enabled msg s =
     (let s = set_origin (pvt_lla msg) s;
          p = rl_forward lib (ms_origin s) (pvt_lla msg)
      in accept_fix lib c rtk_enabled (pvt_fix c p msg) s)"

definition nsf_fix :: "rtk_config \<Rightarrow> vec3 \<Rightarrow> NavSatFix \<Rightarrow> RTK" where
  "nsf_fix c p msg =
     (let x = sqrt (dbl_val (dbl_max (nsf_cov0 msg) (Num (rc_min_h_std c * rc_min_h_std c))));
          y = sqrt (dbl_val (dbl_max (nsf_cov4 msg) (Num (rc_min_h_std c * rc_min_h_std c))));
          z = sqrt (dbl_val (dbl_max (nsf_cov8 msg) (Num (rc_min_v_std c * rc_min_v_std c))));
          finite = (\<lambda>d m. isfinite (dbl_max d (Num (m * m))))
      in \<lparr>rtk_timestamp = nsf_stamp msg - rc_gps_time_offset c, rtk_p = p, rtk_v = v3_zero,
          rtk_position_cov = m3_diag (x * x) (y * y) (z * z),
          rtk_valid = (finite (nsf_cov0 msg) (rc_min_h_std c) \<and> x \<le> rc_max_h_acc c
                       \<and> finite (nsf_cov4 msg) (rc_min_h_std c) \<and> y \<le> rc_max_h_acc c
                       \<and> finite (nsf_cov8 msg) (rc_min_v_std c) \<and> z \<le> rc_max_v_acc c)\<rparr>)"

definition navsatfix_cbk ::
  "rtk_lib \<Rightarrow> rtk_config \<Rightarrow> bool \<Rightarrow> NavSatFix \<Rightarrow> rtk_state \<Rightarrow> rtk_state exec" where
  "navsatfix_cbk lib c rtk_enabled msg s =
     (if nsf_status msg < STATUS_FIX \<or> \<not> isfinite (nsf_latitude msg)
         \<or> \<not> isfinite (nsf_longitude msg) \<or> \<not> isfinite (nsf_altitude msg)
      then Ret s
      else let lla = (dbl_val (nsf_latitude msg), dbl_val (nsf_longitude msg), dbl_val (nsf_altitude msg));
               s = set_origin lla s;
               p = rl_forward lib (ms_origin s) lla
           in accept_fix lib c rtk_enabled (nsf_fix c p msg) s)"

section \<open>Bringing a fix to the update epoch\<close>

definition GetRTKCorrectedState :: "se3 \<Rightarrow> EKF_STATE \<Rightarrow> 'img MeasureGroup \<Rightarrow> 'img MeasureGroup" where
  "GetRTKCorrectedState t flag m =
     (let rtk = m_rtk m
      in if \<not> rtk_valid rtk \<or> rtk_timestamp rtk \<le> 1 / 1000 then m
         else let r = fst t;
                  rtk = rtk\<lparr>rtk_p := se3_apply t (rtk_p rtk), rtk_v := m3_apply r (rtk_v rtk),
                            rtk_position_cov := m3_mult (m3_mult r (rtk_position_cov rtk)) (m3_transpose r)\<rparr>;
                  end_time = (if flag = LIO then m_lio_time m else m_vio_time m);
                  dt = end_time - rtk_timestamp rtk
              in if dt < - 1 / 1000 \<or> dt > 1 / 2 then m\<lparr>m_rtk := rtk\<lparr>rtk_valid := False\<rparr>\<rparr>
                 else let sd = 1 / 10 * \<bar>dt\<bar>
                      in m\<lparr>m_rtk := rtk\<lparr>rtk_p := v3_add (rtk_p rtk) (v3_scale dt (rtk_v rtk)),
                            rtk_position_cov := m3_add (rtk_position_cov rtk) (m3_diag (sd * sd) (sd * sd) (sd * sd)),
                            rtk_timestamp := end_time\<rparr>\<rparr>)"

section \<open>Facts\<close>

lemma skip_old_result:
  "\<forall>x \<in> set poses. x \<noteq> [] \<Longrightarrow> skip_old limit poses = Ret (dropWhile (\<lambda>x. hd x < limit) poses)"
proof (induction limit poses rule: skip_old.induct)
  case (2 limit x xs)
  then show ?case by (cases x) (auto simp: front_of_def)
qed simp

text \<open>Every pair the matching loop adds is a fix and a recorded pose closer than the threshold.\<close>

definition matched_pair :: "real \<Rightarrow> RTK list \<Rightarrow> real list list \<Rightarrow> vec3 \<times> vec3 \<Rightarrow> bool" where
  "matched_pair threshold fixes poses pr =
     (\<exists>r \<in> set fixes. \<exists>p \<in> set poses. \<bar>hd p - rtk_timestamp r\<bar> < threshold \<and> 4 \<le> length p
        \<and> pr = ((p ! 1, p ! 2, p ! 3), rtk_p r))"

lemma nearest_pose_result:
  assumes "poses \<noteq> []" and "\<forall>x \<in> set poses. x \<noteq> []"
  obtains best where "nearest_pose t poses = Ret (best, \<bar>hd best - t\<bar>)" "best \<in> set poses"
proof (cases "(t, poses)" rule: nearest_pose.cases)
  case (2 t' p)
  with assms that [of p] show thesis by (cases p) (auto simp: front_of_def)
next
  case (3 t' p p2 rest)
  define b where "b = (if \<bar>hd p2 - t\<bar> < \<bar>hd p - t\<bar> then p2 else p)"
  have "nearest_pose t poses = Ret (b, \<bar>hd b - t\<bar>)" "b \<in> set poses"
    using 3 assms by (cases p; cases p2; auto simp: front_of_def b_def)+
  then show thesis by (rule that)
qed (use assms in auto)

lemma match_loop_step:
  assumes "\<forall>x \<in> set poses. x \<noteq> []"
    and "dropWhile (\<lambda>x. hd x < rtk_timestamp r - threshold) poses = ps" and "ps \<noteq> []"
    and "nearest_pose (rtk_timestamp r) ps = Ret (best, d)"
  shows "match_loop threshold (r # rs) poses acc = match_loop threshold rs ps
           (if d < threshold \<and> \<not> length best < 4
            then acc @ [((best ! 1, best ! 2, best ! 3), rtk_p r)] else acc)"
  using skip_old_result [OF assms(1), of "rtk_timestamp r - threshold"] assms(2-4)
  by (simp del: One_nat_def)

lemma match_loop_sound:
  "match_loop threshold rs poses acc = Ret m \<Longrightarrow> \<forall>x \<in> set poses. x \<noteq> [] \<Longrightarrow>
   \<exists>new. m = acc @ new \<and> length new \<le> length rs \<and> (\<forall>pr \<in> set new. matched_pair threshold rs poses pr)"
proof (induction rs arbitrary: poses acc)
  case Nil
  then show ?case by simp
next
  case (Cons r rs)
  let ?poses = "dropWhile (\<lambda>x. hd x < rtk_timestamp r - threshold) poses"
  have skip: "skip_old (rtk_timestamp r - threshold) poses = Ret ?poses"
    by (rule skip_old_result [OF Cons.prems(2)])
  have sub: "set ?poses \<subseteq> set poses" by (auto dest: set_dropWhileD)
  have ne: "\<forall>x \<in> set ?poses. x \<noteq> []" using sub Cons.prems(2) by blast
  show ?case
  proof (cases "?poses = []")
    case True
    with Cons.prems(1) skip show ?thesis by simp
  next
    case False
    obtain best where best: "nearest_pose (rtk_timestamp r) ?poses = Ret (best, \<bar>hd best - rtk_timestamp r\<bar>)"
      "best \<in> set ?poses" by (rule nearest_pose_result [OF False ne])
    let ?ok = "\<bar>hd best - rtk_timestamp r\<bar> < threshold \<and> \<not> length best < 4"
    let ?pr = "((best ! 1, best ! 2, best ! 3), rtk_p r)"
    let ?acc = "if ?ok then acc @ [?pr] else acc"
    have "match_loop threshold rs ?poses ?acc = Ret m"
      using Cons.prems(1) match_loop_step [OF Cons.prems(2) refl False best(1)] by simp
    from Cons.IH [OF this ne] obtain new where new: "m = ?acc @ new" "length new \<le> length rs"
      "\<forall>pr \<in> set new. matched_pair threshold rs ?poses pr" by blast
    have rest: "matched_pair threshold (r # rs) poses pr" if "pr \<in> set new" for pr
      using new(3) that sub unfolding matched_pair_def by (meson list.set_intros(2) subsetD)
    show ?thesis
    proof (cases ?ok)
      case True
      then have "matched_pair threshold (r # rs) poses ?pr"
        using best(2) sub unfolding matched_pair_def by (intro bexI [of _ r] bexI [of _ best]) auto
      with True new rest show ?thesis by (intro exI [of _ "?pr # new"]) auto
    next
      case False
      with new rest show ?thesis by (intro exI [of _ new]) auto
    qed
  qed
qed

lemma match_loop_defined:
  "\<forall>x \<in> set poses. x \<noteq> [] \<Longrightarrow> \<exists>m. match_loop threshold rs poses acc = Ret m"
proof (induction rs arbitrary: poses acc)
  case (Cons r rs)
  let ?poses = "dropWhile (\<lambda>x. hd x < rtk_timestamp r - threshold) poses"
  have ne: "\<forall>x \<in> set ?poses. x \<noteq> []" using Cons.prems by (auto dest: set_dropWhileD)
  show ?case
  proof (cases "?poses = []")
    case False
    then obtain best d where "nearest_pose (rtk_timestamp r) ?poses = Ret (best, d)"
      using nearest_pose_result [OF False ne] by metis
    then show ?thesis using Cons.IH [OF ne] match_loop_step [OF Cons.prems refl False] by simp
  qed (use skip_old_result [OF Cons.prems] in simp)
qed simp

section \<open>Invariant\<close>

definition rtk_state_inv :: "rtk_state \<Rightarrow> bool" where
  "rtk_state_inv s =
     (length (ms_rtk_buffer s) \<le> 5000 \<and> length (ms_livo_state_buffer s) \<le> 5000
      \<and> (\<forall>x \<in> set (ms_livo_state_buffer s). length x = 4)
      \<and> (\<forall>r \<in> set (ms_rtk_buffer s). rtk_valid r))"

lemma rtk_state_inv_frame [simp]:
  "rtk_state_inv (s\<lparr>ms_T_W_to_G := t\<rparr>) = rtk_state_inv s"
  "rtk_state_inv (s\<lparr>ms_T_G_to_W := t\<rparr>) = rtk_state_inv s"
  "rtk_state_inv (s\<lparr>ms_rtk_ini := b\<rparr>) = rtk_state_inv s"
  "rtk_state_inv (set_origin lla s) = rtk_state_inv s"
  by (simp_all add: rtk_state_inv_def set_origin_def)

lemma rtk_state_inv_record [inv_intros]:
  "rtk_state_inv s \<Longrightarrow> rtk_state_inv (record_antenna en stamp pos rot lever s)"
  using set_drop_subset [of "length (ms_livo_state_buffer s) + 1 - 5000"]
  by (auto simp: rtk_state_inv_def record_antenna_def pop_while_longer_eq split: prod.split
      dest: in_set_dropD)

lemma InitializeRTK_inv:
  assumes "rtk_state_inv s"
  obtains ok s' where "InitializeRTK lib c s = Ret (ok, s')" "rtk_state_inv s'"
    "ms_rtk_buffer s' = ms_rtk_buffer s" "ms_livo_state_buffer s' = ms_livo_state_buffer s"
    "ms_rtk_ini s' = ms_rtk_ini s"
proof -
  have "\<forall>x \<in> set (ms_livo_state_buffer s). x \<noteq> []"
    using assms by (auto simp: rtk_state_inv_def)
  from match_loop_defined [OF this] obtain m where
    "match_loop (rc_sync_threshold c) (ms_rtk_buffer s) (ms_livo_state_buffer s) [] = Ret m" by blast
  then have "\<exists>ok s'. InitializeRTK lib c s = Ret (ok, s') \<and> rtk_state_inv s'
      \<and> ms_rtk_buffer s' = ms_rtk_buffer s \<and> ms_livo_state_buffer s' = ms_livo_state_buffer s
      \<and> ms_rtk_ini s' = ms_rtk_ini s"
    using assms by (auto simp: InitializeRTK_def Let_def)
  with that show thesis by blast
qed

lemma accept_fix_inv:
  assumes "rtk_state_inv s"
  shows "\<exists>s'. accept_fix lib c en fix s = Ret s' \<and> rtk_state_inv s'"
proof (cases "en \<and> rtk_valid fix")
  case False
  with assms show ?thesis by (auto simp: accept_fix_def)
next
  case True
  let ?s = "s\<lparr>ms_rtk_buffer := pop_while_longer 5000 (ms_rtk_buffer s @ [fix])\<rparr>"
  have inv: "rtk_state_inv ?s"
    using assms True set_drop_subset [of "length (ms_rtk_buffer s) + 1 - 5000" "ms_rtk_buffer s @ [fix]"]
    by (auto simp: rtk_state_inv_def pop_while_longer_eq simp del: drop_append dest!: in_set_dropD)
  obtain ok s' where "InitializeRTK lib c ?s = Ret (ok, s')" "rtk_state_inv s'"
    using InitializeRTK_inv [OF inv] by metis
  with inv True show ?thesis by (auto simp: accept_fix_def Let_def)
qed

text \<open>Every RTK message, PVT or NavSatFix, valid or not, is processed without running off
  a buffer: the callback returns, keeps at most 5000 fixes, all of them valid, and at most 5000
  recorded antenna positions.\<close>

theorem rtk_callbacks_bounded:
  assumes "rtk_state_inv s"
  shows "(\<exists>s'. rtk_cbk lib c en pvt s = Ret s' \<and> rtk_state_inv s')
       \<and> (\<exists>s'. navsatfix_cbk lib c en nsf s = Ret s' \<and> rtk_state_inv s')"
  using assms by (auto simp: rtk_cbk_def navsatfix_cbk_def Let_def intro: accept_fix_inv)

text \<open>C40: Fusion is only enabled on evidence: when a fix turns the flag \<open>rtk_ini\<close> on, there are
  at least \<open>min_matches\<close> pairs of a buffered fix and a recorded antenna position less than the
  threshold apart in time, their LIVO side spans at least the required baseline, and the transform
  in use is the one computed from exactly these pairs.\<close>

theorem rtk_init_needs_evidence:
  assumes "rtk_state_inv s" and "\<not> ms_rtk_ini s"
    and "accept_fix lib c en fix s = Ret s'" and "ms_rtk_ini s'"
  shows "\<exists>m. rc_min_matches c \<le> length m
          \<and> (\<forall>pr \<in> set m. matched_pair (rc_sync_threshold c) (ms_rtk_buffer s') (ms_livo_state_buffer s') pr)
          \<and> rc_min_distance c \<le> max_baseline (map fst m)
          \<and> ms_T_W_to_G s' = computeSVD lib (map snd m) (map fst m)
          \<and> ms_T_G_to_W s' = se3_inverse (ms_T_W_to_G s')"
proof -
  let ?s = "s\<lparr>ms_rtk_buffer := pop_while_longer 5000 (ms_rtk_buffer s @ [fix])\<rparr>"
  have "en \<and> rtk_valid fix" using assms(2-4) by (auto simp: accept_fix_def split: if_splits)
  with assms obtain z where z: "InitializeRTK lib c ?s = Ret (True, z)" "s' = z\<lparr>ms_rtk_ini := True\<rparr>"
    by (auto simp: accept_fix_def Let_def bind_exec_Ret_iff split: if_splits)
       (auto simp: InitializeRTK_def Let_def bind_exec_Ret_iff split: if_splits)
  have ne: "\<forall>x \<in> set (ms_livo_state_buffer s). x \<noteq> []"
    using assms(1) by (auto simp: rtk_state_inv_def)
  from z(1) obtain m where
    m: "match_loop (rc_sync_threshold c) (ms_rtk_buffer ?s) (ms_livo_state_buffer s) [] = Ret m"
    "rc_min_matches c \<le> length m" "rc_min_distance c \<le> max_baseline (map fst m)"
    "z = ?s\<lparr>ms_T_W_to_G := computeSVD lib (map snd m) (map fst m),
            ms_T_G_to_W := se3_inverse (computeSVD lib (map snd m) (map fst m))\<rparr>"
    by (auto simp: InitializeRTK_def Let_def bind_exec_Ret_iff split: if_splits)
  from match_loop_sound [OF m(1) ne] m(2-4) z(2) show ?thesis by (intro exI [of _ m]) auto
qed

text \<open>A valid fix is brought to the epoch of the update: it stays valid exactly when it is
  no more than 1 ms in the future and 0.5 s in the past, and then carries the update's time, the
  position extrapolated with the receiver's velocity, and a covariance that gives every direction the
  variance the original covariance gave the direction rotated back, plus the extrapolation
  variance: the extrapolated fix is never more confident than the measured one.\<close>

theorem corrected_fix_epoch:
  fixes flag :: EKF_STATE and r :: mat3 and t :: vec3 and m :: "'img MeasureGroup"
  assumes "rtk_valid (m_rtk m)" and "1 / 1000 < rtk_timestamp (m_rtk m)"
  defines "t_end \<equiv> if flag = LIO then m_lio_time m else m_vio_time m"
  defines "dt \<equiv> t_end - rtk_timestamp (m_rtk m)"
  defines "fix \<equiv> m_rtk (GetRTKCorrectedState (r, t) flag m)"
  shows "(rtk_valid fix \<longleftrightarrow> - 1 / 1000 \<le> dt \<and> dt \<le> 1 / 2)
       \<and> (rtk_valid fix \<longrightarrow>
            rtk_timestamp fix = t_end
            \<and> rtk_p fix = v3_add (se3_apply (r, t) (rtk_p (m_rtk m))) (v3_scale dt (m3_apply r (rtk_v (m_rtk m))))
            \<and> (\<forall>v. m3_quad (rtk_position_cov fix) v =
                   m3_quad (rtk_position_cov (m_rtk m)) (m3_apply (m3_transpose r) v)
                   + (dt / 10)\<^sup>2 * v3_dot v v))"
proof -
  have diag: "m3_quad (m3_diag k k k) v = k * v3_dot v v" for k v
    by (cases v) (simp add: m3_diag_def algebra_simps)
  have sq: "(1 / 10 * \<bar>x\<bar>) * (1 / 10 * \<bar>x\<bar>) = (x / 10)\<^sup>2" for x :: real
    by (simp add: power2_eq_square field_simps)
  let ?c = "m3_mult (m3_mult r (rtk_position_cov (m_rtk m))) (m3_transpose r)"
  have "m3_quad (m3_add ?c (m3_diag (sd * sd) (sd * sd) (sd * sd))) v =
      m3_quad (rtk_position_cov (m_rtk m)) (m3_apply (m3_transpose r) v) + (dt / 10)\<^sup>2 * v3_dot v v"
    if "sd = 1 / 10 * \<bar>dt\<bar>" for sd v
    unfolding m3_quad_add diag that sq m3_quad_conj ..
  note quad = this [OF refl]
  have "GetRTKCorrectedState (r, t) flag m =
      (let rtk = (m_rtk m)\<lparr>rtk_p := se3_apply (r, t) (rtk_p (m_rtk m)),
                          rtk_v := m3_apply r (rtk_v (m_rtk m)), rtk_position_cov := ?c\<rparr>;
           sd = 1 / 10 * \<bar>dt\<bar>
       in if dt < - 1 / 1000 \<or> dt > 1 / 2 then m\<lparr>m_rtk := rtk\<lparr>rtk_valid := False\<rparr>\<rparr>
          else m\<lparr>m_rtk := rtk\<lparr>rtk_p := v3_add (rtk_p rtk) (v3_scale dt (rtk_v rtk)),
                 rtk_position_cov := m3_add ?c (m3_diag (sd * sd) (sd * sd) (sd * sd)),
                 rtk_timestamp := t_end\<rparr>\<rparr>)"
    using assms(1,2) unfolding GetRTKCorrectedState_def Let_def dt_def t_end_def by simp
  then show ?thesis
    using assms(1) quad unfolding fix_def Let_def by (simp add: not_less del: m3_quad.simps)
qed

section \<open>A concrete alignment\<close>

definition ex_rtk_lib :: rtk_lib where
  "ex_rtk_lib = \<lparr>rl_forward = (\<lambda>org lla. v3_sub lla org), rl_svd = (\<lambda>_. (m3_one, m3_one)),
                 rl_allFinite = (\<lambda>_. True)\<rparr>"

definition ex_rtk_config :: rtk_config where
  "ex_rtk_config = \<lparr>rc_gps_time_offset = 0, rc_min_h_std = 2 / 100, rc_min_v_std = 5 / 100,
     rc_max_h_acc = 1 / 2, rc_max_v_acc = 1, rc_sync_threshold = 5 / 100, rc_min_distance = 5,
     rc_min_matches = 2\<rparr>"

definition ex_fix :: "real \<Rightarrow> real \<Rightarrow> RTK" where
  "ex_fix t x = new_RTK\<lparr>rtk_timestamp := t, rtk_p := (x, 0, 0), rtk_valid := True\<rparr>"

definition ex_rtk_state :: rtk_state where
  "ex_rtk_state = \<lparr>ms_origin_set = True, ms_origin = v3_zero, ms_rtk_buffer = [ex_fix 10 0],
     ms_rtk_ini = False, ms_livo_state_buffer = [[10, 0, 0, 0], [11, 10, 0, 0]],
     ms_T_W_to_G = (m3_one, v3_zero), ms_T_G_to_W = (m3_one, v3_zero)\<rparr>"

lemma ex_rtk_inv: "rtk_state_inv ex_rtk_state"
  by (simp add: rtk_state_inv_def ex_rtk_state_def ex_fix_def)

theorem rtk_callbacks_bounded_witness:
  "\<exists>s'. navsatfix_cbk ex_rtk_lib ex_rtk_config True \<lparr>nsf_stamp = 11, nsf_status = 0, nsf_latitude = Num 1,
      nsf_longitude = NaN, nsf_altitude = Num 0, nsf_cov0 = Num 1, nsf_cov4 = Num 1, nsf_cov8 = Num 1\<rparr>
      ex_rtk_state = Ret s' \<and> rtk_state_inv s'"
  using rtk_callbacks_bounded [OF ex_rtk_inv] by blast

lemma ex_align:
  "\<exists>s'. accept_fix ex_rtk_lib ex_rtk_config True (ex_fix 11 10) ex_rtk_state = Ret s' \<and> ms_rtk_ini s'"
  by (simp add: accept_fix_def Let_def pop_while_longer_eq InitializeRTK_def ex_rtk_state_def ex_fix_def
      new_RTK_def ex_rtk_config_def front_of_def max_baseline_def v3_norm_def ex_rtk_lib_def
      real_sqrt_mult)

theorem rtk_init_needs_evidence_witness:
  "\<exists>s' (m :: (vec3 \<times> vec3) list). accept_fix ex_rtk_lib ex_rtk_config True (ex_fix 11 10) ex_rtk_state = Ret s'
     \<and> 2 \<le> length m \<and> 5 \<le> max_baseline (map fst m)"
proof -
  obtain s' where s': "accept_fix ex_rtk_lib ex_rtk_config True (ex_fix 11 10) ex_rtk_state = Ret s'"
    "ms_rtk_ini s'" using ex_align by blast
  have "\<not> ms_rtk_ini ex_rtk_state" by (simp add: ex_rtk_state_def)
  from rtk_init_needs_evidence [OF ex_rtk_inv this s'] obtain m :: "(vec3 \<times> vec3) list" where
    "rc_min_matches ex_rtk_config \<le> length m" "rc_min_distance ex_rtk_config \<le> max_baseline (map fst m)"
    by blast
  then have "2 \<le> length m" "5 \<le> max_baseline (map fst m)" by (simp_all add: ex_rtk_config_def)
  with s'(1) show ?thesis by blast
qed

theorem corrected_fix_epoch_witness:
  "rtk_valid (m_rtk (GetRTKCorrectedState (m3_one, v3_zero) LIO
     (new_MeasureGroup\<lparr>m_lio_time := 10 + 1 / 10, m_rtk := ex_fix 10 3\<rparr>)))"
proof -
  let ?m = "new_MeasureGroup\<lparr>m_lio_time := 10 + 1 / 10, m_rtk := ex_fix 10 3\<rparr>"
  have v: "rtk_valid (m_rtk ?m)" "1 / 1000 < rtk_timestamp (m_rtk ?m)" by (simp_all add: ex_fix_def)
  show ?thesis
    using corrected_fix_epoch [OF v, of m3_one v3_zero LIO, THEN conjunct1] by (simp add: ex_fix_def)
qed

end
