(* ===== verification/Gnss_Chain.thy ===== *)
theory Gnss_Chain
  imports Gnss_Adapter Rtk_Graph Livo_Rtk
begin

text \<open>
  Properties of the GNSS chain that span the receiver's adapter and its two consumers: which of the
  receiver's solutions reach the back end and the mapper.
\<close>

text \<open>C10: A fixed solution of the receiver reaches the back end and keeps its meaning: when the
  accuracies pass the gate, the measurement has the receiver's time in Unix seconds, its ENU velocity,
  and, if both antennas fix the heading, the mathematical yaw of the receiver's clockwise
  heading.\<close>

theorem fixed_solution_reaches_backend:
  assumes "hc_stat msg ! 1 \<in> {4, 8}" and "hc_week msg \<noteq> 0"
    and "hc_second msg = Num tow" and "0 \<le> tow" and "tow < 604800"
    and "hc_latitude msg = Num lat" and "\<bar>lat\<bar> \<le> 90" and "hc_longitude msg = Num lon" and "\<bar>lon\<bar> \<le> 180"
    and "hc_altitude msg = Num alt" and "hc_position_stdev msg = (Num p0, Num p1, Num p2)"
    and "0 < p0" "0 < p1" "max p0 p1 \<le> bc_rtk_max_horizontal_std (be_config b)"
    and "0 < p2" and "p2 \<le> bc_rtk_max_vertical_std (be_config b)"
    and "hc_enu_velocity msg = (Num ve, Num vn, Num vu)"
    and "hc_heading2 msg = Num heading"
  shows "\<exists>out m. adapter_callback accept_float msg n = (Some out, n)
    \<and> gpsHandler lib out b = be_enqueue m (b\<lparr>be_enu_origin := Some (be_origin (lat, lon, alt) b)\<rparr>)
    \<and> ob_time m = gps_to_unix (hc_week msg) tow - bc_gps_time_offset (be_config b)
    \<and> ob_velocity m = (ve, vn, vu)
    \<and> (ob_heading_valid m \<longrightarrow> hc_stat msg ! 1 = 4 \<and> 0 \<le> heading \<and> heading \<le> 360
         \<and> ob_heading m = degrees_to_radians * (90 - heading))"
proof -
  let ?out = "chcnav_to_pvt True (hc_stat msg ! 1) msg"
  have h: "pvt_h_acc ?out = Num (max p0 p1)" "pvt_v_acc ?out = Num p2"
    "pvt_vel_e ?out = Num ve" "pvt_vel_n ?out = Num vn" "pvt_vel_d ?out = Num (- vu)"
    using assms(11,17) by (simp_all add: chcnav_to_pvt_def dbl_max_def max_def split: prod.splits)
  have head: "pvt_heading ?out = Num (degrees_to_radians * (90 - heading))"
    "pvt_heading_valid ?out \<longrightarrow> hc_stat msg ! 1 = 4 \<and> 0 \<le> heading \<and> heading \<le> 360"
    using assms(18) by (auto simp: pvt_heading_eq dbl_sub_def dbl_le_def)
  have gate: "gps_gate (be_config b) ?out"
    using assms h by (simp add: gps_gate_def not_less)
  have call: "adapter_callback accept_float msg n = (Some ?out, n)"
    using assms(1-3,6,8) by (auto simp: adapter_callback_def Let_def)
  let ?m = "gps_measurement (be_config b) (bl_forward lib (be_origin (lat, lon, alt) b) (lat, lon, alt)) ?out"
  have "gpsHandler lib ?out b = be_enqueue ?m (b\<lparr>be_enu_origin := Some (be_origin (lat, lon, alt) b)\<rparr>)"
    using gate assms(6,8,10) by (simp add: gpsHandler_def Let_def)
  moreover have "ob_time ?m = gps_to_unix (hc_week msg) tow - bc_gps_time_offset (be_config b)"
    using assms(3) by (simp add: gps_measurement_def Let_def ob_time_def)
  moreover have "ob_velocity ?m = (ve, vn, vu)" using h by (simp add: gps_measurement_def Let_def)
  moreover have "ob_heading_valid ?m \<longrightarrow> hc_stat msg ! 1 = 4 \<and> 0 \<le> heading \<and> heading \<le> 360
      \<and> ob_heading ?m = degrees_to_radians * (90 - heading)"
    using head by (simp add: gps_measurement_def Let_def)
  ultimately show ?thesis using call by blast
qed

text \<open>The adapter's parameter \<open>accept_float\<close> has no effect downstream: a float solution
  that the adapter lets through is dropped by the back end's gate and never valid in the mapper,
  whatever its accuracy.\<close>

theorem float_solution_never_used:
  assumes "hc_stat msg ! 1 \<in> {5, 9}" and "adapter_callback accept_float msg n = (Some out, n')"
  shows "accept_float \<and> pvt_carr_soln out = 1 \<and> gpsHandler lib out b = b \<and> \<not> rtk_valid (pvt_fix c p out)"
proof -
  note out = adapter_callback_Some [OF assms(2)]
  have "pvt_carr_soln out = 1" using assms(1) out(1) by auto
  moreover have "accept_float" using out(2) assms(1) by auto
  ultimately show ?thesis by (simp add: gpsHandler_def gps_gate_def pvt_fix_def Let_def)
qed

definition ex_hc :: "nat \<Rightarrow> Hcinspvatzcb" where
  "ex_hc st = \<lparr>hc_week = 2300, hc_second = Num 1000, hc_stat = [0, st], hc_latitude = Num 30,
     hc_longitude = Num 120, hc_altitude = Num 10, hc_undulation = Num 0,
     hc_position_stdev = (Num (1 / 50), Num (1 / 50), Num (1 / 20)),
     hc_enu_velocity = (Num 1, Num 2, Num 3), hc_enu_velocity_stdev = (Num 1, Num 1, Num 1),
     hc_euler_stdev2 = Num 1, hc_heading2 = Num 45, hc_pdop = Num 1, hc_ns = 20\<rparr>"

theorem fixed_solution_reaches_backend_witness:
  "\<exists>out m b'. adapter_callback False (ex_hc 4) 0 = (Some out, 0)
     \<and> gpsHandler ex_backend_lib out ex_start_backend = be_enqueue m b' \<and> ob_velocity m = (1, 2, 3)"
proof -
  have c: "be_config ex_start_backend = ex_backend_config" by (simp add: ex_start_backend_def)
  from fixed_solution_reaches_backend [of "ex_hc 4" 1000 30 120 10 "1 / 50" "1 / 50" "1 / 20" ex_start_backend 1 2 3 45 False 0 ex_backend_lib]
  show ?thesis by (simp add: ex_hc_def c ex_backend_config_def) blast
qed

theorem float_solution_never_used_witness:
  "\<exists>out. adapter_callback True (ex_hc 5) 0 = (Some out, 0)
     \<and> gpsHandler ex_backend_lib out ex_start_backend = ex_start_backend"
proof -
  have st: "hc_stat (ex_hc 5) ! 1 \<in> {5, 9}" by (simp add: ex_hc_def)
  obtain out where "adapter_callback True (ex_hc 5) 0 = (Some out, 0)"
    by (simp add: adapter_callback_def ex_hc_def Let_def)
  with float_solution_never_used [OF st this] show ?thesis by blast
qed

end
