(* ===== verification/Feature_Extract.thy ===== *)
theory Feature_Extract
  imports Livo_Sync "HOL-Library.Multiset"
begin

text \<open>
  The feature extraction of \<^verbatim>\<open>fast_livo/src/preprocess.cpp\<close>: \<open>give_feature\<close> classifies the points of one
  scan line as planes, edges and wires, with its helpers \<open>plane_judge\<close> and \<open>edge_jump_judge\<close>, and hands
  out the surface and corner points. The constants are those of the constructor; \<open>disB\<close>, which the
  constructor never sets, and the members that \<open>orgtype()\<close> leaves indeterminate are arguments.
  A line and its \<open>types\<close> have the same length, as in all callers; an access past them is \<open>Undef\<close>.
\<close>

section \<open>Data\<close>

datatype LiDARFeature = Nor | Poss_Plane | Real_Plane | Edge_Jump | Edge_Plane | Wire | ZeroPoint
datatype E_jump = Nr_nor | Nr_zero | Nr_180 | Nr_inf | Nr_blind
datatype Surround = Prev | Next

record orgtype =
  og_range :: real
  og_dista :: real
  og_intersect :: dbl
  og_edj_prev :: E_jump
  og_edj_next :: E_jump
  og_ftype :: LiDARFeature

text \<open>Configuration first, then the indeterminate values: \<open>pr_disB\<close>, the \<open>dista\<close> of the last point of
  a line, and the \<open>intersect\<close> computed from an uninitialised vector when a neighbour is blind.\<close>

record Preprocess =
  pr_feature_enabled :: bool
  pr_lidar_type :: nat
  pr_N_SCANS :: nat
  pr_blind_sqr :: real
  pr_point_filter_num :: nat
  pr_disB :: real
  pr_dista_indet :: real
  pr_intersect_indet :: dbl

definition AVIA :: nat where "AVIA = 1"
definition VELO16 :: nat where "VELO16 = 2"
definition OUST64 :: nat where "OUST64 = 3"
definition L515 :: nat where "L515 = 4"
definition XT32 :: nat where "XT32 = 5"
definition PANDAR128 :: nat where "PANDAR128 = 6"
definition ROBOSENSE :: nat where "ROBOSENSE = 7"

definition pr_group_size :: nat where "pr_group_size = 8"
definition pr_disA :: real where "pr_disA = 1 / 10"
definition pr_inf_bound :: real where "pr_inf_bound = 10"
definition pr_p2l_ratio :: real where "pr_p2l_ratio = 225"
definition pr_limit_maxmid :: real where "pr_limit_maxmid = 625 / 100"
definition pr_limit_midmin :: real where "pr_limit_midmin = 625 / 100"
definition pr_limit_maxmin :: real where "pr_limit_maxmin = 324 / 100"
definition pr_jump_up_limit :: real where "pr_jump_up_limit = cos (170 / 180 * pi)"
definition pr_jump_down_limit :: real where "pr_jump_down_limit = cos (8 / 180 * pi)"
definition pr_cos160 :: real where "pr_cos160 = cos (160 / 180 * pi)"
definition pr_edgea :: real where "pr_edgea = 2"
definition pr_edgeb :: real where "pr_edgeb = 1 / 10"
definition pr_smallp_intersect :: real where "pr_smallp_intersect = cos (1725 / 10 / 180 * pi)"
definition pr_smallp_ratio :: real where "pr_smallp_ratio = 12 / 10"

text \<open>\<open>ftype >= Real_Plane\<close>: the enumerators in their order.\<close>

fun at_least_Real_Plane :: "LiDARFeature \<Rightarrow> bool" where
  "at_least_Real_Plane Nor = False"
| "at_least_Real_Plane Poss_Plane = False"
| "at_least_Real_Plane _ = True"

text \<open>The \<open>types\<close> of a line as every handler fills them: \<open>avia_handler\<close> stores the squared horizontal
  range, the others its root. \<open>dista\<close> of the last point stays indeterminate.\<close>

fun xy_sq :: "vec3 \<Rightarrow> real" where "xy_sq (x, y, z) = x * x + y * y"

definition new_orgtype :: "real \<Rightarrow> real \<Rightarrow> orgtype" where
  "new_orgtype rng dista = \<lparr>og_range = rng, og_dista = dista, og_intersect = Num 2,
     og_edj_prev = Nr_nor, og_edj_next = Nr_nor, og_ftype = Nor\<rparr>"

fun line_types :: "bool \<Rightarrow> real \<Rightarrow> LPoint list \<Rightarrow> orgtype list" where
  "line_types sqrt_range indet [] = []"
| "line_types sqrt_range indet [p] = [new_orgtype (if sqrt_range then sqrt (xy_sq (lp_xyz p)) else xy_sq (lp_xyz p)) indet]"
| "line_types sqrt_range indet (p # q # ps) =
     new_orgtype (if sqrt_range then sqrt (xy_sq (lp_xyz p)) else xy_sq (lp_xyz p))
       (sq_norm (v3_sub (lp_xyz p) (lp_xyz q)))
     # line_types sqrt_range indet (q # ps)"

section \<open>Planes\<close>

text \<open>The first loop of \<open>plane_judge\<close>. \<open>Inl i\<close>: a blind point at \<open>i\<close> ends the search with 2.\<close>

fun judge_group :: "real \<Rightarrow> orgtype list \<Rightarrow> nat \<Rightarrow> nat \<Rightarrow> real list \<Rightarrow> (nat + nat \<times> real list) exec" where
  "judge_group blind_sqr types i 0 disarr = Ret (Inr (i, disarr))"
| "judge_group blind_sqr types i (Suc k) disarr =
     (if i \<ge> length types then Undef
      else if og_range (types ! i) < blind_sqr then Ret (Inl i)
      else judge_group blind_sqr types (i + 1) k (disarr @ [og_dista (types ! i)]))"

text \<open>The second loop: the run grows while its points stay within \<open>group_dis\<close> of the first. The vector
  is the members \<open>vx, vy, vz\<close>, which keep their old value when the loop ends at once; \<open>two_dis\<close> is
  uninitialised then.\<close>

function judge_extend ::
  "real \<Rightarrow> LPoint list \<Rightarrow> orgtype list \<Rightarrow> nat \<Rightarrow> real \<Rightarrow> nat \<Rightarrow> vec3 \<Rightarrow> real option \<Rightarrow> real list \<Rightarrow>
   bool \<times> nat \<times> vec3 \<times> real option \<times> real list" where
  "judge_extend blind_sqr pl types i_cur group_dis i_nex v two_dis disarr =
     (if i_cur \<ge> length pl \<or> i_nex \<ge> length pl then (False, i_nex, v, two_dis, disarr)
      else if og_range (types ! i_nex) < blind_sqr then (True, i_nex, v, two_dis, disarr)
      else let v' = v3_sub (lp_xyz (pl ! i_nex)) (lp_xyz (pl ! i_cur)); d = sq_norm v'
           in if d \<ge> group_dis then (False, i_nex, v', Some d, disarr)
              else judge_extend blind_sqr pl types i_cur group_dis (i_nex + 1) v' (Some d)
                     (disarr @ [og_dista (types ! i_nex)]))"
  by pat_completeness auto
termination
  by (relation "measure (\<lambda>(_, pl, _, _, _, i_nex, _). length pl - i_nex)") auto

declare judge_extend.simps [simp del]

text \<open>The widest deviation from the run's direction.\<close>

fun judge_width :: "LPoint list \<Rightarrow> nat \<Rightarrow> vec3 \<Rightarrow> nat list \<Rightarrow> real \<Rightarrow> real" where
  "judge_width pl i_cur v [] leng_wid = leng_wid"
| "judge_width pl i_cur v (j # js) leng_wid =
     (if j \<ge> length pl \<or> i_cur \<ge> length pl then leng_wid
      else let lw = sq_norm (v3_cross (v3_sub (lp_xyz (pl ! j)) (lp_xyz (pl ! i_cur))) v)
           in judge_width pl i_cur v js (if lw > leng_wid then lw else leng_wid))"

text \<open>The exchange sort: for each position \<open>j\<close> a sweep over the later ones swaps whenever the entry
  there is greater.\<close>

fun sweep :: "real \<Rightarrow> real list \<Rightarrow> real \<times> real list" where
  "sweep x [] = (x, [])"
| "sweep x (k # ks) =
     (if x < k then (fst (sweep k ks), x # snd (sweep k ks))
      else (fst (sweep x ks), k # snd (sweep x ks)))"

lemma length_sweep: "length (snd (sweep x ks)) = length ks"
  by (induction ks arbitrary: x) auto

function exchange_sort :: "real list \<Rightarrow> real list" where
  "exchange_sort [] = []"
| "exchange_sort (x # xs) = fst (sweep x xs) # exchange_sort (snd (sweep x xs))"
  by pat_completeness auto
termination by (relation "measure length") (auto simp: length_sweep)

text \<open>The tests of a run that has stopped at \<open>i_nex\<close>: the result, \<open>curr_direct\<close>. Dividing by a zero width
  gives an infinity or a \<open>NaN\<close>, neither less than the ratio.\<close>

definition judge_run ::
  "Preprocess \<Rightarrow> LPoint list \<Rightarrow> nat \<Rightarrow> nat \<Rightarrow> vec3 \<Rightarrow> real option \<Rightarrow> real list \<Rightarrow> (nat \<times> vec3) exec" where
  "judge_run pr pl i_cur i_nex v two_dis disarr =
     (case two_dis of
        None \<Rightarrow> Undef
      | Some d \<Rightarrow>
          (let leng_wid = judge_width pl i_cur v [i_cur + 1..<i_nex] 0;
               ds = exchange_sort disarr; n = length ds
           in if leng_wid \<noteq> 0 \<and> d * d / leng_wid < pr_p2l_ratio then Ret (0, v3_zero)
              else if n < 2 then Undef
              else if ds ! (n - 2) < 1 / 10 ^ 16 then Ret (0, v3_zero)
              else if (if pr_lidar_type pr = AVIA
                       then ds ! 0 / ds ! (n div 2) \<ge> pr_limit_maxmid
                            \<or> ds ! (n div 2) / ds ! (n - 2) \<ge> pr_limit_midmin
                       else ds ! 0 / ds ! (n - 2) \<ge> pr_limit_maxmin)
                   then Ret (0, v3_zero)
              else Ret (1, v3_normalize v)))"

text \<open>\<open>plane_judge\<close>: the result, the end of the run, \<open>curr_direct\<close> and the members \<open>vx, vy, vz\<close>.\<close>

definition plane_judge ::
  "Preprocess \<Rightarrow> LPoint list \<Rightarrow> orgtype list \<Rightarrow> nat \<Rightarrow> vec3 \<Rightarrow> (nat \<times> nat \<times> vec3 \<times> vec3) exec" where
  "plane_judge pr pl types i_cur v =
     (if i_cur \<ge> length types then Undef
      else
      let group_dis = (pr_disA * og_range (types ! i_cur) + pr_disB pr)\<^sup>2 in
      bind_exec (judge_group (pr_blind_sqr pr) types i_cur pr_group_size []) (\<lambda>g.
      case g of
        Inl i_nex \<Rightarrow> Ret (2, i_nex, v3_zero, v)
      | Inr (i_nex, disarr) \<Rightarrow>
          (case judge_extend (pr_blind_sqr pr) pl types i_cur group_dis i_nex v None disarr of
             (blinded, i_nex, v, two_dis, disarr) \<Rightarrow>
               if blinded then Ret (2, i_nex, v3_zero, v)
               else bind_exec (judge_run pr pl i_cur i_nex v two_dis disarr) (\<lambda>(r, curr_direct).
                    Ret (r, i_nex, curr_direct, v)))))"

lemma judge_group_le: "judge_group b types i k ds = Ret (Inr (i', ds')) \<Longrightarrow> i' = i + k"
  by (induction b types i k ds rule: judge_group.induct) (auto split: if_splits)

lemma judge_group_blind: "judge_group b types i k ds = Ret (Inl i') \<Longrightarrow> i \<le> i'"
  by (induction b types i k ds rule: judge_group.induct) (auto split: if_splits)

lemma judge_extend_le:
  "judge_extend b pl types i_cur gd i_nex v two ds = (bl, i', v', two', ds') \<Longrightarrow> i_nex \<le> i'"
proof (induction b pl types i_cur gd i_nex v two ds rule: judge_extend.induct)
  case (1 b pl types i_cur gd i_nex v two ds)
  define v1 where "v1 = v3_sub (lp_xyz (pl ! i_nex)) (lp_xyz (pl ! i_cur))"
  show ?case
  proof (cases "i_cur \<ge> length pl \<or> i_nex \<ge> length pl \<or> og_range (types ! i_nex) < b \<or> sq_norm v1 \<ge> gd")
    case True
    with "1.prems" show ?thesis
      by (auto simp: judge_extend.simps [of b pl types i_cur gd i_nex] Let_def v1_def split: if_splits)
  next
    case False
    then have "judge_extend b pl types i_cur gd (i_nex + 1) v1 (Some (sq_norm v1))
        (ds @ [og_dista (types ! i_nex)]) = (bl, i', v', two', ds')"
      using "1.prems" by (simp add: judge_extend.simps [of b pl types i_cur gd i_nex] Let_def v1_def)
    then have "i_nex + 1 \<le> i'" using "1.IH" False by (metis v1_def)
    then show ?thesis by simp
  qed
qed

text \<open>Both results let the caller's index move on.\<close>

lemma plane_judge_progress:
  assumes "plane_judge pr pl types i v = Ret (r, i_nex, c, v')"
  shows "i \<le> i_nex \<and> (r = 1 \<longrightarrow> i < i_nex)"
proof -
  let ?b = "pr_blind_sqr pr" and ?gd = "(pr_disA * og_range (types ! i) + pr_disB pr)\<^sup>2"
  from assms obtain g where g: "judge_group ?b types i pr_group_size [] = Ret g"
    by (auto simp: plane_judge_def bind_exec_Ret_iff Let_def split: if_splits)
  show ?thesis
  proof (cases g)
    case (Inl k)
    with assms g judge_group_blind [of ?b types i pr_group_size "[]" k] show ?thesis
      by (auto simp: plane_judge_def Let_def split: if_splits)
  next
    case (Inr q)
    obtain k ds where q: "q = (k, ds)" by (cases q)
    have k: "k = i + 8"
      using g Inr q judge_group_le [of ?b types i pr_group_size "[]" k ds] by (simp add: pr_group_size_def)
    obtain bl k' v1 two ds' where e: "judge_extend ?b pl types i ?gd k v None ds = (bl, k', v1, two, ds')"
      by (metis prod_cases5)
    have "k \<le> k'" by (rule judge_extend_le [OF e])
    moreover have "i_nex = k'"
      using assms g Inr q e by (auto simp: plane_judge_def Let_def bind_exec_Ret_iff split: if_splits)
    ultimately show ?thesis using k by simp
  qed
qed

section \<open>Classification of a line\<close>

text \<open>The marks of an accepted run: its ends possible planes, its interior planes. The last index written
  is \<open>i_nex\<close>.\<close>

definition mark_run :: "nat \<Rightarrow> nat \<Rightarrow> orgtype list \<Rightarrow> orgtype list exec" where
  "mark_run i i_nex types =
     (if i_nex \<ge> length types then Undef
      else Ret (map (\<lambda>j. if i \<le> j \<and> j \<le> i_nex
                          then (types ! j)\<lparr>og_ftype := (if j \<noteq> i \<and> j \<noteq> i_nex then Real_Plane else Poss_Plane)\<rparr>
                          else types ! j) [0..<length types]))"

definition set_ftype :: "nat \<Rightarrow> LiDARFeature \<Rightarrow> orgtype list \<Rightarrow> orgtype list" where
  "set_ftype i t types = types[i := (types ! i)\<lparr>og_ftype := t\<rparr>]"

text \<open>The first pass of \<open>give_feature\<close>, from index \<open>i\<close>; the arguments after \<open>types\<close> are \<open>last_state == 1\<close>,
  \<open>last_direct\<close> and the members \<open>vx, vy, vz\<close>.\<close>

function plane_pass ::
  "Preprocess \<Rightarrow> LPoint list \<Rightarrow> nat \<Rightarrow> nat \<Rightarrow> orgtype list \<Rightarrow> bool \<Rightarrow> vec3 \<Rightarrow> vec3 \<Rightarrow> (orgtype list \<times> vec3) exec" where
  "plane_pass pr pl plsize2 i types last_state last_direct v =
     (if i \<ge> plsize2 then Ret (types, v)
      else if i \<ge> length types then Undef
      else if og_range (types ! i) < pr_blind_sqr pr
           then plane_pass pr pl plsize2 (i + 1) types last_state last_direct v
      else bind_exec (plane_judge pr pl types i v) (\<lambda>(plane_type, i_nex, curr_direct, v).
        if plane_type = 1
        then bind_exec (mark_run i i_nex types) (\<lambda>types.
             let types = (if last_state \<and> v3_norm last_direct > 1 / 10
                          then (let m = v3_dot last_direct curr_direct
                                in set_ftype i (if m > - (707 / 1000) \<and> m < 707 / 1000
                                                then Edge_Plane else Real_Plane) types)
                          else types)
             in plane_pass pr pl plsize2 i_nex types True curr_direct v)
        else plane_pass pr pl plsize2 (i_nex + 1) types False curr_direct v))"
  by pat_completeness auto
termination
  by (relation "measure (\<lambda>(_, _, plsize2, i, _). plsize2 - i)")
    (auto dest: plane_judge_progress)

declare plane_pass.simps [simp del]

text \<open>The cosine of the angle between two vectors; a zero vector makes it a \<open>NaN\<close>.\<close>

definition cos_angle :: "vec3 \<Rightarrow> vec3 \<Rightarrow> dbl" where
  "cos_angle a b = (if v3_norm a = 0 \<or> v3_norm b = 0 then NaN
                    else Num (v3_dot a b / v3_norm a / v3_norm b))"

definition edge_jump_judge :: "Preprocess \<Rightarrow> orgtype list \<Rightarrow> nat \<Rightarrow> Surround \<Rightarrow> bool" where
  "edge_jump_judge pr types i nor_dir =
     (let r = (\<lambda>k. og_range (types ! k)); d = (\<lambda>k. og_dista (types ! k));
          near = (case nor_dir of Prev \<Rightarrow> r (i - 1) < pr_blind_sqr pr \<or> r (i - 2) < pr_blind_sqr pr
                                | Next \<Rightarrow> r (i + 1) < pr_blind_sqr pr \<or> r (i + 2) < pr_blind_sqr pr);
          d1 = (case nor_dir of Prev \<Rightarrow> d (i - 1) | Next \<Rightarrow> d i);
          d2 = (case nor_dir of Prev \<Rightarrow> d (i - 2) | Next \<Rightarrow> d (i + 1));
          e1 = sqrt (max d1 d2); e2 = sqrt (min d1 d2)
      in \<not> near \<and> \<not> (e1 > pr_edgea * e2 \<or> e1 - e2 > pr_edgeb))"

text \<open>The state of one neighbour of point \<open>i\<close> in the second pass: its \<open>edj\<close>, or the old one when the angle
  is in between.\<close>

definition neighbour_state :: "Preprocess \<Rightarrow> LPoint list \<Rightarrow> orgtype list \<Rightarrow> nat \<Rightarrow> nat \<Rightarrow> E_jump \<Rightarrow> E_jump" where
  "neighbour_state pr pl types i m old =
     (if og_range (types ! m) < pr_blind_sqr pr
      then (if og_range (types ! i) > pr_inf_bound then Nr_inf else Nr_blind)
      else let a = cos_angle (lp_xyz (pl ! i)) (v3_sub (lp_xyz (pl ! m)) (lp_xyz (pl ! i)))
           in if dbl_less a (Num pr_jump_up_limit) then Nr_180
              else if dbl_less (Num pr_jump_down_limit) a then Nr_zero else old)"

definition edge_step :: "Preprocess \<Rightarrow> LPoint list \<Rightarrow> nat \<Rightarrow> orgtype list \<Rightarrow> orgtype list" where
  "edge_step pr pl i types =
     (let t = types ! i; d = og_dista t; dp = og_dista (types ! (i - 1)) in
      if og_range t < pr_blind_sqr pr \<or> at_least_Real_Plane (og_ftype t) then types
      else if dp < 1 / 10 ^ 16 \<or> d < 1 / 10 ^ 16 then types
      else
      let ep = neighbour_state pr pl types i (i - 1) (og_edj_prev t);
          en = neighbour_state pr pl types i (i + 1) (og_edj_next t);
          intersect = (if og_range (types ! (i - 1)) < pr_blind_sqr pr \<or> og_range (types ! (i + 1)) < pr_blind_sqr pr
                       then pr_intersect_indet pr
                       else cos_angle (v3_sub (lp_xyz (pl ! (i - 1))) (lp_xyz (pl ! i)))
                              (v3_sub (lp_xyz (pl ! (i + 1))) (lp_xyz (pl ! i))));
          types = types[i := t\<lparr>og_edj_prev := ep, og_edj_next := en, og_intersect := intersect\<rparr>];
          jump = (\<lambda>dir. if edge_jump_judge pr types i dir then set_ftype i Edge_Jump types else types)
      in if ep = Nr_nor \<and> en = Nr_zero \<and> d > 225 / 10000 \<and> d > 4 * dp
         then (if dbl_less (Num pr_cos160) intersect then jump Prev else types)
         else if ep = Nr_zero \<and> en = Nr_nor \<and> dp > 225 / 10000 \<and> dp > 4 * d
         then (if dbl_less (Num pr_cos160) intersect then jump Next else types)
         else if ep = Nr_nor \<and> en = Nr_inf then jump Prev
         else if ep = Nr_inf \<and> en = Nr_nor then jump Next
         else if ep \<noteq> Nr_nor \<and> en \<noteq> Nr_nor
         then (if og_ftype t = Nor then set_ftype i Wire types else types)
         else types)"

text \<open>The third pass: a smooth point between two points of its kind makes a small plane.\<close>

definition small_plane_step :: "Preprocess \<Rightarrow> nat \<Rightarrow> orgtype list \<Rightarrow> orgtype list" where
  "small_plane_step pr i types =
     (let t = types ! i; d = og_dista t; dp = og_dista (types ! (i - 1)) in
      if og_range t < pr_blind_sqr pr \<or> og_range (types ! (i - 1)) < pr_blind_sqr pr
         \<or> og_range (types ! (i + 1)) < pr_blind_sqr pr then types
      else if dp < 1 / 10 ^ 8 \<or> d < 1 / 10 ^ 8 then types
      else if og_ftype t = Nor
      then (let ratio = (if dp > d then dp / d else d / dp)
            in if dbl_less (og_intersect t) (Num pr_smallp_intersect) \<and> ratio < pr_smallp_ratio
               then (let types = (if og_ftype (types ! (i - 1)) = Nor then set_ftype (i - 1) Real_Plane types else types);
                         types = (if og_ftype (types ! (i + 1)) = Nor then set_ftype (i + 1) Real_Plane types else types)
                     in set_ftype i Real_Plane types)
               else types)
      else types)"

text \<open>The last pass collects the clouds: runs of plane points are thinned to every
  \<open>point_filter_num\<close>-th point, a shorter run is averaged when it ends, jumps and edges are corners. The run at
  the end of the line is dropped.\<close>

definition run_mean :: "LPoint list \<Rightarrow> nat \<Rightarrow> nat \<Rightarrow> LPoint" where
  "run_mean pl first j =
     (let ps = map (\<lambda>k. pl ! k) [first..<j]; n = real (j - first)
      in \<lparr>lp_xyz = v3_scale (1 / n) (foldl v3_add v3_zero (map lp_xyz ps)), lp_intensity = 0,
          curvature = sum_list (map curvature ps) / n\<rparr>)"

fun collect_pass ::
  "nat \<Rightarrow> LPoint list \<Rightarrow> orgtype list \<Rightarrow> nat list \<Rightarrow> nat option \<Rightarrow> LPoint list \<times> LPoint list \<Rightarrow> LPoint list \<times> LPoint list" where
  "collect_pass n pl types [] last_surface (surf, corn) = (surf, corn)"
| "collect_pass n pl types (j # js) last_surface (surf, corn) =
     (let t = og_ftype (types ! j) in
      if t = Poss_Plane \<or> t = Real_Plane
      then (let first = (case last_surface of None \<Rightarrow> j | Some k \<Rightarrow> k)
            in if j + 1 = first + n
               then collect_pass n pl types js None
                      (surf @ [\<lparr>lp_xyz = lp_xyz (pl ! j), lp_intensity = 0, curvature = curvature (pl ! j)\<rparr>], corn)
               else collect_pass n pl types js (Some first) (surf, corn))
      else collect_pass n pl types js None
             (case last_surface of None \<Rightarrow> surf | Some k \<Rightarrow> surf @ [run_mean pl k j],
              if t = Edge_Jump \<or> t = Edge_Plane then corn @ [pl ! j] else corn))"

text \<open>\<open>while (types[head].range < blind_sqr) head++\<close> has no bound of its own.\<close>

function find_head :: "real \<Rightarrow> orgtype list \<Rightarrow> nat \<Rightarrow> nat exec" where
  "find_head blind_sqr types head =
     (if head \<ge> length types then Undef
      else if og_range (types ! head) < blind_sqr then find_head blind_sqr types (head + 1)
      else Ret head)"
  by pat_completeness auto
termination by (relation "measure (\<lambda>(_, types, head). length types - head)") auto

declare find_head.simps [simp del]

definition give_feature ::
  "Preprocess \<Rightarrow> LPoint list \<Rightarrow> orgtype list \<Rightarrow> vec3 \<Rightarrow> LPoint list \<times> LPoint list \<Rightarrow>
   ((LPoint list \<times> LPoint list) \<times> vec3) exec" where
  "give_feature pr pl types v clouds =
     (let plsize = length pl in
      if plsize = 0 then Ret (clouds, v)
      else
      bind_exec (find_head (pr_blind_sqr pr) types 0) (\<lambda>head.
      bind_exec (plane_pass pr pl (plsize - pr_group_size) head types False v3_zero v) (\<lambda>(types, v).
      let types = fold (edge_step pr pl) [head + 3..<plsize - 3] types;
          types = fold (small_plane_step pr) [head + 1..<plsize - 1] types
      in Ret (collect_pass (pr_point_filter_num pr) pl types [head..<plsize] None clouds, v))))"

section \<open>The sort\<close>

lemma mset_sweep: "add_mset (fst (sweep x ks)) (mset (snd (sweep x ks))) = add_mset x (mset ks)"
  by (induction ks arbitrary: x) auto

lemma sweep_ge: "x \<le> fst (sweep x ks)"
proof (induction ks arbitrary: x)
  case (Cons k ks)
  show ?case using Cons.IH [of x] Cons.IH [of k] by auto
qed simp

lemma sweep_max: "y \<in> set (snd (sweep x ks)) \<Longrightarrow> y \<le> fst (sweep x ks)"
proof (induction ks arbitrary: x)
  case (Cons k ks)
  then show ?case using sweep_ge [of x ks] sweep_ge [of k ks] by (auto split: if_splits)
qed simp

lemma mset_exchange_sort: "mset (exchange_sort xs) = mset xs"
  by (induction xs rule: exchange_sort.induct) (auto simp: mset_sweep)

lemma set_exchange_sort: "set (exchange_sort xs) = set xs"
  by (metis mset_exchange_sort set_mset_mset)

lemma exchange_sort_sorted: "sorted_wrt (\<ge>) (exchange_sort xs)"
  by (induction xs rule: exchange_sort.induct) (auto simp: set_exchange_sort sweep_max)

lemma sorted_wrt_ge_replicate: "sorted_wrt (\<ge>) (replicate m (a::real))"
  by (induction m) auto

lemma exchange_sort_id: "sorted_wrt (\<ge>) xs \<Longrightarrow> exchange_sort xs = xs"
proof (induction xs)
  case (Cons x xs)
  have "sweep x ks = (x, ks)" if "\<forall>k \<in> set ks. k \<le> x" for ks using that by (induction ks) auto
  with Cons show ?case by simp
qed simp

section \<open>A wall up to the end of a line\<close>

lemma judge_group_all:
  "\<lbrakk>i + k \<le> length types; \<And>j. j < length types \<Longrightarrow> \<not> og_range (types ! j) < b\<rbrakk> \<Longrightarrow>
   judge_group b types i k ds = Ret (Inr (i + k, ds @ map (\<lambda>j. og_dista (types ! j)) [i..<i + k]))"
proof (induction k arbitrary: i ds)
  case (Suc k)
  have "[i..<i + Suc k] = i # [i + 1..<i + 1 + k]" by (simp add: upt_conv_Cons)
  with Suc show ?case by simp
qed simp

lemma judge_extend_all:
  assumes "\<And>j. j < length pl \<Longrightarrow> \<not> og_range (types ! j) < b"
    and "\<And>j. j < length pl \<Longrightarrow> sq_norm (v3_sub (lp_xyz (pl ! j)) (lp_xyz (pl ! i))) < gd"
    and "i < length pl" "k < length pl"
  shows "judge_extend b pl types i gd k v two ds =
    (let u = v3_sub (lp_xyz (pl ! (length pl - 1))) (lp_xyz (pl ! i))
     in (False, length pl, u, Some (sq_norm u), ds @ map (\<lambda>j. og_dista (types ! j)) [k..<length pl]))"
  using assms(4)
proof (induction "length pl - k" arbitrary: k v two ds)
  case (Suc m)
  let ?u = "v3_sub (lp_xyz (pl ! k)) (lp_xyz (pl ! i))"
  have step: "judge_extend b pl types i gd k v two ds =
      judge_extend b pl types i gd (k + 1) ?u (Some (sq_norm ?u)) (ds @ [og_dista (types ! k)])"
    using assms(1) [OF Suc.prems] assms(2) [OF Suc.prems] assms(3) Suc.prems
    by (simp add: judge_extend.simps [of b pl types i gd k] Let_def)
  have l: "[k..<length pl] = k # [k + 1..<length pl]" using Suc.prems by (simp add: upt_conv_Cons)
  show ?case
  proof (cases "k + 1 < length pl")
    case True
    with Suc.hyps(1) [of "k + 1"] Suc.hyps(2) step l show ?thesis by (simp add: Let_def)
  next
    case False
    with Suc.prems have k: "k = length pl - 1" and e: "\<not> k + 1 < length pl" by simp_all
    have "judge_extend b pl types i gd (k + 1) ?u (Some (sq_norm ?u)) (ds @ [og_dista (types ! k)])
        = (False, k + 1, ?u, Some (sq_norm ?u), ds @ [og_dista (types ! k)])"
      using e by (subst judge_extend.simps) simp
    moreover have "[k + 1..<length pl] = []" "k + 1 = length pl" using e Suc.prems by simp_all
    ultimately show ?thesis unfolding step l Let_def k [symmetric] by simp
  qed
qed simp

lemma judge_width_zero:
  assumes "\<And>j. j < length pl \<Longrightarrow> sq_norm (v3_cross (v3_sub (lp_xyz (pl ! j)) (lp_xyz (pl ! i))) v) = 0"
  shows "judge_width pl i v js 0 = 0"
  using assms by (induction js) (auto simp: Let_def not_le)

lemma length_line_types [simp]: "length (line_types b indet pl) = length pl"
  by (induction b indet pl rule: line_types.induct) auto

lemma nth_line_types:
  "i < length pl \<Longrightarrow> line_types b indet pl ! i =
     new_orgtype (if b then sqrt (xy_sq (lp_xyz (pl ! i))) else xy_sq (lp_xyz (pl ! i)))
       (if i + 1 < length pl then sq_norm (v3_sub (lp_xyz (pl ! i)) (lp_xyz (pl ! (i + 1)))) else indet)"
proof (induction b indet pl arbitrary: i rule: line_types.induct)
  case (3 b indet p q ps)
  then show ?case by (cases i) auto
qed auto

text \<open>Points of a wall seen by one scan line: a straight row with a fixed step.\<close>

definition wall :: "real \<Rightarrow> real \<Rightarrow> real \<Rightarrow> real \<Rightarrow> nat \<Rightarrow> LPoint list" where
  "wall x y z step n =
     map (\<lambda>k. \<lparr>lp_xyz = (x, y + real k * step, z), lp_intensity = 0, curvature = real k / 100\<rparr>) [0..<n]"

lemma wall_judged_plane:
  assumes n: "n > pr_group_size" and step: "step\<^sup>2 \<ge> 1 / 10 ^ 16"
    and far: "\<And>k. k < n \<Longrightarrow> \<not> og_range (types ! k) < pr_blind_sqr pr"
    and near: "((real n - 1) * step)\<^sup>2 < (pr_disA * og_range (types ! 0) + pr_disB pr)\<^sup>2"
    and types: "types = line_types sqrt_range indet (wall x y z step n)" and indet: "indet \<le> step\<^sup>2"
  shows "\<exists>c u. plane_judge pr (wall x y z step n) types 0 v = Ret (1, n, c, u)"
proof -
  let ?pl = "wall x y z step n" and ?gd = "(pr_disA * og_range (types ! 0) + pr_disB pr)\<^sup>2"
  have len: "length ?pl = n" "length types = n" using types by (simp_all add: wall_def)
  have diff: "v3_sub (lp_xyz (?pl ! j)) (lp_xyz (?pl ! 0)) = (0, real j * step, 0)" if "j < n" for j
    using that n by (simp add: wall_def)
  have sq: "sq_norm (0, a, 0) = a\<^sup>2" for a by (simp add: sq_norm_def power2_eq_square)
  have close: "sq_norm (v3_sub (lp_xyz (?pl ! j)) (lp_xyz (?pl ! 0))) < ?gd" if "j < n" for j
  proof -
    have "real j \<le> real n - 1" using that by linarith
    then have "(real j * step)\<^sup>2 \<le> ((real n - 1) * step)\<^sup>2"
      by (simp add: power_mult_distrib mult_right_mono power_mono)
    with near show ?thesis using that by (simp only: diff sq)
  qed
  have d: "map (\<lambda>j. og_dista (types ! j)) [0..<n] = replicate (n - 1) (step\<^sup>2) @ [indet]"
  proof (rule nth_equalityI)
    show "length (map (\<lambda>j. og_dista (types ! j)) [0..<n]) = length (replicate (n - 1) (step\<^sup>2) @ [indet])"
      using n by simp
    fix i assume "i < length (map (\<lambda>j. og_dista (types ! j)) [0..<n])"
    then have i: "i < n" by simp
    have "sq_norm (v3_sub (lp_xyz (?pl ! i)) (lp_xyz (?pl ! (i + 1)))) = step\<^sup>2" if "i + 1 < n"
      using that by (simp add: wall_def sq_norm_def algebra_simps power2_eq_square)
    then show "map (\<lambda>j. og_dista (types ! j)) [0..<n] ! i = (replicate (n - 1) (step\<^sup>2) @ [indet]) ! i"
      using i len by (auto simp: types nth_line_types new_orgtype_def nth_append)
  qed
  have split: "map (\<lambda>j. og_dista (types ! j)) [0..<pr_group_size] @ map (\<lambda>j. og_dista (types ! j)) [pr_group_size..<n]
      = map (\<lambda>j. og_dista (types ! j)) [0..<n]"
    using n by (metis map_append less_imp_le_nat upt_add_eq_append le0 le_add_diff_inverse)
  have g: "judge_group (pr_blind_sqr pr) types 0 pr_group_size [] =
      Ret (Inr (pr_group_size, map (\<lambda>j. og_dista (types ! j)) [0..<pr_group_size]))"
    using judge_group_all [of 0 pr_group_size types "pr_blind_sqr pr" "[]"] n far len by simp
  let ?u = "(0, (real n - 1) * step, 0)"
  have last: "v3_sub (lp_xyz (?pl ! (n - 1))) (lp_xyz (?pl ! 0)) = ?u"
    using diff [of "n - 1"] n by (simp add: of_nat_diff)
  have e: "judge_extend (pr_blind_sqr pr) ?pl types 0 ?gd pr_group_size v None
      (map (\<lambda>j. og_dista (types ! j)) [0..<pr_group_size]) =
      (False, n, ?u, Some (sq_norm ?u), replicate (n - 1) (step\<^sup>2) @ [indet])"
    using judge_extend_all [of ?pl types "pr_blind_sqr pr" 0 ?gd pr_group_size v None
        "map (\<lambda>j. og_dista (types ! j)) [0..<pr_group_size]"] far close n
    unfolding len Let_def last split d by simp
  have w: "judge_width ?pl 0 ?u [Suc 0..<n] 0 = 0"
  proof (rule judge_width_zero)
    fix j assume "j < length ?pl"
    then show "sq_norm (v3_cross (v3_sub (lp_xyz (?pl ! j)) (lp_xyz (?pl ! 0))) ?u) = 0"
      by (simp add: len diff sq_norm_def)
  qed
  have s: "exchange_sort (replicate (n - 1) (step\<^sup>2) @ [indet]) = replicate (n - 1) (step\<^sup>2) @ [indet]"
    by (rule exchange_sort_id) (use indet in \<open>auto simp: sorted_wrt_append sorted_wrt_ge_replicate\<close>)
  have n8: "n > 8" using n by (simp add: pr_group_size_def)
  then have idx: "n - 2 < n - 1" "n div 2 < n - 1" "0 < n - 1" by auto
  have pos: "step\<^sup>2 > 0" using step by (smt (verit) zero_less_power zero_less_divide_1_iff)
  define ds where "ds = replicate (n - 1) (step\<^sup>2) @ [indet]"
  have ds: "length ds = n" "ds ! 0 = step\<^sup>2" "ds ! (n - 2) = step\<^sup>2" "ds ! (n div 2) = step\<^sup>2" "\<not> n < 2"
    using idx n8 by (simp_all add: ds_def nth_append)
  have "judge_run pr ?pl 0 n ?u (Some (sq_norm ?u)) ds = Ret (1, v3_normalize ?u)"
    using step pos
    by (simp add: judge_run_def Let_def s [folded ds_def] w ds pr_limit_maxmid_def pr_limit_midmin_def
        pr_limit_maxmin_def)
  then have "judge_run pr ?pl 0 n ?u (Some (sq_norm ?u)) (replicate (n - 1) (step\<^sup>2) @ [indet])
      = Ret (1, v3_normalize ?u)"
    by (simp only: ds_def)
  then have "plane_judge pr ?pl types 0 v = Ret (1, n, v3_normalize ?u, ?u)"
    using n len g e by (auto simp: plane_judge_def Let_def)
  then show ?thesis by metis
qed

text \<open>When a straight wall reaches up to the last point of a scan line, \<open>give_feature\<close> writes one entry
  past the end of the line's types: the run that \<open>plane_judge\<close> accepts ends at the number of points, and the
  marking loop includes its end.\<close>

theorem wall_overruns_types:
  assumes "n > pr_group_size" and "step\<^sup>2 \<ge> 1 / 10 ^ 16" and "indet \<le> step\<^sup>2"
    and "\<And>k. k < n \<Longrightarrow> \<not> og_range (line_types sqrt_range indet (wall x y z step n) ! k) < pr_blind_sqr pr"
    and "((real n - 1) * step)\<^sup>2 <
         (pr_disA * og_range (line_types sqrt_range indet (wall x y z step n) ! 0) + pr_disB pr)\<^sup>2"
  shows "give_feature pr (wall x y z step n) (line_types sqrt_range indet (wall x y z step n)) v clouds = Undef"
proof -
  let ?pl = "wall x y z step n" and ?ts = "line_types sqrt_range indet (wall x y z step n)"
  have len: "length ?pl = n" by (simp add: wall_def)
  obtain c u where j: "plane_judge pr ?pl ?ts 0 v = Ret (1, n, c, u)"
    using wall_judged_plane [OF assms(1,2,4,5) refl assms(3), where v = v] by metis
  have h: "find_head (pr_blind_sqr pr) ?ts 0 = Ret 0"
    using assms(1,4) len by (simp add: find_head.simps [of _ _ 0] pr_group_size_def)
  have "plane_pass pr ?pl (n - pr_group_size) 0 ?ts False v3_zero v = Undef"
    using assms(1,4) len j by (simp add: plane_pass.simps [of _ _ _ 0] mark_run_def)
  with h len assms(1) show ?thesis by (simp add: give_feature_def)
qed

definition ex_preprocess :: Preprocess where
  "ex_preprocess = \<lparr>pr_feature_enabled = True, pr_lidar_type = AVIA, pr_N_SCANS = 6, pr_blind_sqr = 1,
     pr_point_filter_num = 1, pr_disB = 0, pr_dista_indet = 0, pr_intersect_indet = NaN\<rparr>"

theorem wall_overruns_types_witness:
  "give_feature ex_preprocess (wall 10 0 0 (1 / 10) 9) (line_types False 0 (wall 10 0 0 (1 / 10) 9)) v3_zero ([], [])
     = Undef"
proof (rule wall_overruns_types)
  have r: "og_range (line_types False 0 (wall 10 0 0 (1 / 10) 9) ! k) \<ge> 100" if "k < 9" for k
    using that by (simp add: nth_line_types new_orgtype_def wall_def power2_eq_square)
  then show "\<not> og_range (line_types False 0 (wall 10 0 0 (1 / 10) 9) ! k) < pr_blind_sqr ex_preprocess" if "k < 9" for k
    using that [THEN r] by (simp add: ex_preprocess_def)
  have "pr_disA * og_range (line_types False 0 (wall 10 0 0 (1 / 10) 9) ! 0) \<ge> 10"
    using r [of 0] by (simp add: pr_disA_def)
  then have "(10::real)\<^sup>2 \<le> (pr_disA * og_range (line_types False 0 (wall 10 0 0 (1 / 10) 9) ! 0) + pr_disB ex_preprocess)\<^sup>2"
    by (intro power_mono) (simp_all add: ex_preprocess_def)
  then show "((real 9 - 1) * (1 / 10))\<^sup>2 <
      (pr_disA * og_range (line_types False 0 (wall 10 0 0 (1 / 10) 9) ! 0) + pr_disB ex_preprocess)\<^sup>2"
    by (simp add: power2_eq_square)
qed (simp_all add: pr_group_size_def power2_eq_square)

end
