(* ===== verification/Fifo.thy ===== *)
theory Fifo
  imports Prelude
begin

text \<open>
  The interface of the driver's queues, as their consumers use it, and the draining loop
  \<open>while (!empty(q)) { pop(q, x); body(x); }\<close> that every consumer runs. The locale states what a
  provider promises; \<^verbatim>\<open>Livox_Ldq\<close> (the ring buffer of point packets) and \<^verbatim>\<open>Livox_ImuQueue\<close>
  (the list of IMU samples) interpret it.
\<close>

section \<open>The draining loop\<close>

text \<open>
  A failed pop leaves the queue as it is and the loop goes round again, so the loop need not end:
  the result is \<open>None\<close> then.
\<close>

partial_function (option) drain ::
  "('q \<Rightarrow> bool) \<Rightarrow> ('q \<Rightarrow> ('a \<times> 'q) option) \<Rightarrow> ('a \<Rightarrow> 's \<Rightarrow> 's) \<Rightarrow> 'q \<Rightarrow> 's \<Rightarrow> ('q \<times> 's) option" where
  "drain is_empty pop body q s =
     (if is_empty q then Some (q, s)
      else (case pop q of
              None \<Rightarrow> drain is_empty pop body q s
            | Some r \<Rightarrow> drain is_empty pop body (snd r) (body (fst r) s)))"

lemma drain_empty: "is_empty q \<Longrightarrow> drain is_empty pop body q s = Some (q, s)"
  by (simp add: drain.simps)

lemma drain_step:
  "\<not> is_empty q \<Longrightarrow> pop q = Some (x, q') \<Longrightarrow>
   drain is_empty pop body q s = drain is_empty pop body q' (body x s)"
  by (simp add: drain.simps [of is_empty pop body q s])

section \<open>A queue read at one end\<close>

locale fifo =
  fixes qinv :: "'q \<Rightarrow> bool"
    and contents :: "'q \<Rightarrow> 'a list"
    and is_empty :: "'q \<Rightarrow> bool"
    and pop :: "'q \<Rightarrow> ('a \<times> 'q) option"
  assumes is_empty_iff: "qinv q \<Longrightarrow> is_empty q \<longleftrightarrow> contents q = []"
    and pop_Cons: "qinv q \<Longrightarrow> contents q = x # xs \<Longrightarrow>
                   \<exists>q'. pop q = Some (x, q') \<and> qinv q' \<and> contents q' = xs"
    and pop_Nil: "qinv q \<Longrightarrow> contents q = [] \<Longrightarrow> pop q = None"
begin

lemma pop_hd:
  assumes "qinv q" and "pop q = Some (x, q')"
  shows "contents q = x # contents q' \<and> qinv q'"
proof (cases "contents q")
  case Nil
  with assms pop_Nil show ?thesis by simp
next
  case (Cons y ys)
  with pop_Cons [OF assms(1) Cons] assms(2) show ?thesis by auto
qed

text \<open>The draining loop ends, hands every element to the body once and in queue order, and leaves
  an empty queue.\<close>

lemma drain_all:
  "qinv q \<Longrightarrow> \<exists>q'. drain is_empty pop body q s = Some (q', fold body (contents q) s)
                  \<and> qinv q' \<and> contents q' = []"
proof (induction "contents q" arbitrary: q s)
  case Nil
  then show ?case by (auto simp: drain_empty is_empty_iff)
next
  case (Cons x xs)
  have "\<not> is_empty q" using Cons by (simp add: is_empty_iff [OF Cons.prems] flip: Cons.hyps(2))
  moreover obtain q' where q': "pop q = Some (x, q')" "qinv q'" "contents q' = xs"
    using pop_Cons [OF Cons.prems] Cons.hyps(2) by metis
  ultimately have "drain is_empty pop body q s = drain is_empty pop body q' (body x s)"
    by (simp add: drain_step)
  moreover have "contents q = x # xs" using Cons.hyps(2) by simp
  moreover have "\<exists>q''. drain is_empty pop body q' (body x s) =
      Some (q'', fold body (contents q') (body x s)) \<and> qinv q'' \<and> contents q'' = []"
    using Cons.hyps(1) q' by blast
  ultimately show ?case using q'(3) by simp
qed

end

section \<open>A bounded queue\<close>

locale bounded_fifo = fifo qinv contents is_empty pop
  for qinv :: "'q \<Rightarrow> bool" and contents :: "'q \<Rightarrow> 'a list"
    and is_empty :: "'q \<Rightarrow> bool" and pop :: "'q \<Rightarrow> ('a \<times> 'q) option" +
  fixes capacity :: "'q \<Rightarrow> nat"
    and is_full :: "'q \<Rightarrow> bool"
    and fits :: "'a \<Rightarrow> bool"
    and push :: "'a \<Rightarrow> 'q \<Rightarrow> 'q"
  assumes contents_bound: "qinv q \<Longrightarrow> length (contents q) \<le> capacity q"
    and is_full_iff: "qinv q \<Longrightarrow> is_full q \<longleftrightarrow> length (contents q) = capacity q"
    and push_snoc: "qinv q \<Longrightarrow> \<not> is_full q \<Longrightarrow> fits x \<Longrightarrow>
                    qinv (push x q) \<and> contents (push x q) = contents q @ [x]
                    \<and> capacity (push x q) = capacity q"
begin

text \<open>The producer's policy: an element offered to a full queue is dropped.\<close>

lemma offer_contents:
  assumes "qinv q" and "fits x"
  shows "contents (if is_full q then q else push x q) = take (capacity q) (contents q @ [x])"
    and "qinv (if is_full q then q else push x q)"
    and "capacity (if is_full q then q else push x q) = capacity q"
  using assms contents_bound [OF assms(1)] is_full_iff [OF assms(1)] push_snoc [OF assms(1)]
  by (auto simp: le_eq_less_or_eq take_Cons')

text \<open>Offering a whole burst keeps the oldest elements, up to the capacity.\<close>

lemma offer_all_contents:
  "qinv q \<Longrightarrow> list_all fits xs \<Longrightarrow>
   contents (fold (\<lambda>x q. if is_full q then q else push x q) xs q) =
     take (capacity q) (contents q @ xs)
   \<and> qinv (fold (\<lambda>x q. if is_full q then q else push x q) xs q)"
proof (induction xs arbitrary: q)
  case Nil
  then show ?case using contents_bound by simp
next
  case (Cons x xs)
  let ?q = "if is_full q then q else push x q"
  have fx: "fits x" and fxs: "list_all fits xs" using Cons.prems(2) by auto
  note o = offer_contents [OF Cons.prems(1) fx]
  have "take (capacity q) (take (capacity q) (contents q @ [x]) @ xs) =
        take (capacity q) (contents q @ x # xs)"
    using contents_bound [OF Cons.prems(1)] by (cases "length (contents q) = capacity q") auto
  then show ?case using Cons.IH [OF o(2) fxs] o by simp
qed

end

end
