(* ===== verification/Livox_Types.thy ===== *)
theory Livox_Types
  imports Prelude
begin

text \<open>
  The driver's shared data types and helpers: \<^verbatim>\<open>livox_ros_driver2/src/comm/comm.h\<close> and \<^verbatim>\<open>comm.cpp\<close>.
  A C array is a list, a \<open>PointXyzlt*\<close> the list of the points it points at. The conversions between
  IP strings and numbers call the C library and are not modelled.
\<close>

section \<open>Constants\<close>

definition kMaxSourceLidar :: nat where "kMaxSourceLidar = 32"
definition kPathStrMinSize :: int where "kPathStrMinSize = 4"
definition kPathStrMaxSize :: int where "kPathStrMaxSize = 256"
definition kNsPerSecond :: u32 where "kNsPerSecond = 1000000000"
definition kNsTolerantFrameTimeDeviation :: u32 where "kNsTolerantFrameTimeDeviation = 1000000"
definition kRatioOfMsToNs :: u32 where "kRatioOfMsToNs = 1000000"
definition kLineNumberDefault :: u8 where "kLineNumberDefault = 1"
definition kLineNumberMid360 :: u8 where "kLineNumberMid360 = 4"
definition kLineNumberHAP :: u8 where "kLineNumberHAP = 6"
definition kLivoxLidarType :: u8 where "kLivoxLidarType = 8"
definition kTimestampTypeNoSync :: u8 where "kTimestampTypeNoSync = 0"
definition kTimestampTypeGptpOrPtp :: u8 where "kTimestampTypeGptpOrPtp = 1"
definition kTimestampTypeGps :: u8 where "kTimestampTypeGps = 2"

section \<open>Enumerations\<close>

datatype LidarConnectState =
  kConnectStateOff | kConnectStateOn | kConnectStateConfig | kConnectStateSampling

definition kConfigDataType :: u32 where "kConfigDataType = 1"
definition kConfigScanPattern :: u32 where "kConfigScanPattern = 2"
definition kConfigBlindSpot :: u32 where "kConfigBlindSpot = 4"
definition kConfigDualEmit :: u32 where "kConfigDualEmit = 8"

section \<open>Points and packets\<close>

record PointXyzlt =
  px :: f32
  py :: f32
  pz :: f32
  pintensity :: f32
  ptag :: u8
  pline :: u8
  poffset_time :: u64

record PointPacket =
  pp_handle :: u32
  pp_lidar_type :: u8
  pp_points_num :: u32
  pp_points :: "PointXyzlt list"

text \<open>The arrays of a \<open>PointFrame\<close> have 32 slots; the frame below holds the slots in use, so its
  length is \<open>lidar_num\<close>.\<close>

record PointFrame =
  pf_base_time :: "u64 list"
  pf_lidar_point :: "PointPacket list"

record StoragePacket =
  sp_base_time :: u64
  sp_points_num :: u32
  sp_points :: "PointXyzlt list"

record ExtParameter =
  ext_roll :: f32
  ext_pitch :: f32
  ext_yaw :: f32
  ext_x :: "32 word"
  ext_y :: "32 word"
  ext_z :: "32 word"

record UserLivoxLidarConfig =
  cfg_handle :: u32
  cfg_pcl_data_type :: int
  cfg_pattern_mode :: int
  cfg_blind_spot_set :: int
  cfg_dual_emit_en :: int
  cfg_extrinsic_param :: ExtParameter
  cfg_set_bits :: u32
  cfg_get_bits :: u32

section \<open>General helpers\<close>

definition IsFilePathValid :: "string \<Rightarrow> bool" where
  "IsFilePathValid path_str =
     (let str_len = int (length path_str)
      in str_len > kPathStrMinSize \<and> str_len < kPathStrMaxSize)"

text \<open>\<open>static_cast<uint32_t>\<close> truncates towards zero; a value out of range is undefined.\<close>

definition CalculatePacketQueueSize :: "f64 \<Rightarrow> u32 exec" where
  "CalculatePacketQueueSize publish_freq =
     (if publish_freq > 10
      then (if \<lfloor>publish_freq\<rfloor> < 2 ^ 32 then Ret (of_int \<lfloor>publish_freq\<rfloor> + 1) else Undef)
      else Ret 10)"

text \<open>\<open>str.find(".")\<close> and \<open>str.replace(pos, 1, "_")\<close>; the loop is left when no period is found.\<close>

fun find_char :: "char \<Rightarrow> string \<Rightarrow> nat option" where
  "find_char c [] = None"
| "find_char c (x # xs) = (if x = c then Some 0 else map_option Suc (find_char c xs))"

lemma find_char_Some:
  "find_char c s = Some i \<Longrightarrow> i < length s \<and> s ! i = c \<and> c \<notin> set (take i s)"
  by (induction s arbitrary: i) (auto split: if_splits)

lemma find_char_None: "find_char c s = None \<longleftrightarrow> c \<notin> set s"
  by (induction s) auto

lemma count_list_replace:
  "i < length s \<Longrightarrow> s ! i = c \<Longrightarrow> d \<noteq> c \<Longrightarrow> Suc (count_list (s[i := d]) c) = count_list s c"
  by (induction s arbitrary: i) (auto split: nat.split simp: less_Suc_eq_0_disj)

function ReplacePeriodByUnderline :: "string \<Rightarrow> string" where
  "ReplacePeriodByUnderline str =
     (case find_char CHR ''.'' str of
        None \<Rightarrow> str
      | Some pos \<Rightarrow> ReplacePeriodByUnderline (str[pos := CHR ''_'']))"
  by pat_completeness auto
termination
proof (relation "measure (\<lambda>s. count_list s CHR ''.'')")
  show "wf (measure (\<lambda>s. count_list s CHR ''.''))" by simp
next
  fix str :: string and pos
  assume "find_char CHR ''.'' str = Some pos"
  then have "Suc (count_list (str[pos := CHR ''_'']) CHR ''.'') = count_list str CHR ''.''"
    by (intro count_list_replace) (auto dest: find_char_Some)
  then show "(str[pos := CHR ''_''], str) \<in> measure (\<lambda>s. count_list s CHR ''.'')"
    by simp
qed

declare ReplacePeriodByUnderline.simps [simp del]

lemma map_update_idem:
  "i < length s \<Longrightarrow> f d = f (s ! i) \<Longrightarrow> map f (s[i := d]) = map f s"
  by (simp add: map_update list_update_same_conv)

text \<open>The loop replaces every period and leaves every other character and the length alone.\<close>

lemma ReplacePeriodByUnderline_eq:
  "ReplacePeriodByUnderline str = map (\<lambda>c. if c = CHR ''.'' then CHR ''_'' else c) str"
proof (induction str rule: ReplacePeriodByUnderline.induct)
  case (1 str)
  show ?case
  proof (cases "find_char CHR ''.'' str")
    case None
    then have "CHR ''.'' \<notin> set str" by (simp add: find_char_None)
    with None show ?thesis
      by (subst ReplacePeriodByUnderline.simps) (auto intro!: map_idI [symmetric])
  next
    case (Some pos)
    from find_char_Some [OF Some] 1 [OF Some] Some show ?thesis
      by (subst ReplacePeriodByUnderline.simps) (simp add: map_update_idem)
  qed
qed

text \<open>The queue is never smaller than the publishing frequency asks for, and never below 10.\<close>

lemma CalculatePacketQueueSize_bounds:
  assumes "publish_freq < 2 ^ 32 - 1"
  obtains n where "CalculatePacketQueueSize publish_freq = Ret n" "10 \<le> unat n"
    "publish_freq \<le> real (unat n)" "real (unat n) \<le> max 10 (publish_freq + 1)"
proof (cases "publish_freq > 10")
  case False
  have u: "unat (10 :: u32) = 10" by simp
  then have "10 \<le> unat (10 :: u32)" "publish_freq \<le> real (unat (10 :: u32))"
    "real (unat (10 :: u32)) \<le> max 10 (publish_freq + 1)"
    using False by (simp_all only: u)
  moreover have "CalculatePacketQueueSize publish_freq = Ret 10"
    using False by (simp add: CalculatePacketQueueSize_def)
  ultimately show thesis by (rule that [rotated])
next
  case True
  let ?f = "\<lfloor>publish_freq\<rfloor>"
  have b: "10 \<le> ?f" "?f + 1 < 2 ^ 32"
    using True assms by (simp_all add: le_floor_iff floor_less_iff flip: less_diff_eq)
  have "take_bit LENGTH(32) (?f + 1) = ?f + 1" using b by (intro take_bit_int_eq_self) auto
  then have "int (unat (of_int (?f + 1) :: u32)) = ?f + 1"
    using b by (simp add: unsigned_of_int del: of_int_add)
  then have u: "real (unat (of_int ?f + 1 :: u32)) = of_int ?f + 1"
    by (metis of_int_1 of_int_add of_int_of_nat_eq)
  show thesis
  proof (rule that)
    show "CalculatePacketQueueSize publish_freq = Ret (of_int ?f + 1)"
      using True b by (simp add: CalculatePacketQueueSize_def)
    have "10 \<le> real (unat (of_int ?f + 1 :: u32))" using u b by linarith
    then show "10 \<le> unat (of_int ?f + 1 :: u32)" by linarith
    show "publish_freq \<le> real (unat (of_int ?f + 1 :: u32))" using u by linarith
    show "real (unat (of_int ?f + 1 :: u32)) \<le> max 10 (publish_freq + 1)" using u by linarith
  qed
qed

end
