(* ===== verification/Livox_Ldq.thy ===== *)
theory Livox_Ldq
  imports Fifo Livox_Types
begin

text \<open>
  The ring buffer of point packets, \<^verbatim>\<open>livox_ros_driver2/src/comm/ldq.h\<close> and \<^verbatim>\<open>ldq.cpp\<close>: one producer
  (the SDK's point cloud callback) and one consumer (the publishing thread) per LiDAR. Read and
  write index run freely through the 32-bit range and are masked on access. The theory models
  every operation, with null pointers and out-of-bounds accesses as branches, states the
  invariant and the queue a ring buffer stands for, and interprets the locale
  \<^verbatim>\<open>bounded_fifo\<close>.
\<close>

section \<open>Model\<close>

record LidarDataQueue =
  storage_packet :: "StoragePacket heap_array"
  rd_idx :: u32
  wr_idx :: u32
  qmask :: u32
  qsize :: u32

definition IsPowerOf2 :: "u32 \<Rightarrow> bool" where
  "IsPowerOf2 sz = (sz \<noteq> 0 \<and> sz AND (sz - 1) = 0)"

text \<open>The loop of \<open>RoundupPowerOf2\<close> from iteration \<open>i\<close>, with the current \<open>power2_val\<close>.\<close>

function roundup_loop :: "u32 \<Rightarrow> nat \<Rightarrow> u32 \<Rightarrow> u32" where
  "roundup_loop sz i power2_val =
     (if i < 32
      then (let power2_val = push_bit i 1
            in if sz \<le> power2_val then power2_val else roundup_loop sz (i + 1) power2_val)
      else power2_val)"
  by pat_completeness auto
termination
  by (relation "measure (\<lambda>(sz, i, p). 32 - i)") auto

declare roundup_loop.simps [simp del]

definition RoundupPowerOf2 :: "u32 \<Rightarrow> u32" where
  "RoundupPowerOf2 sz = roundup_loop sz 0 0"

text \<open>\<open>new StoragePacket[n]\<close>: the elements' point vectors are empty; the numbers are indeterminate
  in C++ and zero here, and no operation reads them before it has written them.\<close>

definition new_packets :: "u32 \<Rightarrow> StoragePacket heap_array" where
  "new_packets n =
     Alloc (replicate (unat n) \<lparr>sp_base_time = 0, sp_points_num = 0, sp_points = []\<rparr>)"

definition InitQueue :: "LidarDataQueue option \<Rightarrow> u32 \<Rightarrow> (bool \<times> LidarDataQueue option) exec" where
  "InitQueue queue queue_size =
     (case queue of
        None \<Rightarrow> Ret (False, None)
      | Some q \<Rightarrow>
          (let n = (if \<not> IsPowerOf2 queue_size then RoundupPowerOf2 queue_size else queue_size);
               q' = \<lparr>storage_packet = new_packets n, rd_idx = 0, wr_idx = 0,
                     qmask = n - 1, qsize = n\<rparr>
           in if storage_packet q = Freed then Undef else Ret (True, Some q')))"

definition DeInitQueue :: "LidarDataQueue option \<Rightarrow> (bool \<times> LidarDataQueue option) exec" where
  "DeInitQueue queue =
     (case queue of
        None \<Rightarrow> Ret (False, None)
      | Some q \<Rightarrow>
          (let q' = q\<lparr>rd_idx := 0, wr_idx := 0, qsize := 0, qmask := 0\<rparr>
           in case storage_packet q of
                Null \<Rightarrow> Ret (True, Some q')
              | Freed \<Rightarrow> Undef
              | Alloc _ \<Rightarrow> Ret (True, Some (q'\<lparr>storage_packet := Freed\<rparr>))))"

definition ResetQueue :: "LidarDataQueue \<Rightarrow> LidarDataQueue" where
  "ResetQueue q = q\<lparr>rd_idx := 0, wr_idx := 0\<rparr>"

definition QueueUsedSize :: "LidarDataQueue \<Rightarrow> u32" where
  "QueueUsedSize q = wr_idx q - rd_idx q"

definition QueueUnusedSize :: "LidarDataQueue \<Rightarrow> u32" where
  "QueueUnusedSize q = qsize q - QueueUsedSize q"

definition QueueIsFull :: "LidarDataQueue \<Rightarrow> bool" where
  "QueueIsFull q = (wr_idx q - rd_idx q > qmask q)"

definition QueueIsEmpty :: "LidarDataQueue \<Rightarrow> bool" where
  "QueueIsEmpty q = (rd_idx q = wr_idx q)"

text \<open>\<open>queue->storage_packet[i]\<close> and \<open>memcpy(_, points, n * sizeof(PointXyzlt))\<close>.\<close>

definition slot_at :: "LidarDataQueue \<Rightarrow> u32 \<Rightarrow> StoragePacket exec" where
  "slot_at q i =
     (case storage_packet q of
        Alloc xs \<Rightarrow> if unat i < length xs then Ret (xs ! unat i) else Undef
      | _ \<Rightarrow> Undef)"

definition copy_points :: "u32 \<Rightarrow> PointXyzlt list \<Rightarrow> PointXyzlt list exec" where
  "copy_points n pts = (if unat n \<le> length pts then Ret (take (unat n) pts) else Undef)"

definition QueuePrePop ::
  "LidarDataQueue option \<Rightarrow> StoragePacket option \<Rightarrow> (bool \<times> StoragePacket option) exec" where
  "QueuePrePop queue packet =
     (case (queue, packet) of
        (Some q, Some p) \<Rightarrow>
          if QueueIsEmpty q then Ret (False, packet)
          else bind_exec (slot_at q (rd_idx q AND qmask q)) (\<lambda>s.
               bind_exec (copy_points (sp_points_num s) (sp_points s)) (\<lambda>pts.
               Ret (True, Some (p\<lparr>sp_base_time := sp_base_time s,
                                 sp_points_num := sp_points_num s, sp_points := pts\<rparr>))))
      | _ \<Rightarrow> Ret (False, packet))"

definition QueuePopUpdate :: "LidarDataQueue \<Rightarrow> LidarDataQueue" where
  "QueuePopUpdate q = q\<lparr>rd_idx := rd_idx q + 1\<rparr>"

definition QueuePop ::
  "LidarDataQueue option \<Rightarrow> StoragePacket option
     \<Rightarrow> (bool \<times> LidarDataQueue option \<times> StoragePacket option) exec" where
  "QueuePop queue packet =
     bind_exec (QueuePrePop queue packet) (\<lambda>(ok, packet').
       if \<not> ok then Ret (False, queue, packet')
       else Ret (True, map_option QueuePopUpdate queue, packet'))"

definition QueuePushAny ::
  "LidarDataQueue \<Rightarrow> PointPacket \<Rightarrow> u64 \<Rightarrow> (u32 \<times> LidarDataQueue) exec" where
  "QueuePushAny q data base_time =
     (let wr = wr_idx q AND qmask q in
      bind_exec (slot_at q wr) (\<lambda>_.
      bind_exec (copy_points (pp_points_num data) (pp_points data)) (\<lambda>pts.
      case storage_packet q of
        Alloc xs \<Rightarrow>
          Ret (1, q\<lparr>storage_packet := Alloc (xs[unat wr := \<lparr>sp_base_time = base_time,
                        sp_points_num = pp_points_num data, sp_points = pts\<rparr>]),
                    wr_idx := wr_idx q + 1\<rparr>)
      | _ \<Rightarrow> Undef)))"

section \<open>Rounding up\<close>

lemma push_bit_1_u32: "push_bit i 1 = (2 ^ i :: u32)"
  by (simp add: push_bit_eq_mult)

lemma u32_pow2_less: "k < 32 \<Longrightarrow> unat (2 ^ k :: u32) = 2 ^ k"
  by (rule unat_pow2) simp

lemma roundup_stop: "i < 32 \<Longrightarrow> sz \<le> 2 ^ i \<Longrightarrow> roundup_loop sz i p = 2 ^ i"
  by (subst roundup_loop.simps) (simp add: push_bit_1_u32)

lemma roundup_go:
  "i < 32 \<Longrightarrow> \<not> sz \<le> 2 ^ i \<Longrightarrow> roundup_loop sz i p = roundup_loop sz (i + 1) (2 ^ i)"
  by (subst roundup_loop.simps) (simp add: push_bit_1_u32)

lemma roundup_end: "roundup_loop sz 32 p = p"
  by (subst roundup_loop.simps) simp

lemma roundup_loop_least:
  "i \<le> k \<Longrightarrow> k < 32 \<Longrightarrow> sz \<le> 2 ^ k \<Longrightarrow> (\<And>j. i \<le> j \<Longrightarrow> j < k \<Longrightarrow> \<not> sz \<le> 2 ^ j) \<Longrightarrow>
   roundup_loop sz i p = 2 ^ k"
proof (induction "k - i" arbitrary: i p)
  case 0
  then show ?case by (simp add: roundup_stop)
next
  case (Suc d)
  then have "roundup_loop sz (i + 1) (2 ^ i) = 2 ^ k" by (intro Suc.hyps(1)) auto
  with Suc show ?case by (simp add: roundup_go)
qed

lemma roundup_loop_large:
  "i < 32 \<Longrightarrow> (\<And>j. j < 32 \<Longrightarrow> \<not> sz \<le> 2 ^ j) \<Longrightarrow> roundup_loop sz i p = 2 ^ 31"
proof (induction "31 - i" arbitrary: i p)
  case 0
  then have "i = 31" by simp
  moreover have "\<not> sz \<le> 2 ^ 31" using 0(3) [of 31] by simp
  ultimately show ?case using roundup_go [of 31 sz p] roundup_end [of sz "2 ^ 31"] by simp
next
  case (Suc d)
  then have "roundup_loop sz (i + 1) (2 ^ i) = 2 ^ 31" by (intro Suc.hyps(1)) auto
  with Suc show ?case by (simp add: roundup_go)
qed

lemma IsPowerOf2_iff: "IsPowerOf2 sz \<longleftrightarrow> (\<exists>k < 32. sz = 2 ^ k)"
proof (cases "sz = 0")
  case True
  moreover have "(2::u32) ^ k \<noteq> 0" if "k < 32" for k
    using u32_pow2_less [OF that] by (metis power_not_zero unsigned_0 zero_neq_numeral)
  ultimately show ?thesis by (auto simp: IsPowerOf2_def)
next
  case False
  then show ?thesis by (simp add: IsPowerOf2_def word_and_dec_eq_0_iff)
qed

text \<open>\<open>RoundupPowerOf2\<close> is the least power of two that is large enough, and \<open>2 ^ 31\<close> when there is
  none.\<close>

lemma RoundupPowerOf2_cases:
  obtains k where "k < 32" "RoundupPowerOf2 sz = 2 ^ k" "unat sz \<le> 2 ^ k"
    "\<And>j. j < k \<Longrightarrow> 2 ^ j < unat sz"
  | "2 ^ 31 < unat sz" "RoundupPowerOf2 sz = 2 ^ 31"
proof (cases "\<exists>k < 32. sz \<le> (2 ^ k :: u32)")
  case True
  define k where "k = (LEAST k. k < 32 \<and> sz \<le> (2 ^ k :: u32))"
  have k: "k < 32" "sz \<le> 2 ^ k" using LeastI_ex [OF True] by (auto simp: k_def)
  have l: "\<not> sz \<le> 2 ^ j" if "j < k" for j
    using not_less_Least [of j "\<lambda>k. k < 32 \<and> sz \<le> (2 ^ k :: u32)"] that k(1)
    by (auto simp: k_def)
  have "RoundupPowerOf2 sz = 2 ^ k"
    unfolding RoundupPowerOf2_def using k l by (intro roundup_loop_least) auto
  moreover have "unat sz \<le> 2 ^ k"
    using k(2) by (simp only: word_le_nat_alt u32_pow2_less [OF k(1)])
  moreover have "2 ^ j < unat sz" if "j < k" for j
    using l [OF that] that k(1) by (simp only: word_le_nat_alt u32_pow2_less not_le)
  ultimately show thesis using that(1) k(1) by blast
next
  case False
  then have "RoundupPowerOf2 sz = 2 ^ 31"
    unfolding RoundupPowerOf2_def by (intro roundup_loop_large) auto
  moreover have "2 ^ 31 < unat sz"
  proof -
    have "(31::nat) < 32 \<longrightarrow> \<not> sz \<le> 2 ^ 31" using False by blast
    then show ?thesis using u32_pow2_less [of 31] by (simp add: word_le_nat_alt)
  qed
  ultimately show thesis using that(2) by blast
qed

lemma RoundupPowerOf2_pow2: "\<exists>k < 32. RoundupPowerOf2 n = 2 ^ k"
proof (rule RoundupPowerOf2_cases [of n])
  assume "RoundupPowerOf2 n = 2 ^ 31"
  moreover have "(31::nat) < 32" by simp
  ultimately show ?thesis by blast
qed blast

section \<open>Invariant and the queue it stands for\<close>

text \<open>What the consumer reads of a slot.\<close>

definition packet_view :: "StoragePacket \<Rightarrow> u64 \<times> PointXyzlt list" where
  "packet_view s = (sp_base_time s, sp_points s)"

fun slots :: "StoragePacket heap_array \<Rightarrow> StoragePacket list" where
  "slots (Alloc xs) = xs"
| "slots _ = []"

definition slot_idx :: "LidarDataQueue \<Rightarrow> nat \<Rightarrow> nat" where
  "slot_idx q i = unat ((rd_idx q + of_nat i) AND qmask q)"

definition ldq_used :: "LidarDataQueue \<Rightarrow> nat" where
  "ldq_used q = unat (wr_idx q - rd_idx q)"

definition ldq_contents :: "LidarDataQueue \<Rightarrow> (u64 \<times> PointXyzlt list) list" where
  "ldq_contents q =
     map (\<lambda>i. packet_view (slots (storage_packet q) ! slot_idx q i)) [0..<ldq_used q]"

definition ldq_capacity :: "LidarDataQueue \<Rightarrow> nat" where
  "ldq_capacity q = unat (qsize q)"

definition ldq_inv :: "LidarDataQueue \<Rightarrow> bool" where
  "ldq_inv q =
     ((\<exists>k \<in> {..<32}. qsize q = 2 ^ k) \<and> qmask q = qsize q - 1
      \<and> (\<exists>xs. storage_packet q = Alloc xs \<and> length xs = unat (qsize q))
      \<and> ldq_used q \<le> ldq_capacity q
      \<and> (\<forall>i \<in> {..<ldq_used q}. let s = slots (storage_packet q) ! slot_idx q i
                                in unat (sp_points_num s) = length (sp_points s)))"

lemma ldq_invE:
  assumes "ldq_inv q"
  obtains k xs where "k < 32" "qsize q = 2 ^ k" "qmask q = 2 ^ k - 1" "ldq_capacity q = 2 ^ k"
    "storage_packet q = Alloc xs" "length xs = 2 ^ k" "ldq_used q \<le> 2 ^ k"
    "\<And>i. i < ldq_used q \<Longrightarrow>
       unat (sp_points_num (xs ! slot_idx q i)) = length (sp_points (xs ! slot_idx q i))"
proof -
  from assms obtain k xs where k: "k < 32" "qsize q = 2 ^ k" "qmask q = qsize q - 1"
    and xs: "storage_packet q = Alloc xs" "length xs = unat (qsize q)"
    and u: "ldq_used q \<le> ldq_capacity q"
      "\<forall>i < ldq_used q. unat (sp_points_num (xs ! slot_idx q i)) = length (sp_points (xs ! slot_idx q i))"
    by (auto simp: ldq_inv_def Let_def)
  from that [of k xs] k xs u show thesis
    by (simp only: ldq_capacity_def u32_pow2_less [OF k(1)])
qed

lemma slot_idx_mod:
  assumes "k < 32" and "qmask q = 2 ^ k - 1"
  shows "slot_idx q i = (unat (rd_idx q) + i) mod 2 ^ k"
proof -
  have d: "(2::nat) ^ k dvd 2 ^ LENGTH(32)" by (rule le_imp_power_dvd) (use assms(1) in simp)
  have "slot_idx q i = unat (rd_idx q + of_nat i) mod 2 ^ k"
    by (simp only: slot_idx_def assms(2) unat_and_mask)
  also have "\<dots> = (unat (rd_idx q) + i) mod 2 ^ k"
    using d by (simp only: unat_word_ariths unat_of_nat mod_mod_cancel mod_add_right_eq)
  finally show ?thesis .
qed

lemma wr_slot:
  "unat (wr_idx q AND qmask q) = slot_idx q (ldq_used q)"
proof -
  have "of_nat (ldq_used q) = wr_idx q - rd_idx q" by (simp add: ldq_used_def)
  then show ?thesis by (simp add: slot_idx_def)
qed

lemma mod_offset_eq:
  assumes "(a + i) mod m = (a + j) mod m" and "i \<le> j" and "j < i + m"
  shows "i = (j::nat)"
proof -
  from assms(1) have "m dvd (a + j) - (a + i)" by (metis mod_eq_dvd_iff_nat assms(2) add_le_mono le_refl)
  then have "m dvd j - i" by simp
  with assms(2,3) show ?thesis by (auto dest: dvd_imp_le)
qed

section \<open>Operations on the queue\<close>

lemma ldq_inv_new:
  assumes "k < 32"
  shows "ldq_inv \<lparr>storage_packet = new_packets (2 ^ k), rd_idx = 0, wr_idx = 0,
                  qmask = 2 ^ k - 1, qsize = 2 ^ k\<rparr>"
  unfolding ldq_inv_def new_packets_def using assms
  by (simp only: LidarDataQueue.simps slots.simps ldq_used_def heap_array.inject length_replicate)
    auto

lemma InitQueue_inv:
  assumes "storage_packet q \<noteq> Freed"
  obtains q' where "InitQueue (Some q) n = Ret (True, Some q')" "ldq_inv q'" "ldq_contents q' = []"
    "ldq_capacity q' = unat (if IsPowerOf2 n then n else RoundupPowerOf2 n)"
proof -
  let ?n = "if IsPowerOf2 n then n else RoundupPowerOf2 n"
  obtain k where k: "k < 32" "?n = 2 ^ k" by (metis IsPowerOf2_iff RoundupPowerOf2_pow2)
  let ?q = "\<lparr>storage_packet = new_packets ?n, rd_idx = 0, wr_idx = 0, qmask = ?n - 1, qsize = ?n\<rparr>"
  have "InitQueue (Some q) n = Ret (True, Some ?q)"
    using assms by (auto simp: InitQueue_def Let_def)
  moreover have "ldq_inv ?q" unfolding k(2) by (rule ldq_inv_new [OF k(1)])
  moreover have "ldq_contents ?q = []" by (simp add: ldq_contents_def ldq_used_def)
  ultimately show thesis using that by (simp add: ldq_capacity_def)
qed

lemma ldq_is_empty_iff: "QueueIsEmpty q \<longleftrightarrow> ldq_contents q = []"
proof -
  have "(rd_idx q = wr_idx q) = (wr_idx q - rd_idx q = 0)" by (metis right_minus_eq)
  then show ?thesis by (simp add: QueueIsEmpty_def ldq_contents_def ldq_used_def unsigned_eq_0_iff)
qed

lemma length_ldq_contents [simp]: "length (ldq_contents q) = ldq_used q"
  by (simp add: ldq_contents_def)

lemma ldq_is_full_iff:
  assumes "ldq_inv q"
  shows "QueueIsFull q \<longleftrightarrow> ldq_used q = ldq_capacity q"
proof -
  obtain k where k: "k < 32" "qmask q = 2 ^ k - 1" "ldq_capacity q = 2 ^ k" "ldq_used q \<le> 2 ^ k"
    using ldq_invE [OF assms] by metis
  have "unat ((2::u32) ^ k - 1) = 2 ^ k - 1"
    using u32_pow2_less [OF k(1)] by (metis unat_minus_one power_not_zero unsigned_0 zero_neq_numeral)
  then have "QueueIsFull q \<longleftrightarrow> 2 ^ k - 1 < ldq_used q"
    by (simp add: QueueIsFull_def word_less_nat_alt k(2) ldq_used_def)
  also have "\<dots> \<longleftrightarrow> ldq_used q = 2 ^ k" using k(4) by (auto simp: not_less_eq_eq intro!: le_antisym)
  finally show ?thesis by (simp add: k(3))
qed

lemma slot_at_idx:
  assumes "ldq_inv q"
  shows "slot_at q (rd_idx q AND qmask q) = Ret (slots (storage_packet q) ! slot_idx q 0)"
    and "slot_at q (wr_idx q AND qmask q) = Ret (slots (storage_packet q) ! slot_idx q (ldq_used q))"
    and "slot_idx q i < length (slots (storage_packet q))"
proof -
  obtain k xs where k: "k < 32" "qmask q = 2 ^ k - 1" "storage_packet q = Alloc xs" "length xs = 2 ^ k"
    using ldq_invE [OF assms] by metis
  have l: "slot_idx q i < length xs" for i by (simp add: slot_idx_mod [OF k(1,2)] k(4))
  have r: "unat (rd_idx q AND qmask q) = slot_idx q 0" by (simp add: slot_idx_def)
  show "slot_at q (rd_idx q AND qmask q) = Ret (slots (storage_packet q) ! slot_idx q 0)"
    unfolding slot_at_def r using l [of 0] by (simp add: k(3))
  show "slot_at q (wr_idx q AND qmask q) = Ret (slots (storage_packet q) ! slot_idx q (ldq_used q))"
    unfolding slot_at_def wr_slot using l by (simp add: k(3))
  show "slot_idx q i < length (slots (storage_packet q))" using l by (simp add: k(3))
qed

lemma ldq_PrePop:
  assumes "ldq_inv q" and "ldq_contents q = x # xs"
  shows "QueuePrePop (Some q) (Some p) =
           Ret (True, Some (p\<lparr>sp_base_time := fst x, sp_points_num := of_nat (length (snd x)),
                              sp_points := snd x\<rparr>))"
proof -
  let ?s = "slots (storage_packet q) ! slot_idx q 0"
  have n: "0 < ldq_used q" using assms(2) by (metis length_ldq_contents length_greater_0_conv list.discI)
  then have x: "x = packet_view ?s"
    using assms(2) by (simp add: ldq_contents_def upt_conv_Cons)
  have l: "unat (sp_points_num ?s) = length (sp_points ?s)"
    using assms(1) n by (simp add: ldq_inv_def Let_def)
  then have "copy_points (sp_points_num ?s) (sp_points ?s) = Ret (sp_points ?s)"
    by (simp add: copy_points_def)
  moreover have "of_nat (length (sp_points ?s)) = sp_points_num ?s" by (simp flip: l)
  moreover have "\<not> QueueIsEmpty q" using assms(2) by (simp add: ldq_is_empty_iff)
  ultimately show ?thesis
    using slot_at_idx(1) [OF assms(1)] by (simp add: QueuePrePop_def x packet_view_def)
qed

lemma ldq_PopUpdate:
  assumes "ldq_inv q" and "ldq_contents q = x # xs"
  shows "ldq_inv (QueuePopUpdate q)" and "ldq_contents (QueuePopUpdate q) = xs"
    and "ldq_capacity (QueuePopUpdate q) = ldq_capacity q"
proof -
  let ?q = "QueuePopUpdate q"
  have ne: "wr_idx q \<noteq> rd_idx q"
    using assms(2) ldq_is_empty_iff [of q] by (auto simp: QueueIsEmpty_def)
  have n: "Suc (ldq_used ?q) = ldq_used q"
    using unat_diff_Suc_right [OF ne] by (simp add: QueuePopUpdate_def ldq_used_def)
  have i: "slot_idx ?q i = slot_idx q (Suc i)" for i
    by (simp add: QueuePopUpdate_def slot_idx_def add.assoc)
  have s: "storage_packet ?q = storage_packet q" "qmask ?q = qmask q" "qsize ?q = qsize q"
    by (simp_all add: QueuePopUpdate_def)
  have "ldq_used ?q \<le> ldq_capacity q" using n assms(1) by (simp add: ldq_inv_def)
  then show "ldq_inv ?q" using assms(1) n
    unfolding ldq_inv_def ldq_capacity_def s i by (auto simp: Let_def)
  show "ldq_capacity ?q = ldq_capacity q" by (simp add: ldq_capacity_def s)
  have "ldq_contents q = packet_view (slots (storage_packet q) ! slot_idx q 0) # ldq_contents ?q"
    unfolding ldq_contents_def n [symmetric] s i
    by (simp only: map_upt_Suc)
  then show "ldq_contents ?q = xs" using assms(2) by simp
qed

lemma ldq_Pop:
  assumes "ldq_inv q" and "ldq_contents q = x # xs"
  shows "QueuePop (Some q) (Some p) =
           Ret (True, Some (QueuePopUpdate q),
                Some (p\<lparr>sp_base_time := fst x, sp_points_num := of_nat (length (snd x)),
                        sp_points := snd x\<rparr>))"
  by (simp add: QueuePop_def ldq_PrePop [OF assms])

lemma ldq_Pop_empty:
  "ldq_contents q = [] \<Longrightarrow> QueuePop (Some q) (Some p) = Ret (False, Some q, Some p)"
  by (simp add: QueuePop_def QueuePrePop_def ldq_is_empty_iff)

text \<open>A push that finds room appends; the masked write index never hits an unread slot.\<close>

lemma ldq_Push:
  assumes inv: "ldq_inv q" and room: "ldq_used q < ldq_capacity q"
    and mem: "unat (pp_points_num d) = length (pp_points d)"
  obtains q' where "QueuePushAny q d t = Ret (1, q')" "ldq_inv q'"
    "ldq_contents q' = ldq_contents q @ [(t, pp_points d)]" "ldq_capacity q' = ldq_capacity q"
proof -
  obtain k xs where k: "k < 32" "qsize q = 2 ^ k" "qmask q = 2 ^ k - 1" "ldq_capacity q = 2 ^ k"
    and xs: "storage_packet q = Alloc xs" "length xs = 2 ^ k"
    and ok: "\<And>i. i < ldq_used q \<Longrightarrow>
       unat (sp_points_num (xs ! slot_idx q i)) = length (sp_points (xs ! slot_idx q i))"
    using ldq_invE [OF inv] by metis
  let ?n = "ldq_used q" and ?s = "\<lparr>sp_base_time = t, sp_points_num = pp_points_num d,
    sp_points = pp_points d\<rparr>"
  let ?xs = "xs[slot_idx q ?n := ?s]"
  define q' where "q' = q\<lparr>storage_packet := Alloc ?xs, wr_idx := wr_idx q + 1\<rparr>"
  have "copy_points (pp_points_num d) (pp_points d) = Ret (pp_points d)"
    using mem by (simp add: copy_points_def)
  then have push: "QueuePushAny q d t = Ret (1, q')"
    using slot_at_idx(2) [OF inv] by (simp add: QueuePushAny_def Let_def wr_slot xs q'_def)
  have "(2::nat) ^ k < 2 ^ LENGTH(32)" by (rule power_strict_increasing) (use k(1) in simp_all)
  then have "Suc (unat (wr_idx q - rd_idx q)) < 2 ^ LENGTH(32)"
    using room unfolding k(4) ldq_used_def by linarith
  then have n: "ldq_used q' = Suc ?n"
    by (simp add: unat_diff_Suc_left ldq_used_def q'_def)
  have f: "slot_idx q' i = slot_idx q i" "qmask q' = qmask q" "qsize q' = qsize q"
    "storage_packet q' = Alloc ?xs" for i
    by (simp_all add: q'_def slot_idx_def)
  have old: "?xs ! slot_idx q i = xs ! slot_idx q i" if "i < ?n" for i
  proof -
    have "slot_idx q i \<noteq> slot_idx q ?n"
      using mod_offset_eq [of "unat (rd_idx q)" i "2 ^ k" ?n] that room
      by (auto simp: slot_idx_mod [OF k(1,3)] k(4))
    then show ?thesis by simp
  qed
  have new: "?xs ! slot_idx q ?n = ?s"
    using slot_at_idx(3) [OF inv, of ?n] by (simp add: xs)
  have slot: "unat (sp_points_num (?xs ! slot_idx q i)) = length (sp_points (?xs ! slot_idx q i))"
    if "i < Suc ?n" for i
    using that ok [of i] old [of i] new mem by (cases "i = ?n") auto
  have "ldq_inv q'"
    using k(1) room slot xs(2) u32_pow2_less [OF k(1)] unfolding ldq_inv_def ldq_capacity_def f n k(2,3)
    by (auto simp: Let_def)
  moreover have "ldq_contents q' = ldq_contents q @ [(t, pp_points d)]"
    using new old by (simp add: ldq_contents_def n f xs(1) packet_view_def)
  moreover have "ldq_capacity q' = ldq_capacity q" by (simp add: ldq_capacity_def f)
  ultimately show thesis using that push by blast
qed

section \<open>The ring buffer is a bounded queue\<close>

text \<open>The operations in the shape of the interface: what the consumer gets is the view of the
  packet \<open>QueuePop\<close> filled in, what the producer offers a packet in memory that it describes
  correctly.\<close>

definition ldq_pop :: "LidarDataQueue \<Rightarrow> ((u64 \<times> PointXyzlt list) \<times> LidarDataQueue) option" where
  "ldq_pop q =
     (case QueuePop (Some q) (Some \<lparr>sp_base_time = 0, sp_points_num = 0, sp_points = []\<rparr>) of
        Ret (True, Some q', Some p) \<Rightarrow> Some (packet_view p, q')
      | _ \<Rightarrow> None)"

definition ldq_push :: "u64 \<times> PointXyzlt list \<Rightarrow> LidarDataQueue \<Rightarrow> LidarDataQueue" where
  "ldq_push x q =
     (case QueuePushAny q \<lparr>pp_handle = 0, pp_lidar_type = kLivoxLidarType,
             pp_points_num = of_nat (length (snd x)), pp_points = snd x\<rparr> (fst x) of
        Ret (_, q') \<Rightarrow> q'
      | Undef \<Rightarrow> q)"

definition ldq_fits :: "u64 \<times> PointXyzlt list \<Rightarrow> bool" where
  "ldq_fits x = (length (snd x) < 2 ^ 32)"

interpretation ldq: bounded_fifo ldq_inv ldq_contents QueueIsEmpty ldq_pop ldq_capacity QueueIsFull
  ldq_fits ldq_push
proof unfold_locales
  fix q :: LidarDataQueue and x xs
  assume "ldq_inv q" "ldq_contents q = x # xs"
  with ldq_Pop [OF this] ldq_PopUpdate [OF this]
  show "\<exists>q'. ldq_pop q = Some (x, q') \<and> ldq_inv q' \<and> ldq_contents q' = xs"
    by (simp add: ldq_pop_def packet_view_def)
next
  fix q and x :: "u64 \<times> PointXyzlt list"
  assume *: "ldq_inv q" "\<not> QueueIsFull q" "ldq_fits x"
  then have "ldq_used q < ldq_capacity q"
    using ldq_is_full_iff [OF *(1)] by (simp add: ldq_inv_def)
  moreover have "unat (of_nat (length (snd x)) :: u32) = length (snd x)"
    using *(3) by (simp add: ldq_fits_def unat_of_nat)
  ultimately show "ldq_inv (ldq_push x q) \<and> ldq_contents (ldq_push x q) = ldq_contents q @ [x]
      \<and> ldq_capacity (ldq_push x q) = ldq_capacity q"
    by (auto intro: ldq_Push [OF *(1), where t = "fst x" and d = "\<lparr>pp_handle = 0,
          pp_lidar_type = kLivoxLidarType, pp_points_num = of_nat (length (snd x)),
          pp_points = snd x\<rparr>"] simp: ldq_push_def)
qed (simp_all add: ldq_is_empty_iff ldq_is_full_iff ldq_pop_def ldq_Pop_empty ldq_inv_def)

text \<open>Initialising a queue for \<open>n\<close> packets gives an empty ring buffer whose capacity is the least
  power of two not below \<open>n\<close>, or \<open>2 ^ 31\<close> when 32 bits hold no larger one.\<close>

theorem init_queue_capacity:
  assumes "storage_packet q \<noteq> Freed" and "n \<noteq> 0"
  shows "\<exists>q'. InitQueue (Some q) n = Ret (True, Some q') \<and> ldq_inv q' \<and> ldq_contents q' = []
    \<and> (unat n \<le> 2 ^ 31 \<longrightarrow> unat n \<le> ldq_capacity q' \<and> ldq_capacity q' < 2 * unat n)
    \<and> (2 ^ 31 < unat n \<longrightarrow> ldq_capacity q' = 2 ^ 31)"
proof -
  from InitQueue_inv [OF assms(1), of n] obtain q' where q': "InitQueue (Some q) n = Ret (True, Some q')" "ldq_inv q'"
    "ldq_contents q' = []" "ldq_capacity q' = unat (if IsPowerOf2 n then n else RoundupPowerOf2 n)" by metis
  have pos: "0 < unat n" using assms(2) by (simp add: unat_gt_0)
  have cap: "(unat n \<le> 2 ^ 31 \<longrightarrow> unat n \<le> ldq_capacity q' \<and> ldq_capacity q' < 2 * unat n)
      \<and> (2 ^ 31 < unat n \<longrightarrow> ldq_capacity q' = 2 ^ 31)"
  proof (cases "IsPowerOf2 n")
    case True
    then obtain k where k: "k < 32" "n = 2 ^ k" by (auto simp: IsPowerOf2_iff)
    have "unat n = 2 ^ k" using k u32_pow2_less by simp
    moreover have "(2 :: nat) ^ k \<le> 2 ^ 31" using k(1) by (intro power_increasing) simp_all
    ultimately show ?thesis using q'(4) True pos by simp
  next
    case False
    show ?thesis
    proof (rule RoundupPowerOf2_cases [of n])
      fix k assume k: "k < 32" "RoundupPowerOf2 n = 2 ^ k" "unat n \<le> 2 ^ k" "\<And>j. j < k \<Longrightarrow> 2 ^ j < unat n"
      have c: "ldq_capacity q' = 2 ^ k" using q'(4) False k(1,2) u32_pow2_less by simp
      have "(2 :: nat) ^ k < 2 * unat n"
      proof (cases k)
        case 0
        with pos show ?thesis by simp
      next
        case (Suc j)
        with k(4) [of j] show ?thesis by simp
      qed
      moreover have "(2 :: nat) ^ k \<le> 2 ^ 31" using k(1) by (intro power_increasing) simp_all
      ultimately show ?thesis using c k(3) by linarith
    next
      assume "2 ^ 31 < unat n" "RoundupPowerOf2 n = 2 ^ 31"
      then show ?thesis using q'(4) False u32_pow2_less [of 31] by simp
    qed
  qed
  with q' show ?thesis by blast
qed

text \<open>C4: The ring buffer refines a bounded first-in first-out queue: after any burst of packets the
  producer offers, wherever the 32-bit indices stand and however often they have wrapped, the queue
  holds what it held followed by the burst, cut at its capacity, and the consumer's loop ends, sees
  exactly these packets, oldest first, and leaves the queue empty.\<close>

theorem ring_buffer_refines_bounded_fifo:
  assumes "ldq_inv q" and "list_all ldq_fits burst"
  defines "q1 \<equiv> fold (\<lambda>x q. if QueueIsFull q then q else ldq_push x q) burst q"
  shows "ldq_contents q1 = take (ldq_capacity q) (ldq_contents q @ burst)
    \<and> (\<exists>q2. drain QueueIsEmpty ldq_pop body q1 acc =
               Some (q2, fold body (take (ldq_capacity q) (ldq_contents q @ burst)) acc)
         \<and> ldq_inv q2 \<and> ldq_contents q2 = [])"
proof -
  have c: "ldq_contents q1 = take (ldq_capacity q) (ldq_contents q @ burst)" and inv: "ldq_inv q1"
    using ldq.offer_all_contents [OF assms(1,2)] by (simp_all add: q1_def)
  from ldq.drain_all [OF inv, of body acc] c show ?thesis by simp
qed

section \<open>A concrete queue\<close>

text \<open>Four slots, with the indices just below the wrap.\<close>

definition ex_ldq :: LidarDataQueue where
  "ex_ldq = \<lparr>storage_packet = new_packets 4, rd_idx = - 2, wr_idx = - 2, qmask = 3, qsize = 4\<rparr>"

lemma ex_ldq_inv: "ldq_inv ex_ldq" "ldq_contents ex_ldq = []" "ldq_capacity ex_ldq = 4"
proof -
  have "\<exists>k \<in> {..<32}. (4 :: u32) = 2 ^ k" by (intro bexI [of _ 2]) simp_all
  then show "ldq_inv ex_ldq" by (simp add: ldq_inv_def ex_ldq_def new_packets_def ldq_used_def)
qed (simp_all add: ex_ldq_def ldq_contents_def ldq_used_def ldq_capacity_def)

theorem init_queue_capacity_witness:
  "\<exists>q. InitQueue (Some (ex_ldq\<lparr>storage_packet := Null\<rparr>)) 11 = Ret (True, Some q)
     \<and> 11 \<le> ldq_capacity q \<and> ldq_capacity q < 22"
proof -
  have "storage_packet (ex_ldq\<lparr>storage_packet := Null\<rparr>) \<noteq> Freed" "(11 :: u32) \<noteq> 0" by simp_all
  from init_queue_capacity [OF this] show ?thesis by auto
qed

theorem ring_buffer_refines_bounded_fifo_witness:
  "ldq_contents (fold (\<lambda>x q. if QueueIsFull q then q else ldq_push x q)
     [(1, []), (2, []), (3, []), (4, []), (5, [])] ex_ldq) = [(1, []), (2, []), (3, []), (4, [])]"
proof -
  have fits: "list_all ldq_fits [(1, []), (2, []), (3, []), (4, []), (5, [])]" by (simp add: ldq_fits_def)
  note main = ring_buffer_refines_bounded_fifo [OF ex_ldq_inv(1) fits, of "\<lambda>_ s. s" "()"]
  show ?thesis using conjunct1 [OF main] by (simp add: ex_ldq_inv)
qed

end
