(* ===== verification/Livox_Index.thy ===== *)
theory Livox_Index
  imports Livox_Types
begin

text \<open>
  The table that gives every LiDAR one of the 32 slots of the driver,
  \<^verbatim>\<open>livox_ros_driver2/src/comm/cache_index.h\<close> and \<^verbatim>\<open>cache_index.cpp\<close>, and the interface its
  clients rely on. A method is one atomic step: the SDK runs the callbacks that call these methods
  on one thread.
\<close>

section \<open>Model\<close>

text \<open>\<open>std::to_string\<close> of an unsigned number.\<close>

fun to_string :: "nat \<Rightarrow> string" where
  "to_string n =
     (if n < 10 then [char_of (48 + n)] else to_string (n div 10) @ [char_of (48 + n mod 10)])"

declare to_string.simps [simp del]

record CacheIndex =
  map_index :: "string \<Rightarrow> u8 option"
  index_cache :: "bool list"

definition new_CacheIndex :: CacheIndex where
  "new_CacheIndex = \<lparr>map_index = (\<lambda>_. None), index_cache = replicate kMaxSourceLidar False\<rparr>"

text \<open>The methods return \<open>0\<close> or \<open>-1\<close> and write an output parameter on success; the output parameter
  is an argument and part of the result.\<close>

definition GenerateIndexKey :: "u8 \<Rightarrow> u32 \<Rightarrow> string \<Rightarrow> int \<times> string" where
  "GenerateIndexKey livox_lidar_type handle key =
     (if livox_lidar_type = kLivoxLidarType
      then (0, ''livox_lidar_'' @ to_string (unat handle))
      else (- 1, key))"

text \<open>The loop of \<open>GetFreeIndex\<close> from slot \<open>i\<close>: the first slot not in use.\<close>

function first_free :: "nat \<Rightarrow> bool list \<Rightarrow> nat option" where
  "first_free i cache =
     (if i < kMaxSourceLidar
      then (if \<not> cache ! i then Some i else first_free (i + 1) cache)
      else None)"
  by pat_completeness auto
termination
  by (relation "measure (\<lambda>(i, c). kMaxSourceLidar - i)") auto

declare first_free.simps [simp del]

definition GetFreeIndex :: "u8 \<Rightarrow> u32 \<Rightarrow> u8 \<Rightarrow> CacheIndex \<Rightarrow> int \<times> u8 \<times> CacheIndex" where
  "GetFreeIndex livox_lidar_type handle index c =
     (case GenerateIndexKey livox_lidar_type handle [] of (ret, key) \<Rightarrow>
        if ret \<noteq> 0 then (- 1, index, c)
        else (case map_index c key of
                Some i \<Rightarrow> (0, i, c)
              | None \<Rightarrow>
                  (case first_free 0 (index_cache c) of
                     Some i \<Rightarrow> (0, of_nat i, \<lparr>map_index = (map_index c)(key \<mapsto> of_nat i),
                                             index_cache = (index_cache c)[i := True]\<rparr>)
                   | None \<Rightarrow> (- 1, index, c))))"

definition GetIndex :: "u8 \<Rightarrow> u32 \<Rightarrow> u8 \<Rightarrow> CacheIndex \<Rightarrow> int \<times> u8" where
  "GetIndex livox_lidar_type handle index c =
     (case GenerateIndexKey livox_lidar_type handle [] of (ret, key) \<Rightarrow>
        if ret \<noteq> 0 then (- 1, index)
        else (case map_index c key of Some i \<Rightarrow> (0, i) | None \<Rightarrow> (- 1, index)))"

definition LvxGetIndex :: "u8 \<Rightarrow> u32 \<Rightarrow> u8 \<Rightarrow> CacheIndex \<Rightarrow> int \<times> u8 \<times> CacheIndex" where
  "LvxGetIndex livox_lidar_type handle index c =
     (case GenerateIndexKey livox_lidar_type handle [] of (ret, key) \<Rightarrow>
        if ret \<noteq> 0 then (- 1, index, c)
        else (case map_index c key of
                Some i \<Rightarrow> (0, i, c)
              | None \<Rightarrow> GetFreeIndex livox_lidar_type handle index c))"

text \<open>\<open>ResetIndex\<close> reads the type and handle of the device it is given.\<close>

definition ResetIndex :: "u8 \<Rightarrow> u32 \<Rightarrow> CacheIndex \<Rightarrow> CacheIndex" where
  "ResetIndex lidar_type handle c =
     (case GenerateIndexKey lidar_type handle [] of (ret, key) \<Rightarrow>
        if ret \<noteq> 0 then c
        else (case map_index c key of
                Some i \<Rightarrow> \<lparr>map_index = (map_index c)(key := None),
                           index_cache = (index_cache c)[unat i := False]\<rparr>
              | None \<Rightarrow> c))"

section \<open>Keys are distinct\<close>

lemma to_string_less10: "n < 10 \<Longrightarrow> to_string n = [char_of (48 + n)]"
  by (subst to_string.simps) simp

lemma to_string_ge10:
  "10 \<le> n \<Longrightarrow> to_string n = to_string (n div 10) @ [char_of (48 + n mod 10)]"
  by (subst to_string.simps) simp

lemma to_string_not_Nil [simp]: "to_string n \<noteq> []"
  by (subst to_string.simps) simp

lemma Nil_not_to_string [simp]: "[] \<noteq> to_string n"
  by (metis to_string_not_Nil)

lemma digit_char_inj: "a < 10 \<Longrightarrow> b < 10 \<Longrightarrow> (char_of (48 + a) = (char_of (48 + b) :: char)) = (a = (b::nat))"
  by (simp add: char_of_eq_iff take_bit_eq_mod)

lemma to_string_inj: "to_string m = to_string n \<Longrightarrow> m = n"
proof (induction m arbitrary: n rule: less_induct)
  case (less m)
  show ?case
  proof (cases "m < 10 \<or> n < 10")
    case True
    with less.prems show ?thesis
      by (cases "m < 10"; cases "n < 10")
        (auto simp: to_string_less10 to_string_ge10 digit_char_inj not_less)
  next
    case False
    then have "to_string (m div 10) = to_string (n div 10)" and d: "m mod 10 = n mod 10"
      using less.prems by (simp_all add: to_string_ge10 digit_char_inj not_less)
    with False have "m div 10 = n div 10" by (intro less.IH) auto
    with d show ?thesis by (metis div_mult_mod_eq)
  qed
qed

definition index_key :: "u32 \<Rightarrow> string" where
  "index_key handle = ''livox_lidar_'' @ to_string (unat handle)"

lemma index_key_inj: "(index_key h = index_key h') = (h = h')"
  by (auto simp: index_key_def dest: to_string_inj unsigned_word_eqI)

lemma GenerateIndexKey_livox [simp]:
  "GenerateIndexKey kLivoxLidarType h key = (0, index_key h)"
  by (simp add: GenerateIndexKey_def index_key_def)

section \<open>Invariant\<close>

text \<open>A slot is marked used exactly when a device owns it, and no two devices own one slot. Only
  keys of the form \<open>livox_lidar_<handle>\<close> occur.\<close>

definition ci_inv :: "CacheIndex \<Rightarrow> bool" where
  "ci_inv c =
     (length (index_cache c) = kMaxSourceLidar
      \<and> inj_on (map_index c) (dom (map_index c))
      \<and> (\<forall>i \<in> {..<kMaxSourceLidar}. index_cache c ! i = (of_nat i \<in> ran (map_index c)))
      \<and> (\<forall>i \<in> ran (map_index c). unat i < kMaxSourceLidar))"

definition slot_of :: "CacheIndex \<Rightarrow> u32 \<Rightarrow> nat option" where
  "slot_of c h = map_option unat (map_index c (index_key h))"

definition slots_used :: "CacheIndex \<Rightarrow> nat set" where
  "slots_used c = {i \<in> {..<kMaxSourceLidar}. index_cache c ! i}"

lemma unat_of_nat_u8: "i < kMaxSourceLidar \<Longrightarrow> unat (of_nat i :: u8) = i"
  by (simp add: kMaxSourceLidar_def unat_of_nat)

lemma of_nat_u8_eq: "i < kMaxSourceLidar \<Longrightarrow> (of_nat i = (w :: u8)) = (i = unat w)"
  using unat_of_nat_u8 by auto

lemma ci_inv_new: "ci_inv new_CacheIndex"
  by (auto simp: ci_inv_def new_CacheIndex_def)

lemma first_free_Some:
  "first_free i cache = Some j \<Longrightarrow> i \<le> j \<and> j < kMaxSourceLidar \<and> \<not> cache ! j \<and> (\<forall>m \<in> {i..<j}. cache ! m)"
proof (induction i cache rule: first_free.induct)
  case (1 i cache)
  show ?case
  proof (cases "i < kMaxSourceLidar \<and> cache ! i")
    case True
    with 1 have "i + 1 \<le> j \<and> j < kMaxSourceLidar \<and> \<not> cache ! j \<and> (\<forall>m \<in> {i + 1..<j}. cache ! m)"
      by (simp add: first_free.simps [of i cache])
    with True show ?thesis by (metis Suc_eq_plus1 Suc_leD atLeastLessThan_iff le_eq_less_or_eq Suc_leI)
  next
    case False
    with 1(2) show ?thesis by (subst (asm) first_free.simps) (auto split: if_splits)
  qed
qed

lemma first_free_None:
  "first_free i cache = None \<longleftrightarrow> (\<forall>m \<in> {i..<kMaxSourceLidar}. cache ! m)"
proof (induction i cache rule: first_free.induct)
  case (1 i cache)
  show ?case
  proof (cases "i < kMaxSourceLidar \<and> cache ! i")
    case True
    then have "{i..<kMaxSourceLidar} = insert i {i + 1..<kMaxSourceLidar}" by auto
    with 1 True show ?thesis by (simp add: first_free.simps [of i cache])
  next
    case False
    then show ?thesis by (subst first_free.simps) auto
  qed
qed

lemma ci_slot_bound: "ci_inv c \<Longrightarrow> slot_of c h = Some i \<Longrightarrow> i < kMaxSourceLidar"
  by (auto simp: ci_inv_def slot_of_def ran_def)

lemma ci_slot_inj: "ci_inv c \<Longrightarrow> slot_of c h = Some i \<Longrightarrow> slot_of c h' = Some i \<Longrightarrow> h = h'"
proof -
  assume "ci_inv c" "slot_of c h = Some i" "slot_of c h' = Some i"
  then obtain w where "map_index c (index_key h) = Some w" "map_index c (index_key h') = Some w"
    "inj_on (map_index c) (dom (map_index c))"
    by (auto simp: ci_inv_def slot_of_def dest!: unsigned_word_eqI)
  then have "index_key h = index_key h'" by (auto simp: inj_on_def dom_def)
  then show "h = h'" by (simp add: index_key_inj)
qed

lemma GetIndex_slot_of:
  "GetIndex kLivoxLidarType h index c =
     (case slot_of c h of Some i \<Rightarrow> (0, of_nat i) | None \<Rightarrow> (- 1, index))"
  by (simp add: GetIndex_def slot_of_def split: option.split)

lemma GetFreeIndex_known:
  "slot_of c h = Some i \<Longrightarrow> GetFreeIndex kLivoxLidarType h index c = (0, of_nat i, c)"
  by (auto simp: GetFreeIndex_def slot_of_def)

lemma GetFreeIndex_full:
  assumes "slot_of c h = None" and "slots_used c = {..<kMaxSourceLidar}"
  shows "GetFreeIndex kLivoxLidarType h index c = (- 1, index, c)"
proof -
  have "m \<in> slots_used c" if "m < kMaxSourceLidar" for m
    unfolding assms(2) using that by simp
  then have "first_free 0 (index_cache c) = None"
    unfolding first_free_None slots_used_def by simp
  with assms(1) show ?thesis by (simp add: GetFreeIndex_def slot_of_def)
qed

text \<open>A new device takes a slot nobody owns and disturbs no other device.\<close>

lemma GetFreeIndex_new:
  assumes inv: "ci_inv c" and new: "slot_of c h = None" and "slots_used c \<noteq> {..<kMaxSourceLidar}"
  obtains i c' where "GetFreeIndex kLivoxLidarType h index c = (0, of_nat i, c')" "ci_inv c'"
    "i \<notin> slots_used c" "i < kMaxSourceLidar" "slots_used c' = insert i (slots_used c)"
    "\<And>h'. slot_of c' h' = (if h' = h then Some i else slot_of c h')"
proof -
  have "slots_used c \<subseteq> {..<kMaxSourceLidar}" by (auto simp: slots_used_def)
  with assms(3) obtain m where "m < kMaxSourceLidar" "m \<notin> slots_used c" by blast
  then have "first_free 0 (index_cache c) \<noteq> None"
    unfolding first_free_None slots_used_def by auto
  then obtain i where i: "first_free 0 (index_cache c) = Some i" by blast
  from first_free_Some [OF i] have il: "i < kMaxSourceLidar" and free: "\<not> index_cache c ! i" by auto
  have len: "length (index_cache c) = kMaxSourceLidar" using inv by (simp add: ci_inv_def)
  have key: "map_index c (index_key h) = None" using new by (simp add: slot_of_def)
  have nran: "of_nat i \<notin> ran (map_index c)" using inv il free by (simp add: ci_inv_def)
  let ?c = "\<lparr>map_index = (map_index c)(index_key h \<mapsto> of_nat i),
             index_cache = (index_cache c)[i := True]\<rparr>"
  have ran: "ran (map_index ?c) = insert (of_nat i) (ran (map_index c))"
    using key by (simp add: ran_map_upd)
  have "inj_on (map_index ?c) (dom (map_index ?c))"
    using inv nran by (auto simp: ci_inv_def inj_on_def ran_def)
  moreover have "index_cache ?c ! j = (of_nat j \<in> ran (map_index ?c))" if "j < kMaxSourceLidar" for j
    using inv that il len unfolding ran
    by (cases "j = i") (auto simp: ci_inv_def of_nat_u8_eq unat_of_nat_u8)
  moreover have "unat j < kMaxSourceLidar" if "j \<in> ran (map_index ?c)" for j
    using that inv il unfolding ran by (auto simp: ci_inv_def unat_of_nat_u8)
  ultimately have "ci_inv ?c" by (simp add: ci_inv_def len)
  moreover have "GetFreeIndex kLivoxLidarType h index c = (0, of_nat i, ?c)"
    by (simp add: GetFreeIndex_def key i)
  moreover have "slots_used ?c = insert i (slots_used c)"
    using il len by (auto simp: slots_used_def nth_list_update)
  moreover have "slot_of ?c h' = (if h' = h then Some i else slot_of c h')" for h'
    using il by (simp add: slot_of_def index_key_inj unat_of_nat_u8)
  moreover have "i \<notin> slots_used c" using free by (simp add: slots_used_def)
  ultimately show thesis using that il by blast
qed

lemma ResetIndex_inv [inv_intros]:
  assumes inv: "ci_inv c"
  shows "ci_inv (ResetIndex kLivoxLidarType h c)"
    and "slot_of (ResetIndex kLivoxLidarType h c) h' = (if h' = h then None else slot_of c h')"
proof -
  show "slot_of (ResetIndex kLivoxLidarType h c) h' = (if h' = h then None else slot_of c h')"
    by (auto simp: ResetIndex_def slot_of_def index_key_inj split: option.split)
  show "ci_inv (ResetIndex kLivoxLidarType h c)"
  proof (cases "map_index c (index_key h)")
    case None
    with inv show ?thesis by (simp add: ResetIndex_def)
  next
    case (Some w)
    let ?m = "(map_index c)(index_key h := None)"
    have inj: "inj_on (map_index c) (dom (map_index c))" using inv by (simp add: ci_inv_def)
    have ran: "ran ?m = ran (map_index c) - {w}"
      using inj Some by (auto simp: ran_def inj_on_def dom_def split: if_splits) (metis option.inject)
    have "inj_on ?m (dom ?m)" using inj by (auto simp: inj_on_def)
    moreover have "unat w < kMaxSourceLidar" using inv Some by (auto simp: ci_inv_def ran_def)
    ultimately show ?thesis
      using inv Some unfolding ci_inv_def ResetIndex_def
      by (auto simp: ran nth_list_update of_nat_u8_eq)
  qed
qed

section \<open>The interface of the table\<close>

text \<open>What the table's clients rely on: who owns which slot, and that claiming a slot for a device
  disturbs no other device.\<close>

locale slot_registry =
  fixes rinv :: "'r \<Rightarrow> bool"
    and owner :: "'r \<Rightarrow> 'h \<Rightarrow> nat option"
    and used :: "'r \<Rightarrow> nat set"
    and claim :: "'h \<Rightarrow> 'r \<Rightarrow> 'r"
    and slot_count :: nat
  assumes used_bound: "rinv r \<Longrightarrow> used r \<subseteq> {..<slot_count}"
    and owner_used: "rinv r \<Longrightarrow> owner r h = Some i \<Longrightarrow> i \<in> used r"
    and owner_inj: "rinv r \<Longrightarrow> owner r h = Some i \<Longrightarrow> owner r h' = Some i \<Longrightarrow> h = h'"
    and claim_known: "rinv r \<Longrightarrow> owner r h = Some i \<Longrightarrow> claim h r = r"
    and claim_fresh: "rinv r \<Longrightarrow> owner r h = None \<Longrightarrow> used r \<noteq> {..<slot_count} \<Longrightarrow>
          \<exists>i. i \<notin> used r \<and> rinv (claim h r) \<and> used (claim h r) = insert i (used r)
              \<and> owner (claim h r) = (owner r)(h := Some i)"
begin

lemma claim_all:
  "rinv r \<Longrightarrow> distinct hs \<Longrightarrow> card (used r) + length hs \<le> slot_count \<Longrightarrow>
   rinv (fold claim hs r)
   \<and> (\<forall>h \<in> set hs. owner (fold claim hs r) h \<noteq> None)
   \<and> (\<forall>h. owner r h \<noteq> None \<longrightarrow> owner (fold claim hs r) h = owner r h)"
proof (induction hs arbitrary: r)
  case Nil
  then show ?case by simp
next
  case (Cons h hs)
  show ?case
  proof (cases "owner r h")
    case (Some i)
    then have c: "claim h r = r" using Cons.prems(1) by (simp add: claim_known)
    have "card (used r) + length hs \<le> slot_count" "distinct hs" using Cons.prems by simp_all
    with Cons.IH [OF Cons.prems(1)] Some show ?thesis unfolding fold_Cons comp_apply c
      by (metis set_ConsD option.distinct(1))
  next
    case None
    have "card (used r) < slot_count" using Cons.prems(3) by simp
    then have "used r \<noteq> {..<slot_count}" by (metis card_lessThan less_irrefl)
    from claim_fresh [OF Cons.prems(1) None this] obtain i where
      i: "i \<notin> used r" "rinv (claim h r)" "used (claim h r) = insert i (used r)"
        "owner (claim h r) = (owner r)(h := Some i)" by blast
    have "finite (used r)" using used_bound [OF Cons.prems(1)] finite_subset by blast
    with i(1,3) Cons.prems(3) have "card (used (claim h r)) + length hs \<le> slot_count" by simp
    with Cons.IH [OF i(2)] Cons.prems(2)
    have *: "rinv (fold claim hs (claim h r))"
      "\<forall>h' \<in> set hs. owner (fold claim hs (claim h r)) h' \<noteq> None"
      "\<And>h'. owner (claim h r) h' \<noteq> None \<Longrightarrow> owner (fold claim hs (claim h r)) h' = owner (claim h r) h'"
      by auto
    have "owner (fold claim hs (claim h r)) h \<noteq> None" using *(3) [of h] i(4) by simp
    moreover have "owner (fold claim hs (claim h r)) h' = owner r h'" if "owner r h' \<noteq> None" for h'
      using *(3) [of h'] i(4) None that by (auto split: if_splits)
    ultimately show ?thesis using *(1,2) by simp
  qed
qed

text \<open>Distinct devices that hold slots hold distinct ones.\<close>

lemma owners_distinct:
  "rinv r \<Longrightarrow> h \<noteq> h' \<Longrightarrow> owner r h = Some i \<Longrightarrow> owner r h' = Some i' \<Longrightarrow> i \<noteq> i'"
  using owner_inj by blast

end

definition claim_slot :: "u32 \<Rightarrow> CacheIndex \<Rightarrow> CacheIndex" where
  "claim_slot h c = snd (snd (GetFreeIndex kLivoxLidarType h 0 c))"

lemma slot_of_used: "ci_inv c \<Longrightarrow> slot_of c h = Some i \<Longrightarrow> i \<in> slots_used c"
  using ci_slot_bound [of c h i]
  by (auto simp: ci_inv_def slots_used_def slot_of_def intro: ranI)

lemma claim_slot_known: "slot_of c h = Some i \<Longrightarrow> claim_slot h c = c"
  by (simp add: claim_slot_def GetFreeIndex_known)

interpretation ci: slot_registry ci_inv slot_of slots_used claim_slot kMaxSourceLidar
proof (rule slot_registry.intro)
  fix c :: CacheIndex and h
  assume *: "ci_inv c" "slot_of c h = None" "slots_used c \<noteq> {..<kMaxSourceLidar}"
  obtain i c' where "GetFreeIndex kLivoxLidarType h 0 c = (0, of_nat i, c')" "ci_inv c'"
    "i \<notin> slots_used c" "slots_used c' = insert i (slots_used c)"
    "\<And>h'. slot_of c' h' = (if h' = h then Some i else slot_of c h')"
    using GetFreeIndex_new [OF *] by metis
  then show "\<exists>i. i \<notin> slots_used c \<and> ci_inv (claim_slot h c)
      \<and> slots_used (claim_slot h c) = insert i (slots_used c)
      \<and> slot_of (claim_slot h c) = (slot_of c)(h := Some i)"
    by (intro exI [of _ i]) (auto simp: claim_slot_def)
next
  show "slots_used c \<subseteq> {..<kMaxSourceLidar}" for c by (auto simp: slots_used_def)
qed (auto dest: slot_of_used intro: ci_slot_inj simp: claim_slot_known)

text \<open>C38: Slots are exclusive and stable: when distinct devices claim slots and there are enough, every
  one of them ends up with a slot below 32, no two share one, and a device that had a slot before keeps
  it, in whatever order the claims come; releasing one device's slot takes no other device's.\<close>

theorem slots_exclusive_and_stable:
  assumes "ci_inv c" and "distinct hs" and "card (slots_used c) + length hs \<le> kMaxSourceLidar"
  defines "c1 \<equiv> fold claim_slot hs c"
  shows "ci_inv c1
    \<and> (\<forall>h \<in> set hs. \<exists>i < kMaxSourceLidar. slot_of c1 h = Some i)
    \<and> (\<forall>h h' i. slot_of c1 h = Some i \<and> slot_of c1 h' = Some i \<longrightarrow> h = h')
    \<and> (\<forall>h i. slot_of c h = Some i \<longrightarrow> slot_of c1 h = Some i)
    \<and> (\<forall>h h'. slot_of (ResetIndex kLivoxLidarType h c1) h' = (if h' = h then None else slot_of c1 h'))"
proof -
  note all = ci.claim_all [OF assms(1-3), folded c1_def]
  have inv: "ci_inv c1" using all by blast
  have "\<exists>i < kMaxSourceLidar. slot_of c1 h = Some i" if "h \<in> set hs" for h
  proof -
    have "slot_of c1 h \<noteq> None" using all that by simp
    then obtain i where "slot_of c1 h = Some i" by auto
    with ci_slot_bound [OF inv this] show ?thesis by blast
  qed
  moreover have "slot_of c1 h = Some i" if "slot_of c h = Some i" for h i using all that by simp
  moreover have "h = h'" if "slot_of c1 h = Some i \<and> slot_of c1 h' = Some i" for h h' i
    using ci_slot_inj [OF inv] that by blast
  moreover have "slot_of (ResetIndex kLivoxLidarType h c1) h' = (if h' = h then None else slot_of c1 h')" for h h'
    by (rule ResetIndex_inv(2) [OF inv])
  ultimately show ?thesis using inv by (intro conjI) simp_all
qed

theorem slots_exclusive_and_stable_witness:
  "slot_of (fold claim_slot [7, 9] new_CacheIndex) 7 \<noteq> None
   \<and> slot_of (fold claim_slot [7, 9] new_CacheIndex) 7 \<noteq> slot_of (fold claim_slot [7, 9] new_CacheIndex) 9"
proof -
  have "slots_used new_CacheIndex = {}" by (auto simp: slots_used_def new_CacheIndex_def)
  then have room: "card (slots_used new_CacheIndex) + length [7, 9 :: u32] \<le> kMaxSourceLidar"
    by (simp add: kMaxSourceLidar_def)
  have dist: "distinct [7, 9 :: u32]" by simp
  note main = slots_exclusive_and_stable [OF ci_inv_new dist room]
  obtain i j where i: "slot_of (fold claim_slot [7, 9] new_CacheIndex) 7 = Some i"
    and j: "slot_of (fold claim_slot [7, 9] new_CacheIndex) 9 = Some j"
    using main [THEN conjunct2, THEN conjunct1] by auto
  have "i \<noteq> j"
  proof
    assume "i = j"
    then have "(7 :: u32) = 9" using main [THEN conjunct2, THEN conjunct2, THEN conjunct1] i j by blast
    then show False by simp
  qed
  with i j show ?thesis by simp
qed

end
