(* ===== verification/Livox_ImuQueue.thy ===== *)
theory Livox_ImuQueue
  imports Fifo Livox_Types
begin

text \<open>
  The unbounded list of IMU samples of one LiDAR and the counting semaphore that wakes the
  publishing threads: \<^verbatim>\<open>livox_ros_driver2/src/comm/lidar_imu_data_queue.h\<close>, \<^verbatim>\<open>.cpp\<close> and
  \<^verbatim>\<open>semaphore.h\<close>, \<^verbatim>\<open>.cpp\<close>. Every operation runs under the object's mutex, so it is one
  atomic step here.
\<close>

section \<open>IMU queue\<close>

record RawImuPoint =
  raw_gyro_x :: f32
  raw_gyro_y :: f32
  raw_gyro_z :: f32
  raw_acc_x :: f32
  raw_acc_y :: f32
  raw_acc_z :: f32

record ImuData =
  imu_lidar_type :: u8
  imu_handle :: u32
  imu_slot :: u8
  imu_time_stamp :: u64
  imu_gyro_x :: f32
  imu_gyro_y :: f32
  imu_gyro_z :: f32
  imu_acc_x :: f32
  imu_acc_y :: f32
  imu_acc_z :: f32

type_synonym LidarImuDataQueue = "ImuData list"

text \<open>\<open>Push\<close> copies the sample field by field into a local and does not copy \<open>slot\<close>: the queued
  element keeps whatever the local held, the parameter \<open>junk\<close>.\<close>

definition ImuQueue_Push :: "u8 \<Rightarrow> ImuData \<Rightarrow> LidarImuDataQueue \<Rightarrow> LidarImuDataQueue" where
  "ImuQueue_Push junk imu_data q =
     q @ [\<lparr>imu_lidar_type = imu_lidar_type imu_data, imu_handle = imu_handle imu_data,
           imu_slot = junk, imu_time_stamp = imu_time_stamp imu_data,
           imu_gyro_x = imu_gyro_x imu_data, imu_gyro_y = imu_gyro_y imu_data,
           imu_gyro_z = imu_gyro_z imu_data, imu_acc_x = imu_acc_x imu_data,
           imu_acc_y = imu_acc_y imu_data, imu_acc_z = imu_acc_z imu_data\<rparr>]"

definition ImuQueue_Pop ::
  "ImuData \<Rightarrow> LidarImuDataQueue \<Rightarrow> bool \<times> ImuData \<times> LidarImuDataQueue" where
  "ImuQueue_Pop imu_data q =
     (case q of [] \<Rightarrow> (False, imu_data, q) | x # xs \<Rightarrow> (True, x, xs))"

definition ImuQueue_Empty :: "LidarImuDataQueue \<Rightarrow> bool" where
  "ImuQueue_Empty q = (q = [])"

definition ImuQueue_Clear :: "LidarImuDataQueue \<Rightarrow> LidarImuDataQueue" where
  "ImuQueue_Clear q = []"

text \<open>The consumer's view of a pop.\<close>

definition imu_pop :: "LidarImuDataQueue \<Rightarrow> (ImuData \<times> LidarImuDataQueue) option" where
  "imu_pop q =
     (case q of
        [] \<Rightarrow> None
      | x # _ \<Rightarrow> (case ImuQueue_Pop x q of (ok, y, q') \<Rightarrow> if ok then Some (y, q') else None))"

interpretation imuq: fifo "\<lambda>_. True" "\<lambda>q. q" ImuQueue_Empty imu_pop
  by unfold_locales (auto simp: ImuQueue_Empty_def imu_pop_def ImuQueue_Pop_def)

lemma ImuQueue_Push_snoc:
  "ImuQueue_Push junk d q = q @ [d\<lparr>imu_slot := junk\<rparr>]"
  by (simp add: ImuQueue_Push_def)

section \<open>Semaphore\<close>

text \<open>\<open>Wait\<close> blocks until the count is positive: \<open>None\<close> is a blocked caller.\<close>

definition Semaphore_Signal :: "int \<Rightarrow> int" where
  "Semaphore_Signal count = count + 1"

definition Semaphore_Wait :: "int \<Rightarrow> int option" where
  "Semaphore_Wait count = (if count > 0 then Some (count - 1) else None)"

definition Semaphore_GetCount :: "int \<Rightarrow> int" where
  "Semaphore_GetCount count = count"

text \<open>The producers' idiom: signal only when no signal is pending.\<close>

definition signal_if_none :: "int \<Rightarrow> int" where
  "signal_if_none count =
     (if Semaphore_GetCount count \<le> 0 then Semaphore_Signal count else count)"

lemma signal_if_none_pos: "0 \<le> count \<Longrightarrow> 0 < signal_if_none count"
  by (simp add: signal_if_none_def Semaphore_GetCount_def Semaphore_Signal_def)

end
