(* ===== verification/Livox_Pub.thy ===== *)
theory Livox_Pub
  imports Livox_ImuQueue Geometry
begin

text \<open>
  The packet handler of the driver, \<^verbatim>\<open>livox_ros_driver2/src/comm/pub_handler.h\<close> and
  \<^verbatim>\<open>pub_handler.cpp\<close>: the timestamp normalisation per device and stream, the conversion of raw packets
  to points, and the timer that cuts the points of a device into frames. Clocks are arguments in
  nanoseconds; the layout of the SDK's packets is the record \<open>sdk\<close>; the callbacks' frames are results.
\<close>

section \<open>Timestamps\<close>

text \<open>Signed 64-bit results. A signed sum outside the range is undefined in C++.\<close>

definition fits_i64 :: "int \<Rightarrow> bool" where
  "fits_i64 x = (- (2 ^ 63) \<le> x \<and> x < 2 ^ 63)"

definition kTimestampJumpThresholdNs :: int where
  "kTimestampJumpThresholdNs = 500000000"

definition ApplyTimestampCorrection :: "u64 \<Rightarrow> int \<Rightarrow> u64 exec" where
  "ApplyTimestampCorrection timestamp correction =
     (let corrected = sint timestamp + correction
      in if \<not> fits_i64 corrected then Undef
         else Ret (if corrected > 0 then of_int corrected else 1))"

record StreamTimestampState =
  st_initialized :: bool
  st_correction_ns :: int
  st_last_raw_ns :: u64
  st_last_normalized_ns :: u64
  st_last_arrival :: int
  st_correction_count :: u64

definition new_stream :: StreamTimestampState where
  "new_stream = \<lparr>st_initialized = False, st_correction_ns = 0, st_last_raw_ns = 0,
     st_last_normalized_ns = 0, st_last_arrival = 0, st_correction_count = 0\<rparr>"

record DeviceTimestampState =
  dt_initialized :: bool
  dt_origin_timestamp_ns :: u64
  dt_origin_arrival :: int
  dt_lidar :: StreamTimestampState
  dt_imu :: StreamTimestampState

definition new_device :: DeviceTimestampState where
  "new_device = \<lparr>dt_initialized = False, dt_origin_timestamp_ns = 0, dt_origin_arrival = 0,
     dt_lidar = new_stream, dt_imu = new_stream\<rparr>"

definition dt_stream :: "bool \<Rightarrow> DeviceTimestampState \<Rightarrow> StreamTimestampState" where
  "dt_stream is_imu d = (if is_imu then dt_imu d else dt_lidar d)"

definition set_stream :: "bool \<Rightarrow> StreamTimestampState \<Rightarrow> DeviceTimestampState \<Rightarrow> DeviceTimestampState" where
  "set_stream is_imu st d = (if is_imu then d\<lparr>dt_imu := st\<rparr> else d\<lparr>dt_lidar := st\<rparr>)"

text \<open>\<open>now\<close> is the steady clock. The log output and its rate limit are left out.\<close>

definition NormalizeStream ::
  "int \<Rightarrow> int \<Rightarrow> u64 \<Rightarrow> StreamTimestampState \<Rightarrow> (u64 \<times> StreamTimestampState) exec" where
  "NormalizeStream now expected_from_origin raw_timestamp st =
     (if \<not> st_initialized st
      then (let correction = expected_from_origin - sint raw_timestamp
            in if \<not> fits_i64 correction then Undef
               else bind_exec (ApplyTimestampCorrection raw_timestamp correction) (\<lambda>normalized.
                    Ret (normalized,
                         st\<lparr>st_initialized := True, st_correction_ns := correction,
                            st_last_raw_ns := raw_timestamp, st_last_normalized_ns := normalized,
                            st_last_arrival := now\<rparr>)))
      else
        (let raw_delta = sint raw_timestamp - sint (st_last_raw_ns st);
             arrival_delta = now - st_last_arrival st
         in bind_exec (ApplyTimestampCorrection raw_timestamp (st_correction_ns st)) (\<lambda>normalized.
            let origin_error = sint normalized - expected_from_origin
            in if \<not> (fits_i64 raw_delta \<and> fits_i64 arrival_delta \<and> fits_i64 origin_error
                      \<and> fits_i64 (raw_delta - arrival_delta)) then Undef
               else
                 let raw_jump = \<bar>raw_delta - arrival_delta\<bar> > kTimestampJumpThresholdNs;
                     timeline_split = \<bar>origin_error\<bar> > kTimestampJumpThresholdNs
                 in if raw_jump \<or> timeline_split
                    then (let normalized = st_last_normalized_ns st + of_int (max arrival_delta 1);
                              correction = sint normalized - sint raw_timestamp
                          in if \<not> fits_i64 correction then Undef
                             else Ret (normalized,
                                    st\<lparr>st_correction_ns := correction,
                                       st_correction_count := st_correction_count st + 1,
                                       st_last_raw_ns := raw_timestamp,
                                       st_last_normalized_ns := normalized, st_last_arrival := now\<rparr>))
                    else (let normalized = (if normalized \<le> st_last_normalized_ns st
                                            then st_last_normalized_ns st + 1 else normalized)
                          in Ret (normalized,
                               st\<lparr>st_last_raw_ns := raw_timestamp,
                                  st_last_normalized_ns := normalized, st_last_arrival := now\<rparr>)))))"

text \<open>\<open>NormalizeTimestamp\<close> on the state of the device's handle, fresh if there is none.\<close>

definition NormalizeTimestamp ::
  "int \<Rightarrow> u64 \<Rightarrow> bool \<Rightarrow> DeviceTimestampState \<Rightarrow> (u64 \<times> DeviceTimestampState) exec" where
  "NormalizeTimestamp now raw_timestamp is_imu d =
     (let d = (if \<not> dt_initialized d
               then d\<lparr>dt_initialized := True, dt_origin_timestamp_ns := raw_timestamp, dt_origin_arrival := now\<rparr>
               else d);
          expected = sint (dt_origin_timestamp_ns d) + (now - dt_origin_arrival d)
      in if \<not> fits_i64 expected then Undef
         else bind_exec (NormalizeStream now expected raw_timestamp (dt_stream is_imu d)) (\<lambda>(ts, st).
              Ret (ts, set_stream is_imu st d)))"

definition GetEthPacketTimestamp :: "u64 \<Rightarrow> u8 \<Rightarrow> u64 \<Rightarrow> u64" where
  "GetEthPacketTimestamp system_now timestamp_type time_stamp =
     (if timestamp_type = kTimestampTypeGptpOrPtp \<or> timestamp_type = kTimestampTypeGps
      then time_stamp else system_now)"

section \<open>Packets\<close>

text \<open>The raw points of the SDK as numbers. The record \<open>sdk\<close> holds what its headers define: how
  points and IMU samples lie in the bytes, the size of the packet header in front of the data, and the
  values of the enumerations.\<close>

record raw_cart =
  rc_x :: int
  rc_y :: int
  rc_z :: int
  rc_reflectivity :: u8
  rc_tag :: u8

record raw_spher =
  rs_depth :: nat
  rs_theta :: nat
  rs_phi :: nat
  rs_reflectivity :: u8
  rs_tag :: u8

record sdk =
  sdk_high :: "u8 list \<Rightarrow> raw_cart list"
  sdk_low :: "u8 list \<Rightarrow> raw_cart list"
  sdk_spher :: "u8 list \<Rightarrow> raw_spher list"
  sdk_imu :: "u8 list \<Rightarrow> RawImuPoint"
  sdk_packet_size :: nat
  sdk_kLivoxLidarImuData :: u8
  sdk_kLivoxLidarCartesianCoordinateHighData :: u8
  sdk_kLivoxLidarCartesianCoordinateLowData :: u8
  sdk_kLivoxLidarSphericalCoordinateData :: u8
  sdk_kLivoxLidarTypeIndustrialHAP :: u8
  sdk_kLivoxLidarTypeMid360 :: u8

record LivoxLidarEthernetPacket =
  ep_length :: u16
  ep_time_interval :: u16
  ep_dot_num :: u16
  ep_data_type :: u8
  ep_time_type :: u8
  ep_timestamp :: u64
  ep_data :: "u8 list"

record RawPacket =
  pkt_handle :: u32
  pkt_lidar_type :: u8
  pkt_extrinsic_enable :: bool
  pkt_point_num :: u32
  pkt_data_type :: u8
  pkt_line_num :: u8
  pkt_time_stamp :: u64
  pkt_point_interval :: u64
  pkt_raw_data :: "u8 list"

record LidarExtParameter =
  lep_lidar_type :: u8
  lep_handle :: u32
  lep_param :: ExtParameter

record LidarPubHandler =
  lph_points_clouds :: "PointXyzlt list"
  lph_trans :: vec3
  lph_rotation :: mat3
  lph_is_set_extrinsic_params :: bool

text \<open>The initialiser of \<open>extrinsic_\<close> in the header.\<close>

definition new_LidarPubHandler :: LidarPubHandler where
  "new_LidarPubHandler = \<lparr>lph_points_clouds = [], lph_trans = v3_zero,
     lph_rotation = ((1, 0, 0), (0, 1, 1), (0, 0, 1)), lph_is_set_extrinsic_params = False\<rparr>"

definition GetLidarBaseTime :: "LidarPubHandler \<Rightarrow> u64" where
  "GetLidarBaseTime h = (case lph_points_clouds h of [] \<Rightarrow> 0 | p # _ \<Rightarrow> poffset_time p)"

definition GetRecentTimeStamp :: "LidarPubHandler \<Rightarrow> u64" where
  "GetRecentTimeStamp h = (if lph_points_clouds h = [] then 0 else poffset_time (last (lph_points_clouds h)))"

text \<open>\<open>GetLidarPointClouds\<close> swaps with the caller's vector, which the caller has cleared.\<close>

definition GetLidarPointClouds ::
  "PointXyzlt list \<Rightarrow> LidarPubHandler \<Rightarrow> PointXyzlt list \<times> LidarPubHandler" where
  "GetLidarPointClouds points_clouds h =
     (lph_points_clouds h, h\<lparr>lph_points_clouds := points_clouds\<rparr>)"

definition PI :: real where "PI = 314159265358979323846 / 100000000000000000000"

definition SetLidarsExtParam :: "LidarExtParameter \<Rightarrow> LidarPubHandler \<Rightarrow> LidarPubHandler" where
  "SetLidarsExtParam lidar_param h =
     (if lph_is_set_extrinsic_params h then h
      else let p = lep_param lidar_param;
               cr = cos (ext_roll p * PI / 180); cp = cos (ext_pitch p * PI / 180);
               cy = cos (ext_yaw p * PI / 180);
               sr = sin (ext_roll p * PI / 180); sp = sin (ext_pitch p * PI / 180);
               sy = sin (ext_yaw p * PI / 180)
           in h\<lparr>lph_trans := (of_int (sint (ext_x p)), of_int (sint (ext_y p)), of_int (sint (ext_z p))),
                lph_rotation :=
                  ((cp * cy, sr * sp * cy - cr * sy, cr * sp * cy + sr * sy),
                   (cp * sy, sr * sp * sy + cr * cy, cr * sp * sy - sr * cy),
                   (- sp, sr * cp, cr * cp)),
                lph_is_set_extrinsic_params := True\<rparr>)"

definition mk_point :: "RawPacket \<Rightarrow> nat \<Rightarrow> vec3 \<Rightarrow> u8 \<Rightarrow> u8 \<Rightarrow> PointXyzlt" where
  "mk_point pkt i xyz reflectivity tag =
     (case xyz of (x, y, z) \<Rightarrow>
        \<lparr>px = x, py = y, pz = z, pintensity = real (unat reflectivity), ptag = tag,
         pline = of_nat (i mod unat (pkt_line_num pkt)),
         poffset_time = pkt_time_stamp pkt + of_nat i * pkt_point_interval pkt\<rparr>)"

text \<open>The loops over the raw points: reading past the packet's data is undefined, and so is the
  remainder by a line number of zero.\<close>

definition push_points ::
  "RawPacket \<Rightarrow> 'p list \<Rightarrow> (nat \<Rightarrow> 'p \<Rightarrow> PointXyzlt) \<Rightarrow> LidarPubHandler \<Rightarrow> LidarPubHandler exec" where
  "push_points pkt raw mk h =
     (let n = unat (pkt_point_num pkt)
      in if length raw < n \<or> 0 < n \<and> pkt_line_num pkt = 0 then Undef
         else Ret (h\<lparr>lph_points_clouds := lph_points_clouds h @ map (\<lambda>i. mk i (raw ! i)) [0..<n]\<rparr>))"

definition cart_point :: "real \<Rightarrow> RawPacket \<Rightarrow> LidarPubHandler \<Rightarrow> raw_cart \<Rightarrow> vec3" where
  "cart_point unit_ratio pkt h r =
     (let xyz = (of_int (rc_x r), of_int (rc_y r), of_int (rc_z r))
      in if pkt_extrinsic_enable pkt then v3_scale (1 / unit_ratio) xyz
         else v3_scale (1 / unit_ratio) (v3_add (m3_apply (lph_rotation h) xyz) (lph_trans h)))"

definition ProcessCartesianHighPoint :: "sdk \<Rightarrow> RawPacket \<Rightarrow> LidarPubHandler \<Rightarrow> LidarPubHandler exec" where
  "ProcessCartesianHighPoint lib pkt h =
     push_points pkt (sdk_high lib (pkt_raw_data pkt))
       (\<lambda>i r. mk_point pkt i (cart_point 1000 pkt h r) (rc_reflectivity r) (rc_tag r)) h"

definition ProcessCartesianLowPoint :: "sdk \<Rightarrow> RawPacket \<Rightarrow> LidarPubHandler \<Rightarrow> LidarPubHandler exec" where
  "ProcessCartesianLowPoint lib pkt h =
     push_points pkt (sdk_low lib (pkt_raw_data pkt))
       (\<lambda>i r. mk_point pkt i (cart_point 100 pkt h r) (rc_reflectivity r) (rc_tag r)) h"

definition spher_point :: "RawPacket \<Rightarrow> LidarPubHandler \<Rightarrow> raw_spher \<Rightarrow> vec3" where
  "spher_point pkt h r =
     (let radius = real (rs_depth r) / 1000;
          theta = real (rs_theta r) / 100 / 180 * PI;
          phi = real (rs_phi r) / 100 / 180 * PI;
          src = (radius * sin theta * cos phi, radius * sin theta * sin phi, radius * cos theta)
      in if pkt_extrinsic_enable pkt then src
         else v3_add (m3_apply (lph_rotation h) src) (v3_scale (1 / 1000) (lph_trans h)))"

definition ProcessSphericalPoint :: "sdk \<Rightarrow> RawPacket \<Rightarrow> LidarPubHandler \<Rightarrow> LidarPubHandler exec" where
  "ProcessSphericalPoint lib pkt h =
     push_points pkt (sdk_spher lib (pkt_raw_data pkt))
       (\<lambda>i r. mk_point pkt i (spher_point pkt h r) (rs_reflectivity r) (rs_tag r)) h"

definition PointCloudProcess :: "sdk \<Rightarrow> RawPacket \<Rightarrow> LidarPubHandler \<Rightarrow> LidarPubHandler exec" where
  "PointCloudProcess lib pkt h =
     (if pkt_lidar_type pkt = kLivoxLidarType
      then (if pkt_data_type pkt = sdk_kLivoxLidarCartesianCoordinateHighData lib then ProcessCartesianHighPoint lib pkt h
            else if pkt_data_type pkt = sdk_kLivoxLidarCartesianCoordinateLowData lib then ProcessCartesianLowPoint lib pkt h
            else if pkt_data_type pkt = sdk_kLivoxLidarSphericalCoordinateData lib then ProcessSphericalPoint lib pkt h
            else Ret h)
      else Ret h)"

section \<open>The handler\<close>

text \<open>\<open>std::map\<close> with its entries in key order.\<close>

fun map_put :: "'k::linorder \<Rightarrow> 'v \<Rightarrow> ('k \<times> 'v) list \<Rightarrow> ('k \<times> 'v) list" where
  "map_put k v [] = [(k, v)]"
| "map_put k v ((k', v') # m) =
     (if k < k' then (k, v) # (k', v') # m
      else if k = k' then (k, v) # m else (k', v') # map_put k v m)"

lemma map_of_map_put [simp]: "map_of (map_put k v m) = (map_of m)(k \<mapsto> v)"
  by (induction k v m rule: map_put.induct) auto

record PubHandler =
  ph_raw_packet_queue :: "RawPacket list"
  ph_publish_interval :: u64
  ph_last_pub_time :: int
  ph_first :: bool
  ph_lidar_process_handlers :: "(u32 \<times> LidarPubHandler) list"
  ph_lidar_extrinsics :: "(u32 \<times> LidarExtParameter) list"
  ph_next_publish_timestamp_ns :: "u32 \<Rightarrow> u64"
  ph_timestamp_states :: "u32 \<Rightarrow> DeviceTimestampState"
  ph_is_timestamp_sync :: bool

text \<open>The publish interval of \<open>SetPointCloudConfig\<close>; the frequency is a parameter of the node, a
  quotient outside the unsigned range is undefined.\<close>

definition SetPointCloudConfig :: "f64 \<Rightarrow> PubHandler \<Rightarrow> PubHandler exec" where
  "SetPointCloudConfig publish_freq ph =
     (let q = (if publish_freq = 0 then 0 else 1000000000 / (publish_freq * 10) * 10)
      in if publish_freq = 0 \<or> q \<le> - 1 \<or> q \<ge> 2 ^ 64 then Undef
         else Ret (ph\<lparr>ph_publish_interval := (if q < 0 then 0 else of_int \<lfloor>q\<rfloor>)\<rparr>))"

definition AddLidarsExtParam :: "LidarExtParameter \<Rightarrow> PubHandler \<Rightarrow> PubHandler" where
  "AddLidarsExtParam lidar_param ph =
     (let lid = (if lep_lidar_type lidar_param = kLivoxLidarType then lep_handle lidar_param else 0)
      in ph\<lparr>ph_lidar_extrinsics := map_put lid lidar_param (ph_lidar_extrinsics ph)\<rparr>)"

text \<open>\<open>OnLivoxLidarPointCloudCallback\<close>: the IMU sample handed to the callback, if any. \<open>now\<close> and
  \<open>system_now\<close> are the two clocks; \<open>junk\<close> is the slot the local leaves uninitialised.\<close>

definition packet_of ::
  "sdk \<Rightarrow> u32 \<Rightarrow> u8 \<Rightarrow> LivoxLidarEthernetPacket \<Rightarrow> u64 \<Rightarrow> RawPacket exec" where
  "packet_of lib handle dev_type data time_stamp =
     (let len = unat (ep_length data) - sdk_packet_size lib + 1
      in if ep_dot_num data = 0 \<or> unat (ep_length data) + 1 < sdk_packet_size lib
            \<or> length (ep_data data) < len then Undef
         else Ret \<lparr>pkt_handle = handle, pkt_lidar_type = kLivoxLidarType, pkt_extrinsic_enable = False,
                   pkt_point_num = ucast (ep_dot_num data), pkt_data_type = ep_data_type data,
                   pkt_line_num =
                     (if dev_type = sdk_kLivoxLidarTypeIndustrialHAP lib then kLineNumberHAP
                      else if dev_type = sdk_kLivoxLidarTypeMid360 lib then kLineNumberMid360
                      else kLineNumberDefault),
                   pkt_time_stamp = time_stamp,
                   pkt_point_interval =
                     of_nat (unat (ep_time_interval data) * 100 div unat (ep_dot_num data)),
                   pkt_raw_data = take len (ep_data data)\<rparr>)"

definition OnLivoxLidarPointCloudCallback ::
  "sdk \<Rightarrow> bool \<Rightarrow> u8 \<Rightarrow> int \<Rightarrow> u64 \<Rightarrow> u32 \<Rightarrow> u8 \<Rightarrow> LivoxLidarEthernetPacket \<Rightarrow> PubHandler
     \<Rightarrow> (ImuData option \<times> PubHandler) exec" where
  "OnLivoxLidarPointCloudCallback lib have_imu_callback junk now system_now handle dev_type data ph =
     (let ph = ph\<lparr>ph_is_timestamp_sync := (ep_time_type data \<noteq> kTimestampTypeNoSync)\<rparr>;
          raw_timestamp = GetEthPacketTimestamp system_now (ep_time_type data) (ep_timestamp data)
      in if ep_data_type data = sdk_kLivoxLidarImuData lib
         then (if \<not> have_imu_callback then Ret (None, ph)
               else bind_exec (NormalizeTimestamp now raw_timestamp True (ph_timestamp_states ph handle)) (\<lambda>(ts, d).
                 let imu = sdk_imu lib (ep_data data)
                 in Ret (Some \<lparr>imu_lidar_type = kLivoxLidarType, imu_handle = handle, imu_slot = junk,
                               imu_time_stamp = ts, imu_gyro_x = raw_gyro_x imu, imu_gyro_y = raw_gyro_y imu,
                               imu_gyro_z = raw_gyro_z imu, imu_acc_x = raw_acc_x imu,
                               imu_acc_y = raw_acc_y imu, imu_acc_z = raw_acc_z imu\<rparr>,
                         ph\<lparr>ph_timestamp_states := (ph_timestamp_states ph)(handle := d)\<rparr>)))
         else if ep_dot_num data = 0 then Undef
         else bind_exec (NormalizeTimestamp now raw_timestamp False (ph_timestamp_states ph handle)) (\<lambda>(ts, d).
              bind_exec (packet_of lib handle dev_type data ts) (\<lambda>packet.
              Ret (None, ph\<lparr>ph_timestamp_states := (ph_timestamp_states ph)(handle := d),
                            ph_raw_packet_queue := ph_raw_packet_queue ph @ [packet]\<rparr>))))"

section \<open>Frames\<close>

text \<open>The \<open>do\<close> loop that moves the boundary past the newest point; the 64-bit sum wraps, so the loop
  need not end.\<close>

partial_function (option) advance_boundary :: "u64 \<Rightarrow> u64 \<Rightarrow> u64 \<Rightarrow> u64 option" where
  "advance_boundary interval recent_time next =
     (let next = next + interval
      in if next \<le> recent_time then advance_boundary interval recent_time next else Some next)"

definition frame_packet :: "u32 \<Rightarrow> PointXyzlt list \<Rightarrow> PointPacket" where
  "frame_packet handle pts =
     \<lparr>pp_handle = handle, pp_lidar_type = kLivoxLidarType, pp_points_num = of_nat (length pts), pp_points = pts\<rparr>"

text \<open>The branch of \<open>CheckTimer\<close> with time synchronisation: the frame handed to the callback, and the
  new state. The outer option is a loop that does not end.\<close>

definition CheckTimer_sync :: "u32 \<Rightarrow> PubHandler \<Rightarrow> (PointFrame option \<times> PubHandler) option" where
  "CheckTimer_sync lid ph =
     (case map_of (ph_lidar_process_handlers ph) lid of
        None \<Rightarrow> Some (None, ph)
      | Some h \<Rightarrow>
          (let recent_time = GetRecentTimeStamp h; base_time = GetLidarBaseTime h
           in if recent_time = 0 \<or> base_time = 0 \<or> recent_time < base_time then Some (None, ph)
              else
                let next = (if ph_next_publish_timestamp_ns ph lid = 0 then base_time + ph_publish_interval ph
                            else ph_next_publish_timestamp_ns ph lid);
                    ph = ph\<lparr>ph_next_publish_timestamp_ns := (ph_next_publish_timestamp_ns ph)(lid := next)\<rparr>
                in if recent_time < next then Some (None, ph)
                   else (case GetLidarPointClouds [] h of (pts, h) \<Rightarrow>
                     (let ph = ph\<lparr>ph_lidar_process_handlers := map_put lid h (ph_lidar_process_handlers ph)\<rparr>
                      in if pts = [] then Some (None, ph)
                         else case advance_boundary (ph_publish_interval ph) recent_time next of
                                None \<Rightarrow> None
                              | Some next \<Rightarrow>
                                  Some (Some \<lparr>pf_base_time = [base_time], pf_lidar_point = [frame_packet lid pts]\<rparr>,
                                    ph\<lparr>ph_next_publish_timestamp_ns :=
                                         (ph_next_publish_timestamp_ns ph)(lid := next)\<rparr>)))))"

text \<open>The loop over all handlers in key order, with the frame's 32 slots.\<close>

fun collect_frames ::
  "(u32 \<times> LidarPubHandler) list \<Rightarrow> PointFrame \<Rightarrow> (PointFrame \<times> (u32 \<times> LidarPubHandler) list) exec" where
  "collect_frames [] fr = Ret (fr, [])"
| "collect_frames ((handle, h) # rest) fr =
     (if length (pf_lidar_point fr) \<ge> kMaxSourceLidar then Undef
      else case GetLidarPointClouds [] h of (pts, h') \<Rightarrow>
        let fr' = (if pts = [] then fr
                   else \<lparr>pf_base_time = pf_base_time fr @ [GetLidarBaseTime h],
                         pf_lidar_point = pf_lidar_point fr @ [frame_packet handle pts]\<rparr>)
        in bind_exec (collect_frames rest fr') (\<lambda>(fr'', rest').
           Ret (fr'', (handle, h') # rest')))"

text \<open>The branch without synchronisation, with the time of the local clock.\<close>

definition CheckTimer_nosync :: "int \<Rightarrow> PubHandler \<Rightarrow> (PointFrame option \<times> PubHandler) exec" where
  "CheckTimer_nosync now_time ph =
     (if ph_first ph then Ret (None, ph\<lparr>ph_last_pub_time := now_time, ph_first := False\<rparr>)
      else if now_time - ph_last_pub_time ph < sint (ph_publish_interval ph) then Ret (None, ph)
      else let ph = ph\<lparr>ph_last_pub_time := ph_last_pub_time ph + sint (ph_publish_interval ph)\<rparr>
           in bind_exec (collect_frames (ph_lidar_process_handlers ph) \<lparr>pf_base_time = [], pf_lidar_point = []\<rparr>)
                (\<lambda>(fr, hs). Ret (Some fr, ph\<lparr>ph_lidar_process_handlers := hs\<rparr>)))"

text \<open>One round of \<open>RawDataProcess\<close> with a packet in the queue, up to the call of \<open>CheckTimer\<close>.\<close>

definition process_packet :: "sdk \<Rightarrow> PubHandler \<Rightarrow> (u32 \<times> PubHandler) option exec" where
  "process_packet lib ph =
     (case ph_raw_packet_queue ph of
        [] \<Rightarrow> Ret None
      | raw_data # rest \<Rightarrow>
          (let lid = (if pkt_lidar_type raw_data = kLivoxLidarType then pkt_handle raw_data else 0);
               h = (case map_of (ph_lidar_process_handlers ph) lid of None \<Rightarrow> new_LidarPubHandler | Some h \<Rightarrow> h);
               h = (case map_of (ph_lidar_extrinsics ph) lid of None \<Rightarrow> h | Some e \<Rightarrow> SetLidarsExtParam e h)
           in bind_exec (PointCloudProcess lib raw_data h) (\<lambda>h.
              Ret (Some (lid, ph\<lparr>ph_raw_packet_queue := rest,
                               ph_lidar_process_handlers := map_put lid h (ph_lidar_process_handlers ph)\<rparr>)))))"

definition RawDataProcess_round ::
  "sdk \<Rightarrow> int \<Rightarrow> PubHandler \<Rightarrow> (PointFrame option \<times> PubHandler) option exec" where
  "RawDataProcess_round lib now_time ph =
     bind_exec (process_packet lib ph) (\<lambda>r.
     case r of
       None \<Rightarrow> Ret (Some (None, ph))
     | Some (lid, ph) \<Rightarrow>
         if ph_is_timestamp_sync ph then Ret (CheckTimer_sync lid ph)
         else bind_exec (CheckTimer_nosync now_time ph) (\<lambda>r. Ret (Some r)))"

section \<open>Normalised timestamps\<close>

lemma sint_of_int_u64: "fits_i64 x \<Longrightarrow> sint (of_int x :: u64) = x"
  by (simp add: fits_i64_def signed_of_int signed_take_bit_int_eq_self)

lemma sint_add_of_int: "fits_i64 (sint a + x) \<Longrightarrow> sint (a + of_int x :: u64) = sint a + x"
  using sint_of_int_u64 [of "sint a + x"] by simp

lemma sint_add_one: "fits_i64 (sint a + 1) \<Longrightarrow> sint (a + 1 :: u64) = sint a + 1"
  using sint_add_of_int [of a 1] by simp

lemma uint_eq_sint: "0 \<le> sint (a :: u64) \<Longrightarrow> uint a = sint a"
  by transfer (use take_bit_Suc_from_most [of 63, where ?'a = int] in \<open>simp add: signed_take_bit_nonnegative_iff signed_take_bit_eq_if_positive\<close>)

lemma word_le_sint: "0 \<le> sint a \<Longrightarrow> 0 \<le> sint b \<Longrightarrow> (a \<le> (b :: u64)) = (sint a \<le> sint b)"
  by (simp add: word_le_def uint_eq_sint)

definition time_ok :: "int \<Rightarrow> bool" where
  "time_ok t = (0 \<le> t \<and> t < 2 ^ 61)"

text \<open>The device's own timeline: its first timestamp plus the time since its first packet.\<close>

definition device_time :: "DeviceTimestampState \<Rightarrow> int \<Rightarrow> int" where
  "device_time d now = sint (dt_origin_timestamp_ns d) + (now - dt_origin_arrival d)"

definition stream_inv :: "int \<Rightarrow> int \<Rightarrow> int \<Rightarrow> StreamTimestampState \<Rightarrow> bool" where
  "stream_inv org start T st =
     (st_initialized st \<longrightarrow>
        start \<le> st_last_arrival st \<and> st_last_arrival st \<le> T \<and> 0 < sint (st_last_normalized_ns st)
        \<and> \<bar>sint (st_last_normalized_ns st) - (org + (st_last_arrival st - start))\<bar> \<le> kTimestampJumpThresholdNs
        \<and> \<bar>st_correction_ns st\<bar> \<le> 2 ^ 62 + kTimestampJumpThresholdNs \<and> time_ok (sint (st_last_raw_ns st)))"

lemma apply_correction:
  assumes "fits_i64 (sint raw + c)"
  obtains n where "ApplyTimestampCorrection raw c = Ret n" "sint n = (if sint raw + c > 0 then sint raw + c else 1)"
  using assms sint_of_int_u64 [OF assms] by (auto simp: ApplyTimestampCorrection_def Let_def)

lemma NormalizeStream_ok:
  assumes inv: "stream_inv org start T st" and T: "T < now" and "time_ok now" "time_ok start" "start \<le> now"
    and "time_ok org" and raw: "time_ok (sint raw)"
  defines "expected \<equiv> org + (now - start)"
  shows "\<exists>ts st'. NormalizeStream now expected raw st = Ret (ts, st') \<and> st_initialized st'
    \<and> stream_inv org start now st' \<and> st_last_normalized_ns st' = ts
    \<and> \<bar>sint ts - expected\<bar> \<le> kTimestampJumpThresholdNs
    \<and> (st_initialized st \<longrightarrow> sint (st_last_normalized_ns st) < sint ts)"
proof -
  note num = time_ok_def fits_i64_def kTimestampJumpThresholdNs_def
  have e: "0 \<le> expected" "expected < 2 ^ 62" using assms by (auto simp: num)
  show ?thesis
  proof (cases "st_initialized st")
    case False
    let ?c = "expected - sint raw"
    obtain n where n: "ApplyTimestampCorrection raw ?c = Ret n" "sint n = (if expected > 0 then expected else 1)"
    proof (rule apply_correction [of raw ?c])
      show "fits_i64 (sint raw + ?c)" using e by (simp add: num)
    qed simp
    have c: "fits_i64 ?c" "\<bar>?c\<bar> \<le> 2 ^ 62 + kTimestampJumpThresholdNs" using e raw by (auto simp: num)
    show ?thesis using False n c e raw assms(5)
      by (auto simp: NormalizeStream_def Let_def stream_inv_def expected_def kTimestampJumpThresholdNs_def)
  next
    case True
    let ?last = "st_last_normalized_ns st" and ?delta = "now - st_last_arrival st"
    have st: "start \<le> st_last_arrival st" "st_last_arrival st \<le> T" "0 < sint ?last"
      "\<bar>sint ?last - (org + (st_last_arrival st - start))\<bar> \<le> kTimestampJumpThresholdNs"
      "\<bar>st_correction_ns st\<bar> \<le> 2 ^ 62 + kTimestampJumpThresholdNs" "time_ok (sint (st_last_raw_ns st))"
      using inv True by (simp_all add: stream_inv_def)
    have delta: "1 \<le> ?delta" "?delta < 2 ^ 61" using st T assms(3-5) by (auto simp: num)
    have last: "sint ?last + ?delta < 2 ^ 62 + kTimestampJumpThresholdNs + 1"
      using st(4) e assms(3-5) by (auto simp: num expected_def)
    obtain n where n: "ApplyTimestampCorrection raw (st_correction_ns st) = Ret n" "0 < sint n" "sint n < 2 ^ 63"
    proof (rule apply_correction [of raw "st_correction_ns st"])
      show fits: "fits_i64 (sint raw + st_correction_ns st)" using raw st(5) by (auto simp: num abs_le_iff)
      fix m assume "sint m = (if sint raw + st_correction_ns st > 0 then sint raw + st_correction_ns st else 1)"
        and "ApplyTimestampCorrection raw (st_correction_ns st) = Ret m"
      with fits show thesis by (intro that [of m]) (simp_all add: num)
    qed
    have fits: "fits_i64 (sint raw - sint (st_last_raw_ns st))" "fits_i64 ?delta" "fits_i64 (sint n - expected)"
      "fits_i64 (sint raw - sint (st_last_raw_ns st) - ?delta)"
      using raw st(6) delta n e by (auto simp: num)
    let ?jump = "\<bar>sint raw - sint (st_last_raw_ns st) - ?delta\<bar> > kTimestampJumpThresholdNs
      \<or> \<bar>sint n - expected\<bar> > kTimestampJumpThresholdNs"
    show ?thesis
    proof (cases ?jump)
      case jump: True
      let ?n = "?last + of_int (max ?delta 1)"
      have s: "sint ?n = sint ?last + ?delta"
        using delta last st(3) by (subst sint_add_of_int) (auto simp: num)
      have c: "fits_i64 (sint ?n - sint raw)" "\<bar>sint ?n - sint raw\<bar> \<le> 2 ^ 62 + kTimestampJumpThresholdNs"
        using s delta last st(3) raw by (auto simp: num)
      have run: "NormalizeStream now expected raw st = Ret (?n,
          st\<lparr>st_correction_ns := sint ?n - sint raw, st_correction_count := st_correction_count st + 1,
             st_last_raw_ns := raw, st_last_normalized_ns := ?n, st_last_arrival := now\<rparr>)"
        using True n(1) fits jump c(1) by (simp only: NormalizeStream_def Let_def bind_exec.simps if_True if_False simp_thms)
      have err: "\<bar>sint ?n - expected\<bar> \<le> kTimestampJumpThresholdNs"
        using st(4) by (simp add: s expected_def)
      show ?thesis unfolding run
        using True s err c(2) st(3) delta raw assms(5) by (auto simp: stream_inv_def expected_def)
    next
      case False
      let ?n = "if n \<le> ?last then ?last + 1 else n"
      have le: "n \<le> ?last \<longleftrightarrow> sint n \<le> sint ?last" using word_le_sint n(2) st(3) by simp
      have one: "sint (?last + 1) = sint ?last + 1"
        using last delta by (intro sint_add_one) (use st(3) in \<open>auto simp: num\<close>)
      have run: "NormalizeStream now expected raw st = Ret (?n,
          st\<lparr>st_last_raw_ns := raw, st_last_normalized_ns := ?n, st_last_arrival := now\<rparr>)"
        using True n(1) fits False by (simp only: NormalizeStream_def Let_def bind_exec.simps if_True if_False simp_thms)
      have err: "\<bar>sint ?n - expected\<bar> \<le> kTimestampJumpThresholdNs"
      proof (cases "n \<le> ?last")
        case c: True
        then have "sint n \<le> sint ?last" using le by simp
        then show ?thesis using c False one st(4) delta(1) by (auto simp: expected_def)
      qed (use False in simp)
      have gt: "sint ?last < sint ?n" using le one by auto
      show ?thesis unfolding run
        using True err gt st(3,5) raw assms(5) by (auto simp: stream_inv_def expected_def simp del: split_paired_Ex)
    qed
  qed
qed

lemma set_stream_simps [simp]:
  "dt_stream b (set_stream b st d) = st"
  "b \<noteq> b' \<Longrightarrow> dt_stream b (set_stream b' st d) = dt_stream b d"
  "dt_initialized (set_stream b st d) = dt_initialized d"
  "dt_origin_timestamp_ns (set_stream b st d) = dt_origin_timestamp_ns d"
  "dt_origin_arrival (set_stream b st d) = dt_origin_arrival d"
  by (auto simp: dt_stream_def set_stream_def)

definition device_inv :: "int \<Rightarrow> DeviceTimestampState \<Rightarrow> bool" where
  "device_inv T d =
     (dt_initialized d \<and> time_ok (sint (dt_origin_timestamp_ns d)) \<and> time_ok (dt_origin_arrival d)
      \<and> dt_origin_arrival d \<le> T + 1
      \<and> (\<forall>b. stream_inv (sint (dt_origin_timestamp_ns d)) (dt_origin_arrival d) T (dt_stream b d)))"

lemma stream_inv_mono: "stream_inv org start T st \<Longrightarrow> T \<le> T' \<Longrightarrow> stream_inv org start T' st"
  by (auto simp: stream_inv_def)

lemma stream_inv_new: "stream_inv org start T new_stream"
  by (simp add: stream_inv_def new_stream_def)

lemma NormalizeTimestamp_ok:
  assumes inv: "device_inv T d" and "T < now" and "time_ok now" and "time_ok (sint raw)"
  shows "\<exists>ts d'. NormalizeTimestamp now raw b d = Ret (ts, d') \<and> device_inv now d'
    \<and> (\<forall>t. device_time d' t = device_time d t)
    \<and> \<bar>sint ts - device_time d now\<bar> \<le> kTimestampJumpThresholdNs
    \<and> st_initialized (dt_stream b d') \<and> st_last_normalized_ns (dt_stream b d') = ts
    \<and> (\<forall>b'. b' \<noteq> b \<longrightarrow> dt_stream b' d' = dt_stream b' d)
    \<and> (st_initialized (dt_stream b d) \<longrightarrow> sint (st_last_normalized_ns (dt_stream b d)) < sint ts)"
proof -
  let ?org = "sint (dt_origin_timestamp_ns d)" and ?start = "dt_origin_arrival d"
  let ?e = "?org + (now - ?start)"
  have d: "dt_initialized d" "time_ok ?org" "time_ok ?start" "?start \<le> T + 1"
    "stream_inv ?org ?start T (dt_stream b' d)" for b'
    using inv by (simp_all add: device_inv_def)
  have "?start \<le> now" using d(4) assms(2) by simp
  from NormalizeStream_ok [OF d(5) assms(2,3) d(3) this d(2) assms(4), of b]
  obtain ts st' where r: "NormalizeStream now ?e raw (dt_stream b d) = Ret (ts, st')" "st_initialized st'"
    "stream_inv ?org ?start now st'" "st_last_normalized_ns st' = ts"
    "\<bar>sint ts - ?e\<bar> \<le> kTimestampJumpThresholdNs"
    "st_initialized (dt_stream b d) \<longrightarrow> sint (st_last_normalized_ns (dt_stream b d)) < sint ts" by blast
  have fits: "fits_i64 ?e" using d assms(2,3) by (auto simp: time_ok_def fits_i64_def)
  have run: "NormalizeTimestamp now raw b d = Ret (ts, set_stream b st' d)"
    using d(1) fits r(1) by (simp add: NormalizeTimestamp_def Let_def)
  have streams: "stream_inv ?org ?start now (dt_stream b' (set_stream b st' d))" for b'
    using r(3) stream_inv_mono [OF d(5) [of b'], of now] assms(2) by (cases "b' = b") simp_all
  then have "device_inv now (set_stream b st' d)"
    using d \<open>?start \<le> now\<close> by (simp add: device_inv_def)
  with run r show ?thesis by (simp add: device_time_def)
qed

text \<open>A run: packets of one device with the clock, the raw timestamp and the stream of each.\<close>

fun normalize_run :: "(int \<times> u64 \<times> bool) list \<Rightarrow> DeviceTimestampState \<Rightarrow> (bool \<times> u64) list exec" where
  "normalize_run [] d = Ret []"
| "normalize_run ((now, raw, b) # ps) d =
     bind_exec (NormalizeTimestamp now raw b d) (\<lambda>(ts, d'). bind_exec (normalize_run ps d') (\<lambda>out. Ret ((b, ts) # out)))"

definition stream_outputs :: "bool \<Rightarrow> (bool \<times> u64) list \<Rightarrow> int list" where
  "stream_outputs b out = map (\<lambda>x. sint (snd x)) (filter (\<lambda>x. fst x = b) out)"

lemma stream_outputs_Cons [simp]:
  "stream_outputs b ((b', ts) # out) = (if b' = b then sint ts # stream_outputs b out else stream_outputs b out)"
  by (simp add: stream_outputs_def)

lemma normalize_run_ok:
  assumes "device_inv T d" and "sorted_wrt (<) (T # map fst ps)"
    and "\<forall>(now, raw, b) \<in> set ps. time_ok now \<and> time_ok (sint raw)"
  shows "\<exists>out. normalize_run ps d = Ret out \<and> length out = length ps
    \<and> (\<forall>i < length ps. \<bar>sint (snd (out ! i)) - device_time d (fst (ps ! i))\<bar> \<le> kTimestampJumpThresholdNs)
    \<and> (\<forall>b. sorted_wrt (<) ((if st_initialized (dt_stream b d) then [sint (st_last_normalized_ns (dt_stream b d))] else [])
              @ stream_outputs b out))"
  using assms
proof (induction ps arbitrary: T d)
  case Nil
  then show ?case by (simp add: stream_outputs_def)
next
  case (Cons p ps)
  obtain now raw b where p: "p = (now, raw, b)" by (metis prod.exhaust)
  have "T < now" "time_ok now" "time_ok (sint raw)" using Cons.prems by (simp_all add: p)
  from NormalizeTimestamp_ok [OF Cons.prems(1) this, of b] obtain ts d' where
    r: "NormalizeTimestamp now raw b d = Ret (ts, d')" "device_inv now d'"
      "\<forall>t. device_time d' t = device_time d t" "\<bar>sint ts - device_time d now\<bar> \<le> kTimestampJumpThresholdNs"
      "st_initialized (dt_stream b d')" "st_last_normalized_ns (dt_stream b d') = ts"
      "\<forall>b'. b' \<noteq> b \<longrightarrow> dt_stream b' d' = dt_stream b' d"
      "st_initialized (dt_stream b d) \<longrightarrow> sint (st_last_normalized_ns (dt_stream b d)) < sint ts" by blast
  have "sorted_wrt (<) (now # map fst ps)" "\<forall>(now, raw, b) \<in> set ps. time_ok now \<and> time_ok (sint raw)"
    using Cons.prems(2,3) by (simp_all add: p)
  from Cons.IH [OF r(2) this] obtain out where
    o: "normalize_run ps d' = Ret out" "length out = length ps"
      "\<forall>i < length ps. \<bar>sint (snd (out ! i)) - device_time d' (fst (ps ! i))\<bar> \<le> kTimestampJumpThresholdNs"
      "\<And>b. sorted_wrt (<) ((if st_initialized (dt_stream b d') then [sint (st_last_normalized_ns (dt_stream b d'))] else [])
              @ stream_outputs b out)" by blast
  have sorted: "sorted_wrt (<) ((if st_initialized (dt_stream b' d) then [sint (st_last_normalized_ns (dt_stream b' d))] else [])
              @ stream_outputs b' ((b, ts) # out))" for b'
  proof (cases "b' = b")
    case True
    have "sorted_wrt (<) (sint ts # stream_outputs b out)" using o(4) [of b] r(5,6) by simp
    with True r(8) show ?thesis by (auto intro: less_trans)
  next
    case False
    with o(4) [of b'] r(7) show ?thesis by auto
  qed
  have "\<bar>sint (snd (((b, ts) # out) ! i)) - device_time d (fst ((p # ps) ! i))\<bar> \<le> kTimestampJumpThresholdNs"
    if "i < length (p # ps)" for i
    using that o(3) r(3,4) p by (cases i) simp_all
  with o(1,2) r(1) sorted p show ?case by simp
qed

text \<open>C5: The timestamps of a device's packets, both streams together, stay within half a second
  of the device's own timeline, its first timestamp plus the time elapsed since, whatever the raw
  timestamps do; and the timestamps of each stream increase strictly. No jump of a device clock
  reaches the consumers, and none of the signed 64-bit operations overflows.\<close>

theorem timestamps_follow_device_timeline:
  assumes "sorted_wrt (<) (map fst ps)" and "ps = (t0, raw0, b0) # rest"
    and "\<forall>(now, raw, b) \<in> set ps. time_ok now \<and> time_ok (sint raw)"
  shows "\<exists>out. normalize_run ps new_device = Ret out \<and> length out = length ps
    \<and> (\<forall>i < length ps. \<bar>sint (snd (out ! i)) - (sint raw0 + (fst (ps ! i) - t0))\<bar> \<le> 500000000)
    \<and> (\<forall>b. sorted_wrt (<) (stream_outputs b out))"
proof -
  define d where "d = new_device\<lparr>dt_initialized := True, dt_origin_timestamp_ns := raw0, dt_origin_arrival := t0\<rparr>"
  have t0: "time_ok t0" "time_ok (sint raw0)" using assms(2,3) by simp_all
  have new: "dt_stream b d = new_stream" for b by (simp add: d_def new_device_def dt_stream_def)
  have inv: "device_inv (t0 - 1) d"
    using t0 by (simp add: device_inv_def new stream_inv_new) (simp add: d_def new_device_def)
  have first: "normalize_run ps new_device = normalize_run ps d"
    by (simp add: assms(2) NormalizeTimestamp_def d_def new_device_def)
  have sorted: "sorted_wrt (<) ((t0 - 1) # map fst ps)" using assms(1,2) by fastforce
  have time: "device_time d t = sint raw0 + (t - t0)" for t by (simp add: device_time_def d_def)
  from normalize_run_ok [OF inv sorted assms(3)] obtain out where
    o: "normalize_run ps d = Ret out" "length out = length ps"
      "\<forall>i < length ps. \<bar>sint (snd (out ! i)) - device_time d (fst (ps ! i))\<bar> \<le> kTimestampJumpThresholdNs"
      "\<forall>b. sorted_wrt (<) ((if st_initialized (dt_stream b d) then [sint (st_last_normalized_ns (dt_stream b d))] else [])
              @ stream_outputs b out)" by blast
  have "\<forall>b. sorted_wrt (<) (stream_outputs b out)" using o(4) by (simp add: new new_stream_def)
  then show ?thesis
    using first o(1,2,3) by (auto simp: time kTimestampJumpThresholdNs_def)
qed

theorem timestamps_follow_device_timeline_witness:
  "\<exists>out. normalize_run [(1000, 5000000000, False), (2000, 7000000000, True), (101000, 77, False)] new_device = Ret out
     \<and> length out = 3 \<and> \<bar>sint (snd (out ! 2)) - 5000100000\<bar> \<le> 500000000"
proof -
  let ?ps = "[(1000, 5000000000, False), (2000, 7000000000, True), (101000, 77, False)] :: (int \<times> u64 \<times> bool) list"
  have "sorted_wrt (<) (map fst ?ps)" by simp
  moreover have "\<forall>(now, raw, b) \<in> set ?ps. time_ok now \<and> time_ok (sint raw)" by (simp add: time_ok_def)
  ultimately obtain out where "normalize_run ?ps new_device = Ret out" "length out = length ?ps"
    "\<forall>i < length ?ps. \<bar>sint (snd (out ! i)) - (sint (5000000000 :: u64) + (fst (?ps ! i) - 1000))\<bar> \<le> 500000000"
    using timestamps_follow_device_timeline [of ?ps 1000 5000000000 False] by blast
  moreover from this(3) have "\<bar>sint (snd (out ! 2)) - (sint (5000000000 :: u64) + (fst (?ps ! 2) - 1000))\<bar> \<le> 500000000"
    by (auto dest: spec [of _ 2])
  ultimately show ?thesis by (simp del: normalize_run.simps)
qed

section \<open>Frame boundaries\<close>

lemma advance_boundary_ok:
  assumes "0 < interval" and "unat recent + unat interval < 2 ^ 64" and "cur \<le> recent"
  shows "\<exists>next' k. advance_boundary interval recent cur = Some next'
    \<and> unat next' = unat cur + k * unat interval \<and> 0 < k \<and> recent < next' \<and> unat next' \<le> unat recent + unat interval"
  using assms(3)
proof (induction "unat recent - unat cur" arbitrary: cur rule: less_induct)
  case less
  have le: "unat cur \<le> unat recent" using less.prems by (simp add: word_le_nat_alt)
  have sum: "unat (cur + interval) = unat cur + unat interval"
    using le assms(2) by (intro unat_add_lem [THEN iffD1]) simp
  have pos: "0 < unat interval" using assms(1) by (simp add: word_less_nat_alt)
  show ?case
  proof (cases "cur + interval \<le> recent")
    case True
    then have "unat (cur + interval) \<le> unat recent" by (simp add: word_le_nat_alt)
    then have "unat recent - unat (cur + interval) < unat recent - unat cur" using sum pos by simp
    from less.hyps [OF this True] obtain next' k where
      "advance_boundary interval recent (cur + interval) = Some next'"
      "unat next' = unat (cur + interval) + k * unat interval" "0 < k" "recent < next'"
      "unat next' \<le> unat recent + unat interval" by blast
    then show ?thesis using True sum
      by (intro exI [of _ next'] exI [of _ "Suc k"]) (simp add: advance_boundary.simps [of _ _ cur] Let_def)
  next
    case False
    then have "recent < cur + interval" by simp
    then show ?thesis using False sum le
      by (intro exI [of _ "cur + interval"] exI [of _ 1]) (simp add: advance_boundary.simps [of _ _ cur] Let_def)
  qed
qed

text \<open>The timer cuts a device's points into frames on a fixed grid. It always finishes; a frame
  is handed out exactly when the newest point has reached the boundary, carries all points of the
  device, in order and nothing else, and the time of the first; the boundary then moves by whole
  intervals to the first grid point after the newest point, so that the frame rate does not
  drift. Otherwise the points stay where they are.\<close>

theorem frames_on_fixed_grid:
  assumes "map_of (ph_lidar_process_handlers ph) dev = Some h" and "lph_points_clouds h = p # ps"
    and "0 < ph_publish_interval ph"
    and "unat (poffset_time (last (p # ps))) + unat (ph_publish_interval ph) < 2 ^ 64"
    and "0 < poffset_time p" and "poffset_time p \<le> poffset_time (last (p # ps))"
  defines "boundary \<equiv> (if ph_next_publish_timestamp_ns ph dev = 0 then poffset_time p + ph_publish_interval ph
      else ph_next_publish_timestamp_ns ph dev)"
  shows "\<exists>out ph'. CheckTimer_sync dev ph = Some (out, ph')
    \<and> (if poffset_time (last (p # ps)) < boundary
       then out = None \<and> ph_lidar_process_handlers ph' = ph_lidar_process_handlers ph
            \<and> ph_next_publish_timestamp_ns ph' dev = boundary
       else out = Some \<lparr>pf_base_time = [poffset_time p], pf_lidar_point = [frame_packet dev (p # ps)]\<rparr>
            \<and> (\<exists>h'. map_of (ph_lidar_process_handlers ph') dev = Some h' \<and> lph_points_clouds h' = [])
            \<and> (\<exists>k > 0. unat (ph_next_publish_timestamp_ns ph' dev) = unat boundary + k * unat (ph_publish_interval ph))
            \<and> poffset_time (last (p # ps)) < ph_next_publish_timestamp_ns ph' dev
            \<and> unat (ph_next_publish_timestamp_ns ph' dev)
                \<le> unat (poffset_time (last (p # ps))) + unat (ph_publish_interval ph))"
proof -
  let ?recent = "poffset_time (last (p # ps))"
  have times: "GetRecentTimeStamp h = ?recent" "GetLidarBaseTime h = poffset_time p"
    using assms(2) by (simp_all add: GetRecentTimeStamp_def GetLidarBaseTime_def)
  have nz: "?recent \<noteq> 0" "poffset_time p \<noteq> 0" "\<not> ?recent < poffset_time p"
    using assms(5,6) by (auto simp: not_less)
  show ?thesis
  proof (cases "?recent < boundary")
    case True
    then show ?thesis
      using assms(1) nz by (simp add: CheckTimer_sync_def Let_def times flip: boundary_def)
  next
    case False
    then have le: "boundary \<le> ?recent" by simp
    from advance_boundary_ok [OF assms(3,4) le] obtain next' k where
      a: "advance_boundary (ph_publish_interval ph) ?recent boundary = Some next'"
        "unat next' = unat boundary + k * unat (ph_publish_interval ph)" "0 < k" "?recent < next'"
        "unat next' \<le> unat ?recent + unat (ph_publish_interval ph)" by blast
    show ?thesis
      using assms(1,2) nz False a
      by (simp add: CheckTimer_sync_def Let_def times GetLidarPointClouds_def flip: boundary_def)
        (auto intro: exI [of _ k])
  qed
qed

definition ex_pub_point :: "u64 \<Rightarrow> PointXyzlt" where
  "ex_pub_point t = \<lparr>px = 1, py = 2, pz = 3, pintensity = 10, ptag = 0, pline = 0, poffset_time = t\<rparr>"

definition ex_pub :: PubHandler where
  "ex_pub = \<lparr>ph_raw_packet_queue = [], ph_publish_interval = 100000000, ph_last_pub_time = 0, ph_first = True,
     ph_lidar_process_handlers = [(7, new_LidarPubHandler\<lparr>lph_points_clouds :=
        [ex_pub_point 1000000000, ex_pub_point 1100000000]\<rparr>)],
     ph_lidar_extrinsics = [], ph_next_publish_timestamp_ns = (\<lambda>_. 0),
     ph_timestamp_states = (\<lambda>_. new_device), ph_is_timestamp_sync = True\<rparr>"

theorem frames_on_fixed_grid_witness:
  "\<exists>fr ph'. CheckTimer_sync 7 ex_pub = Some (Some fr, ph') \<and> pf_base_time fr = [1000000000]
     \<and> 1100000000 < ph_next_publish_timestamp_ns ph' 7"
proof -
  let ?h = "new_LidarPubHandler\<lparr>lph_points_clouds := [ex_pub_point 1000000000, ex_pub_point 1100000000]\<rparr>"
  have "map_of (ph_lidar_process_handlers ex_pub) 7 = Some ?h"
    "lph_points_clouds ?h = ex_pub_point 1000000000 # [ex_pub_point 1100000000]"
    by (simp_all add: ex_pub_def)
  note main = frames_on_fixed_grid [OF this]
  have "ph_publish_interval ex_pub = 100000000" "ph_next_publish_timestamp_ns ex_pub 7 = 0"
    by (simp_all add: ex_pub_def)
  with main show ?thesis by (auto simp: ex_pub_point_def)
qed

text \<open>A device without a configured extrinsic is not converted with the identity: the default
  rotation has a one too many, so that its y coordinate becomes y + z. With the configured
  parameters all zero, the same packet is converted faithfully.\<close>

theorem default_extrinsic_adds_z_to_y:
  "cart_point 1000 (pkt\<lparr>pkt_extrinsic_enable := False\<rparr>) new_LidarPubHandler r =
     (of_int (rc_x r) / 1000, (of_int (rc_y r) + of_int (rc_z r)) / 1000, of_int (rc_z r) / 1000)
   \<and> cart_point 1000 (pkt\<lparr>pkt_extrinsic_enable := False\<rparr>)
       (SetLidarsExtParam \<lparr>lep_lidar_type = kLivoxLidarType, lep_handle = 0,
          lep_param = \<lparr>ext_roll = 0, ext_pitch = 0, ext_yaw = 0, ext_x = 0, ext_y = 0, ext_z = 0\<rparr>\<rparr>
          new_LidarPubHandler) r =
     (of_int (rc_x r) / 1000, of_int (rc_y r) / 1000, of_int (rc_z r) / 1000)"
  by (simp add: cart_point_def new_LidarPubHandler_def SetLidarsExtParam_def v3_zero_def Let_def)

end
