(* ===== verification/Livox_Lds.thy ===== *)
theory Livox_Lds
  imports Livox_Ldq Livox_Index Livox_Pub
begin

text \<open>
  The LiDAR data source, \<^verbatim>\<open>livox_ros_driver2/src/lds.h\<close>, \<^verbatim>\<open>lds.cpp\<close>, \<^verbatim>\<open>lds_lidar.cpp\<close> and
  \<^verbatim>\<open>call_back/lidar_common_callback.cpp\<close>: the table of 32 devices with a packet queue and an IMU
  queue each, the index that assigns the slots, and the semaphores that wake the publishing threads.
\<close>

section \<open>State\<close>

record LidarDevice =
  ld_lidar_type :: u8
  ld_handle :: u32
  ld_data_src :: u8
  ld_connect_state :: LidarConnectState
  ld_data :: LidarDataQueue
  ld_imu_data :: LidarImuDataQueue
  ld_livox_config :: UserLivoxLidarConfig

record Lds =
  lds_lidars :: "LidarDevice list"
  lds_pcd_semaphore :: int
  lds_imu_semaphore :: int
  lds_cache_index :: CacheIndex
  lds_publish_freq :: f64
  lds_data_src :: u8
  lds_request_exit :: bool

definition set_lidar :: "nat \<Rightarrow> LidarDevice \<Rightarrow> Lds \<Rightarrow> Lds" where
  "set_lidar i d s = s\<lparr>lds_lidars := (lds_lidars s)[i := d]\<rparr>"

section \<open>Reset\<close>

definition ResetLidar :: "u8 \<Rightarrow> LidarDevice \<Rightarrow> LidarDevice exec" where
  "ResetLidar data_src lidar =
     bind_exec (DeInitQueue (Some (ld_data lidar))) (\<lambda>(_, q).
     Ret (lidar\<lparr>ld_data := the q, ld_imu_data := ImuQueue_Clear (ld_imu_data lidar),
                ld_data_src := data_src, ld_connect_state := kConnectStateOff\<rparr>))"

fun reset_lidars :: "u8 \<Rightarrow> LidarDevice list \<Rightarrow> LidarDevice list exec" where
  "reset_lidars data_src [] = Ret []"
| "reset_lidars data_src (d # ds) =
     bind_exec (ResetLidar data_src d) (\<lambda>d'. bind_exec (reset_lidars data_src ds) (\<lambda>ds'. Ret (d' # ds')))"

definition ResetLds :: "u8 \<Rightarrow> Lds \<Rightarrow> Lds exec" where
  "ResetLds data_src s =
     bind_exec (reset_lidars data_src (lds_lidars s)) (\<lambda>ds. Ret (s\<lparr>lds_lidars := ds\<rparr>))"

definition SetLidarDataSrc :: "u8 \<Rightarrow> LidarDevice \<Rightarrow> LidarDevice" where
  "SetLidarDataSrc data_src lidar = lidar\<lparr>ld_data_src := data_src\<rparr>"

definition RequestExit :: "Lds \<Rightarrow> Lds" where
  "RequestExit s = s\<lparr>lds_request_exit := True\<rparr>"

definition IsAllQueueEmpty :: "Lds \<Rightarrow> bool" where
  "IsAllQueueEmpty s = list_all (\<lambda>d. QueueIsEmpty (ld_data d)) (lds_lidars s)"

definition IsAllQueueReadStop :: "Lds \<Rightarrow> bool" where
  "IsAllQueueReadStop s = list_all (\<lambda>d. QueueUsedSize (ld_data d) = 0) (lds_lidars s)"

section \<open>Storing data\<close>

definition StorageImuData :: "u8 \<Rightarrow> ImuData \<Rightarrow> Lds \<Rightarrow> Lds exec" where
  "StorageImuData junk imu_data s =
     (if imu_lidar_type imu_data \<noteq> kLivoxLidarType then Ret s
      else case GetIndex (imu_lidar_type imu_data) (imu_handle imu_data) 0 (lds_cache_index s) of
        (ret, index) \<Rightarrow>
          if ret \<noteq> 0 then Ret s
          else if unat index \<ge> length (lds_lidars s) then Undef
          else let d = lds_lidars s ! unat index;
                   q = ImuQueue_Push junk imu_data (ld_imu_data d);
                   s = set_lidar (unat index) (d\<lparr>ld_imu_data := q\<rparr>) s
               in Ret (if \<not> ImuQueue_Empty q
                       then s\<lparr>lds_imu_semaphore := signal_if_none (lds_imu_semaphore s)\<rparr> else s))"

text \<open>The queue a packet goes to; it is allocated with the first packet.\<close>

definition ready_queue :: "f64 \<Rightarrow> LidarDataQueue \<Rightarrow> LidarDataQueue exec" where
  "ready_queue publish_freq q =
     (if storage_packet q = Null
      then bind_exec (CalculatePacketQueueSize publish_freq) (\<lambda>queue_size.
           bind_exec (InitQueue (Some q) queue_size) (\<lambda>(_, q'). Ret (the q')))
      else Ret q)"

definition PushLidarData :: "PointPacket \<Rightarrow> u8 \<Rightarrow> u64 \<Rightarrow> Lds \<Rightarrow> Lds exec" where
  "PushLidarData lidar_data index base_time s =
     (if unat index \<ge> length (lds_lidars s) then Undef
      else let d = lds_lidars s ! unat index in
      bind_exec (ready_queue (lds_publish_freq s) (ld_data d)) (\<lambda>q.
      if \<not> QueueIsFull q
      then bind_exec (QueuePushAny q lidar_data base_time) (\<lambda>(_, q).
           let s = set_lidar (unat index) (d\<lparr>ld_data := q\<rparr>) s
           in Ret (if \<not> QueueIsEmpty q
                   then s\<lparr>lds_pcd_semaphore := signal_if_none (lds_pcd_semaphore s)\<rparr> else s))
      else (let s = set_lidar (unat index) (d\<lparr>ld_data := q\<rparr>) s
            in Ret (s\<lparr>lds_pcd_semaphore := signal_if_none (lds_pcd_semaphore s)\<rparr>))))"

text \<open>The loops over the packets of a frame.\<close>

fun storage_packets :: "(u64 \<times> PointPacket) list \<Rightarrow> Lds \<Rightarrow> Lds exec" where
  "storage_packets [] s = Ret s"
| "storage_packets ((base_time, lidar_point) # rest) s =
     (case GetIndex (pp_lidar_type lidar_point) (pp_handle lidar_point) 0 (lds_cache_index s) of
        (ret, index) \<Rightarrow>
          if ret \<noteq> 0 then storage_packets rest s
          else bind_exec (PushLidarData lidar_point index base_time s) (storage_packets rest))"

definition StoragePointData :: "PointFrame option \<Rightarrow> Lds \<Rightarrow> Lds exec" where
  "StoragePointData frame s =
     (case frame of
        None \<Rightarrow> Ret s
      | Some fr \<Rightarrow> storage_packets (zip (pf_base_time fr) (pf_lidar_point fr)) s)"

fun storage_lvx_packets :: "(u64 \<times> PointPacket) list \<Rightarrow> Lds \<Rightarrow> Lds exec" where
  "storage_lvx_packets [] s = Ret s"
| "storage_lvx_packets ((base_time, lidar_point) # rest) s =
     (case LvxGetIndex (pp_lidar_type lidar_point) (pp_handle lidar_point) 0 (lds_cache_index s) of
        (ret, index, c) \<Rightarrow>
          let s = s\<lparr>lds_cache_index := c\<rparr>
          in if ret \<noteq> 0 then storage_lvx_packets rest s
             else if unat index \<ge> length (lds_lidars s) then Undef
             else let s = set_lidar (unat index)
                            ((lds_lidars s ! unat index)\<lparr>ld_connect_state := kConnectStateSampling\<rparr>) s
                  in bind_exec (PushLidarData lidar_point index base_time s) (storage_lvx_packets rest))"

definition StorageLvxPointData :: "PointFrame option \<Rightarrow> Lds \<Rightarrow> Lds exec" where
  "StorageLvxPointData frame s =
     (case frame of
        None \<Rightarrow> Ret s
      | Some fr \<Rightarrow> storage_lvx_packets (zip (pf_base_time fr) (pf_lidar_point fr)) s)"

text \<open>The two callbacks of the packet handler. A null client is \<open>None\<close>.\<close>

definition OnLidarPointClounCb :: "PointFrame option \<Rightarrow> Lds option \<Rightarrow> Lds option exec" where
  "OnLidarPointClounCb frame client_data =
     (case (frame, client_data) of
        (Some fr, Some s) \<Rightarrow>
          if length (pf_lidar_point fr) = 0 then Ret client_data
          else bind_exec (StoragePointData frame s) (\<lambda>s'. Ret (Some s'))
      | _ \<Rightarrow> Ret client_data)"

definition LidarImuDataCallback :: "u8 \<Rightarrow> ImuData option \<Rightarrow> Lds option \<Rightarrow> Lds option exec" where
  "LidarImuDataCallback junk imu_data client_data =
     (case (imu_data, client_data) of
        (Some d, Some s) \<Rightarrow> bind_exec (StorageImuData junk d s) (\<lambda>s'. Ret (Some s'))
      | _ \<Rightarrow> Ret client_data)"

section \<open>Initialisation\<close>

text \<open>The loop of \<open>InitLivoxLidar\<close> over the parsed configurations. Integer division of a signed
  number by ten truncates towards zero.\<close>

definition div10 :: "32 word \<Rightarrow> 32 word" where
  "div10 w = (let x = sint w in of_int (if x < 0 then - ((- x) div 10) else x div 10))"

definition config_ext_param :: "sdk \<Rightarrow> UserLivoxLidarConfig \<Rightarrow> LidarExtParameter" where
  "config_ext_param lib config =
     (let e = cfg_extrinsic_param config
      in \<lparr>lep_lidar_type = kLivoxLidarType, lep_handle = cfg_handle config,
          lep_param =
            (if cfg_pcl_data_type config = uint (sdk_kLivoxLidarCartesianCoordinateLowData lib)
             then e\<lparr>ext_x := div10 (ext_x e), ext_y := div10 (ext_y e), ext_z := div10 (ext_z e)\<rparr>
             else e)\<rparr>)"

fun fill_in_devices :: "sdk \<Rightarrow> UserLivoxLidarConfig list \<Rightarrow> Lds \<times> PubHandler \<Rightarrow> (Lds \<times> PubHandler) exec" where
  "fill_in_devices lib [] sp = Ret sp"
| "fill_in_devices lib (config # rest) (s, ph) =
     (case GetFreeIndex kLivoxLidarType (cfg_handle config) 0 (lds_cache_index s) of
        (ret, index, c) \<Rightarrow>
          let s = s\<lparr>lds_cache_index := c\<rparr>
          in if ret \<noteq> 0 then fill_in_devices lib rest (s, ph)
             else if unat index \<ge> length (lds_lidars s) then Undef
             else fill_in_devices lib rest
                    (set_lidar (unat index)
                       ((lds_lidars s ! unat index)\<lparr>ld_lidar_type := kLivoxLidarType,
                          ld_livox_config := config, ld_handle := cfg_handle config\<rparr>) s,
                     AddLidarsExtParam (config_ext_param lib config) ph))"

section \<open>Invariant and specification\<close>

definition queue_ok :: "LidarDataQueue \<Rightarrow> bool" where
  "queue_ok q = (case storage_packet q of Null \<Rightarrow> rd_idx q = wr_idx q | Freed \<Rightarrow> False | Alloc _ \<Rightarrow> ldq_inv q)"

definition lds_inv :: "Lds \<Rightarrow> bool" where
  "lds_inv s =
     (length (lds_lidars s) = kMaxSourceLidar \<and> ci_inv (lds_cache_index s)
      \<and> (\<forall>d \<in> set (lds_lidars s). queue_ok (ld_data d)) \<and> lds_publish_freq s < 2 ^ 32 - 1
      \<and> 0 \<le> lds_pcd_semaphore s)"

text \<open>What the device in slot \<open>i\<close> holds, and how much it can hold.\<close>

definition dev_contents :: "Lds \<Rightarrow> nat \<Rightarrow> (u64 \<times> PointXyzlt list) list" where
  "dev_contents s i = (let q = ld_data (lds_lidars s ! i) in if storage_packet q = Null then [] else ldq_contents q)"

definition queue_capacity :: "f64 \<Rightarrow> LidarDataQueue \<Rightarrow> nat" where
  "queue_capacity publish_freq q =
     (if storage_packet q = Null
      then (case CalculatePacketQueueSize publish_freq of
              Ret n \<Rightarrow> unat (if IsPowerOf2 n then n else RoundupPowerOf2 n) | Undef \<Rightarrow> 0)
      else ldq_capacity q)"

definition dev_capacity :: "Lds \<Rightarrow> nat \<Rightarrow> nat" where
  "dev_capacity s i = queue_capacity (lds_publish_freq s) (ld_data (lds_lidars s ! i))"

definition packet_ok :: "PointPacket \<Rightarrow> bool" where
  "packet_ok p = (unat (pp_points_num p) = length (pp_points p))"

lemma ready_queue_ok:
  assumes "queue_ok q" and "publish_freq < 2 ^ 32 - 1"
  obtains q' where "ready_queue publish_freq q = Ret q'" "ldq_inv q'"
    "ldq_contents q' = (if storage_packet q = Null then [] else ldq_contents q)"
    "ldq_capacity q' = queue_capacity publish_freq q" "storage_packet q' \<noteq> Null"
proof (cases "storage_packet q")
  case Null
  obtain n where n: "CalculatePacketQueueSize publish_freq = Ret n"
    using CalculatePacketQueueSize_bounds [OF assms(2)] by metis
  have "storage_packet q \<noteq> Freed" using Null by simp
  from InitQueue_inv [OF this, of n] obtain q' where
    q': "InitQueue (Some q) n = Ret (True, Some q')" "ldq_inv q'" "ldq_contents q' = []"
      "ldq_capacity q' = unat (if IsPowerOf2 n then n else RoundupPowerOf2 n)" by blast
  have "storage_packet q' \<noteq> Null" using q'(2) by (auto simp: ldq_inv_def)
  with q' Null n show thesis
    by (intro that [of q']) (simp_all add: ready_queue_def queue_capacity_def)
next
  case Freed
  with assms(1) show thesis by (simp add: queue_ok_def)
next
  case (Alloc xs)
  with assms(1) show thesis
    by (intro that [of q]) (simp_all add: queue_ok_def ready_queue_def queue_capacity_def)
qed

lemma take_append_take: "take n (take n xs @ ys) = take n (xs @ ys)"
  by (cases "length xs \<le> n") simp_all

lemma set_lidar_simps [simp]:
  "lds_cache_index (set_lidar i d s) = lds_cache_index s"
  "lds_publish_freq (set_lidar i d s) = lds_publish_freq s"
  "lds_pcd_semaphore (set_lidar i d s) = lds_pcd_semaphore s"
  "lds_request_exit (set_lidar i d s) = lds_request_exit s"
  "length (lds_lidars (set_lidar i d s)) = length (lds_lidars s)"
  "lds_lidars (set_lidar i d s) = (lds_lidars s)[i := d]"
  by (simp_all add: set_lidar_def)

text \<open>Two states that differ in queues and semaphores only.\<close>

definition same_devices :: "Lds \<Rightarrow> Lds \<Rightarrow> bool" where
  "same_devices s s' =
     (lds_cache_index s' = lds_cache_index s \<and> lds_publish_freq s' = lds_publish_freq s
      \<and> lds_request_exit s' = lds_request_exit s
      \<and> map ld_connect_state (lds_lidars s') = map ld_connect_state (lds_lidars s)
      \<and> (\<forall>i < length (lds_lidars s). dev_capacity s' i = dev_capacity s i))"

lemma PushLidarData_ok:
  assumes inv: "lds_inv s" and i: "unat index < kMaxSourceLidar" and p: "packet_ok p"
  shows "\<exists>s'. PushLidarData p index t s = Ret s' \<and> lds_inv s' \<and> same_devices s s' \<and> 0 < lds_pcd_semaphore s'
    \<and> (\<forall>j < kMaxSourceLidar. dev_contents s' j =
         (if j = unat index then take (dev_capacity s j) (dev_contents s j @ [(t, pp_points p)])
          else dev_contents s j))"
proof -
  let ?i = "unat index"
  let ?d = "lds_lidars s ! ?i"
  have len: "length (lds_lidars s) = kMaxSourceLidar" using inv by (simp add: lds_inv_def)
  have "queue_ok (ld_data ?d)" "lds_publish_freq s < 2 ^ 32 - 1"
    using inv i len by (simp_all add: lds_inv_def)
  from ready_queue_ok [OF this] obtain q where
    q: "ready_queue (lds_publish_freq s) (ld_data ?d) = Ret q" "ldq_inv q"
      "ldq_contents q = dev_contents s ?i" "ldq_capacity q = dev_capacity s ?i" "storage_packet q \<noteq> Null"
    by (auto simp: dev_contents_def dev_capacity_def Let_def)
  obtain q' where q': "ldq_inv q'" "ldq_capacity q' = ldq_capacity q" "storage_packet q' \<noteq> Null"
      "ldq_contents q' = take (ldq_capacity q) (ldq_contents q @ [(t, pp_points p)])"
      "PushLidarData p index t s = Ret ((set_lidar ?i (?d\<lparr>ld_data := q'\<rparr>) s)
         \<lparr>lds_pcd_semaphore := signal_if_none (lds_pcd_semaphore s)\<rparr>)"
  proof (cases "QueueIsFull q")
    case True
    then have "length (ldq_contents q) = ldq_capacity q" using ldq_is_full_iff [OF q(2)] by simp
    then show thesis using True q i len
      by (intro that [of q]) (simp_all add: PushLidarData_def Let_def)
  next
    case False
    have room: "ldq_used q < ldq_capacity q"
      using False ldq_is_full_iff [OF q(2)] q(2) by (simp add: ldq_inv_def)
    have "unat (pp_points_num p) = length (pp_points p)" using p by (simp add: packet_ok_def)
    from ldq_Push [OF q(2) room this, of t] obtain q' where
      r: "QueuePushAny q p t = Ret (1, q')" "ldq_inv q'"
        "ldq_contents q' = ldq_contents q @ [(t, pp_points p)]" "ldq_capacity q' = ldq_capacity q" by blast
    have "\<not> QueueIsEmpty q'" using r(3) by (simp add: ldq_is_empty_iff)
    moreover have "storage_packet q' \<noteq> Null" using r(2) by (auto simp: ldq_inv_def)
    ultimately show thesis using False q(1) i len r room
      by (intro that [of q']) (simp_all add: PushLidarData_def Let_def)
  qed
  let ?s' = "(set_lidar ?i (?d\<lparr>ld_data := q'\<rparr>) s)\<lparr>lds_pcd_semaphore := signal_if_none (lds_pcd_semaphore s)\<rparr>"
  have ok: "queue_ok q'" using q'(1,3) by (auto simp: queue_ok_def ldq_inv_def split: heap_array.split)
  have sem: "0 < signal_if_none (lds_pcd_semaphore s)" using inv signal_if_none_pos by (simp add: lds_inv_def)
  have "lds_inv ?s'"
    using inv ok sem len by (auto simp: lds_inv_def dest!: set_update_subset_insert [THEN subsetD])
  moreover have "same_devices s ?s'"
    using i len q(4) q'(2,3)
    by (auto simp: same_devices_def dev_capacity_def queue_capacity_def nth_list_update map_update
        list_update_same_conv)
  moreover have "dev_contents ?s' j = (if j = ?i then take (dev_capacity s j) (dev_contents s j @ [(t, pp_points p)])
      else dev_contents s j)" if "j < kMaxSourceLidar" for j
    using that i len q(3,4) q'(3,4) by (simp add: dev_contents_def nth_list_update)
  ultimately show ?thesis using q'(5) sem by auto
qed

text \<open>The packets of a frame that belong to slot \<open>i\<close>.\<close>

definition packets_for :: "CacheIndex \<Rightarrow> nat \<Rightarrow> (u64 \<times> PointPacket) list \<Rightarrow> (u64 \<times> PointXyzlt list) list" where
  "packets_for c i pkts =
     map (\<lambda>(t, p). (t, pp_points p))
       (filter (\<lambda>(t, p). pp_lidar_type p = kLivoxLidarType \<and> slot_of c (pp_handle p) = Some i) pkts)"

lemma GetIndex_other: "lt \<noteq> kLivoxLidarType \<Longrightarrow> GetIndex lt h i c = (- 1, i)"
  by (simp add: GetIndex_def GenerateIndexKey_def)

lemma same_devices_trans: "same_devices a b \<Longrightarrow> same_devices b c \<Longrightarrow> same_devices a c"
  by (auto simp: same_devices_def dest: map_eq_imp_length_eq)

definition known_packet :: "CacheIndex \<Rightarrow> PointPacket \<Rightarrow> bool" where
  "known_packet c p = (pp_lidar_type p = kLivoxLidarType \<and> slot_of c (pp_handle p) \<noteq> None)"

lemma storage_packets_ok:
  assumes "lds_inv s" and "\<forall>(t, p) \<in> set pkts. packet_ok p"
  shows "\<exists>s'. storage_packets pkts s = Ret s' \<and> lds_inv s' \<and> same_devices s s'
    \<and> (0 < lds_pcd_semaphore s \<or> (\<exists>(t, p) \<in> set pkts. known_packet (lds_cache_index s) p)
        \<longrightarrow> 0 < lds_pcd_semaphore s')
    \<and> (\<forall>i < kMaxSourceLidar. dev_contents s' i =
         take (dev_capacity s i) (dev_contents s i @ packets_for (lds_cache_index s) i pkts))"
  using assms
proof (induction pkts arbitrary: s)
  case Nil
  have "dev_contents s i = take (dev_capacity s i) (dev_contents s i)" if "i < kMaxSourceLidar" for i
  proof -
    have "queue_ok (ld_data (lds_lidars s ! i))" using Nil(1) that by (simp add: lds_inv_def)
    then show ?thesis
      by (auto simp: dev_contents_def dev_capacity_def queue_capacity_def queue_ok_def Let_def ldq_inv_def
          split: heap_array.splits)
  qed
  then show ?case using Nil by (simp add: packets_for_def same_devices_def)
next
  case (Cons tp pkts)
  obtain t p where tp: "tp = (t, p)" by (metis prod.exhaust)
  have rest: "\<forall>(t, p) \<in> set pkts. packet_ok p" and p: "packet_ok p" using Cons.prems(2) by (simp_all add: tp)
  let ?c = "lds_cache_index s"
  show ?case
  proof (cases "pp_lidar_type p = kLivoxLidarType \<and> slot_of ?c (pp_handle p) \<noteq> None")
    case False
    then have "fst (GetIndex (pp_lidar_type p) (pp_handle p) 0 ?c) \<noteq> 0"
      by (cases "pp_lidar_type p = kLivoxLidarType") (auto simp: GetIndex_slot_of GetIndex_other)
    then have "storage_packets (tp # pkts) s = storage_packets pkts s"
      by (simp add: tp case_prod_unfold)
    moreover have "packets_for ?c i (tp # pkts) = packets_for ?c i pkts" for i
      using False by (auto simp: packets_for_def tp)
    moreover have "\<not> known_packet ?c p" using False by (simp add: known_packet_def)
    ultimately show ?thesis using Cons.IH [OF Cons.prems(1) rest] by (simp add: tp)
  next
    case True
    then obtain k where k: "pp_lidar_type p = kLivoxLidarType" "slot_of ?c (pp_handle p) = Some k" by auto
    have ci: "ci_inv ?c" using Cons.prems(1) by (simp add: lds_inv_def)
    have kb: "k < kMaxSourceLidar" by (rule ci_slot_bound [OF ci k(2)])
    have idx: "GetIndex (pp_lidar_type p) (pp_handle p) 0 ?c = (0, of_nat k)" by (simp add: k GetIndex_slot_of)
    have ub: "unat (of_nat k :: u8) = k" by (rule unat_of_nat_u8 [OF kb])
    from PushLidarData_ok [OF Cons.prems(1) _ p, of "of_nat k" t] kb ub obtain s1 where
      s1: "PushLidarData p (of_nat k) t s = Ret s1" "lds_inv s1" "same_devices s s1" "0 < lds_pcd_semaphore s1"
        "\<forall>j < kMaxSourceLidar. dev_contents s1 j =
           (if j = k then take (dev_capacity s j) (dev_contents s j @ [(t, pp_points p)]) else dev_contents s j)"
      by auto
    from Cons.IH [OF s1(2) rest] obtain s2 where
      s2: "storage_packets pkts s1 = Ret s2" "lds_inv s2" "same_devices s1 s2"
        "0 < lds_pcd_semaphore s1 \<or> (\<exists>(t, p) \<in> set pkts. known_packet (lds_cache_index s1) p)
           \<longrightarrow> 0 < lds_pcd_semaphore s2"
        "\<forall>i < kMaxSourceLidar. dev_contents s2 i =
           take (dev_capacity s1 i) (dev_contents s1 i @ packets_for (lds_cache_index s1) i pkts)" by blast
    have same: "lds_cache_index s1 = ?c" "\<And>i. i < kMaxSourceLidar \<Longrightarrow> dev_capacity s1 i = dev_capacity s i"
      using s1(3) Cons.prems(1) by (auto simp: same_devices_def lds_inv_def)
    have "storage_packets (tp # pkts) s = Ret s2" using s1(1) s2(1) by (simp add: tp idx)
    moreover have "dev_contents s2 i = take (dev_capacity s i) (dev_contents s i @ packets_for ?c i (tp # pkts))"
      if i: "i < kMaxSourceLidar" for i
    proof -
      have s2i: "dev_contents s2 i = take (dev_capacity s i) (dev_contents s1 i @ packets_for ?c i pkts)"
        using s2(5) i same by simp
      show ?thesis
      proof (cases "i = k")
        case True
        have "packets_for ?c i (tp # pkts) = (t, pp_points p) # packets_for ?c i pkts"
          using k True by (simp add: packets_for_def tp)
        moreover have "dev_contents s1 i = take (dev_capacity s i) (dev_contents s i @ [(t, pp_points p)])"
          using s1(5) i True by simp
        ultimately show ?thesis
          using s2i take_append_take [of "dev_capacity s i" "dev_contents s i @ [(t, pp_points p)]" "packets_for ?c i pkts"]
          by (simp del: take_append)
      next
        case False
        then show ?thesis using s2i s1(5) i k by (simp add: packets_for_def tp)
      qed
    qed
    ultimately show ?thesis using s2(2,4) s1(4) same_devices_trans [OF s1(3) s2(3)] by blast
  qed
qed

section \<open>A concrete data source\<close>

definition ex_lidar_config :: UserLivoxLidarConfig where
  "ex_lidar_config = \<lparr>cfg_handle = 5, cfg_pcl_data_type = 1, cfg_pattern_mode = 0, cfg_blind_spot_set = - 1,
     cfg_dual_emit_en = - 1,
     cfg_extrinsic_param = \<lparr>ext_roll = 0, ext_pitch = 0, ext_yaw = 0, ext_x = 0, ext_y = 0, ext_z = 0\<rparr>,
     cfg_set_bits = 0, cfg_get_bits = 0\<rparr>"

definition ex_device :: LidarDevice where
  "ex_device = \<lparr>ld_lidar_type = kLivoxLidarType, ld_handle = 5, ld_data_src = 0,
     ld_connect_state = kConnectStateSampling,
     ld_data = \<lparr>storage_packet = Null, rd_idx = 0, wr_idx = 0, qmask = 0, qsize = 0\<rparr>,
     ld_imu_data = [], ld_livox_config = ex_lidar_config\<rparr>"

definition ex_lds :: Lds where
  "ex_lds = \<lparr>lds_lidars = replicate 32 ex_device, lds_pcd_semaphore = 0, lds_imu_semaphore = 0,
     lds_cache_index = claim_slot 5 new_CacheIndex, lds_publish_freq = 10, lds_data_src = 0,
     lds_request_exit = False\<rparr>"

lemma ex_lds_index: "ci_inv (claim_slot 5 new_CacheIndex)" "slot_of (claim_slot 5 new_CacheIndex) 5 \<noteq> None"
proof -
  have "slots_used new_CacheIndex = {}" by (auto simp: slots_used_def new_CacheIndex_def)
  then have "card (slots_used new_CacheIndex) + length [5 :: u32] \<le> kMaxSourceLidar"
    by (simp add: kMaxSourceLidar_def)
  from ci.claim_all [OF ci_inv_new _ this]
  show "ci_inv (claim_slot 5 new_CacheIndex)" "slot_of (claim_slot 5 new_CacheIndex) 5 \<noteq> None" by simp_all
qed

end
