(* ===== verification/Timeshare.thy ===== *)
theory Timeshare
  imports Livox_Types
begin

text \<open>
  The file through which the LiDAR driver hands its frame timestamps to the camera driver: the writer
  \<open>Lddc::UpdateSharedTimestamp\<close> (\<^verbatim>\<open>livox_ros_driver2/src/lddc.cpp\<close>) and the reader
  \<open>ReadSharedTimestamp\<close>, \<open>WaitForNextSharedTimestamp\<close> (\<^verbatim>\<open>mvs_ros2_driver/src/grab_trigger.cc\<close>). The two
  processes share two 64-bit words, a sequence number that is odd during an update and the timestamp.
  A step is one atomic load or store, in one order of all accesses.
\<close>

section \<open>The two programs as functions\<close>

text \<open>The writer without interruption: the words after an update.\<close>

definition UpdateSharedTimestamp :: "u64 \<Rightarrow> (int \<times> int) option \<Rightarrow> (int \<times> int) option" where
  "UpdateSharedTimestamp timestamp pointt =
     (case pointt of
        None \<Rightarrow> None
      | Some (high, low) \<Rightarrow>
          (let sequence = (if odd high then high + 1 else high) in Some (sequence + 2, sint timestamp)))"

text \<open>One attempt of the reader, given what its three loads return.\<close>

definition read_attempt :: "int \<Rightarrow> int \<Rightarrow> int \<Rightarrow> (int \<times> int) option" where
  "read_attempt sequence_before value sequence_after =
     (if sequence_before = 0 \<or> odd sequence_before then None
      else if sequence_before = sequence_after \<and> even sequence_after \<and> value > 0
           then Some (sequence_after, value) else None)"

section \<open>Interleaving\<close>

datatype writer_pc = Idle | Loaded int int | Odd int int | Stored int int

datatype reader_pc = Start nat | Before nat int | Value nat int int

text \<open>The shared words, the two programs, the timestamps written so far, and what the camera
  received. \<open>Loaded sq t\<close>: about to store \<open>sq + 1\<close>; \<open>Odd sq t\<close>: about to store the timestamp; \<open>Stored sq t\<close>:
  about to store \<open>sq + 2\<close>. The reader counts its attempts.\<close>

record timeshare =
  ts_high :: int
  ts_low :: int
  ts_writer :: writer_pc
  ts_reader :: reader_pc
  ts_last_sequence :: int
  ts_written :: "int list"
  ts_received :: "(int \<times> int) list"

definition next_attempt :: "nat \<Rightarrow> reader_pc" where
  "next_attempt a = (if a + 1 < 8 then Start (a + 1) else Start 0)"

inductive ts_step :: "timeshare \<Rightarrow> timeshare \<Rightarrow> bool" where
  w_load: "ts_writer s = Idle \<Longrightarrow> 0 < t \<Longrightarrow>
    ts_step s (s\<lparr>ts_writer := Loaded (if odd (ts_high s) then ts_high s + 1 else ts_high s) t\<rparr>)"
| w_odd: "ts_writer s = Loaded sq t \<Longrightarrow> ts_step s (s\<lparr>ts_high := sq + 1, ts_writer := Odd sq t\<rparr>)"
| w_low: "ts_writer s = Odd sq t \<Longrightarrow>
    ts_step s (s\<lparr>ts_low := t, ts_writer := Stored sq t, ts_written := ts_written s @ [t]\<rparr>)"
| w_even: "ts_writer s = Stored sq t \<Longrightarrow> ts_step s (s\<lparr>ts_high := sq + 2, ts_writer := Idle\<rparr>)"
| r_before: "ts_reader s = Start a \<Longrightarrow>
    ts_step s (s\<lparr>ts_reader := (if ts_high s = 0 \<or> odd (ts_high s) then next_attempt a else Before a (ts_high s))\<rparr>)"
| r_value: "ts_reader s = Before a before \<Longrightarrow> ts_step s (s\<lparr>ts_reader := Value a before (ts_low s)\<rparr>)"
| r_after: "ts_reader s = Value a before v \<Longrightarrow>
    ts_step s (case read_attempt before v (ts_high s) of
        None \<Rightarrow> s\<lparr>ts_reader := next_attempt a\<rparr>
      | Some (sequence, timestamp) \<Rightarrow>
          (if sequence \<noteq> ts_last_sequence s
           then s\<lparr>ts_reader := Start 0, ts_last_sequence := sequence,
                  ts_received := ts_received s @ [(sequence, timestamp)]\<rparr>
           else s\<lparr>ts_reader := Start 0\<rparr>))"

text \<open>Both words are cleared when the driver maps the file; the reader joins before the first update.\<close>

definition ts_start :: timeshare where
  "ts_start = \<lparr>ts_high = 0, ts_low = 0, ts_writer = Idle, ts_reader = Start 0, ts_last_sequence = 0,
     ts_written = [], ts_received = []\<rparr>"

inductive_cases ts_stepE: "ts_step s s'"

section \<open>Invariant\<close>

text \<open>How many timestamps have been written completely, by the writer's position.\<close>

definition writer_inv :: "timeshare \<Rightarrow> bool" where
  "writer_inv s =
     (let n = int (length (ts_written s))
      in (\<forall>t \<in> set (ts_written s). 0 < t)
         \<and> (case ts_writer s of
              Idle \<Rightarrow> ts_high s = 2 * n \<and> (0 < n \<longrightarrow> ts_low s = last (ts_written s))
            | Loaded sq t \<Rightarrow> 0 < t \<and> sq = 2 * n \<and> ts_high s = 2 * n \<and> (0 < n \<longrightarrow> ts_low s = last (ts_written s))
            | Odd sq t \<Rightarrow> 0 < t \<and> sq = 2 * n \<and> ts_high s = 2 * n + 1
            | Stored sq t \<Rightarrow> 0 < n \<and> sq = 2 * (n - 1) \<and> ts_high s = 2 * n - 1 \<and> ts_low s = last (ts_written s)))"

text \<open>What the reader holds: \<open>before\<close> was the sequence number at some time; the value is right if the
  number is still the same.\<close>

definition reader_inv :: "timeshare \<Rightarrow> bool" where
  "reader_inv s =
     (ts_last_sequence s \<le> ts_high s
      \<and> (case ts_reader s of
           Start a \<Rightarrow> True
         | Before a before \<Rightarrow> before \<noteq> 0 \<and> even before \<and> before \<le> ts_high s \<and> ts_last_sequence s \<le> before
         | Value a before v \<Rightarrow> before \<noteq> 0 \<and> even before \<and> before \<le> ts_high s \<and> ts_last_sequence s \<le> before
             \<and> (before = ts_high s \<longrightarrow> v = last (ts_written s))))"

definition received_inv :: "timeshare \<Rightarrow> bool" where
  "received_inv s =
     (sorted_wrt (<) (map fst (ts_received s))
      \<and> (\<forall>(sq, t) \<in> set (ts_received s). \<exists>k < length (ts_written s). sq = 2 * (int k + 1) \<and> t = ts_written s ! k)
      \<and> (if ts_received s = [] then ts_last_sequence s = 0
         else ts_last_sequence s = fst (last (ts_received s))))"

lemma writer_inv_step: "ts_step s s' \<Longrightarrow> writer_inv s \<Longrightarrow> writer_inv s'"
  by (erule ts_step.cases) (auto simp: writer_inv_def Let_def split: option.splits writer_pc.splits)

lemma writer_high_even:
  "writer_inv s \<Longrightarrow> even (ts_high s) \<Longrightarrow> ts_high s = 2 * int (length (ts_written s))
     \<and> (ts_written s \<noteq> [] \<longrightarrow> ts_low s = last (ts_written s))"
  by (auto simp: writer_inv_def Let_def split: writer_pc.splits)

lemma writer_step_high: "ts_step s s' \<Longrightarrow> writer_inv s \<Longrightarrow>
    ts_high s \<le> ts_high s' \<and> (even (ts_high s) \<longrightarrow> ts_high s' = ts_high s \<longrightarrow> ts_written s' = ts_written s)
    \<and> (\<exists>more. ts_written s' = ts_written s @ more)"
  by (erule ts_step.cases) (auto simp: writer_inv_def Let_def split: option.splits)

lemma read_attempt_Some:
  "read_attempt before v high = Some (sq, t) \<longleftrightarrow>
     before \<noteq> 0 \<and> even before \<and> before = high \<and> 0 < v \<and> sq = high \<and> t = v"
  by (auto simp: read_attempt_def)

lemma reader_inv_writer:
  assumes "reader_inv s" and "ts_reader s' = ts_reader s" and "ts_last_sequence s' = ts_last_sequence s"
    and "ts_high s \<le> ts_high s'"
    and "even (ts_high s) \<Longrightarrow> ts_high s' = ts_high s \<Longrightarrow> ts_written s' = ts_written s"
  shows "reader_inv s'"
proof (cases "ts_reader s")
  case (Value a before v)
  show ?thesis
  proof (cases "before = ts_high s'")
    case True
    then have "ts_high s' = ts_high s" "even (ts_high s)" using assms(1,4) Value by (auto simp: reader_inv_def)
    with assms Value True show ?thesis by (simp add: reader_inv_def)
  next
    case False
    with assms Value show ?thesis by (simp add: reader_inv_def)
  qed
qed (use assms in \<open>simp_all add: reader_inv_def\<close>)

lemma reader_inv_step:
  assumes "ts_step s s'" and "writer_inv s" and "reader_inv s"
  shows "reader_inv s'"
proof -
  note high = writer_step_high [OF assms(1,2)]
  have same: "reader_inv s'" if "ts_reader s' = ts_reader s" "ts_last_sequence s' = ts_last_sequence s"
    using reader_inv_writer [OF assms(3) that] high by blast
  from assms(1) show ?thesis
  proof cases
  case (r_value a before)
  have b: "before \<noteq> 0" "even before" "before \<le> ts_high s" "ts_last_sequence s \<le> before"
    using assms(3) r_value(2) by (simp_all add: reader_inv_def)
  have "ts_low s = last (ts_written s)" if "before = ts_high s"
  proof -
    have "ts_high s = 2 * int (length (ts_written s))" "ts_written s \<noteq> [] \<longrightarrow> ts_low s = last (ts_written s)"
      using writer_high_even [OF assms(2)] b(2) that by simp_all
    with b(1) that show ?thesis by auto
  qed
  with b r_value(1) show ?thesis by (simp add: reader_inv_def)
next
  case (r_after a before v)
  show ?thesis
  proof (cases "read_attempt before v (ts_high s)")
    case None
    with r_after assms(3) show ?thesis by (simp add: reader_inv_def next_attempt_def)
  next
    case (Some r)
    then obtain t where "r = (ts_high s, t)" by (cases r) (simp add: read_attempt_Some)
    with Some r_after assms(3) show ?thesis by (simp add: reader_inv_def)
  qed
next
  case (r_before a)
  then show ?thesis using assms(3) by (simp add: reader_inv_def next_attempt_def)
  qed (rule same; simp)+
qed

lemma received_inv_same:
  assumes "received_inv s" and "ts_received s' = ts_received s" and "ts_last_sequence s' = ts_last_sequence s"
    and "\<exists>more. ts_written s' = ts_written s @ more"
  shows "received_inv s'"
proof -
  obtain more where more: "ts_written s' = ts_written s @ more" using assms(4) by blast
  have "\<exists>k < length (ts_written s'). fst x = 2 * (int k + 1) \<and> snd x = ts_written s' ! k"
    if x: "x \<in> set (ts_received s)" for x
  proof -
    obtain k where "k < length (ts_written s)" "fst x = 2 * (int k + 1)" "snd x = ts_written s ! k"
      using assms(1) x unfolding received_inv_def case_prod_unfold by blast
    with more show ?thesis by (intro exI [of _ k]) (simp add: nth_append)
  qed
  with assms(1-3) show ?thesis by (simp add: received_inv_def case_prod_unfold)
qed

lemma received_inv_step:
  assumes "ts_step s s'" and "writer_inv s" and "reader_inv s" and "received_inv s"
  shows "received_inv s'"
proof (cases "ts_received s' = ts_received s \<and> ts_last_sequence s' = ts_last_sequence s")
  case True
  with received_inv_same [OF assms(4)] writer_step_high [OF assms(1,2)] show ?thesis by blast
next
  case False
  have "\<exists>a before v. ts_reader s = Value a before v \<and> read_attempt before v (ts_high s) = Some (ts_high s, v)
      \<and> ts_high s \<noteq> ts_last_sequence s
      \<and> s' = s\<lparr>ts_reader := Start 0, ts_last_sequence := ts_high s, ts_received := ts_received s @ [(ts_high s, v)]\<rparr>"
    using assms(1)
  proof cases
    case (r_after a before v)
    show ?thesis
    proof (cases "read_attempt before v (ts_high s)")
      case None
      with r_after False show ?thesis by simp
    next
      case (Some r)
      then have r: "r = (ts_high s, v)" by (cases r) (simp add: read_attempt_Some)
      then have "ts_high s \<noteq> ts_last_sequence s" using r_after Some False by (auto split: if_splits)
      with r_after Some r show ?thesis by simp
    qed
  qed (use False in simp_all)
  then obtain a before v where
    r: "ts_reader s = Value a before v" "read_attempt before v (ts_high s) = Some (ts_high s, v)"
      "ts_high s \<noteq> ts_last_sequence s"
      "s' = s\<lparr>ts_reader := Start 0, ts_last_sequence := ts_high s, ts_received := ts_received s @ [(ts_high s, v)]\<rparr>"
    by blast
  then have b: "before = ts_high s" "even (ts_high s)" "ts_high s \<noteq> 0" by (auto simp: read_attempt_Some)
  have v: "v = last (ts_written s)" and lt: "ts_last_sequence s < ts_high s"
    using assms(3) r(1,3) b(1) by (simp_all add: reader_inv_def)
  have n: "ts_high s = 2 * int (length (ts_written s))" using writer_high_even [OF assms(2) b(2)] by simp
  with b(3) have ne: "ts_written s \<noteq> []" by auto
  let ?k = "length (ts_written s) - 1"
  have k: "?k < length (ts_written s)" "ts_high s = 2 * (int ?k + 1)" "v = ts_written s ! ?k"
    using ne n v by (simp_all add: last_conv_nth of_nat_diff Suc_le_eq)
  have below: "sq < ts_high s" if "(sq, t) \<in> set (ts_received s)" for sq t
  proof -
    have sorted: "sorted_wrt (<) (map fst (ts_received s))" and nonempty: "ts_received s \<noteq> []"
      using assms(4) that by (auto simp: received_inv_def)
    obtain xs y where xs: "ts_received s = xs @ [y]" using nonempty by (metis rev_exhaust)
    then have "sq \<le> fst y" using sorted that by (auto simp: sorted_wrt_append)
    then show ?thesis using lt assms(4) xs by (simp add: received_inv_def)
  qed
  have "sorted_wrt (<) (map fst (ts_received s'))"
    using assms(4) below by (auto simp: r(4) received_inv_def sorted_wrt_append)
  moreover have "\<forall>(sq, t) \<in> set (ts_received s'). \<exists>k < length (ts_written s'). sq = 2 * (int k + 1) \<and> t = ts_written s' ! k"
    using assms(4) k by (auto simp: r(4) received_inv_def)
  ultimately show ?thesis by (simp add: received_inv_def r(4))
qed

lemma ts_reach_inv:
  "ts_step\<^sup>*\<^sup>* ts_start s \<Longrightarrow> writer_inv s \<and> reader_inv s \<and> received_inv s"
proof (induction rule: rtranclp_induct)
  case base
  show ?case by (simp add: ts_start_def writer_inv_def reader_inv_def received_inv_def)
next
  case (step s s')
  then show ?case using writer_inv_step reader_inv_step received_inv_step by blast
qed

text \<open>C31: However the two processes interleave, the camera receives each LiDAR timestamp at most once
  and in the order the driver wrote them, and what it receives under a sequence number is exactly the
  timestamp written under that number: no mixture of two updates and none that is half
  written.\<close>

theorem shared_timestamps_consistent:
  assumes "ts_step\<^sup>*\<^sup>* ts_start s"
  shows "sorted_wrt (<) (map fst (ts_received s))
    \<and> (\<forall>(sequence, t) \<in> set (ts_received s).
         \<exists>k < length (ts_written s). sequence = 2 * (int k + 1) \<and> t = ts_written s ! k)"
  using ts_reach_inv [OF assms] by (simp add: received_inv_def)

text \<open>The steps of the writer alone do what the function does.\<close>

lemma writer_alone:
  assumes "ts_writer s = Idle" and "0 < sint t"
  shows "ts_step\<^sup>*\<^sup>* s (s\<lparr>ts_high := fst (the (UpdateSharedTimestamp t (Some (ts_high s, ts_low s)))),
     ts_low := snd (the (UpdateSharedTimestamp t (Some (ts_high s, ts_low s)))),
     ts_writer := Idle, ts_written := ts_written s @ [sint t]\<rparr>)"
proof -
  let ?sq = "if odd (ts_high s) then ts_high s + 1 else ts_high s"
  let ?s1 = "s\<lparr>ts_writer := Loaded ?sq (sint t)\<rparr>"
  let ?s2 = "?s1\<lparr>ts_high := ?sq + 1, ts_writer := Odd ?sq (sint t)\<rparr>"
  let ?s3 = "?s2\<lparr>ts_low := sint t, ts_writer := Stored ?sq (sint t), ts_written := ts_written s @ [sint t]\<rparr>"
  let ?s4 = "?s3\<lparr>ts_high := ?sq + 2, ts_writer := Idle\<rparr>"
  have "ts_step s ?s1" by (rule w_load [OF assms])
  moreover have "ts_step ?s1 ?s2" by (rule w_odd) simp
  moreover have "ts_step ?s2 ?s3" using w_low [of ?s2 ?sq "sint t"] by simp
  moreover have "ts_step ?s3 ?s4" by (rule w_even) simp
  ultimately have "ts_step\<^sup>*\<^sup>* s ?s4" by (meson rtranclp.rtrancl_into_rtrancl rtranclp.rtrancl_refl)
  moreover have "?s4 = s\<lparr>ts_high := fst (the (UpdateSharedTimestamp t (Some (ts_high s, ts_low s)))),
     ts_low := snd (the (UpdateSharedTimestamp t (Some (ts_high s, ts_low s)))),
     ts_writer := Idle, ts_written := ts_written s @ [sint t]\<rparr>"
    by (simp add: UpdateSharedTimestamp_def Let_def)
  ultimately show ?thesis by simp
qed

theorem shared_timestamps_consistent_witness:
  "\<exists>s. ts_step\<^sup>*\<^sup>* ts_start s \<and> ts_received s = [(2, 1000)] \<and> ts_written s ! 0 = 1000"
proof -
  let ?w = "ts_start\<lparr>ts_high := 2, ts_low := 1000, ts_writer := Idle, ts_written := [1000]\<rparr>"
  have "ts_step\<^sup>*\<^sup>* ts_start ?w"
    using writer_alone [of ts_start 1000] by (simp add: ts_start_def UpdateSharedTimestamp_def Let_def)
  moreover have "ts_step ?w (?w\<lparr>ts_reader := Before 0 2\<rparr>)"
    using r_before [of ?w 0] by (simp add: ts_start_def)
  moreover have "ts_step (?w\<lparr>ts_reader := Before 0 2\<rparr>) (?w\<lparr>ts_reader := Value 0 2 1000\<rparr>)"
    using r_value [of "?w\<lparr>ts_reader := Before 0 2\<rparr>" 0 2] by simp
  moreover have "ts_step (?w\<lparr>ts_reader := Value 0 2 1000\<rparr>)
      (?w\<lparr>ts_reader := Start 0, ts_last_sequence := 2, ts_received := [(2, 1000)]\<rparr>)"
    using r_after [of "?w\<lparr>ts_reader := Value 0 2 1000\<rparr>" 0 2 1000] by (simp add: ts_start_def read_attempt_def)
  ultimately have reach: "ts_step\<^sup>*\<^sup>* ts_start (?w\<lparr>ts_reader := Start 0, ts_last_sequence := 2, ts_received := [(2, 1000)]\<rparr>)"
    by (meson rtranclp.rtrancl_into_rtrancl)
  from shared_timestamps_consistent [OF reach] reach show ?thesis by (intro exI conjI) auto
qed

end
