(* ===== verification/Livox_Lddc.thy ===== *)
theory Livox_Lddc
  imports Livox_Lds Timeshare
begin

text \<open>
  The distribution of point clouds and IMU samples, \<^verbatim>\<open>livox_ros_driver2/src/lddc.cpp\<close> in its ROS 2
  build: the publishing threads wait on a semaphore, visit the devices in slot order and drain the
  queue of every device that is sampling. Published messages are appended to a list; publishers and
  topics are left out. A draining loop that does not end is \<open>None\<close>.
\<close>

section \<open>Messages\<close>

record cloud_point =
  cp_x :: f32
  cp_y :: f32
  cp_z :: f32
  cp_reflectivity :: f32
  cp_tag :: u8
  cp_line :: u8
  cp_timestamp :: f64

record CustomPoint =
  cu_offset_time :: u32
  cu_x :: f32
  cu_y :: f32
  cu_z :: f32
  cu_reflectivity :: u8
  cu_tag :: u8
  cu_line :: u8

record CustomMsg =
  cm_timebase :: u64
  cm_point_num :: u32
  cm_lidar_id :: u8
  cm_points :: "CustomPoint list"

record LivoxImuMsg =
  im_stamp :: u64
  im_angular_velocity :: vec3
  im_linear_acceleration :: vec3

datatype message =
    PointCloud2 u8 u64 "cloud_point list"
  | Custom u8 CustomMsg
  | Imu u8 LivoxImuMsg

definition kPointCloud2Msg :: u8 where "kPointCloud2Msg = 0"
definition kLivoxCustomMsg :: u8 where "kLivoxCustomMsg = 1"
definition kPclPxyziMsg :: u8 where "kPclPxyziMsg = 2"

record Lddc =
  lc_transfer_format :: u8
  lc_pointt :: "(int \<times> int) option"
  lc_published :: "message list"

text \<open>A popped packet is its base time and its points; \<open>QueuePop\<close> makes \<open>points_num\<close> their number.\<close>

definition cloud_points :: "PointXyzlt list \<Rightarrow> cloud_point list" where
  "cloud_points pts =
     map (\<lambda>p. \<lparr>cp_x = px p, cp_y = py p, cp_z = pz p, cp_reflectivity = pintensity p, cp_tag = ptag p,
               cp_line = pline p, cp_timestamp = real (unat (poffset_time p))\<rparr>) pts"

definition FillPointsToCustomMsg :: "u64 \<Rightarrow> PointXyzlt list \<Rightarrow> CustomPoint list" where
  "FillPointsToCustomMsg base_time pts =
     map (\<lambda>p. \<lparr>cu_offset_time = ucast (poffset_time p - base_time), cu_x = px p, cu_y = py p, cu_z = pz p,
               cu_reflectivity = of_int \<lfloor>pintensity p\<rfloor>, cu_tag = ptag p, cu_line = pline p\<rparr>) pts"

text \<open>The message's \<open>lidar_id\<close> is a \<open>uint8\<close>: the handle is truncated.\<close>

definition InitCustomMsg :: "u8 \<Rightarrow> u32 \<Rightarrow> u64 \<Rightarrow> PointXyzlt list \<Rightarrow> CustomMsg" where
  "InitCustomMsg lidar_type handle base_time pts =
     \<lparr>cm_timebase = (if pts = [] then 0 else base_time), cm_point_num = of_nat (length pts),
      cm_lidar_id = (if lidar_type = kLivoxLidarType then ucast handle else 0), cm_points = []\<rparr>"

definition publish :: "message \<Rightarrow> Lddc \<Rightarrow> Lddc" where
  "publish m lc = lc\<lparr>lc_published := lc_published lc @ [m]\<rparr>"

definition update_shared :: "u64 \<Rightarrow> Lddc \<Rightarrow> Lddc" where
  "update_shared timestamp lc = lc\<lparr>lc_pointt := UpdateSharedTimestamp timestamp (lc_pointt lc)\<rparr>"

section \<open>Draining\<close>

text \<open>The bodies of the two draining loops.\<close>

definition publish_pointcloud2 :: "u8 \<Rightarrow> u64 \<times> PointXyzlt list \<Rightarrow> Lddc \<Rightarrow> Lddc" where
  "publish_pointcloud2 index pkg lc =
     (case pkg of (base_time, pts) \<Rightarrow>
        if pts = [] then lc
        else update_shared base_time (publish (PointCloud2 index base_time (cloud_points pts)) lc))"

definition publish_custom :: "u8 \<Rightarrow> LidarDevice \<Rightarrow> u64 \<times> PointXyzlt list \<Rightarrow> Lddc \<Rightarrow> Lddc" where
  "publish_custom index lidar pkg lc =
     (case pkg of (base_time, pts) \<Rightarrow>
        if pts = [] then lc
        else publish (Custom index
               ((InitCustomMsg (ld_lidar_type lidar) (ld_handle lidar) base_time pts)
                  \<lparr>cm_points := FillPointsToCustomMsg base_time pts\<rparr>))
               (update_shared base_time lc))"

definition PublishPointcloud2 :: "u8 \<Rightarrow> LidarDataQueue \<Rightarrow> Lddc \<Rightarrow> (LidarDataQueue \<times> Lddc) option" where
  "PublishPointcloud2 index = drain QueueIsEmpty ldq_pop (publish_pointcloud2 index)"

definition PublishCustomPointcloud ::
  "u8 \<Rightarrow> LidarDevice \<Rightarrow> LidarDataQueue \<Rightarrow> Lddc \<Rightarrow> (LidarDataQueue \<times> Lddc) option" where
  "PublishCustomPointcloud index lidar = drain QueueIsEmpty ldq_pop (publish_custom index lidar)"

text \<open>The polling loop. In the ROS 2 build \<open>PublishPclMsg\<close> returns at once, and an unknown format has
  no branch: the loop then goes round with the same queue.\<close>

partial_function (option) poll_loop ::
  "u8 \<Rightarrow> LidarDevice \<Rightarrow> bool \<Rightarrow> LidarDataQueue \<Rightarrow> Lddc \<Rightarrow> (LidarDataQueue \<times> Lddc) option" where
  "poll_loop index lidar request_exit q lc =
     (if request_exit \<or> QueueIsEmpty q then Some (q, lc)
      else Option.bind
             (if lc_transfer_format lc = kPointCloud2Msg then PublishPointcloud2 index q lc
              else if lc_transfer_format lc = kLivoxCustomMsg then PublishCustomPointcloud index lidar q lc
              else Some (q, lc))
             (\<lambda>r. poll_loop index lidar request_exit (fst r) (snd r)))"

text \<open>\<open>share_opens\<close>: whether this call of \<open>TryInitializeTimestampShare\<close> maps the file.\<close>

definition PollingLidarPointCloudData ::
  "bool \<Rightarrow> u8 \<Rightarrow> bool \<Rightarrow> LidarDevice \<Rightarrow> Lddc \<Rightarrow> (LidarDevice \<times> Lddc) option" where
  "PollingLidarPointCloudData share_opens index request_exit lidar lc =
     (if storage_packet (ld_data lidar) = Null then Some (lidar, lc)
      else let lc = (if lc_pointt lc = None \<and> share_opens then lc\<lparr>lc_pointt := Some (0, 0)\<rparr> else lc)
           in Option.bind (poll_loop index lidar request_exit (ld_data lidar) lc)
                (\<lambda>(q, lc). Some (lidar\<lparr>ld_data := q\<rparr>, lc)))"

fun distribute_points ::
  "bool \<Rightarrow> bool \<Rightarrow> nat \<Rightarrow> LidarDevice list \<Rightarrow> Lddc \<Rightarrow> (LidarDevice list \<times> Lddc) option" where
  "distribute_points share_opens request_exit i [] lc = Some ([], lc)"
| "distribute_points share_opens request_exit i (d # ds) lc =
     Option.bind
       (if ld_connect_state d \<noteq> kConnectStateSampling then Some (d, lc)
        else PollingLidarPointCloudData share_opens (of_nat i) request_exit d lc)
       (\<lambda>(d', lc'). Option.bind (distribute_points share_opens request_exit (i + 1) ds lc')
          (\<lambda>(ds', lc''). Some (d' # ds', lc'')))"

text \<open>\<open>Inl\<close>: the thread blocks in the semaphore.\<close>

definition DistributePointCloudData ::
  "bool \<Rightarrow> Lds option \<Rightarrow> Lddc \<Rightarrow> (unit + Lds option \<times> Lddc) option" where
  "DistributePointCloudData share_opens lds lc =
     (case lds of
        None \<Rightarrow> Some (Inr (None, lc))
      | Some s \<Rightarrow>
          if lds_request_exit s then Some (Inr (lds, lc))
          else case Semaphore_Wait (lds_pcd_semaphore s) of
            None \<Rightarrow> Some (Inl ())
          | Some count \<Rightarrow>
              Option.bind (distribute_points share_opens (lds_request_exit s) 0 (lds_lidars s) lc)
                (\<lambda>(ds, lc'). Some (Inr (Some (s\<lparr>lds_lidars := ds, lds_pcd_semaphore := count\<rparr>), lc'))))"

section \<open>IMU\<close>

definition InitImuMsg :: "ImuData \<Rightarrow> LivoxImuMsg" where
  "InitImuMsg d = \<lparr>im_stamp = imu_time_stamp d,
     im_angular_velocity = (imu_gyro_x d, imu_gyro_y d, imu_gyro_z d),
     im_linear_acceleration = (imu_acc_x d, imu_acc_y d, imu_acc_z d)\<rparr>"

definition PollingLidarImuData ::
  "u8 \<Rightarrow> bool \<Rightarrow> LidarDevice \<Rightarrow> Lddc \<Rightarrow> (LidarDevice \<times> Lddc) option" where
  "PollingLidarImuData index request_exit lidar lc =
     (if request_exit then Some (lidar, lc)
      else Option.bind (drain ImuQueue_Empty imu_pop (\<lambda>d. publish (Imu index (InitImuMsg d))) (ld_imu_data lidar) lc)
             (\<lambda>(q, lc). Some (lidar\<lparr>ld_imu_data := q\<rparr>, lc)))"

fun distribute_imu :: "bool \<Rightarrow> nat \<Rightarrow> LidarDevice list \<Rightarrow> Lddc \<Rightarrow> (LidarDevice list \<times> Lddc) option" where
  "distribute_imu request_exit i [] lc = Some ([], lc)"
| "distribute_imu request_exit i (d # ds) lc =
     Option.bind
       (if ld_connect_state d \<noteq> kConnectStateSampling then Some (d, lc)
        else PollingLidarImuData (of_nat i) request_exit d lc)
       (\<lambda>(d', lc'). Option.bind (distribute_imu request_exit (i + 1) ds lc')
          (\<lambda>(ds', lc''). Some (d' # ds', lc'')))"

definition DistributeImuData :: "Lds option \<Rightarrow> Lddc \<Rightarrow> (unit + Lds option \<times> Lddc) option" where
  "DistributeImuData lds lc =
     (case lds of
        None \<Rightarrow> Some (Inr (None, lc))
      | Some s \<Rightarrow>
          if lds_request_exit s then Some (Inr (lds, lc))
          else case Semaphore_Wait (lds_imu_semaphore s) of
            None \<Rightarrow> Some (Inl ())
          | Some count \<Rightarrow>
              Option.bind (distribute_imu (lds_request_exit s) 0 (lds_lidars s) lc)
                (\<lambda>(ds, lc'). Some (Inr (Some (s\<lparr>lds_lidars := ds, lds_imu_semaphore := count\<rparr>), lc'))))"

section \<open>What is published\<close>

text \<open>The messages for a list of packets of device \<open>d\<close> in slot \<open>i\<close>.\<close>

definition packet_messages :: "u8 \<Rightarrow> nat \<Rightarrow> LidarDevice \<Rightarrow> (u64 \<times> PointXyzlt list) list \<Rightarrow> message list" where
  "packet_messages fmt i d pkgs =
     map (\<lambda>(t, pts). if fmt = kPointCloud2Msg then PointCloud2 (of_nat i) t (cloud_points pts)
            else Custom (of_nat i) ((InitCustomMsg (ld_lidar_type d) (ld_handle d) t pts)
                   \<lparr>cm_points := FillPointsToCustomMsg t pts\<rparr>))
       (filter (\<lambda>(t, pts). pts \<noteq> []) pkgs)"

lemma packet_messages_simps [simp]:
  "packet_messages fmt i d [] = []"
  "packet_messages kPointCloud2Msg i d ((t, pts) # pkgs) =
     (if pts = [] then [] else [PointCloud2 (of_nat i) t (cloud_points pts)]) @ packet_messages kPointCloud2Msg i d pkgs"
  "packet_messages kLivoxCustomMsg i d ((t, pts) # pkgs) =
     (if pts = [] then [] else [Custom (of_nat i) ((InitCustomMsg (ld_lidar_type d) (ld_handle d) t pts)
        \<lparr>cm_points := FillPointsToCustomMsg t pts\<rparr>)]) @ packet_messages kLivoxCustomMsg i d pkgs"
  by (simp_all add: packet_messages_def kPointCloud2Msg_def kLivoxCustomMsg_def)

lemma publish_step:
  "lc_published (publish_pointcloud2 k (t, pts) lc) =
     lc_published lc @ (if pts = [] then [] else [PointCloud2 k t (cloud_points pts)])"
  "lc_published (publish_custom k d (t, pts) lc) =
     lc_published lc @ (if pts = [] then [] else [Custom k ((InitCustomMsg (ld_lidar_type d) (ld_handle d) t pts)
        \<lparr>cm_points := FillPointsToCustomMsg t pts\<rparr>)])"
  "lc_transfer_format (publish_pointcloud2 k pkg lc) = lc_transfer_format lc"
  "lc_transfer_format (publish_custom k d pkg lc) = lc_transfer_format lc"
  by (simp_all add: publish_pointcloud2_def publish_custom_def publish_def update_shared_def split: prod.split)

lemma publish_fold_cloud:
  "lc_published (fold (publish_pointcloud2 (of_nat i)) pkgs lc) = lc_published lc @ packet_messages kPointCloud2Msg i d pkgs
   \<and> lc_transfer_format (fold (publish_pointcloud2 (of_nat i)) pkgs lc) = lc_transfer_format lc"
proof (induction pkgs arbitrary: lc)
  case (Cons pkg pkgs)
  obtain t pts where "pkg = (t, pts)" by (metis prod.exhaust)
  with Cons show ?case by (simp add: publish_step)
qed simp

lemma publish_fold_custom:
  "lc_published (fold (publish_custom (of_nat i) d) pkgs lc) = lc_published lc @ packet_messages kLivoxCustomMsg i d pkgs
   \<and> lc_transfer_format (fold (publish_custom (of_nat i) d) pkgs lc) = lc_transfer_format lc"
proof (induction pkgs arbitrary: lc)
  case (Cons pkg pkgs)
  obtain t pts where "pkg = (t, pts)" by (metis prod.exhaust)
  with Cons show ?case by (simp add: publish_step)
qed simp

lemma poll_loop_empty: "QueueIsEmpty q \<Longrightarrow> poll_loop index lidar rx q lc = Some (q, lc)"
  by (simp add: poll_loop.simps)

lemma poll_loop_ok:
  assumes "ldq_inv q" and "lc_transfer_format lc \<in> {kPointCloud2Msg, kLivoxCustomMsg}"
  shows "\<exists>q' lc'. poll_loop (of_nat i) d False q lc = Some (q', lc') \<and> ldq_inv q' \<and> ldq_contents q' = []
    \<and> lc_published lc' = lc_published lc @ packet_messages (lc_transfer_format lc) i d (ldq_contents q)
    \<and> lc_transfer_format lc' = lc_transfer_format lc"
proof (cases "QueueIsEmpty q")
  case True
  then have "ldq_contents q = []" by (simp add: ldq_is_empty_iff)
  with True assms(1) show ?thesis by (simp add: poll_loop_empty packet_messages_def)
next
  case False
  show ?thesis
  proof (cases "lc_transfer_format lc = kPointCloud2Msg")
    case fmt: True
    obtain q' where q': "PublishPointcloud2 (of_nat i) q lc = Some (q', fold (publish_pointcloud2 (of_nat i)) (ldq_contents q) lc)"
      "ldq_inv q'" "ldq_contents q' = []"
      unfolding PublishPointcloud2_def
      using ldq.drain_all [OF assms(1), where body = "publish_pointcloud2 (of_nat i)" and s = lc] by metis
    have "QueueIsEmpty q'" using q'(3) by (simp add: ldq_is_empty_iff)
    then have "poll_loop (of_nat i) d False q lc = Some (q', fold (publish_pointcloud2 (of_nat i)) (ldq_contents q) lc)"
      using False fmt poll_loop.simps [of "of_nat i" d False q lc] poll_loop_empty
      by (simp only: q'(1) simp_thms if_True if_False Option.bind.simps fst_conv snd_conv)
    with q'(2,3) fmt publish_fold_cloud [of i "ldq_contents q" lc d] show ?thesis by simp
  next
    case fmt: False
    with assms(2) have c: "lc_transfer_format lc = kLivoxCustomMsg" by simp
    obtain q' where q': "PublishCustomPointcloud (of_nat i) d q lc = Some (q', fold (publish_custom (of_nat i) d) (ldq_contents q) lc)"
      "ldq_inv q'" "ldq_contents q' = []"
      unfolding PublishCustomPointcloud_def
      using ldq.drain_all [OF assms(1), where body = "publish_custom (of_nat i) d" and s = lc] by metis
    have "QueueIsEmpty q'" using q'(3) by (simp add: ldq_is_empty_iff)
    then have "poll_loop (of_nat i) d False q lc = Some (q', fold (publish_custom (of_nat i) d) (ldq_contents q) lc)"
      using False fmt poll_loop.simps [of "of_nat i" d False q lc] poll_loop_empty
      by (simp only: c [symmetric] q'(1) simp_thms if_True if_False Option.bind.simps fst_conv snd_conv)
    with q'(2,3) c publish_fold_custom [of i d "ldq_contents q" lc] show ?thesis by simp
  qed
qed

text \<open>What one device contributes, and what it is left with.\<close>

definition device_packets :: "LidarDevice \<Rightarrow> (u64 \<times> PointXyzlt list) list" where
  "device_packets d = (if storage_packet (ld_data d) = Null then [] else ldq_contents (ld_data d))"

definition visited :: "LidarDevice \<Rightarrow> LidarDevice \<Rightarrow> bool" where
  "visited d d' =
     (queue_ok (ld_data d') \<and> d' = d\<lparr>ld_data := ld_data d'\<rparr>
      \<and> (if ld_connect_state d = kConnectStateSampling then device_packets d' = [] else d' = d))"

lemma polling_ok:
  assumes "queue_ok (ld_data d)" and "lc_transfer_format lc \<in> {kPointCloud2Msg, kLivoxCustomMsg}"
  shows "\<exists>d' lc'. PollingLidarPointCloudData so (of_nat i) False d lc = Some (d', lc')
    \<and> queue_ok (ld_data d') \<and> d' = d\<lparr>ld_data := ld_data d'\<rparr> \<and> device_packets d' = []
    \<and> lc_published lc' = lc_published lc @ packet_messages (lc_transfer_format lc) i d (device_packets d)
    \<and> lc_transfer_format lc' = lc_transfer_format lc"
proof (cases "storage_packet (ld_data d)")
  case Null
  then show ?thesis using assms(1)
    by (simp add: PollingLidarPointCloudData_def device_packets_def packet_messages_def)
next
  case Freed
  with assms(1) show ?thesis by (simp add: queue_ok_def)
next
  case (Alloc xs)
  then have inv: "ldq_inv (ld_data d)" using assms(1) by (simp add: queue_ok_def)
  let ?lc = "if lc_pointt lc = None \<and> so then lc\<lparr>lc_pointt := Some (0, 0)\<rparr> else lc"
  have "lc_transfer_format ?lc \<in> {kPointCloud2Msg, kLivoxCustomMsg}" using assms(2) by simp
  from poll_loop_ok [OF inv this, of i d] obtain q' lc' where
    r: "poll_loop (of_nat i) d False (ld_data d) ?lc = Some (q', lc')" "ldq_inv q'" "ldq_contents q' = []"
      "lc_published lc' = lc_published ?lc @ packet_messages (lc_transfer_format ?lc) i d (ldq_contents (ld_data d))"
      "lc_transfer_format lc' = lc_transfer_format ?lc" by blast
  have "queue_ok q'" using r(2) by (auto simp: queue_ok_def ldq_inv_def)
  moreover have "PollingLidarPointCloudData so (of_nat i) False d lc = Some (d\<lparr>ld_data := q'\<rparr>, lc')"
    using Alloc r(1) by (simp add: PollingLidarPointCloudData_def Let_def)
  ultimately show ?thesis using r(3-5) Alloc by (auto simp: device_packets_def)
qed

fun burst_messages :: "u8 \<Rightarrow> nat \<Rightarrow> LidarDevice list \<Rightarrow> message list" where
  "burst_messages fmt i [] = []"
| "burst_messages fmt i (d # ds) =
     (if ld_connect_state d = kConnectStateSampling then packet_messages fmt i d (device_packets d) else [])
     @ burst_messages fmt (i + 1) ds"

lemma distribute_points_ok:
  assumes "\<forall>d \<in> set ds. queue_ok (ld_data d)" and "lc_transfer_format lc \<in> {kPointCloud2Msg, kLivoxCustomMsg}"
  shows "\<exists>ds' lc'. distribute_points so False i ds lc = Some (ds', lc') \<and> list_all2 visited ds ds'
    \<and> lc_published lc' = lc_published lc @ burst_messages (lc_transfer_format lc) i ds
    \<and> lc_transfer_format lc' = lc_transfer_format lc"
  using assms
proof (induction ds arbitrary: i lc)
  case (Cons d ds)
  obtain d' lc' where
    r: "(if ld_connect_state d \<noteq> kConnectStateSampling then Some (d, lc)
         else PollingLidarPointCloudData so (of_nat i) False d lc) = Some (d', lc')"
      "visited d d'" "lc_transfer_format lc' = lc_transfer_format lc"
      "lc_published lc' = lc_published lc @
         (if ld_connect_state d = kConnectStateSampling
          then packet_messages (lc_transfer_format lc) i d (device_packets d) else [])"
  proof (cases "ld_connect_state d = kConnectStateSampling")
    case False
    then show thesis using that [of d lc] Cons.prems(1) by (simp add: visited_def)
  next
    case True
    have "queue_ok (ld_data d)" using Cons.prems(1) by simp
    from polling_ok [OF this Cons.prems(2), of so i] obtain d' lc' where
      "PollingLidarPointCloudData so (of_nat i) False d lc = Some (d', lc')"
      "queue_ok (ld_data d')" "d' = d\<lparr>ld_data := ld_data d'\<rparr>" "device_packets d' = []"
      "lc_published lc' = lc_published lc @ packet_messages (lc_transfer_format lc) i d (device_packets d)"
      "lc_transfer_format lc' = lc_transfer_format lc" by blast
    with True that [of d' lc'] show thesis by (simp add: visited_def)
  qed
  have "\<forall>d \<in> set ds. queue_ok (ld_data d)" "lc_transfer_format lc' \<in> {kPointCloud2Msg, kLivoxCustomMsg}"
    using Cons.prems r(3) by simp_all
  from Cons.IH [OF this, of "i + 1"] obtain ds' lc'' where
    "distribute_points so False (i + 1) ds lc' = Some (ds', lc'')" "list_all2 visited ds ds'"
    "lc_published lc'' = lc_published lc' @ burst_messages (lc_transfer_format lc') (i + 1) ds"
    "lc_transfer_format lc'' = lc_transfer_format lc'" by blast
  with r show ?case by simp
qed simp

text \<open>C30: From the network to the publisher: storing a frame never fails and appends each packet to the
  queue of the device it belongs to, the excess over the queue's capacity being dropped at the end; the
  next round of the publishing thread then returns, publishes exactly these packets, device by
  device in slot order and oldest first, skipping empty ones, and leaves the queues of the
  sampling devices empty and the other devices untouched.\<close>

theorem frames_reach_the_publisher:
  assumes "lds_inv s" and "\<not> lds_request_exit s" and "length (pf_base_time fr) = length (pf_lidar_point fr)"
    and "\<forall>p \<in> set (pf_lidar_point fr). packet_ok p" and "pf_lidar_point fr \<noteq> []"
    and "0 < lds_pcd_semaphore s \<or> (\<exists>p \<in> set (pf_lidar_point fr). known_packet (lds_cache_index s) p)"
    and "lc_transfer_format lc \<in> {kPointCloud2Msg, kLivoxCustomMsg}"
  shows "\<exists>s1 s2 lc'. OnLidarPointClounCb (Some fr) (Some s) = Ret (Some s1)
    \<and> (\<forall>i < kMaxSourceLidar. dev_contents s1 i = take (dev_capacity s i)
         (dev_contents s i @ packets_for (lds_cache_index s) i (zip (pf_base_time fr) (pf_lidar_point fr))))
    \<and> DistributePointCloudData share_opens (Some s1) lc = Some (Inr (Some s2, lc'))
    \<and> lc_published lc' = lc_published lc @ burst_messages (lc_transfer_format lc) 0 (lds_lidars s1)
    \<and> list_all2 visited (lds_lidars s1) (lds_lidars s2)"
proof -
  let ?pkts = "zip (pf_base_time fr) (pf_lidar_point fr)"
  have ok: "\<forall>(t, p) \<in> set ?pkts. packet_ok p" using assms(4) by (auto dest: set_zip_rightD)
  have sem: "0 < lds_pcd_semaphore s \<or> (\<exists>(t, p) \<in> set ?pkts. known_packet (lds_cache_index s) p)"
  proof (cases "0 < lds_pcd_semaphore s")
    case False
    then obtain p where p: "p \<in> set (pf_lidar_point fr)" "known_packet (lds_cache_index s) p" using assms(6) by blast
    then have "p \<in> snd ` set ?pkts" using assms(3) by (metis list.set_map map_snd_zip)
    with p(2) show ?thesis by (auto simp: case_prod_unfold)
  qed simp
  from storage_packets_ok [OF assms(1) ok] sem obtain s1 where
    s1: "storage_packets ?pkts s = Ret s1" "lds_inv s1" "same_devices s s1" "0 < lds_pcd_semaphore s1"
      "\<forall>i < kMaxSourceLidar. dev_contents s1 i = take (dev_capacity s i)
         (dev_contents s i @ packets_for (lds_cache_index s) i ?pkts)" by blast
  have store: "OnLidarPointClounCb (Some fr) (Some s) = Ret (Some s1)"
    using s1(1) assms(5) by (simp add: OnLidarPointClounCb_def StoragePointData_def)
  have exit: "\<not> lds_request_exit s1" using s1(3) assms(2) by (simp add: same_devices_def)
  have "\<forall>d \<in> set (lds_lidars s1). queue_ok (ld_data d)" using s1(2) by (simp add: lds_inv_def)
  from distribute_points_ok [OF this assms(7), of share_opens 0] obtain ds' lc' where
    d: "distribute_points share_opens False 0 (lds_lidars s1) lc = Some (ds', lc')"
      "list_all2 visited (lds_lidars s1) ds'"
      "lc_published lc' = lc_published lc @ burst_messages (lc_transfer_format lc) 0 (lds_lidars s1)" by blast
  have "DistributePointCloudData share_opens (Some s1) lc =
      Some (Inr (Some (s1\<lparr>lds_lidars := ds', lds_pcd_semaphore := lds_pcd_semaphore s1 - 1\<rparr>), lc'))"
    using exit s1(4) d(1) by (simp add: DistributePointCloudData_def Semaphore_Wait_def)
  with store s1(5) d(2,3) show ?thesis by auto
qed

section \<open>A format without a branch\<close>

lemma poll_loop_returns_empty:
  assumes "poll_loop index lidar rx q lc = Some r"
    and "lc_transfer_format lc \<notin> {kPointCloud2Msg, kLivoxCustomMsg}"
  shows "rx \<or> QueueIsEmpty q"
proof -
  have "lc_transfer_format lc \<notin> {kPointCloud2Msg, kLivoxCustomMsg} \<longrightarrow> rx \<or> QueueIsEmpty q"
  proof (rule poll_loop.raw_induct [OF _ assms(1)])
    fix poll index lidar rx q lc r
    assume IH: "\<And>index lidar rx q lc r. poll index lidar rx q lc = Some r \<Longrightarrow>
        lc_transfer_format lc \<notin> {kPointCloud2Msg, kLivoxCustomMsg} \<longrightarrow> rx \<or> QueueIsEmpty q"
      and run: "(if rx \<or> QueueIsEmpty q then Some (q, lc)
         else Option.bind
           (if lc_transfer_format lc = kPointCloud2Msg then PublishPointcloud2 index q lc
            else if lc_transfer_format lc = kLivoxCustomMsg then PublishCustomPointcloud index lidar q lc
            else Some (q, lc)) (\<lambda>r. poll index lidar rx (fst r) (snd r))) = Some r"
    show "lc_transfer_format lc \<notin> {kPointCloud2Msg, kLivoxCustomMsg} \<longrightarrow> rx \<or> QueueIsEmpty q"
      using IH [of index lidar rx q lc r] run by (auto split: if_splits)
  qed
  with assms(2) show ?thesis by blast
qed

text \<open>With the format \<open>kPclPxyziMsg\<close>, which the ROS 2 build accepts but does not support, or an unknown
  one, the publishing thread never returns from the first device that is sampling and has data: its
  loop neither publishes nor removes a packet, and no exit request given before is seen.\<close>

theorem unsupported_format_spins:
  assumes "ldq_contents (ld_data lidar) \<noteq> []" and "storage_packet (ld_data lidar) \<noteq> Null"
    and "lc_transfer_format lc \<notin> {kPointCloud2Msg, kLivoxCustomMsg}"
  shows "PollingLidarPointCloudData share_opens index False lidar lc = None"
proof -
  let ?lc = "if lc_pointt lc = None \<and> share_opens then lc\<lparr>lc_pointt := Some (0, 0)\<rparr> else lc"
  have "lc_transfer_format ?lc \<notin> {kPointCloud2Msg, kLivoxCustomMsg}" using assms(3) by simp
  then have "poll_loop index lidar False (ld_data lidar) ?lc = None"
    using poll_loop_returns_empty [of index lidar False "ld_data lidar" ?lc] assms(1)
    by (cases "poll_loop index lidar False (ld_data lidar) ?lc") (auto simp: ldq_is_empty_iff)
  then show ?thesis using assms(2) by (simp add: PollingLidarPointCloudData_def Let_def)
qed

section \<open>A concrete burst\<close>

definition ex_packet :: PointPacket where
  "ex_packet = \<lparr>pp_handle = 5, pp_lidar_type = kLivoxLidarType, pp_points_num = 1,
     pp_points = [\<lparr>px = 1, py = 2, pz = 3, pintensity = 10, ptag = 0, pline = 0, poffset_time = 1000\<rparr>]\<rparr>"

definition ex_lddc :: Lddc where
  "ex_lddc = \<lparr>lc_transfer_format = kLivoxCustomMsg, lc_pointt = None, lc_published = []\<rparr>"

theorem frames_reach_the_publisher_witness:
  "\<exists>s1 s2 lc'. OnLidarPointClounCb (Some \<lparr>pf_base_time = [1000], pf_lidar_point = [ex_packet]\<rparr>) (Some ex_lds) = Ret (Some s1)
     \<and> DistributePointCloudData False (Some s1) ex_lddc = Some (Inr (Some s2, lc'))
     \<and> lc_published lc' = burst_messages kLivoxCustomMsg 0 (lds_lidars s1)"
proof -
  let ?fr = "\<lparr>pf_base_time = [1000], pf_lidar_point = [ex_packet]\<rparr>"
  have "lds_inv ex_lds"
    using ex_lds_index
    by (simp add: lds_inv_def ex_lds_def kMaxSourceLidar_def ex_device_def queue_ok_def)
  moreover have "\<not> lds_request_exit ex_lds" by (simp add: ex_lds_def)
  moreover have "\<forall>p \<in> set (pf_lidar_point ?fr). packet_ok p" by (simp add: packet_ok_def ex_packet_def)
  moreover have "\<exists>p \<in> set (pf_lidar_point ?fr). known_packet (lds_cache_index ex_lds) p"
    using ex_lds_index by (simp add: known_packet_def ex_packet_def ex_lds_def)
  ultimately show ?thesis
    using frames_reach_the_publisher [of ex_lds ?fr ex_lddc False]
    by (auto simp: ex_lddc_def)
qed

theorem unsupported_format_spins_witness:
  "\<exists>q. PollingLidarPointCloudData True 0 False (ex_device\<lparr>ld_data := q\<rparr>)
     (ex_lddc\<lparr>lc_transfer_format := kPclPxyziMsg\<rparr>) = None"
proof -
  let ?q0 = "\<lparr>storage_packet = Null, rd_idx = 0, wr_idx = 0, qmask = 0, qsize = 0\<rparr> :: LidarDataQueue"
  have "storage_packet ?q0 \<noteq> Freed" by simp
  from InitQueue_inv [OF this, of 4] obtain q1 where q1: "ldq_inv q1" "ldq_contents q1 = []"
    "ldq_capacity q1 = unat (if IsPowerOf2 4 then 4 else RoundupPowerOf2 (4 :: u32))" by metis
  have room: "ldq_used q1 < ldq_capacity q1"
  proof -
    have "ldq_used q1 = 0" by (metis length_ldq_contents q1(2) list.size(3))
    with q1(3) show ?thesis by (simp add: IsPowerOf2_def)
  qed
  have "unat (pp_points_num ex_packet) = length (pp_points ex_packet)" by (simp add: ex_packet_def)
  from ldq_Push [OF q1(1) room this] obtain q where q: "ldq_inv q" "ldq_contents q \<noteq> []" by (metis append_is_Nil_conv not_Cons_self2)
  have "storage_packet q \<noteq> Null" using q(1) by (auto simp: ldq_inv_def)
  with q(2) have "PollingLidarPointCloudData True 0 False (ex_device\<lparr>ld_data := q\<rparr>)
      (ex_lddc\<lparr>lc_transfer_format := kPclPxyziMsg\<rparr>) = None"
    by (intro unsupported_format_spins) (simp_all add: kPclPxyziMsg_def kPointCloud2Msg_def kLivoxCustomMsg_def)
  then show ?thesis by blast
qed

end
