(* ===== verification/Preproc.thy ===== *)
theory Preproc
  imports Feature_Extract Livox_Lddc
begin

text \<open>
  The scan handlers of \<^verbatim>\<open>fast_livo/src/preprocess.cpp\<close>: \<open>process\<close> turns a Livox message or a
  \<open>PointCloud2\<close> (already unpacked by \<open>pcl::fromROSMsg\<close>) into the cloud the mapper buffers, thinning it,
  dropping the blind zone and storing every point's capture time in milliseconds as \<open>curvature\<close>. The
  normals are not modelled. \<open>std::sort\<close> may order equal times either way: it is the argument \<open>srt\<close>.
\<close>

section \<open>Shared steps\<close>

text \<open>A point of \<open>pl_orig\<close>: intensity, time field (\<open>t\<close>, \<open>time\<close> or \<open>timestamp\<close>) and ring.\<close>

record raw_point =
  rp_xyz :: vec3
  rp_intensity :: real
  rp_time :: real
  rp_ring :: nat

definition zero_point :: LPoint where
  "zero_point = \<lparr>lp_xyz = v3_zero, lp_intensity = 0, curvature = 0\<rparr>"

definition time_sort :: "(LPoint list \<Rightarrow> LPoint list) \<Rightarrow> bool" where
  "time_sort srt = (\<forall>ps. mset (srt ps) = mset ps \<and> sorted (map curvature (srt ps)))"

text \<open>\<open>i % point_filter_num\<close> decides which points are kept; a zero divisor is undefined.\<close>

fun every_nth :: "nat \<Rightarrow> nat \<Rightarrow> 'a list \<Rightarrow> 'a list" where
  "every_nth n i [] = []"
| "every_nth n i (x # xs) = (if i mod n = 0 then x # every_nth n (i + 1) xs else every_nth n (i + 1) xs)"

definition thin :: "nat \<Rightarrow> 'a list \<Rightarrow> 'a list exec" where
  "thin n xs = (if n = 0 \<and> xs \<noteq> [] then Undef else Ret (every_nth n 0 xs))"

section \<open>Livox messages\<close>

definition livox_xyz :: "CustomPoint \<Rightarrow> vec3" where
  "livox_xyz p = (cu_x p, cu_y p, cu_z p)"

text \<open>\<open>offset_time / float(1000000)\<close>: the number becomes a \<open>float\<close> and so does the quotient. The rounding to a
  \<open>float\<close> is the argument \<open>fl\<close>; it is modelled where capture times of Livox points are computed.\<close>

definition livox_time :: "(real \<Rightarrow> real) \<Rightarrow> CustomPoint \<Rightarrow> real" where
  "livox_time fl p = fl (fl (real (unat (cu_offset_time p))) / 1000000)"

definition livox_point :: "CustomPoint \<Rightarrow> real \<Rightarrow> LPoint" where
  "livox_point p t = \<lparr>lp_xyz = livox_xyz p, lp_intensity = real (unat (cu_reflectivity p)), curvature = t\<rparr>"

text \<open>The time of a point after the entry before it in \<open>pl_full\<close>: a jump of a millisecond or more is
  replaced by the nominal step.\<close>

definition smooth_time :: "(real \<Rightarrow> real) \<Rightarrow> LPoint option \<Rightarrow> real \<Rightarrow> real" where
  "smooth_time fl prev t =
     (case prev of
        None \<Rightarrow> if \<bar>t\<bar> < 1 then t else 0
      | Some q \<Rightarrow> if \<bar>fl (t - curvature q)\<bar> < 1 then t else fl (curvature q + fl (4166667 / 10 ^ 9)))"

text \<open>The loop without feature extraction; \<open>prev\<close> is \<open>pl_full[i - 1]\<close>, which stays a default point when
  the line of point \<open>i - 1\<close> was out of range.\<close>

fun avia_loop ::
  "(real \<Rightarrow> real) \<Rightarrow> Preprocess \<Rightarrow> nat \<Rightarrow> LPoint option \<Rightarrow> CustomPoint list \<Rightarrow> LPoint list \<Rightarrow> LPoint list exec" where
  "avia_loop fl pr valid_num prev [] surf = Ret surf"
| "avia_loop fl pr valid_num prev (p # ps) surf =
     (if unat (cu_line p) < pr_N_SCANS pr
      then (let pt = livox_point p (smooth_time fl prev (livox_time fl p))
            in if pr_point_filter_num pr = 0 then Undef
               else avia_loop fl pr (valid_num + 1) (Some pt) ps
                      (if (valid_num + 1) mod pr_point_filter_num pr = 0
                          \<and> sq_norm (lp_xyz pt) \<ge> pr_blind_sqr pr
                       then surf @ [pt] else surf))
      else avia_loop fl pr valid_num (Some zero_point) ps surf)"

text \<open>The loop with feature extraction sorts single returns that moved into the lines.\<close>

fun moved :: "vec3 \<Rightarrow> vec3 \<Rightarrow> bool" where
  "moved (x, y, z) (x', y', z') = (\<bar>x - x'\<bar> > 1 / 10 ^ 7 \<or> \<bar>y - y'\<bar> > 1 / 10 ^ 7 \<or> \<bar>z - z'\<bar> > 1 / 10 ^ 7)"

fun avia_lines :: "(real \<Rightarrow> real) \<Rightarrow> nat \<Rightarrow> LPoint \<Rightarrow> CustomPoint list \<Rightarrow> LPoint list list \<Rightarrow> LPoint list list" where
  "avia_lines fl n_scans prev [] pl_buff = pl_buff"
| "avia_lines fl n_scans prev (p # ps) pl_buff =
     (if unat (cu_line p) < n_scans \<and> cu_tag p AND 0x30 = 0x10
      then (let pt = livox_point p (livox_time fl p)
            in avia_lines fl n_scans pt ps
                 (if moved (lp_xyz pt) (lp_xyz prev)
                  then pl_buff[unat (cu_line p) := pl_buff ! unat (cu_line p) @ [pt]] else pl_buff))
      else avia_lines fl n_scans zero_point ps pl_buff)"

text \<open>Feature extraction line by line. \<open>fewest\<close>: lines with fewer points are skipped. Without that test an
  empty line is undefined: its size minus one becomes a huge unsigned bound.\<close>

fun feature_lines ::
  "Preprocess \<Rightarrow> bool \<Rightarrow> nat \<Rightarrow> LPoint list list \<Rightarrow> vec3 \<Rightarrow> LPoint list \<times> LPoint list \<Rightarrow>
   ((LPoint list \<times> LPoint list) \<times> vec3) exec" where
  "feature_lines pr sqrt_range fewest [] v clouds = Ret (clouds, v)"
| "feature_lines pr sqrt_range fewest (pl # pls) v clouds =
     (if length pl < fewest then feature_lines pr sqrt_range fewest pls v clouds
      else if pl = [] then Undef
      else bind_exec (give_feature pr pl (line_types sqrt_range (pr_dista_indet pr) pl) v clouds)
             (\<lambda>(clouds, v). feature_lines pr sqrt_range fewest pls v clouds))"

definition kMaxLines :: nat where "kMaxLines = 128"

definition avia_handler ::
  "(real \<Rightarrow> real) \<Rightarrow> Preprocess \<Rightarrow> CustomMsg \<Rightarrow> vec3 \<Rightarrow> ((LPoint list \<times> LPoint list) \<times> vec3) exec" where
  "avia_handler fl pr msg v =
     (let n = unat (cm_point_num msg) in
      if pr_N_SCANS pr > kMaxLines \<or> n > length (cm_points msg) then Undef
      else if pr_feature_enabled pr
      then feature_lines pr False 6
             (avia_lines fl (pr_N_SCANS pr) zero_point (drop 1 (take n (cm_points msg)))
                (replicate (pr_N_SCANS pr) [])) v ([], [])
      else bind_exec (avia_loop fl pr 0 None (take n (cm_points msg)) []) (\<lambda>surf. Ret ((surf, []), v)))"

section \<open>Clouds of other sensors\<close>

definition l515_handler :: "Preprocess \<Rightarrow> raw_point list \<Rightarrow> LPoint list exec" where
  "l515_handler pr pl_orig =
     bind_exec (thin (pr_point_filter_num pr) pl_orig) (\<lambda>ps.
     Ret (map (\<lambda>p. \<lparr>lp_xyz = rp_xyz p, lp_intensity = 0, curvature = 0\<rparr>)
            (filter (\<lambda>p. \<not> sq_norm (rp_xyz p) < pr_blind_sqr pr) ps)))"

definition ouster_point :: "raw_point \<Rightarrow> LPoint" where
  "ouster_point p = \<lparr>lp_xyz = rp_xyz p, lp_intensity = rp_intensity p, curvature = rp_time p / 1000000\<rparr>"

fun put_on_ring :: "nat \<Rightarrow> nat \<Rightarrow> LPoint \<Rightarrow> LPoint list list \<Rightarrow> LPoint list list" where
  "put_on_ring n_scans ring p pl_buff = (if ring < n_scans then pl_buff[ring := pl_buff ! ring @ [p]] else pl_buff)"

definition oust64_handler ::
  "Preprocess \<Rightarrow> (LPoint list \<Rightarrow> LPoint list) \<Rightarrow> raw_point list \<Rightarrow> vec3 \<Rightarrow>
   ((LPoint list \<times> LPoint list) \<times> vec3) exec" where
  "oust64_handler pr srt pl_orig v =
     (if pr_feature_enabled pr
      then if pr_N_SCANS pr > kMaxLines then Undef
           else feature_lines pr True 0
                  (fold (\<lambda>p. put_on_ring (pr_N_SCANS pr) (rp_ring p) (ouster_point p))
                     (filter (\<lambda>p. \<not> sq_norm (rp_xyz p) < pr_blind_sqr pr) pl_orig)
                     (replicate (pr_N_SCANS pr) [])) v ([], [])
      else bind_exec (thin (pr_point_filter_num pr) pl_orig) (\<lambda>ps.
           Ret ((srt (map ouster_point (filter (\<lambda>p. \<not> sq_norm (rp_xyz p) < pr_blind_sqr pr) ps)), []), v)))"

text \<open>Offset times from the azimuth, when the cloud carries none: per ring, whether its first point is
  still to come, that point's yaw, and the last time.\<close>

type_synonym ring_state = "bool list \<times> real list \<times> real list"

definition kMaxRings :: nat where "kMaxRings = 64"

definition new_rings :: ring_state where
  "new_rings = (replicate kMaxRings True, replicate kMaxRings 0, replicate kMaxRings 0)"

definition omega_l :: real where "omega_l = 361 / 100"

definition yaw_degrees :: "vec3 \<Rightarrow> real" where
  "yaw_degrees v = (case v of (x, y, z) \<Rightarrow> atan2 y x * (572957 / 10000))"

definition sweep_time :: "real \<Rightarrow> real \<Rightarrow> real \<Rightarrow> real" where
  "sweep_time yaw_fp time_last yaw =
     (let t = (if yaw \<le> yaw_fp then (yaw_fp - yaw) / omega_l else (yaw_fp - yaw + 360) / omega_l)
      in if t < time_last then t + 360 / omega_l else t)"

definition ring_time :: "nat \<Rightarrow> vec3 \<Rightarrow> ring_state \<Rightarrow> (real option \<times> ring_state) exec" where
  "ring_time layer xyz st =
     (case st of (is_first, yaw_fp, time_last) \<Rightarrow>
        if layer \<ge> kMaxRings then Undef
        else let yaw = yaw_degrees xyz in
          if is_first ! layer
          then Ret (None, (is_first[layer := False], yaw_fp[layer := yaw], time_last[layer := 0]))
          else let t = sweep_time (yaw_fp ! layer) (time_last ! layer) yaw
               in Ret (Some t, (is_first, yaw_fp, time_last[layer := t])))"

text \<open>One point of \<open>velodyne_handler\<close> or of the feature branch of \<open>xt32_handler\<close>: \<open>None\<close> skips the ring's
  first point.\<close>

definition spinning_point ::
  "bool \<Rightarrow> raw_point \<Rightarrow> ring_state \<Rightarrow> (LPoint option \<times> ring_state) exec" where
  "spinning_point given_offset_time p st =
     (let pt = \<lparr>lp_xyz = rp_xyz p, lp_intensity = rp_intensity p, curvature = rp_time p / 1000\<rparr>
      in if given_offset_time then Ret (Some pt, st)
         else bind_exec (ring_time (rp_ring p) (rp_xyz p) st) (\<lambda>(t, st).
              Ret (map_option (\<lambda>t. pt\<lparr>curvature := t\<rparr>) t, st)))"

fun velodyne_loop ::
  "Preprocess \<Rightarrow> bool \<Rightarrow> nat \<Rightarrow> raw_point list \<Rightarrow> ring_state \<Rightarrow> LPoint list \<Rightarrow> LPoint list exec" where
  "velodyne_loop pr given i [] st surf = Ret surf"
| "velodyne_loop pr given i (p # ps) st surf =
     bind_exec (spinning_point given p st) (\<lambda>(pt, st).
     case pt of
       None \<Rightarrow> velodyne_loop pr given (i + 1) ps st surf
     | Some pt \<Rightarrow>
         if pr_point_filter_num pr = 0 then Undef
         else velodyne_loop pr given (i + 1) ps st
                (if i mod pr_point_filter_num pr = 0 \<and> sq_norm (lp_xyz pt) > pr_blind_sqr pr
                 then surf @ [pt] else surf))"

fun spinning_lines ::
  "nat \<Rightarrow> bool \<Rightarrow> raw_point list \<Rightarrow> ring_state \<Rightarrow> LPoint list list \<Rightarrow> LPoint list list exec" where
  "spinning_lines n_scans given [] st pl_buff = Ret pl_buff"
| "spinning_lines n_scans given (p # ps) st pl_buff =
     (if rp_ring p \<ge> n_scans then spinning_lines n_scans given ps st pl_buff
      else bind_exec (spinning_point given p st) (\<lambda>(pt, st).
           spinning_lines n_scans given ps st
             (case pt of None \<Rightarrow> pl_buff | Some pt \<Rightarrow> put_on_ring n_scans (rp_ring p) pt pl_buff)))"

definition spinning_features ::
  "Preprocess \<Rightarrow> bool \<Rightarrow> raw_point list \<Rightarrow> vec3 \<Rightarrow> ((LPoint list \<times> LPoint list) \<times> vec3) exec" where
  "spinning_features pr given pl_orig v =
     (if pr_N_SCANS pr > kMaxLines then Undef
      else bind_exec (spinning_lines (pr_N_SCANS pr) given pl_orig new_rings (replicate (pr_N_SCANS pr) []))
             (\<lambda>pl_buff. feature_lines pr True 2 pl_buff v ([], [])))"

definition velodyne_handler ::
  "Preprocess \<Rightarrow> raw_point list \<Rightarrow> vec3 \<Rightarrow> ((LPoint list \<times> LPoint list) \<times> vec3) exec" where
  "velodyne_handler pr pl_orig v =
     (if pl_orig = [] then Ret (([], []), v)
      else let given = (rp_time (last pl_orig) > 0) in
        if pr_feature_enabled pr then spinning_features pr given pl_orig v
        else bind_exec (velodyne_loop pr given 0 pl_orig new_rings []) (\<lambda>surf. Ret ((surf, []), v)))"

text \<open>\<open>(timestamp - time_head) * 1000\<close>, and an intensity scaled by the sensor's unit.\<close>

definition head_point :: "real \<Rightarrow> real \<Rightarrow> raw_point \<Rightarrow> LPoint" where
  "head_point unit time_head p =
     \<lparr>lp_xyz = rp_xyz p, lp_intensity = rp_intensity p / unit, curvature = (rp_time p - time_head) * 1000\<rparr>"

definition Pandar128_handler ::
  "Preprocess \<Rightarrow> (LPoint list \<Rightarrow> LPoint list) \<Rightarrow> raw_point list \<Rightarrow> LPoint list exec" where
  "Pandar128_handler pr srt pl_orig =
     (if pl_orig = [] then Undef
      else bind_exec (thin (pr_point_filter_num pr) pl_orig) (\<lambda>ps.
           Ret (srt (map (head_point 255 (rp_time (hd pl_orig)))
                  (filter (\<lambda>p. sq_norm (rp_xyz p) > pr_blind_sqr pr) ps)))))"

definition xt32_handler ::
  "Preprocess \<Rightarrow> raw_point list \<Rightarrow> vec3 \<Rightarrow> ((LPoint list \<times> LPoint list) \<times> vec3) exec" where
  "xt32_handler pr pl_orig v =
     (if pl_orig = [] then Undef
      else if pr_feature_enabled pr then spinning_features pr (rp_time (last pl_orig) > 0) pl_orig v
      else bind_exec (thin (pr_point_filter_num pr) pl_orig) (\<lambda>ps.
           Ret ((map (head_point 1 (rp_time (hd pl_orig)))
                  (filter (\<lambda>p. sq_norm (rp_xyz p) > pr_blind_sqr pr) ps), []), v)))"

text \<open>A point of \<open>robosense_handler\<close> has a coordinate list that may be \<open>NaN\<close> (\<open>None\<close>).\<close>

definition robosense_handler ::
  "Preprocess \<Rightarrow> (LPoint list \<Rightarrow> LPoint list) \<Rightarrow> (vec3 option \<times> raw_point) list \<Rightarrow> LPoint list exec" where
  "robosense_handler pr srt pl_orig =
     (if pl_orig = [] then Undef
      else bind_exec (thin (pr_point_filter_num pr) pl_orig) (\<lambda>ps.
           Ret (srt (map (head_point 1 (rp_time (snd (hd pl_orig))))
                  (map (\<lambda>(xyz, p). p\<lparr>rp_xyz := the xyz\<rparr>)
                     (filter (\<lambda>(xyz, p). case xyz of None \<Rightarrow> False | Some q \<Rightarrow> sq_norm q \<ge> pr_blind_sqr pr) ps))))))"

section \<open>Dispatch\<close>

definition process_livox :: "(real \<Rightarrow> real) \<Rightarrow> Preprocess \<Rightarrow> CustomMsg \<Rightarrow> vec3 \<Rightarrow> (LPoint list \<times> vec3) exec" where
  "process_livox fl pr msg v = bind_exec (avia_handler fl pr msg v) (\<lambda>((surf, corn), v). Ret (surf, v))"

text \<open>\<open>pl_surf\<close> is a member: for a LiDAR type without a handler, \<open>process\<close> hands out the previous cloud.\<close>

definition process_cloud ::
  "Preprocess \<Rightarrow> (LPoint list \<Rightarrow> LPoint list) \<Rightarrow> (vec3 option \<times> raw_point) list \<Rightarrow> vec3 \<Rightarrow> LPoint list \<Rightarrow>
   (LPoint list \<times> vec3) exec" where
  "process_cloud pr srt pl_orig v pl_surf =
     (let pts = map snd pl_orig;
          feat = (\<lambda>r. bind_exec r (\<lambda>((surf, corn), v). Ret (surf, v)));
          plain = (\<lambda>r. bind_exec r (\<lambda>surf. Ret (surf, v)));
          t = pr_lidar_type pr
      in if t = OUST64 then feat (oust64_handler pr srt pts v)
         else if t = VELO16 then feat (velodyne_handler pr pts v)
         else if t = L515 then plain (l515_handler pr pts)
         else if t = XT32 then feat (xt32_handler pr pts v)
         else if t = PANDAR128 then plain (Pandar128_handler pr srt pts)
         else if t = ROBOSENSE then plain (robosense_handler pr srt pl_orig)
         else Ret (pl_surf, v))"

lemmas lidar_types = AVIA_def VELO16_def OUST64_def L515_def XT32_def PANDAR128_def ROBOSENSE_def

section \<open>Capture times of Livox points\<close>

lemma livox_point_simps [simp]:
  "lp_xyz (livox_point p t) = livox_xyz p" "curvature (livox_point p t) = t"
  by (simp_all add: livox_point_def)

text \<open>The times \<open>pl_full\<close> holds after the loop.\<close>

fun stored_times :: "(real \<Rightarrow> real) \<Rightarrow> nat \<Rightarrow> LPoint option \<Rightarrow> CustomPoint list \<Rightarrow> real list" where
  "stored_times fl n prev [] = []"
| "stored_times fl n prev (p # ps) =
     (if unat (cu_line p) < n
      then (let t = smooth_time fl prev (livox_time fl p) in t # stored_times fl n (Some (livox_point p t)) ps)
      else 0 # stored_times fl n (Some zero_point) ps)"

lemma stored_times_length [simp]: "length (stored_times fl n prev ps) = length ps"
  by (induction ps arbitrary: prev) (simp_all add: Let_def)

lemma avia_loop_stored:
  assumes "pr_point_filter_num pr \<noteq> 0"
  shows "avia_loop fl pr k prev ps surf =
    Ret (surf @ map (\<lambda>(p, t). livox_point p t)
      (filter (\<lambda>(p, t). sq_norm (livox_xyz p) \<ge> pr_blind_sqr pr)
        (every_nth (pr_point_filter_num pr) (k + 1)
          (filter (\<lambda>(p, t). unat (cu_line p) < pr_N_SCANS pr) (zip ps (stored_times fl (pr_N_SCANS pr) prev ps))))))"
proof (induction ps arbitrary: k prev surf)
  case (Cons p ps)
  then show ?case using assms by (simp add: Let_def)
qed simp

text \<open>The entry of a point from the entry before it.\<close>

lemma stored_times_nth:
  assumes "i < length ps" and "unat (cu_line (ps ! i)) < n"
  shows "stored_times fl n prev ps ! i =
    smooth_time fl (if i = 0 then prev
        else Some (livox_point (ps ! (i - 1)) (if unat (cu_line (ps ! (i - 1))) < n then stored_times fl n prev ps ! (i - 1) else 0)))
      (livox_time fl (ps ! i))"
  using assms
proof (induction ps arbitrary: i prev)
  case (Cons p ps)
  have cong: "smooth_time fl (Some a) t = smooth_time fl (Some b) t" if "curvature a = curvature b" for a b t
    using that by (simp add: smooth_time_def)
  show ?case
  proof (cases i)
    case 0
    then show ?thesis using Cons.prems by (simp add: Let_def)
  next
    case (Suc k)
    show ?thesis
    proof (cases "k = 0")
      case True
      then show ?thesis using Cons.IH [of 0] Cons.prems Suc
        by (auto simp: Let_def zero_point_def intro: cong)
    next
      case False
      then show ?thesis using Cons.IH [of k] Cons.prems Suc by (simp add: Let_def nth_Cons')
    qed
  qed
qed simp

text \<open>What the driver stores for a point whose time is within 32 bits of the packet's.\<close>

lemma driver_offset:
  fixes b t :: u64
  assumes "unat b \<le> unat t" and "unat t < unat b + 2 ^ 32"
  shows "unat (ucast (t - b) :: u32) = unat t - unat b"
proof -
  have "b \<le> t" using assms(1) by (simp add: word_le_nat_alt)
  then have "unat (t - b) = unat t - unat b" by (rule unat_sub)
  moreover have "unat t - unat b < 2 ^ 32" using assms by linarith
  ultimately show ?thesis by (simp add: unsigned_ucast_eq take_bit_nat_eq_self)
qed

text \<open>Milliseconds from the packet's base time to a point.\<close>

definition point_ms :: "u64 \<Rightarrow> PointXyzlt \<Rightarrow> real" where
  "point_ms base p = (real (unat (poffset_time p)) - real (unat base)) / 1000000"

definition driver_msg :: "u32 \<Rightarrow> u64 \<Rightarrow> PointXyzlt list \<Rightarrow> CustomMsg" where
  "driver_msg handle base pts =
     (InitCustomMsg kLivoxLidarType handle base pts)\<lparr>cm_points := FillPointsToCustomMsg base pts\<rparr>"

text \<open>The same as the \<open>float\<close> the preprocessor computes from it, and the rounding it relies on: to the nearest number
  with 24 bits, in the range of normal numbers.\<close>

definition float_ms :: "(real \<Rightarrow> real) \<Rightarrow> u64 \<Rightarrow> PointXyzlt \<Rightarrow> real" where
  "float_ms fl base p = fl (fl (real (unat (poffset_time p)) - real (unat base)) / 1000000)"

definition rounds_float :: "(real \<Rightarrow> real) \<Rightarrow> bool" where
  "rounds_float fl \<longleftrightarrow> fl 0 = 0 \<and> (\<forall>x. 1 / 2 ^ 126 \<le> \<bar>x\<bar> \<and> \<bar>x\<bar> < 2 ^ 127 \<longrightarrow> \<bar>fl x - x\<bar> \<le> \<bar>x\<bar> / 2 ^ 24)"

lemma float_ms_close:
  assumes "rounds_float fl" and "unat base \<le> unat (poffset_time p)" and "unat (poffset_time p) < unat base + 2 ^ 32"
  shows "\<bar>float_ms fl base p - point_ms base p\<bar> \<le> point_ms base p / 2 ^ 22"
proof -
  define n where "n = unat (poffset_time p) - unat base"
  have "n < 2 ^ 32" using assms(2,3) unfolding n_def by linarith
  then have "real n < real (2 ^ 32)" by (simp only: of_nat_less_iff)
  then have n: "real (unat (poffset_time p)) - real (unat base) = real n" "real n < 2 ^ 32"
    using assms(2) by (simp_all add: n_def of_nat_diff)
  have R: "\<bar>fl x - x\<bar> \<le> x / 2 ^ 24" if "1 / 2 ^ 126 \<le> x" "x < 2 ^ 127" for x
    using assms(1) [unfolded rounds_float_def] that by (metis abs_of_pos less_le_trans zero_less_divide_1_iff zero_less_numeral zero_less_power)
  show ?thesis
  proof (cases "n = 0")
    case True
    then show ?thesis using assms(1) unfolding float_ms_def point_ms_def n(1) by (simp add: rounds_float_def)
  next
    case False
    then have g: "1 \<le> real n" by simp
    define a where "a = fl (real n)"
    have "(1 :: real) / 2 ^ 126 \<le> 1" "(2 :: real) ^ 32 < 2 ^ 127" by simp_all
    then have a: "\<bar>a - real n\<bar> \<le> real n / 2 ^ 24" unfolding a_def using g n(2) by (intro R) linarith+
    have a1: "real n / 2 \<le> a" "a \<le> 2 * real n" using a g unfolding abs_le_iff by (simp_all add: field_simps)
    have "(1 :: real) / 2 ^ 126 \<le> 1 / 2000000" "(2 :: real) * 2 ^ 32 < 2 ^ 127" by simp_all
    then have q: "\<bar>fl (a / 1000000) - a / 1000000\<bar> \<le> (a / 1000000) / 2 ^ 24"
      using a1 g n(2) by (intro R) (simp_all add: field_simps)
    show ?thesis using a q g unfolding float_ms_def point_ms_def n(1) a_def [symmetric] abs_le_iff by (simp add: field_simps)
  qed
qed

text \<open>C34: From the LiDAR to the buffer of the mapper: which points arrive and with which capture times. Take a packet
  of points within 32 bits of nanoseconds (4.29 s) after its base time. The preprocessor makes of the driver's message
  exactly every \<open>n\<close>-th of the points with a valid line that lie outside the blind zone, in order, whatever their times
  are. Their capture times are entries of a list \<open>T\<close> over all points: the first point keeps its own time if that is below
  a millisecond, and gets zero otherwise; every later one keeps its own time if it is less than a millisecond from the
  entry before it, where a point with an invalid line counts as zero, and otherwise the jump guard replaces its time by
  that entry plus the nominal step. In particular all points up to the first jump of a millisecond or the first invalid
  line keep their own times, and a kept time is the exact one, in milliseconds from the base time, up to one part in
  \<open>2 ^ 22\<close> (two roundings to \<open>float\<close>).\<close>

theorem driver_capture_times:
  assumes "rounds_float fl" and "\<not> pr_feature_enabled pr" and "pr_point_filter_num pr \<noteq> 0" and "pr_N_SCANS pr \<le> kMaxLines"
    and "length pts < 2 ^ 32"
    and "\<forall>p \<in> set pts. unat base \<le> unat (poffset_time p) \<and> unat (poffset_time p) < unat base + 2 ^ 32"
  shows "\<exists>T. length T = length pts
    \<and> process_livox fl pr (driver_msg handle base pts) v =
        Ret (map (\<lambda>(p, t). \<lparr>lp_xyz = (px p, py p, pz p), lp_intensity = real_of_int (\<lfloor>pintensity p\<rfloor> mod 256), curvature = t\<rparr>)
               (filter (\<lambda>(p, t). sq_norm (px p, py p, pz p) \<ge> pr_blind_sqr pr)
                 (every_nth (pr_point_filter_num pr) 1
                   (filter (\<lambda>(p, t). unat (pline p) < pr_N_SCANS pr) (zip pts T)))), v)
    \<and> (\<forall>i < length pts. unat (pline (pts ! i)) < pr_N_SCANS pr \<longrightarrow>
        T ! i = (let own = float_ms fl base (pts ! i);
                     before = (if unat (pline (pts ! (i - 1))) < pr_N_SCANS pr then T ! (i - 1) else 0)
                 in if i = 0 then (if \<bar>own\<bar> < 1 then own else 0)
                    else if \<bar>fl (own - before)\<bar> < 1 then own else fl (before + fl (4166667 / 10 ^ 9))))
    \<and> (\<forall>i < length pts.
        (\<forall>j \<le> i. unat (pline (pts ! j)) < pr_N_SCANS pr
           \<and> (if j = 0 then \<bar>float_ms fl base (pts ! j)\<bar> < 1
              else \<bar>fl (float_ms fl base (pts ! j) - float_ms fl base (pts ! (j - 1)))\<bar> < 1))
        \<longrightarrow> T ! i = float_ms fl base (pts ! i) \<and> \<bar>T ! i - point_ms base (pts ! i)\<bar> \<le> point_ms base (pts ! i) / 2 ^ 22)"
proof -
  let ?f = "\<lambda>p. \<lparr>cu_offset_time = ucast (poffset_time p - base), cu_x = px p, cu_y = py p, cu_z = pz p,
               cu_reflectivity = of_int \<lfloor>pintensity p\<rfloor>, cu_tag = ptag p, cu_line = pline p\<rparr> :: CustomPoint"
  define T where "T = stored_times fl (pr_N_SCANS pr) None (map ?f pts)"
  have t: "livox_time fl (?f p) = float_ms fl base p" if "p \<in> set pts" for p
    using assms(6) that driver_offset [of base "poffset_time p"]
    by (simp add: livox_time_def float_ms_def of_nat_diff)
  have len: "unat (cm_point_num (driver_msg handle base pts)) = length pts"
    using assms(5) by (simp add: driver_msg_def InitCustomMsg_def unat_of_nat)
  have pts: "cm_points (driver_msg handle base pts) = map ?f pts"
    by (simp add: driver_msg_def FillPointsToCustomMsg_def)
  have every: "every_nth n i (map g xs) = map g (every_nth n i xs)"
    for n i and g :: "PointXyzlt \<times> real \<Rightarrow> CustomPoint \<times> real" and xs
    by (induction xs arbitrary: i) simp_all
  have zip: "zip (map ?f pts) T = map (\<lambda>(p, t). (?f p, t)) (zip pts T)"
    by (simp add: zip_map1)
  have run: "process_livox fl pr (driver_msg handle base pts) v =
        Ret (map (\<lambda>(p, t). \<lparr>lp_xyz = (px p, py p, pz p), lp_intensity = real_of_int (\<lfloor>pintensity p\<rfloor> mod 256), curvature = t\<rparr>)
               (filter (\<lambda>(p, t). sq_norm (px p, py p, pz p) \<ge> pr_blind_sqr pr)
                 (every_nth (pr_point_filter_num pr) 1
                   (filter (\<lambda>(p, t). unat (pline p) < pr_N_SCANS pr) (zip pts T)))), v)"
    using assms(2-4)
    by (simp add: process_livox_def avia_handler_def Let_def len pts avia_loop_stored flip: T_def)
      (simp add: zip filter_map every o_def case_prod_unfold livox_xyz_def livox_point_def unsigned_of_int take_bit_eq_mod)
  have step: "T ! i = (let own = float_ms fl base (pts ! i);
                     before = (if unat (pline (pts ! (i - 1))) < pr_N_SCANS pr then T ! (i - 1) else 0)
                 in if i = 0 then (if \<bar>own\<bar> < 1 then own else 0)
                    else if \<bar>fl (own - before)\<bar> < 1 then own else fl (before + fl (4166667 / 10 ^ 9)))"
    if "i < length pts" "unat (pline (pts ! i)) < pr_N_SCANS pr" for i
    using stored_times_nth [of i "map ?f pts" "pr_N_SCANS pr" fl None] that t [of "pts ! i"]
    by (simp add: smooth_time_def Let_def flip: T_def)
  have keep: "T ! i = float_ms fl base (pts ! i)"
    if "i < length pts" and "\<forall>j \<le> i. unat (pline (pts ! j)) < pr_N_SCANS pr
           \<and> (if j = 0 then \<bar>float_ms fl base (pts ! j)\<bar> < 1
              else \<bar>fl (float_ms fl base (pts ! j) - float_ms fl base (pts ! (j - 1)))\<bar> < 1)" for i
    using that
  proof (induction i)
    case 0
    then show ?case using step [of 0] by simp
  next
    case (Suc i)
    have "T ! i = float_ms fl base (pts ! i)"
      by (rule Suc.IH) (use Suc.prems in \<open>simp, meson le_SucI\<close>)
    moreover have "unat (pline (pts ! i)) < pr_N_SCANS pr" "unat (pline (pts ! Suc i)) < pr_N_SCANS pr"
      "\<bar>fl (float_ms fl base (pts ! Suc i) - float_ms fl base (pts ! i))\<bar> < 1"
      using Suc.prems(2) [rule_format, of i] Suc.prems(2) [rule_format, of "Suc i"] by simp_all
    ultimately show ?case using step [of "Suc i"] Suc.prems(1) by simp
  qed
  have close: "\<bar>float_ms fl base (pts ! i) - point_ms base (pts ! i)\<bar> \<le> point_ms base (pts ! i) / 2 ^ 22" if "i < length pts" for i
    using assms(1,6) that by (intro float_ms_close) simp_all
  show ?thesis
  proof (intro exI [of _ T] conjI allI impI)
    show "length T = length pts" by (simp add: T_def)
    show "process_livox fl pr (driver_msg handle base pts) v =
        Ret (map (\<lambda>(p, t). \<lparr>lp_xyz = (px p, py p, pz p), lp_intensity = real_of_int (\<lfloor>pintensity p\<rfloor> mod 256), curvature = t\<rparr>)
               (filter (\<lambda>(p, t). sq_norm (px p, py p, pz p) \<ge> pr_blind_sqr pr)
                 (every_nth (pr_point_filter_num pr) 1
                   (filter (\<lambda>(p, t). unat (pline p) < pr_N_SCANS pr) (zip pts T)))), v)" by (rule run)
  qed (use step keep close in metis)+
qed

definition ex_plain :: Preprocess where
  "ex_plain = ex_preprocess\<lparr>pr_feature_enabled := False\<rparr>"

definition ex_hit :: "u64 \<Rightarrow> PointXyzlt" where
  "ex_hit t = \<lparr>px = 2, py = 0, pz = 1, pintensity = 9, ptag = 0, pline = 3, poffset_time = t\<rparr>"

text \<open>The example with exact arithmetic: a jump of 20 ms after the second point.\<close>

theorem driver_capture_times_witness:
  "\<exists>T. length T = 3 \<and> T ! 0 = 0 \<and> T ! 1 = 1 / 4 \<and> T ! 2 = 1 / 4 + 4166667 / 10 ^ 9
     \<and> process_livox (\<lambda>x. x) ex_plain (driver_msg 7 5000000 [ex_hit 5000000, ex_hit 5250000, ex_hit 25250000]) v3_zero =
         Ret (map (\<lambda>t. \<lparr>lp_xyz = (2, 0, 1), lp_intensity = 9, curvature = t\<rparr>) T, v3_zero)"
proof -
  let ?pts = "[ex_hit 5000000, ex_hit 5250000, ex_hit 25250000]"
  have r: "rounds_float (\<lambda>x. x)" by (simp add: rounds_float_def)
  have m: "float_ms (\<lambda>x. x) 5000000 (ex_hit 5000000) = 0" "float_ms (\<lambda>x. x) 5000000 (ex_hit 5250000) = 1 / 4"
    "float_ms (\<lambda>x. x) 5000000 (ex_hit 25250000) = 20 + 1 / 4" "pline (ex_hit t) = 3" for t
    by (simp_all add: float_ms_def ex_hit_def)
  have c: "\<not> pr_feature_enabled ex_plain" "pr_point_filter_num ex_plain = 1" "pr_N_SCANS ex_plain = 6" "pr_blind_sqr ex_plain = 1"
    by (simp_all add: ex_plain_def ex_preprocess_def)
  obtain T where T: "length T = length ?pts"
    and run: "process_livox (\<lambda>x. x) ex_plain (driver_msg 7 5000000 ?pts) v3_zero =
        Ret (map (\<lambda>(p, t). \<lparr>lp_xyz = (px p, py p, pz p), lp_intensity = real_of_int (\<lfloor>pintensity p\<rfloor> mod 256), curvature = t\<rparr>)
               (filter (\<lambda>(p, t). sq_norm (px p, py p, pz p) \<ge> pr_blind_sqr ex_plain)
                 (every_nth (pr_point_filter_num ex_plain) 1
                   (filter (\<lambda>(p, t). unat (pline p) < pr_N_SCANS ex_plain) (zip ?pts T)))), v3_zero)"
    and step: "\<forall>i < length ?pts. unat (pline (?pts ! i)) < pr_N_SCANS ex_plain \<longrightarrow>
        T ! i = (let own = float_ms (\<lambda>x. x) 5000000 (?pts ! i);
                     before = (if unat (pline (?pts ! (i - 1))) < pr_N_SCANS ex_plain then T ! (i - 1) else 0)
                 in if i = 0 then (if \<bar>own\<bar> < 1 then own else 0)
                    else if \<bar>own - before\<bar> < 1 then own else before + 4166667 / 10 ^ 9)"
    using driver_capture_times [OF r c(1), of ?pts 5000000 7 v3_zero] by (auto simp: c kMaxLines_def ex_hit_def)
  obtain a b d where abd: "T = [a, b, d]" using T by (auto simp: length_Suc_conv)
  have "a = 0" "b = 1 / 4" "d = 1 / 4 + 4166667 / 10 ^ 9"
    using step [rule_format, of 0] step [rule_format, of 1] step [rule_format, of 2] by (simp_all add: abd m c)
  moreover have "sq_norm (2, 0, 1) = 5" by (simp add: sq_norm_def)
  ultimately show ?thesis using run by (intro exI [of _ T]) (simp add: abd c m, simp add: ex_hit_def)
qed

section \<open>Sorted clouds\<close>

text \<open>The points a handler that sorts should publish: every \<open>n\<close>-th one outside the blind zone, with its time.\<close>

definition selected :: "Preprocess \<Rightarrow> (vec3 option \<times> raw_point) list \<Rightarrow> LPoint list" where
  "selected pr pl_orig =
     (let ps = every_nth (pr_point_filter_num pr) 0 pl_orig; head = rp_time (snd (hd pl_orig)); b = pr_blind_sqr pr
      in if pr_lidar_type pr = OUST64
         then map (ouster_point \<circ> snd) (filter (\<lambda>p. sq_norm (rp_xyz (snd p)) \<ge> b) ps)
         else if pr_lidar_type pr = PANDAR128
         then map (head_point 255 head \<circ> snd) (filter (\<lambda>p. sq_norm (rp_xyz (snd p)) > b) ps)
         else map (\<lambda>(xyz, p). head_point 1 head (p\<lparr>rp_xyz := the xyz\<rparr>))
                (filter (\<lambda>(xyz, p). case xyz of None \<Rightarrow> False | Some q \<Rightarrow> sq_norm q \<ge> b) ps))"

lemma every_nth_map: "every_nth n i (map f xs) = map f (every_nth n i xs)"
  by (induction xs arbitrary: i) simp_all

lemma set_every_nth: "set (every_nth n i xs) \<subseteq> set xs"
  by (induction xs arbitrary: i) auto

lemma process_cloud_sorting:
  assumes "\<not> pr_feature_enabled pr" and "pr_point_filter_num pr \<noteq> 0" and "pl_orig \<noteq> []"
    and "pr_lidar_type pr \<in> {OUST64, PANDAR128, ROBOSENSE}"
  shows "process_cloud pr srt pl_orig v pl_surf = Ret (srt (selected pr pl_orig), v)"
proof -
  note defs = process_cloud_def selected_def Let_def thin_def every_nth_map filter_map o_def not_less hd_map lidar_types
  from assms(4) consider "pr_lidar_type pr = OUST64" | "pr_lidar_type pr = PANDAR128" | "pr_lidar_type pr = ROBOSENSE"
    by blast
  then show ?thesis
  proof cases
    case 1
    with assms(1-3) show ?thesis by (simp add: defs oust64_handler_def)
  next
    case 2
    with assms(1-3) show ?thesis by (simp add: defs Pandar128_handler_def)
  next
    case 3
    then have t: "pr_lidar_type pr \<noteq> t" if "t \<in> {OUST64, VELO16, L515, XT32, PANDAR128}" for t
      using that by (auto simp: lidar_types)
    have "robosense_handler pr srt pl_orig = Ret (srt (selected pr pl_orig))"
      using assms(2,3) t [of OUST64] t [of PANDAR128]
      by (simp add: robosense_handler_def selected_def thin_def Let_def o_def case_prod_unfold)
    then show ?thesis using t 3 by (simp add: process_cloud_def Let_def)
  qed
qed

lemma sorted_last_Max:
  fixes f :: "'a \<Rightarrow> real"
  assumes "sorted (map f xs)" and "xs \<noteq> []"
  shows "f (last xs) = Max (f ` set xs)"
proof -
  have le: "f x \<le> f (last xs)" if x: "x \<in> set xs" for x
  proof -
    obtain i where i: "i < length xs" "xs ! i = x" using x by (auto simp: in_set_conv_nth)
    then have "map f xs ! i \<le> map f xs ! (length xs - 1)"
      using assms(1) by (intro sorted_nth_mono) auto
    then show ?thesis using i assms(2) by (simp add: last_conv_nth)
  qed
  have "Max (f ` set xs) = f (last xs)"
    by (rule Max_eqI) (use le assms(2) in auto)
  then show ?thesis by (rule sym)
qed

text \<open>For the sensors whose clouds are sorted, the preprocessor publishes exactly the selected points,
  each once, in time order, so that the last point, which \<open>sync_packages\<close> reads as the end of the scan, carries
  the latest capture time.\<close>

theorem sorted_cloud_ends_with_latest:
  assumes "time_sort srt" and "\<not> pr_feature_enabled pr" and "pr_point_filter_num pr \<noteq> 0" and "pl_orig \<noteq> []"
    and "pr_lidar_type pr \<in> {OUST64, PANDAR128, ROBOSENSE}"
  shows "\<exists>surf. process_cloud pr srt pl_orig v pl_surf = Ret (surf, v) \<and> mset surf = mset (selected pr pl_orig)
    \<and> sorted (map curvature surf) \<and> (surf \<noteq> [] \<longrightarrow> curvature (last surf) = Max (curvature ` set surf))"
  using assms(1) process_cloud_sorting [OF assms(2-5), of srt v pl_surf] sorted_last_Max [of curvature "srt (selected pr pl_orig)"]
  by (simp add: time_sort_def)

lemma time_sort_sort_key: "time_sort (sort_key curvature)"
  by (simp add: time_sort_def)

definition ex_raw :: "real \<Rightarrow> real \<Rightarrow> raw_point" where
  "ex_raw x t = \<lparr>rp_xyz = (x, 0, 0), rp_intensity = 1, rp_time = t, rp_ring = 0\<rparr>"

theorem sorted_cloud_ends_with_latest_witness:
  "\<exists>surf. process_cloud (ex_plain\<lparr>pr_lidar_type := OUST64\<rparr>) (sort_key curvature)
      [(None, ex_raw 3 2000000), (None, ex_raw 0 1000000), (None, ex_raw 4 500000)] v3_zero [] = Ret (surf, v3_zero)
     \<and> length surf = 2 \<and> curvature (last surf) = Max (curvature ` set surf)"
proof -
  let ?pr = "ex_plain\<lparr>pr_lidar_type := OUST64\<rparr>"
  let ?pl = "[(None, ex_raw 3 2000000), (None, ex_raw 0 1000000), (None, ex_raw 4 500000)]"
  obtain surf where s: "process_cloud ?pr (sort_key curvature) ?pl v3_zero [] = Ret (surf, v3_zero)"
      "mset surf = mset (selected ?pr ?pl)" "surf \<noteq> [] \<longrightarrow> curvature (last surf) = Max (curvature ` set surf)"
    using sorted_cloud_ends_with_latest [OF time_sort_sort_key, of ?pr ?pl v3_zero "[]"]
    by (auto simp: ex_plain_def ex_preprocess_def)
  have "length (selected ?pr ?pl) = 2"
    by (simp add: selected_def ex_plain_def ex_preprocess_def ex_raw_def sq_norm_def)
  then have "length surf = 2" using s(2) by (metis size_mset)
  with s show ?thesis by auto
qed

section \<open>A scan inside the blind zone\<close>

lemma spinning_point_defined:
  assumes "rp_ring p < kMaxRings"
  shows "\<exists>t st'. spinning_point given p st = Ret (t, st') \<and> (\<forall>pt. t = Some pt \<longrightarrow> lp_xyz pt = rp_xyz p)"
proof -
  obtain a b c where st: "st = (a, b, c)" by (cases st)
  show ?thesis
  proof (cases "given \<or> a ! rp_ring p")
    case True
    with assms show ?thesis by (auto simp: spinning_point_def ring_time_def Let_def st)
  next
    case False
    with assms show ?thesis by (simp add: spinning_point_def ring_time_def Let_def st)
  qed
qed

lemma velodyne_loop_blind:
  assumes "pr_point_filter_num pr \<noteq> 0" and "\<forall>p \<in> set ps. sq_norm (rp_xyz p) < pr_blind_sqr pr \<and> rp_ring p < kMaxRings"
  shows "velodyne_loop pr given i ps st surf = Ret surf"
  using assms(2)
proof (induction ps arbitrary: i st surf)
  case (Cons p ps)
  obtain t st' where "spinning_point given p st = Ret (t, st')"
      "\<forall>pt. t = Some pt \<longrightarrow> lp_xyz pt = rp_xyz p"
    using Cons.prems spinning_point_defined [of p given st] by auto
  with Cons assms(1) show ?case by (auto split: option.splits)
qed simp

lemma blind_scan_empty:
  assumes "\<not> pr_feature_enabled pr" and "pr_point_filter_num pr \<noteq> 0" and "pl_orig \<noteq> []"
    and "pr_lidar_type pr \<in> {OUST64, VELO16, L515, XT32, PANDAR128, ROBOSENSE}" and "time_sort srt"
    and "\<forall>(xyz, p) \<in> set pl_orig. sq_norm (rp_xyz p) < pr_blind_sqr pr \<and> rp_ring p < kMaxRings
                            \<and> (\<forall>q. xyz = Some q \<longrightarrow> sq_norm q < pr_blind_sqr pr)"
  shows "process_cloud pr srt pl_orig v pl_surf = Ret ([], v)"
proof -
  have srt: "srt [] = []" using assms(5) by (simp add: time_sort_def) (metis mset_zero_iff)
  have far: "sq_norm (rp_xyz (snd p)) < pr_blind_sqr pr \<and> (\<forall>q. fst p = Some q \<longrightarrow> sq_norm q < pr_blind_sqr pr)"
    if "p \<in> set (every_nth n i pl_orig)" for n i p
    using assms(6) that set_every_nth [of n i pl_orig] by (auto simp: case_prod_unfold)
  have none: "filter (\<lambda>p. sq_norm (rp_xyz (snd p)) \<ge> pr_blind_sqr pr) (every_nth n i pl_orig) = []"
    "filter (\<lambda>p. sq_norm (rp_xyz (snd p)) > pr_blind_sqr pr) (every_nth n i pl_orig) = []"
    "filter (\<lambda>p. case fst p of None \<Rightarrow> False | Some q \<Rightarrow> sq_norm q \<ge> pr_blind_sqr pr) (every_nth n i pl_orig) = []"
    for n i
    using far [of _ n i] by (auto simp: filter_empty_conv not_le split: option.splits dest: less_imp_le)
      (meson less_asym)
  have velo: "velodyne_loop pr given 0 (map snd pl_orig) new_rings [] = Ret []" for given
    by (rule velodyne_loop_blind) (use assms(2,6) in auto)
  consider "pr_lidar_type pr \<in> {OUST64, PANDAR128, ROBOSENSE}" | "pr_lidar_type pr \<in> {VELO16, L515, XT32}"
    using assms(4) by auto
  then show ?thesis
  proof cases
    case 1
    then have "selected pr pl_orig = []"
      by (simp add: selected_def Let_def none case_prod_unfold)
    with process_cloud_sorting [OF assms(1-3) 1] srt show ?thesis by simp
  next
    case 2
    with assms(1-3) none velo show ?thesis
      by (auto simp: process_cloud_def Let_def velodyne_handler_def l515_handler_def xt32_handler_def thin_def
          every_nth_map filter_map o_def not_less lidar_types)
  qed
qed

text \<open>A scan whose points all lie in the blind zone, a sensor with its cover on, is fatal in LIVO mode
  with every sensor but Livox: its handler publishes an empty cloud, the callback for standard clouds buffers
  it, and the next synchronisation reads the last point of an empty vector.\<close>

theorem blind_scan_breaks_livo:
  assumes "\<not> pr_feature_enabled pr" and "pr_point_filter_num pr \<noteq> 0" and "pl_orig \<noteq> []"
    and "pr_lidar_type pr \<in> {OUST64, VELO16, L515, XT32, PANDAR128, ROBOSENSE}" and "time_sort srt"
    and "\<forall>(xyz, p) \<in> set pl_orig. sq_norm (rp_xyz p) < pr_blind_sqr pr \<and> rp_ring p < kMaxRings
                            \<and> (\<forall>q. xyz = Some q \<longrightarrow> sq_norm q < pr_blind_sqr pr)"
    and "lidar_en s" and "slam_mode s = LIVO" and "lio_vio_flg m \<in> {WAIT, VIO}"
    and "img_buffer s \<noteq> []" and "imu_buffer s \<noteq> []"
  shows "bind_exec (process_cloud pr srt pl_orig v pl_surf)
           (\<lambda>(cloud, v). sync_packages (standard_pcl_cbk stamp cloud s) m) = Undef"
  using blind_scan_empty [OF assms(1-6)] empty_cloud_breaks_livo [OF assms(7-11)] by simp

theorem blind_scan_breaks_livo_witness:
  "bind_exec (process_cloud (ex_plain\<lparr>pr_lidar_type := OUST64\<rparr>) (sort_key curvature) [(None, ex_raw 0 1)] v3_zero [])
     (\<lambda>(cloud, v). sync_packages (standard_pcl_cbk 101 cloud ex_ready) new_LidarMeasureGroup) = Undef"
  by (rule blind_scan_breaks_livo [OF _ _ _ _ time_sort_sort_key])
    (simp_all add: ex_ready_simps ex_ready_eq ex_start_def new_LidarMeasureGroup_def ex_plain_def ex_preprocess_def
      ex_raw_def sq_norm_def kMaxRings_def)

end
