(* ===== verification/Livox_Callback.thy ===== *)
theory Livox_Callback
  imports Livox_Lds
begin

text \<open>
  The callbacks through which a LiDAR is configured,
  \<^verbatim>\<open>livox_ros_driver2/src/call_back/livox_lidar_callback.cpp\<close>. The SDK's asynchronous calls are the
  requests a callback issues; the SDK answers each request with a call of the callback named in it. The
  SDK's status codes are \<open>status\<close>; a null client is \<open>None\<close>. Log output is left out.
\<close>

section \<open>Model\<close>

datatype status = Success | Timeout | OtherStatus

datatype request =
    SetPclDataType u32 int
  | SetScanPattern u32 int
  | SetBlindSpot u32 int
  | SetDualEmit u32 bool
  | SetInstallAttitude u32 ExtParameter
  | SetWorkMode u32
  | EnableImuData u32

definition GetLidarDevice :: "u32 \<Rightarrow> Lds option \<Rightarrow> nat option" where
  "GetLidarDevice handle client_data =
     (case client_data of
        None \<Rightarrow> None
      | Some s \<Rightarrow>
          (case GetIndex kLivoxLidarType handle 0 (lds_cache_index s) of
             (ret, index) \<Rightarrow> if ret \<noteq> 0 then None else Some (unat index)))"

text \<open>The four options of a configuration: the bit, whether the user set it, and the request.\<close>

datatype opt = DataType | ScanPattern | BlindSpot | DualEmit

fun opt_bit :: "opt \<Rightarrow> u32" where
  "opt_bit DataType = kConfigDataType"
| "opt_bit ScanPattern = kConfigScanPattern"
| "opt_bit BlindSpot = kConfigBlindSpot"
| "opt_bit DualEmit = kConfigDualEmit"

fun opt_value :: "opt \<Rightarrow> UserLivoxLidarConfig \<Rightarrow> int" where
  "opt_value DataType c = cfg_pcl_data_type c"
| "opt_value ScanPattern c = cfg_pattern_mode c"
| "opt_value BlindSpot c = cfg_blind_spot_set c"
| "opt_value DualEmit c = cfg_dual_emit_en c"

fun opt_request :: "opt \<Rightarrow> u32 \<Rightarrow> UserLivoxLidarConfig \<Rightarrow> request" where
  "opt_request DataType h c = SetPclDataType h (cfg_pcl_data_type c)"
| "opt_request ScanPattern h c = SetScanPattern h (cfg_pattern_mode c)"
| "opt_request BlindSpot h c = SetBlindSpot h (cfg_blind_spot_set c)"
| "opt_request DualEmit h c = SetDualEmit h (cfg_dual_emit_en c \<noteq> 0)"

definition all_options :: "opt list" where
  "all_options = [DataType, ScanPattern, BlindSpot, DualEmit]"

text \<open>One of the four \<open>if\<close> blocks under the lock.\<close>

definition request_option ::
  "u32 \<Rightarrow> opt \<Rightarrow> request list \<times> UserLivoxLidarConfig \<Rightarrow> request list \<times> UserLivoxLidarConfig" where
  "request_option handle k rc =
     (case rc of (reqs, config) \<Rightarrow>
        if opt_value k config \<noteq> - 1
        then (reqs @ [opt_request k handle config], config\<lparr>cfg_set_bits := cfg_set_bits config OR opt_bit k\<rparr>)
        else (reqs, config))"

definition LidarInfoChangeCallback ::
  "u32 \<Rightarrow> Lds option \<Rightarrow> (request list \<times> Lds option) exec" where
  "LidarInfoChangeCallback handle client_data =
     (case client_data of
        None \<Rightarrow> Ret ([], None)
      | Some s \<Rightarrow>
          (let start = [SetWorkMode handle, EnableImuData handle]
           in case GetLidarDevice handle client_data of
             None \<Rightarrow>
               (case GetFreeIndex kLivoxLidarType handle 0 (lds_cache_index s) of
                  (ret, index, c) \<Rightarrow>
                    if ret \<noteq> 0 then Ret ([], Some (s\<lparr>lds_cache_index := c\<rparr>))
                    else if unat index \<ge> length (lds_lidars s) then Undef
                    else Ret (start, Some (set_lidar (unat index)
                           ((lds_lidars s ! unat index)\<lparr>ld_lidar_type := kLivoxLidarType\<rparr>)
                           (s\<lparr>lds_cache_index := c\<rparr>))))
           | Some i \<Rightarrow>
               if i \<ge> length (lds_lidars s) then Undef
               else let d = lds_lidars s ! i
                    in case fold (request_option handle) all_options
                              ([], ld_livox_config d) of
                      (reqs, config) \<Rightarrow>
                        Ret (reqs @ [SetInstallAttitude (cfg_handle config) (cfg_extrinsic_param config)] @ start,
                             Some (set_lidar i (d\<lparr>ld_livox_config := config\<rparr>) s))))"

definition WorkModeChangedCallback :: "status \<Rightarrow> u32 \<Rightarrow> request list" where
  "WorkModeChangedCallback st handle = (if st \<noteq> Success then [SetWorkMode handle] else [])"

text \<open>The device's state after an option has been acknowledged.\<close>

definition ack_option :: "opt \<Rightarrow> LidarDevice \<Rightarrow> LidarDevice" where
  "ack_option k d =
     (let config = (ld_livox_config d)\<lparr>cfg_set_bits := cfg_set_bits (ld_livox_config d) AND NOT (opt_bit k)\<rparr>;
          d = d\<lparr>ld_livox_config := config\<rparr>
      in if cfg_set_bits config = 0 then d\<lparr>ld_connect_state := kConnectStateSampling\<rparr> else d)"

text \<open>\<open>SetDataTypeCallback\<close>, \<open>SetPatternModeCallback\<close>, \<open>SetBlindSpotCallback\<close> and
  \<open>SetDualEmitCallback\<close> have one shape; \<open>k\<close> says which it is. \<open>have_response\<close>: the response pointer is not
  null; it is dereferenced only when the request failed.\<close>

definition SetOptionCallback ::
  "opt \<Rightarrow> status \<Rightarrow> u32 \<Rightarrow> bool \<Rightarrow> Lds option \<Rightarrow> (request list \<times> Lds option) exec" where
  "SetOptionCallback k st handle have_response client_data =
     (case (GetLidarDevice handle client_data, client_data) of
        (Some i, Some s) \<Rightarrow>
          if i \<ge> length (lds_lidars s) then Undef
          else let d = lds_lidars s ! i
               in (case st of
                     Success \<Rightarrow> Ret ([], Some (set_lidar i (ack_option k d) s))
                   | Timeout \<Rightarrow> Ret ([opt_request k handle (ld_livox_config d)], client_data)
                   | OtherStatus \<Rightarrow> if have_response then Ret ([], client_data) else Undef)
      | _ \<Rightarrow> Ret ([], client_data))"

definition SetAttitudeCallback :: "status \<Rightarrow> u32 \<Rightarrow> Lds option \<Rightarrow> request list exec" where
  "SetAttitudeCallback st handle client_data =
     (case (GetLidarDevice handle client_data, client_data) of
        (Some i, Some s) \<Rightarrow>
          if i \<ge> length (lds_lidars s) then Undef
          else let config = ld_livox_config (lds_lidars s ! i)
               in Ret (if st = Timeout then [SetInstallAttitude (cfg_handle config) (cfg_extrinsic_param config)] else [])
      | _ \<Rightarrow> Ret [])"

definition EnableLivoxLidarImuDataCallback :: "status \<Rightarrow> u32 \<Rightarrow> bool \<Rightarrow> Lds option \<Rightarrow> request list" where
  "EnableLivoxLidarImuDataCallback st handle have_response client_data =
     (case GetLidarDevice handle client_data of
        None \<Rightarrow> []
      | Some _ \<Rightarrow> if \<not> have_response then [] else if st = Timeout then [EnableImuData handle] else [])"

section \<open>Bits\<close>

fun opt_index :: "opt \<Rightarrow> nat" where
  "opt_index DataType = 0"
| "opt_index ScanPattern = 1"
| "opt_index BlindSpot = 2"
| "opt_index DualEmit = 3"

lemma opt_bit_eq: "opt_bit k = 2 ^ opt_index k"
  by (cases k) (simp_all add: kConfigDataType_def kConfigScanPattern_def kConfigBlindSpot_def kConfigDualEmit_def)

lemma opt_index_inj: "opt_index k = opt_index k' \<longleftrightarrow> k = k'"
  by (cases k; cases k') simp_all

lemma bit_opt_bit: "bit (opt_bit k) n \<longleftrightarrow> n = opt_index k"
  unfolding opt_bit_eq bit_exp_iff by (cases k) (auto simp: possible_bit_word)

lemma all_opts: "set (filter P all_options) = {k. P k}"
proof -
  have "k \<in> set all_options" for k by (cases k) (simp_all add: all_options_def)
  then show ?thesis by (simp only: set_filter simp_thms)
qed

text \<open>The options still to be acknowledged.\<close>

definition pending :: "u32 \<Rightarrow> nat set" where
  "pending w = {n. bit w n}"

lemma pending_ack: "pending (w AND NOT (opt_bit k)) = pending w - {opt_index k}"
  by (auto simp: pending_def bit_and_iff bit_not_iff bit_opt_bit dest: bit_imp_le_length)

lemma pending_request: "pending (w OR opt_bit k) = insert (opt_index k) (pending w)"
  by (auto simp: pending_def bit_or_iff bit_opt_bit)

lemma pending_empty: "pending w = {} \<longleftrightarrow> w = 0"
  by (auto simp: pending_def intro: bit_eqI)

lemma ack_option_simps:
  "pending (cfg_set_bits (ld_livox_config (ack_option k d))) = pending (cfg_set_bits (ld_livox_config d)) - {opt_index k}"
  "ld_connect_state (ack_option k d) =
     (if pending (cfg_set_bits (ld_livox_config d)) \<subseteq> {opt_index k} then kConnectStateSampling else ld_connect_state d)"
proof -
  let ?w = "cfg_set_bits (ld_livox_config d)"
  have "?w AND NOT (opt_bit k) = 0 \<longleftrightarrow> pending ?w \<subseteq> {opt_index k}"
    by (simp add: pending_ack flip: pending_empty)
  then show "pending (cfg_set_bits (ld_livox_config (ack_option k d))) = pending ?w - {opt_index k}"
    "ld_connect_state (ack_option k d) =
       (if pending ?w \<subseteq> {opt_index k} then kConnectStateSampling else ld_connect_state d)"
    by (auto simp: ack_option_def Let_def pending_ack)
qed

lemma ack_all:
  "pending (cfg_set_bits (ld_livox_config (fold ack_option ks d)))
     = pending (cfg_set_bits (ld_livox_config d)) - opt_index ` set ks"
  "ks \<noteq> [] \<Longrightarrow> ld_connect_state d \<noteq> kConnectStateSampling \<Longrightarrow>
   ld_connect_state (fold ack_option ks d) = kConnectStateSampling \<longleftrightarrow>
     pending (cfg_set_bits (ld_livox_config d)) \<subseteq> opt_index ` set ks"
proof (induction ks rule: rev_induct)
  case (snoc k ks)
  {
    case 1
    show ?case using snoc(1) by (auto simp: ack_option_simps)
  next
    case 2
    show ?case
    proof (cases "ks = []")
      case False
      with snoc 2 show ?thesis by (auto simp: ack_option_simps)
    qed (use 2 in \<open>auto simp: ack_option_simps\<close>)
  }
qed simp_all

lemma requested_bits:
  assumes "fold (request_option h) all_options ([], c) = (reqs, c')"
  shows "pending (cfg_set_bits c') = pending (cfg_set_bits c) \<union> opt_index ` {k. opt_value k c \<noteq> - 1}
    \<and> reqs = map (\<lambda>k. opt_request k h c) (filter (\<lambda>k. opt_value k c \<noteq> - 1) all_options)
    \<and> c' = c\<lparr>cfg_set_bits := cfg_set_bits c'\<rparr>"
proof -
  have step: "\<exists>rs. fold (request_option h) ks (reqs0, c0) = (reqs0 @ map (\<lambda>k. opt_request k h c) (filter (\<lambda>k. opt_value k c \<noteq> - 1) ks),
        c0\<lparr>cfg_set_bits := rs\<rparr>) \<and> pending rs = pending (cfg_set_bits c0) \<union> opt_index ` set (filter (\<lambda>k. opt_value k c \<noteq> - 1) ks)"
    if "c0 = c\<lparr>cfg_set_bits := w\<rparr>" for ks reqs0 c0 w
    using that
  proof (induction ks arbitrary: reqs0 c0 w)
    case Nil
    then show ?case by (intro exI [of _ w]) simp
  next
    case (Cons k ks)
    have same: "opt_value k c0 = opt_value k c" "opt_request k h c0 = opt_request k h c"
      using Cons.prems by (cases k; simp)+
    show ?case
    proof (cases "opt_value k c = - 1")
      case True
      with Cons.IH [OF Cons.prems, of reqs0] same show ?thesis by (simp add: request_option_def)
    next
      case False
      have c1: "c0\<lparr>cfg_set_bits := cfg_set_bits c0 OR opt_bit k\<rparr> = c\<lparr>cfg_set_bits := w OR opt_bit k\<rparr>"
        using Cons.prems by simp
      from Cons.IH [OF c1, of "reqs0 @ [opt_request k h c]"] False same Cons.prems show ?thesis
        by (auto simp: request_option_def pending_request)
    qed
  qed
  obtain w where "cfg_set_bits c = w" by blast
  then have "c = c\<lparr>cfg_set_bits := w\<rparr>" by simp
  from step [OF this, of "all_options" "[]"] assms show ?thesis
    unfolding all_opts by auto
qed

section \<open>Answers\<close>

text \<open>The SDK's answers to requests, in the order in which their callbacks run: the option, the status, the device's
  handle and whether there is a response. The callbacks change a device under the lock, so they do not overlap.\<close>

type_synonym answer = "opt \<times> status \<times> u32 \<times> bool"

fun run_answers :: "answer list \<Rightarrow> Lds option \<Rightarrow> (request list \<times> Lds option) exec" where
  "run_answers [] client_data = Ret ([], client_data)"
| "run_answers ((k, st, handle, have_response) # answers) client_data =
     bind_exec (SetOptionCallback k st handle have_response client_data) (\<lambda>(r, client_data).
     bind_exec (run_answers answers client_data) (\<lambda>(rs, client_data). Ret (r @ rs, client_data)))"

text \<open>The requests a sequence of answers repeats, and the options it acknowledges for the device in slot \<open>j\<close>.\<close>

definition retried :: "Lds \<Rightarrow> answer list \<Rightarrow> request list" where
  "retried s answers = concat (map (\<lambda>(k, st, h, _).
     case GetLidarDevice h (Some s) of
       Some j \<Rightarrow> if st = Timeout then [opt_request k h (ld_livox_config (lds_lidars s ! j))] else []
     | None \<Rightarrow> []) answers)"

definition acked :: "Lds \<Rightarrow> nat \<Rightarrow> answer list \<Rightarrow> opt list" where
  "acked s j answers =
     map fst (filter (\<lambda>(k, st, h, _). st = Success \<and> GetLidarDevice h (Some s) = Some j) answers)"

lemma GetLidarDevice_slot:
  "ci_inv (lds_cache_index s) \<Longrightarrow> GetLidarDevice h (Some s) = slot_of (lds_cache_index s) h"
  using ci_slot_bound [of "lds_cache_index s" h]
  by (auto simp: GetLidarDevice_def GetIndex_slot_of unat_of_nat_u8 split: option.split)

lemma GetLidarDevice_same:
  "lds_cache_index s' = lds_cache_index s \<Longrightarrow> GetLidarDevice h (Some s') = GetLidarDevice h (Some s)"
  by (simp add: GetLidarDevice_def)

lemma opt_request_ack: "opt_request k h (ld_livox_config (ack_option k' d)) = opt_request k h (ld_livox_config d)"
  by (cases k) (simp_all add: ack_option_def Let_def)

lemma retried_same:
  assumes "i < length (lds_lidars s)"
  shows "retried (set_lidar i (ack_option k (lds_lidars s ! i)) s) answers = retried s answers"
proof -
  let ?s = "set_lidar i (ack_option k (lds_lidars s ! i)) s"
  have "GetLidarDevice h (Some ?s) = GetLidarDevice h (Some s)" for h by (rule GetLidarDevice_same) (simp add: set_lidar_def)
  moreover have "opt_request k' h (ld_livox_config (lds_lidars ?s ! j)) = opt_request k' h (ld_livox_config (lds_lidars s ! j))" for k' h j
    using assms by (cases "j = i") (simp_all add: set_lidar_def opt_request_ack)
  ultimately show ?thesis by (simp only: retried_def)
qed

text \<open>A sequence of answers folds the acknowledgements of each device into it and repeats what timed out.\<close>

lemma run_answers_devices:
  assumes "ci_inv (lds_cache_index s)" and "length (lds_lidars s) = kMaxSourceLidar"
    and "\<forall>(k, st, h, resp) \<in> set answers. st = OtherStatus \<longrightarrow> resp"
  shows "\<exists>s'. run_answers answers (Some s) = Ret (retried s answers, Some s')
    \<and> (\<forall>j < kMaxSourceLidar. lds_lidars s' ! j = fold ack_option (acked s j answers) (lds_lidars s ! j))"
  using assms
proof (induction answers arbitrary: s)
  case Nil
  then show ?case by (simp add: retried_def acked_def)
next
  case (Cons a answers)
  obtain k st h resp where a: "a = (k, st, h, resp)" by (cases a)
  have ok: "\<forall>(k, st, h, resp) \<in> set answers. st = OtherStatus \<longrightarrow> resp" "st = OtherStatus \<Longrightarrow> resp"
    using Cons.prems(3) by (auto simp: a)
  obtain s2 where s2: "run_answers answers (Some s) = Ret (retried s answers, Some s2)"
    "\<forall>j < kMaxSourceLidar. lds_lidars s2 ! j = fold ack_option (acked s j answers) (lds_lidars s ! j)"
    using Cons.IH [OF Cons.prems(1,2) ok(1)] by blast
  show ?case
  proof (cases "GetLidarDevice h (Some s)")
    case None
    then show ?thesis using s2 by (intro exI [of _ s2]) (simp add: a SetOptionCallback_def retried_def acked_def)
  next
    case (Some i)
    have i: "i < length (lds_lidars s)"
      using Some GetLidarDevice_slot [OF Cons.prems(1)] ci_slot_bound [OF Cons.prems(1)] Cons.prems(2) by simp
    show ?thesis
    proof (cases st)
      case Success
      let ?s = "set_lidar i (ack_option k (lds_lidars s ! i)) s"
      have c: "lds_cache_index ?s = lds_cache_index s" "length (lds_lidars ?s) = length (lds_lidars s)"
        by (simp_all add: set_lidar_def)
      obtain s3 where s3: "run_answers answers (Some ?s) = Ret (retried ?s answers, Some s3)"
        "\<forall>j < kMaxSourceLidar. lds_lidars s3 ! j = fold ack_option (acked ?s j answers) (lds_lidars ?s ! j)"
        using Cons.IH [of ?s] Cons.prems(1,2) ok(1) c by auto
      have "acked ?s j answers = acked s j answers" for j
        using GetLidarDevice_same [OF c(1)] by (simp add: acked_def)
      then have "\<forall>j < kMaxSourceLidar. lds_lidars s3 ! j = fold ack_option (acked s j (a # answers)) (lds_lidars s ! j)"
        using s3(2) i Some Success by (auto simp: a acked_def set_lidar_def nth_list_update)
      moreover have "run_answers (a # answers) (Some s) = Ret (retried s (a # answers), Some s3)"
        using Some i Success s3(1) retried_same [OF i, of k answers]
        by (simp add: a SetOptionCallback_def Let_def) (simp add: retried_def Some)
      ultimately show ?thesis by blast
    next
      case Timeout
      then show ?thesis using s2 Some i
        by (intro exI [of _ s2]) (simp add: a SetOptionCallback_def Let_def retried_def acked_def)
    next
      case OtherStatus
      then show ?thesis using s2 Some i ok(2)
        by (intro exI [of _ s2]) (simp add: a SetOptionCallback_def Let_def retried_def acked_def)
    qed
  qed
qed

section \<open>When a device starts to sample\<close>

text \<open>C39: A configured LiDAR starts to sample exactly when the SDK has reported success for every option that its
  configuration sets. Let the device be off when it is announced, with no bit set. Then the announcement requests each
  of these options; and after any sequence of answers of the SDK, to requests for any devices, in any order and
  multiplicity, with success, timeout or a failure that carries a response, the device samples if and only if a success
  for its own handle was among them and one for every option its configuration sets. So a timeout, a failure or the
  success of another device never counts; every answer that timed out for a known device is followed by the same
  request again, and nothing else is requested; and a device that had no success is left as it was. (With no option
  configured a stray success would be needed: the announcement alone never starts a device.)\<close>

theorem sampling_after_all_acknowledged:
  assumes "lds_inv s" and "GetLidarDevice handle (Some s) = Some i"
    and "cfg_set_bits (ld_livox_config (lds_lidars s ! i)) = 0"
    and "ld_connect_state (lds_lidars s ! i) \<noteq> kConnectStateSampling"
    and "LidarInfoChangeCallback handle (Some s) = Ret (reqs, Some s1)"
    and "\<forall>(k, st, h, resp) \<in> set answers. st = OtherStatus \<longrightarrow> resp"
  defines "wanted \<equiv> {k. opt_value k (ld_livox_config (lds_lidars s ! i)) \<noteq> - 1}"
  shows "(\<forall>k \<in> wanted. opt_request k handle (ld_livox_config (lds_lidars s ! i)) \<in> set reqs)
    \<and> (\<exists>s2. run_answers answers (Some s1) =
          Ret (concat (map (\<lambda>(k, st, h, _). case GetLidarDevice h (Some s1) of
                 Some j \<Rightarrow> if st = Timeout then [opt_request k h (ld_livox_config (lds_lidars s1 ! j))] else []
               | None \<Rightarrow> []) answers), Some s2)
        \<and> (ld_connect_state (lds_lidars s2 ! i) = kConnectStateSampling \<longleftrightarrow>
             (\<exists>k resp. (k, Success, handle, resp) \<in> set answers)
             \<and> (\<forall>k \<in> wanted. \<exists>resp. (k, Success, handle, resp) \<in> set answers))
        \<and> (\<forall>j < kMaxSourceLidar.
             (\<forall>(k, st, h, resp) \<in> set answers. st = Success \<longrightarrow> GetLidarDevice h (Some s1) \<noteq> Some j)
             \<longrightarrow> lds_lidars s2 ! j = lds_lidars s1 ! j))"
proof -
  let ?d = "lds_lidars s ! i"
  have ci: "ci_inv (lds_cache_index s)" and len: "length (lds_lidars s) = kMaxSourceLidar"
    using assms(1) by (simp_all add: lds_inv_def)
  have slot: "slot_of (lds_cache_index s) handle = Some i" using assms(2) GetLidarDevice_slot [OF ci] by simp
  have i: "i < kMaxSourceLidar" by (rule ci_slot_bound [OF ci slot])
  obtain rs c' where f: "fold (request_option handle) all_options ([], ld_livox_config ?d) = (rs, c')"
    by (metis prod.exhaust)
  note rb = requested_bits [OF f]
  have s1: "s1 = set_lidar i (?d\<lparr>ld_livox_config := c'\<rparr>) s" and reqs: "set rs \<subseteq> set reqs"
    using assms(2,5) i len by (auto simp: LidarInfoChangeCallback_def Let_def f)
  have d1: "lds_lidars s1 ! i = ?d\<lparr>ld_livox_config := c'\<rparr>" using i len by (simp add: s1 set_lidar_def)
  have c1: "lds_cache_index s1 = lds_cache_index s" "length (lds_lidars s1) = kMaxSourceLidar"
    using len by (simp_all add: s1 set_lidar_def)
  have off: "ld_connect_state (lds_lidars s1 ! i) \<noteq> kConnectStateSampling" using assms(4) by (simp add: d1)
  have "pending 0 = {}" by (simp add: pending_empty)
  then have bits: "pending (cfg_set_bits c') = opt_index ` wanted" using rb assms(3) by (simp add: wanted_def)
  have sub: "opt_index ` A \<subseteq> opt_index ` B \<longleftrightarrow> A \<subseteq> B" for A B
    using opt_index_inj by (intro inj_image_subset_iff injI) simp
  obtain s2 where run: "run_answers answers (Some s1) = Ret (retried s1 answers, Some s2)"
    and dev: "\<forall>j < kMaxSourceLidar. lds_lidars s2 ! j = fold ack_option (acked s1 j answers) (lds_lidars s1 ! j)"
    using run_answers_devices [of s1 answers] ci c1 assms(6) by auto
  have own: "GetLidarDevice h (Some s1) = Some i \<longleftrightarrow> h = handle" for h
    using GetLidarDevice_same [OF c1(1)] GetLidarDevice_slot [OF ci] ci_slot_inj [OF ci slot] slot by metis
  have acks: "k \<in> set (acked s1 i answers) \<longleftrightarrow> (\<exists>resp. (k, Success, handle, resp) \<in> set answers)" for k
    by (force simp: acked_def own)
  have samples: "ld_connect_state (lds_lidars s2 ! i) = kConnectStateSampling \<longleftrightarrow>
      (\<exists>k resp. (k, Success, handle, resp) \<in> set answers) \<and> (\<forall>k \<in> wanted. \<exists>resp. (k, Success, handle, resp) \<in> set answers)"
  proof (cases "acked s1 i answers = []")
    case True
    then have "\<not> (\<exists>k resp. (k, Success, handle, resp) \<in> set answers)" using acks by auto
    moreover have "ld_connect_state (lds_lidars s2 ! i) \<noteq> kConnectStateSampling" using dev i True off by simp
    ultimately show ?thesis by blast
  next
    case False
    then obtain k where "k \<in> set (acked s1 i answers)" by (cases "acked s1 i answers") auto
    then have some: "\<exists>k resp. (k, Success, handle, resp) \<in> set answers" using acks by blast
    have "ld_connect_state (lds_lidars s2 ! i) = kConnectStateSampling \<longleftrightarrow> wanted \<subseteq> set (acked s1 i answers)"
      using ack_all(2) [OF False off] dev i by (simp add: d1 bits sub)
    then show ?thesis using some acks by blast
  qed
  have other: "lds_lidars s2 ! j = lds_lidars s1 ! j"
    if "j < kMaxSourceLidar" "\<forall>(k, st, h, resp) \<in> set answers. st = Success \<longrightarrow> GetLidarDevice h (Some s1) \<noteq> Some j" for j
  proof -
    have "acked s1 j answers = []" using that(2) by (auto simp: acked_def filter_empty_conv)
    then show ?thesis using dev that(1) by simp
  qed
  have "\<forall>k \<in> wanted. opt_request k handle (ld_livox_config ?d) \<in> set rs"
    using rb all_opts [of "\<lambda>k. opt_value k (ld_livox_config ?d) \<noteq> - 1"] by (auto simp: wanted_def)
  with reqs run samples other show ?thesis unfolding retried_def by blast
qed

text \<open>A LiDAR that the configuration file does not list is given a slot and switched on, but its
  first announcement requests no option, so that no acknowledgement can make it sample: its
  packets are stored and never published. Its second announcement finds the slot and configures it with
  the slot's default configuration, whatever that asks for.\<close>

theorem unlisted_lidar_stays_off:
  assumes "lds_inv s" and "GetLidarDevice handle (Some s) = None"
    and "slots_used (lds_cache_index s) \<noteq> {..<kMaxSourceLidar}"
  shows "\<exists>s1 i. LidarInfoChangeCallback handle (Some s) = Ret ([SetWorkMode handle, EnableImuData handle], Some s1)
    \<and> GetLidarDevice handle (Some s1) = Some i \<and> i < kMaxSourceLidar
    \<and> ld_connect_state (lds_lidars s1 ! i) = ld_connect_state (lds_lidars s ! i)
    \<and> ld_livox_config (lds_lidars s1 ! i) = ld_livox_config (lds_lidars s ! i)
    \<and> (\<exists>more s2. LidarInfoChangeCallback handle (Some s1) = Ret (more, Some s2)
         \<and> SetInstallAttitude (cfg_handle (ld_livox_config (lds_lidars s ! i)))
             (cfg_extrinsic_param (ld_livox_config (lds_lidars s ! i))) \<in> set more)"
proof -
  let ?c = "lds_cache_index s"
  have ci: "ci_inv ?c" and len: "length (lds_lidars s) = kMaxSourceLidar"
    using assms(1) by (simp_all add: lds_inv_def)
  have none: "slot_of ?c handle = None"
    using assms(2) by (auto simp: GetLidarDevice_def GetIndex_slot_of split: option.splits)
  from GetFreeIndex_new [OF ci none assms(3), of 0] obtain i c' where
    g: "GetFreeIndex kLivoxLidarType handle 0 ?c = (0, of_nat i, c')" "i < kMaxSourceLidar"
      "\<And>h'. slot_of c' h' = (if h' = handle then Some i else slot_of ?c h')" by metis
  have u: "unat (of_nat i :: u8) = i" by (rule unat_of_nat_u8 [OF g(2)])
  let ?d = "(lds_lidars s ! i)\<lparr>ld_lidar_type := kLivoxLidarType\<rparr>"
  let ?s1 = "set_lidar i ?d (s\<lparr>lds_cache_index := c'\<rparr>)"
  have r1: "LidarInfoChangeCallback handle (Some s) = Ret ([SetWorkMode handle, EnableImuData handle], Some ?s1)"
    using assms(2) g(1,2) len u by (simp add: LidarInfoChangeCallback_def Let_def)
  have dev: "GetLidarDevice handle (Some ?s1) = Some i"
    using g(3) u by (simp add: GetLidarDevice_def GetIndex_slot_of)
  obtain rs c2 where f: "fold (request_option handle) all_options
      ([], ld_livox_config ?d) = (rs, c2)" by (metis prod.exhaust)
  have c2: "cfg_handle c2 = cfg_handle (ld_livox_config ?d)"
    "cfg_extrinsic_param c2 = cfg_extrinsic_param (ld_livox_config ?d)"
    using requested_bits [OF f] by (metis UserLivoxLidarConfig.select_convs(1,6) UserLivoxLidarConfig.surjective UserLivoxLidarConfig.update_convs(7))+
  have r2: "LidarInfoChangeCallback handle (Some ?s1) =
      Ret (rs @ [SetInstallAttitude (cfg_handle c2) (cfg_extrinsic_param c2)] @ [SetWorkMode handle, EnableImuData handle],
           Some (set_lidar i (?d\<lparr>ld_livox_config := c2\<rparr>) ?s1))"
    using dev g(2) len f by (simp add: LidarInfoChangeCallback_def Let_def)
  show ?thesis
    using r1 dev g(2) len r2 c2 by (intro exI [of _ ?s1] exI [of _ i]) auto
qed

section \<open>A concrete device\<close>

definition ex_off_lds :: Lds where
  "ex_off_lds = ex_lds\<lparr>lds_lidars := replicate 32 (ex_device\<lparr>ld_connect_state := kConnectStateOff\<rparr>)\<rparr>"

lemma ex_off_lds_inv: "lds_inv ex_off_lds"
  using ex_lds_index by (simp add: lds_inv_def ex_off_lds_def ex_lds_def kMaxSourceLidar_def ex_device_def queue_ok_def)

text \<open>The device of the example sets two options. The first request times out and is repeated, a failure and a success of
  an unknown device change nothing, and the device samples after its two successes and not after the first.\<close>

theorem sampling_after_all_acknowledged_witness:
  "\<exists>i s1 s2 s3 reqs. LidarInfoChangeCallback 5 (Some ex_off_lds) = Ret (reqs, Some s1) \<and> SetPclDataType 5 1 \<in> set reqs
     \<and> run_answers [(DataType, Timeout, 5, False), (DataType, OtherStatus, 5, True), (ScanPattern, Success, 5, True)] (Some s1)
         = Ret ([SetPclDataType 5 1], Some s2)
     \<and> ld_connect_state (lds_lidars s2 ! i) \<noteq> kConnectStateSampling
     \<and> run_answers [(ScanPattern, Success, 5, True), (DataType, Success, 5, True)] (Some s1) = Ret ([], Some s3)
     \<and> ld_connect_state (lds_lidars s3 ! i) = kConnectStateSampling"
proof -
  let ?c = "lds_cache_index ex_off_lds"
  obtain i where i: "slot_of ?c 5 = Some i"
    using ex_lds_index by (auto simp: ex_off_lds_def ex_lds_def)
  have ci: "ci_inv ?c" using ex_off_lds_inv by (simp add: lds_inv_def)
  have ib: "i < kMaxSourceLidar" by (rule ci_slot_bound [OF ci i])
  have dev: "GetLidarDevice 5 (Some ex_off_lds) = Some i" using i GetLidarDevice_slot [OF ci] by simp
  have d: "lds_lidars ex_off_lds ! i = ex_device\<lparr>ld_connect_state := kConnectStateOff\<rparr>"
    and len: "i < length (lds_lidars ex_off_lds)"
    using ib by (simp_all add: ex_off_lds_def kMaxSourceLidar_def)
  obtain rs c' where f: "fold (request_option 5) all_options ([], ld_livox_config (lds_lidars ex_off_lds ! i)) = (rs, c')"
    by (metis prod.exhaust)
  obtain reqs s1 where r: "LidarInfoChangeCallback 5 (Some ex_off_lds) = Ret (reqs, Some s1)"
    and s1: "s1 = set_lidar i ((lds_lidars ex_off_lds ! i)\<lparr>ld_livox_config := c'\<rparr>) ex_off_lds"
    using dev len f by (auto simp: LidarInfoChangeCallback_def Let_def)
  have c': "cfg_pcl_data_type c' = 1"
    using requested_bits [OF f] by (metis UserLivoxLidarConfig.select_convs(2) UserLivoxLidarConfig.surjective
        UserLivoxLidarConfig.update_convs(7) LidarDevice.select_convs(7) LidarDevice.update_convs(4) d ex_device_def ex_lidar_config_def)
  have dev1: "GetLidarDevice 5 (Some s1) = Some i" "ld_livox_config (lds_lidars s1 ! i) = c'"
    using dev len GetLidarDevice_same [of s1 ex_off_lds 5] by (simp_all add: s1 set_lidar_def)
  have w: "{k. opt_value k (ld_livox_config (lds_lidars ex_off_lds ! i)) \<noteq> - 1} = {DataType, ScanPattern}"
  proof -
    have "opt_value k (ld_livox_config (lds_lidars ex_off_lds ! i)) \<noteq> - 1 \<longleftrightarrow> k = DataType \<or> k = ScanPattern" for k
      by (cases k) (simp_all add: d ex_device_def ex_lidar_config_def)
    then show ?thesis by auto
  qed
  have bits: "cfg_set_bits (ld_livox_config (lds_lidars ex_off_lds ! i)) = 0"
    and off: "ld_connect_state (lds_lidars ex_off_lds ! i) \<noteq> kConnectStateSampling"
    by (simp_all add: d ex_device_def ex_lidar_config_def)
  note main = sampling_after_all_acknowledged [OF ex_off_lds_inv dev bits off r, unfolded w]
  have "SetPclDataType 5 1 \<in> set reqs" using main [of "[]"] by (simp add: d ex_device_def ex_lidar_config_def)
  moreover obtain s2 where
    "run_answers [(DataType, Timeout, 5, False), (DataType, OtherStatus, 5, True), (ScanPattern, Success, 5, True)] (Some s1)
         = Ret ([SetPclDataType 5 1], Some s2)" "ld_connect_state (lds_lidars s2 ! i) \<noteq> kConnectStateSampling"
    using main [of "[(DataType, Timeout, 5, False), (DataType, OtherStatus, 5, True), (ScanPattern, Success, 5, True)]"] dev1 c'
    by auto
  moreover obtain s3 where
    "run_answers [(ScanPattern, Success, 5, True), (DataType, Success, 5, True)] (Some s1) = Ret ([], Some s3)"
    "ld_connect_state (lds_lidars s3 ! i) = kConnectStateSampling"
    using main [of "[(ScanPattern, Success, 5, True), (DataType, Success, 5, True)]"] dev1 by auto
  ultimately show ?thesis using r by blast
qed

theorem unlisted_lidar_stays_off_witness:
  "\<exists>s1 i. LidarInfoChangeCallback 9 (Some (ex_off_lds\<lparr>lds_cache_index := new_CacheIndex\<rparr>)) =
      Ret ([SetWorkMode 9, EnableImuData 9], Some s1)
    \<and> ld_connect_state (lds_lidars s1 ! i) = kConnectStateOff"
proof -
  let ?s = "ex_off_lds\<lparr>lds_cache_index := new_CacheIndex\<rparr>"
  have "lds_inv ?s" using ex_off_lds_inv ci_inv_new by (simp add: lds_inv_def)
  moreover have "GetLidarDevice 9 (Some ?s) = None"
    by (simp add: GetLidarDevice_def GetIndex_slot_of slot_of_def new_CacheIndex_def)
  moreover have "slots_used (lds_cache_index ?s) \<noteq> {..<kMaxSourceLidar}"
  proof -
    have "slots_used new_CacheIndex = {}" by (auto simp: slots_used_def new_CacheIndex_def)
    moreover have "(0 :: nat) \<in> {..<kMaxSourceLidar}" by (simp add: kMaxSourceLidar_def)
    ultimately show ?thesis by auto
  qed
  ultimately obtain s1 i where
    "LidarInfoChangeCallback 9 (Some ?s) = Ret ([SetWorkMode 9, EnableImuData 9], Some s1)" "i < kMaxSourceLidar"
    "ld_connect_state (lds_lidars s1 ! i) = ld_connect_state (lds_lidars ?s ! i)"
    using unlisted_lidar_stays_off [of ?s 9] by metis
  moreover from this(2) have "ld_connect_state (lds_lidars ?s ! i) = kConnectStateOff"
    by (simp add: ex_off_lds_def kMaxSourceLidar_def)
  ultimately show ?thesis by metis
qed

end
