(* ===== verification/Voxel_Plane.thy ===== *)
theory Voxel_Plane
  imports Dense
begin

text \<open>
  The measurement model and the plane fit of the voxel map: \<open>calcBodyCov\<close> and
  \<open>VoxelOctoTree::init_plane\<close> of \<^verbatim>\<open>fast_livo/src/voxel_map.cpp\<close> with the records of
  \<^verbatim>\<open>fast_livo/include/voxel_map.h\<close> and \<^verbatim>\<open>fast_livo/include/common_lib.h\<close>. Numbers are reals. Parameters:
  the macro \<open>DEG2RAD\<close> of PCL and \<open>Eigen::EigenSolver\<close>, a function from a matrix to the real parts of its
  eigenvalues and of its matrix of eigenvectors (the eigenvectors are the columns). Left out: \<open>id_\<close> with the
  global counter behind it, which only numbers the markers of the visualisation.
\<close>

section \<open>Vector algebra\<close>

definition m3_col :: "nat \<Rightarrow> mat3 \<Rightarrow> vec3" where
  "m3_col k m = (m3_at m 0 k, m3_at m 1 k, m3_at m 2 k)"

lemma v3_dot_commute: "v3_dot u v = v3_dot v u"
  by (cases u; cases v) (simp add: mult.commute)

lemma v3_dot_scale [simp]: "v3_dot (v3_scale k u) v = k * v3_dot u v" "v3_dot u (v3_scale k v) = k * v3_dot u v"
  by (cases u; cases v; simp add: algebra_simps)+

lemma v3_dot_add: "v3_dot (v3_add u v) w = v3_dot u w + v3_dot v w" "v3_dot w (v3_add u v) = v3_dot w u + v3_dot w v"
  by (cases u; cases v; cases w; simp add: algebra_simps)+

lemma v3_dot_sub: "v3_dot (v3_sub u v) w = v3_dot u w - v3_dot v w" "v3_dot w (v3_sub u v) = v3_dot w u - v3_dot w v"
  by (cases u; cases v; cases w; simp add: algebra_simps)+

lemma v3_dot_zero [simp]: "v3_dot u v3_zero = 0" "v3_dot v3_zero u = 0"
  by (cases u; simp add: v3_zero_def)+

lemma v3_dot_pos: "u \<noteq> v3_zero \<Longrightarrow> 0 < v3_dot u u"
proof -
  assume u: "u \<noteq> v3_zero"
  obtain a b c where e: "u = (a, b, c)" by (cases u) auto
  have "0 < a * a + b * b + c * c"
    using u unfolding e v3_zero_def by (auto simp: add_pos_nonneg add_nonneg_pos zero_less_mult_iff linorder_neq_iff)
  then show ?thesis by (simp add: e)
qed

lemma v3_norm_sq: "(v3_norm v)\<^sup>2 = v3_dot v v"
  by (simp add: v3_norm_def)

lemma v3_normalize_unit: "v \<noteq> v3_zero \<Longrightarrow> v3_dot (v3_normalize v) (v3_normalize v) = 1"
  using v3_dot_pos [of v] v3_norm_sq [of v]
  by (simp add: v3_normalize_def sq_norm_def power2_eq_square)

lemma v3_scale_normalize: "v3_scale (v3_norm v) (v3_normalize v) = v"
proof (cases "v = v3_zero")
  case True
  then show ?thesis by (simp add: v3_normalize_def sq_norm_def v3_norm_def v3_zero_def)
next
  case False
  then have "v3_norm v \<noteq> 0" using v3_dot_pos [of v] by (simp add: v3_norm_def)
  then show ?thesis using v3_dot_pos [OF False] by (cases v) (simp add: v3_normalize_def sq_norm_def)
qed

lemma v3_cross_orth [simp]: "v3_dot u (v3_cross u v) = 0" "v3_dot v (v3_cross u v) = 0"
    "v3_dot (v3_cross u v) u = 0" "v3_dot (v3_cross u v) v = 0"
  by (cases u; cases v; simp add: algebra_simps)+

lemma v3_cross_norm: "v3_dot (v3_cross u v) (v3_cross u v) = v3_dot u u * v3_dot v v - (v3_dot u v)\<^sup>2"
  by (cases u; cases v) (simp add: algebra_simps power2_eq_square)

lemma v3_double_cross: "v3_cross u (v3_cross u v) = v3_sub (v3_scale (v3_dot u v) u) (v3_scale (v3_dot u u) v)"
  by (cases u; cases v) (simp add: algebra_simps)

lemma v3_cross_swap: "v3_cross u v = v3_scale (- 1) (v3_cross v u)"
  by (cases u; cases v) simp

lemma skew_sym_apply: "m3_apply (skew_sym u) v = v3_cross u v"
  by (cases u; cases v) simp

lemma v3_outer_neg: "v3_outer (v3_scale (- 1) u) (v3_scale (- 1) u) = v3_outer u u"
  by (cases u) simp

lemma v3_outer_scale: "v3_outer (v3_scale k u) (v3_scale k u) = m3_scale (k\<^sup>2) (v3_outer u u)"
  by (cases u) (simp add: power2_eq_square algebra_simps)

lemma m3_quad_outer: "m3_quad (v3_outer u u) v = (v3_dot u v)\<^sup>2"
  by (cases u; cases v) (simp add: power2_eq_square algebra_simps)

text \<open>Two orthogonal unit vectors and their cross product resolve the identity.\<close>

lemma frame_complete:
  assumes "v3_dot u u = 1" and "v3_dot v v = 1" and "v3_dot u v = 0"
  shows "m3_add (v3_outer u u) (m3_add (v3_outer (v3_cross u v) (v3_cross u v)) (v3_outer v v)) = m3_one"
proof -
  obtain a b c where u: "u = (a, b, c)" by (cases u) auto
  obtain x y z where v: "v = (x, y, z)" by (cases v) auto
  have n: "a * a + b * b + c * c = 1" "x * x + y * y + z * z = 1" "a * x + b * y + c * z = 0"
    using assms by (simp_all add: u v)
  have diag: "a * a + ((b * z - c * y) * (b * z - c * y) + x * x) = 1"
      "b * b + ((c * x - a * z) * (c * x - a * z) + y * y) = 1"
      "c * c + ((a * y - b * x) * (a * y - b * x) + z * z) = 1"
    using n by algebra+
  have off: "a * b + ((b * z - c * y) * (c * x - a * z) + x * y) = 0"
      "a * c + ((b * z - c * y) * (a * y - b * x) + x * z) = 0"
      "b * c + ((c * x - a * z) * (a * y - b * x) + y * z) = 0"
    using n by algebra+
  show ?thesis using diag off by (simp add: u v m3_one_def m3_diag_def mult.commute)
qed

section \<open>Covariance of a LiDAR point\<close>

text \<open>\<open>calcBodyCov\<close> writes through its reference argument \<open>pb\<close>, so the model returns it too. The products with
  the 3x2 matrix \<open>N\<close> are written column by column.\<close>

definition calcBodyCov :: "(real \<Rightarrow> real) \<Rightarrow> vec3 \<Rightarrow> real \<Rightarrow> real \<Rightarrow> vec3 \<times> mat3" where
  "calcBodyCov deg2rad pb0 range_inc degree_inc =
     (let pb = (if v3_at pb0 2 = 0 then (v3_at pb0 0, v3_at pb0 1, 1 / 10000) else pb0);
          rng = v3_norm pb;
          range_var = range_inc * range_inc;
          direction_var = (sin (deg2rad degree_inc))\<^sup>2;
          direction = v3_normalize pb;
          direction_hat = skew_sym direction;
          base_vector1 = v3_normalize (1, 1, - (v3_at direction 0 + v3_at direction 1) / v3_at direction 2);
          base_vector2 = v3_normalize (v3_cross base_vector1 direction);
          a1 = v3_scale rng (m3_apply direction_hat base_vector1);
          a2 = v3_scale rng (m3_apply direction_hat base_vector2)
      in (pb, m3_add (m3_scale range_var (v3_outer direction direction))
                (m3_add (m3_scale direction_var (v3_outer a1 a1)) (m3_scale direction_var (v3_outer a2 a2)))))"

text \<open>What the routine computes: the range variance along the ray, and the squared range times the bearing
  variance in every direction across it.\<close>

definition ray_covariance :: "vec3 \<Rightarrow> real \<Rightarrow> real \<Rightarrow> mat3" where
  "ray_covariance p range_var bearing_var =
     (let d = v3_normalize p
      in m3_add (m3_scale range_var (v3_outer d d))
           (m3_scale ((v3_norm p)\<^sup>2 * bearing_var) (m3_add m3_one (m3_scale (- 1) (v3_outer d d)))))"

lemma m3_add_swap: "m3_add a (m3_add b c) = m3_one \<Longrightarrow> m3_add b c = m3_add m3_one (m3_scale (- 1) a)"
proof -
  assume h: "m3_add a (m3_add b c) = m3_one"
  have "m3_add b c = m3_add (m3_add a (m3_add b c)) (m3_scale (- 1) a)"
  proof -
    obtain a1 a2 a3 a4 a5 a6 a7 a8 a9 where a: "a = ((a1, a2, a3), (a4, a5, a6), (a7, a8, a9))" by (metis prod.exhaust)
    obtain b1 b2 b3 b4 b5 b6 b7 b8 b9 where b: "b = ((b1, b2, b3), (b4, b5, b6), (b7, b8, b9))" by (metis prod.exhaust)
    obtain c1 c2 c3 c4 c5 c6 c7 c8 c9 where c: "c = ((c1, c2, c3), (c4, c5, c6), (c7, c8, c9))" by (metis prod.exhaust)
    show ?thesis by (simp add: a b c)
  qed
  then show ?thesis unfolding h .
qed

lemma m3_scale_add: "m3_add (m3_scale k a) (m3_scale k b) = m3_scale k (m3_add a b)"
proof -
  obtain a1 a2 a3 a4 a5 a6 a7 a8 a9 where a: "a = ((a1, a2, a3), (a4, a5, a6), (a7, a8, a9))" by (metis prod.exhaust)
  obtain b1 b2 b3 b4 b5 b6 b7 b8 b9 where b: "b = ((b1, b2, b3), (b4, b5, b6), (b7, b8, b9))" by (metis prod.exhaust)
  show ?thesis by (simp add: a b algebra_simps)
qed

lemma m3_scale_scale: "m3_scale k (m3_scale l a) = m3_scale (k * l) a"
proof -
  obtain a1 a2 a3 a4 a5 a6 a7 a8 a9 where a: "a = ((a1, a2, a3), (a4, a5, a6), (a7, a8, a9))" by (metis prod.exhaust)
  show ?thesis by (simp add: a algebra_simps)
qed

text \<open>Whatever the direction of the ray, \<open>calcBodyCov\<close> computes the closed form: the auxiliary base vectors
  across the ray, whose construction divides by the z component, do not influence the result, and a point with
  z = 0 is treated as one slightly above it.\<close>

theorem body_covariance_closed_form:
  "\<exists>p. calcBodyCov deg2rad pb range_inc degree_inc =
         (p, ray_covariance p (range_inc\<^sup>2) ((sin (deg2rad degree_inc))\<^sup>2))
       \<and> p = (if v3_at pb 2 = 0 then (v3_at pb 0, v3_at pb 1, 1 / 10000) else pb)"
proof -
  define p where "p = (if v3_at pb 2 = 0 then (v3_at pb 0, v3_at pb 1, 1 / 10000) else pb)"
  have pz: "v3_at p 2 \<noteq> 0" by (simp add: p_def)
  then have p0: "p \<noteq> v3_zero" by (auto simp: v3_zero_def)
  define d where "d = v3_normalize p"
  have dd: "v3_dot d d = 1" using v3_normalize_unit [OF p0] by (simp add: d_def)
  have dz: "v3_at d 2 \<noteq> 0"
    using pz v3_dot_pos [OF p0] by (cases p) (simp add: d_def v3_normalize_def sq_norm_def v3_norm_def)
  define w where "w = (1 :: real, 1 :: real, - (v3_at d 0 + v3_at d 1) / v3_at d 2)"
  define b where "b = v3_normalize w"
  have w0: "w \<noteq> v3_zero" by (simp add: w_def v3_zero_def)
  have bb: "v3_dot b b = 1" using v3_normalize_unit [OF w0] by (simp add: b_def)
  have "v3_dot d w = 0" using dz by (cases d) (simp add: w_def)
  then have db: "v3_dot d b = 0" by (simp add: b_def v3_normalize_def)
  have cn: "v3_dot (v3_cross b d) (v3_cross b d) = 1"
    by (simp add: v3_cross_norm bb dd db v3_dot_commute [of b d])
  have n1: "v3_normalize (v3_cross b d) = v3_cross b d"
    using cn by (cases "v3_cross b d") (simp add: v3_normalize_def sq_norm_def v3_norm_def)
  have c2: "v3_cross d (v3_cross b d) = b"
  proof -
    have "v3_cross d (v3_cross b d) = v3_scale (- 1) (v3_cross d (v3_cross d b))"
      unfolding v3_cross_swap [of b d] by (cases d; cases b) (simp add: algebra_simps)
    also have "\<dots> = b" by (simp add: v3_double_cross dd db) (cases b; cases d; simp)
    finally show ?thesis .
  qed
  let ?s = "(sin (deg2rad degree_inc))\<^sup>2" and ?r = "v3_norm p"
  have tail: "m3_add (m3_scale ?s (v3_outer (v3_scale ?r (v3_cross d b)) (v3_scale ?r (v3_cross d b))))
      (m3_scale ?s (v3_outer (v3_scale ?r b) (v3_scale ?r b)))
    = m3_scale (?r\<^sup>2 * ?s) (m3_add m3_one (m3_scale (- 1) (v3_outer d d)))"
    by (simp add: v3_outer_scale m3_scale_scale m3_scale_add m3_add_swap [OF frame_complete [OF dd bb db]] mult.commute)
  have "calcBodyCov deg2rad pb range_inc degree_inc =
      (p, m3_add (m3_scale (range_inc\<^sup>2) (v3_outer d d))
        (m3_add (m3_scale ?s (v3_outer (v3_scale ?r (v3_cross d b)) (v3_scale ?r (v3_cross d b))))
           (m3_scale ?s (v3_outer (v3_scale ?r b) (v3_scale ?r b)))))"
    unfolding calcBodyCov_def Let_def p_def [symmetric] d_def [symmetric] w_def [symmetric] b_def [symmetric]
    by (simp add: n1 c2 skew_sym_apply power2_eq_square)
  then show ?thesis unfolding tail p_def [symmetric] by (simp add: ray_covariance_def Let_def d_def)
qed

lemma ray_covariance_psd: "0 \<le> rv \<Longrightarrow> 0 \<le> bv \<Longrightarrow> p \<noteq> v3_zero \<Longrightarrow> 0 \<le> m3_quad (ray_covariance p rv bv) v"
proof -
  assume h: "0 \<le> rv" "0 \<le> bv" "p \<noteq> v3_zero"
  let ?d = "v3_normalize p"
  have cs: "(v3_dot ?d v)\<^sup>2 \<le> v3_dot v v"
    using v3_cross_norm [of ?d v] v3_normalize_unit [OF h(3)] v3_dot_self_nonneg [of "v3_cross ?d v"] by simp
  have "m3_quad m3_one v = v3_dot v v" by simp
  then have "m3_quad (ray_covariance p rv bv) v
      = rv * (v3_dot ?d v)\<^sup>2 + (v3_norm p)\<^sup>2 * bv * (v3_dot v v - (v3_dot ?d v)\<^sup>2)"
    by (simp add: ray_covariance_def Let_def m3_quad_add m3_quad_scale m3_quad_outer del: m3_quad.simps)
  then show ?thesis using h cs by (simp del: m3_quad.simps)
qed

section \<open>Plane fit\<close>

record pointWithVar =
  point_b :: vec3
  point_i :: vec3
  point_w :: vec3
  var_nostate :: mat3
  body_var :: mat3
  pv_var :: mat3
  point_crossmat :: mat3
  pv_normal :: vec3

definition new_pointWithVar :: pointWithVar where
  "new_pointWithVar = \<lparr>point_b = v3_zero, point_i = v3_zero, point_w = v3_zero, var_nostate = m3_zero,
     body_var = m3_zero, pv_var = m3_zero, point_crossmat = m3_zero, pv_normal = v3_zero\<rparr>"

text \<open>\<open>vp_plane_var\<close> is the 6x6 covariance of normal and centre, \<open>None\<close> when its computation divided by zero
  and its entries are not finite; \<open>vp_x_normal\<close> and \<open>vp_y_normal\<close> are \<open>None\<close> until first written, since the
  constructor does not set them.\<close>

record VoxelPlane =
  vp_center :: vec3
  vp_normal :: vec3
  vp_y_normal :: "vec3 option"
  vp_x_normal :: "vec3 option"
  vp_covariance :: mat3
  vp_plane_var :: "mat option"
  vp_radius :: real
  vp_min_eigen_value :: real
  vp_mid_eigen_value :: real
  vp_max_eigen_value :: real
  vp_d :: real
  vp_points_size :: nat
  vp_is_plane :: bool
  vp_is_init :: bool
  vp_is_update :: bool

definition new_VoxelPlane :: VoxelPlane where
  "new_VoxelPlane = \<lparr>vp_center = v3_zero, vp_normal = v3_zero, vp_y_normal = None, vp_x_normal = None,
     vp_covariance = m3_zero, vp_plane_var = Some mzero, vp_radius = 0, vp_min_eigen_value = 1,
     vp_mid_eigen_value = 1, vp_max_eigen_value = 1, vp_d = 0, vp_points_size = 0, vp_is_plane = False,
     vp_is_init = False, vp_is_update = False\<rparr>"

type_synonym eigen_solver = "mat3 \<Rightarrow> vec3 \<times> mat3"

text \<open>Eigen's \<open>minCoeff(&i)\<close> and \<open>maxCoeff(&i)\<close> give the first index of the extremum.\<close>

definition min_index :: "vec3 \<Rightarrow> nat" where
  "min_index v = (if v3_at v 1 < v3_at v 0 then (if v3_at v 2 < v3_at v 1 then 2 else 1)
                  else (if v3_at v 2 < v3_at v 0 then 2 else 0))"

definition max_index :: "vec3 \<Rightarrow> nat" where
  "max_index v = (if v3_at v 1 > v3_at v 0 then (if v3_at v 2 > v3_at v 1 then 2 else 1)
                  else (if v3_at v 2 > v3_at v 0 then 2 else 0))"

text \<open>The sums of the first loop, and centre and covariance from them.\<close>

definition plane_moments :: "pointWithVar list \<Rightarrow> mat3 \<times> vec3" where
  "plane_moments points =
     foldl (\<lambda>s pv. (m3_add (fst s) (v3_outer (point_w pv) (point_w pv)), v3_add (snd s) (point_w pv)))
       (m3_zero, v3_zero) points"

definition plane_center :: "pointWithVar list \<Rightarrow> vec3" where
  "plane_center points = v3_scale (1 / real (length points)) (snd (plane_moments points))"

definition plane_covariance :: "pointWithVar list \<Rightarrow> mat3" where
  "plane_covariance points =
     m3_add (m3_scale (1 / real (length points)) (fst (plane_moments points)))
       (m3_neg (v3_outer (plane_center points) (plane_center points)))"

text \<open>A row of \<open>F\<close>, the Jacobian of one point, and the sum over the points.\<close>

definition F_row :: "nat \<Rightarrow> vec3 \<Rightarrow> mat3 \<Rightarrow> vec3 \<Rightarrow> nat \<Rightarrow> nat \<Rightarrow> vec3" where
  "F_row n evals evecs q mn m =
     (if m \<noteq> mn
      then m3_apply
        (m3_transpose (m3_add (v3_outer (m3_col m evecs) (m3_col mn evecs)) (v3_outer (m3_col mn evecs) (m3_col m evecs))))
        (v3_scale (1 / (real n * (v3_at evals mn - v3_at evals m))) q)
      else v3_zero)"

definition plane_jacobian :: "nat \<Rightarrow> vec3 \<Rightarrow> mat3 \<Rightarrow> nat \<Rightarrow> vec3 \<Rightarrow> mat" where
  "plane_jacobian n evals evecs mn q =
     (let F = (F_row n evals evecs q mn 0, F_row n evals evecs q mn 1, F_row n evals evecs q mn 2)
      in set_block3 3 0 (m3_diag (1 / real n) (1 / real n) (1 / real n)) (set_block3 0 0 (m3_mult evecs F) mzero))"

definition plane_variance :: "pointWithVar list \<Rightarrow> vec3 \<Rightarrow> vec3 \<Rightarrow> mat3 \<Rightarrow> nat \<Rightarrow> mat" where
  "plane_variance points center evals evecs mn =
     foldl (\<lambda>acc pv. let J = plane_jacobian (length points) evals evecs mn (v3_sub (point_w pv) center)
              in madd acc (mmul 3 (mmul 3 J (m3_at (pv_var pv))) (mtrans J)))
       mzero points"

text \<open>\<open>init_plane\<close>. Without points the centre is a NaN; no caller passes an empty vector. When the eigenvalues are
  all equal, the first minimum and the first maximum have the same index 0, \<open>evalsMid\<close> is 3 and the code
  reads a fourth column. \<open>id_\<close> is left out.\<close>

definition init_plane :: "eigen_solver \<Rightarrow> real \<Rightarrow> pointWithVar list \<Rightarrow> VoxelPlane \<Rightarrow> VoxelPlane exec" where
  "init_plane es planer_threshold points plane0 =
     (let n = length points;
          center = plane_center points;
          covariance = plane_covariance points;
          plane = plane0\<lparr>vp_plane_var := Some mzero, vp_covariance := covariance, vp_center := center,
                    vp_normal := v3_zero, vp_points_size := n, vp_radius := 0\<rparr>;
          evals = fst (es covariance);
          evecs = snd (es covariance);
          evalsMin = min_index evals;
          evalsMax = max_index evals;
          evalsMid = 3 - evalsMin - evalsMax
      in if n = 0 \<or> evalsMid > 2 then Undef
         else if v3_at evals evalsMin < planer_threshold
         then let normal = m3_col evalsMin evecs
              in Ret (plane\<lparr>vp_plane_var :=
                     (if \<exists>m \<in> {0, 1, 2}. m \<noteq> evalsMin \<and> v3_at evals m = v3_at evals evalsMin then None
                      else Some (plane_variance points center evals evecs evalsMin)),
                   vp_normal := normal,
                   vp_y_normal := Some (m3_col evalsMid evecs),
                   vp_x_normal := Some (m3_col evalsMax evecs),
                   vp_min_eigen_value := v3_at evals evalsMin,
                   vp_mid_eigen_value := v3_at evals evalsMid,
                   vp_max_eigen_value := v3_at evals evalsMax,
                   vp_radius := sqrt (v3_at evals evalsMax),
                   vp_d := - (v3_at normal 0 * v3_at center 0 + v3_at normal 1 * v3_at center 1
                              + v3_at normal 2 * v3_at center 2),
                   vp_is_plane := True, vp_is_update := True, vp_is_init := True\<rparr>)
         else Ret (plane\<lparr>vp_is_update := True, vp_is_plane := False\<rparr>))"

section \<open>The fitted plane\<close>

lemma m3_quad_neg: "m3_quad (m3_neg m) v = - m3_quad m v"
proof -
  obtain a b c d e f g h i where m: "m = ((a, b, c), (d, e, f), (g, h, i))" by (metis prod.exhaust)
  show ?thesis by (cases v) (simp add: m algebra_simps)
qed

lemma m3_quad_zero [simp]: "m3_quad m3_zero v = 0"
  by (cases v) (simp add: m3_zero_def m3_diag_def)

lemma plane_moments_sums:
  "m3_quad (fst (plane_moments points)) u = (\<Sum>pv\<leftarrow>points. (v3_dot u (point_w pv))\<^sup>2)"
  "v3_dot u (snd (plane_moments points)) = (\<Sum>pv\<leftarrow>points. v3_dot u (point_w pv))"
proof -
  let ?f = "\<lambda>s pv. (m3_add (fst s) (v3_outer (point_w pv) (point_w pv)), v3_add (snd s) (point_w pv))"
  have "m3_quad (fst (foldl ?f s points)) u = m3_quad (fst s) u + (\<Sum>pv\<leftarrow>points. (v3_dot u (point_w pv))\<^sup>2)"
    and "v3_dot u (snd (foldl ?f s points)) = v3_dot u (snd s) + (\<Sum>pv\<leftarrow>points. v3_dot u (point_w pv))" for s
    by (induction points arbitrary: s)
      (simp_all add: m3_quad_add m3_quad_outer v3_dot_add v3_dot_commute [of _ u] del: m3_quad.simps)
  from this [of "(m3_zero, v3_zero)"]
  show "m3_quad (fst (plane_moments points)) u = (\<Sum>pv\<leftarrow>points. (v3_dot u (point_w pv))\<^sup>2)"
    and "v3_dot u (snd (plane_moments points)) = (\<Sum>pv\<leftarrow>points. v3_dot u (point_w pv))"
    by (simp_all add: plane_moments_def del: m3_quad.simps)
qed

text \<open>The sum of the squared distances to any plane, from centre and covariance.\<close>

lemma sum_squared_distances:
  assumes "points \<noteq> []"
  shows "(\<Sum>pv\<leftarrow>points. (v3_dot u (point_w pv) + e)\<^sup>2) =
    real (length points) * (m3_quad (plane_covariance points) u + (v3_dot u (plane_center points) + e)\<^sup>2)"
proof -
  let ?n = "real (length points)" and ?s = "\<Sum>pv\<leftarrow>points. v3_dot u (point_w pv)"
    and ?q = "\<Sum>pv\<leftarrow>points. (v3_dot u (point_w pv))\<^sup>2"
  have n: "?n > 0" using assms by simp
  have c: "v3_dot u (plane_center points) = ?s / ?n"
    by (simp add: plane_center_def plane_moments_sums)
  have v: "m3_quad (plane_covariance points) u = ?q / ?n - (?s / ?n)\<^sup>2"
    unfolding plane_covariance_def m3_quad_add m3_quad_neg m3_quad_scale m3_quad_outer plane_moments_sums
    using c by (simp add: v3_dot_commute)
  have "(\<Sum>pv\<leftarrow>points. (v3_dot u (point_w pv) + e)\<^sup>2) = ?q + 2 * e * ?s + ?n * e\<^sup>2"
    by (induction points) (simp_all add: power2_sum algebra_simps)
  then show ?thesis using n unfolding v c by (simp add: power2_sum field_simps power2_eq_square)
qed

text \<open>An orthonormal eigenbasis: what \<open>Eigen::EigenSolver\<close> returns for a symmetric matrix with distinct
  eigenvalues.\<close>

definition eigen_basis :: "mat3 \<Rightarrow> vec3 \<times> mat3 \<Rightarrow> bool" where
  "eigen_basis c ev \<longleftrightarrow>
     (\<forall>k \<in> {0, 1, 2}. m3_apply c (m3_col k (snd ev)) = v3_scale (v3_at (fst ev) k) (m3_col k (snd ev)))
     \<and> m3_mult (m3_transpose (snd ev)) (snd ev) = m3_one \<and> m3_mult (snd ev) (m3_transpose (snd ev)) = m3_one"

lemma m3_apply_linear:
  "m3_apply c (v3_add u v) = v3_add (m3_apply c u) (m3_apply c v)"
  "m3_apply c (v3_scale k u) = v3_scale k (m3_apply c u)"
proof -
  obtain a1 a2 a3 a4 a5 a6 a7 a8 a9 where c: "c = ((a1, a2, a3), (a4, a5, a6), (a7, a8, a9))" by (metis prod.exhaust)
  show "m3_apply c (v3_add u v) = v3_add (m3_apply c u) (m3_apply c v)"
    "m3_apply c (v3_scale k u) = v3_scale k (m3_apply c u)"
    by (cases u; cases v; simp add: c algebra_simps)+
qed

lemma eigen_basis_expand:
  assumes "eigen_basis c ev"
  defines "v \<equiv> \<lambda>k. m3_col k (snd ev)"
  shows "u = v3_add (v3_scale (v3_dot u (v 0)) (v 0))
               (v3_add (v3_scale (v3_dot u (v 1)) (v 1)) (v3_scale (v3_dot u (v 2)) (v 2)))"
    and "k \<in> {0, 1, 2} \<Longrightarrow> v3_dot (v k) (v k) = 1"
proof -
  obtain m where m: "m = snd ev" by simp
  obtain a b c d e f g h i where e: "m = ((a, b, c), (d, e, f), (g, h, i))" by (metis prod.exhaust)
  have "m3_apply (m3_mult m (m3_transpose m)) u = u" using assms(1) by (simp add: eigen_basis_def m)
  then show "u = v3_add (v3_scale (v3_dot u (v 0)) (v 0))
               (v3_add (v3_scale (v3_dot u (v 1)) (v 1)) (v3_scale (v3_dot u (v 2)) (v 2)))"
    unfolding m3_mult_apply by (cases u) (simp add: v_def m [symmetric] e m3_col_def algebra_simps)
  have "m3_mult (m3_transpose m) m = m3_one" using assms(1) by (simp add: eigen_basis_def m)
  then show "k \<in> {0, 1, 2} \<Longrightarrow> v3_dot (v k) (v k) = 1"
    by (auto simp: v_def m [symmetric] e m3_col_def m3_mult_def m3_one_def m3_diag_def)
qed

lemma min_index_le: "v3_at w (min_index w) \<le> v3_at w k"
  by (cases w) (auto simp: min_index_def)

lemma min_index_range: "min_index w \<in> {0, 1, 2}"
  by (simp add: min_index_def)

text \<open>The quadratic form of a symmetric matrix is at least its least eigenvalue on unit vectors.\<close>

lemma rayleigh_min:
  assumes "eigen_basis c ev" and "v3_dot u u = 1"
  shows "v3_at (fst ev) (min_index (fst ev)) \<le> m3_quad c u"
proof -
  define v where "v k = m3_col k (snd ev)" for k
  define w where "w k = v3_at (fst ev) k" for k
  define x where "x k = v3_dot u (v k)" for k
  have u: "u = v3_add (v3_scale (x 0) (v 0)) (v3_add (v3_scale (x 1) (v 1)) (v3_scale (x 2) (v 2)))"
    using eigen_basis_expand(1) [OF assms(1), of u] by (simp add: v_def x_def)
  have "v3_dot u u = v3_dot u (v3_add (v3_scale (x 0) (v 0)) (v3_add (v3_scale (x 1) (v 1)) (v3_scale (x 2) (v 2))))"
    by (rule arg_cong [OF u])
  then have one: "x 0 * x 0 + x 1 * x 1 + x 2 * x 2 = 1"
    unfolding assms(2) by (simp add: v3_dot_add x_def)
  have "m3_apply c u = v3_add (v3_scale (x 0 * w 0) (v 0))
      (v3_add (v3_scale (x 1 * w 1) (v 1)) (v3_scale (x 2 * w 2) (v 2)))"
  proof -
    have k: "m3_apply c (v k) = v3_scale (w k) (v k)" if "k \<in> {0, 1, 2}" for k
      using assms(1) that unfolding eigen_basis_def v_def w_def by blast
    have s: "v3_scale a (v3_scale b y) = v3_scale (a * b) y" for a b y by (cases y) simp
    have "m3_apply c u = m3_apply c (v3_add (v3_scale (x 0) (v 0)) (v3_add (v3_scale (x 1) (v 1)) (v3_scale (x 2) (v 2))))"
      by (rule arg_cong [OF u])
    then show ?thesis by (simp add: m3_apply_linear k s)
  qed
  then have q: "m3_quad c u = w 0 * (x 0 * x 0) + w 1 * (x 1 * x 1) + w 2 * (x 2 * x 2)"
    by (simp add: v3_dot_add x_def)
  have "w k \<ge> w (min_index (fst ev))" for k by (simp add: w_def min_index_le)
  then have "w (min_index (fst ev)) * (x k * x k) \<le> w k * (x k * x k)" for k by (intro mult_right_mono) auto
  from this [of 0] this [of 1] this [of 2]
  have "w (min_index (fst ev)) * (x 0 * x 0 + x 1 * x 1 + x 2 * x 2) \<le> m3_quad c u"
    unfolding q distrib_left by linarith
  then show ?thesis unfolding one w_def by (simp del: m3_quad.simps)
qed

lemma rayleigh_eigen:
  assumes "eigen_basis c ev" and "k \<in> {0, 1, 2}"
  shows "m3_quad c (m3_col k (snd ev)) = v3_at (fst ev) k"
proof -
  have "m3_apply c (m3_col k (snd ev)) = v3_scale (v3_at (fst ev) k) (m3_col k (snd ev))"
    using assms unfolding eigen_basis_def by blast
  then show ?thesis using eigen_basis_expand(2) [OF assms] by simp
qed

lemma init_plane_Ret:
  assumes "init_plane es thr points plane0 = Ret plane"
  shows "points \<noteq> []" "vp_center plane = plane_center points" "vp_covariance plane = plane_covariance points"
    "vp_points_size plane = length points" "vp_is_update plane"
    "vp_is_plane plane \<longleftrightarrow> v3_at (fst (es (plane_covariance points))) (min_index (fst (es (plane_covariance points)))) < thr"
  using assms by (auto simp: init_plane_def Let_def split: if_splits)

lemma init_plane_fit:
  assumes "init_plane es thr points plane0 = Ret plane" and "vp_is_plane plane"
  defines "ev \<equiv> es (plane_covariance points)"
  shows "vp_normal plane = m3_col (min_index (fst ev)) (snd ev)"
    "vp_min_eigen_value plane = v3_at (fst ev) (min_index (fst ev))" "vp_min_eigen_value plane < thr"
    "vp_d plane = - v3_dot (vp_normal plane) (vp_center plane)"
  using assms by (auto simp: init_plane_def Let_def m3_col_def split: if_splits; cases "plane_center points"; simp)+

text \<open>C12: The plane of a voxel is the total least squares fit of its points. When the solver returns an
  orthonormal eigenbasis of the covariance, no other plane has a smaller sum of squared distances to the points,
  the fitted one passes through their mean, its mean squared distance is the least eigenvalue it records, and it
  counts as a plane only when that is below the threshold.\<close>

theorem plane_fit_optimal:
  assumes "init_plane es thr points plane0 = Ret plane" and "vp_is_plane plane"
    and "eigen_basis (plane_covariance points) (es (plane_covariance points))" and "v3_dot u u = 1"
  shows "(\<Sum>pv\<leftarrow>points. (v3_dot (vp_normal plane) (point_w pv) + vp_d plane)\<^sup>2)
           \<le> (\<Sum>pv\<leftarrow>points. (v3_dot u (point_w pv) + e)\<^sup>2)
    \<and> (\<Sum>pv\<leftarrow>points. (v3_dot (vp_normal plane) (point_w pv) + vp_d plane)\<^sup>2)
           = real (length points) * vp_min_eigen_value plane
    \<and> vp_min_eigen_value plane < thr \<and> v3_dot (vp_normal plane) (vp_normal plane) = 1
    \<and> v3_dot (vp_normal plane) (vp_center plane) + vp_d plane = 0"
proof -
  note f = init_plane_fit [OF assms(1,2)] and r = init_plane_Ret [OF assms(1)]
  let ?c = "plane_covariance points"
  have q: "m3_quad ?c (vp_normal plane) = vp_min_eigen_value plane"
    using rayleigh_eigen [OF assms(3) min_index_range] by (simp add: f(1,2) del: m3_quad.simps)
  have s: "(\<Sum>pv\<leftarrow>points. (v3_dot (vp_normal plane) (point_w pv) + vp_d plane)\<^sup>2)
      = real (length points) * vp_min_eigen_value plane"
    unfolding sum_squared_distances [OF r(1)] q using f(4) r(2) by simp
  have "vp_min_eigen_value plane \<le> m3_quad ?c u + (v3_dot u (plane_center points) + e)\<^sup>2"
    using rayleigh_min [OF assms(3,4)] zero_le_power2 [of "v3_dot u (plane_center points) + e"]
    unfolding f(2) by linarith
  then have "real (length points) * vp_min_eigen_value plane \<le> (\<Sum>pv\<leftarrow>points. (v3_dot u (point_w pv) + e)\<^sup>2)"
    unfolding sum_squared_distances [OF r(1)] by (rule mult_left_mono) simp
  then show ?thesis
    using s f(3,4) r(2) eigen_basis_expand(2) [OF assms(3) min_index_range] by (simp add: f(1))
qed

definition ex_pv :: "real \<Rightarrow> real \<Rightarrow> real \<Rightarrow> pointWithVar" where
  "ex_pv x y z = new_pointWithVar\<lparr>point_w := (x, y, z), pv_var := m3_one\<rparr>"

text \<open>A concrete solver for diagonal matrices.\<close>

definition diagonal_solver :: eigen_solver where
  "diagonal_solver c = ((m3_at c 0 0, m3_at c 1 1, m3_at c 2 2), m3_one)"

definition ex_wall :: "pointWithVar list" where
  "ex_wall = [ex_pv 5 1 2, ex_pv 5 (- 1) 2, ex_pv 5 1 (- 2), ex_pv 5 (- 1) (- 2)]"

lemma ex_wall_covariance: "plane_covariance ex_wall = m3_diag 0 1 4"
  by (simp add: plane_covariance_def plane_center_def plane_moments_def ex_wall_def ex_pv_def m3_zero_def
      m3_diag_def v3_zero_def)

theorem plane_fit_optimal_witness:
  "\<exists>plane. init_plane diagonal_solver (1 / 100) ex_wall new_VoxelPlane = Ret plane \<and> vp_is_plane plane
     \<and> (\<Sum>pv\<leftarrow>ex_wall. (v3_dot (vp_normal plane) (point_w pv) + vp_d plane)\<^sup>2)
           \<le> (\<Sum>pv\<leftarrow>ex_wall. (v3_dot (0, 1, 0) (point_w pv) + 3)\<^sup>2)"
proof -
  have len: "length ex_wall = 4" by (simp add: ex_wall_def)
  obtain plane where p: "init_plane diagonal_solver (1 / 100) ex_wall new_VoxelPlane = Ret plane" "vp_is_plane plane"
    by (simp add: init_plane_def Let_def ex_wall_covariance diagonal_solver_def m3_diag_def min_index_def
        max_index_def len)
  have b: "eigen_basis (plane_covariance ex_wall) (diagonal_solver (plane_covariance ex_wall))"
    by (simp add: eigen_basis_def ex_wall_covariance diagonal_solver_def m3_diag_def m3_one_def m3_mult_def m3_col_def)
  have "v3_dot (0, 1, 0) (0, 1, 0) = 1" by simp
  from plane_fit_optimal [OF p b this, of 3] p show ?thesis by blast
qed

text \<open>The covariance of the plane is positive semidefinite when those of the points are, so the variance of a
  distance to the plane is never negative.\<close>

theorem plane_variance_psd:
  assumes "\<forall>pv \<in> set points. mpsd 3 (m3_at (pv_var pv))"
  shows "mpsd 6 (plane_variance points center evals evecs mn)"
proof -
  have "mpsd 6 (foldl (\<lambda>acc pv. let J = plane_jacobian n evals evecs mn (v3_sub (point_w pv) center)
            in madd acc (mmul 3 (mmul 3 J (m3_at (pv_var pv))) (mtrans J))) acc points)" if "mpsd 6 acc" for n acc
    using assms that
    by (induction points arbitrary: acc) (auto simp: Let_def intro!: mpsd_add mpsd_conj)
  moreover have "mpsd 6 mzero" by (simp add: mpsd_def quad_def mzero_def)
  ultimately show ?thesis by (simp add: plane_variance_def)
qed

text \<open>Points that coincide break the fit: their covariance is the zero matrix, all its eigenvalues are equal,
  and \<open>init_plane\<close> reads the fourth column of a 3x3 matrix.\<close>

theorem coincident_points_break_init_plane:
  assumes "\<forall>pv \<in> set points. point_w pv = p" and "es m3_zero = (v3_zero, evecs)"
  shows "init_plane es planer_threshold points plane0 = Undef"
proof (cases "points = []")
  case False
  have m: "foldl (\<lambda>s pv. (m3_add (fst s) (v3_outer (point_w pv) (point_w pv)), v3_add (snd s) (point_w pv)))
      (m3_scale a (v3_outer p p), v3_scale a p) points
    = (m3_scale (a + real (length points)) (v3_outer p p), v3_scale (a + real (length points)) p)" for a
    using assms(1)
  proof (induction points arbitrary: a)
    case (Cons pv points)
    have "m3_add (m3_scale a (v3_outer p p)) (v3_outer p p) = m3_scale (a + 1) (v3_outer p p)"
      "v3_add (v3_scale a p) p = v3_scale (a + 1) p"
      by (cases p; simp add: algebra_simps)+
    then show ?case using Cons.IH [of "a + 1"] Cons.prems by (simp add: ac_simps)
  qed simp
  have "plane_moments points = (m3_scale (real (length points)) (v3_outer p p), v3_scale (real (length points)) p)"
    using m [of 0] by (cases p) (simp add: plane_moments_def m3_zero_def m3_diag_def v3_zero_def)
  then have "plane_covariance points = m3_zero"
    using False by (cases p) (simp add: plane_covariance_def plane_center_def m3_zero_def m3_diag_def)
  then show ?thesis using assms(2)
    by (simp add: init_plane_def Let_def min_index_def max_index_def v3_zero_def)
qed (simp add: init_plane_def Let_def)

theorem coincident_points_break_init_plane_witness:
  "init_plane diagonal_solver (1 / 100) (replicate 6 (ex_pv 1 2 3)) new_VoxelPlane = Undef"
  by (rule coincident_points_break_init_plane [where p = "(1, 2, 3)"])
    (auto simp: ex_pv_def diagonal_solver_def m3_zero_def m3_diag_def v3_zero_def)

end
