(* ===== verification/Voxel_Octree.thy ===== *)
theory Voxel_Octree
  imports Voxel_Plane "HOL-Library.Sublist"
begin

text \<open>
  The octree of one voxel: \<open>VoxelOctoTree\<close> of \<^verbatim>\<open>fast_livo/include/voxel_map.h\<close> with its operations in
  \<^verbatim>\<open>fast_livo/src/voxel_map.cpp\<close>. A node is its data and the array of its eight leaf pointers. The fields that
  every node copies unchanged from its parent (\<open>max_layer_\<close>, \<open>layer_init_num_\<close>, \<open>max_points_num_\<close>,
  \<open>planer_threshold_\<close>) come from one configuration and are read from it, and the constant 5 of
  \<open>update_size_threshold_\<close> is a constant. \<open>cut_octo_tree\<close> recurses into leaves it has just made; its model has fuel
  for the layers that are left, which the lemmas show to be enough.
\<close>

section \<open>Nodes\<close>

record VoxelMapConfig =
  max_voxel_size :: real
  max_layer :: int
  max_iterations :: int
  layer_init_num :: "int list"
  max_points_num :: int
  planner_threshold :: real
  beam_err :: real
  dept_err :: real
  sigma_num :: real
  is_pub_plane_map :: bool
  sliding_thresh :: real
  map_sliding_en :: bool
  half_map_size :: int

text \<open>In \<open>size() > points_size_threshold_\<close> the int is converted to \<open>size_t\<close>.\<close>

definition as_size_t :: "int \<Rightarrow> nat" where
  "as_size_t k = nat (k mod 2 ^ 64)"

record octo_data =
  temp_points :: "pointWithVar list"
  plane_ptr :: VoxelPlane
  layer :: nat
  octo_state :: nat
  voxel_center :: vec3
  quater_length :: real
  points_size_threshold :: int
  new_points :: int
  init_octo :: bool
  update_enable :: bool

datatype octo = Octo (data: octo_data) (leaves: "octo option list")

definition update_size_threshold :: int where "update_size_threshold = 5"

definition new_octo :: "nat \<Rightarrow> int \<Rightarrow> vec3 \<Rightarrow> real \<Rightarrow> octo" where
  "new_octo lay threshold center quater =
     Octo \<lparr>temp_points = [], plane_ptr = new_VoxelPlane, layer = lay, octo_state = 0, voxel_center = center,
           quater_length = quater, points_size_threshold = threshold, new_points = 0, init_octo = False,
           update_enable = True\<rparr> (replicate 8 None)"

definition leaf_at :: "octo option list \<Rightarrow> nat \<Rightarrow> octo option" where
  "leaf_at ls k = (if k < length ls then ls ! k else None)"

text \<open>The octant of a point, and centre of the leaf in it.\<close>

definition leafnum :: "vec3 \<Rightarrow> vec3 \<Rightarrow> nat" where
  "leafnum center p =
     4 * (if v3_at p 0 > v3_at center 0 then 1 else 0) + 2 * (if v3_at p 1 > v3_at center 1 then 1 else 0)
     + (if v3_at p 2 > v3_at center 2 then 1 else 0)"

definition leaf_center :: "vec3 \<Rightarrow> real \<Rightarrow> nat \<Rightarrow> vec3" where
  "leaf_center center quater k =
     (v3_at center 0 + (2 * real (k div 4) - 1) * quater,
      v3_at center 1 + (2 * real (k div 2 mod 2) - 1) * quater,
      v3_at center 2 + (2 * real (k mod 2) - 1) * quater)"

definition new_leaf :: "VoxelMapConfig \<Rightarrow> octo_data \<Rightarrow> nat \<Rightarrow> octo exec" where
  "new_leaf cfg n k =
     (if layer n + 1 < length (layer_init_num cfg)
      then Ret (new_octo (layer n + 1) (layer_init_num cfg ! (layer n + 1))
             (leaf_center (voxel_center n) (quater_length n) k) (quater_length n / 2))
      else Undef)"

definition push_point :: "pointWithVar \<Rightarrow> octo_data \<Rightarrow> octo_data" where
  "push_point pv n = n\<lparr>new_points := new_points n + 1, temp_points := temp_points n @ [pv]\<rparr>"

text \<open>\<open>update_enable_ = false\<close> with the points swapped away.\<close>

definition freeze :: "octo_data \<Rightarrow> octo_data" where
  "freeze n = n\<lparr>update_enable := False, temp_points := [], new_points := 0\<rparr>"

section \<open>Cutting a node\<close>

text \<open>The first loop of \<open>cut_octo_tree\<close> hands the points out to the leaves, making those that are missing.\<close>

fun distribute :: "VoxelMapConfig \<Rightarrow> octo_data \<Rightarrow> pointWithVar list \<Rightarrow> octo option list \<Rightarrow> octo option list exec" where
  "distribute cfg n [] ls = Ret ls"
| "distribute cfg n (pv # pvs) ls =
     (let k = leafnum (voxel_center n) (point_w pv)
      in bind_exec (case leaf_at ls k of None \<Rightarrow> new_leaf cfg n k | Some leaf \<Rightarrow> Ret leaf)
           (\<lambda>leaf. distribute cfg n pvs (ls[k := Some (Octo (push_point pv (data leaf)) (leaves leaf))])))"

text \<open>The body of the second loop for one leaf; the flag says that a plane with too many points was found, on
  which the code clears the \<open>new_points_\<close> of the cut node itself.\<close>

definition settle_leaf :: "eigen_solver \<Rightarrow> VoxelMapConfig \<Rightarrow> (octo \<Rightarrow> octo exec) \<Rightarrow> octo \<Rightarrow> (octo \<times> bool) exec" where
  "settle_leaf es cfg cutter leaf =
     (let n = data leaf
      in if length (temp_points n) > as_size_t (points_size_threshold n)
         then bind_exec (init_plane es (planner_threshold cfg) (temp_points n) (plane_ptr n)) (\<lambda>pl.
           if vp_is_plane pl
           then let n1 = n\<lparr>plane_ptr := pl, octo_state := 0\<rparr>;
                    full = length (temp_points n1) > as_size_t (max_points_num cfg);
                    n2 = (if full then n1\<lparr>update_enable := False, temp_points := []\<rparr> else n1)
                in Ret (Octo (n2\<lparr>init_octo := True, new_points := 0\<rparr>) (leaves leaf), full)
           else bind_exec (cutter (Octo (n\<lparr>plane_ptr := pl, octo_state := 1\<rparr>) (leaves leaf)))
                  (\<lambda>t. Ret (Octo ((data t)\<lparr>init_octo := True, new_points := 0\<rparr>) (leaves t), False)))
         else Ret (leaf, False))"

fun settle_leaves :: "eigen_solver \<Rightarrow> VoxelMapConfig \<Rightarrow> (octo \<Rightarrow> octo exec) \<Rightarrow> octo_data \<Rightarrow> octo option list
    \<Rightarrow> (octo_data \<times> octo option list) exec" where
  "settle_leaves es cfg cutter n [] = Ret (n, [])"
| "settle_leaves es cfg cutter n (None # ls) =
     bind_exec (settle_leaves es cfg cutter n ls) (\<lambda>r. Ret (fst r, None # snd r))"
| "settle_leaves es cfg cutter n (Some leaf # ls) =
     bind_exec (settle_leaf es cfg cutter leaf) (\<lambda>q.
       bind_exec (settle_leaves es cfg cutter (if snd q then n\<lparr>new_points := 0\<rparr> else n) ls) (\<lambda>r.
         Ret (fst r, Some (fst q) # snd r)))"

fun cut_octo_tree :: "eigen_solver \<Rightarrow> VoxelMapConfig \<Rightarrow> nat \<Rightarrow> octo \<Rightarrow> octo exec" where
  "cut_octo_tree es cfg 0 t = Undef"
| "cut_octo_tree es cfg (Suc fuel) t =
     (if int (layer (data t)) \<ge> max_layer cfg then Ret (Octo ((data t)\<lparr>octo_state := 0\<rparr>) (leaves t))
      else bind_exec (distribute cfg (data t) (temp_points (data t)) (leaves t)) (\<lambda>ls.
        bind_exec (settle_leaves es cfg (\<lambda>leaf. cut_octo_tree es cfg fuel leaf) (data t) ls) (\<lambda>r.
          Ret (Octo (fst r) (snd r)))))"

definition layers_left :: "VoxelMapConfig \<Rightarrow> octo_data \<Rightarrow> nat" where
  "layers_left cfg n = Suc (nat (max_layer cfg - int (layer n)))"

definition init_octo_tree :: "eigen_solver \<Rightarrow> VoxelMapConfig \<Rightarrow> octo \<Rightarrow> octo exec" where
  "init_octo_tree es cfg t =
     (let n = data t
      in if length (temp_points n) > as_size_t (points_size_threshold n)
         then bind_exec (init_plane es (planner_threshold cfg) (temp_points n) (plane_ptr n)) (\<lambda>pl.
           if vp_is_plane pl
           then let n1 = n\<lparr>plane_ptr := pl, octo_state := 0\<rparr>;
                    n2 = (if length (temp_points n1) > as_size_t (max_points_num cfg) then freeze n1 else n1)
                in Ret (Octo (n2\<lparr>init_octo := True, new_points := 0\<rparr>) (leaves t))
           else bind_exec (cut_octo_tree es cfg (layers_left cfg n) (Octo (n\<lparr>plane_ptr := pl, octo_state := 1\<rparr>) (leaves t)))
                  (\<lambda>t. Ret (Octo ((data t)\<lparr>init_octo := True, new_points := 0\<rparr>) (leaves t))))
         else Ret t)"

section \<open>Updating, searching and inserting\<close>

text \<open>The two branches that collect points in a node and refit its plane; they differ in the comparison that ends
  the collection.\<close>

definition collect_point :: "eigen_solver \<Rightarrow> VoxelMapConfig \<Rightarrow> (nat \<Rightarrow> bool) \<Rightarrow> pointWithVar \<Rightarrow> octo_data \<Rightarrow> octo_data exec" where
  "collect_point es cfg full pv n0 =
     (let n = push_point pv n0
      in bind_exec
           (if new_points n > update_size_threshold
            then bind_exec (init_plane es (planner_threshold cfg) (temp_points n) (plane_ptr n))
                   (\<lambda>pl. Ret (n\<lparr>plane_ptr := pl, new_points := 0\<rparr>))
            else Ret n)
           (\<lambda>n. Ret (if full (length (temp_points n)) then freeze n else n)))"

lemma leaf_at_size [termination_simp]: "leaf_at ls k = Some leaf \<Longrightarrow> size leaf < Suc (size_list (size_option size) ls)"
proof -
  assume a: "leaf_at ls k = Some leaf"
  then have "Some leaf \<in> set ls" by (auto simp: leaf_at_def split: if_splits) (metis nth_mem)
  then have "size_option size (Some leaf) \<le> size_list (size_option size) ls"
    by (metis order_refl size_list_estimation')
  then show ?thesis by simp
qed

lemma new_leaf_fresh: "new_leaf cfg n k = Ret leaf \<Longrightarrow> \<not> init_octo (data leaf)"
  by (auto simp: new_leaf_def new_octo_def split: if_splits)

lemma size_leaf_at: "leaf_at (leaves t) k = Some leaf \<Longrightarrow> size leaf < size t"
  using leaf_at_size [of "leaves t" k leaf] by (cases t) auto

function UpdateOctoTree :: "eigen_solver \<Rightarrow> VoxelMapConfig \<Rightarrow> pointWithVar \<Rightarrow> octo \<Rightarrow> octo exec" where
  "UpdateOctoTree es cfg pv t =
     (let n = data t
      in if \<not> init_octo n
         then let n1 = push_point pv n
              in if length (temp_points n1) > as_size_t (points_size_threshold n1)
                 then init_octo_tree es cfg (Octo n1 (leaves t)) else Ret (Octo n1 (leaves t))
         else if vp_is_plane (plane_ptr n)
         then if update_enable n
              then bind_exec (collect_point es cfg (\<lambda>size. size \<ge> as_size_t (max_points_num cfg)) pv n)
                     (\<lambda>n. Ret (Octo n (leaves t)))
              else Ret t
         else if int (layer n) < max_layer cfg
         then let k = leafnum (voxel_center n) (point_w pv)
              in case leaf_at (leaves t) k of
                   Some leaf \<Rightarrow> bind_exec (UpdateOctoTree es cfg pv leaf) (\<lambda>leaf. Ret (Octo n ((leaves t)[k := Some leaf])))
                 | None \<Rightarrow> bind_exec (new_leaf cfg n k) (\<lambda>leaf.
                     bind_exec (UpdateOctoTree es cfg pv leaf) (\<lambda>leaf. Ret (Octo n ((leaves t)[k := Some leaf]))))
         else if update_enable n
              then bind_exec (collect_point es cfg (\<lambda>size. size > as_size_t (max_points_num cfg)) pv n)
                     (\<lambda>n. Ret (Octo n (leaves t)))
              else Ret t)"
  by pat_completeness auto

termination
  by (relation "measure (\<lambda>(es, cfg, pv, t). if init_octo (data t) then Suc (size t) else 0)")
    (auto dest: new_leaf_fresh size_leaf_at)

declare UpdateOctoTree.simps [simp del]

function find_correspond :: "VoxelMapConfig \<Rightarrow> vec3 \<Rightarrow> octo \<Rightarrow> octo" where
  "find_correspond cfg pw t =
     (let n = data t
      in if \<not> init_octo n \<or> vp_is_plane (plane_ptr n) \<or> int (layer n) \<ge> max_layer cfg then t
         else case leaf_at (leaves t) (leafnum (voxel_center n) pw) of
                None \<Rightarrow> t
              | Some leaf \<Rightarrow> find_correspond cfg pw leaf)"
  by pat_completeness auto

termination
  by (relation "measure (\<lambda>(cfg, pw, t). size t)") (auto dest: size_leaf_at)

declare find_correspond.simps [simp del]

text \<open>\<open>Insert\<close> returns the node that took the point next to the changed tree. Its two conditions exclude each
  other and cover all cases, so that the \<open>return nullptr\<close> at the end is never reached.\<close>

function Insert :: "VoxelMapConfig \<Rightarrow> pointWithVar \<Rightarrow> octo \<Rightarrow> (octo \<times> octo) exec" where
  "Insert cfg pv t =
     (let n = data t
      in if \<not> init_octo n \<or> vp_is_plane (plane_ptr n) \<or> int (layer n) \<ge> max_layer cfg
         then let t1 = Octo (push_point pv n) (leaves t) in Ret (t1, t1)
         else let k = leafnum (voxel_center n) (point_w pv)
              in case leaf_at (leaves t) k of
                   Some leaf \<Rightarrow> bind_exec (Insert cfg pv leaf) (\<lambda>r. Ret (Octo n ((leaves t)[k := Some (fst r)]), snd r))
                 | None \<Rightarrow> bind_exec (new_leaf cfg n k) (\<lambda>leaf.
                     bind_exec (Insert cfg pv leaf) (\<lambda>r. Ret (Octo n ((leaves t)[k := Some (fst r)]), snd r))))"
  by pat_completeness auto

termination
  by (relation "measure (\<lambda>(cfg, pv, t). if init_octo (data t) then Suc (size t) else 0)")
    (auto dest: new_leaf_fresh size_leaf_at)

declare Insert.simps [simp del]

section \<open>Handing out points\<close>

definition push_points :: "pointWithVar list \<Rightarrow> octo \<Rightarrow> octo" where
  "push_points pvs t = Octo (foldl (\<lambda>n pv. push_point pv n) (data t) pvs) (leaves t)"

lemma foldl_push_point:
  "foldl (\<lambda>n pv. push_point pv n) n pvs =
     n\<lparr>new_points := new_points n + int (length pvs), temp_points := temp_points n @ pvs\<rparr>"
  by (induction pvs arbitrary: n) (simp_all add: push_point_def)

lemma push_points_simps:
  "data (push_points pvs t) =
     (data t)\<lparr>new_points := new_points (data t) + int (length pvs), temp_points := temp_points (data t) @ pvs\<rparr>"
  "leaves (push_points pvs t) = leaves t"
  by (simp_all add: push_points_def foldl_push_point)

lemma leafnum_less: "leafnum c p < 8"
  by (simp add: leafnum_def)

lemma leaf_at_update [simp]: "k < length ls \<Longrightarrow> leaf_at (ls[k := x]) j = (if j = k then x else leaf_at ls j)"
  by (simp add: leaf_at_def)

lemma leaf_at_Cons: "leaf_at (y # xs) k = (case k of 0 \<Rightarrow> y | Suc j \<Rightarrow> leaf_at xs j)"
  by (auto simp: leaf_at_def split: nat.splits)

lemma leaf_at_replicate [simp]: "leaf_at (replicate n None) k = None"
  by (simp add: leaf_at_def)

text \<open>After the first loop of \<open>cut_octo_tree\<close> each leaf has got exactly the points of its octant, in their order,
  and a leaf exists in every octant that has a point.\<close>

lemma distribute_leaves:
  assumes "length ls = 8" and "layer n + 1 < length (layer_init_num cfg)"
  shows "\<exists>ls'. distribute cfg n pvs ls = Ret ls' \<and> length ls' = 8 \<and>
    (\<forall>k. leaf_at ls' k =
      (let qs = filter (\<lambda>pv. leafnum (voxel_center n) (point_w pv) = k) pvs
       in if qs = [] then leaf_at ls k
          else Some (push_points qs (case leaf_at ls k of
            None \<Rightarrow> new_octo (layer n + 1) (layer_init_num cfg ! (layer n + 1))
                     (leaf_center (voxel_center n) (quater_length n) k) (quater_length n / 2)
          | Some leaf \<Rightarrow> leaf))))"
  using assms(1)
proof (induction pvs arbitrary: ls)
  case (Cons pv pvs)
  define k where "k = leafnum (voxel_center n) (point_w pv)"
  define fresh where "fresh j = new_octo (layer n + 1) (layer_init_num cfg ! (layer n + 1))
      (leaf_center (voxel_center n) (quater_length n) j) (quater_length n / 2)" for j
  define leaf where "leaf = (case leaf_at ls k of None \<Rightarrow> fresh k | Some l \<Rightarrow> l)"
  let ?ls = "ls[k := Some (Octo (push_point pv (data leaf)) (leaves leaf))]"
  have k: "k < length ls" using Cons.prems leafnum_less k_def by simp
  have step: "distribute cfg n (pv # pvs) ls = distribute cfg n pvs ?ls"
    using assms(2) by (auto simp: Let_def leaf_def fresh_def k_def [symmetric] new_leaf_def split: option.splits)
  have push: "push_points qs (push_points [pv] leaf) = push_points (pv # qs) leaf" for qs
    by (simp add: push_points_def)
  have one: "Octo (push_point pv (data leaf)) (leaves leaf) = push_points [pv] leaf"
    by (simp add: push_points_def)
  have "length ?ls = 8" using Cons.prems by simp
  from Cons.IH [OF this] obtain ls' where ls': "distribute cfg n pvs ?ls = Ret ls'" "length ls' = 8"
    "\<forall>j. leaf_at ls' j = (let qs = filter (\<lambda>pv. leafnum (voxel_center n) (point_w pv) = j) pvs
       in if qs = [] then leaf_at ?ls j
          else Some (push_points qs (case leaf_at ?ls j of None \<Rightarrow> fresh j | Some leaf \<Rightarrow> leaf)))"
    unfolding fresh_def by blast
  have "leaf_at ls' j = (let qs = filter (\<lambda>pv. leafnum (voxel_center n) (point_w pv) = j) (pv # pvs)
       in if qs = [] then leaf_at ls j
          else Some (push_points qs (case leaf_at ls j of None \<Rightarrow> fresh j | Some leaf \<Rightarrow> leaf)))" for j
    using k by (cases "j = k") (auto simp: ls'(3) Let_def k_def [symmetric] leaf_def [symmetric] one push)
  then show ?case using ls'(1,2) unfolding step fresh_def by auto
qed simp

lemma distribute_fresh:
  assumes "layer n + 1 < length (layer_init_num cfg)"
  obtains ls where "distribute cfg n pvs (replicate 8 None) = Ret ls" "length ls = 8"
    "\<And>k. leaf_at ls k = (let qs = filter (\<lambda>pv. leafnum (voxel_center n) (point_w pv) = k) pvs
       in if qs = [] then None
          else Some (push_points qs (new_octo (layer n + 1) (layer_init_num cfg ! (layer n + 1))
                 (leaf_center (voxel_center n) (quater_length n) k) (quater_length n / 2))))"
proof -
  obtain ls where ls: "distribute cfg n pvs (replicate 8 None) = Ret ls" "length ls = 8" and
    at: "\<forall>k. leaf_at ls k =
      (let qs = filter (\<lambda>pv. leafnum (voxel_center n) (point_w pv) = k) pvs
       in if qs = [] then leaf_at (replicate 8 None) k
          else Some (push_points qs (case leaf_at (replicate 8 None) k of
            None \<Rightarrow> new_octo (layer n + 1) (layer_init_num cfg ! (layer n + 1))
                     (leaf_center (voxel_center n) (quater_length n) k) (quater_length n / 2)
          | Some leaf \<Rightarrow> leaf)))"
    using distribute_leaves [OF _ assms, of "replicate 8 None" pvs] by (simp only: length_replicate) blast
  show ?thesis by (rule that [OF ls]) (use at in \<open>simp add: Let_def\<close>)
qed

lemma settle_leaves_at:
  assumes "settle_leaves es cfg cutter n ls = Ret (n', ls')"
  shows "length ls' = length ls \<and> (\<exists>x. n' = n\<lparr>new_points := x\<rparr>) \<and>
    (\<forall>k. leaf_at ls k = None \<longrightarrow> leaf_at ls' k = None) \<and>
    (\<forall>k leaf. leaf_at ls k = Some leaf \<longrightarrow>
       (\<exists>leaf' flag. settle_leaf es cfg cutter leaf = Ret (leaf', flag) \<and> leaf_at ls' k = Some leaf'))"
  using assms
proof (induction es cfg cutter n ls arbitrary: n' ls' rule: settle_leaves.induct)
  case (1 es cfg cutter n)
  then show ?case by (auto simp: leaf_at_def intro!: exI [of _ "new_points n"])
next
  case (2 es cfg cutter n ls)
  then obtain ls1 where r: "settle_leaves es cfg cutter n ls = Ret (n', ls1)" "ls' = None # ls1"
    by (auto simp: bind_exec_Ret_iff)
  show ?case using "2.IH" [OF r(1)] r(2) by (auto simp: leaf_at_Cons split: nat.splits)
next
  case (3 es cfg cutter n leaf ls)
  then obtain l flag ls1 where r: "settle_leaf es cfg cutter leaf = Ret (l, flag)"
      "settle_leaves es cfg cutter (if flag then n\<lparr>new_points := 0\<rparr> else n) ls = Ret (n', ls1)" "ls' = Some l # ls1"
    by (auto simp: bind_exec_Ret_iff)
  have ih: "length ls1 = length ls \<and> (\<exists>x. n' = (if flag then n\<lparr>new_points := 0\<rparr> else n)\<lparr>new_points := x\<rparr>) \<and>
    (\<forall>k. leaf_at ls k = None \<longrightarrow> leaf_at ls1 k = None) \<and>
    (\<forall>k leaf. leaf_at ls k = Some leaf \<longrightarrow>
       (\<exists>leaf' flag. settle_leaf es cfg cutter leaf = Ret (leaf', flag) \<and> leaf_at ls1 k = Some leaf'))"
    using "3.IH" [OF r(1), of n' ls1] r(2) by simp
  then have "\<exists>x. n' = n\<lparr>new_points := x\<rparr>" by (cases flag) auto
  then show ?case using ih r(1,3) by (auto simp: leaf_at_Cons split: nat.splits)
qed

lemma settle_leaves_defined:
  assumes "\<And>leaf. Some leaf \<in> set ls \<Longrightarrow> settle_leaf es cfg cutter leaf \<noteq> Undef"
  shows "settle_leaves es cfg cutter n ls \<noteq> Undef"
  using assms
proof (induction es cfg cutter n ls rule: settle_leaves.induct)
  case (2 es cfg cutter n ls)
  then show ?case by (cases "settle_leaves es cfg cutter n ls") auto
next
  case (3 es cfg cutter n leaf ls)
  obtain q where q: "settle_leaf es cfg cutter leaf = Ret q"
    using 3(2) [of leaf] by (cases "settle_leaf es cfg cutter leaf") auto
  have "settle_leaves es cfg cutter (if snd q then n\<lparr>new_points := 0\<rparr> else n) ls \<noteq> Undef"
    using 3(1) [OF q] 3(2) by simp
  then show ?case
    by (cases "settle_leaves es cfg cutter (if snd q then n\<lparr>new_points := 0\<rparr> else n) ls") (auto simp: q)
qed simp

text \<open>The body of the second loop does to a leaf what \<open>init_octo_tree\<close> does to a root.\<close>

lemma settle_leaf_init:
  assumes "fuel = layers_left cfg (data leaf)"
  shows "\<exists>flag. settle_leaf es cfg (\<lambda>t. cut_octo_tree es cfg fuel t) leaf = bind_exec (init_octo_tree es cfg leaf) (\<lambda>t. Ret (t, flag))"
proof -
  let ?n = "data leaf"
  have "settle_leaf es cfg (\<lambda>t. cut_octo_tree es cfg fuel t) leaf = bind_exec (init_octo_tree es cfg leaf) (\<lambda>t. Ret (t,
      length (temp_points ?n) > as_size_t (points_size_threshold ?n) \<and>
      length (temp_points ?n) > as_size_t (max_points_num cfg) \<and>
      (\<exists>pl. init_plane es (planner_threshold cfg) (temp_points ?n) (plane_ptr ?n) = Ret pl \<and> vp_is_plane pl)))"
    by (cases "init_plane es (planner_threshold cfg) (temp_points ?n) (plane_ptr ?n)")
      (auto simp: settle_leaf_def init_octo_tree_def Let_def bind_exec_assoc freeze_def assms)
  then show ?thesis by (rule exI)
qed

section \<open>The invariant of the tree\<close>

definition in_cube :: "vec3 \<Rightarrow> real \<Rightarrow> vec3 \<Rightarrow> bool" where
  "in_cube c h p \<longleftrightarrow> \<bar>v3_at p 0 - v3_at c 0\<bar> \<le> h \<and> \<bar>v3_at p 1 - v3_at c 1\<bar> \<le> h \<and> \<bar>v3_at p 2 - v3_at c 2\<bar> \<le> h"

text \<open>A point of a cube lies in the cube of the leaf that is chosen for it.\<close>

lemma in_leaf_cube: "in_cube c (2 * q) p \<Longrightarrow> in_cube (leaf_center c q (leafnum c p)) (2 * (q / 2)) p"
  by (cases p; cases c) (auto simp: in_cube_def leaf_center_def leafnum_def abs_le_iff)

text \<open>What holds at a node: its points lie in its cube, they are at most \<open>B\<close> many, they are among the points \<open>H\<close> that
  the voxel has been given, each once and in their order, none is kept when the node no longer collects, and an
  uninitialised node has no leaves and is below its threshold.\<close>

definition node_ok :: "VoxelMapConfig \<Rightarrow> nat \<Rightarrow> vec3 list \<Rightarrow> octo \<Rightarrow> bool" where
  "node_ok cfg B H t \<longleftrightarrow>
     (let n = data t
      in length (leaves t) = 8
       \<and> (\<forall>pv \<in> set (temp_points n). in_cube (voxel_center n) (2 * quater_length n) (point_w pv))
       \<and> length (temp_points n) \<le> B \<and> as_size_t (points_size_threshold n) < B
       \<and> subseq (map point_w (temp_points n)) H \<and> new_points n \<le> int (length (temp_points n))
       \<and> points_size_threshold n \<in> set (layer_init_num cfg)
       \<and> (layer n = 0 \<or> int (layer n) \<le> max_layer cfg)
       \<and> (update_enable n \<or> temp_points n = [])
       \<and> (\<not> init_octo n \<longrightarrow> leaves t = replicate 8 None \<and> update_enable n
            \<and> length (temp_points n) \<le> as_size_t (points_size_threshold n)))"

definition leaf_ok :: "VoxelMapConfig \<Rightarrow> octo_data \<Rightarrow> nat \<Rightarrow> octo_data \<Rightarrow> bool" where
  "leaf_ok cfg n k l \<longleftrightarrow> int (layer n) < max_layer cfg \<and> layer l = layer n + 1
     \<and> voxel_center l = leaf_center (voxel_center n) (quater_length n) k \<and> quater_length l = quater_length n / 2"

function octo_ok :: "VoxelMapConfig \<Rightarrow> nat \<Rightarrow> vec3 list \<Rightarrow> octo \<Rightarrow> bool" where
  "octo_ok cfg B H t \<longleftrightarrow> node_ok cfg B H t \<and>
     (\<forall>k. case leaf_at (leaves t) k of None \<Rightarrow> True
          | Some leaf \<Rightarrow> leaf_ok cfg (data t) k (data leaf) \<and> octo_ok cfg B H leaf)"
  by pat_completeness auto

termination by (relation "measure (\<lambda>(cfg, B, H, t). size t)") (auto dest: size_leaf_at)

declare octo_ok.simps [simp del]

definition same_place :: "octo \<Rightarrow> octo \<Rightarrow> bool" where
  "same_place s t \<longleftrightarrow> layer (data s) = layer (data t) \<and> voxel_center (data s) = voxel_center (data t)
     \<and> quater_length (data s) = quater_length (data t)
     \<and> points_size_threshold (data s) = points_size_threshold (data t)"

lemma octo_okI:
  assumes "node_ok cfg B H t"
    and "\<And>k leaf. leaf_at (leaves t) k = Some leaf \<Longrightarrow> leaf_ok cfg (data t) k (data leaf) \<and> octo_ok cfg B H leaf"
  shows "octo_ok cfg B H t"
  using assms by (subst octo_ok.simps) (auto split: option.splits)

lemma octo_okD:
  assumes "octo_ok cfg B H t"
  shows "node_ok cfg B H t"
    and "leaf_at (leaves t) k = Some leaf \<Longrightarrow> leaf_ok cfg (data t) k (data leaf) \<and> octo_ok cfg B H leaf"
  using assms by (subst (asm) octo_ok.simps; auto split: option.splits)+

text \<open>The configuration is consistent: there is a threshold for every layer, and every bound is below \<open>B\<close>.\<close>

definition config_ok :: "VoxelMapConfig \<Rightarrow> nat \<Rightarrow> bool" where
  "config_ok cfg B \<longleftrightarrow> layer_init_num cfg \<noteq> [] \<and> max_layer cfg < int (length (layer_init_num cfg))
     \<and> (\<forall>x \<in> set (layer_init_num cfg). as_size_t x < B) \<and> as_size_t (max_points_num cfg) \<le> B"

text \<open>A plane is fitted to more points than the least of these bounds.\<close>

definition fit_size :: "VoxelMapConfig \<Rightarrow> nat" where
  "fit_size cfg = Min (insert (nat update_size_threshold) (as_size_t ` set (layer_init_num cfg)))"

text \<open>The solver does not return three equal eigenvalues for any points that a node of the voxel could fit, so that
  \<open>init_plane\<close> stays within its matrix.\<close>

definition fits_ok :: "eigen_solver \<Rightarrow> VoxelMapConfig \<Rightarrow> vec3 list \<Rightarrow> bool" where
  "fits_ok es cfg H \<longleftrightarrow>
     (\<forall>ps. subseq (map point_w ps) H \<and> fit_size cfg < length ps \<longrightarrow>
        min_index (fst (es (plane_covariance ps))) \<noteq> max_index (fst (es (plane_covariance ps))))"

lemma fit_size_le: "th \<in> set (layer_init_num cfg) \<Longrightarrow> fit_size cfg \<le> as_size_t th" "fit_size cfg \<le> nat update_size_threshold"
  by (simp_all add: fit_size_def)

lemma fits_ok_mono: "fits_ok es cfg H' \<Longrightarrow> subseq H H' \<Longrightarrow> fits_ok es cfg H"
  unfolding fits_ok_def by (meson subseq_order.order_trans)

lemma init_plane_undefined:
  assumes "points \<noteq> []"
  shows "init_plane es thr points pl = Undef \<longleftrightarrow>
    min_index (fst (es (plane_covariance points))) = max_index (fst (es (plane_covariance points)))"
proof -
  have "3 - min_index v - max_index v \<le> 2 \<longleftrightarrow> min_index v \<noteq> max_index v" for v
    by (auto simp: min_index_def max_index_def split: if_splits)
  then show ?thesis using assms by (auto simp: init_plane_def Let_def not_less simp del: diff_diff_left)
qed

lemma equal_extrema: "min_index v = max_index v \<longleftrightarrow> (\<exists>k. v = (k, k, k))"
  by (cases v) (auto simp: min_index_def max_index_def split: if_splits)

lemma init_plane_outcome:
  assumes "subseq (map point_w points) H" and "fit_size cfg < length points"
  shows "outcome (fits_ok es cfg H) (\<lambda>_. True) (init_plane es thr points pl)"
proof (cases "init_plane es thr points pl")
  case Undef
  have "points \<noteq> []" using assms(2) by auto
  then have "\<not> fits_ok es cfg H" using Undef init_plane_undefined [of points es thr pl] assms by (auto simp: fits_ok_def)
  then show ?thesis using Undef by simp
qed simp

text \<open>A node that has got its points but is not initialised: a root of \<open>BuildVoxelMap\<close>, or a leaf in the second
  loop of \<open>cut_octo_tree\<close>.\<close>

definition raw_node :: "VoxelMapConfig \<Rightarrow> nat \<Rightarrow> vec3 list \<Rightarrow> octo \<Rightarrow> bool" where
  "raw_node cfg B H t \<longleftrightarrow>
     (let n = data t
      in leaves t = replicate 8 None \<and> \<not> init_octo n \<and> update_enable n
       \<and> (\<forall>pv \<in> set (temp_points n). in_cube (voxel_center n) (2 * quater_length n) (point_w pv))
       \<and> length (temp_points n) \<le> B \<and> as_size_t (points_size_threshold n) < B
       \<and> subseq (map point_w (temp_points n)) H \<and> new_points n \<le> int (length (temp_points n))
       \<and> points_size_threshold n \<in> set (layer_init_num cfg)
       \<and> (layer n = 0 \<or> int (layer n) \<le> max_layer cfg))"

lemma raw_leaf:
  assumes "raw_node cfg B H t" and "config_ok cfg B" and "int (layer (data t)) < max_layer cfg"
    and "qs = filter (\<lambda>pv. leafnum (voxel_center (data t)) (point_w pv) = k) (temp_points (data t))"
    and "leaf = push_points qs (new_octo (layer (data t) + 1) (layer_init_num cfg ! (layer (data t) + 1))
                     (leaf_center (voxel_center (data t)) (quater_length (data t)) k) (quater_length (data t) / 2))"
  shows "raw_node cfg B H leaf" and "leaf_ok cfg (data t) k (data leaf)"
proof -
  have lay: "layer (data t) + 1 < length (layer_init_num cfg)" using assms(2,3) by (auto simp: config_ok_def)
  then have "as_size_t (layer_init_num cfg ! (layer (data t) + 1)) < B"
    using assms(2) by (auto simp: config_ok_def)
  moreover have "length qs \<le> B"
    using assms(1) unfolding assms(4) raw_node_def Let_def by (meson le_trans length_filter_le)
  moreover have "in_cube (leaf_center (voxel_center (data t)) (quater_length (data t)) k) (2 * (quater_length (data t) / 2)) (point_w pv)"
    if "pv \<in> set qs" for pv
  proof -
    have "k = leafnum (voxel_center (data t)) (point_w pv)"
      "in_cube (voxel_center (data t)) (2 * quater_length (data t)) (point_w pv)"
      using that assms(1) unfolding assms(4) raw_node_def Let_def by auto
    then show ?thesis using in_leaf_cube by blast
  qed
  moreover have "subseq (map point_w qs) H"
  proof -
    have "subseq (map point_w qs) (map point_w (temp_points (data t)))" unfolding assms(4) by (intro subseq_map subseq_filter_left)
    then show ?thesis using assms(1) unfolding raw_node_def Let_def by (meson subseq_order.order_trans)
  qed
  moreover have "layer_init_num cfg ! (layer (data t) + 1) \<in> set (layer_init_num cfg)"
    using lay by (rule nth_mem)
  ultimately show "raw_node cfg B H leaf"
    using assms(3) by (simp add: raw_node_def Let_def assms(5) push_points_simps new_octo_def)
  show "leaf_ok cfg (data t) k (data leaf)"
    using assms(3) by (simp add: leaf_ok_def assms(5) push_points_simps new_octo_def)
qed

text \<open>What \<open>init_octo_tree\<close> promises on a raw node.\<close>

definition settles :: "eigen_solver \<Rightarrow> VoxelMapConfig \<Rightarrow> nat \<Rightarrow> vec3 list \<Rightarrow> octo \<Rightarrow> bool" where
  "settles es cfg B H t \<longleftrightarrow>
     outcome (fits_ok es cfg H) (\<lambda>s. octo_ok cfg B H s \<and> same_place s t) (init_octo_tree es cfg t)"

lemma settle_leaf_settles:
  assumes "settles es cfg B H leaf" and "fuel = layers_left cfg (data leaf)"
  shows "outcome (fits_ok es cfg H) (\<lambda>q. octo_ok cfg B H (fst q) \<and> same_place (fst q) leaf)
           (settle_leaf es cfg (\<lambda>t. cut_octo_tree es cfg fuel t) leaf)"
proof -
  from settle_leaf_init [OF assms(2), of es] obtain flag where
    "settle_leaf es cfg (\<lambda>t. cut_octo_tree es cfg fuel t) leaf = bind_exec (init_octo_tree es cfg leaf) (\<lambda>t. Ret (t, flag))"
    by blast
  then show ?thesis using assms(1) by (auto simp: settles_def intro: outcome_bind)
qed

lemma raw_node_done:
  assumes "raw_node cfg B H t" and "init_octo m" "same_place (Octo m ls) t"
    and "temp_points m = [] \<or> update_enable m \<and> temp_points m = temp_points (data t)" and "new_points m = 0" and "length ls = 8"
    and "\<And>k leaf. leaf_at ls k = Some leaf \<Longrightarrow> leaf_ok cfg m k (data leaf) \<and> octo_ok cfg B H leaf"
  shows "octo_ok cfg B H (Octo m ls)"
  using assms by (intro octo_okI) (auto simp: raw_node_def node_ok_def same_place_def Let_def)

lemma settle_leaves_ok:
  assumes "raw_node cfg B H t" and "length ls = 8" and "same_place (Octo m ls) t"
    and "update_enable m \<and> temp_points m = temp_points (data t)"
    and "\<And>k leaf. leaf_at ls k = Some leaf \<Longrightarrow> leaf_ok cfg m k (data leaf) \<and>
           outcome (fits_ok es cfg H) (\<lambda>q. octo_ok cfg B H (fst q) \<and> same_place (fst q) leaf) (settle_leaf es cfg cutter leaf)"
  shows "outcome (fits_ok es cfg H) (\<lambda>r. octo_ok cfg B H (Octo ((fst r)\<lparr>init_octo := True, new_points := 0\<rparr>) (snd r))
           \<and> same_place (Octo (fst r) (snd r)) t) (settle_leaves es cfg cutter m ls)"
proof (cases "settle_leaves es cfg cutter m ls")
  case Undef
  have "settle_leaf es cfg cutter leaf \<noteq> Undef" if lf: "Some leaf \<in> set ls" and res: "fits_ok es cfg H" for leaf
  proof -
    obtain k where "k < length ls" "ls ! k = Some leaf" using lf by (auto simp: in_set_conv_nth)
    then have "leaf_at ls k = Some leaf" by (simp add: leaf_at_def)
    from assms(5) [OF this] res show ?thesis by auto
  qed
  then show ?thesis using Undef settle_leaves_defined [of ls es cfg cutter m] by auto
next
  case (Ret r)
  obtain m' ls' where r: "r = (m', ls')" by (cases r)
  note at = settle_leaves_at [OF Ret [unfolded r]]
  then obtain x where m': "m' = m\<lparr>new_points := x\<rparr>" by blast
  have "octo_ok cfg B H (Octo (m'\<lparr>init_octo := True, new_points := 0\<rparr>) ls')"
  proof (rule raw_node_done [OF assms(1)])
    fix k leaf assume k: "leaf_at ls' k = Some leaf"
    then obtain leaf0 where l0: "leaf_at ls k = Some leaf0" using at by (cases "leaf_at ls k") auto
    have "\<exists>leaf' flag. settle_leaf es cfg cutter leaf0 = Ret (leaf', flag) \<and> leaf_at ls' k = Some leaf'"
      using at l0 by blast
    then obtain flag where s: "settle_leaf es cfg cutter leaf0 = Ret (leaf, flag)" using k by (metis option.inject)
    have "octo_ok cfg B H leaf \<and> same_place leaf leaf0" using assms(5) [OF l0] s by auto
    then show "leaf_ok cfg (m'\<lparr>init_octo := True, new_points := 0\<rparr>) k (data leaf) \<and> octo_ok cfg B H leaf"
      using assms(5) [OF l0] by (simp add: leaf_ok_def same_place_def m')
  qed (use assms at in \<open>simp_all add: m' same_place_def\<close>)
  then show ?thesis using Ret assms(3) by (simp add: r m' same_place_def)
qed

lemma cut_octo_tree_ok:
  assumes "config_ok cfg B" and "raw_node cfg B H t"
    and "\<And>leaf. raw_node cfg B H leaf \<Longrightarrow> layer (data leaf) = layer (data t) + 1
           \<Longrightarrow> int (layer (data t)) < max_layer cfg \<Longrightarrow> settles es cfg B H leaf"
    and n_def: "n = (data t)\<lparr>plane_ptr := pl, octo_state := 1\<rparr>"
  shows "outcome (fits_ok es cfg H) (\<lambda>s. octo_ok cfg B H (Octo ((data s)\<lparr>init_octo := True, new_points := 0\<rparr>) (leaves s))
           \<and> same_place s t) (cut_octo_tree es cfg (layers_left cfg (data t)) (Octo n (leaves t)))"
proof (cases "int (layer (data t)) \<ge> max_layer cfg")
  case True
  have "octo_ok cfg B H (Octo (n\<lparr>octo_state := 0, init_octo := True, new_points := 0\<rparr>) (leaves t))"
    by (rule raw_node_done [OF assms(2)])
      (use assms(2) in \<open>simp_all add: n_def raw_node_def Let_def same_place_def\<close>)
  then show ?thesis using True by (simp add: layers_left_def n_def same_place_def)
next
  case False
  let ?f = "nat (max_layer cfg - int (layer (data t)))"
  have lv: "leaves t = replicate 8 None" using assms(2) by (simp add: raw_node_def Let_def)
  have "layer n + 1 < length (layer_init_num cfg)" using assms(1) False by (auto simp: config_ok_def n_def)
  from distribute_fresh [OF this, where pvs = "temp_points n"] obtain ls where
    ls: "distribute cfg n (temp_points n) (replicate 8 None) = Ret ls" "length ls = 8"
    "\<And>k. leaf_at ls k = (let qs = filter (\<lambda>pv. leafnum (voxel_center n) (point_w pv) = k) (temp_points n)
       in if qs = [] then None
          else Some (push_points qs (new_octo (layer n + 1) (layer_init_num cfg ! (layer n + 1))
                 (leaf_center (voxel_center n) (quater_length n) k) (quater_length n / 2))))"
    by blast
  have "outcome (fits_ok es cfg H) (\<lambda>r. octo_ok cfg B H (Octo ((fst r)\<lparr>init_octo := True, new_points := 0\<rparr>) (snd r))
      \<and> same_place (Octo (fst r) (snd r)) t) (settle_leaves es cfg (\<lambda>t. cut_octo_tree es cfg ?f t) n ls)"
  proof (rule settle_leaves_ok [OF assms(2) ls(2)])
    fix k leaf assume at: "leaf_at ls k = Some leaf"
    have raw: "raw_node cfg B H leaf" "leaf_ok cfg (data t) k (data leaf)"
      using raw_leaf [OF assms(2,1), where k = k and leaf = leaf] at False
      by (auto simp: ls(3) n_def Let_def split: if_splits)
    have "settles es cfg B H leaf" using assms(3) raw False by (simp add: leaf_ok_def)
    moreover have "?f = layers_left cfg (data leaf)" using raw(2) False by (simp add: layers_left_def leaf_ok_def)
    ultimately show "leaf_ok cfg n k (data leaf) \<and> outcome (fits_ok es cfg H)
        (\<lambda>q. octo_ok cfg B H (fst q) \<and> same_place (fst q) leaf) (settle_leaf es cfg (\<lambda>t. cut_octo_tree es cfg ?f t) leaf)"
      using settle_leaf_settles [of es cfg B H leaf ?f] raw(2) by (simp add: leaf_ok_def n_def)
  qed (use assms(2) in \<open>simp_all add: n_def raw_node_def Let_def same_place_def\<close>)
  then show ?thesis using False ls(1) by (auto simp: layers_left_def lv n_def intro: outcome_bind)
qed

text \<open>\<open>init_octo_tree\<close> and with it \<open>cut_octo_tree\<close>: the fuel is enough, and the result satisfies the invariant.\<close>

lemma init_octo_tree_ok:
  assumes "config_ok cfg B" and "raw_node cfg B H t"
  shows "settles es cfg B H t"
  using assms(2)
proof (induction "nat (max_layer cfg - int (layer (data t)))" arbitrary: t rule: less_induct)
  case less
  let ?n = "data t"
  have lv: "leaves t = replicate 8 None" using less.prems by (simp add: raw_node_def Let_def)
  show ?case
  proof (cases "length (temp_points ?n) > as_size_t (points_size_threshold ?n)")
    case False
    have "octo_ok cfg B H t"
      using less.prems False lv by (intro octo_okI) (auto simp: raw_node_def node_ok_def Let_def)
    then show ?thesis using False by (simp add: settles_def init_octo_tree_def Let_def same_place_def)
  next
    case big: True
    have fit: "subseq (map point_w (temp_points ?n)) H" "fit_size cfg < length (temp_points ?n)"
      using less.prems big fit_size_le(1) [of "points_size_threshold ?n" cfg] by (auto simp: raw_node_def Let_def)
    have cut: "outcome (fits_ok es cfg H) (\<lambda>s. octo_ok cfg B H (Octo ((data s)\<lparr>init_octo := True, new_points := 0\<rparr>) (leaves s))
        \<and> same_place s t) (cut_octo_tree es cfg (layers_left cfg ?n) (Octo (?n\<lparr>plane_ptr := pl, octo_state := 1\<rparr>) (leaves t)))"
      for pl by (rule cut_octo_tree_ok [OF assms(1) less.prems _ refl]) (rule less.hyps, auto)
    have plane: "octo_ok cfg B H (Octo m (leaves t)) \<and> same_place (Octo m (leaves t)) t"
      if "m = (if full then freeze (?n\<lparr>plane_ptr := pl, octo_state := 0\<rparr>) else ?n\<lparr>plane_ptr := pl, octo_state := 0\<rparr>)
            \<lparr>init_octo := True, new_points := 0\<rparr>" for m full pl
    proof -
      have "same_place (Octo m (leaves t)) t" by (simp add: that freeze_def same_place_def)
      then show ?thesis using less.prems lv
        by (auto intro!: raw_node_done [OF less.prems] simp: that freeze_def raw_node_def Let_def)
    qed
    show ?thesis
    proof (cases "init_plane es (planner_threshold cfg) (temp_points ?n) (plane_ptr ?n)")
      case Undef
      then show ?thesis using init_plane_outcome [OF fit, of es "planner_threshold cfg" "plane_ptr ?n"] big
        by (simp add: settles_def init_octo_tree_def Let_def)
    next
      case (Ret pl)
      show ?thesis
      proof (cases "vp_is_plane pl")
        case True
        then show ?thesis
          using Ret big plane [OF refl, of "length (temp_points ?n) > as_size_t (max_points_num cfg)" pl]
          by (simp add: settles_def init_octo_tree_def Let_def)
      next
        case False
        then show ?thesis using Ret big cut [of pl]
          by (auto simp: settles_def init_octo_tree_def Let_def same_place_def intro: outcome_bind)
      qed
    qed
  qed
qed

lemma octo_ok_data:
  assumes "octo_ok cfg B H t" and "node_ok cfg B H (Octo m (leaves t))" and "same_place (Octo m (leaves t)) t"
  shows "octo_ok cfg B H (Octo m (leaves t))"
proof (rule octo_okI [OF assms(2)])
  fix k leaf assume "leaf_at (leaves (Octo m (leaves t))) k = Some leaf"
  then have "leaf_ok cfg (data t) k (data leaf) \<and> octo_ok cfg B H leaf" using octo_okD(2) [OF assms(1)] by simp
  then show "leaf_ok cfg (data (Octo m (leaves t))) k (data leaf) \<and> octo_ok cfg B H leaf"
    using assms(3) by (simp add: leaf_ok_def same_place_def)
qed

lemma octo_ok_mono: "octo_ok cfg B H t \<Longrightarrow> subseq H H' \<Longrightarrow> octo_ok cfg B H' t"
proof (induction cfg B H t rule: octo_ok.induct)
  case (1 cfg B H t)
  have "node_ok cfg B H t" by (rule octo_okD(1) [OF "1.prems"(1)])
  then have "node_ok cfg B H' t"
    using "1.prems"(2) unfolding node_ok_def Let_def by (meson subseq_order.order_trans)
  then show ?case
    by (rule octo_okI) (use octo_okD(2) [OF "1.prems"(1)] "1.IH" "1.prems"(2) in blast)
qed

text \<open>Collecting a point in a node keeps its bound.\<close>

lemma collect_point_ok:
  assumes "octo_ok cfg B H t" and "config_ok cfg B" and "init_octo (data t)" and "update_enable (data t)"
    and "in_cube (voxel_center (data t)) (2 * quater_length (data t)) (point_w pv)"
    and "\<And>k. as_size_t (max_points_num cfg) < k \<Longrightarrow> full k"
    and "subseq (map point_w (temp_points (data t)) @ [point_w pv]) H"
  shows "outcome (fits_ok es cfg H) (\<lambda>m. octo_ok cfg B H (Octo m (leaves t)) \<and> same_place (Octo m (leaves t)) t)
           (collect_point es cfg full pv (data t))"
proof -
  let ?n = "push_point pv (data t)"
  have nd: "node_ok cfg B H t" by (rule octo_okD(1) [OF assms(1)])
  have fin: "octo_ok cfg B H (Octo m (leaves t)) \<and> same_place (Octo m (leaves t)) t"
    if "m = (if full (length (temp_points l)) then freeze l else l)" "l = ?n\<lparr>plane_ptr := pl, new_points := x\<rparr>"
      "x \<le> int (length (temp_points ?n))" for m l pl x
  proof -
    have "length (temp_points m) \<le> B"
    proof (cases "full (length (temp_points l))")
      case False
      then have "\<not> as_size_t (max_points_num cfg) < length (temp_points l)" using assms(6) by blast
      then show ?thesis using False that(1) assms(2) by (simp add: config_ok_def)
    qed (simp add: that freeze_def)
    moreover have "update_enable m \<or> temp_points m = []"
      using that assms(4) by (auto simp: freeze_def push_point_def)
    moreover have "\<forall>pv \<in> set (temp_points m). in_cube (voxel_center (data t)) (2 * quater_length (data t)) (point_w pv)"
      using that nd assms(5) by (auto simp: freeze_def push_point_def node_ok_def Let_def)
    moreover have frame: "voxel_center m = voxel_center (data t)" "quater_length m = quater_length (data t)"
      "layer m = layer (data t)" "points_size_threshold m = points_size_threshold (data t)" "init_octo m"
      using that assms(3) by (auto simp: freeze_def push_point_def)
    moreover have "subseq (map point_w (temp_points m)) H"
      using that assms(7) by (auto simp: freeze_def push_point_def)
    moreover have "new_points m \<le> int (length (temp_points m))" using that by (auto simp: freeze_def push_point_def)
    ultimately have "node_ok cfg B H (Octo m (leaves t))" using nd by (simp add: node_ok_def Let_def)
    moreover have "same_place (Octo m (leaves t)) t" using frame by (simp add: same_place_def)
    ultimately show ?thesis using octo_ok_data [OF assms(1)] by blast
  qed
  have cnt: "new_points ?n \<le> int (length (temp_points ?n))" using nd by (simp add: push_point_def node_ok_def Let_def)
  have sub: "subseq (map point_w (temp_points ?n)) H" using assms(7) by (simp add: push_point_def)
  have keep: "?n = ?n\<lparr>plane_ptr := plane_ptr ?n, new_points := new_points ?n\<rparr>" by simp
  show ?thesis
  proof (cases "new_points ?n > update_size_threshold")
    case True
    have size: "fit_size cfg < length (temp_points ?n)"
      using True cnt fit_size_le(2) [of cfg] by (simp add: update_size_threshold_def)
    have "outcome (fits_ok es cfg H) (\<lambda>m. octo_ok cfg B H (Octo m (leaves t)) \<and> same_place (Octo m (leaves t)) t)
        (bind_exec (init_plane es (planner_threshold cfg) (temp_points ?n) (plane_ptr ?n))
          (\<lambda>pl. let l = ?n\<lparr>plane_ptr := pl, new_points := 0\<rparr>
                in Ret (if full (length (temp_points l)) then freeze l else l)))"
      by (rule outcome_bind [OF init_plane_outcome [OF sub size]]) (simp only: Let_def outcome_simps fin [OF refl refl] of_nat_0_le_iff)
    then show ?thesis using True by (simp add: collect_point_def Let_def bind_exec_assoc)
  next
    case False
    then show ?thesis using fin [OF refl keep cnt] by (simp add: collect_point_def Let_def)
  qed
qed

lemma set_leaf_ok:
  assumes "octo_ok cfg B H t" and "init_octo (data t)" and "k < 8"
    and "leaf_ok cfg (data t) k (data leaf)" and "octo_ok cfg B H leaf"
  shows "octo_ok cfg B H (Octo (data t) ((leaves t)[k := Some leaf]))"
proof -
  have nd: "node_ok cfg B H t" by (rule octo_okD(1) [OF assms(1)])
  then have len: "length (leaves t) = 8" by (simp add: node_ok_def Let_def)
  have "node_ok cfg B H (Octo (data t) ((leaves t)[k := Some leaf]))"
    using nd assms(2) by (simp add: node_ok_def Let_def)
  then show ?thesis
  proof (rule octo_okI)
    fix j l assume "leaf_at (leaves (Octo (data t) ((leaves t)[k := Some leaf]))) j = Some l"
    then have "j = k \<and> l = leaf \<or> leaf_at (leaves t) j = Some l" using assms(3) len by (auto split: if_splits)
    then show "leaf_ok cfg (data (Octo (data t) ((leaves t)[k := Some leaf]))) j (data l) \<and> octo_ok cfg B H l"
      using octo_okD(2) [OF assms(1)] assms(4,5) by (cases "j = k \<and> l = leaf") simp_all
  qed
qed

lemma new_leaf_ok:
  assumes "config_ok cfg B" and "int (layer n) < max_layer cfg"
  shows "outcome d (\<lambda>leaf. octo_ok cfg B H leaf \<and> leaf_ok cfg n k (data leaf)) (new_leaf cfg n k)"
proof -
  have "layer n + 1 < length (layer_init_num cfg)" using assms by (auto simp: config_ok_def)
  moreover from this have "as_size_t (layer_init_num cfg ! (layer n + 1)) < B"
    using assms(1) by (auto simp: config_ok_def)
  moreover have "octo_ok cfg B H (new_octo (layer n + 1) th c q)"
    if "as_size_t th < B" "th \<in> set (layer_init_num cfg)" for th c q
    using that assms(2) by (intro octo_okI) (simp_all add: node_ok_def new_octo_def)
  ultimately show ?thesis using assms(2) by (simp add: new_leaf_def leaf_ok_def) (simp add: new_octo_def)
qed

lemma UpdateOctoTree_ok:
  assumes "config_ok cfg B" and "octo_ok cfg B H t"
    and "in_cube (voxel_center (data t)) (2 * quater_length (data t)) (point_w pv)"
  shows "outcome (fits_ok es cfg (H @ [point_w pv])) (\<lambda>s. octo_ok cfg B (H @ [point_w pv]) s \<and> same_place s t)
           (UpdateOctoTree es cfg pv t)"
  using assms
proof (induction es cfg pv t rule: UpdateOctoTree.induct)
  case (1 es cfg pv t)
  let ?n = "data t" and ?k = "leafnum (voxel_center (data t)) (point_w pv)"
  let ?H = "H @ [point_w pv]"
  have nd: "node_ok cfg B H t" by (rule octo_okD(1) [OF "1.prems"(2)])
  have mono: "octo_ok cfg B ?H t" by (rule octo_ok_mono [OF "1.prems"(2)]) (simp add: subseq_rev_drop_many)
  have nx: "subseq (map point_w (temp_points ?n) @ [point_w pv]) ?H" using nd by (simp add: node_ok_def Let_def)
  consider (raw) "\<not> init_octo ?n" | (flat) "init_octo ?n" "vp_is_plane (plane_ptr ?n)"
    | (inner) "init_octo ?n" "\<not> vp_is_plane (plane_ptr ?n)" "int (layer ?n) < max_layer cfg"
    | (bottom) "init_octo ?n" "\<not> vp_is_plane (plane_ptr ?n)" "\<not> int (layer ?n) < max_layer cfg" by blast
  then show ?case
  proof cases
    case raw
    let ?t = "Octo (push_point pv ?n) (leaves t)"
    have r: "raw_node cfg B ?H ?t"
      using nd raw "1.prems"(3) by (auto simp: raw_node_def node_ok_def push_point_def Let_def)
    have sp: "same_place ?t t" by (simp add: same_place_def push_point_def)
    show ?thesis
    proof (cases "length (temp_points (push_point pv ?n)) > as_size_t (points_size_threshold (push_point pv ?n))")
      case True
      have "outcome (fits_ok es cfg ?H) (\<lambda>s. octo_ok cfg B ?H s \<and> same_place s t) (init_octo_tree es cfg ?t)"
        using init_octo_tree_ok [OF "1.prems"(1) r, of es] sp unfolding settles_def
        by (elim outcome_weaken) (auto simp: same_place_def)
      then show ?thesis using raw True by (simp add: UpdateOctoTree.simps [of es cfg pv t] Let_def)
    next
      case False
      have "octo_ok cfg B ?H ?t"
        using r False by (intro octo_okI) (auto simp: raw_node_def node_ok_def Let_def)
      then show ?thesis using raw False sp by (simp add: UpdateOctoTree.simps [of es cfg pv t] Let_def)
    qed
  next
    case flat
    show ?thesis
    proof (cases "update_enable ?n")
      case True
      have "outcome (fits_ok es cfg ?H) (\<lambda>m. octo_ok cfg B ?H (Octo m (leaves t)) \<and> same_place (Octo m (leaves t)) t)
          (collect_point es cfg (\<lambda>size. size \<ge> as_size_t (max_points_num cfg)) pv ?n)"
        using collect_point_ok [OF mono "1.prems"(1) flat(1) True "1.prems"(3) _ nx] by simp
      then show ?thesis using flat True
        by (auto simp: UpdateOctoTree.simps [of es cfg pv t] Let_def intro: outcome_bind)
    next
      case False
      then show ?thesis using flat mono
        by (simp add: UpdateOctoTree.simps [of es cfg pv t] Let_def same_place_def)
    qed
  next
    case bottom
    show ?thesis
    proof (cases "update_enable ?n")
      case True
      have "outcome (fits_ok es cfg ?H) (\<lambda>m. octo_ok cfg B ?H (Octo m (leaves t)) \<and> same_place (Octo m (leaves t)) t)
          (collect_point es cfg (\<lambda>size. size > as_size_t (max_points_num cfg)) pv ?n)"
        using collect_point_ok [OF mono "1.prems"(1) bottom(1) True "1.prems"(3) _ nx] by simp
      then show ?thesis using bottom True
        by (auto simp: UpdateOctoTree.simps [of es cfg pv t] Let_def intro: outcome_bind)
    next
      case False
      then show ?thesis using bottom mono
        by (simp add: UpdateOctoTree.simps [of es cfg pv t] Let_def same_place_def)
    qed
  next
    case inner
    have cube: "in_cube (leaf_center (voxel_center ?n) (quater_length ?n) ?k) (2 * (quater_length ?n / 2)) (point_w pv)"
      by (rule in_leaf_cube [OF "1.prems"(3)])
    have cube_of: "in_cube (voxel_center (data leaf)) (2 * quater_length (data leaf)) (point_w pv)"
      if "leaf_ok cfg ?n ?k (data leaf)" for leaf
      using that cube by (simp only: leaf_ok_def)
    have put: "octo_ok cfg B ?H (Octo ?n ((leaves t)[?k := Some s]))"
      if "octo_ok cfg B ?H s" "same_place s leaf" "leaf_ok cfg ?n ?k (data leaf)" for s leaf
      using that by (intro set_leaf_ok [OF mono inner(1) leafnum_less]) (auto simp: leaf_ok_def same_place_def)
    show ?thesis
    proof (cases "leaf_at (leaves t) ?k")
      case (Some leaf)
      have l: "leaf_ok cfg ?n ?k (data leaf)" "octo_ok cfg B H leaf" using octo_okD(2) [OF "1.prems"(2) Some] by auto
      have "outcome (fits_ok es cfg ?H) (\<lambda>s. octo_ok cfg B ?H s \<and> same_place s leaf) (UpdateOctoTree es cfg pv leaf)"
        using "1.IH"(2) [OF refl _ _ _ refl Some] inner "1.prems"(1) l(2) cube_of [OF l(1)] by blast
      then show ?thesis using inner Some put l(1)
        by (auto simp: UpdateOctoTree.simps [of es cfg pv t] Let_def same_place_def intro: outcome_bind)
    next
      case None
      have ih: "outcome (fits_ok es cfg ?H) (\<lambda>s. octo_ok cfg B ?H s \<and> same_place s leaf) (UpdateOctoTree es cfg pv leaf)"
        if "new_leaf cfg ?n ?k = Ret leaf" "octo_ok cfg B H leaf \<and> leaf_ok cfg ?n ?k (data leaf)" for leaf
        using "1.IH"(1) [OF refl _ _ _ refl None that(1)] inner "1.prems"(1) that(2) cube_of by blast
      have "outcome (fits_ok es cfg ?H) (\<lambda>s. octo_ok cfg B ?H s \<and> same_place s t)
          (bind_exec (new_leaf cfg ?n ?k) (\<lambda>leaf. bind_exec (UpdateOctoTree es cfg pv leaf)
            (\<lambda>leaf. Ret (Octo ?n ((leaves t)[?k := Some leaf])))))"
        by (rule outcome_bind [OF new_leaf_ok [OF "1.prems"(1) inner(3)]], rule outcome_bind [OF ih])
          (auto simp: same_place_def intro: put)
      then show ?thesis using inner None by (simp add: UpdateOctoTree.simps [of es cfg pv t] Let_def)
    qed
  qed
qed

end
