(* ===== verification/So3.thy ===== *)
theory So3
  imports Voxel_Plane
begin

text \<open>
  Rotations: the templates of \<^verbatim>\<open>fast_livo/include/utils/so3_math.h\<close> at \<open>T = double\<close>, over the reals. The
  exponential is Rodrigues' formula with a cut-off below which it returns the identity, the logarithm has a branch
  for small angles.
\<close>

section \<open>Exponential and logarithm\<close>

definition rodrigues :: "vec3 \<Rightarrow> real \<Rightarrow> mat3" where
  "rodrigues axis ang =
     (let K = skew_sym axis
      in m3_add (m3_add m3_one (m3_scale (sin ang) K)) (m3_mult (m3_scale (1 - cos ang) K) K))"

text \<open>The three overloads of \<open>Exp\<close>.\<close>

definition Exp_vec :: "vec3 \<Rightarrow> mat3" where
  "Exp_vec ang =
     (let ang_norm = v3_norm ang
      in if ang_norm > 1 / 10000000 then rodrigues (v3_scale (1 / ang_norm) ang) ang_norm else m3_one)"

definition Exp_dt :: "vec3 \<Rightarrow> real \<Rightarrow> mat3" where
  "Exp_dt ang_vel dt =
     (let ang_vel_norm = v3_norm ang_vel
      in if ang_vel_norm > 1 / 10000000
         then rodrigues (v3_scale (1 / ang_vel_norm) ang_vel) (ang_vel_norm * dt) else m3_one)"

definition Exp3 :: "vec3 \<Rightarrow> mat3" where
  "Exp3 v =
     (let norm = v3_norm v
      in if norm > 1 / 100000 then rodrigues (v3_scale (1 / norm) v) norm else m3_one)"

definition Log_so3 :: "mat3 \<Rightarrow> vec3" where
  "Log_so3 R =
     (let theta = (if m3_trace R > 3 - 1 / 1000000 then 0 else arccos (1 / 2 * (m3_trace R - 1)));
          K = (m3_at R 2 1 - m3_at R 1 2, m3_at R 0 2 - m3_at R 2 0, m3_at R 1 0 - m3_at R 0 1)
      in if \<bar>theta\<bar> < 1 / 1000 then v3_scale (1 / 2) K else v3_scale (1 / 2 * theta / sin theta) K)"

definition RotMtoEuler :: "mat3 \<Rightarrow> vec3" where
  "RotMtoEuler rot =
     (let sy = sqrt (m3_at rot 0 0 * m3_at rot 0 0 + m3_at rot 1 0 * m3_at rot 1 0);
          singular = sy < 1 / 1000000
      in if \<not> singular
         then (atan2 (m3_at rot 2 1) (m3_at rot 2 2), atan2 (- m3_at rot 2 0) sy, atan2 (m3_at rot 1 0) (m3_at rot 0 0))
         else (atan2 (- m3_at rot 1 2) (m3_at rot 1 1), atan2 (- m3_at rot 2 0) sy, 0))"

section \<open>Rotation matrices\<close>

definition is_rotation :: "mat3 \<Rightarrow> bool" where
  "is_rotation r \<longleftrightarrow> m3_mult r (m3_transpose r) = m3_one \<and> m3_mult (m3_transpose r) r = m3_one \<and> m3_det r = 1"

lemma m3_mult_one [simp]: "m3_mult m3_one m = m" "m3_mult m m3_one = m"
proof -
  obtain a b c d e f g h i where m: "m = ((a, b, c), (d, e, f), (g, h, i))" by (metis prod.exhaust)
  show "m3_mult m3_one m = m" "m3_mult m m3_one = m" by (simp_all add: m m3_mult_def m3_one_def m3_diag_def)
qed

lemma m3_det_mult: "m3_det (m3_mult a b) = m3_det a * m3_det b"
proof -
  obtain a1 a2 a3 a4 a5 a6 a7 a8 a9 where a: "a = ((a1, a2, a3), (a4, a5, a6), (a7, a8, a9))" by (metis prod.exhaust)
  obtain b1 b2 b3 b4 b5 b6 b7 b8 b9 where b: "b = ((b1, b2, b3), (b4, b5, b6), (b7, b8, b9))" by (metis prod.exhaust)
  show ?thesis by (simp add: a b m3_mult_def) algebra
qed

lemma is_rotation_one [simp]: "is_rotation m3_one"
  by (simp add: is_rotation_def m3_one_def m3_diag_def m3_mult_def)

lemma is_rotation_mult: "is_rotation a \<Longrightarrow> is_rotation b \<Longrightarrow> is_rotation (m3_mult a b)"
  unfolding is_rotation_def m3_transpose_mult m3_det_mult
  by (metis m3_mult_assoc m3_mult_one mult_1)

lemma is_rotation_apply: "is_rotation r \<Longrightarrow> m3_apply (m3_transpose r) (m3_apply r v) = v"
  "is_rotation r \<Longrightarrow> m3_apply r (m3_apply (m3_transpose r) v) = v"
  by (simp_all add: is_rotation_def flip: m3_mult_apply)

lemma rodrigues_entries:
  "rodrigues (x, y, z) a =
     ((1 - (1 - cos a) * (y * y + z * z), (1 - cos a) * (x * y) - sin a * z, (1 - cos a) * (x * z) + sin a * y),
      ((1 - cos a) * (x * y) + sin a * z, 1 - (1 - cos a) * (x * x + z * z), (1 - cos a) * (y * z) - sin a * x),
      ((1 - cos a) * (x * z) - sin a * y, (1 - cos a) * (y * z) + sin a * x, 1 - (1 - cos a) * (x * x + y * y)))"
  by (simp add: rodrigues_def Let_def m3_mult_def m3_one_def m3_diag_def algebra_simps)

lemma rodrigues_rotation:
  assumes "v3_dot u u = 1"
  shows "is_rotation (rodrigues u a)"
proof -
  obtain x y z where u: "u = (x, y, z)" by (cases u) auto
  define s c where "s = sin a" and "c = cos a"
  have h: "x * x + y * y + z * z = 1" using assms by (simp add: u)
  have sc: "s * s + c * c = 1" using sin_cos_squared_add3 [of a] by (simp add: s_def c_def add.commute)
  have m: "rodrigues u a =
     ((1 - (1 - c) * (y * y + z * z), (1 - c) * (x * y) - s * z, (1 - c) * (x * z) + s * y),
      ((1 - c) * (x * y) + s * z, 1 - (1 - c) * (x * x + z * z), (1 - c) * (y * z) - s * x),
      ((1 - c) * (x * z) - s * y, (1 - c) * (y * z) + s * x, 1 - (1 - c) * (x * x + y * y)))"
    by (simp add: u rodrigues_entries s_def c_def)
  show ?thesis
    unfolding is_rotation_def m m3_mult_def m3_one_def m3_diag_def m3_transpose.simps m3_det.simps v3_dot.simps
      prod.case prod.inject
    using h sc by (intro conjI; algebra)
qed

lemma v3_unit_axis: "v3_norm v > 0 \<Longrightarrow> v3_dot (v3_scale (1 / v3_norm v) v) (v3_scale (1 / v3_norm v) v) = 1"
proof -
  assume p: "v3_norm v > 0"
  have "v3_dot v v = v3_norm v * v3_norm v" using v3_norm_sq [of v] by (simp add: power2_eq_square)
  then show ?thesis using p by simp
qed

lemma Exp_rotation: "is_rotation (Exp_vec v)" "is_rotation (Exp_dt v dt)" "is_rotation (Exp3 v)"
  by (auto simp: Exp_vec_def Exp_dt_def Exp3_def Let_def intro!: rodrigues_rotation v3_unit_axis)

section \<open>The logarithm of an exponential\<close>

lemma rodrigues_trace: "v3_dot u u = 1 \<Longrightarrow> m3_trace (rodrigues u a) = 1 + 2 * cos a"
proof -
  assume u1: "v3_dot u u = 1"
  obtain x y z where u: "u = (x, y, z)" by (cases u) auto
  have h: "x * x + y * y + z * z = 1" using u1 by (simp add: u)
  have "m3_trace (rodrigues u a) = 3 - 2 * (1 - cos a) * (x * x + y * y + z * z)"
    by (simp add: u rodrigues_entries algebra_simps)
  then show ?thesis by (simp add: h)
qed

lemma rodrigues_skew:
  "(m3_at (rodrigues u a) 2 1 - m3_at (rodrigues u a) 1 2, m3_at (rodrigues u a) 0 2 - m3_at (rodrigues u a) 2 0,
    m3_at (rodrigues u a) 1 0 - m3_at (rodrigues u a) 0 1) = v3_scale (2 * sin a) u"
  by (cases u) (simp add: rodrigues_entries algebra_simps)

text \<open>Above the cut-off of the logarithm and below a half turn \<open>Log\<close> inverts \<open>Exp\<close>.\<close>

lemma Log_Exp3:
  assumes "1 + 2 * cos (v3_norm v) \<le> 3 - 1 / 1000000" and "1 / 1000 \<le> v3_norm v" and "v3_norm v < pi"
  shows "Log_so3 (Exp3 v) = v"
proof -
  define a where "a = v3_norm v"
  define u where "u = v3_scale (1 / a) v"
  have a: "a > 0" using assms(2) by (simp add: a_def)
  have u1: "v3_dot u u = 1" unfolding u_def a_def by (rule v3_unit_axis) (use a in \<open>simp add: a_def\<close>)
  have e: "Exp3 v = rodrigues u a" using assms(2) by (simp add: Exp3_def Let_def u_def a_def)
  have s: "sin a > 0" using a assms(3) by (simp add: sin_gt_zero a_def)
  have ac: "arccos (cos a) = a" using a assms(3) by (intro arccos_cos) (simp_all add: a_def)
  have uv: "v3_scale a u = v" using a by (cases v) (simp add: u_def)
  have "\<not> m3_trace (Exp3 v) > 3 - 1 / 1000000" using assms(1) by (simp add: e rodrigues_trace [OF u1] a_def)
  moreover have "arccos (1 / 2 * (m3_trace (Exp3 v) - 1)) = a" using ac by (simp add: e rodrigues_trace [OF u1])
  moreover have "\<not> \<bar>a\<bar> < 1 / 1000" using assms(2) by (simp add: a_def)
  ultimately have "Log_so3 (Exp3 v) = v3_scale (1 / 2 * a / sin a) (v3_scale (2 * sin a) u)"
    unfolding Log_so3_def Let_def by (simp only: e rodrigues_skew if_False)
  also have "\<dots> = v3_scale a u" using s by (cases u) simp
  finally show ?thesis using uv by simp
qed

text \<open>For smaller angles the logarithm uses \<open>sin a = a\<close>, for the smallest ones both are the identity.\<close>

lemma Log_Exp3_small:
  assumes "3 - 1 / 1000000 < 1 + 2 * cos (v3_norm v)" and "1 / 100000 < v3_norm v"
  shows "Log_so3 (Exp3 v) = v3_scale (sin (v3_norm v) / v3_norm v) v"
proof -
  define a where "a = v3_norm v"
  define u where "u = v3_scale (1 / a) v"
  have a: "a > 0" using assms(2) by (simp add: a_def)
  have u1: "v3_dot u u = 1" unfolding u_def a_def by (rule v3_unit_axis) (use a in \<open>simp add: a_def\<close>)
  have e: "Exp3 v = rodrigues u a" using assms(2) by (simp add: Exp3_def Let_def u_def a_def)
  have "m3_trace (Exp3 v) > 3 - 1 / 1000000" using assms(1) by (simp add: e rodrigues_trace [OF u1] a_def)
  then have "Log_so3 (Exp3 v) = v3_scale (1 / 2) (v3_scale (2 * sin a) u)"
    unfolding Log_so3_def Let_def e rodrigues_skew by simp
  also have "\<dots> = v3_scale (sin a / a) v" by (cases v) (simp add: u_def)
  finally show ?thesis by (simp add: a_def)
qed

lemma Log_Exp3_tiny: "v3_norm v \<le> 1 / 100000 \<Longrightarrow> Log_so3 (Exp3 v) = v3_zero"
  by (simp add: Exp3_def Log_so3_def m3_one_def m3_diag_def v3_zero_def)

end
