(* ===== verification/State_Group.thy ===== *)
theory State_Group
  imports So3
begin

text \<open>
  The state of the LiDAR-inertial filter: \<open>StatesGroup\<close> of \<^verbatim>\<open>fast_livo/include/common_lib.h\<close> with its operators,
  the error-state increment on the 19-dimensional tangent space and its inverse.
\<close>

definition DIM_STATE :: nat where "DIM_STATE = 19"

definition INIT_COV :: real where "INIT_COV = 1 / 100"

record StatesGroup =
  rot_end :: mat3
  pos_end :: vec3
  vel_end :: vec3
  inv_expo_time :: real
  bias_g :: vec3
  bias_a :: vec3
  gravity :: vec3
  cov :: mat

text \<open>The constructor.\<close>

definition init_cov :: mat where
  "init_cov = (\<lambda>i j. if 10 \<le> i \<and> i < 19 \<and> 10 \<le> j \<and> j < 19 then (if i = j then 1 / 100000 else 0)
                     else if i = 6 \<and> j = 6 then 1 / 100000
                     else INIT_COV * mident i j)"

definition new_StatesGroup :: StatesGroup where
  "new_StatesGroup = \<lparr>rot_end = m3_one, pos_end = v3_zero, vel_end = v3_zero, inv_expo_time = 1, bias_g = v3_zero,
     bias_a = v3_zero, gravity = v3_zero, cov = init_cov\<rparr>"

text \<open>\<open>operator+\<close> and \<open>operator+=\<close>\<close>

definition state_plus :: "StatesGroup \<Rightarrow> vec \<Rightarrow> StatesGroup" where
  "state_plus s d = s\<lparr>rot_end := m3_mult (rot_end s) (Exp3 (seg3 0 d)), pos_end := v3_add (pos_end s) (seg3 3 d),
     inv_expo_time := inv_expo_time s + d 6, vel_end := v3_add (vel_end s) (seg3 7 d),
     bias_g := v3_add (bias_g s) (seg3 10 d), bias_a := v3_add (bias_a s) (seg3 13 d),
     gravity := v3_add (gravity s) (seg3 16 d)\<rparr>"

text \<open>\<open>operator-\<close>\<close>

definition state_minus :: "StatesGroup \<Rightarrow> StatesGroup \<Rightarrow> vec" where
  "state_minus a b =
     (let rotd = m3_mult (m3_transpose (rot_end b)) (rot_end a)
      in (\<lambda>i. if i < 3 then v3_at (Log_so3 rotd) i
              else if i < 6 then v3_at (v3_sub (pos_end a) (pos_end b)) (i - 3)
              else if i = 6 then inv_expo_time a - inv_expo_time b
              else if i < 10 then v3_at (v3_sub (vel_end a) (vel_end b)) (i - 7)
              else if i < 13 then v3_at (v3_sub (bias_g a) (bias_g b)) (i - 10)
              else if i < 16 then v3_at (v3_sub (bias_a a) (bias_a b)) (i - 13)
              else v3_at (v3_sub (gravity a) (gravity b)) (i - 16)))"

definition resetpose :: "StatesGroup \<Rightarrow> StatesGroup" where
  "resetpose s = s\<lparr>rot_end := m3_one, pos_end := v3_zero, vel_end := v3_zero\<rparr>"

lemma v3_sub_add [simp]: "v3_sub (v3_add u v) u = v"
  by (cases u; cases v) simp

lemma v3_at_seg3: "i < 3 \<Longrightarrow> v3_at (seg3 k d) i = d (k + i)"
  by (auto simp: seg3_def less_Suc_eq numeral_3_eq_3 numeral_2_eq_2)

lemma v3_add_zero [simp]: "v3_add v v3_zero = v" "v3_sub v v = v3_zero" "v3_at v3_zero i = 0"
  by (cases v; simp add: v3_zero_def)+

lemma init_cov_psd: "mpsd DIM_STATE init_cov" "msym DIM_STATE init_cov"
proof -
  have d: "init_cov i j = mdiag (\<lambda>i. if 10 \<le> i \<or> i = 6 then 1 / 100000 else INIT_COV) i j"
    if "i < DIM_STATE" "j < DIM_STATE" for i j
    using that by (auto simp: init_cov_def mdiag_def mident_def DIM_STATE_def)
  show "mpsd DIM_STATE init_cov" "msym DIM_STATE init_cov"
    by (rule mpsd_diagI [OF d]; simp add: INIT_COV_def)+
qed

lemma state_plus_cov [simp]: "cov (state_plus s d) = cov s"
  by (simp add: state_plus_def)

text \<open>The increment keeps rotations, so the attitude stays a rotation along every run of the filter.\<close>

lemma state_plus_rotation: "is_rotation (rot_end s) \<Longrightarrow> is_rotation (rot_end (state_plus s d))"
  by (simp add: state_plus_def is_rotation_mult Exp_rotation)

lemma state_plus_zero: "state_plus s (\<lambda>_. 0) = s"
proof -
  have "seg3 k (\<lambda>_. 0) = v3_zero" for k by (simp add: seg3_def v3_zero_def)
  moreover have "Exp3 v3_zero = m3_one" by (simp add: Exp3_def v3_norm_def)
  ultimately show ?thesis by (simp add: state_plus_def)
qed

lemma Log_one: "Log_so3 m3_one = v3_zero"
  by (simp add: Log_so3_def m3_one_def m3_diag_def v3_zero_def)

lemma state_minus_self: "is_rotation (rot_end s) \<Longrightarrow> state_minus s s = (\<lambda>_. 0)"
  by (rule ext) (simp add: state_minus_def is_rotation_def Log_one)

text \<open>C29: The difference of states undoes the increment: when the attitude is a rotation and the rotational part of
  the increment is above the cut-off of the logarithm and below half a turn, \<open>(s + d) - s\<close> is \<open>d\<close> in all 19
  components.\<close>

theorem state_minus_plus:
  assumes "is_rotation (rot_end s)" and "1 + 2 * cos (v3_norm (seg3 0 d)) \<le> 3 - 1 / 1000000"
    and "1 / 1000 \<le> v3_norm (seg3 0 d)" and "v3_norm (seg3 0 d) < pi" and "i < DIM_STATE"
  shows "state_minus (state_plus s d) s i = d i"
proof -
  have r: "m3_mult (m3_transpose (rot_end s)) (rot_end (state_plus s d)) = Exp3 (seg3 0 d)"
    using assms(1) by (simp add: state_plus_def is_rotation_def flip: m3_mult_assoc)
  consider "i < 3" | "3 \<le> i" "i < 6" | "i = 6" | "7 \<le> i" "i < 10" | "10 \<le> i" "i < 13" | "13 \<le> i" "i < 16"
    | "16 \<le> i" "i < 19" using assms(5) unfolding DIM_STATE_def by atomize_elim arith
  then show ?thesis
    unfolding state_minus_def r Let_def Log_Exp3 [OF assms(2-4)]
    by cases (simp_all add: state_plus_def v3_at_seg3)
qed

definition ex_step :: vec where
  "ex_step = (\<lambda>i. if i = 2 then pi / 2 else if i < 2 then 0 else real i)"

theorem state_minus_plus_witness:
  "state_minus (state_plus new_StatesGroup ex_step) new_StatesGroup 2 = pi / 2"
proof -
  have "v3_norm (0, 0, x) = \<bar>x\<bar>" for x by (simp add: v3_norm_def)
  then have n: "v3_norm (seg3 0 ex_step) = pi / 2" by (simp add: seg3_def ex_step_def)
  have "state_minus (state_plus new_StatesGroup ex_step) new_StatesGroup 2 = ex_step 2"
    by (rule state_minus_plus) (use pi_ge_two in \<open>simp_all add: n new_StatesGroup_def DIM_STATE_def\<close>)
  then show ?thesis by (simp add: ex_step_def)
qed

end
