(* ===== verification/Voxel_Map.thy ===== *)
theory Voxel_Map
  imports Voxel_Octree State_Group "HOL-Library.AList"
begin

text \<open>
  The map of voxels: \<open>VoxelMapManager\<close> of \<^verbatim>\<open>fast_livo/src/voxel_map.cpp\<close> without its filter update (theory
  \<open>Lidar_Update\<close>) and its markers. The \<open>unordered_map\<close> is an association list with distinct keys; no result
  depends on the order in which it is walked. Coordinates are reals, so the \<open>float\<close> rounding of the voxel
  coordinates is not modelled; their conversion to \<open>int64_t\<close> truncates.
\<close>

section \<open>Voxel coordinates\<close>

record VOXEL_LOCATION =
  vl_x :: int
  vl_y :: int
  vl_z :: int

definition trunc_int :: "real \<Rightarrow> int" where
  "trunc_int r = (if r < 0 then \<lceil>r\<rceil> else \<lfloor>r\<rfloor>)"

text \<open>\<open>loc_xyz[j]\<close>, and the location from its three values.\<close>

definition loc_of :: "real \<Rightarrow> real \<Rightarrow> real" where
  "loc_of voxel_size x = (let l = x / voxel_size in if l < 0 then l - 1 else l)"

definition loc_xyz :: "real \<Rightarrow> vec3 \<Rightarrow> vec3" where
  "loc_xyz voxel_size p = (loc_of voxel_size (v3_at p 0), loc_of voxel_size (v3_at p 1), loc_of voxel_size (v3_at p 2))"

definition location_of :: "vec3 \<Rightarrow> VOXEL_LOCATION" where
  "location_of l = \<lparr>vl_x = trunc_int (v3_at l 0), vl_y = trunc_int (v3_at l 1), vl_z = trunc_int (v3_at l 2)\<rparr>"

definition voxel_location :: "VoxelMapConfig \<Rightarrow> vec3 \<Rightarrow> VOXEL_LOCATION" where
  "voxel_location cfg p = location_of (loc_xyz (max_voxel_size cfg) p)"

definition location_center :: "real \<Rightarrow> VOXEL_LOCATION \<Rightarrow> vec3" where
  "location_center voxel_size loc =
     ((1 / 2 + of_int (vl_x loc)) * voxel_size, (1 / 2 + of_int (vl_y loc)) * voxel_size, (1 / 2 + of_int (vl_z loc)) * voxel_size)"

lemma loc_of_bounds:
  assumes "s > 0"
  shows "\<bar>x - (1 / 2 + of_int (trunc_int (loc_of s x))) * s\<bar> \<le> 2 * (s / 4)"
proof -
  define l k where "l = x / s" and "k = trunc_int (loc_of s x)"
  have "of_int k \<le> l \<and> l \<le> of_int k + 1"
  proof (cases "l < 0")
    case True
    then have "k = \<lceil>l - 1\<rceil>" by (simp add: k_def loc_of_def Let_def trunc_int_def l_def)
    then show ?thesis by linarith
  next
    case False
    then have "k = \<lfloor>l\<rfloor>" by (simp add: k_def loc_of_def Let_def trunc_int_def l_def)
    then show ?thesis by linarith
  qed
  then have "of_int k * s \<le> l * s \<and> l * s \<le> (of_int k + 1) * s" using assms by (simp add: mult_right_mono)
  moreover have "l * s = x" using assms by (simp add: l_def)
  ultimately show ?thesis unfolding k_def [symmetric] by (intro abs_leI) (auto simp: field_simps)
qed

text \<open>A point lies in the cube of the voxel it is filed under, on either side of the origin.\<close>

lemma voxel_location_cube:
  "max_voxel_size cfg > 0 \<Longrightarrow>
   in_cube (location_center (max_voxel_size cfg) (voxel_location cfg p)) (2 * (max_voxel_size cfg / 4)) p"
  using loc_of_bounds [of "max_voxel_size cfg"]
  by (simp add: in_cube_def location_center_def voxel_location_def location_of_def loc_xyz_def)

section \<open>Building and updating\<close>

type_synonym voxel_map = "(VOXEL_LOCATION \<times> octo) list"

definition new_root :: "VoxelMapConfig \<Rightarrow> VOXEL_LOCATION \<Rightarrow> octo exec" where
  "new_root cfg loc =
     (case layer_init_num cfg of
        [] \<Rightarrow> Undef
      | th # _ \<Rightarrow> Ret (new_octo 0 th (location_center (max_voxel_size cfg) loc) (max_voxel_size cfg / 4)))"

text \<open>The second loop of \<open>BuildVoxelMap\<close>: file the points of the scan.\<close>

fun file_points :: "VoxelMapConfig \<Rightarrow> pointWithVar list \<Rightarrow> voxel_map \<Rightarrow> voxel_map exec" where
  "file_points cfg [] m = Ret m"
| "file_points cfg (pv # pvs) m =
     (let loc = voxel_location cfg (point_w pv)
      in bind_exec (case map_of m loc of Some t \<Rightarrow> Ret t | None \<Rightarrow> new_root cfg loc)
           (\<lambda>t. file_points cfg pvs (AList.update loc (Octo (push_point pv (data t)) (leaves t)) m)))"

fun init_all :: "eigen_solver \<Rightarrow> VoxelMapConfig \<Rightarrow> voxel_map \<Rightarrow> voxel_map exec" where
  "init_all es cfg [] = Ret []"
| "init_all es cfg (e # m) =
     bind_exec (init_octo_tree es cfg (snd e)) (\<lambda>t. bind_exec (init_all es cfg m) (\<lambda>m. Ret ((fst e, t) # m)))"

text \<open>The first loop: the points of the down-sampled scan with their covariances in the world frame. The body
  point is the one after \<open>calcBodyCov\<close> has written to it.\<close>

definition world_var :: "mat3 \<Rightarrow> mat3 \<Rightarrow> mat3 \<Rightarrow> mat3 \<Rightarrow> mat3 \<Rightarrow> mat3" where
  "world_var rot v cross rot_var t_var =
     m3_add (m3_add (m3_mult (m3_mult rot v) (m3_transpose rot))
               (m3_mult (m3_mult (m3_neg cross) rot_var) (m3_transpose (m3_neg cross)))) t_var"

definition block3 :: "nat \<Rightarrow> nat \<Rightarrow> mat \<Rightarrow> mat3" where
  "block3 r c m = ((m r c, m r (c + 1), m r (c + 2)), (m (r + 1) c, m (r + 1) (c + 1), m (r + 1) (c + 2)),
                   (m (r + 2) c, m (r + 2) (c + 1), m (r + 2) (c + 2)))"

definition scan_point :: "(real \<Rightarrow> real) \<Rightarrow> VoxelMapConfig \<Rightarrow> StatesGroup \<Rightarrow> mat3 \<Rightarrow> vec3 \<Rightarrow> vec3 \<Rightarrow> pointWithVar" where
  "scan_point deg2rad cfg state extR world body =
     (let r = calcBodyCov deg2rad body (dept_err cfg) (beam_err cfg)
      in new_pointWithVar\<lparr>point_w := world,
           pv_var := world_var (m3_mult (rot_end state) extR) (snd r) (skew_sym (fst r))
             (block3 0 0 (cov state)) (block3 3 3 (cov state))\<rparr>)"

fun scan_points :: "(real \<Rightarrow> real) \<Rightarrow> VoxelMapConfig \<Rightarrow> StatesGroup \<Rightarrow> mat3 \<Rightarrow> vec3 list \<Rightarrow> vec3 list
    \<Rightarrow> pointWithVar list exec" where
  "scan_points deg2rad cfg state extR [] body = Ret []"
| "scan_points deg2rad cfg state extR (w # world) [] = Undef"
| "scan_points deg2rad cfg state extR (w # world) (b # body) =
     bind_exec (scan_points deg2rad cfg state extR world body)
       (\<lambda>pvs. Ret (scan_point deg2rad cfg state extR w b # pvs))"

definition BuildVoxelMap :: "(real \<Rightarrow> real) \<Rightarrow> eigen_solver \<Rightarrow> VoxelMapConfig \<Rightarrow> StatesGroup \<Rightarrow> mat3 \<Rightarrow> vec3 list
    \<Rightarrow> vec3 list \<Rightarrow> voxel_map \<Rightarrow> voxel_map exec" where
  "BuildVoxelMap deg2rad es cfg state extR feats_down_world feats_down_body m =
     bind_exec (scan_points deg2rad cfg state extR feats_down_world feats_down_body) (\<lambda>input_points.
       bind_exec (file_points cfg input_points m) (\<lambda>m. init_all es cfg m))"

fun UpdateVoxelMap :: "eigen_solver \<Rightarrow> VoxelMapConfig \<Rightarrow> pointWithVar list \<Rightarrow> voxel_map \<Rightarrow> voxel_map exec" where
  "UpdateVoxelMap es cfg [] m = Ret m"
| "UpdateVoxelMap es cfg (pv # pvs) m =
     (let loc = voxel_location cfg (point_w pv)
      in bind_exec (case map_of m loc of Some t \<Rightarrow> Ret t | None \<Rightarrow> new_root cfg loc) (\<lambda>t.
           bind_exec (UpdateOctoTree es cfg pv t) (\<lambda>t. UpdateVoxelMap es cfg pvs (AList.update loc t m))))"

section \<open>The local map\<close>

definition as_int32 :: "int \<Rightarrow> int" where
  "as_int32 k = sint (word_of_int k :: 32 word)"

definition clearMemOutOfMap :: "int \<Rightarrow> int \<Rightarrow> int \<Rightarrow> int \<Rightarrow> int \<Rightarrow> int \<Rightarrow> voxel_map \<Rightarrow> voxel_map" where
  "clearMemOutOfMap x_max x_min y_max y_min z_max z_min m =
     filter (\<lambda>e. \<not> (vl_x (fst e) > x_max \<or> vl_x (fst e) < x_min \<or> vl_y (fst e) > y_max \<or> vl_y (fst e) < y_min
                    \<or> vl_z (fst e) > z_max \<or> vl_z (fst e) < z_min)) m"

text \<open>\<open>mapSliding\<close> with \<open>last_slide_position\<close> as state. The bounds are narrowed to \<open>int\<close> when they are passed.\<close>

definition mapSliding :: "VoxelMapConfig \<Rightarrow> vec3 \<Rightarrow> vec3 \<times> voxel_map \<Rightarrow> vec3 \<times> voxel_map" where
  "mapSliding cfg position_last s =
     (if v3_norm (v3_sub position_last (fst s)) < sliding_thresh cfg then s
      else let loc = voxel_location cfg position_last; h = half_map_size cfg
           in (position_last,
               clearMemOutOfMap (as_int32 (vl_x loc + h)) (as_int32 (vl_x loc - h)) (as_int32 (vl_y loc + h))
                 (as_int32 (vl_y loc - h)) (as_int32 (vl_z loc + h)) (as_int32 (vl_z loc - h)) (snd s)))"

text \<open>C++ \<open>%\<close> truncates, and a negative remainder becomes a huge \<open>uint\<close>, for which no colour is set.\<close>

definition RGBFromVoxel :: "VoxelMapConfig \<Rightarrow> vec3 \<Rightarrow> vec3" where
  "RGBFromVoxel cfg p =
     (let l = (\<lambda>j. \<lfloor>v3_at p j / max_voxel_size cfg\<rfloor>);
          ind = l 0 + l 1 + l 2;
          r = ind + 100000;
          k = (if r \<ge> 0 then r mod 3 else - ((- r) mod 3))
      in ((if k = 0 then 255 else 0), (if k = 1 then 255 else 0), (if k = 2 then 255 else 0)))"

section \<open>Filing points\<close>

lemma map_of_AList_update [simp]: "map_of (AList.update k v al) j = (if j = k then Some v else map_of al j)"
  by (simp add: update_conv)

lemma set_AList_update: "e \<in> set (AList.update k v al) \<Longrightarrow> e = (k, v) \<or> e \<in> set al"
  by (induction al) (auto split: if_splits)

definition fresh_root :: "VoxelMapConfig \<Rightarrow> VOXEL_LOCATION \<Rightarrow> octo" where
  "fresh_root cfg loc = new_octo 0 (hd (layer_init_num cfg)) (location_center (max_voxel_size cfg) loc) (max_voxel_size cfg / 4)"

lemma new_root_fresh: "layer_init_num cfg \<noteq> [] \<Longrightarrow> new_root cfg loc = Ret (fresh_root cfg loc)"
  by (cases "layer_init_num cfg") (auto simp: new_root_def fresh_root_def)

text \<open>After the scan has been filed each voxel has exactly its points, in their order, and there is a voxel for
  every point.\<close>

lemma file_points_groups:
  assumes "layer_init_num cfg \<noteq> []" and "distinct (map fst m)"
  shows "\<exists>m'. file_points cfg pvs m = Ret m' \<and> distinct (map fst m') \<and>
    (\<forall>loc. map_of m' loc =
      (let qs = filter (\<lambda>pv. voxel_location cfg (point_w pv) = loc) pvs
       in if qs = [] then map_of m loc
          else Some (push_points qs (case map_of m loc of None \<Rightarrow> fresh_root cfg loc | Some t \<Rightarrow> t))))"
  using assms(2)
proof (induction pvs arbitrary: m)
  case (Cons pv pvs)
  define loc where "loc = voxel_location cfg (point_w pv)"
  define t where "t = (case map_of m loc of None \<Rightarrow> fresh_root cfg loc | Some t \<Rightarrow> t)"
  let ?m = "AList.update loc (push_points [pv] t) m"
  have step: "file_points cfg (pv # pvs) m = file_points cfg pvs ?m"
    by (auto simp: Let_def t_def loc_def [symmetric] new_root_fresh [OF assms(1)] push_points_def split: option.splits)
  have push: "push_points qs (push_points [pv] t) = push_points (pv # qs) t" for qs by (simp add: push_points_def)
  have "distinct (map fst ?m)" using Cons.prems by (rule distinct_update)
  from Cons.IH [OF this] obtain m' where m': "file_points cfg pvs ?m = Ret m'" "distinct (map fst m')"
    "\<forall>j. map_of m' j = (let qs = filter (\<lambda>pv. voxel_location cfg (point_w pv) = j) pvs
       in if qs = [] then map_of ?m j
          else Some (push_points qs (case map_of ?m j of None \<Rightarrow> fresh_root cfg j | Some t \<Rightarrow> t)))" by blast
  have "map_of m' j = (let qs = filter (\<lambda>pv. voxel_location cfg (point_w pv) = j) (pv # pvs)
       in if qs = [] then map_of m j
          else Some (push_points qs (case map_of m j of None \<Rightarrow> fresh_root cfg j | Some t \<Rightarrow> t)))" for j
    by (cases "j = loc") (auto simp: m'(3) Let_def loc_def [symmetric] t_def [symmetric] push)
  then show ?case using m'(1,2) unfolding step by auto
qed simp

lemma file_points_fresh:
  assumes "layer_init_num cfg \<noteq> []"
  obtains m where "file_points cfg pvs [] = Ret m" "distinct (map fst m)"
    "\<And>loc. map_of m loc = (let qs = filter (\<lambda>pv. voxel_location cfg (point_w pv) = loc) pvs
       in if qs = [] then None else Some (push_points qs (fresh_root cfg loc)))"
proof -
  obtain m where m: "file_points cfg pvs [] = Ret m" "distinct (map fst m)" and at: "\<forall>loc. map_of m loc =
      (let qs = filter (\<lambda>pv. voxel_location cfg (point_w pv) = loc) pvs
       in if qs = [] then map_of [] loc
          else Some (push_points qs (case map_of [] loc of None \<Rightarrow> fresh_root cfg loc | Some t \<Rightarrow> t)))"
    using file_points_groups [OF assms, of "[]" pvs] by auto
  show ?thesis by (rule that [OF m]) (use at in \<open>simp add: Let_def\<close>)
qed

section \<open>The invariant of the map\<close>

definition root_ok :: "VoxelMapConfig \<Rightarrow> VOXEL_LOCATION \<Rightarrow> octo_data \<Rightarrow> bool" where
  "root_ok cfg loc n \<longleftrightarrow> layer n = 0 \<and> voxel_center n = location_center (max_voxel_size cfg) loc
     \<and> quater_length n = max_voxel_size cfg / 4"

text \<open>The points of a sequence that are filed under a voxel.\<close>

definition at_loc :: "VoxelMapConfig \<Rightarrow> VOXEL_LOCATION \<Rightarrow> vec3 list \<Rightarrow> vec3 list" where
  "at_loc cfg loc H = filter (\<lambda>p. voxel_location cfg p = loc) H"

text \<open>\<open>H\<close> is the sequence of all points the map has been given.\<close>

definition map_ok :: "VoxelMapConfig \<Rightarrow> nat \<Rightarrow> vec3 list \<Rightarrow> voxel_map \<Rightarrow> bool" where
  "map_ok cfg B H m \<longleftrightarrow> distinct (map fst m)
     \<and> (\<forall>(loc, t) \<in> set m. octo_ok cfg B (at_loc cfg loc H) t \<and> root_ok cfg loc (data t))"

lemma at_loc_append: "subseq (at_loc cfg loc H) (at_loc cfg loc (H @ H'))"
  by (simp add: at_loc_def subseq_rev_drop_many)

lemma map_ok_update:
  assumes "map_ok cfg B H m" and "octo_ok cfg B (at_loc cfg loc (H @ H')) t" and "root_ok cfg loc (data t)"
  shows "map_ok cfg B (H @ H') (AList.update loc t m)"
  unfolding map_ok_def
proof (intro conjI ballI)
  show "distinct (map fst (AList.update loc t m))" using assms(1) by (auto simp: map_ok_def intro: distinct_update)
  fix e assume "e \<in> set (AList.update loc t m)"
  then have "e = (loc, t) \<or> e \<in> set m" by (rule set_AList_update)
  then show "case e of (l, s) \<Rightarrow> octo_ok cfg B (at_loc cfg l (H @ H')) s \<and> root_ok cfg l (data s)"
    using assms octo_ok_mono [OF _ at_loc_append] by (auto simp: map_ok_def)
qed

lemma map_ok_lookup:
  "map_ok cfg B H m \<Longrightarrow> map_of m loc = Some t \<Longrightarrow> octo_ok cfg B (at_loc cfg loc H) t \<and> root_ok cfg loc (data t)"
  by (auto simp: map_ok_def dest: map_of_SomeD)

lemma fresh_root_ok: "config_ok cfg B \<Longrightarrow> octo_ok cfg B H (fresh_root cfg loc) \<and> root_ok cfg loc (data (fresh_root cfg loc))"
proof -
  assume c: "config_ok cfg B"
  then have "as_size_t (hd (layer_init_num cfg)) < B" "hd (layer_init_num cfg) \<in> set (layer_init_num cfg)"
    by (simp_all add: config_ok_def)
  then have "octo_ok cfg B H (fresh_root cfg loc)"
    by (intro octo_okI) (simp_all add: fresh_root_def new_octo_def node_ok_def)
  then show ?thesis by (simp add: root_ok_def fresh_root_def new_octo_def)
qed

text \<open>No voxel is given points whose fit would leave the matrix.\<close>

definition voxels_fit :: "eigen_solver \<Rightarrow> VoxelMapConfig \<Rightarrow> vec3 list \<Rightarrow> bool" where
  "voxels_fit es cfg H \<longleftrightarrow> (\<forall>loc. fits_ok es cfg (at_loc cfg loc H))"

lemma voxels_fit_prefix: "voxels_fit es cfg (H @ H') \<Longrightarrow> fits_ok es cfg (at_loc cfg loc H)"
  using fits_ok_mono [of es cfg "at_loc cfg loc (H @ H')" "at_loc cfg loc H"] at_loc_append by (simp add: voxels_fit_def)

lemma UpdateVoxelMap_ok:
  assumes "config_ok cfg B" and "max_voxel_size cfg > 0" and "map_ok cfg B H m"
  shows "outcome (voxels_fit es cfg (H @ map point_w pvs @ H')) (map_ok cfg B (H @ map point_w pvs)) (UpdateVoxelMap es cfg pvs m)"
  using assms(3)
proof (induction pvs arbitrary: m H)
  case (Cons pv pvs)
  let ?loc = "voxel_location cfg (point_w pv)" and ?d = "voxels_fit es cfg (H @ map point_w (pv # pvs) @ H')"
  have "layer_init_num cfg \<noteq> []" using assms(1) by (simp add: config_ok_def)
  then have root: "outcome ?d (\<lambda>t. octo_ok cfg B (at_loc cfg ?loc H) t \<and> root_ok cfg ?loc (data t))
      (case map_of m ?loc of Some t \<Rightarrow> Ret t | None \<Rightarrow> new_root cfg ?loc)"
    using fresh_root_ok [OF assms(1)] map_ok_lookup [OF Cons.prems]
    by (auto simp: new_root_fresh split: option.splits)
  have last: "at_loc cfg ?loc H @ [point_w pv] = at_loc cfg ?loc (H @ [point_w pv])" by (simp add: at_loc_def)
  have fits: "?d \<Longrightarrow> fits_ok es cfg (at_loc cfg ?loc H @ [point_w pv])"
    unfolding last by (rule voxels_fit_prefix [where H' = "map point_w pvs @ H'"]) simp
  have upd: "outcome ?d (\<lambda>s. octo_ok cfg B (at_loc cfg ?loc (H @ [point_w pv])) s \<and> root_ok cfg ?loc (data s))
      (UpdateOctoTree es cfg pv t)"
    if "octo_ok cfg B (at_loc cfg ?loc H) t \<and> root_ok cfg ?loc (data t)" for t
  proof -
    have "in_cube (voxel_center (data t)) (2 * quater_length (data t)) (point_w pv)"
      using voxel_location_cube [OF assms(2), of "point_w pv"] that by (simp only: root_ok_def)
    then have "outcome ?d (\<lambda>s. octo_ok cfg B (at_loc cfg ?loc H @ [point_w pv]) s \<and> same_place s t) (UpdateOctoTree es cfg pv t)"
      using UpdateOctoTree_ok [OF assms(1), of "at_loc cfg ?loc H" t pv es] that fits by (blast intro: outcome_less)
    then show ?thesis unfolding last by (rule outcome_weaken) (use that in \<open>auto simp: root_ok_def same_place_def\<close>)
  qed
  have ih: "outcome ?d (map_ok cfg B (H @ map point_w (pv # pvs))) (UpdateVoxelMap es cfg pvs (AList.update ?loc t m))"
    if "octo_ok cfg B (at_loc cfg ?loc (H @ [point_w pv])) t \<and> root_ok cfg ?loc (data t)" for t
    using Cons.IH [of "H @ [point_w pv]" "AList.update ?loc t m"] map_ok_update [OF Cons.prems] that by simp
  show ?case unfolding UpdateVoxelMap.simps Let_def
    by (rule outcome_bind [OF root], rule outcome_bind [OF upd], assumption, rule ih)
qed simp

lemma init_all_ok:
  assumes "config_ok cfg B"
    and "\<forall>(loc, t) \<in> set m. raw_node cfg B (at_loc cfg loc H) t \<and> root_ok cfg loc (data t)"
  shows "outcome (voxels_fit es cfg H) (\<lambda>m'. map fst m' = map fst m
      \<and> (\<forall>(loc, t) \<in> set m'. octo_ok cfg B (at_loc cfg loc H) t \<and> root_ok cfg loc (data t))) (init_all es cfg m)"
  using assms(2)
proof (induction m)
  case (Cons e m)
  obtain loc t where e: "e = (loc, t)" by (cases e)
  have "outcome (voxels_fit es cfg H) (\<lambda>s. octo_ok cfg B (at_loc cfg loc H) s \<and> same_place s t) (init_octo_tree es cfg t)"
  proof (rule outcome_less)
    have "raw_node cfg B (at_loc cfg loc H) t" using Cons.prems by (simp add: e)
    from init_octo_tree_ok [OF assms(1) this, of es]
    show "outcome (fits_ok es cfg (at_loc cfg loc H)) (\<lambda>s. octo_ok cfg B (at_loc cfg loc H) s \<and> same_place s t) (init_octo_tree es cfg t)"
      by (simp add: settles_def)
  qed (simp add: voxels_fit_def)
  then have t: "outcome (voxels_fit es cfg H) (\<lambda>s. octo_ok cfg B (at_loc cfg loc H) s \<and> root_ok cfg loc (data s)) (init_octo_tree es cfg t)"
    by (rule outcome_weaken) (use Cons.prems e in \<open>auto simp: root_ok_def same_place_def\<close>)
  show ?case unfolding init_all.simps e snd_conv fst_conv
    by (rule outcome_bind [OF t], rule outcome_bind [OF Cons.IH]) (use Cons.prems in auto)
qed simp

lemma scan_points_Ret:
  "length world \<le> length body \<Longrightarrow> \<exists>pvs. scan_points deg2rad cfg state extR world body = Ret pvs \<and> map point_w pvs = world"
proof (induction deg2rad cfg state extR world body rule: scan_points.induct)
  case (3 deg2rad cfg state extR w world b body)
  then obtain pvs where "scan_points deg2rad cfg state extR world body = Ret pvs" "map point_w pvs = world" by auto
  then show ?case by (auto simp: scan_point_def Let_def)
qed auto

lemma BuildVoxelMap_ok:
  assumes "config_ok cfg B" and "max_voxel_size cfg > 0" and "length world \<le> length body" and "length world \<le> B"
  shows "outcome (voxels_fit es cfg world) (map_ok cfg B world) (BuildVoxelMap deg2rad es cfg state extR world body [])"
proof -
  obtain pvs where pvs: "scan_points deg2rad cfg state extR world body = Ret pvs" "map point_w pvs = world"
    using scan_points_Ret [OF assms(3)] by blast
  have len: "length pvs \<le> B" using assms(4) pvs(2) by (metis length_map)
  have ne: "layer_init_num cfg \<noteq> []" using assms(1) by (simp add: config_ok_def)
  from file_points_fresh [OF ne, of pvs] obtain m where m: "file_points cfg pvs [] = Ret m" "distinct (map fst m)"
    and at: "\<And>loc. map_of m loc = (let qs = filter (\<lambda>pv. voxel_location cfg (point_w pv) = loc) pvs
       in if qs = [] then None else Some (push_points qs (fresh_root cfg loc)))" by blast
  have "raw_node cfg B (at_loc cfg loc world) t \<and> root_ok cfg loc (data t)" if "(loc, t) \<in> set m" for loc t
  proof -
    let ?qs = "filter (\<lambda>pv. voxel_location cfg (point_w pv) = loc) pvs"
    have "map_of m loc = Some t" using that m(2) by (simp add: map_of_eq_Some_iff)
    then have t: "t = push_points ?qs (fresh_root cfg loc)" using at by (auto simp: Let_def split: if_splits)
    have "length ?qs \<le> B" using len length_filter_le le_trans by blast
    moreover have "as_size_t (hd (layer_init_num cfg)) < B" using assms(1) ne by (simp add: config_ok_def)
    moreover have "in_cube (location_center (max_voxel_size cfg) loc) (2 * (max_voxel_size cfg / 4)) (point_w pv)"
      if "pv \<in> set ?qs" for pv using that voxel_location_cube [OF assms(2), of "point_w pv"] by auto
    moreover have "map point_w ?qs = at_loc cfg loc world"
      by (simp add: at_loc_def pvs(2) [symmetric] filter_map o_def)
    moreover have "hd (layer_init_num cfg) \<in> set (layer_init_num cfg)" using ne by simp
    ultimately show ?thesis
      by (simp add: t raw_node_def root_ok_def push_points_simps fresh_root_def new_octo_def)
  qed
  then have "\<forall>(loc, t) \<in> set m. raw_node cfg B (at_loc cfg loc world) t \<and> root_ok cfg loc (data t)" by blast
  from init_all_ok [OF assms(1) this, of es] have "outcome (voxels_fit es cfg world) (map_ok cfg B world) (init_all es cfg m)"
    by (rule outcome_weaken) (use m(2) in \<open>simp add: map_ok_def\<close>)
  then show ?thesis by (simp add: BuildVoxelMap_def pvs(1) m(1))
qed

section \<open>Runs of the mapper\<close>

text \<open>What the mapper does to the map after the first scan: update it with the points of a scan, or slide it to a
  new position. The state also has \<open>last_slide_position\<close>.\<close>

datatype map_op = Update_map "pointWithVar list" | Slide_map vec3

fun map_run :: "eigen_solver \<Rightarrow> VoxelMapConfig \<Rightarrow> map_op list \<Rightarrow> vec3 \<times> voxel_map \<Rightarrow> (vec3 \<times> voxel_map) exec" where
  "map_run es cfg [] s = Ret s"
| "map_run es cfg (Update_map pvs # ops) s =
     bind_exec (UpdateVoxelMap es cfg pvs (snd s)) (\<lambda>m. map_run es cfg ops (fst s, m))"
| "map_run es cfg (Slide_map p # ops) s = map_run es cfg ops (mapSliding cfg p s)"

fun given_points :: "map_op list \<Rightarrow> vec3 list" where
  "given_points [] = []"
| "given_points (Update_map pvs # ops) = map point_w pvs @ given_points ops"
| "given_points (Slide_map p # ops) = given_points ops"

lemma map_ok_clear: "map_ok cfg B H m \<Longrightarrow> map_ok cfg B H (clearMemOutOfMap a b c d e f m)"
  by (auto simp: map_ok_def clearMemOutOfMap_def distinct_map_filter)

lemma map_run_ok:
  assumes "config_ok cfg B" and "max_voxel_size cfg > 0" and "map_ok cfg B H (snd s)"
  shows "outcome (voxels_fit es cfg (H @ given_points ops)) (\<lambda>s. map_ok cfg B (H @ given_points ops) (snd s)) (map_run es cfg ops s)"
  using assms(3)
proof (induction ops arbitrary: s H)
  case (Cons op ops)
  show ?case
  proof (cases op)
    case (Update_map pvs)
    have ih: "outcome (voxels_fit es cfg (H @ given_points (op # ops))) (\<lambda>s. map_ok cfg B (H @ given_points (op # ops)) (snd s))
        (map_run es cfg ops (fst s, m))" if "map_ok cfg B (H @ map point_w pvs) m" for m
      using Cons.IH [of "H @ map point_w pvs" "(fst s, m)"] that by (simp add: Update_map)
    have up: "outcome (voxels_fit es cfg (H @ given_points (op # ops))) (map_ok cfg B (H @ map point_w pvs)) (UpdateVoxelMap es cfg pvs (snd s))"
      using UpdateVoxelMap_ok [OF assms(1,2) Cons.prems, of es pvs "given_points ops"] by (simp add: Update_map)
    show ?thesis using outcome_bind [OF up ih] by (simp add: Update_map)
  next
    case (Slide_map p)
    have "map_ok cfg B H (snd (mapSliding cfg p s))"
      using Cons.prems by (simp add: mapSliding_def Let_def map_ok_clear)
    from Cons.IH [OF this] show ?thesis by (simp add: Slide_map)
  qed
qed simp

text \<open>C11: The voxel map is sound along every run, and where a run can fail. Build the map from a first scan and
  then update and slide it in any order; let there be a threshold for every layer and \<open>B\<close> bound the first scan and the
  configured sizes. Whatever the eigenvalue solver returns, every map that results has one tree per voxel; every tree
  has the cube of its voxel and splits it exactly, every stored point lies in the cube of its node and is one of the
  points given to that voxel, each once and in their order, no tree is deeper than \<open>max_layer_\<close>, no node holds more
  than \<open>B\<close> points, and a node that has stopped collecting holds none. The only operation that can be undefined is the
  plane fit, and it is undefined exactly when the solver returns three equal eigenvalues, as a right solver does for
  points that coincide. So the run is defined whenever, for every choice of more points than \<open>fit_size\<close> (the least
  configured threshold, at most five) out of those given to one voxel, the covariance is not a multiple of the identity
  and the solver returns three equal values only for such a multiple.\<close>

theorem voxel_map_run_sound:
  assumes "config_ok cfg B" and "max_voxel_size cfg > 0" and "length world \<le> length body" and "length world \<le> B"
  shows "(\<forall>m. BuildVoxelMap deg2rad es cfg state extR world body [] = Ret m \<longrightarrow> map_ok cfg B world m
        \<and> (\<forall>s. map_run es cfg ops (last_pos, m) = Ret s \<longrightarrow> map_ok cfg B (world @ given_points ops) (snd s)))
    \<and> (\<forall>points thr pl. points \<noteq> [] \<longrightarrow>
         (init_plane es thr points pl = Undef \<longleftrightarrow> (\<exists>k. fst (es (plane_covariance points)) = (k, k, k))))
    \<and> ((\<forall>loc ps. subseq (map point_w ps) (filter (\<lambda>p. voxel_location cfg p = loc) (world @ given_points ops))
            \<and> fit_size cfg < length ps \<longrightarrow>
            (\<forall>k. plane_covariance ps \<noteq> m3_diag k k k)
            \<and> (\<forall>k. fst (es (plane_covariance ps)) = (k, k, k) \<longrightarrow> plane_covariance ps = m3_diag k k k))
       \<longrightarrow> (\<exists>m s. BuildVoxelMap deg2rad es cfg state extR world body [] = Ret m \<and> map_run es cfg ops (last_pos, m) = Ret s))"
proof (intro conjI allI impI)
  note build = BuildVoxelMap_ok [OF assms, of es deg2rad state extR]
  have run: "outcome (voxels_fit es cfg (world @ given_points ops)) (\<lambda>s. map_ok cfg B (world @ given_points ops) (snd s))
      (map_run es cfg ops (last_pos, m))" if "BuildVoxelMap deg2rad es cfg state extR world body [] = Ret m" for m
    using map_run_ok [OF assms(1,2), of world "(last_pos, m)" es ops] outcome_Ret [OF build that] by simp
  show "map_ok cfg B world m" if "BuildVoxelMap deg2rad es cfg state extR world body [] = Ret m" for m
    by (rule outcome_Ret [OF build that])
  show "map_ok cfg B (world @ given_points ops) (snd s)"
    if "BuildVoxelMap deg2rad es cfg state extR world body [] = Ret m" "map_run es cfg ops (last_pos, m) = Ret s" for m s
    using outcome_Ret [OF run [OF that(1)] that(2)] .
  show "init_plane es thr points pl = Undef \<longleftrightarrow> (\<exists>k. fst (es (plane_covariance points)) = (k, k, k))"
    if "points \<noteq> []" for points thr pl
    unfolding init_plane_undefined [OF that] by (rule equal_extrema)
  assume generic: "\<forall>loc ps. subseq (map point_w ps) (filter (\<lambda>p. voxel_location cfg p = loc) (world @ given_points ops))
            \<and> fit_size cfg < length ps \<longrightarrow>
            (\<forall>k. plane_covariance ps \<noteq> m3_diag k k k)
            \<and> (\<forall>k. fst (es (plane_covariance ps)) = (k, k, k) \<longrightarrow> plane_covariance ps = m3_diag k k k)"
  then have fit: "voxels_fit es cfg (world @ given_points ops)"
    unfolding voxels_fit_def fits_ok_def at_loc_def equal_extrema by blast
  then have "voxels_fit es cfg world" unfolding voxels_fit_def by (metis fits_ok_mono at_loc_append)
  then obtain m where m: "BuildVoxelMap deg2rad es cfg state extR world body [] = Ret m"
    using outcome_defined [OF build] by blast
  with outcome_defined [OF run [OF m] fit]
  show "\<exists>m s. BuildVoxelMap deg2rad es cfg state extR world body [] = Ret m \<and> map_run es cfg ops (last_pos, m) = Ret s"
    by blast
qed

definition ex_cfg :: VoxelMapConfig where
  "ex_cfg = \<lparr>max_voxel_size = 1 / 2, max_layer = 2, max_iterations = 5, layer_init_num = [5, 5, 5, 5, 5],
     max_points_num = 50, planner_threshold = 1 / 100, beam_err = 1 / 50, dept_err = 1 / 20, sigma_num = 3,
     is_pub_plane_map = False, sliding_thresh = 8, map_sliding_en = False, half_map_size = 100\<rparr>"

lemma ex_cfg_ok: "config_ok ex_cfg 100"
  by (simp add: config_ok_def ex_cfg_def as_size_t_def)

text \<open>The example: a first scan with six points of a wall in one voxel, whose plane is fitted, and an update with four
  points in other voxels. The solver is the one for diagonal matrices, which is right for this covariance.\<close>

definition ex_scan :: "vec3 list" where
  "ex_scan = [(51 / 10, 1 / 10, 1 / 10), (51 / 10, 3 / 10, 1 / 10), (51 / 10, 1 / 10, 4 / 10), (51 / 10, 3 / 10, 4 / 10),
     (51 / 10, 2 / 10, 2 / 10), (51 / 10, 2 / 10, 3 / 10)]"

lemma plane_covariance_positions: "map point_w ps = map point_w qs \<Longrightarrow> plane_covariance ps = plane_covariance qs"
proof -
  assume e: "map point_w ps = map point_w qs"
  have f: "plane_moments rs = foldl (\<lambda>s w. (m3_add (fst s) (v3_outer w w), v3_add (snd s) w)) (m3_zero, v3_zero) (map point_w rs)" for rs
    by (simp add: plane_moments_def foldl_map)
  have "length ps = length qs" using e by (rule map_eq_imp_length_eq)
  moreover have "plane_moments ps = plane_moments qs" by (simp only: f e)
  ultimately show ?thesis by (simp add: plane_covariance_def plane_center_def)
qed

lemma ex_scan_covariance: "map point_w ps = ex_scan \<Longrightarrow> plane_covariance ps = m3_diag 0 (1 / 150) (19 / 1200)"
proof -
  assume "map point_w ps = ex_scan"
  then have "map point_w ps = map point_w (map (\<lambda>w. new_pointWithVar\<lparr>point_w := w\<rparr>) ex_scan)" by (simp add: o_def)
  from plane_covariance_positions [OF this] show ?thesis
    by (simp add: plane_covariance_def plane_center_def plane_moments_def ex_scan_def m3_zero_def m3_diag_def v3_zero_def)
qed

lemma ex_scan_voxels:
  "\<forall>p \<in> set ex_scan. voxel_location ex_cfg p = \<lparr>vl_x = 10, vl_y = 0, vl_z = 0\<rparr>"
  "\<forall>p \<in> set (map point_w ex_wall). voxel_location ex_cfg p \<noteq> \<lparr>vl_x = 10, vl_y = 0, vl_z = 0\<rparr>"
  by (simp_all add: ex_scan_def ex_wall_def ex_pv_def voxel_location_def location_of_def loc_xyz_def loc_of_def
      trunc_int_def ex_cfg_def Let_def)

theorem voxel_map_run_sound_witness:
  "\<exists>m s. BuildVoxelMap (\<lambda>d. d * pi / 180) diagonal_solver ex_cfg new_StatesGroup m3_one ex_scan ex_scan [] = Ret m
     \<and> map_run diagonal_solver ex_cfg [Update_map ex_wall, Slide_map (10, 0, 0)] (v3_zero, m) = Ret s
     \<and> map_ok ex_cfg 100 (ex_scan @ map point_w ex_wall) (snd s)"
proof -
  let ?ops = "[Update_map ex_wall, Slide_map (10, 0, 0)]"
  have given: "given_points ?ops = map point_w ex_wall" by simp
  have size: "fit_size ex_cfg = 5" by (simp add: fit_size_def ex_cfg_def update_size_threshold_def as_size_t_def)
  have six: "map point_w ps = ex_scan"
    if "subseq (map point_w ps) (filter (\<lambda>p. voxel_location ex_cfg p = loc) (ex_scan @ map point_w ex_wall))" "5 < length ps" for loc and ps :: "pointWithVar list"
  proof (cases "loc = \<lparr>vl_x = 10, vl_y = 0, vl_z = 0\<rparr>")
    case True
    then have "filter (\<lambda>p. voxel_location ex_cfg p = loc) (ex_scan @ map point_w ex_wall) = ex_scan"
      using ex_scan_voxels by (simp add: filter_empty_conv)
    then have s: "subseq (map point_w ps) ex_scan" using that(1) by (simp only:)
    then have "length (map point_w ps) \<le> 6" using list_emb_length [OF s] by (simp add: ex_scan_def)
    then have "length (map point_w ps) = length ex_scan" using that(2) by (simp add: ex_scan_def)
    then show ?thesis using s by (rule subseq_same_length [rotated])
  next
    case False
    then have "filter (\<lambda>p. voxel_location ex_cfg p = loc) (ex_scan @ map point_w ex_wall)
        = filter (\<lambda>p. voxel_location ex_cfg p = loc) (map point_w ex_wall)"
      using ex_scan_voxels(1) by (simp add: filter_empty_conv)
    then have s: "subseq (map point_w ps) (filter (\<lambda>p. voxel_location ex_cfg p = loc) (map point_w ex_wall))"
      using that(1) by (simp only:)
    have "length (filter P (map point_w ex_wall)) \<le> 4" for P
      by (rule le_trans [OF length_filter_le]) (simp add: ex_wall_def)
    with list_emb_length [OF s] have "length (map point_w ps) \<le> 4" by (rule le_trans)
    then show ?thesis using that(2) by simp
  qed
  have generic: "\<forall>loc ps. subseq (map point_w ps) (filter (\<lambda>p. voxel_location ex_cfg p = loc) (ex_scan @ given_points ?ops))
            \<and> fit_size ex_cfg < length ps \<longrightarrow>
            (\<forall>k. plane_covariance ps \<noteq> m3_diag k k k)
            \<and> (\<forall>k. fst (diagonal_solver (plane_covariance ps)) = (k, k, k) \<longrightarrow> plane_covariance ps = m3_diag k k k)"
  proof (intro allI impI)
    fix loc and ps :: "pointWithVar list"
    assume "subseq (map point_w ps) (filter (\<lambda>p. voxel_location ex_cfg p = loc) (ex_scan @ given_points ?ops))
            \<and> fit_size ex_cfg < length ps"
    then have "map point_w ps = ex_scan" unfolding given size using six [of ps loc] by blast
    from ex_scan_covariance [OF this] show "(\<forall>k. plane_covariance ps \<noteq> m3_diag k k k)
            \<and> (\<forall>k. fst (diagonal_solver (plane_covariance ps)) = (k, k, k) \<longrightarrow> plane_covariance ps = m3_diag k k k)"
      by (simp add: diagonal_solver_def m3_diag_def)
  qed
  have pos: "max_voxel_size ex_cfg > 0" "length ex_scan \<le> length ex_scan" "length ex_scan \<le> 100"
    by (simp_all add: ex_cfg_def ex_scan_def)
  note main = voxel_map_run_sound [OF ex_cfg_ok pos, of "\<lambda>d. d * pi / 180" diagonal_solver new_StatesGroup m3_one ?ops v3_zero]
  from main [THEN conjunct2, THEN conjunct2, THEN mp, OF generic] obtain m s where
    ms: "BuildVoxelMap (\<lambda>d. d * pi / 180) diagonal_solver ex_cfg new_StatesGroup m3_one ex_scan ex_scan [] = Ret m"
      "map_run diagonal_solver ex_cfg ?ops (v3_zero, m) = Ret s" by blast
  from main [THEN conjunct1, THEN spec, THEN mp, OF ms(1)] ms show ?thesis unfolding given by blast
qed

lemma as_int32_id: "- (2 ^ 31) \<le> k \<Longrightarrow> k < 2 ^ 31 \<Longrightarrow> as_int32 k = k"
  by (simp add: as_int32_def sint_sbintrunc' signed_take_bit_int_eq_self)

definition in_window :: "int \<Rightarrow> VOXEL_LOCATION \<Rightarrow> VOXEL_LOCATION \<Rightarrow> bool" where
  "in_window h c loc \<longleftrightarrow> \<bar>vl_x loc - vl_x c\<bar> \<le> h \<and> \<bar>vl_y loc - vl_y c\<bar> \<le> h \<and> \<bar>vl_z loc - vl_z c\<bar> \<le> h"

text \<open>Sliding keeps a window around the vehicle: once the vehicle has moved by the threshold, exactly the voxels
  within \<open>half_map_size\<close> of its own in every axis stay, unchanged, and the position is remembered; before that
  nothing changes.\<close>

theorem slide_keeps_window:
  assumes "\<bar>vl_x (voxel_location cfg p)\<bar> + \<bar>half_map_size cfg\<bar> < 2 ^ 31"
    and "\<bar>vl_y (voxel_location cfg p)\<bar> + \<bar>half_map_size cfg\<bar> < 2 ^ 31"
    and "\<bar>vl_z (voxel_location cfg p)\<bar> + \<bar>half_map_size cfg\<bar> < 2 ^ 31" and "distinct (map fst m)"
  shows "if v3_norm (v3_sub p q) < sliding_thresh cfg then mapSliding cfg p (q, m) = (q, m)
    else fst (mapSliding cfg p (q, m)) = p \<and>
      (\<forall>loc. map_of (snd (mapSliding cfg p (q, m))) loc =
         (if in_window (half_map_size cfg) (voxel_location cfg p) loc then map_of m loc else None))"
proof -
  let ?h = "half_map_size cfg" and ?c = "voxel_location cfg p"
  have n: "as_int32 (vl_x ?c + ?h) = vl_x ?c + ?h" "as_int32 (vl_x ?c - ?h) = vl_x ?c - ?h"
    "as_int32 (vl_y ?c + ?h) = vl_y ?c + ?h" "as_int32 (vl_y ?c - ?h) = vl_y ?c - ?h"
    "as_int32 (vl_z ?c + ?h) = vl_z ?c + ?h" "as_int32 (vl_z ?c - ?h) = vl_z ?c - ?h"
    using assms(1-3) by (auto intro!: as_int32_id)
  have f: "map_of (filter (\<lambda>e. P (fst e)) m) loc = (if P loc then map_of m loc else None)" for P loc
    using assms(4) by (induction m) auto
  have "clearMemOutOfMap (vl_x ?c + ?h) (vl_x ?c - ?h) (vl_y ?c + ?h) (vl_y ?c - ?h) (vl_z ?c + ?h) (vl_z ?c - ?h) m
      = filter (\<lambda>e. in_window ?h ?c (fst e)) m"
    unfolding clearMemOutOfMap_def by (rule filter_cong [OF refl]) (auto simp: in_window_def)
  then show ?thesis by (simp add: mapSliding_def Let_def n f)
qed

theorem slide_keeps_window_witness:
  "fst (mapSliding ex_cfg (10, 0, 0) (v3_zero, [(\<lparr>vl_x = - 90, vl_y = 0, vl_z = 0\<rparr>, fresh_root ex_cfg \<lparr>vl_x = - 90, vl_y = 0, vl_z = 0\<rparr>)]))
     = (10, 0, 0)
   \<and> map_of (snd (mapSliding ex_cfg (10, 0, 0) (v3_zero, [(\<lparr>vl_x = - 90, vl_y = 0, vl_z = 0\<rparr>, fresh_root ex_cfg \<lparr>vl_x = - 90, vl_y = 0, vl_z = 0\<rparr>)])))
       \<lparr>vl_x = - 90, vl_y = 0, vl_z = 0\<rparr> = None"
proof -
  have c: "voxel_location ex_cfg (10, 0, 0) = \<lparr>vl_x = 20, vl_y = 0, vl_z = 0\<rparr>"
    by (simp add: voxel_location_def location_of_def loc_xyz_def loc_of_def trunc_int_def ex_cfg_def Let_def)
  have h: "half_map_size ex_cfg = 100" "sliding_thresh ex_cfg = 8" by (simp_all add: ex_cfg_def)
  have far: "\<not> v3_norm (v3_sub (10, 0, 0) v3_zero) < 8" by (simp add: v3_zero_def v3_norm_def)
  show ?thesis
    using slide_keeps_window [of ex_cfg "(10, 0, 0)"
        "[(\<lparr>vl_x = - 90, vl_y = 0, vl_z = 0\<rparr>, fresh_root ex_cfg \<lparr>vl_x = - 90, vl_y = 0, vl_z = 0\<rparr>)]" v3_zero] far
    by (simp add: c h in_window_def)
qed

end
