(* ===== verification/Voxel_Residual.thy ===== *)
theory Voxel_Residual
  imports Voxel_Map
begin

text \<open>
  Point-to-plane residuals: \<open>build_single_residual\<close> and \<open>BuildResidualListOMP\<close> of
  \<^verbatim>\<open>fast_livo/src/voxel_map.cpp\<close>. A comparison with a NaN is false. When the covariance of a plane is not finite,
  \<open>sigma_l\<close> is a NaN or infinite; the parameter \<open>sigma_inf\<close> says at which planes and points it is infinite. The
  loop over the points is run in order: its iterations share nothing but the map, which they only read, and
  entries of their own of the result vectors.
\<close>

section \<open>One plane\<close>

record PointToPlane =
  pl_point_b :: vec3
  pl_point_w :: vec3
  pl_normal :: vec3
  pl_center :: vec3
  pl_plane_var :: "mat option"
  pl_body_cov :: mat3
  pl_layer :: nat
  pl_d :: real
  pl_dis_to_plane :: real

text \<open>The reference arguments: the success flag, the best probability so far, the result (\<open>None\<close> while it is
  uninitialised) and the point, whose normal is written.\<close>

record residual =
  is_sucess :: bool
  prob :: real
  single_ptpl :: "PointToPlane option"
  res_pv :: pointWithVar

type_synonym sigma_oracle = "VoxelPlane \<Rightarrow> vec3 \<Rightarrow> bool"

definition signed_distance :: "VoxelPlane \<Rightarrow> vec3 \<Rightarrow> real" where
  "signed_distance plane p_w =
     v3_at (vp_normal plane) 0 * v3_at p_w 0 + v3_at (vp_normal plane) 1 * v3_at p_w 1
     + v3_at (vp_normal plane) 2 * v3_at p_w 2 + vp_d plane"

definition dis_to_center :: "VoxelPlane \<Rightarrow> vec3 \<Rightarrow> real" where
  "dis_to_center plane p_w = sq_norm (v3_sub (vp_center plane) p_w)"

text \<open>\<open>range_dis <= radius_k * plane.radius_\<close>\<close>

definition in_range :: "VoxelPlane \<Rightarrow> vec3 \<Rightarrow> bool" where
  "in_range plane p_w =
     (let q = dis_to_center plane p_w - \<bar>signed_distance plane p_w\<bar> * \<bar>signed_distance plane p_w\<bar>
      in 0 \<le> q \<and> sqrt q \<le> 3 * vp_radius plane)"

text \<open>\<open>J_nq\<close> and the variance of the distance, for a plane with finite covariance \<open>P\<close>.\<close>

definition J_nq :: "VoxelPlane \<Rightarrow> vec3 \<Rightarrow> vec" where
  "J_nq plane p_w = (\<lambda>i. if i < 3 then v3_at (v3_sub p_w (vp_center plane)) i else - v3_at (vp_normal plane) (i - 3))"

definition sigma_l :: "VoxelPlane \<Rightarrow> mat \<Rightarrow> pointWithVar \<Rightarrow> real" where
  "sigma_l plane P pv = quad 6 P (J_nq plane (point_w pv)) + m3_quad (pv_var pv) (vp_normal plane)"

definition plane_prob :: "VoxelPlane \<Rightarrow> mat \<Rightarrow> pointWithVar \<Rightarrow> real" where
  "plane_prob plane P pv =
     (let s = sigma_l plane P pv; d = \<bar>signed_distance plane (point_w pv)\<bar>
      in 1 / sqrt s * exp (- 1 / 2 * d * d / s))"

definition make_ptpl :: "VoxelPlane \<Rightarrow> nat \<Rightarrow> pointWithVar \<Rightarrow> PointToPlane" where
  "make_ptpl plane current_layer pv =
     \<lparr>pl_point_b = point_b pv, pl_point_w = point_w pv, pl_normal = vp_normal plane, pl_center = vp_center plane,
      pl_plane_var = vp_plane_var plane, pl_body_cov = body_var pv, pl_layer = current_layer, pl_d = vp_d plane,
      pl_dis_to_plane = signed_distance plane (point_w pv)\<rparr>"

definition try_plane :: "sigma_oracle \<Rightarrow> VoxelMapConfig \<Rightarrow> VoxelPlane \<Rightarrow> nat \<Rightarrow> residual \<Rightarrow> residual" where
  "try_plane sigma_inf cfg plane current_layer r =
     (let pv = res_pv r
      in if in_range plane (point_w pv)
         then case vp_plane_var plane of
             None \<Rightarrow> if sigma_inf plane (point_w pv) then r\<lparr>is_sucess := True\<rparr> else r
           | Some P \<Rightarrow>
               if 0 \<le> sigma_l plane P pv
                  \<and> \<bar>signed_distance plane (point_w pv)\<bar> < sigma_num cfg * sqrt (sigma_l plane P pv)
               then let r1 = r\<lparr>is_sucess := True\<rparr>
                    in if plane_prob plane P pv > prob r
                       then r1\<lparr>prob := plane_prob plane P pv, res_pv := pv\<lparr>pv_normal := vp_normal plane\<rparr>,
                               single_ptpl := Some (make_ptpl plane current_layer pv)\<rparr>
                       else r1
               else r
         else r)"

section \<open>The tree and the list\<close>

function build_single_residual :: "sigma_oracle \<Rightarrow> VoxelMapConfig \<Rightarrow> octo \<Rightarrow> nat \<Rightarrow> residual \<Rightarrow> residual" where
  "build_single_residual sigma_inf cfg t current_layer r =
     (if vp_is_plane (plane_ptr (data t)) then try_plane sigma_inf cfg (plane_ptr (data t)) current_layer r
      else if int current_layer < max_layer cfg
      then foldl (\<lambda>r k. case leaf_at (leaves t) k of
                   None \<Rightarrow> r
                 | Some leaf \<Rightarrow> build_single_residual sigma_inf cfg leaf (current_layer + 1) r) r [0..<8]
      else r)"
  by pat_completeness auto

termination
  by (relation "measure (\<lambda>(sigma_inf, cfg, t, current_layer, r). size t)") (auto dest: size_leaf_at)

declare build_single_residual.simps [simp del]

text \<open>The neighbour tried when the own voxel gives nothing. \<open>loc_xyz\<close> counts voxels, centre and quarter length are
  in metres.\<close>

definition near_index :: "real \<Rightarrow> real \<Rightarrow> real \<Rightarrow> int \<Rightarrow> int" where
  "near_index l center quater k = (if l > center + quater then k + 1 else if l < center - quater then k - 1 else k)"

definition near_position :: "vec3 \<Rightarrow> octo_data \<Rightarrow> VOXEL_LOCATION \<Rightarrow> VOXEL_LOCATION" where
  "near_position l n loc =
     \<lparr>vl_x = near_index (v3_at l 0) (v3_at (voxel_center n) 0) (quater_length n) (vl_x loc),
      vl_y = near_index (v3_at l 1) (v3_at (voxel_center n) 1) (quater_length n) (vl_y loc),
      vl_z = near_index (v3_at l 2) (v3_at (voxel_center n) 2) (quater_length n) (vl_z loc)\<rparr>"

definition point_residual :: "sigma_oracle \<Rightarrow> VoxelMapConfig \<Rightarrow> voxel_map \<Rightarrow> pointWithVar \<Rightarrow> residual" where
  "point_residual sigma_inf cfg m pv =
     (let l = loc_xyz (max_voxel_size cfg) (point_w pv);
          position = location_of l;
          r0 = \<lparr>is_sucess = False, prob = 0, single_ptpl = None, res_pv = pv\<rparr>
      in case map_of m position of
           None \<Rightarrow> r0
         | Some octo \<Rightarrow>
             let r = build_single_residual sigma_inf cfg octo 0 r0
             in if \<not> is_sucess r
                then case map_of m (near_position l (data octo) position) of
                       None \<Rightarrow> r
                     | Some near \<Rightarrow> build_single_residual sigma_inf cfg near 0 r
                else r)"

text \<open>The list \<open>ptpl_list\<close> and the points with their normals. An entry \<open>None\<close> is a \<open>PointToPlane\<close> that was never
  written.\<close>

fun BuildResidualListOMP :: "sigma_oracle \<Rightarrow> VoxelMapConfig \<Rightarrow> voxel_map \<Rightarrow> pointWithVar list
    \<Rightarrow> pointWithVar list \<times> PointToPlane option list" where
  "BuildResidualListOMP sigma_inf cfg m [] = ([], [])"
| "BuildResidualListOMP sigma_inf cfg m (pv # pvs) =
     (let r = point_residual sigma_inf cfg m pv; rest = BuildResidualListOMP sigma_inf cfg m pvs
      in (res_pv r # fst rest, if is_sucess r then single_ptpl r # snd rest else snd rest))"

section \<open>The best plane\<close>

text \<open>The planes the search reaches, in its order, with their layers; and the gate a plane has to pass.\<close>

function planes_of :: "VoxelMapConfig \<Rightarrow> octo \<Rightarrow> nat \<Rightarrow> (VoxelPlane \<times> nat) list" where
  "planes_of cfg t current_layer =
     (if vp_is_plane (plane_ptr (data t)) then [(plane_ptr (data t), current_layer)]
      else if int current_layer < max_layer cfg
      then concat (map (\<lambda>k. case leaf_at (leaves t) k of
                     None \<Rightarrow> [] | Some leaf \<Rightarrow> planes_of cfg leaf (current_layer + 1)) [0..<8])
      else [])"
  by pat_completeness auto

termination by (relation "measure (\<lambda>(cfg, t, current_layer). size t)") (auto dest: size_leaf_at)

declare planes_of.simps [simp del]

definition accepted :: "VoxelMapConfig \<Rightarrow> pointWithVar \<Rightarrow> VoxelPlane \<Rightarrow> mat \<Rightarrow> bool" where
  "accepted cfg pv plane P \<longleftrightarrow> vp_plane_var plane = Some P \<and> in_range plane (point_w pv) \<and> 0 \<le> sigma_l plane P pv
     \<and> \<bar>signed_distance plane (point_w pv)\<bar> < sigma_num cfg * sqrt (sigma_l plane P pv)"

definition search_planes :: "sigma_oracle \<Rightarrow> VoxelMapConfig \<Rightarrow> (VoxelPlane \<times> nat) list \<Rightarrow> residual \<Rightarrow> residual" where
  "search_planes sigma_inf cfg ps r = foldl (\<lambda>r e. try_plane sigma_inf cfg (fst e) (snd e) r) r ps"

text \<open>The recursion through the tree is one loop over the planes of the tree.\<close>

lemma build_single_residual_planes:
  "build_single_residual sigma_inf cfg t current_layer r = search_planes sigma_inf cfg (planes_of cfg t current_layer) r"
proof (induction sigma_inf cfg t current_layer r rule: build_single_residual.induct)
  case (1 sigma_inf cfg t current_layer r)
  let ?g = "\<lambda>k. case leaf_at (leaves t) k of None \<Rightarrow> [] | Some leaf \<Rightarrow> planes_of cfg leaf (current_layer + 1)"
  show ?case
  proof (cases "\<not> vp_is_plane (plane_ptr (data t)) \<and> int current_layer < max_layer cfg")
    case True
    have step: "(case leaf_at (leaves t) k of None \<Rightarrow> r | Some leaf \<Rightarrow> build_single_residual sigma_inf cfg leaf (current_layer + 1) r)
        = search_planes sigma_inf cfg (?g k) r" if "k \<in> set [0..<8]" for k r
      using "1.IH" True that by (auto simp: search_planes_def split: option.splits)
    have "foldl (\<lambda>r k. case leaf_at (leaves t) k of None \<Rightarrow> r
             | Some leaf \<Rightarrow> build_single_residual sigma_inf cfg leaf (current_layer + 1) r) r ks
        = search_planes sigma_inf cfg (concat (map ?g ks)) r" if "set ks \<subseteq> set [0..<8]" for ks
      using that
    proof (induction ks arbitrary: r)
      case (Cons k ks)
      then show ?case using step [of k] by (simp add: search_planes_def)
    qed (simp add: search_planes_def)
    from this [OF subset_refl] show ?thesis
      using True by (simp add: build_single_residual.simps [of _ _ t] planes_of.simps [of _ t] del: upt_rec_numeral)
  qed (auto simp: build_single_residual.simps [of _ _ t] planes_of.simps [of _ t] search_planes_def)
qed

lemma plane_prob_pos: "accepted cfg pv plane P \<Longrightarrow> 0 < plane_prob plane P pv"
proof -
  assume a: "accepted cfg pv plane P"
  have "sigma_l plane P pv \<noteq> 0" using a by (auto simp: accepted_def)
  then have "0 < sigma_l plane P pv" using a by (simp add: accepted_def)
  then show ?thesis by (simp add: plane_prob_def Let_def)
qed

text \<open>What has been found after the planes \<open>ps\<close>.\<close>

definition best_of :: "VoxelMapConfig \<Rightarrow> pointWithVar \<Rightarrow> (VoxelPlane \<times> nat) list \<Rightarrow> residual \<Rightarrow> bool" where
  "best_of cfg pv ps r \<longleftrightarrow> res_pv r = pv\<lparr>pv_normal := pv_normal (res_pv r)\<rparr> \<and>
     (if is_sucess r
      then \<exists>plane l P. (plane, l) \<in> set ps \<and> accepted cfg pv plane P \<and> single_ptpl r = Some (make_ptpl plane l pv)
             \<and> pv_normal (res_pv r) = vp_normal plane \<and> prob r = plane_prob plane P pv
             \<and> (\<forall>plane' l' P'. (plane', l') \<in> set ps \<longrightarrow> accepted cfg pv plane' P' \<longrightarrow> plane_prob plane' P' pv \<le> prob r)
      else single_ptpl r = None \<and> prob r = 0 \<and> (\<forall>plane' l' P'. (plane', l') \<in> set ps \<longrightarrow> \<not> accepted cfg pv plane' P'))"

lemma accepted_normal [simp]:
  "accepted cfg (pv\<lparr>pv_normal := n\<rparr>) plane P = accepted cfg pv plane P"
  "plane_prob plane P (pv\<lparr>pv_normal := n\<rparr>) = plane_prob plane P pv"
  "make_ptpl plane l (pv\<lparr>pv_normal := n\<rparr>) = make_ptpl plane l pv"
  by (simp_all add: accepted_def sigma_l_def plane_prob_def make_ptpl_def)

lemma try_plane_accepted:
  assumes "vp_plane_var plane \<noteq> None"
  shows "try_plane sigma_inf cfg plane l r =
    (if \<exists>P. accepted cfg (res_pv r) plane P
     then let P = the (vp_plane_var plane); r1 = r\<lparr>is_sucess := True\<rparr>
          in if plane_prob plane P (res_pv r) > prob r
             then r1\<lparr>prob := plane_prob plane P (res_pv r), res_pv := (res_pv r)\<lparr>pv_normal := vp_normal plane\<rparr>,
                     single_ptpl := Some (make_ptpl plane l (res_pv r))\<rparr>
             else r1
     else r)"
  using assms by (auto simp: try_plane_def accepted_def Let_def)

lemma best_of_step:
  assumes "best_of cfg pv ps r" and "vp_plane_var plane \<noteq> None"
  shows "best_of cfg pv (ps @ [(plane, l)]) (try_plane sigma_inf cfg plane l r)"
proof -
  define n where "n = pv_normal (res_pv r)"
  have n: "res_pv r = pv\<lparr>pv_normal := n\<rparr>" using assms(1) by (simp add: best_of_def n_def)
  obtain P where P: "vp_plane_var plane = Some P" using assms(2) by blast
  have uniq: "P' = P" if "accepted cfg pv plane P'" for P' using P that by (simp add: accepted_def)
  then have ex: "(\<exists>P'. accepted cfg pv plane P') \<longleftrightarrow> accepted cfg pv plane P" by blast
  show ?thesis
  proof (cases "accepted cfg pv plane P")
    case False
    then have t: "try_plane sigma_inf cfg plane l r = r"
      by (simp add: try_plane_accepted [OF assms(2)] n ex)
    have no: "\<not> accepted cfg pv plane P'" for P' using False uniq by blast
    show ?thesis
    proof (cases "is_sucess r")
      case True
      then obtain plane0 l0 P0 where "(plane0, l0) \<in> set ps" "accepted cfg pv plane0 P0"
        "single_ptpl r = Some (make_ptpl plane0 l0 pv)" "pv_normal (res_pv r) = vp_normal plane0"
        "prob r = plane_prob plane0 P0 pv"
        "\<forall>plane' l' P'. (plane', l') \<in> set ps \<longrightarrow> accepted cfg pv plane' P' \<longrightarrow> plane_prob plane' P' pv \<le> prob r"
        using assms(1) by (auto simp: best_of_def)
      then show ?thesis unfolding t best_of_def using True n no by (auto intro!: exI [of _ plane0] exI [of _ l0] exI [of _ P0])
    next
      case notyet: False
      then show ?thesis unfolding t best_of_def using assms(1) n no by (auto simp: best_of_def)
    qed
  next
    case True
    note pos = plane_prob_pos [OF True]
    show ?thesis
    proof (cases "plane_prob plane P pv > prob r")
      case better: True
      have t: "try_plane sigma_inf cfg plane l r = r\<lparr>is_sucess := True, prob := plane_prob plane P pv,
          res_pv := pv\<lparr>pv_normal := vp_normal plane\<rparr>, single_ptpl := Some (make_ptpl plane l pv)\<rparr>"
        using True better by (simp add: try_plane_accepted [OF assms(2)] n P ex Let_def)
      have "plane_prob plane' P' pv \<le> plane_prob plane P pv"
        if m: "(plane', l') \<in> set ps" and a: "accepted cfg pv plane' P'" for plane' l' P'
      proof (cases "is_sucess r")
        case True
        then have "plane_prob plane' P' pv \<le> prob r" using assms(1) m a by (auto simp: best_of_def)
        then show ?thesis using better by simp
      next
        case False
        then show ?thesis using assms(1) m a by (auto simp: best_of_def)
      qed
      then show ?thesis using True unfolding t best_of_def
        by (auto intro!: exI [of _ plane] exI [of _ l] exI [of _ P] dest: uniq)
    next
      case worse: False
      then have s: "is_sucess r" using assms(1) pos by (auto simp: best_of_def split: if_splits)
      then have t: "try_plane sigma_inf cfg plane l r = r"
        using True worse s by (simp add: try_plane_accepted [OF assms(2)] n P ex Let_def)
      obtain plane0 l0 P0 where "(plane0, l0) \<in> set ps" "accepted cfg pv plane0 P0"
        "single_ptpl r = Some (make_ptpl plane0 l0 pv)" "pv_normal (res_pv r) = vp_normal plane0"
        "prob r = plane_prob plane0 P0 pv"
        "\<forall>plane' l' P'. (plane', l') \<in> set ps \<longrightarrow> accepted cfg pv plane' P' \<longrightarrow> plane_prob plane' P' pv \<le> prob r"
        using assms(1) s by (auto simp: best_of_def)
      then show ?thesis unfolding t best_of_def using s n worse
        by (auto intro!: exI [of _ plane0] exI [of _ l0] exI [of _ P0] dest: uniq) blast
    qed
  qed
qed

lemma search_planes_best:
  assumes "\<forall>(plane, l) \<in> set ps. vp_plane_var plane \<noteq> None"
  shows "best_of cfg pv ps (search_planes sigma_inf cfg ps \<lparr>is_sucess = False, prob = 0, single_ptpl = None, res_pv = pv\<rparr>)"
  using assms
proof (induction ps rule: rev_induct)
  case (snoc e ps)
  obtain plane l where e: "e = (plane, l)" by (cases e)
  show ?case using snoc best_of_step [of cfg pv ps _ plane l sigma_inf] by (simp add: search_planes_def e)
next
  case Nil
  show ?case by (simp add: search_planes_def best_of_def)
qed

text \<open>C13: The residual of a point is taken to the most likely plane of its voxel: \<open>build_single_residual\<close> succeeds
  exactly when some plane of the tree passes the range and three-sigma gates, and then the result and the normal
  of the point are those of a passing plane whose probability no other passing plane exceeds.\<close>

theorem residual_most_likely_plane:
  assumes "\<forall>(plane, l) \<in> set (planes_of cfg t 0). vp_plane_var plane \<noteq> None"
    and "r = build_single_residual sigma_inf cfg t 0 \<lparr>is_sucess = False, prob = 0, single_ptpl = None, res_pv = pv\<rparr>"
  shows "if is_sucess r
    then \<exists>plane l P. (plane, l) \<in> set (planes_of cfg t 0) \<and> accepted cfg pv plane P
           \<and> single_ptpl r = Some (make_ptpl plane l pv) \<and> pv_normal (res_pv r) = vp_normal plane
           \<and> (\<forall>plane' l' P'. (plane', l') \<in> set (planes_of cfg t 0) \<longrightarrow> accepted cfg pv plane' P'
                \<longrightarrow> plane_prob plane' P' pv \<le> plane_prob plane P pv)
    else \<forall>plane' l' P'. (plane', l') \<in> set (planes_of cfg t 0) \<longrightarrow> \<not> accepted cfg pv plane' P'"
proof -
  have b: "best_of cfg pv (planes_of cfg t 0) r"
    unfolding assms(2) build_single_residual_planes by (rule search_planes_best [OF assms(1)])
  show ?thesis
  proof (cases "is_sucess r")
    case True
    then show ?thesis using b unfolding best_of_def by (simp only: if_True) metis
  next
    case False
    then show ?thesis using b unfolding best_of_def by (simp only: if_False) blast
  qed
qed

definition ex_plane :: VoxelPlane where
  "ex_plane = new_VoxelPlane\<lparr>vp_normal := (1, 0, 0), vp_d := - 5, vp_center := (5, 0, 0), vp_is_plane := True,
     vp_radius := 1, vp_plane_var := Some mident\<rparr>"

definition ex_tree :: octo where
  "ex_tree = Octo ((data (new_octo 0 5 (5, 0, 0) 1))\<lparr>plane_ptr := ex_plane, init_octo := True\<rparr>) (replicate 8 None)"

lemma ex_plane_accepted: "accepted ex_cfg (ex_pv 6 1 0) ex_plane mident"
proof -
  have s: "sigma_l ex_plane mident (ex_pv 6 1 0) = 4"
    by (simp add: sigma_l_def quad_def J_nq_def ex_plane_def ex_pv_def mident_def eval_nat_numeral)
  have d: "signed_distance ex_plane (6, 1, 0) = 1" by (simp add: signed_distance_def ex_plane_def)
  have r: "in_range ex_plane (6, 1, 0)"
    by (simp add: in_range_def d Let_def dis_to_center_def sq_norm_def) (simp add: ex_plane_def)
  have "point_w (ex_pv 6 1 0) = (6, 1, 0)" by (simp add: ex_pv_def)
  then show ?thesis using s d r by (simp add: accepted_def) (simp add: ex_plane_def ex_cfg_def)
qed

theorem residual_most_likely_plane_witness:
  "\<exists>P. accepted ex_cfg (ex_pv 6 1 0) ex_plane P \<and>
     single_ptpl (build_single_residual (\<lambda>_ _. False) ex_cfg ex_tree 0
       \<lparr>is_sucess = False, prob = 0, single_ptpl = None, res_pv = ex_pv 6 1 0\<rparr>) = Some (make_ptpl ex_plane 0 (ex_pv 6 1 0))"
proof -
  have p: "planes_of ex_cfg ex_tree 0 = [(ex_plane, 0)]"
  proof -
    have "plane_ptr (data ex_tree) = ex_plane" "vp_is_plane ex_plane" by (simp_all add: ex_tree_def ex_plane_def)
    then show ?thesis by (simp add: planes_of.simps [of _ ex_tree])
  qed
  have v: "vp_plane_var ex_plane \<noteq> None" by (simp add: ex_plane_def)
  show ?thesis
    using residual_most_likely_plane [of ex_cfg ex_tree _ "\<lambda>_ _. False" "ex_pv 6 1 0", OF _ refl] ex_plane_accepted v
    by (auto simp: p split: if_splits)
qed

text \<open>The choice of the neighbouring voxel compares a coordinate counted in voxels with a centre in metres. With
  voxels smaller than a metre, every point that is not close to the origin on the positive side is sent to the
  next voxel in all three axes at once, wherever it lies in its own voxel, even when another neighbour is nearer.\<close>

theorem near_voxel_mixes_units:
  assumes "0 < max_voxel_size cfg" and "max_voxel_size cfg < 1"
    and "\<forall>j \<in> {0, 1, 2}. v3_at p j * (1 - max_voxel_size cfg) > 3 / 4 * (max_voxel_size cfg)\<^sup>2"
    and "root_ok cfg (voxel_location cfg p) n"
  shows "near_position (loc_xyz (max_voxel_size cfg) p) n (voxel_location cfg p) =
    \<lparr>vl_x = vl_x (voxel_location cfg p) + 1, vl_y = vl_y (voxel_location cfg p) + 1,
     vl_z = vl_z (voxel_location cfg p) + 1\<rparr>"
proof -
  let ?s = "max_voxel_size cfg"
  have far: "loc_of ?s x > (1 / 2 + of_int (trunc_int (loc_of ?s x))) * ?s + ?s / 4"
    if "x * (1 - ?s) > 3 / 4 * ?s\<^sup>2" for x
  proof -
    have pos: "x > 0" using that assms(1,2) zero_le_power2 [of ?s]
      by (smt (verit) mult_nonpos_nonneg divide_pos_pos zero_less_mult_iff zero_less_power)
    then have "\<not> x / ?s < 0" using assms(1) by (simp add: not_less)
    then have l: "loc_of ?s x = x / ?s" by (simp add: loc_of_def)
    have "\<bar>x - (1 / 2 + of_int (trunc_int (loc_of ?s x))) * ?s\<bar> \<le> 2 * (?s / 4)" by (rule loc_of_bounds [OF assms(1)])
    then have "(1 / 2 + of_int (trunc_int (loc_of ?s x))) * ?s + ?s / 4 \<le> x + 3 / 4 * ?s" by linarith
    also have "\<dots> < x / ?s" using that assms(1) by (simp add: field_simps power2_eq_square)
    finally show ?thesis by (simp add: l)
  qed
  have q: "quater_length n = ?s / 4" "voxel_center n = location_center ?s (voxel_location cfg p)"
    using assms(4) by (simp_all add: root_ok_def)
  have "loc_of ?s (v3_at p j) > (1 / 2 + of_int (trunc_int (loc_of ?s (v3_at p j)))) * ?s + ?s / 4"
    if "j \<in> {0, 1, 2}" for j
    by (rule far) (use assms(3) that in blast)
  from this [of 0] this [of 1] this [of 2] show ?thesis unfolding near_position_def near_index_def q
    by (simp only: location_center_def voxel_location_def location_of_def loc_xyz_def v3_at.simps
        VOXEL_LOCATION.simps if_True insert_iff simp_thms) simp
qed

theorem near_voxel_mixes_units_witness:
  "near_position (loc_xyz (1 / 2) (81 / 40, 81 / 40, 81 / 40)) (data (fresh_root ex_cfg (voxel_location ex_cfg (81 / 40, 81 / 40, 81 / 40))))
     (voxel_location ex_cfg (81 / 40, 81 / 40, 81 / 40)) = \<lparr>vl_x = 5, vl_y = 5, vl_z = 5\<rparr>"
proof -
  have s: "max_voxel_size ex_cfg = 1 / 2" by (simp add: ex_cfg_def)
  have l: "voxel_location ex_cfg (81 / 40, 81 / 40, 81 / 40) = \<lparr>vl_x = 4, vl_y = 4, vl_z = 4\<rparr>"
    by (simp add: voxel_location_def location_of_def loc_xyz_def loc_of_def trunc_int_def s Let_def)
  have r: "root_ok ex_cfg (voxel_location ex_cfg (81 / 40, 81 / 40, 81 / 40))
      (data (fresh_root ex_cfg (voxel_location ex_cfg (81 / 40, 81 / 40, 81 / 40))))"
    by (simp add: root_ok_def fresh_root_def new_octo_def)
  show ?thesis
    using near_voxel_mixes_units [OF _ _ _ r] by (simp add: s l power2_eq_square)
qed

end
