(* ===== verification/Map_Step.thy ===== *)
theory Map_Step
  imports State_Group
begin

text \<open>
  One step of an iterated Kalman update in information form, as the LiDAR and the visual update compute it: scalar
  measurement rows on the first \<open>m\<close> of \<open>n\<close> error coordinates, a matrix \<open>Q\<close> for the inverse of the prior covariance and \<open>K\<close>
  for the inverse of the information matrix. The step minimises the weighted squared errors, and the gain gives the
  posterior covariance. The definitions are the specification; the code's own are in the theories that use them.
\<close>

section \<open>The step\<close>

record row =
  row_h :: vec
  row_R_inv :: real
  row_meas :: real

definition info :: "nat \<Rightarrow> row list \<Rightarrow> mat" where
  "info m rows = (\<lambda>i j. if i < m \<and> j < m then \<Sum>r\<leftarrow>rows. row_h r i * row_R_inv r * row_h r j else 0)"

definition info_z :: "row list \<Rightarrow> vec" where
  "info_z rows = (\<lambda>i. \<Sum>r\<leftarrow>rows. row_h r i * row_R_inv r * row_meas r)"

definition map_gain :: "nat \<Rightarrow> mat \<Rightarrow> row list \<Rightarrow> mat" where
  "map_gain m K rows = (\<lambda>i j. if j < m then mmul m K (info m rows) i j else 0)"

definition map_step :: "nat \<Rightarrow> mat \<Rightarrow> row list \<Rightarrow> vec \<Rightarrow> vec" where
  "map_step m K rows v = (\<lambda>i. mvmul m K (info_z rows) i + v i - mvmul m (map_gain m K rows) v i)"

text \<open>The squared measurement errors after an error-state step \<open>d\<close>, and with the distance to the prediction \<open>v\<close>.\<close>

definition map_cost :: "nat \<Rightarrow> row list \<Rightarrow> vec \<Rightarrow> real" where
  "map_cost m rows d = (\<Sum>r\<leftarrow>rows. row_R_inv r * (row_meas r - vdot m (row_h r) d)\<^sup>2)"

section \<open>Sums\<close>

lemma sum_list_swap: "(\<Sum>i\<in>A. \<Sum>r\<leftarrow>rs. f i r) = (\<Sum>r\<leftarrow>rs. \<Sum>i\<in>A. (f i r :: real))"
  by (induction rs) (simp_all add: sum.distrib)

lemma sum_lessThan_le: "m \<le> (n::nat) \<Longrightarrow> (\<Sum>i<n. if i < m then f i else (0::real)) = (\<Sum>i<m. f i)"
proof -
  assume "m \<le> n"
  then have "{..<n} \<inter> {i. i < m} = {..<m}" by auto
  then show ?thesis by (simp add: sum.If_cases)
qed

section \<open>The cost as a quadratic form\<close>

lemma quad_info:
  assumes "m \<le> n"
  shows "quad n (info m rows) x = (\<Sum>r\<leftarrow>rows. row_R_inv r * (vdot m (row_h r) x)\<^sup>2)"
proof -
  have "quad n (info m rows) x = (\<Sum>i<n. if i < m then (\<Sum>j<n. if j < m then x i * info m rows i j * x j else 0) else 0)"
    unfolding quad_def by (intro sum.cong refl) (auto simp: info_def intro!: sum.cong)
  also have "\<dots> = (\<Sum>i<m. \<Sum>j<m. x i * info m rows i j * x j)"
    unfolding sum_lessThan_le [OF assms] ..
  also have "\<dots> = (\<Sum>i<m. \<Sum>j<m. \<Sum>r\<leftarrow>rows. row_R_inv r * ((row_h r i * x i) * (row_h r j * x j)))"
    by (intro sum.cong refl) (simp add: info_def sum_list_const_mult [symmetric] sum_list_mult_const [symmetric] algebra_simps)
  also have "\<dots> = (\<Sum>r\<leftarrow>rows. \<Sum>i<m. \<Sum>j<m. row_R_inv r * ((row_h r i * x i) * (row_h r j * x j)))"
    by (simp only: sum_list_swap)
  also have "\<dots> = (\<Sum>r\<leftarrow>rows. row_R_inv r * (vdot m (row_h r) x)\<^sup>2)"
    unfolding vdot_def power2_eq_square sum_product by (simp only: sum_distrib_left)
  finally show ?thesis .
qed

lemma info_sym: "msym n (info m rows)"
  by (auto simp: msym_def info_def algebra_simps intro!: arg_cong [where f = sum_list])

lemma info_psd: "m \<le> n \<Longrightarrow> \<forall>r \<in> set rows. 0 \<le> row_R_inv r \<Longrightarrow> mpsd n (info m rows)"
  unfolding mpsd_def by (auto simp: quad_info intro!: sum_list_nonneg)

lemma information_inv:
  assumes "m \<le> n" and "\<forall>r \<in> set rows. 0 \<le> row_R_inv r" and "msym n Q" and "mpsd n Q"
  shows "msym n (madd (info m rows) Q)" and "mpsd n (madd (info m rows) Q)"
  using info_sym [of n m rows] assms(3) info_psd [OF assms(1,2)] assms(4)
  by (simp_all add: msym_def mpsd_add) (simp add: madd_def)

text \<open>The gradient of the cost at the step \<open>v\<close>, on the first \<open>m\<close> coordinates.\<close>

definition gradient :: "nat \<Rightarrow> row list \<Rightarrow> vec \<Rightarrow> vec" where
  "gradient m rows v = (\<lambda>i. if i < m then info_z rows i - mvmul m (info m rows) v i else 0)"

lemma gradient_rows:
  assumes "m \<le> n"
  shows "vdot n (gradient m rows v) x = (\<Sum>r\<leftarrow>rows. row_R_inv r * (row_meas r - vdot m (row_h r) v) * vdot m (row_h r) x)"
proof -
  have g: "gradient m rows v i = (\<Sum>r\<leftarrow>rows. row_R_inv r * (row_meas r - vdot m (row_h r) v) * row_h r i)" if "i < m" for i
  proof -
    have "mvmul m (info m rows) v i = (\<Sum>k<m. \<Sum>r\<leftarrow>rows. row_h r i * row_R_inv r * (row_h r k * v k))"
      using that unfolding mvmul_def
      by (intro sum.cong refl)
        (simp add: info_def sum_list_mult_const [symmetric] sum_list_const_mult [symmetric] algebra_simps)
    also have "\<dots> = (\<Sum>r\<leftarrow>rows. row_h r i * row_R_inv r * vdot m (row_h r) v)"
      by (simp only: sum_list_swap) (simp add: vdot_def sum_distrib_left)
    finally show ?thesis using that
      by (simp add: gradient_def info_z_def flip: sum_list_subtractf) (simp add: algebra_simps)
  qed
  have "vdot n (gradient m rows v) x = (\<Sum>i<n. if i < m then gradient m rows v i * x i else 0)"
    unfolding vdot_def by (intro sum.cong refl) (simp add: gradient_def)
  also have "\<dots> = (\<Sum>i<m. \<Sum>r\<leftarrow>rows. row_R_inv r * (row_meas r - vdot m (row_h r) v) * (row_h r i * x i))"
    unfolding sum_lessThan_le [OF assms]
    by (intro sum.cong refl) (simp add: g sum_list_mult_const [symmetric] mult.assoc)
  also have "\<dots> = (\<Sum>r\<leftarrow>rows. row_R_inv r * (row_meas r - vdot m (row_h r) v) * vdot m (row_h r) x)"
    by (simp only: sum_list_swap) (simp add: vdot_def sum_distrib_left)
  finally show ?thesis .
qed

lemma map_cost_shift:
  assumes "m \<le> n"
  shows "map_cost m rows (\<lambda>i. v i + y i) = map_cost m rows v
     + quad n (info m rows) y - 2 * vdot n (gradient m rows v) y"
proof -
  have e: "vdot m (row_h r) (\<lambda>i. v i + y i) = vdot m (row_h r) v + vdot m (row_h r) y" for r
    by (simp add: vdot_def algebra_simps sum.distrib)
  have step: "row_R_inv r * (row_meas r - vdot m (row_h r) (\<lambda>i. v i + y i))\<^sup>2
      = row_R_inv r * (row_meas r - vdot m (row_h r) v)\<^sup>2 + row_R_inv r * (vdot m (row_h r) y)\<^sup>2
        - 2 * (row_R_inv r * (row_meas r - vdot m (row_h r) v) * vdot m (row_h r) y)" for r
    unfolding e by (simp add: power2_eq_square algebra_simps)
  show ?thesis unfolding quad_info [OF assms] gradient_rows [OF assms] map_cost_def
    by (simp only: step sum_list_addf sum_list_subtractf sum_list_const_mult)
qed

lemma map_step_gradient:
  assumes "m \<le> n"
  shows "map_step m K rows v i = v i + mvmul n K (gradient m rows v) i"
proof -
  have "mvmul n K (gradient m rows v) i = (\<Sum>k<n. if k < m then K i k * gradient m rows v k else 0)"
    unfolding mvmul_def by (intro sum.cong refl) (simp add: gradient_def)
  also have "\<dots> = mvmul m K (info_z rows) i - mvmul m K (mvmul m (info m rows) v) i"
    unfolding sum_lessThan_le [OF assms] mvmul_def by (simp add: gradient_def mvmul_def algebra_simps sum_subtractf)
  also have "mvmul m K (mvmul m (info m rows) v) i = mvmul m (map_gain m K rows) v i"
    unfolding mvmul_mmul [symmetric] by (simp add: mvmul_def map_gain_def)
  finally show ?thesis by (simp add: map_step_def)
qed

section \<open>The step is the best one\<close>

lemma map_step_optimal:
  assumes "m \<le> n" and "\<forall>r \<in> set rows. 0 \<le> row_R_inv r" and "msym n Q" and "mpsd n Q"
    and "is_inverse n (madd (info m rows) Q) K"
  shows "map_cost m rows (map_step m K rows v) + quad n Q (\<lambda>i. v i - map_step m K rows v i)
         \<le> map_cost m rows d + quad n Q (\<lambda>i. v i - d i)"
proof -
  let ?M = "madd (info m rows) Q" and ?g = "gradient m rows v"
  let ?y = "mvmul n K ?g"
  have cost: "map_cost m rows (\<lambda>i. v i + y i) + quad n Q (\<lambda>i. v i - (v i + y i))
      = map_cost m rows v + (quad n ?M y - 2 * vdot n ?g y)" for y
    by (simp add: map_cost_shift [OF assms(1)] quad_add) (simp add: quad_def)
  have M: "msym n ?M" "mpsd n ?M"
    by (fact information_inv [OF assms(1-4)])+
  have "mvmul n ?M ?y i = ?g i" if "i < n" for i
  proof -
    have "meq n (mmul n ?M K) mident" using assms(5) by (simp add: is_inverse_def)
    from mvmul_cong [OF this refl that, of ?g] show ?thesis by (simp add: mvmul_mmul mvmul_ident that)
  qed
  from quadratic_minimum [OF M this, of "\<lambda>i. d i - v i"]
  have "map_cost m rows (\<lambda>i. v i + ?y i) + quad n Q (\<lambda>i. v i - (v i + ?y i))
      \<le> map_cost m rows (\<lambda>i. v i + (d i - v i)) + quad n Q (\<lambda>i. v i - (v i + (d i - v i)))"
    unfolding cost by simp
  moreover have "map_step m K rows v = (\<lambda>i. v i + ?y i)" by (rule ext) (rule map_step_gradient [OF assms(1)])
  ultimately show ?thesis by simp
qed

section \<open>The posterior covariance\<close>

text \<open>\<open>I - G\<close> is \<open>K Q\<close>.\<close>

lemma map_gain_complement:
  assumes "m \<le> n" and "is_inverse n (madd (info m rows) Q) K"
  shows "meq n (msub mident (map_gain m K rows)) (mmul n K Q)"
proof -
  have "mmul n K (info m rows) i j = (\<Sum>k<n. if k < m then K i k * info m rows k j else 0)" for i j
    unfolding mmul_def by (intro sum.cong refl) (simp add: info_def)
  then have G: "meq n (map_gain m K rows) (mmul n K (info m rows))"
    unfolding sum_lessThan_le [OF assms(1)] by (auto simp: meq_def map_gain_def mmul_def info_def)
  have "meq n (madd (mmul n K (info m rows)) (mmul n K Q)) mident"
    using assms(2) by (simp add: is_inverse_def mmul_distrib)
  then have "mmul n K Q i j = mident i j - mmul n K (info m rows) i j" if "i < n" "j < n" for i j
    using that by (simp add: meq_def madd_def flip: add_diff_eq) (metis add_diff_cancel_left')
  then show ?thesis using G by (simp add: meq_def msub_def)
qed

lemma posterior_inv:
  assumes "m \<le> n" and "\<forall>r \<in> set rows. 0 \<le> row_R_inv r" and "msym n Q" and "mpsd n Q"
    and "is_inverse n (madd (info m rows) Q) K"
  shows "msym n K" "mpsd n K"
  using inverse_msym [OF assms(5)] inverse_mpsd [OF assms(5)] information_inv [OF assms(1-4)] by auto

text \<open>The covariance that is updated is \<open>c\<close> times the one the step is taken with.\<close>

lemma posterior_cov:
  assumes "m \<le> n" and "is_inverse n (madd (info m rows) Q) K" and "is_inverse n P Q"
  shows "meq n (mmul n (msub mident (map_gain m K rows)) (mscale c P)) (mscale c K)"
proof -
  have s: "mmul n a (mscale c b) = mscale c (mmul n a b)" for a b
    by (simp add: mmul_def mscale_def sum_distrib_left algebra_simps)
  have a: "meq n (mmul n (msub mident (map_gain m K rows)) P) (mmul n (mmul n K Q) P)"
    by (rule mmul_cong [OF map_gain_complement [OF assms(1,2)] meq_refl])
  have b: "meq n (mmul n (mmul n K Q) P) (mmul n K mident)"
    unfolding mmul_assoc by (rule mmul_cong [OF meq_refl]) (use assms(3) in \<open>simp add: is_inverse_def\<close>)
  have "meq n (mmul n (msub mident (map_gain m K rows)) P) K"
    using meq_trans [OF meq_trans [OF a b] mmul_ident(2)] .
  then show ?thesis unfolding s by (simp add: meq_def mscale_def)
qed

section \<open>Diagonal inverses\<close>

lemma is_inverse_diag:
  assumes "meq n a (mdiag d)" and "\<And>i. i < n \<Longrightarrow> d i \<noteq> 0"
  shows "is_inverse n a (mdiag (\<lambda>i. 1 / a i i))"
proof -
  have e: "mmul n (mdiag f) (mdiag g) i j = (if i = j then f i * g i else 0)" if "i < n" "j < n" for f g i j
  proof -
    have "mmul n (mdiag f) (mdiag g) i j = (\<Sum>k<n. if k = i then f i * mdiag g i j else 0)"
      unfolding mmul_def by (intro sum.cong refl) (auto simp: mdiag_def)
    then show ?thesis using that by (simp add: mdiag_def)
  qed
  have b: "meq n (mdiag (\<lambda>i. 1 / a i i)) (mdiag (\<lambda>i. 1 / d i))"
    using assms(1) by (auto simp: meq_def mdiag_def)
  have "meq n (mmul n (mdiag d) (mdiag (\<lambda>i. 1 / d i))) mident" "meq n (mmul n (mdiag (\<lambda>i. 1 / d i)) (mdiag d)) mident"
    using assms(2) by (auto simp: meq_def e mident_def)
  then show ?thesis unfolding is_inverse_def
    using mmul_cong [OF assms(1) b] mmul_cong [OF b assms(1)] meq_trans by blast
qed

definition diag_inverse :: "mat \<Rightarrow> mat" where
  "diag_inverse a = mdiag (\<lambda>i. 1 / a i i)"

end
