(* ===== verification/Lidar_Update.thy ===== *)
theory Lidar_Update
  imports Voxel_Residual Livo_Sync Map_Step
begin

text \<open>
  The iterated Kalman update of the mapper: \<open>VoxelMapManager::StateEstimation\<close> and \<open>TransformLidar\<close> of
  \<^verbatim>\<open>fast_livo/src/voxel_map.cpp\<close>. Every residual, of the LiDAR or of the RTK antenna, is one row of the
  measurement Jacobian on the first six error coordinates with its inverse variance and its value. Eigen's
  \<open>inverse()\<close> and the LDLT solution of the innovation gate are parameters; the latter is \<open>None\<close> when it is not
  finite. Not modelled: the Euler angles kept for the odometry message.
\<close>

section \<open>Points\<close>

definition transform_point :: "mat3 \<Rightarrow> vec3 \<Rightarrow> mat3 \<Rightarrow> vec3 \<Rightarrow> vec3 \<Rightarrow> vec3" where
  "transform_point rot t extR extT p = v3_add (m3_apply rot (v3_add (m3_apply extR p) extT)) t"

definition TransformLidar :: "mat3 \<Rightarrow> vec3 \<Rightarrow> mat3 \<Rightarrow> vec3 \<Rightarrow> vec3 list \<Rightarrow> vec3 list" where
  "TransformLidar rot t extR extT cloud = map (transform_point rot t extR extT) cloud"

text \<open>The first loop: covariance in the body frame and cross-product matrix in the IMU frame of every point.\<close>

definition prepare_point :: "(real \<Rightarrow> real) \<Rightarrow> VoxelMapConfig \<Rightarrow> mat3 \<Rightarrow> vec3 \<Rightarrow> vec3 \<Rightarrow> mat3 \<times> mat3" where
  "prepare_point deg2rad cfg extR extT p0 =
     (let p1 = (if v3_at p0 2 = 0 then (v3_at p0 0, v3_at p0 1, 1 / 1000) else p0);
          r = calcBodyCov deg2rad p1 (dept_err cfg) (beam_err cfg)
      in (snd r, skew_sym (v3_add (m3_apply extR (fst r)) extT)))"

text \<open>The loop that fills \<open>pv_list_\<close> in every iteration; the other fields of an entry keep their values.\<close>

definition fill_pv :: "StatesGroup \<Rightarrow> mat3 \<Rightarrow> vec3 \<Rightarrow> vec3 \<times> (mat3 \<times> mat3) \<Rightarrow> pointWithVar \<Rightarrow> pointWithVar" where
  "fill_pv s extR extT q pv =
     (let p = fst q; body_cov = fst (snd q); cross = snd (snd q)
      in pv\<lparr>point_b := p, point_w := transform_point (rot_end s) (pos_end s) extR extT p,
           pv_var := m3_add (m3_add (m3_mult (m3_mult (rot_end s) body_cov) (m3_transpose (rot_end s)))
                       (m3_mult (m3_mult (m3_neg cross) (block3 0 0 (cov s))) (m3_neg (m3_transpose cross))))
                       (block3 3 3 (cov s)),
           body_var := body_cov\<rparr>)"

section \<open>Measurement rows\<close>

definition join6 :: "vec3 \<Rightarrow> vec3 \<Rightarrow> vec" where
  "join6 a b = (\<lambda>i. if i < 3 then v3_at a i else if i < 6 then v3_at b (i - 3) else 0)"

text \<open>\<open>ptpl_list_[i]\<close> is read in full: an entry that was never written is undefined. Planes with a covariance that
  is not finite never enter the list with values.\<close>

definition lidar_row :: "StatesGroup \<Rightarrow> StatesGroup \<Rightarrow> mat3 \<Rightarrow> vec3 \<Rightarrow> PointToPlane option \<Rightarrow> row exec" where
  "lidar_row prior s extR extT entry =
     (case entry of
        None \<Rightarrow> Undef
      | Some pl \<Rightarrow>
          (case pl_plane_var pl of
             None \<Rightarrow> Undef
           | Some P \<Rightarrow>
              let point_this = v3_add (m3_apply extR (pl_point_b pl)) extT;
                  cross = skew_sym point_this;
                  point_world = v3_add (m3_apply (rot_end prior) point_this) (pos_end prior);
                  J = join6 (v3_sub point_world (pl_center pl)) (v3_scale (- 1) (pl_normal pl));
                  rot = m3_mult (rot_end prior) extR;
                  var = m3_mult (m3_mult rot (pl_body_cov pl)) (m3_transpose rot);
                  sigma = quad 6 P J;
                  A = m3_apply cross (m3_apply (m3_transpose (rot_end s)) (pl_normal pl))
              in Ret \<lparr>row_h = join6 A (pl_normal pl), row_R_inv = 1 / (1 / 1000 + sigma + m3_quad var (pl_normal pl)),
                      row_meas = - pl_dis_to_plane pl\<rparr>))"

fun lidar_rows :: "StatesGroup \<Rightarrow> StatesGroup \<Rightarrow> mat3 \<Rightarrow> vec3 \<Rightarrow> PointToPlane option list \<Rightarrow> row list exec" where
  "lidar_rows prior s extR extT [] = Ret []"
| "lidar_rows prior s extR extT (e # es) =
     bind_exec (lidar_row prior s extR extT e) (\<lambda>r. bind_exec (lidar_rows prior s extR extT es) (\<lambda>rs. Ret (r # rs)))"

text \<open>The antenna: predicted position, Jacobian and the gate on the normalised innovation squared.\<close>

definition rtk_rot_jacobian :: "StatesGroup \<Rightarrow> vec3 \<Rightarrow> mat3" where
  "rtk_rot_jacobian s lever_arm = m3_mult (m3_neg (rot_end s)) (skew_sym lever_arm)"

definition rtk_residual :: "StatesGroup \<Rightarrow> vec3 \<Rightarrow> vec3 \<Rightarrow> vec3" where
  "rtk_residual s lever_arm p = v3_sub p (v3_add (pos_end s) (m3_apply (rot_end s) lever_arm))"

definition rtk_H_gate :: "StatesGroup \<Rightarrow> vec3 \<Rightarrow> mat" where
  "rtk_H_gate s lever_arm = set_block3 0 3 m3_one (set_block3 0 0 (rtk_rot_jacobian s lever_arm) mzero)"

definition innovation_cov :: "StatesGroup \<Rightarrow> vec3 \<Rightarrow> mat3 \<Rightarrow> mat3" where
  "innovation_cov s lever_arm position_cov =
     (let H = rtk_H_gate s lever_arm
      in m3_add (block3 0 0 (mmul 6 (mmul 6 H (cov s)) (mtrans H))) position_cov)"

definition rtk_gate :: "(mat3 \<Rightarrow> vec3 \<Rightarrow> vec3 option) \<Rightarrow> real \<Rightarrow> StatesGroup \<Rightarrow> vec3 \<Rightarrow> vec3 \<Rightarrow> mat3 \<Rightarrow> bool" where
  "rtk_gate ldlt gate s lever_arm p position_cov =
     (let innovation = rtk_residual s lever_arm p
      in case ldlt (innovation_cov s lever_arm position_cov) innovation of
           None \<Rightarrow> False
         | Some x \<Rightarrow> v3_dot innovation x \<le> gate)"

definition rtk_row :: "StatesGroup \<Rightarrow> vec3 \<Rightarrow> vec3 \<Rightarrow> mat3 \<Rightarrow> nat \<Rightarrow> row" where
  "rtk_row s lever_arm p position_cov k =
     \<lparr>row_h = (\<lambda>i. if i < 3 then m3_at (rtk_rot_jacobian s lever_arm) k i else if i < 6 then m3_at m3_one k (i - 3) else 0),
      row_R_inv = 1 / max (m3_at position_cov k k) (1 / 1000000),
      row_meas = v3_at (rtk_residual s lever_arm p) k\<rparr>"

section \<open>The iterated update\<close>

text \<open>Third-party code: \<open>DEG2RAD\<close>, the eigenvalue solver, the 19x19 inverse, LDLT, and where \<open>sigma_l\<close> is infinite.\<close>

record lio_lib =
  lib_deg2rad :: "real \<Rightarrow> real"
  lib_es :: eigen_solver
  lib_inverse :: "mat \<Rightarrow> mat"
  lib_ldlt :: "mat3 \<Rightarrow> vec3 \<Rightarrow> vec3 option"
  lib_sigma_inf :: sigma_oracle

text \<open>What a run does not change.\<close>

record lio_env =
  en_cfg :: VoxelMapConfig
  en_extR :: mat3
  en_extT :: vec3
  en_lever_arm :: vec3
  en_innovation_gate :: real

definition HT_R_inv_H :: "row list \<Rightarrow> mat" where
  "HT_R_inv_H rows = (\<lambda>i j. if i < 6 \<and> j < 6 then \<Sum>r\<leftarrow>rows. row_h r i * row_R_inv r * row_h r j else 0)"

definition HT_R_inv_z :: "row list \<Rightarrow> vec" where
  "HT_R_inv_z rows = (\<lambda>i. \<Sum>r\<leftarrow>rows. row_h r i * row_R_inv r * row_meas r)"

definition gain_K_1 :: "(mat \<Rightarrow> mat) \<Rightarrow> row list \<Rightarrow> mat \<Rightarrow> mat" where
  "gain_K_1 minv rows P = minv (madd (HT_R_inv_H rows) (minv P))"

definition gain_G :: "(mat \<Rightarrow> mat) \<Rightarrow> row list \<Rightarrow> mat \<Rightarrow> mat" where
  "gain_G minv rows P = (\<lambda>i j. if j < 6 then mmul 6 (gain_K_1 minv rows P) (HT_R_inv_H rows) i j else 0)"

definition solution :: "(mat \<Rightarrow> mat) \<Rightarrow> row list \<Rightarrow> mat \<Rightarrow> vec \<Rightarrow> vec" where
  "solution minv rows P v =
     (\<lambda>i. mvmul 6 (gain_K_1 minv rows P) (HT_R_inv_z rows) i + v i - mvmul 6 (gain_G minv rows P) v i)"

definition updated_cov :: "(mat \<Rightarrow> mat) \<Rightarrow> row list \<Rightarrow> mat \<Rightarrow> mat" where
  "updated_cov minv rows P = mmul DIM_STATE (msub mident (gain_G minv rows P)) P"

record est =
  est_state :: StatesGroup
  est_pv_list :: "pointWithVar list"
  est_ptpl_list :: "PointToPlane option list"
  est_effct_feat_num :: nat
  est_rematch_num :: nat
  est_position_last :: vec3

definition all_rows :: "lio_lib \<Rightarrow> lio_env \<Rightarrow> StatesGroup \<Rightarrow> bool \<Rightarrow> RTK \<Rightarrow> StatesGroup \<Rightarrow> PointToPlane option list
    \<Rightarrow> row list exec" where
  "all_rows lib env prior rtk_good rtk s ptpl_list =
     (let use_rtk = rtk_good \<and> rtk_valid rtk
            \<and> rtk_gate (lib_ldlt lib) (en_innovation_gate env) s (en_lever_arm env) (rtk_p rtk) (rtk_position_cov rtk)
      in bind_exec (lidar_rows prior s (en_extR env) (en_extT env) ptpl_list) (\<lambda>rs.
           Ret (rs @ (if use_rtk then map (rtk_row s (en_lever_arm env) (rtk_p rtk) (rtk_position_cov rtk)) [0..<3] else []))))"

text \<open>The body of the loop; the flag is \<open>EKF_stop_flg\<close>.\<close>

definition iterate :: "lio_lib \<Rightarrow> lio_env \<Rightarrow> voxel_map \<Rightarrow> (vec3 \<times> (mat3 \<times> mat3)) list \<Rightarrow> StatesGroup \<Rightarrow> bool \<Rightarrow> RTK
    \<Rightarrow> int \<Rightarrow> est \<Rightarrow> (est \<times> bool) exec" where
  "iterate lib env m pts prior rtk_good rtk iterCount e =
     (let s = est_state e;
          max_it = max_iterations (en_cfg env);
          n = length pts
      in if length (est_pv_list e) < n then Undef
         else let pvs = map2 (fill_pv s (en_extR env) (en_extT env)) pts (take n (est_pv_list e)) @ drop n (est_pv_list e);
                  r = BuildResidualListOMP (lib_sigma_inf lib) (en_cfg env) m pvs
              in bind_exec (all_rows lib env prior rtk_good rtk s (snd r)) (\<lambda>rows.
                   let d = solution (lib_inverse lib) rows (cov s) (state_minus prior s);
                       s1 = state_plus s d;
                       converged = v3_norm (seg3 0 d) * (573 / 10) < 1 / 100 \<and> v3_norm (seg3 3 d) * 100 < 15 / 1000;
                       rematch = (if converged \<or> est_rematch_num e = 0 \<and> iterCount = max_it - 2
                                  then est_rematch_num e + 1 else est_rematch_num e);
                       e1 = e\<lparr>est_state := s1, est_pv_list := fst r, est_ptpl_list := snd r,
                              est_effct_feat_num := length rows, est_rematch_num := rematch\<rparr>
                   in if rematch \<ge> 2 \<or> iterCount = max_it - 1
                      then Ret (e1\<lparr>est_state := s1\<lparr>cov := updated_cov (lib_inverse lib) rows (cov s)\<rparr>,
                                  est_position_last := pos_end s1\<rparr>, True)
                      else Ret (e1, False)))"

function est_loop :: "lio_lib \<Rightarrow> lio_env \<Rightarrow> voxel_map \<Rightarrow> (vec3 \<times> (mat3 \<times> mat3)) list \<Rightarrow> StatesGroup \<Rightarrow> bool \<Rightarrow> RTK
    \<Rightarrow> int \<Rightarrow> est \<Rightarrow> est exec" where
  "est_loop lib env m pts prior rtk_good rtk iterCount e =
     (if iterCount < max_iterations (en_cfg env)
      then bind_exec (iterate lib env m pts prior rtk_good rtk iterCount e) (\<lambda>q.
             if snd q then Ret (fst q) else est_loop lib env m pts prior rtk_good rtk (iterCount + 1) (fst q))
      else Ret e)"
  by pat_completeness auto

termination
  by (relation "measure (\<lambda>(lib, env, m, pts, prior, rtk_good, rtk, iterCount, e).
        nat (max_iterations (en_cfg env) - iterCount))") auto

declare est_loop.simps [simp del]

definition prepared :: "lio_lib \<Rightarrow> lio_env \<Rightarrow> vec3 list \<Rightarrow> (vec3 \<times> (mat3 \<times> mat3)) list" where
  "prepared lib env feats_down_body =
     map (\<lambda>p. (p, prepare_point (lib_deg2rad lib) (en_cfg env) (en_extR env) (en_extT env) p)) feats_down_body"

definition StateEstimation :: "lio_lib \<Rightarrow> lio_env \<Rightarrow> voxel_map \<Rightarrow> vec3 list \<Rightarrow> nat \<Rightarrow> StatesGroup \<Rightarrow> bool \<Rightarrow> RTK
    \<Rightarrow> est \<Rightarrow> est exec" where
  "StateEstimation lib env m feats_down_body feats_down_size prior rtk_good rtk e =
     est_loop lib env m (prepared lib env feats_down_body) prior rtk_good rtk 0
       (e\<lparr>est_pv_list := replicate feats_down_size new_pointWithVar, est_rematch_num := 0\<rparr>)"

section \<open>What one update computes\<close>

text \<open>The squared measurement errors after an error-state step \<open>d\<close>.\<close>

definition measurement_cost :: "row list \<Rightarrow> vec \<Rightarrow> real" where
  "measurement_cost rows d = (\<Sum>r\<leftarrow>rows. row_R_inv r * (row_meas r - vdot 6 (row_h r) d)\<^sup>2)"

text \<open>The update is a step on the first six coordinates.\<close>

lemma lidar_as_map:
  "HT_R_inv_H rows = info 6 rows" "gain_G minv rows P = map_gain 6 (gain_K_1 minv rows P) rows"
  "solution minv rows P v = map_step 6 (gain_K_1 minv rows P) rows v" "measurement_cost rows d = map_cost 6 rows d"
proof -
  have H: "HT_R_inv_H = info 6" by (intro ext) (simp add: HT_R_inv_H_def info_def)
  then show "HT_R_inv_H rows = info 6 rows" by simp
  show G: "gain_G minv rows P = map_gain 6 (gain_K_1 minv rows P) rows" unfolding gain_G_def map_gain_def H ..
  show "solution minv rows P v = map_step 6 (gain_K_1 minv rows P) rows v"
    by (simp add: solution_def map_step_def G HT_R_inv_z_def info_z_def)
  show "measurement_cost rows d = map_cost 6 rows d" by (simp add: measurement_cost_def map_cost_def)
qed

lemma six_le: "6 \<le> DIM_STATE"
  by (simp add: DIM_STATE_def)

text \<open>C14: Every iteration of the filter takes the best step. The correction \<open>solution\<close> minimises the sum of the
  squared measurement errors, of the LiDAR and of the antenna, weighted by the inverse variances, and of the
  squared distance to the predicted state, weighted by the inverse of the covariance, over all error-state steps,
  provided that the inverse of the covariance is symmetric positive semidefinite and \<open>inverse()\<close> inverts the
  information matrix.\<close>

theorem solution_is_map_estimate:
  assumes "\<forall>r \<in> set rows. 0 \<le> row_R_inv r"
    and "msym DIM_STATE (minv P)" and "mpsd DIM_STATE (minv P)"
    and "is_inverse DIM_STATE (madd (HT_R_inv_H rows) (minv P)) (gain_K_1 minv rows P)"
  shows "measurement_cost rows (solution minv rows P v) + quad DIM_STATE (minv P) (\<lambda>i. v i - solution minv rows P v i)
         \<le> measurement_cost rows d + quad DIM_STATE (minv P) (\<lambda>i. v i - d i)"
  using map_step_optimal [OF six_le assms(1-3) assms(4) [unfolded lidar_as_map], of v d] by (simp add: lidar_as_map)

text \<open>C26: The covariance after the update is the inverse of the information matrix and again symmetric positive
  semidefinite: \<open>(I - G) P\<close>, which uses only the first six columns of the gain, equals \<open>K_1\<close> when \<open>inverse()\<close>
  inverts both matrices.\<close>

theorem updated_cov_posterior:
  assumes "\<forall>r \<in> set rows. 0 \<le> row_R_inv r" and "msym DIM_STATE P" and "mpsd DIM_STATE P"
    and "is_inverse DIM_STATE P (minv P)"
    and "is_inverse DIM_STATE (madd (HT_R_inv_H rows) (minv P)) (gain_K_1 minv rows P)"
  shows "meq DIM_STATE (updated_cov minv rows P) (gain_K_1 minv rows P)
    \<and> msym DIM_STATE (updated_cov minv rows P) \<and> mpsd DIM_STATE (updated_cov minv rows P)"
proof -
  let ?n = DIM_STATE and ?K = "gain_K_1 minv rows P"
  have inv: "is_inverse ?n (madd (info 6 rows) (minv P)) ?K" using assms(5) by (simp add: lidar_as_map)
  have "mscale 1 M = M" for M by (simp add: mscale_def)
  with posterior_cov [OF six_le inv assms(4), of 1] have e: "meq ?n (updated_cov minv rows P) ?K"
    by (simp add: updated_cov_def lidar_as_map)
  then have "quad ?n (updated_cov minv rows P) x = quad ?n ?K x" for x
    by (auto simp: quad_def meq_def intro!: sum.cong)
  then show ?thesis
    using e posterior_inv [OF six_le assms(1) inverse_msym [OF assms(4,2)] inverse_mpsd [OF assms(4,2,3)] inv]
    by (auto simp: mpsd_def msym_def meq_def)
qed

section \<open>A diagonal example\<close>

definition ex_rows :: "row list" where
  "ex_rows = [\<lparr>row_h = (\<lambda>i. if i = 3 then 1 else 0), row_R_inv = 4, row_meas = 2\<rparr>]"

lemma ex_info:
  "is_inverse DIM_STATE mident (diag_inverse mident)"
  "is_inverse DIM_STATE (madd (HT_R_inv_H ex_rows) (diag_inverse mident)) (gain_K_1 diag_inverse ex_rows mident)"
  "msym DIM_STATE mident" "mpsd DIM_STATE mident" "msym DIM_STATE (diag_inverse mident)" "mpsd DIM_STATE (diag_inverse mident)"
proof -
  have i: "mident = mdiag (\<lambda>_. 1)" by (auto simp: mident_def mdiag_def fun_eq_iff)
  have d: "diag_inverse mident = mident" by (auto simp: diag_inverse_def mident_def mdiag_def fun_eq_iff)
  show "msym DIM_STATE mident" "mpsd DIM_STATE mident" unfolding i by (auto intro!: inv_intros)
  then show "msym DIM_STATE (diag_inverse mident)" "mpsd DIM_STATE (diag_inverse mident)" by (simp_all add: d)
  show "is_inverse DIM_STATE mident (diag_inverse mident)"
    unfolding diag_inverse_def by (rule is_inverse_diag [where d = "\<lambda>_. 1"]) (simp_all add: i)
  have "meq DIM_STATE (madd (HT_R_inv_H ex_rows) (diag_inverse mident)) (mdiag (\<lambda>i. if i = 3 then 5 else 1))"
    unfolding d by (auto simp: meq_def madd_def HT_R_inv_H_def ex_rows_def mident_def mdiag_def)
  from is_inverse_diag [OF this]
  show "is_inverse DIM_STATE (madd (HT_R_inv_H ex_rows) (diag_inverse mident)) (gain_K_1 diag_inverse ex_rows mident)"
    by (simp add: gain_K_1_def diag_inverse_def split: if_splits)
qed

theorem solution_is_map_estimate_witness:
  "measurement_cost ex_rows (solution diag_inverse ex_rows mident (\<lambda>_. 0))
     + quad DIM_STATE (diag_inverse mident) (\<lambda>i. 0 - solution diag_inverse ex_rows mident (\<lambda>_. 0) i)
   \<le> measurement_cost ex_rows (\<lambda>_. 1) + quad DIM_STATE (diag_inverse mident) (\<lambda>i. 0 - 1)"
  by (rule solution_is_map_estimate) (simp add: ex_rows_def, fact ex_info, fact ex_info, fact ex_info)

theorem updated_cov_posterior_witness:
  "updated_cov diag_inverse ex_rows mident 3 3 = 1 / 5"
proof -
  have "meq DIM_STATE (updated_cov diag_inverse ex_rows mident) (gain_K_1 diag_inverse ex_rows mident)"
    using updated_cov_posterior [OF _ ex_info(3,4,1,2)] by (simp add: ex_rows_def)
  then have "updated_cov diag_inverse ex_rows mident 3 3 = gain_K_1 diag_inverse ex_rows mident 3 3"
    by (simp add: meq_def DIM_STATE_def)
  then show ?thesis
    by (simp add: gain_K_1_def diag_inverse_def madd_def HT_R_inv_H_def ex_rows_def mdiag_def mident_def)
qed

section \<open>The whole estimation\<close>

lemma iterate_cases:
  assumes "iterate lib env m pts prior rtk_good rtk it e = Ret (e', stop)"
  obtains rows where "all_rows lib env prior rtk_good rtk (est_state e) (est_ptpl_list e') = Ret rows"
    and "rot_end (est_state e') = rot_end (state_plus (est_state e) (solution (lib_inverse lib) rows (cov (est_state e)) (state_minus prior (est_state e))))"
    and "cov (est_state e') = (if stop then updated_cov (lib_inverse lib) rows (cov (est_state e)) else cov (est_state e))"
    and "stop \<Longrightarrow> est_position_last e' = pos_end (est_state e')" and "it = max_iterations (en_cfg env) - 1 \<Longrightarrow> stop"
    and "est_effct_feat_num e' = length rows"
proof -
  let ?n = "length pts"
  let ?pvs = "map2 (fill_pv (est_state e) (en_extR env) (en_extT env)) pts (take ?n (est_pv_list e)) @ drop ?n (est_pv_list e)"
  let ?r = "BuildResidualListOMP (lib_sigma_inf lib) (en_cfg env) m ?pvs"
  from assms obtain rows where "\<not> length (est_pv_list e) < ?n"
    and rows: "all_rows lib env prior rtk_good rtk (est_state e) (snd ?r) = Ret rows"
    by (auto simp: iterate_def Let_def bind_exec_Ret_iff split: if_splits)
  with assms show ?thesis
    by (intro that [of rows]) (auto simp: iterate_def Let_def split: if_splits)
qed

lemma est_loop_once:
  assumes "est_loop lib env m pts prior rtk_good rtk it e = Ret e'" and "it < max_iterations (en_cfg env)"
    and "is_rotation (rot_end (est_state e))"
  shows "\<exists>s rows. is_rotation (rot_end (est_state e')) \<and> is_rotation (rot_end s) \<and> cov s = cov (est_state e)
    \<and> all_rows lib env prior rtk_good rtk s (est_ptpl_list e') = Ret rows
    \<and> cov (est_state e') = updated_cov (lib_inverse lib) rows (cov (est_state e))
    \<and> est_position_last e' = pos_end (est_state e') \<and> est_effct_feat_num e' = length rows"
  using assms
proof (induction lib env m pts prior rtk_good rtk it e rule: est_loop.induct)
  case (1 lib env m pts prior rtk_good rtk it e)
  from "1.prems"(1,2) obtain e1 stop where it: "iterate lib env m pts prior rtk_good rtk it e = Ret (e1, stop)"
    and rest: "if stop then e' = e1 else est_loop lib env m pts prior rtk_good rtk (it + 1) e1 = Ret e'"
    by (subst (asm) est_loop.simps) (auto simp: bind_exec_Ret_iff split: if_splits)
  from iterate_cases [OF it] obtain rows where
    r: "all_rows lib env prior rtk_good rtk (est_state e) (est_ptpl_list e1) = Ret rows"
      "rot_end (est_state e1) = rot_end (state_plus (est_state e) (solution (lib_inverse lib) rows (cov (est_state e)) (state_minus prior (est_state e))))"
      "cov (est_state e1) = (if stop then updated_cov (lib_inverse lib) rows (cov (est_state e)) else cov (est_state e))"
      "stop \<Longrightarrow> est_position_last e1 = pos_end (est_state e1)" "it = max_iterations (en_cfg env) - 1 \<Longrightarrow> stop"
      "est_effct_feat_num e1 = length rows" by blast
  have rot: "is_rotation (rot_end (est_state e1))" unfolding r(2) by (rule state_plus_rotation [OF "1.prems"(3)])
  show ?case
  proof (cases stop)
    case True
    then show ?thesis using r rest rot "1.prems"(3) by (intro exI [of _ "est_state e"] exI [of _ rows]) simp
  next
    case False
    then have "it + 1 < max_iterations (en_cfg env)" using r(5) "1.prems"(2) by linarith
    moreover have "est_loop lib env m pts prior rtk_good rtk (it + 1) e1 = Ret e'" using False rest by simp
    ultimately show ?thesis using "1.IH" [OF "1.prems"(2) it] False rot r(3) by simp
  qed
qed

text \<open>Every entry of \<open>ptpl_list_\<close> has been written, with a plane whose covariance is finite.\<close>

definition entry_ok :: "residual \<Rightarrow> bool" where
  "entry_ok r \<longleftrightarrow> (if is_sucess r then \<exists>pl. single_ptpl r = Some pl \<and> pl_plane_var pl \<noteq> None else prob r = 0)"

definition planes_finite :: "VoxelMapConfig \<Rightarrow> voxel_map \<Rightarrow> bool" where
  "planes_finite cfg m \<longleftrightarrow> (\<forall>t \<in> snd ` set m. \<forall>(plane, l) \<in> set (planes_of cfg t 0). vp_plane_var plane \<noteq> None)"

lemma try_plane_entry: "entry_ok r \<Longrightarrow> vp_plane_var plane \<noteq> None \<Longrightarrow> entry_ok (try_plane sigma_inf cfg plane l r)"
  using plane_prob_pos [of cfg "res_pv r" plane "the (vp_plane_var plane)"]
  by (cases "is_sucess r") (auto simp: try_plane_accepted entry_ok_def Let_def make_ptpl_def accepted_def)

lemma search_tree_entry:
  assumes "planes_finite cfg m" and "map_of m k = Some t" and "entry_ok r"
  shows "entry_ok (build_single_residual sigma_inf cfg t 0 r)"
proof -
  have f: "\<forall>e \<in> set (planes_of cfg t 0). vp_plane_var (fst e) \<noteq> None"
    using assms(1) map_of_SomeD [OF assms(2)] by (fastforce simp: planes_finite_def)
  have "entry_ok (search_planes sigma_inf cfg ps r)" if "\<forall>e \<in> set ps. vp_plane_var (fst e) \<noteq> None" for ps
    using that assms(3) by (induction ps arbitrary: r) (auto simp: search_planes_def try_plane_entry)
  then show ?thesis using f by (simp add: build_single_residual_planes)
qed

lemma point_residual_entry: "planes_finite cfg m \<Longrightarrow> entry_ok (point_residual sigma_inf cfg m pv)"
  by (auto simp: point_residual_def Let_def intro!: search_tree_entry split: option.split) (simp_all add: entry_ok_def)

lemma residual_list_written:
  "planes_finite cfg m \<Longrightarrow> \<forall>e \<in> set (snd (BuildResidualListOMP sigma_inf cfg m pvs)). \<exists>pl. e = Some pl \<and> pl_plane_var pl \<noteq> None"
proof (induction sigma_inf cfg m pvs rule: BuildResidualListOMP.induct)
  case (2 sigma_inf cfg m pv pvs)
  then show ?case using point_residual_entry [of cfg m sigma_inf pv] by (auto simp: Let_def entry_ok_def)
qed simp

lemma lidar_rows_defined:
  "\<forall>e \<in> set es. \<exists>pl. e = Some pl \<and> pl_plane_var pl \<noteq> None \<Longrightarrow> \<exists>rs. lidar_rows prior s extR extT es = Ret rs"
  by (induction es) (auto simp: lidar_row_def Let_def)

lemma BuildResidualListOMP_length [simp]: "length (fst (BuildResidualListOMP sigma_inf cfg m pvs)) = length pvs"
  by (induction sigma_inf cfg m pvs rule: BuildResidualListOMP.induct) (simp_all add: Let_def)

lemma iterate_defined:
  assumes "planes_finite (en_cfg env) m" and "length pts \<le> length (est_pv_list e)"
  shows "\<exists>q. iterate lib env m pts prior rtk_good rtk it e = Ret q
     \<and> length (est_pv_list (fst q)) = length (est_pv_list e)"
proof -
  let ?n = "length pts"
  let ?pvs = "map2 (fill_pv (est_state e) (en_extR env) (en_extT env)) pts (take ?n (est_pv_list e)) @ drop ?n (est_pv_list e)"
  let ?r = "BuildResidualListOMP (lib_sigma_inf lib) (en_cfg env) m ?pvs"
  obtain rs where "lidar_rows prior (est_state e) (en_extR env) (en_extT env) (snd ?r) = Ret rs"
    using lidar_rows_defined [OF residual_list_written [OF assms(1)]] by blast
  then show ?thesis using assms(2) by (auto simp: iterate_def all_rows_def Let_def not_less)
qed

lemma est_loop_defined:
  assumes "planes_finite (en_cfg env) m" and "length pts \<le> length (est_pv_list e)"
  shows "\<exists>e'. est_loop lib env m pts prior rtk_good rtk it e = Ret e'"
  using assms
proof (induction lib env m pts prior rtk_good rtk it e rule: est_loop.induct)
  case (1 lib env m pts prior rtk_good rtk it e)
  from iterate_defined [OF "1.prems", of lib prior rtk_good rtk it]
  obtain q where i: "iterate lib env m pts prior rtk_good rtk it e = Ret q"
    and l: "length (est_pv_list (fst q)) = length (est_pv_list e)" by blast
  show ?case
    using "1.IH" [OF _ i] "1.prems" i l by (subst est_loop.simps) simp
qed

text \<open>C27: One call of \<open>StateEstimation\<close> is defined, ends and updates the covariance exactly once. When every plane of
  the map has a finite covariance and the buffer is as long as the cloud, no residual is read that was not
  written; the attitude stays a rotation; the covariance is the update \<open>updated_cov\<close> of the covariance before the
  call, with the rows of the last list of residuals at the state of the last iteration; and \<open>position_last_\<close> is the
  new position.\<close>

theorem estimation_updates_once:
  assumes "planes_finite (en_cfg env) m" and "length cloud \<le> feats_down_size" and "0 < max_iterations (en_cfg env)"
    and "is_rotation (rot_end (est_state e))"
  shows "\<exists>e' s rows. StateEstimation lib env m cloud feats_down_size prior rtk_good rtk e = Ret e'
    \<and> is_rotation (rot_end (est_state e')) \<and> is_rotation (rot_end s) \<and> cov s = cov (est_state e)
    \<and> all_rows lib env prior rtk_good rtk s (est_ptpl_list e') = Ret rows
    \<and> cov (est_state e') = updated_cov (lib_inverse lib) rows (cov (est_state e))
    \<and> est_position_last e' = pos_end (est_state e') \<and> est_effct_feat_num e' = length rows"
proof -
  let ?e = "e\<lparr>est_pv_list := replicate feats_down_size new_pointWithVar, est_rematch_num := 0\<rparr>"
  have l: "length (prepared lib env cloud) \<le> length (est_pv_list ?e)" using assms(2) by (simp add: prepared_def)
  from est_loop_defined [OF assms(1) l] obtain e' where
    e': "est_loop lib env m (prepared lib env cloud) prior rtk_good rtk 0 ?e = Ret e'" by blast
  from est_loop_once [OF this assms(3)] assms(4) show ?thesis
    unfolding StateEstimation_def e' by simp
qed

definition ex_lib :: lio_lib where
  "ex_lib = \<lparr>lib_deg2rad = (\<lambda>d. d * pi / 180), lib_es = (\<lambda>c. ((0, 1, 2), m3_one)), lib_inverse = diag_inverse,
     lib_ldlt = (\<lambda>_ b. Some b), lib_sigma_inf = (\<lambda>_ _. False)\<rparr>"

definition ex_env :: lio_env where
  "ex_env = \<lparr>en_cfg = ex_cfg, en_extR = m3_one, en_extT = (0, 0, 0), en_lever_arm = (0, 0, 1), en_innovation_gate = 10\<rparr>"

definition ex_est :: est where
  "ex_est = \<lparr>est_state = new_StatesGroup, est_pv_list = [], est_ptpl_list = [], est_effct_feat_num = 0,
     est_rematch_num = 0, est_position_last = (0, 0, 0)\<rparr>"

theorem estimation_updates_once_witness:
  "\<exists>e'. StateEstimation ex_lib ex_env [(voxel_location ex_cfg (5, 0, 0), ex_tree)] [(6, 1, 0), (1, 2, 0)] 2 new_StatesGroup
      False new_RTK ex_est = Ret e' \<and> is_rotation (rot_end (est_state e'))"
proof -
  have "planes_finite (en_cfg ex_env) [(voxel_location ex_cfg (5, 0, 0), ex_tree)]"
    by (simp add: planes_finite_def planes_of.simps [of _ ex_tree]) (simp add: ex_tree_def ex_plane_def)
  moreover have "0 < max_iterations (en_cfg ex_env)" by (simp add: ex_env_def ex_cfg_def)
  moreover have "is_rotation (rot_end (est_state ex_est))" by (simp add: ex_est_def new_StatesGroup_def)
  ultimately show ?thesis
    using estimation_updates_once [of ex_env "[(voxel_location ex_cfg (5, 0, 0), ex_tree)]" "[(6, 1, 0), (1, 2, 0)]" 2 ex_est] by fastforce
qed

end
