(* ===== verification/Chc_Parser.thy ===== *)
theory Chc_Parser
  imports Prelude
begin

text \<open>
  The byte parser of the CHCNAV receiver's stream, \<^verbatim>\<open>chcnav/src/hc_msg_parser_node/hc_msg_parser/\<close>
  \<^verbatim>\<open>hc_msg_parser.c\<close>: one handler per state, the scanner that refills its buffer from the device, and the proof that
  it recovers every frame of the stream however the device fragments it. The texts of the error descriptions are
  left out: they are never printed. The token's array is zeroed when it is reset, so it is the list of the bytes
  written, and a read behind them gives zero. \<open>strcmp\<close> is called on a two-character array without a terminator and
  reads the byte behind it on the stack: that byte is the parameter \<open>behind\<close>.
\<close>

section \<open>State\<close>

datatype hc_state = S0 | S1 | S2 | S3 | S4 | S5 | S6 | S7 | S8 | S9 | S10 | S11 | S12 | S13 | S14 | S15 | S16 | S17
  | S18 | S19 | S20 | S21 | S22 | S23 | S24 | S_NONE

datatype token_type = TK_NONE | TK_ERROR | TK_HC_MSG | TK_HC_SHORT_MSG | TK_NMEA_MGS

record hc_token =
  tk_type :: token_type
  tk_value :: "u8 list"

text \<open>The nested structure \<open>buffer\<close>; \<open>last\<close> is the number of bytes the device has put into it.\<close>

record hc_buffer =
  buf_end :: nat
  buf_pointer :: nat
  buf_last :: nat
  buf_value :: "u8 list"

record hc_parser =
  error_code :: hc_state
  ps_state :: hc_state
  buffer :: hc_buffer
  specified_len :: nat

definition HC_PROTOCOL_MAX_LEN :: nat where "HC_PROTOCOL_MAX_LEN = 1024"

definition reset_token :: hc_token where
  "reset_token = \<lparr>tk_type = TK_NONE, tk_value = []\<rparr>"

text \<open>\<open>malloc\<close> leaves \<open>junk\<close> in the buffer, and \<open>specified_len\<close> is not set.\<close>

definition init_msg_parser :: "nat \<Rightarrow> u8 list \<Rightarrow> nat \<Rightarrow> hc_parser" where
  "init_msg_parser buffer_size junk len =
     \<lparr>error_code = S_NONE, ps_state = S0,
      buffer = \<lparr>buf_end = buffer_size, buf_pointer = 0, buf_last = 0, buf_value = junk\<rparr>, specified_len = len\<rparr>"

definition tok_at :: "hc_token \<Rightarrow> nat \<Rightarrow> u8" where
  "tok_at t i = (if i < length (tk_value t) then tk_value t ! i else 0)"

section \<open>Handlers\<close>

text \<open>A handler returns the parser, the token and the number of bytes to move on.\<close>

type_synonym handled = "hc_parser \<times> hc_token \<times> nat"

text \<open>The error branch, the fields of fixed length and the end of a message, which several states share.\<close>

definition reject :: "hc_state \<Rightarrow> hc_parser \<Rightarrow> hc_token \<Rightarrow> nat \<Rightarrow> handled" where
  "reject s p t n = (p\<lparr>error_code := s\<rparr>, t\<lparr>tk_type := TK_ERROR\<rparr>, n)"

definition skip_field :: "hc_state \<Rightarrow> nat \<Rightarrow> hc_parser \<Rightarrow> hc_token \<Rightarrow> handled" where
  "skip_field next_state len p t =
     (if specified_len p > 0 then (p\<lparr>specified_len := specified_len p - 1\<rparr>, t, 1)
      else (p\<lparr>ps_state := next_state, specified_len := len\<rparr>, t, 0))"

definition skip_last :: "token_type \<Rightarrow> hc_parser \<Rightarrow> hc_token \<Rightarrow> handled" where
  "skip_last k p t =
     (let p1 = (if specified_len p > 0 then p\<lparr>specified_len := specified_len p - 1\<rparr> else p)
      in if specified_len p1 = 0 then (p1\<lparr>ps_state := S0\<rparr>, t\<lparr>tk_type := k\<rparr>, 1) else (p1, t, 1))"

text \<open>The length of the rest of a message: the little-endian length field and the checksum.\<close>

definition message_rest :: "hc_token \<Rightarrow> nat" where
  "message_rest t = unat (tok_at t 5) * 256 + unat (tok_at t 4) + 4"

definition deal_S0 :: "hc_parser \<Rightarrow> hc_token \<Rightarrow> u8 \<Rightarrow> handled" where
  "deal_S0 p t c =
     (if c = 0xAA then (p\<lparr>ps_state := S1\<rparr>, t, 1)
      else if c = 0x24 then (p\<lparr>ps_state := S18, specified_len := 5\<rparr>, t, 1)
      else reject S0 p t 1)"

definition deal_S1 :: "hc_parser \<Rightarrow> hc_token \<Rightarrow> u8 \<Rightarrow> handled" where
  "deal_S1 p t c =
     (if c = 0xCC then (p\<lparr>ps_state := S2\<rparr>, t, 1)
      else if c = 0x55 then (p\<lparr>ps_state := S12\<rparr>, t, 1)
      else reject S1 p t 0)"

definition deal_S2 :: "hc_parser \<Rightarrow> hc_token \<Rightarrow> u8 \<Rightarrow> handled" where
  "deal_S2 p t c = (if c = 0x48 then (p\<lparr>ps_state := S3\<rparr>, t, 1) else reject S2 p t 0)"

definition deal_S3 :: "hc_parser \<Rightarrow> hc_token \<Rightarrow> u8 \<Rightarrow> handled" where
  "deal_S3 p t c = (if c = 0x43 then (p\<lparr>ps_state := S4, specified_len := 2\<rparr>, t, 1) else reject S3 p t 0)"

definition deal_S4 :: "hc_parser \<Rightarrow> hc_token \<Rightarrow> u8 \<Rightarrow> handled" where "deal_S4 p t c = skip_field S5 2 p t"
definition deal_S5 :: "hc_parser \<Rightarrow> hc_token \<Rightarrow> u8 \<Rightarrow> handled" where "deal_S5 p t c = skip_field S6 2 p t"
definition deal_S6 :: "hc_parser \<Rightarrow> hc_token \<Rightarrow> u8 \<Rightarrow> handled" where "deal_S6 p t c = skip_field S7 4 p t"
definition deal_S7 :: "hc_parser \<Rightarrow> hc_token \<Rightarrow> u8 \<Rightarrow> handled" where "deal_S7 p t c = skip_field S8 4 p t"
definition deal_S8 :: "hc_parser \<Rightarrow> hc_token \<Rightarrow> u8 \<Rightarrow> handled" where "deal_S8 p t c = skip_field S9 4 p t"

definition deal_S9 :: "hc_parser \<Rightarrow> hc_token \<Rightarrow> u8 \<Rightarrow> handled" where
  "deal_S9 p t c = skip_field S10 (message_rest t) p t"

definition deal_S10 :: "hc_parser \<Rightarrow> hc_token \<Rightarrow> u8 \<Rightarrow> handled" where "deal_S10 p t c = skip_last TK_HC_MSG p t"

definition deal_S11 :: "hc_parser \<Rightarrow> hc_token \<Rightarrow> u8 \<Rightarrow> handled" where
  "deal_S11 p t c = (p\<lparr>ps_state := S0\<rparr>, t\<lparr>tk_type := TK_HC_MSG\<rparr>, 0)"

definition deal_S12 :: "hc_parser \<Rightarrow> hc_token \<Rightarrow> u8 \<Rightarrow> handled" where
  "deal_S12 p t c = (if c = 0x48 then (p\<lparr>ps_state := S13\<rparr>, t, 1) else reject S12 p t 0)"

definition deal_S13 :: "hc_parser \<Rightarrow> hc_token \<Rightarrow> u8 \<Rightarrow> handled" where
  "deal_S13 p t c = (if c = 0x43 then (p\<lparr>ps_state := S14, specified_len := 2\<rparr>, t, 1) else reject S13 p t 0)"

definition deal_S14 :: "hc_parser \<Rightarrow> hc_token \<Rightarrow> u8 \<Rightarrow> handled" where "deal_S14 p t c = skip_field S15 2 p t"

definition deal_S15 :: "hc_parser \<Rightarrow> hc_token \<Rightarrow> u8 \<Rightarrow> handled" where
  "deal_S15 p t c = skip_field S16 (message_rest t) p t"

definition deal_S16 :: "hc_parser \<Rightarrow> hc_token \<Rightarrow> u8 \<Rightarrow> handled" where "deal_S16 p t c = skip_last TK_HC_SHORT_MSG p t"

definition deal_S17 :: "hc_parser \<Rightarrow> hc_token \<Rightarrow> u8 \<Rightarrow> handled" where
  "deal_S17 p t c = (p\<lparr>ps_state := S0\<rparr>, t\<lparr>tk_type := TK_HC_SHORT_MSG\<rparr>, 0)"

text \<open>In \<open>S18\<close> the counter is already zero when the state is left and keeps its value.\<close>

definition deal_S18 :: "hc_parser \<Rightarrow> hc_token \<Rightarrow> u8 \<Rightarrow> handled" where
  "deal_S18 p t c = skip_field S19 (specified_len p) p t"

definition nmea_head :: "u8 \<Rightarrow> u8 \<Rightarrow> bool" where
  "nmea_head a b \<longleftrightarrow> (a, b) \<in> {(0x47, 0x50), (0x47, 0x4E), (0x42, 0x44), (0x47, 0x54)}"

text \<open>\<open>strcmp(nmea_head_2, ...) == 0\<close> also compares the byte behind the array with the terminator.\<close>

definition deal_S19 :: "u8 \<Rightarrow> hc_parser \<Rightarrow> hc_token \<Rightarrow> u8 \<Rightarrow> handled" where
  "deal_S19 behind p t c =
     (if nmea_head (tok_at t 1) (tok_at t 2) \<and> behind = 0
      then (p\<lparr>ps_state := (if c = 0x2C then S21 else S20)\<rparr>, t, 1)
      else reject S19 p t 0)"

definition deal_S20 :: "hc_parser \<Rightarrow> hc_token \<Rightarrow> u8 \<Rightarrow> handled" where
  "deal_S20 p t c = (if c = 0x2C then (p\<lparr>ps_state := S21\<rparr>, t, 1) else reject S20 p t 0)"

definition nmea_char :: "u8 \<Rightarrow> bool" where
  "nmea_char c \<longleftrightarrow> c \<le> 0x5A \<and> c \<ge> 0x41 \<or> c \<le> 0x7A \<and> c \<ge> 0x61 \<or> c \<le> 0x39 \<and> c \<ge> 0x30
     \<or> c = 0x2C \<or> c = 0x2E \<or> c = 0x2D"

definition deal_S21 :: "hc_parser \<Rightarrow> hc_token \<Rightarrow> u8 \<Rightarrow> handled" where
  "deal_S21 p t c =
     (if c = 0x2A then (p\<lparr>ps_state := S22, specified_len := 4\<rparr>, t, 1)
      else if nmea_char c then (p, t, 1)
      else reject S21 p t 0)"

definition deal_S22 :: "hc_parser \<Rightarrow> hc_token \<Rightarrow> u8 \<Rightarrow> handled" where "deal_S22 p t c = skip_last TK_NMEA_MGS p t"

definition deal_S23 :: "u8 \<Rightarrow> hc_parser \<Rightarrow> hc_token \<Rightarrow> u8 \<Rightarrow> handled exec" where
  "deal_S23 behind p t c =
     (let n = length (tk_value t)
      in if n < 2 then Undef
         else if tok_at t (n - 2) = 0x0D \<and> tok_at t (n - 1) = 0x0A \<and> behind = 0 then Ret (p\<lparr>ps_state := S24\<rparr>, t, 0)
         else Ret (reject S23 p t 0))"

definition deal_S24 :: "hc_parser \<Rightarrow> hc_token \<Rightarrow> u8 \<Rightarrow> handled" where
  "deal_S24 p t c = (p\<lparr>ps_state := S0\<rparr>, t\<lparr>tk_type := TK_NMEA_MGS\<rparr>, 0)"

lemmas deal_defs = deal_S0_def deal_S1_def deal_S2_def deal_S3_def deal_S4_def deal_S5_def deal_S6_def deal_S7_def
  deal_S8_def deal_S9_def deal_S10_def deal_S11_def deal_S12_def deal_S13_def deal_S14_def deal_S15_def deal_S16_def
  deal_S17_def deal_S18_def deal_S19_def deal_S20_def deal_S21_def deal_S22_def deal_S23_def deal_S24_def
  skip_field_def skip_last_def reject_def

text \<open>The table of the handlers; outside it the program asserts.\<close>

definition state_handler :: "u8 \<Rightarrow> hc_parser \<Rightarrow> hc_token \<Rightarrow> u8 \<Rightarrow> handled exec" where
  "state_handler behind p t c =
     (case ps_state p of
        S0 \<Rightarrow> Ret (deal_S0 p t c) | S1 \<Rightarrow> Ret (deal_S1 p t c) | S2 \<Rightarrow> Ret (deal_S2 p t c) | S3 \<Rightarrow> Ret (deal_S3 p t c)
      | S4 \<Rightarrow> Ret (deal_S4 p t c) | S5 \<Rightarrow> Ret (deal_S5 p t c) | S6 \<Rightarrow> Ret (deal_S6 p t c) | S7 \<Rightarrow> Ret (deal_S7 p t c)
      | S8 \<Rightarrow> Ret (deal_S8 p t c) | S9 \<Rightarrow> Ret (deal_S9 p t c) | S10 \<Rightarrow> Ret (deal_S10 p t c) | S11 \<Rightarrow> Ret (deal_S11 p t c)
      | S12 \<Rightarrow> Ret (deal_S12 p t c) | S13 \<Rightarrow> Ret (deal_S13 p t c) | S14 \<Rightarrow> Ret (deal_S14 p t c)
      | S15 \<Rightarrow> Ret (deal_S15 p t c) | S16 \<Rightarrow> Ret (deal_S16 p t c) | S17 \<Rightarrow> Ret (deal_S17 p t c)
      | S18 \<Rightarrow> Ret (deal_S18 p t c) | S19 \<Rightarrow> Ret (deal_S19 behind p t c) | S20 \<Rightarrow> Ret (deal_S20 p t c)
      | S21 \<Rightarrow> Ret (deal_S21 p t c) | S22 \<Rightarrow> Ret (deal_S22 p t c) | S23 \<Rightarrow> deal_S23 behind p t c
      | S24 \<Rightarrow> Ret (deal_S24 p t c) | S_NONE \<Rightarrow> Undef)"

section \<open>The scanner\<close>

text \<open>One turn of the loop on a buffer that holds a byte. The position never passes the last byte.\<close>

definition scan_step :: "u8 \<Rightarrow> hc_parser \<Rightarrow> hc_token \<Rightarrow> (hc_parser \<times> hc_token) exec" where
  "scan_step behind p t =
     (let b = buffer p
      in if \<not> (buf_pointer b < buf_last b \<and> buf_last b \<le> length (buf_value b)) then Undef
         else bind_exec (state_handler behind p t (buf_value b ! buf_pointer b)) (\<lambda>(p1, t1, n).
           if length (tk_value t1) + n < HC_PROTOCOL_MAX_LEN
           then Ret (p1\<lparr>buffer := (buffer p1)\<lparr>buf_pointer := buf_pointer b + n\<rparr>\<rparr>,
                     t1\<lparr>tk_value := tk_value t1 @ take n (drop (buf_pointer b) (buf_value b))\<rparr>)
           else Ret (p1\<lparr>error_code := ps_state p1\<rparr>, t1\<lparr>tk_type := TK_ERROR\<rparr>)))"

text \<open>The device is the list of what its next reads deliver, empty where a read fails or delivers nothing. The
  read handler accepts at most as many bytes as the buffer holds. \<open>None\<close>: the scanner waits for the device.\<close>

fun read_some :: "nat \<Rightarrow> u8 list list \<Rightarrow> (u8 list \<times> u8 list list) option" where
  "read_some cap [] = None"
| "read_some cap (r # rs) = (if length r \<le> cap \<and> r \<noteq> [] then Some (r, rs) else read_some cap rs)"

definition refill :: "hc_parser \<Rightarrow> u8 list list \<Rightarrow> (hc_parser \<times> u8 list list) option" where
  "refill p reads =
     (let b = buffer p
      in if buf_pointer b = buf_last b
         then case read_some (buf_end b) reads of
             None \<Rightarrow> None
           | Some (r, rest) \<Rightarrow>
               Some (p\<lparr>buffer := b\<lparr>buf_pointer := 0, buf_last := length r,
                        buf_value := r @ replicate (buf_end b - length r) 0\<rparr>\<rparr>, rest)
         else Some (p, reads))"

text \<open>A handler that does not move on enters a later field of the same message.\<close>

fun state_no :: "hc_state \<Rightarrow> nat" where
  "state_no S18 = 0" | "state_no S19 = 1" | "state_no S4 = 0" | "state_no S5 = 1" | "state_no S6 = 2" | "state_no S7 = 3"
| "state_no S8 = 4" | "state_no S9 = 5" | "state_no S10 = 6" | "state_no S14 = 0" | "state_no S15 = 1" | "state_no S16 = 2"
| "state_no S23 = 0" | "state_no S24 = 1" | "state_no _ = 0"

lemma state_no_bound: "state_no s \<le> 6"
  by (cases s) simp_all

lemma state_handler_cases:
  assumes "state_handler behind p t c = Ret (p', t', n)"
  shows "buffer p' = buffer p" and "tk_value t' = tk_value t" and "n \<le> 1"
    and "tk_type t' = TK_NONE \<Longrightarrow> n = 0 \<Longrightarrow> state_no (ps_state p) < state_no (ps_state p')"
  using assms by (auto simp: state_handler_def deal_defs Let_def split: hc_state.splits if_splits)

text \<open>The bytes that are still to come: the unread part of the buffer and the reads the handler accepts.\<close>

definition pending :: "hc_parser \<Rightarrow> u8 list list \<Rightarrow> u8 list" where
  "pending p reads =
     (let b = buffer p
      in take (buf_last b - buf_pointer b) (drop (buf_pointer b) (buf_value b))
         @ concat (filter (\<lambda>r. length r \<le> buf_end b) reads))"

definition buffer_ok :: "hc_parser \<Rightarrow> bool" where
  "buffer_ok p \<longleftrightarrow> buf_pointer (buffer p) \<le> buf_last (buffer p) \<and> buf_last (buffer p) \<le> length (buf_value (buffer p))"

lemma read_some_cases:
  "case read_some cap reads of
     None \<Rightarrow> concat (filter (\<lambda>r. length r \<le> cap) reads) = []
   | Some (r, rest) \<Rightarrow> r \<noteq> [] \<and> length r \<le> cap
       \<and> concat (filter (\<lambda>r. length r \<le> cap) reads) = r @ concat (filter (\<lambda>r. length r \<le> cap) rest)"
  by (induction cap reads rule: read_some.induct) (auto split: option.splits)

lemma refill_None: "refill p reads = None \<Longrightarrow> pending p reads = []"
  using read_some_cases [of "buf_end (buffer p)" reads]
  by (auto simp: refill_def pending_def Let_def split: if_splits option.splits)

lemma refill_Some:
  assumes "refill p reads = Some (p1, reads1)"
  shows "pending p1 reads1 = pending p reads" and "\<exists>b. p1 = p\<lparr>buffer := b\<rparr>" and "ps_state p1 = ps_state p"
    and "buffer_ok p \<Longrightarrow> buffer_ok p1 \<and> buf_pointer (buffer p1) < buf_last (buffer p1)"
  using read_some_cases [of "buf_end (buffer p)" reads] assms
  by (auto simp: refill_def pending_def buffer_ok_def Let_def intro: exI [of _ "buffer p1"] split: if_splits option.splits)

lemma take_drop_ahead:
  "k + n \<le> l \<Longrightarrow> l \<le> length xs \<Longrightarrow> take (l - (k + n)) (drop (k + n) xs) @ ys = drop n (take (l - k) (drop k xs) @ ys)"
  by (simp add: drop_take add.commute)

lemma scan_step_pending:
  assumes "scan_step behind p t = Ret (p1, t1)"
  shows "\<exists>n. pending p1 reads = drop n (pending p reads) \<and> n \<le> 1 \<and> pending p reads \<noteq> []
    \<and> (tk_type t1 = TK_NONE \<longrightarrow> n = 1 \<or> state_no (ps_state p) < state_no (ps_state p1))"
proof -
  let ?b = "buffer p"
  from assms have b: "buf_pointer ?b < buf_last ?b" "buf_last ?b \<le> length (buf_value ?b)"
    by (auto simp: scan_step_def Let_def split: if_splits)
  with assms obtain p' t' n where h: "state_handler behind p t (buf_value ?b ! buf_pointer ?b) = Ret (p', t', n)"
    by (auto simp: scan_step_def Let_def bind_exec_Ret_iff)
  note c = state_handler_cases [OF h]
  show ?thesis
  proof (cases "length (tk_value t') + n < HC_PROTOCOL_MAX_LEN")
    case True
    then have e: "p1 = p'\<lparr>buffer := (buffer p')\<lparr>buf_pointer := buf_pointer ?b + n\<rparr>\<rparr>"
      "t1 = t'\<lparr>tk_value := tk_value t' @ take n (drop (buf_pointer ?b) (buf_value ?b))\<rparr>"
      using assms b h by (auto simp: scan_step_def Let_def)
    have "pending p1 reads = drop n (pending p reads)"
      using take_drop_ahead [of "buf_pointer ?b" n "buf_last ?b" "buf_value ?b"] b c(3)
      by (simp add: pending_def e c(1) Let_def)
    moreover have "n = 0 \<or> n = 1" using c(3) by linarith
    ultimately show ?thesis using c e b by (intro exI [of _ n]) (auto simp: pending_def Let_def)
  next
    case False
    then have "p1 = p'\<lparr>error_code := ps_state p'\<rparr>" "t1 = t'\<lparr>tk_type := TK_ERROR\<rparr>"
      using assms b h by (auto simp: scan_step_def Let_def)
    then show ?thesis using c b by (intro exI [of _ 0]) (auto simp: pending_def Let_def)
  qed
qed

text \<open>The loop of the scanner.\<close>

function scan_loop :: "u8 \<Rightarrow> hc_parser \<Rightarrow> hc_token \<Rightarrow> u8 list list \<Rightarrow> (hc_parser \<times> hc_token \<times> u8 list list) option exec" where
  "scan_loop behind p t reads =
     (case refill p reads of
        None \<Rightarrow> Ret None
      | Some (p1, reads1) \<Rightarrow>
          bind_exec (scan_step behind p1 t) (\<lambda>(p2, t2).
            if tk_type t2 \<noteq> TK_NONE then Ret (Some (p2, t2, reads1)) else scan_loop behind p2 t2 reads1))"
  by pat_completeness auto

termination
proof (relation "measures [\<lambda>(behind, p, t, reads). length (pending p reads), \<lambda>(behind, p, t, reads). 6 - state_no (ps_state p)]", simp, goal_cases)
  case (1 behind p t reads q p1 reads1 x p2 t2)
  from 1 have f: "refill p reads = Some (p1, reads1)" and s: "scan_step behind p1 t = Ret (p2, t2)"
    and k: "tk_type t2 = TK_NONE" by auto
  from scan_step_pending [OF s, of reads1] k obtain n where "pending p2 reads1 = drop n (pending p1 reads1)" "n \<le> 1"
    "pending p1 reads1 \<noteq> []" "n = 1 \<or> state_no (ps_state p1) < state_no (ps_state p2)" by blast
  then show ?case
    using refill_Some [OF f] state_no_bound [of "ps_state p2"] by (cases "n = 1") (auto simp: le_Suc_eq)
qed

declare scan_loop.simps [simp del]

definition msg_parser_scan :: "u8 \<Rightarrow> hc_parser \<Rightarrow> u8 list list \<Rightarrow> (int \<times> hc_parser \<times> hc_token \<times> u8 list list) option exec" where
  "msg_parser_scan behind p reads =
     (if error_code p \<noteq> S_NONE then Ret (Some (- 1, p, reset_token, reads))
      else bind_exec (scan_loop behind p reset_token reads) (\<lambda>r. Ret (map_option (Pair 0) r)))"

section \<open>Reads do not matter\<close>

text \<open>The specification: the same handlers over the bytes still to come, with no buffer and no device.\<close>

definition byte_step :: "u8 \<Rightarrow> hc_parser \<Rightarrow> hc_token \<Rightarrow> u8 \<Rightarrow> handled exec" where
  "byte_step behind p t c =
     bind_exec (state_handler behind p t c) (\<lambda>(p1, t1, n).
       if length (tk_value t1) + n < HC_PROTOCOL_MAX_LEN then Ret (p1, t1\<lparr>tk_value := tk_value t1 @ take n [c]\<rparr>, n)
       else Ret (p1\<lparr>error_code := ps_state p1\<rparr>, t1\<lparr>tk_type := TK_ERROR\<rparr>, 0))"

lemma byte_step_progress:
  assumes "byte_step behind p t c = Ret (p', t', n)" and "tk_type t' = TK_NONE"
  shows "n = 1 \<or> n = 0 \<and> state_no (ps_state p) < state_no (ps_state p')"
proof -
  from assms obtain p1 t1 k where h: "state_handler behind p t c = Ret (p1, t1, k)"
    by (auto simp: byte_step_def bind_exec_Ret_iff)
  have "k = 0 \<or> k = 1" using state_handler_cases(3) [OF h] by linarith
  then show ?thesis using state_handler_cases [OF h] h assms by (auto simp: byte_step_def split: if_splits)
qed

function scan_bytes :: "u8 \<Rightarrow> hc_parser \<Rightarrow> hc_token \<Rightarrow> u8 list \<Rightarrow> (hc_parser \<times> hc_token \<times> u8 list) option exec" where
  "scan_bytes behind p t [] = Ret None"
| "scan_bytes behind p t (c # cs) =
     bind_exec (byte_step behind p t c) (\<lambda>(p1, t1, n).
       if tk_type t1 \<noteq> TK_NONE then Ret (Some (p1, t1, drop n (c # cs))) else scan_bytes behind p1 t1 (drop n (c # cs)))"
  by pat_completeness auto

termination
proof (relation "measures [\<lambda>(behind, p, t, cs). length cs, \<lambda>(behind, p, t, cs). 6 - state_no (ps_state p)]", simp, goal_cases)
  case (1 behind p t c cs x p1 q t1 n)
  then have "n = 1 \<or> n = 0 \<and> state_no (ps_state p) < state_no (ps_state p1)"
    using byte_step_progress [of behind p t c p1 t1 n] by simp
  then show ?case using state_no_bound [of "ps_state p1"] by auto
qed

lemma state_handler_buffer:
  "state_handler behind (p\<lparr>buffer := b\<rparr>) t c = map_exec (\<lambda>(p1, t1, n). (p1\<lparr>buffer := b\<rparr>, t1, n)) (state_handler behind p t c)"
  by (auto simp: state_handler_def deal_defs Let_def split: hc_state.split)

lemma scan_step_byte:
  assumes "buffer_ok p" and "buf_pointer (buffer p) < buf_last (buffer p)"
  obtains c cs where "pending p reads = c # cs"
    and "map_exec (\<lambda>(p1, t1). (p1\<lparr>buffer := b\<rparr>, t1, pending p1 reads)) (scan_step behind p t)
       = map_exec (\<lambda>(p1, t1, n). (p1, t1, drop n (c # cs))) (byte_step behind (p\<lparr>buffer := b\<rparr>) t c)"
    and "\<And>p1 t1. scan_step behind p t = Ret (p1, t1) \<Longrightarrow> buffer_ok p1"
proof -
  let ?b = "buffer p"
  let ?c = "buf_value ?b ! buf_pointer ?b"
  have l: "buf_last ?b \<le> length (buf_value ?b)" using assms by (simp add: buffer_ok_def)
  then have d: "drop (buf_pointer ?b) (buf_value ?b) = ?c # drop (Suc (buf_pointer ?b)) (buf_value ?b)"
    using assms(2) by (simp add: Cons_nth_drop_Suc)
  obtain k where k: "buf_last ?b - buf_pointer ?b = Suc k" using assms(2) by (metis Suc_diff_Suc)
  obtain cs where cs: "pending p reads = ?c # cs" by (simp add: pending_def Let_def d k)
  have step: "scan_step behind p t = bind_exec (state_handler behind p t ?c) (\<lambda>(p1, t1, n).
       if length (tk_value t1) + n < HC_PROTOCOL_MAX_LEN
       then Ret (p1\<lparr>buffer := (buffer p1)\<lparr>buf_pointer := buf_pointer ?b + n\<rparr>\<rparr>,
                 t1\<lparr>tk_value := tk_value t1 @ take n (drop (buf_pointer ?b) (buf_value ?b))\<rparr>)
       else Ret (p1\<lparr>error_code := ps_state p1\<rparr>, t1\<lparr>tk_type := TK_ERROR\<rparr>))"
    using assms(2) l by (simp add: scan_step_def Let_def)
  show ?thesis
  proof (cases "state_handler behind p t ?c")
    case Undef
    show ?thesis by (rule that [OF cs]) (simp_all add: step byte_step_def state_handler_buffer Undef)
  next
    case (Ret h)
    obtain p' t' n where h: "h = (p', t', n)" by (cases h)
    note c = state_handler_cases [OF Ret [unfolded h]]
    have n: "n = 0 \<or> n = 1" using c(3) by linarith
    have ahead: "pending (p'\<lparr>buffer := (buffer p')\<lparr>buf_pointer := buf_pointer ?b + n\<rparr>\<rparr>) reads = drop n (pending p reads)"
      using take_drop_ahead [of "buf_pointer ?b" n "buf_last ?b" "buf_value ?b"] assms(2) l c(3)
      by (simp add: pending_def c(1) Let_def)
    have same: "pending (p'\<lparr>error_code := s\<rparr>) reads = pending p reads" for s by (simp add: pending_def c(1))
    have bytes: "take n (drop (buf_pointer ?b) (buf_value ?b)) = take n [?c]" using n by (auto simp: d)
    show ?thesis
    proof (rule that [OF cs])
      show "map_exec (\<lambda>(p1, t1). (p1\<lparr>buffer := b\<rparr>, t1, pending p1 reads)) (scan_step behind p t)
          = map_exec (\<lambda>(p1, t1, n). (p1, t1, drop n (?c # cs))) (byte_step behind (p\<lparr>buffer := b\<rparr>) t ?c)"
        using ahead same by (simp add: step byte_step_def state_handler_buffer Ret h bytes cs)
      show "buffer_ok p1" if "scan_step behind p t = Ret (p1, t1)" for p1 t1
        using that assms c n by (auto simp: step Ret h buffer_ok_def split: if_splits)
    qed
  qed
qed

text \<open>C8: The tokens do not depend on how the device delivers the bytes. From a parser whose buffer is well formed,
  \<open>scan_loop\<close> gives the token, the state and the bytes left over that the handlers give on the plain sequence of the
  bytes still to come, whatever their distribution over the reads, the failed reads and the size of the buffer; in
  particular it never reads outside the buffer, and it waits exactly when no token ends in these bytes.\<close>

theorem scan_ignores_reads:
  assumes "buffer_ok p"
  shows "map_exec (map_option (\<lambda>(p1, t1, reads1). (p1\<lparr>buffer := b\<rparr>, t1, pending p1 reads1))) (scan_loop behind p t reads)
       = scan_bytes behind (p\<lparr>buffer := b\<rparr>) t (pending p reads)"
  using assms
proof (induction behind p t reads rule: scan_loop.induct)
  case (1 behind p t reads)
  show ?case
  proof (cases "refill p reads")
    case None
    then show ?thesis by (simp add: scan_loop.simps [of behind p] refill_None)
  next
    case (Some q)
    obtain p1 reads1 where q: "q = (p1, reads1)" by (cases q)
    note f = Some [unfolded q]
    note r = refill_Some [OF f]
    have same: "p\<lparr>buffer := b\<rparr> = p1\<lparr>buffer := b\<rparr>" using r(2) by auto
    have ok: "buffer_ok p1" "buf_pointer (buffer p1) < buf_last (buffer p1)" using r(4) "1.prems" by auto
    from scan_step_byte [OF ok] obtain c cs where cs: "pending p1 reads1 = c # cs"
      and step: "map_exec (\<lambda>(p2, t2). (p2\<lparr>buffer := b\<rparr>, t2, pending p2 reads1)) (scan_step behind p1 t)
       = map_exec (\<lambda>(p2, t2, n). (p2, t2, drop n (c # cs))) (byte_step behind (p1\<lparr>buffer := b\<rparr>) t c)"
      and keep: "\<And>p2 t2. scan_step behind p1 t = Ret (p2, t2) \<Longrightarrow> buffer_ok p2" by blast
    show ?thesis
    proof (cases "scan_step behind p1 t")
      case Undef
      then have "byte_step behind (p1\<lparr>buffer := b\<rparr>) t c = Undef" using step by (cases "byte_step behind (p1\<lparr>buffer := b\<rparr>) t c") auto
      then show ?thesis using Undef f cs by (simp add: scan_loop.simps [of behind p] same flip: r(1))
    next
      case (Ret pt)
      obtain p2 t2 where pt: "pt = (p2, t2)" by (cases pt)
      from step Ret pt obtain n where b: "byte_step behind (p1\<lparr>buffer := b\<rparr>) t c = Ret (p2\<lparr>buffer := b\<rparr>, t2, n)"
        and n: "pending p2 reads1 = drop n (c # cs)"
        by (cases "byte_step behind (p1\<lparr>buffer := b\<rparr>) t c") auto
      have "tk_type t2 = TK_NONE \<Longrightarrow>
          map_exec (map_option (\<lambda>(p1, t1, reads1). (p1\<lparr>buffer := b\<rparr>, t1, pending p1 reads1))) (scan_loop behind p2 t2 reads1)
          = scan_bytes behind (p2\<lparr>buffer := b\<rparr>) t2 (pending p2 reads1)"
        using "1.IH" [OF f refl Ret pt [symmetric]] keep [OF Ret [unfolded pt]] by simp
      then show ?thesis
        using f b n cs Ret pt by (simp add: scan_loop.simps [of behind p] same flip: r(1))
    qed
  qed
qed

declare scan_bytes.simps(2) [simp del]

section \<open>Frames\<close>

text \<open>The messages of the three protocols: a header of 22 or 8 bytes with the length of the payload in the fifth and
  sixth byte, the payload and four bytes of checksum; or an NMEA sentence with five or six characters of head, its
  fields, the star and four more bytes.\<close>

definition payload_len :: "u8 list \<Rightarrow> nat" where
  "payload_len m = unat (m ! 5) * 256 + unat (m ! 4)"

definition hc_frame :: "u8 list \<Rightarrow> bool" where
  "hc_frame m \<longleftrightarrow> take 4 m = [0xAA, 0xCC, 0x48, 0x43] \<and> 26 \<le> length m \<and> length m = payload_len m + 26"

definition hc_short_frame :: "u8 list \<Rightarrow> bool" where
  "hc_short_frame m \<longleftrightarrow> take 4 m = [0xAA, 0x55, 0x48, 0x43] \<and> 12 \<le> length m \<and> length m = payload_len m + 12"

definition nmea_frame :: "u8 list \<Rightarrow> bool" where
  "nmea_frame m \<longleftrightarrow> (\<exists>head body tail. m = 0x24 # head @ 0x2C # body @ 0x2A # tail \<and> length head \<in> {5, 6}
     \<and> nmea_head (head ! 0) (head ! 1) \<and> list_all nmea_char body \<and> length tail = 4 \<and> (length head = 6 \<longrightarrow> head ! 5 \<noteq> 0x2C))"

fun frame_of :: "token_type \<Rightarrow> u8 list \<Rightarrow> bool" where
  "frame_of TK_HC_MSG m = hc_frame m"
| "frame_of TK_HC_SHORT_MSG m = hc_short_frame m"
| "frame_of TK_NMEA_MGS m = nmea_frame m"
| "frame_of _ m = False"

lemma scan_move:
  assumes "state_handler behind p t c = Ret (p1, t1, 1)" and "tk_type t1 = TK_NONE"
    and "length (tk_value t1) + 1 < HC_PROTOCOL_MAX_LEN"
  shows "scan_bytes behind p t (c # cs) = scan_bytes behind p1 (t1\<lparr>tk_value := tk_value t1 @ [c]\<rparr>) cs"
  using assms by (simp add: scan_bytes.simps(2) byte_step_def)

lemma scan_stay:
  assumes "state_handler behind p t c = Ret (p1, t1, 0)" and "tk_type t1 = TK_NONE"
    and "length (tk_value t1) < HC_PROTOCOL_MAX_LEN"
  shows "scan_bytes behind p t (c # cs) = scan_bytes behind p1 t1 (c # cs)"
  using assms by (subst scan_bytes.simps(2)) (simp add: byte_step_def)

lemma scan_skip:
  assumes "\<And>q t c. ps_state q = s \<Longrightarrow> state_handler behind q t c = Ret (skip_field s' (L t) q t)"
    and "ps_state p = s" and "specified_len p = length xs" and "tk_type t = TK_NONE"
    and "length (tk_value t) + length xs < HC_PROTOCOL_MAX_LEN" and "cs \<noteq> []"
  shows "scan_bytes behind p t (xs @ cs) =
    scan_bytes behind (p\<lparr>ps_state := s', specified_len := L (t\<lparr>tk_value := tk_value t @ xs\<rparr>)\<rparr>)
      (t\<lparr>tk_value := tk_value t @ xs\<rparr>) cs"
  using assms(2-5)
proof (induction xs arbitrary: p t)
  case Nil
  obtain c cs' where cs: "cs = c # cs'" using assms(6) by (cases cs) auto
  have "state_handler behind p t c = Ret (p\<lparr>ps_state := s', specified_len := L t\<rparr>, t, 0)"
    using Nil assms(1) [of p t c] by (simp add: skip_field_def)
  from scan_stay [OF this] show ?case using Nil by (simp add: cs)
next
  case (Cons x xs)
  have "scan_bytes behind p t ((x # xs) @ cs)
      = scan_bytes behind (p\<lparr>specified_len := length xs\<rparr>) (t\<lparr>tk_value := tk_value t @ [x]\<rparr>) (xs @ cs)"
    using scan_move [of behind p t x "p\<lparr>specified_len := length xs\<rparr>" t] Cons.prems assms(1) [of p t x]
    by (simp add: skip_field_def)
  then show ?case using Cons.IH [of "p\<lparr>specified_len := length xs\<rparr>" "t\<lparr>tk_value := tk_value t @ [x]\<rparr>"] Cons.prems by simp
qed

lemma scan_last:
  assumes "\<And>q t c. ps_state q = s \<Longrightarrow> state_handler behind q t c = Ret (skip_last k q t)"
    and "ps_state p = s" and "specified_len p = length xs" and "tk_type t = TK_NONE" and "k \<noteq> TK_NONE"
    and "length (tk_value t) + length xs < HC_PROTOCOL_MAX_LEN" and "xs \<noteq> []"
  shows "scan_bytes behind p t (xs @ cs) =
    Ret (Some (p\<lparr>ps_state := S0, specified_len := 0\<rparr>, t\<lparr>tk_type := k, tk_value := tk_value t @ xs\<rparr>, cs))"
  using assms(2-4,6,7)
proof (induction xs arbitrary: p t)
  case (Cons x xs)
  show ?case
  proof (cases "xs = []")
    case True
    then show ?thesis using Cons.prems assms(1) [of p] assms(5)
      by (simp add: scan_bytes.simps(2) byte_step_def skip_last_def Let_def)
  next
    case False
    then have "scan_bytes behind p t ((x # xs) @ cs)
        = scan_bytes behind (p\<lparr>specified_len := length xs\<rparr>) (t\<lparr>tk_value := tk_value t @ [x]\<rparr>) (xs @ cs)"
      using scan_move [of behind p t x "p\<lparr>specified_len := length xs\<rparr>" t] Cons.prems assms(1) [of p t x]
      by (simp add: skip_last_def Let_def)
    then show ?thesis
      using False Cons.IH [of "p\<lparr>specified_len := length xs\<rparr>" "t\<lparr>tk_value := tk_value t @ [x]\<rparr>"] Cons.prems by simp
  qed
qed simp

lemma scan_fields:
  assumes "ps_state p = S21" and "list_all nmea_char xs" and "tk_type t = TK_NONE"
    and "length (tk_value t) + length xs < HC_PROTOCOL_MAX_LEN"
  shows "scan_bytes behind p t (xs @ cs) = scan_bytes behind p (t\<lparr>tk_value := tk_value t @ xs\<rparr>) cs"
  using assms
proof (induction xs arbitrary: t)
  case (Cons x xs)
  have "x \<noteq> 0x2A" using Cons.prems(2) by (auto simp: nmea_char_def)
  then have "scan_bytes behind p t ((x # xs) @ cs) = scan_bytes behind p (t\<lparr>tk_value := tk_value t @ [x]\<rparr>) (xs @ cs)"
    using scan_move [of behind p t x p t] Cons.prems by (simp add: state_handler_def deal_S21_def)
  then show ?case using Cons.IH [of "t\<lparr>tk_value := tk_value t @ [x]\<rparr>"] Cons.prems by simp
qed simp

lemma list_split: "n \<le> length m \<Longrightarrow> \<exists>a r. m = a @ r \<and> length a = n \<and> length r = length m - n"
  by (intro exI [of _ "take n m"] exI [of _ "drop n m"]) simp

lemma scan_header:
  assumes "ps_state p = S0"
  shows "scan_bytes behind p reset_token (0xAA # 0xCC # 0x48 # 0x43 # cs) =
      scan_bytes behind (p\<lparr>ps_state := S4, specified_len := 2\<rparr>) \<lparr>tk_type = TK_NONE, tk_value = [0xAA, 0xCC, 0x48, 0x43]\<rparr> cs"
    and "scan_bytes behind p reset_token (0xAA # 0x55 # 0x48 # 0x43 # cs) =
      scan_bytes behind (p\<lparr>ps_state := S14, specified_len := 2\<rparr>) \<lparr>tk_type = TK_NONE, tk_value = [0xAA, 0x55, 0x48, 0x43]\<rparr> cs"
    and "scan_bytes behind p reset_token (0x24 # cs) =
      scan_bytes behind (p\<lparr>ps_state := S18, specified_len := 5\<rparr>) \<lparr>tk_type = TK_NONE, tk_value = [0x24]\<rparr> cs"
proof -
  let ?t = "\<lambda>v. \<lparr>tk_type = TK_NONE, tk_value = v\<rparr>"
  have z: "reset_token = ?t []" by (simp add: reset_token_def)
  note d = state_handler_def deal_S0_def deal_S1_def deal_S2_def deal_S3_def deal_S12_def deal_S13_def HC_PROTOCOL_MAX_LEN_def
  have 1: "scan_bytes behind (p) (?t []) (0xAA # cs) = scan_bytes behind (p\<lparr>ps_state := S1\<rparr>) (?t [0xAA]) cs" for cs
    using scan_move [of behind "p" "?t []" "0xAA" "p\<lparr>ps_state := S1\<rparr>" "?t []"] by (simp add: d assms)
  have 2: "scan_bytes behind (p\<lparr>ps_state := S1\<rparr>) (?t [0xAA]) (0xCC # cs) = scan_bytes behind (p\<lparr>ps_state := S2\<rparr>) (?t [0xAA, 0xCC]) cs" for cs
    using scan_move [of behind "p\<lparr>ps_state := S1\<rparr>" "?t [0xAA]" "0xCC" "p\<lparr>ps_state := S2\<rparr>" "?t [0xAA]"] by (simp add: d assms)
  have 3: "scan_bytes behind (p\<lparr>ps_state := S1\<rparr>) (?t [0xAA]) (0x55 # cs) = scan_bytes behind (p\<lparr>ps_state := S12\<rparr>) (?t [0xAA, 0x55]) cs" for cs
    using scan_move [of behind "p\<lparr>ps_state := S1\<rparr>" "?t [0xAA]" "0x55" "p\<lparr>ps_state := S12\<rparr>" "?t [0xAA]"] by (simp add: d assms)
  have 4: "scan_bytes behind (p\<lparr>ps_state := S2\<rparr>) (?t [0xAA, 0xCC]) (0x48 # cs) = scan_bytes behind (p\<lparr>ps_state := S3\<rparr>) (?t [0xAA, 0xCC, 0x48]) cs" for cs
    using scan_move [of behind "p\<lparr>ps_state := S2\<rparr>" "?t [0xAA, 0xCC]" "0x48" "p\<lparr>ps_state := S3\<rparr>" "?t [0xAA, 0xCC]"] by (simp add: d assms)
  have 5: "scan_bytes behind (p\<lparr>ps_state := S12\<rparr>) (?t [0xAA, 0x55]) (0x48 # cs) = scan_bytes behind (p\<lparr>ps_state := S13\<rparr>) (?t [0xAA, 0x55, 0x48]) cs" for cs
    using scan_move [of behind "p\<lparr>ps_state := S12\<rparr>" "?t [0xAA, 0x55]" "0x48" "p\<lparr>ps_state := S13\<rparr>" "?t [0xAA, 0x55]"] by (simp add: d assms)
  have 6: "scan_bytes behind (p\<lparr>ps_state := S3\<rparr>) (?t [0xAA, 0xCC, 0x48]) (0x43 # cs) = scan_bytes behind (p\<lparr>ps_state := S4, specified_len := 2\<rparr>) (?t [0xAA, 0xCC, 0x48, 0x43]) cs" for cs
    using scan_move [of behind "p\<lparr>ps_state := S3\<rparr>" "?t [0xAA, 0xCC, 0x48]" "0x43" "p\<lparr>ps_state := S4, specified_len := 2\<rparr>" "?t [0xAA, 0xCC, 0x48]"] by (simp add: d assms)
  have 7: "scan_bytes behind (p\<lparr>ps_state := S13\<rparr>) (?t [0xAA, 0x55, 0x48]) (0x43 # cs) = scan_bytes behind (p\<lparr>ps_state := S14, specified_len := 2\<rparr>) (?t [0xAA, 0x55, 0x48, 0x43]) cs" for cs
    using scan_move [of behind "p\<lparr>ps_state := S13\<rparr>" "?t [0xAA, 0x55, 0x48]" "0x43" "p\<lparr>ps_state := S14, specified_len := 2\<rparr>" "?t [0xAA, 0x55, 0x48]"] by (simp add: d assms)
  have 8: "scan_bytes behind (p) (?t []) (0x24 # cs) = scan_bytes behind (p\<lparr>ps_state := S18, specified_len := 5\<rparr>) (?t [0x24]) cs" for cs
    using scan_move [of behind "p" "?t []" "0x24" "p\<lparr>ps_state := S18, specified_len := 5\<rparr>" "?t []"] by (simp add: d assms)
  show "scan_bytes behind p reset_token (0xAA # 0xCC # 0x48 # 0x43 # cs) =
      scan_bytes behind (p\<lparr>ps_state := S4, specified_len := 2\<rparr>) (?t [0xAA, 0xCC, 0x48, 0x43]) cs"
    unfolding z 1 2 4 6 ..
  show "scan_bytes behind p reset_token (0xAA # 0x55 # 0x48 # 0x43 # cs) =
      scan_bytes behind (p\<lparr>ps_state := S14, specified_len := 2\<rparr>) (?t [0xAA, 0x55, 0x48, 0x43]) cs"
    unfolding z 1 3 5 7 ..
  show "scan_bytes behind p reset_token (0x24 # cs) =
      scan_bytes behind (p\<lparr>ps_state := S18, specified_len := 5\<rparr>) (?t [0x24]) cs"
    unfolding z 8 by simp
qed

lemma scan_hc_frame:
  assumes "hc_frame m" and "length m < HC_PROTOCOL_MAX_LEN" and "ps_state p = S0"
  shows "scan_bytes behind p reset_token (m @ cs) =
    Ret (Some (p\<lparr>ps_state := S0, specified_len := 0\<rparr>, \<lparr>tk_type = TK_HC_MSG, tk_value = m\<rparr>, cs))"
proof -
  have f: "take 4 m = [0xAA, 0xCC, 0x48, 0x43]" "26 \<le> length m" "length m = payload_len m + 26"
    using assms(1) by (auto simp: hc_frame_def)
  define r where "r = drop 4 m"
  have m: "m = [0xAA, 0xCC, 0x48, 0x43] @ r" unfolding r_def f(1) [symmetric] by simp
  have r: "22 \<le> length r" using f by (simp add: r_def)
  from list_split [of 2 r] obtain a r1 where a: "r = a @ r1" "length a = 2" using r by auto
  from list_split [of 2 r1] obtain b r2 where b: "r1 = b @ r2" "length b = 2" using a r by auto
  from list_split [of 2 r2] obtain c r3 where c: "r2 = c @ r3" "length c = 2" using a b r by auto
  from list_split [of 4 r3] obtain d r4 where d: "r3 = d @ r4" "length d = 4" using a b c r by auto
  from list_split [of 4 r4] obtain e r5 where e: "r4 = e @ r5" "length e = 4" using a b c d r by auto
  from list_split [of 4 r5] obtain g h where g: "r5 = g @ h" "length g = 4" using a b c d e r by auto
  define V where "V = [0xAA, 0xCC, 0x48, 0x43] @ a @ b @ c @ d @ e @ g"
  have V: "m = V @ h" "length V = 22" by (simp_all add: V_def m a b c d e g)
  have n: "length m = 22 + length h" "length h = payload_len m + 4" using f(3) V by simp_all
  have p45: "payload_len m = unat (a ! 1) * 256 + unat (a ! 0)"
    using a(2) by (simp add: payload_len_def V V_def nth_append)
  have H: "state_handler behind q t x = Ret (skip_field s' l q t)"
    if "(ps_state q, s', l) \<in> {(S4, S5, 2), (S5, S6, 2), (S6, S7, 4), (S7, S8, 4), (S8, S9, 4), (S9, S10, message_rest t)}"
    for q t x s' l
    using that by (auto simp: state_handler_def deal_S4_def deal_S5_def deal_S6_def deal_S7_def deal_S8_def deal_S9_def)
  have E: "state_handler behind q t x = Ret (skip_last TK_HC_MSG q t)" if "ps_state q = S10" for q t x
    using that by (simp add: state_handler_def deal_S10_def)
  have "scan_bytes behind p reset_token (m @ cs)
      = scan_bytes behind (p\<lparr>ps_state := S4, specified_len := 2\<rparr>)
          \<lparr>tk_type = TK_NONE, tk_value = [0xAA, 0xCC, 0x48, 0x43]\<rparr> (a @ b @ c @ d @ e @ g @ h @ cs)"
    using scan_header(1) [OF assms(3)] by (simp add: V V_def)
  also have "\<dots> = scan_bytes behind (p\<lparr>ps_state := S10, specified_len := length h\<rparr>) \<lparr>tk_type = TK_NONE, tk_value = V\<rparr> (h @ cs)"
  proof -
    have rest: "message_rest \<lparr>tk_type = TK_NONE, tk_value = V\<rparr> = length h"
      unfolding n(2) p45 using a(2) by (simp add: message_rest_def tok_at_def V_def nth_append)
    have h: "h \<noteq> []" "b \<noteq> []" "c \<noteq> []" "d \<noteq> []" "e \<noteq> []" "g \<noteq> []" using n b c d e g by auto
    note k = a(2) b(2) c(2) d(2) e(2) g(2) HC_PROTOCOL_MAX_LEN_def
    show ?thesis unfolding rest [symmetric] V_def
      apply (subst scan_skip [where s = S4 and s' = S5 and L = "\<lambda>t. 2"], simp_all add: H k h)
      apply (subst scan_skip [where s = S5 and s' = S6 and L = "\<lambda>t. 2"], simp_all add: H k h)
      apply (subst scan_skip [where s = S6 and s' = S7 and L = "\<lambda>t. 4"], simp_all add: H k h)
      apply (subst scan_skip [where s = S7 and s' = S8 and L = "\<lambda>t. 4"], simp_all add: H k h)
      apply (subst scan_skip [where s = S8 and s' = S9 and L = "\<lambda>t. 4"], simp_all add: H k h)
      apply (subst scan_skip [where s = S9 and s' = S10 and L = message_rest], simp_all add: H k h)
      done
  qed
  also have "\<dots> = Ret (Some (p\<lparr>ps_state := S0, specified_len := 0\<rparr>, \<lparr>tk_type = TK_HC_MSG, tk_value = m\<rparr>, cs))"
    using n(2) V assms(2) by (subst scan_last [where s = S10 and k = TK_HC_MSG]) (auto simp: E)
  finally show ?thesis .
qed

lemma scan_short_frame:
  assumes "hc_short_frame m" and "length m < HC_PROTOCOL_MAX_LEN" and "ps_state p = S0"
  shows "scan_bytes behind p reset_token (m @ cs) =
    Ret (Some (p\<lparr>ps_state := S0, specified_len := 0\<rparr>, \<lparr>tk_type = TK_HC_SHORT_MSG, tk_value = m\<rparr>, cs))"
proof -
  have f: "take 4 m = [0xAA, 0x55, 0x48, 0x43]" "12 \<le> length m" "length m = payload_len m + 12"
    using assms(1) by (auto simp: hc_short_frame_def)
  define r where "r = drop 4 m"
  have m: "m = [0xAA, 0x55, 0x48, 0x43] @ r" unfolding r_def f(1) [symmetric] by simp
  have r: "8 \<le> length r" using f by (simp add: r_def)
  from list_split [of 2 r] obtain a r1 where a: "r = a @ r1" "length a = 2" using r by auto
  from list_split [of 2 r1] obtain b h where b: "r1 = b @ h" "length b = 2" using a r by auto
  define V where "V = [0xAA, 0x55, 0x48, 0x43] @ a @ b"
  have V: "m = V @ h" "length V = 8" by (simp_all add: V_def m a b)
  have n: "length m = 8 + length h" "length h = payload_len m + 4" using f(3) V by simp_all
  have p45: "payload_len m = unat (a ! 1) * 256 + unat (a ! 0)"
    using a(2) by (simp add: payload_len_def V V_def nth_append)
  have "scan_bytes behind p reset_token (m @ cs)
      = scan_bytes behind (p\<lparr>ps_state := S14, specified_len := 2\<rparr>)
          \<lparr>tk_type = TK_NONE, tk_value = [0xAA, 0x55, 0x48, 0x43]\<rparr> (a @ b @ h @ cs)"
    using scan_header(2) [OF assms(3)] by (simp add: V V_def)
  also have "\<dots> = scan_bytes behind (p\<lparr>ps_state := S15, specified_len := 2\<rparr>)
          \<lparr>tk_type = TK_NONE, tk_value = [0xAA, 0x55, 0x48, 0x43] @ a\<rparr> (b @ h @ cs)"
    using b(2) by (subst scan_skip [where s = S14 and s' = S15 and L = "\<lambda>t. 2"])
      (auto simp: state_handler_def deal_S14_def a(2) HC_PROTOCOL_MAX_LEN_def)
  also have "\<dots> = scan_bytes behind (p\<lparr>ps_state := S16, specified_len := length h\<rparr>) \<lparr>tk_type = TK_NONE, tk_value = V\<rparr> (h @ cs)"
  proof -
    have "message_rest \<lparr>tk_type = TK_NONE, tk_value = V\<rparr> = length h"
      unfolding n(2) p45 using a(2) by (simp add: message_rest_def tok_at_def V_def nth_append)
    then show ?thesis using n(2)
      by (subst scan_skip [where s = S15 and s' = S16 and L = message_rest])
        (auto simp: state_handler_def deal_S15_def a(2) b(2) V_def HC_PROTOCOL_MAX_LEN_def)
  qed
  also have "\<dots> = Ret (Some (p\<lparr>ps_state := S0, specified_len := 0\<rparr>, \<lparr>tk_type = TK_HC_SHORT_MSG, tk_value = m\<rparr>, cs))"
    using n(2) V assms(2)
    by (subst scan_last [where s = S16 and k = TK_HC_SHORT_MSG]) (auto simp: state_handler_def deal_S16_def)
  finally show ?thesis .
qed

text \<open>The head of a sentence: the parser reads five characters unseen and decides at the sixth.\<close>

lemma scan_nmea_head:
  assumes "length h5 = 5" and "nmea_head (h5 ! 0) (h5 ! 1)" and "ps_state p = S0"
  shows "scan_bytes 0 p reset_token (0x24 # h5 @ c # cs) =
      scan_bytes 0 (p\<lparr>ps_state := (if c = 0x2C then S21 else S20), specified_len := 0\<rparr>)
        \<lparr>tk_type = TK_NONE, tk_value = 0x24 # h5 @ [c]\<rparr> cs"
proof -
  have a: "scan_bytes 0 (p\<lparr>ps_state := S18, specified_len := 5\<rparr>) \<lparr>tk_type = TK_NONE, tk_value = [0x24]\<rparr> (h5 @ c # cs)
      = scan_bytes 0 (p\<lparr>ps_state := S19, specified_len := 0\<rparr>) \<lparr>tk_type = TK_NONE, tk_value = 0x24 # h5\<rparr> (c # cs)"
    by (subst scan_skip [where s = S18 and s' = S19 and L = "\<lambda>t. 0"])
      (auto simp: state_handler_def deal_S18_def skip_field_def assms(1) HC_PROTOCOL_MAX_LEN_def)
  have b: "scan_bytes 0 (p\<lparr>ps_state := S19, specified_len := 0\<rparr>) \<lparr>tk_type = TK_NONE, tk_value = 0x24 # h5\<rparr> (c # cs)
      = scan_bytes 0 (p\<lparr>ps_state := (if c = 0x2C then S21 else S20), specified_len := 0\<rparr>)
          \<lparr>tk_type = TK_NONE, tk_value = 0x24 # h5 @ [c]\<rparr> cs"
    using scan_move [of 0 "p\<lparr>ps_state := S19, specified_len := 0\<rparr>" "\<lparr>tk_type = TK_NONE, tk_value = 0x24 # h5\<rparr>" c
        "p\<lparr>ps_state := (if c = 0x2C then S21 else S20), specified_len := 0\<rparr>" "\<lparr>tk_type = TK_NONE, tk_value = 0x24 # h5\<rparr>"]
    by (simp add: state_handler_def deal_S19_def tok_at_def assms(1) assms(2) [unfolded One_nat_def] HC_PROTOCOL_MAX_LEN_def)
  show ?thesis unfolding scan_header(3) [OF assms(3)] a b ..
qed

lemma scan_nmea_frame:
  assumes "nmea_frame m" and "length m < HC_PROTOCOL_MAX_LEN" and "ps_state p = S0"
  shows "scan_bytes 0 p reset_token (m @ cs) =
    Ret (Some (p\<lparr>ps_state := S0, specified_len := 0\<rparr>, \<lparr>tk_type = TK_NMEA_MGS, tk_value = m\<rparr>, cs))"
proof -
  from assms(1) obtain head body tail where m: "m = 0x24 # head @ 0x2C # body @ 0x2A # tail"
    and head: "length head \<in> {5, 6}" "nmea_head (head ! 0) (head ! 1)" "length head = 6 \<longrightarrow> head ! 5 \<noteq> 0x2C"
    and body: "list_all nmea_char body" and tail: "length tail = 4"
    unfolding nmea_frame_def by blast
  let ?V = "0x24 # head @ [0x2C]"
  have l: "length head + length body + 7 < HC_PROTOCOL_MAX_LEN" using assms(2) by (simp add: m tail)
  have "scan_bytes 0 p reset_token (m @ cs)
      = scan_bytes 0 (p\<lparr>ps_state := S21, specified_len := 0\<rparr>) \<lparr>tk_type = TK_NONE, tk_value = ?V\<rparr> (body @ 0x2A # tail @ cs)"
  proof (cases "length head = 5")
    case True
    then show ?thesis using scan_nmea_head [OF True head(2) assms(3), of "0x2C"] by (simp add: m)
  next
    case False
    then have "length head = 6" using head(1) by simp
    with list_split [of 5 head] obtain h5 r where "head = h5 @ r" "length h5 = 5" "length r = 1" by auto
    then obtain x where h: "head = h5 @ [x]" "length h5 = 5" by (auto simp: length_Suc_conv)
    have x: "x \<noteq> 0x2C" using head(3) h by (simp add: nth_append)
    have "nmea_head (h5 ! 0) (h5 ! 1)" using head(2) h by (simp add: nth_append)
    from scan_nmea_head [OF h(2) this assms(3), of x] x show ?thesis
      using scan_move [of 0 "p\<lparr>ps_state := S20, specified_len := 0\<rparr>" "\<lparr>tk_type = TK_NONE, tk_value = 0x24 # h5 @ [x]\<rparr>" "0x2C"
          "p\<lparr>ps_state := S21, specified_len := 0\<rparr>" "\<lparr>tk_type = TK_NONE, tk_value = 0x24 # h5 @ [x]\<rparr>"]
      by (simp add: m h state_handler_def deal_S20_def HC_PROTOCOL_MAX_LEN_def)
  qed
  also have "\<dots> = scan_bytes 0 (p\<lparr>ps_state := S21, specified_len := 0\<rparr>)
      \<lparr>tk_type = TK_NONE, tk_value = ?V @ body\<rparr> (0x2A # tail @ cs)"
    using l by (subst scan_fields) (simp_all add: body)
  also have "\<dots> = scan_bytes 0 (p\<lparr>ps_state := S22, specified_len := 4\<rparr>)
      \<lparr>tk_type = TK_NONE, tk_value = ?V @ body @ [0x2A]\<rparr> (tail @ cs)"
    using scan_move [of 0 "p\<lparr>ps_state := S21, specified_len := 0\<rparr>" "\<lparr>tk_type = TK_NONE, tk_value = ?V @ body\<rparr>" "0x2A"
        "p\<lparr>ps_state := S22, specified_len := 4\<rparr>" "\<lparr>tk_type = TK_NONE, tk_value = ?V @ body\<rparr>"] l
    by (simp add: state_handler_def deal_S21_def)
  also have "\<dots> = Ret (Some (p\<lparr>ps_state := S0, specified_len := 0\<rparr>, \<lparr>tk_type = TK_NMEA_MGS, tk_value = m\<rparr>, cs))"
    using assms(2) tail
    by (subst scan_last [where s = S22 and k = TK_NMEA_MGS]) (auto simp: state_handler_def deal_S22_def m)
  finally show ?thesis .
qed

text \<open>When the byte behind the array is not zero no head is recognised: a sentence is given up at its seventh
  character.\<close>

lemma scan_nmea_lost:
  assumes "nmea_frame m" and "ps_state p = S0" and "behind \<noteq> 0"
  shows "scan_bytes behind p reset_token (m @ cs) =
    Ret (Some (p\<lparr>ps_state := S19, specified_len := 0, error_code := S19\<rparr>,
      \<lparr>tk_type = TK_ERROR, tk_value = take 6 m\<rparr>, drop 6 m @ cs))"
proof -
  from assms(1) obtain head body tail where m: "m = 0x24 # head @ 0x2C # body @ 0x2A # tail" and head: "length head \<in> {5, 6}"
    unfolding nmea_frame_def by blast
  from list_split [of 5 head] head obtain h5 r where h: "head = h5 @ r" "length h5 = 5" by auto
  obtain c rest where c: "r @ 0x2C # body @ 0x2A # tail = c # rest" by (cases "r @ 0x2C # body @ 0x2A # tail") auto
  have m5: "m = 0x24 # h5 @ c # rest" using m h c by simp
  have "scan_bytes behind p reset_token (m @ cs)
      = scan_bytes behind (p\<lparr>ps_state := S18, specified_len := 5\<rparr>) \<lparr>tk_type = TK_NONE, tk_value = [0x24]\<rparr> (h5 @ (c # rest @ cs))"
    using scan_header(3) [OF assms(2)] by (simp add: m5)
  also have "\<dots> = scan_bytes behind (p\<lparr>ps_state := S19, specified_len := 0\<rparr>) \<lparr>tk_type = TK_NONE, tk_value = 0x24 # h5\<rparr> (c # rest @ cs)"
    by (subst scan_skip [where s = S18 and s' = S19 and L = "\<lambda>t. 0"])
      (auto simp: state_handler_def deal_S18_def skip_field_def h(2) HC_PROTOCOL_MAX_LEN_def)
  also have "\<dots> = Ret (Some (p\<lparr>ps_state := S19, specified_len := 0, error_code := S19\<rparr>,
      \<lparr>tk_type = TK_ERROR, tk_value = take 6 m\<rparr>, drop 6 m @ cs))"
    using assms(3) h(2)
    by (simp add: scan_bytes.simps(2) byte_step_def state_handler_def deal_S19_def reject_def m5 HC_PROTOCOL_MAX_LEN_def)
  finally show ?thesis .
qed

lemma scan_frame:
  assumes "frame_of k m" and "length m < HC_PROTOCOL_MAX_LEN" and "ps_state p = S0" and "k = TK_NMEA_MGS \<Longrightarrow> behind = 0"
  shows "scan_bytes behind p reset_token (m @ cs) =
    Ret (Some (p\<lparr>ps_state := S0, specified_len := 0\<rparr>, \<lparr>tk_type = k, tk_value = m\<rparr>, cs))"
  using assms scan_hc_frame scan_short_frame scan_nmea_frame by (cases k) auto

text \<open>A byte that starts no message is dropped as an error of its own.\<close>

lemma scan_junk:
  assumes "ps_state p = S0" and "c \<noteq> 0xAA" and "c \<noteq> 0x24"
  shows "scan_bytes behind p reset_token (c # cs) =
    Ret (Some (p\<lparr>error_code := S0\<rparr>, \<lparr>tk_type = TK_ERROR, tk_value = [c]\<rparr>, cs))"
  using assms
  by (simp add: scan_bytes.simps(2) byte_step_def state_handler_def deal_S0_def reject_def reset_token_def HC_PROTOCOL_MAX_LEN_def)

section \<open>Tokens are frames\<close>

text \<open>What the token holds in each state.\<close>

definition field_prefix :: "u8 list \<Rightarrow> nat \<Rightarrow> nat \<Rightarrow> nat \<Rightarrow> u8 list \<Rightarrow> bool" where
  "field_prefix hdr k start stop v \<longleftrightarrow> take 4 v = hdr \<and> start \<le> length v \<and> length v + k = stop"

definition nmea_prefix :: "u8 list \<Rightarrow> u8 list \<Rightarrow> u8 list \<Rightarrow> bool" where
  "nmea_prefix head rest v \<longleftrightarrow> v = 0x24 # head @ rest \<and> length head \<in> {5, 6} \<and> nmea_head (head ! 0) (head ! 1)
     \<and> (length head = 6 \<longrightarrow> head ! 5 \<noteq> 0x2C)"

definition long_hd :: "u8 list" where "long_hd = [0xAA, 0xCC, 0x48, 0x43]"
definition short_hd :: "u8 list" where "short_hd = [0xAA, 0x55, 0x48, 0x43]"

definition prefix_ok :: "hc_parser \<Rightarrow> hc_token \<Rightarrow> bool" where
  "prefix_ok p t =
     (let v = tk_value t; k = specified_len p
      in case ps_state p of
           S0 \<Rightarrow> v = [] | S1 \<Rightarrow> v = [0xAA] | S2 \<Rightarrow> v = [0xAA, 0xCC] | S3 \<Rightarrow> v = [0xAA, 0xCC, 0x48]
         | S4 \<Rightarrow> field_prefix long_hd k 4 6 v | S5 \<Rightarrow> field_prefix long_hd k 6 8 v | S6 \<Rightarrow> field_prefix long_hd k 8 10 v
         | S7 \<Rightarrow> field_prefix long_hd k 10 14 v | S8 \<Rightarrow> field_prefix long_hd k 14 18 v
         | S9 \<Rightarrow> field_prefix long_hd k 18 22 v
         | S10 \<Rightarrow> field_prefix long_hd k 22 (payload_len v + 26) v \<and> 0 < k
         | S12 \<Rightarrow> v = [0xAA, 0x55] | S13 \<Rightarrow> v = [0xAA, 0x55, 0x48]
         | S14 \<Rightarrow> field_prefix short_hd k 4 6 v | S15 \<Rightarrow> field_prefix short_hd k 6 8 v
         | S16 \<Rightarrow> field_prefix short_hd k 8 (payload_len v + 12) v \<and> 0 < k
         | S18 \<Rightarrow> (\<exists>h. v = 0x24 # h \<and> length h + k = 5)
         | S19 \<Rightarrow> (\<exists>h. v = 0x24 # h \<and> length h = 5)
         | S20 \<Rightarrow> (\<exists>head. nmea_prefix head [] v \<and> length head = 6)
         | S21 \<Rightarrow> (\<exists>head body. nmea_prefix head (0x2C # body) v \<and> list_all nmea_char body)
         | S22 \<Rightarrow> (\<exists>head body tl. nmea_prefix head (0x2C # body @ 0x2A # tl) v \<and> list_all nmea_char body
                     \<and> length tl + k = 4 \<and> 0 < k)
         | _ \<Rightarrow> False)"

lemma payload_len_snoc: "6 \<le> length v \<Longrightarrow> payload_len (v @ [c]) = payload_len v"
  by (simp add: payload_len_def nth_append)

lemma message_rest_payload: "6 \<le> length (tk_value t) \<Longrightarrow> message_rest t = payload_len (tk_value t) + 4"
  by (simp add: message_rest_def payload_len_def tok_at_def)

definition step_ok :: "u8 \<Rightarrow> hc_parser \<Rightarrow> hc_token \<Rightarrow> u8 \<Rightarrow> bool" where
  "step_ok behind p t c \<longleftrightarrow> (\<exists>p1 t1 n. state_handler behind p t c = Ret (p1, t1, n)
     \<and> (tk_type t1 = TK_NONE \<longrightarrow> prefix_ok p1 (t1\<lparr>tk_value := tk_value t1 @ take n [c]\<rparr>))
     \<and> (tk_type t1 \<notin> {TK_NONE, TK_ERROR} \<longrightarrow> ps_state p1 = S0 \<and> frame_of (tk_type t1) (tk_value t1 @ take n [c])))"

lemma step_okI:
  assumes "state_handler behind p t c = Ret (p1, t1, n)"
    and "tk_type t1 = TK_NONE \<Longrightarrow> prefix_ok p1 (t1\<lparr>tk_value := tk_value t1 @ take n [c]\<rparr>)"
    and "tk_type t1 \<noteq> TK_NONE \<Longrightarrow> tk_type t1 \<noteq> TK_ERROR \<Longrightarrow> ps_state p1 = S0 \<and> frame_of (tk_type t1) (tk_value t1 @ take n [c])"
  shows "step_ok behind p t c"
  using assms unfolding step_ok_def by blast

lemma step_ok_header:
  assumes "prefix_ok p t" and "tk_type t = TK_NONE" and "ps_state p \<in> {S0, S1, S2, S3, S12, S13}"
  shows "step_ok behind p t c"
  using assms(1,2,3)
  by (auto simp: step_ok_def state_handler_def prefix_ok_def field_prefix_def long_hd_def short_hd_def deal_defs)

lemma step_ok_field:
  assumes "prefix_ok p t" and "tk_type t = TK_NONE" and "ps_state p \<in> {S4, S5, S6, S7, S8, S9, S14, S15}"
  shows "step_ok behind p t c"
  using assms
  by (auto simp: step_ok_def state_handler_def prefix_ok_def field_prefix_def deal_defs message_rest_payload Let_def)

lemma step_ok_payload:
  assumes "prefix_ok p t" and "tk_type t = TK_NONE" and "ps_state p \<in> {S10, S16}"
  shows "step_ok behind p t c"
  using assms
  by (auto simp: step_ok_def state_handler_def prefix_ok_def field_prefix_def deal_defs Let_def payload_len_snoc
      hc_frame_def hc_short_frame_def long_hd_def short_hd_def)

lemma step_ok_nmea_head:
  assumes "prefix_ok p t" and "tk_type t = TK_NONE" and "ps_state p \<in> {S18, S19, S20}"
  shows "step_ok behind p t c"
proof (cases "ps_state p = S19")
  case True
  then obtain h where h: "tk_value t = 0x24 # h" "length h = 5" using assms(1) by (auto simp: prefix_ok_def Let_def)
  let ?p = "p\<lparr>ps_state := (if c = 0x2C then S21 else S20)\<rparr>"
  have "prefix_ok ?p (t\<lparr>tk_value := tk_value t @ [c]\<rparr>)" if "nmea_head (tok_at t 1) (tok_at t 2)"
  proof (cases "c = 0x2C")
    case True
    have "nmea_prefix h [0x2C] (tk_value t @ [c])" using h that True by (simp add: nmea_prefix_def tok_at_def)
    then show ?thesis using True by (simp add: prefix_ok_def) fastforce
  next
    case False
    have "nmea_prefix (h @ [c]) [] (tk_value t @ [c])" using h that False by (simp add: nmea_prefix_def tok_at_def nth_append)
    then show ?thesis using False h by (simp add: prefix_ok_def) (metis length_append_singleton eval_nat_numeral(2,3) semiring_norm(26-28))
  qed
  then show ?thesis using True assms(2)
    by (auto simp: step_ok_def state_handler_def deal_S19_def reject_def)
next
  case False
  then consider "ps_state p = S18" | "ps_state p = S20" using assms(3) by auto
  then show ?thesis
  proof cases
    case 1
    then show ?thesis using assms
      by (auto simp: step_ok_def state_handler_def prefix_ok_def deal_defs Let_def)
  next
    case 2
    then obtain head where "nmea_prefix head [] (tk_value t)" using assms(1) by (auto simp: prefix_ok_def Let_def)
    then have "nmea_prefix head [0x2C] (tk_value t @ [0x2C])" by (simp add: nmea_prefix_def)
    then have "prefix_ok (p\<lparr>ps_state := S21\<rparr>) (t\<lparr>tk_value := tk_value t @ [0x2C]\<rparr>)"
      by (simp add: prefix_ok_def) fastforce
    then show ?thesis using 2 assms(2)
      by (auto simp: step_ok_def state_handler_def deal_S20_def reject_def)
  qed
qed

lemma step_ok_nmea_body:
  assumes "prefix_ok p t" and "tk_type t = TK_NONE" and "ps_state p \<in> {S21, S22}"
  shows "step_ok behind p t c"
proof (cases "ps_state p = S21")
  case True
  then obtain head body where b: "nmea_prefix head (0x2C # body) (tk_value t)" "list_all nmea_char body"
    using assms(1) by (auto simp: prefix_ok_def Let_def)
  have "prefix_ok (p\<lparr>ps_state := S22, specified_len := 4\<rparr>) (t\<lparr>tk_value := tk_value t @ [0x2A]\<rparr>)"
  proof -
    have "nmea_prefix head (0x2C # body @ [0x2A]) (tk_value t @ [0x2A])" using b(1) by (simp add: nmea_prefix_def)
    then show ?thesis using b(2) by (simp add: prefix_ok_def) blast
  qed
  moreover have "prefix_ok p (t\<lparr>tk_value := tk_value t @ [c]\<rparr>)" if "nmea_char c"
  proof -
    have "nmea_prefix head (0x2C # (body @ [c])) (tk_value t @ [c])" "list_all nmea_char (body @ [c])"
      using b that by (simp_all add: nmea_prefix_def)
    then show ?thesis using True by (simp add: prefix_ok_def del: list_all_append) blast
  qed
  ultimately show ?thesis using True assms(2)
    by (auto simp: step_ok_def state_handler_def deal_S21_def reject_def)
next
  case False
  then have s: "ps_state p = S22" using assms(3) by simp
  then obtain head body tl where b: "nmea_prefix head (0x2C # body @ 0x2A # tl) (tk_value t)" "list_all nmea_char body"
    "length tl + specified_len p = 4" "0 < specified_len p"
    using assms(1) by (auto simp: prefix_ok_def Let_def)
  show ?thesis
  proof (cases "specified_len p = 1")
    case True
    have "nmea_frame (tk_value t @ [c])"
      unfolding nmea_frame_def using b True
      by (intro exI [where x = head] exI [where x = body] exI [where x = "tl @ [c]"]) (auto simp: nmea_prefix_def)
    then show ?thesis using True s assms(2)
      by (auto simp: step_ok_def state_handler_def deal_S22_def skip_last_def Let_def)
  next
    case more: False
    have "prefix_ok (p\<lparr>specified_len := specified_len p - 1\<rparr>) (t\<lparr>tk_value := tk_value t @ [c]\<rparr>)"
    proof -
      have "nmea_prefix head (0x2C # body @ 0x2A # (tl @ [c])) (tk_value t @ [c])" using b(1) by (simp add: nmea_prefix_def)
      moreover have "length (tl @ [c]) + (specified_len p - 1) = 4" "0 < specified_len p - 1" using b(3,4) more by simp_all
      ultimately show ?thesis using b(2) s unfolding prefix_ok_def Let_def
        by (simp del: length_append) blast
    qed
    then show ?thesis using more b(4) s assms(2)
      by (auto simp: step_ok_def state_handler_def deal_S22_def skip_last_def Let_def)
  qed
qed

lemma prefix_ok_step: "prefix_ok p t \<Longrightarrow> tk_type t = TK_NONE \<Longrightarrow> step_ok behind p t c"
  using step_ok_header step_ok_field step_ok_payload step_ok_nmea_head step_ok_nmea_body
  by (cases "ps_state p") (auto simp: prefix_ok_def)

lemma scan_bytes_frames:
  assumes "prefix_ok p t" and "tk_type t = TK_NONE"
  shows "\<exists>r. scan_bytes behind p t cs = Ret r \<and> (\<forall>p1 t1 rest. r = Some (p1, t1, rest) \<longrightarrow>
    tk_value t @ cs = tk_value t1 @ rest \<and> tk_type t1 \<noteq> TK_NONE
    \<and> (tk_type t1 \<noteq> TK_ERROR \<longrightarrow> ps_state p1 = S0 \<and> error_code p1 = error_code p
        \<and> frame_of (tk_type t1) (tk_value t1) \<and> length (tk_value t1) < HC_PROTOCOL_MAX_LEN))"
  using assms
proof (induction behind p t cs rule: scan_bytes.induct)
  case (2 behind p t c cs)
  obtain p1 t1 n where h: "state_handler behind p t c = Ret (p1, t1, n)"
    and none: "tk_type t1 = TK_NONE \<Longrightarrow> prefix_ok p1 (t1\<lparr>tk_value := tk_value t1 @ take n [c]\<rparr>)"
    and fin: "tk_type t1 \<noteq> TK_NONE \<Longrightarrow> tk_type t1 \<noteq> TK_ERROR \<Longrightarrow> ps_state p1 = S0 \<and> frame_of (tk_type t1) (tk_value t1 @ take n [c])"
    using prefix_ok_step [OF "2.prems", of behind c] unfolding step_ok_def by blast
  note k = state_handler_cases [OF h]
  have n: "n = 0 \<or> n = 1" using k(3) by linarith
  have e: "error_code p1 = error_code p" if "tk_type t1 \<noteq> TK_ERROR"
    using h that by (auto simp: state_handler_def deal_defs Let_def split: hc_state.splits if_splits)
  have v: "tk_value t @ c # cs = (tk_value t1 @ take n [c]) @ drop n (c # cs)" using n k(2) by auto
  show ?case
  proof (cases "length (tk_value t1) + n < HC_PROTOCOL_MAX_LEN")
    case True
    let ?t = "t1\<lparr>tk_value := tk_value t1 @ take n [c]\<rparr>"
    have b: "byte_step behind p t c = Ret (p1, ?t, n)" using h True by (simp add: byte_step_def)
    show ?thesis
    proof (cases "tk_type t1 = TK_NONE")
      case none': True
      then have "\<exists>r. scan_bytes behind p1 ?t (drop n (c # cs)) = Ret r \<and> (\<forall>p2 t2 rest. r = Some (p2, t2, rest) \<longrightarrow>
          tk_value ?t @ drop n (c # cs) = tk_value t2 @ rest \<and> tk_type t2 \<noteq> TK_NONE
          \<and> (tk_type t2 \<noteq> TK_ERROR \<longrightarrow> ps_state p2 = S0 \<and> error_code p2 = error_code p1
            \<and> frame_of (tk_type t2) (tk_value t2) \<and> length (tk_value t2) < HC_PROTOCOL_MAX_LEN))"
        using "2.IH" [OF b refl refl] none by simp
      then show ?thesis using b none' v e by (simp add: scan_bytes.simps(2))
    next
      case False
      have "length (tk_value ?t) < HC_PROTOCOL_MAX_LEN" using True n by auto
      then show ?thesis using b False v e fin by (simp add: scan_bytes.simps(2))
    qed
  next
    case False
    then have "byte_step behind p t c = Ret (p1\<lparr>error_code := ps_state p1\<rparr>, t1\<lparr>tk_type := TK_ERROR\<rparr>, 0)"
      using h by (simp add: byte_step_def)
    then show ?thesis using k(2) by (simp add: scan_bytes.simps(2))
  qed
qed simp

lemma scan_loop_buffer_ok:
  assumes "scan_loop behind p t reads = Ret (Some (p1, t1, reads1))" and "buffer_ok p"
  shows "buffer_ok p1"
  using assms
proof (induction behind p t reads rule: scan_loop.induct)
  case (1 behind p t reads)
  from "1.prems"(1) obtain q r where f: "refill p reads = Some (q, r)"
    by (subst (asm) scan_loop.simps) (auto split: option.splits)
  then obtain p2 t2 where s: "scan_step behind q t = Ret (p2, t2)"
    and rest: "if tk_type t2 \<noteq> TK_NONE then p1 = p2 else scan_loop behind p2 t2 r = Ret (Some (p1, t1, reads1))"
    using "1.prems"(1) by (subst (asm) (1) scan_loop.simps) (auto simp: bind_exec_Ret_iff split: if_splits)
  have "buffer_ok q" "buf_pointer (buffer q) < buf_last (buffer q)" using refill_Some(4) [OF f "1.prems"(2)] by auto
  from scan_step_byte [OF this, of undefined undefined] s have "buffer_ok p2" by metis
  then show ?case using "1.IH" [OF f refl s refl] rest by (simp split: if_splits)
qed

text \<open>The scanner on its buffer and the specification on the bytes: what the callers use.\<close>

lemma scan_loop_bytes:
  assumes "buffer_ok p" and "scan_bytes behind p t (pending p reads) = Ret (Some (q, t1, rest))"
  obtains p1 reads1 where "scan_loop behind p t reads = Ret (Some (p1, t1, reads1))" and "buffer_ok p1"
    and "pending p1 reads1 = rest" and "ps_state p1 = ps_state q" and "error_code p1 = error_code q"
proof -
  note e = scan_ignores_reads [OF assms(1), of "buffer p" behind t reads]
  have "p\<lparr>buffer := buffer p\<rparr> = p" by simp
  with e assms(2) obtain p1 reads1 where s: "scan_loop behind p t reads = Ret (Some (p1, t1, reads1))"
    and p: "p1\<lparr>buffer := buffer p\<rparr> = q" "pending p1 reads1 = rest"
    by (cases "scan_loop behind p t reads") auto
  from p(1) have "ps_state p1 = ps_state q" "error_code p1 = error_code q" by auto
  then show ?thesis using that s p(2) scan_loop_buffer_ok [OF s assms(1)] by blast
qed

text \<open>C9: The scanner is memory safe, loses no byte and delivers only frames. Started between two messages on a
  well-formed buffer, it never reads outside the buffer or runs into an assertion; the token and the bytes left over
  are together the bytes that were to come, also when the token is an error; and a token that is not an error is a
  complete frame of its protocol, with the length its header announces, after which the parser is again between two
  messages.\<close>

theorem tokens_are_frames:
  assumes "buffer_ok p" and "ps_state p = S0" and "error_code p = S_NONE"
  shows "\<exists>r. msg_parser_scan behind p reads = Ret r \<and> (\<forall>code p1 t1 reads1. r = Some (code, p1, t1, reads1) \<longrightarrow>
    pending p reads = tk_value t1 @ pending p1 reads1 \<and> buffer_ok p1
    \<and> (tk_type t1 \<noteq> TK_ERROR \<longrightarrow> frame_of (tk_type t1) (tk_value t1) \<and> length (tk_value t1) < HC_PROTOCOL_MAX_LEN
         \<and> ps_state p1 = S0 \<and> error_code p1 = S_NONE))"
proof -
  note e = scan_ignores_reads [OF assms(1), of "buffer p" behind reset_token reads]
  have "prefix_ok p reset_token" "tk_type reset_token = TK_NONE"
    using assms(2) by (simp_all add: prefix_ok_def reset_token_def)
  from scan_bytes_frames [OF this, of behind "pending p reads"] obtain r where
    r: "scan_bytes behind p reset_token (pending p reads) = Ret r"
    and f: "\<forall>p1 t1 rest. r = Some (p1, t1, rest) \<longrightarrow>
      tk_value reset_token @ pending p reads = tk_value t1 @ rest \<and> tk_type t1 \<noteq> TK_NONE
      \<and> (tk_type t1 \<noteq> TK_ERROR \<longrightarrow> ps_state p1 = S0 \<and> error_code p1 = error_code p
          \<and> frame_of (tk_type t1) (tk_value t1) \<and> length (tk_value t1) < HC_PROTOCOL_MAX_LEN)" by blast
  have same: "p\<lparr>buffer := buffer p\<rparr> = p" by simp
  show ?thesis
  proof (cases r)
    case None
    then have "scan_loop behind p reset_token reads = Ret None"
      using e r unfolding same by (cases "scan_loop behind p reset_token reads") auto
    then show ?thesis using assms(3) by (simp add: msg_parser_scan_def)
  next
    case (Some s)
    obtain q t1 rest where s: "s = (q, t1, rest)" by (cases s)
    from scan_loop_bytes [OF assms(1) r [unfolded Some s]] obtain p1 reads1 where
      "scan_loop behind p reset_token reads = Ret (Some (p1, t1, reads1))" "buffer_ok p1"
      "pending p1 reads1 = rest" "ps_state p1 = ps_state q" "error_code p1 = error_code q" by blast
    then show ?thesis using f Some s assms(3) by (simp add: msg_parser_scan_def reset_token_def)
  qed
qed

text \<open>The IMU's short message of 22 bytes of payload, cut by the device after its first byte.\<close>

definition ex_short :: "u8 list" where
  "ex_short = [0xAA, 0x55, 0x48, 0x43, 22, 0, 2, 1] @ replicate 22 7 @ [1, 2, 3, 4]"

lemma ex_short_frame: "hc_short_frame ex_short"
  by (simp add: ex_short_def hc_short_frame_def payload_len_def)

lemma init_ok: "buffer_ok (init_msg_parser n junk len)" "ps_state (init_msg_parser n junk len) = S0"
  "error_code (init_msg_parser n junk len) = S_NONE"
  "pending (init_msg_parser n junk len) reads = concat (filter (\<lambda>r. length r \<le> n) reads)"
  by (simp_all add: buffer_ok_def init_msg_parser_def pending_def)

theorem scan_ignores_reads_witness:
  "scan_loop 0 (init_msg_parser 40 [] 0) reset_token [[0xAA], [], tl ex_short] \<noteq> Ret None"
  using scan_ignores_reads [OF init_ok(1), of "buffer (init_msg_parser 40 [] 0)" 0 40 "[]" 0 reset_token "[[0xAA], [], tl ex_short]"]
    scan_frame [of TK_HC_SHORT_MSG ex_short "init_msg_parser 40 [] 0" 0 "[]"] ex_short_frame
  by (auto simp: init_ok ex_short_def HC_PROTOCOL_MAX_LEN_def)

theorem tokens_are_frames_witness:
  "\<exists>r. msg_parser_scan 0 (init_msg_parser 40 [] 0) [[0xAA], [], tl ex_short] = Ret r"
  using tokens_are_frames [OF init_ok(1,2,3)] by blast

end
