(* ===== verification/Chc_Node.thy ===== *)
theory Chc_Node
  imports Chc_Parser
begin

text \<open>
  The receiver's node, \<^verbatim>\<open>chcnav/src/hc_msg_parser_node/hc_msg_parser.hpp\<close>: the loop of \<open>node_start\<close> around the
  parser and \<open>msg_recv_callback\<close>, which publishes NMEA sentences after checking them and CGI messages unchecked. A
  published message is the result. Time stamps, the node's set-up and its sleep between two messages are left out,
  and so is \<open>single_msg\<close> behind the bytes copied into it, which is never read.
\<close>

section \<open>Publishing\<close>

datatype published = Nmea_sentence "u8 list" | Hc_sentence u16 "u8 list"

text \<open>\<open>char\<close> is signed: both bytes of the identifier are sign-extended before they are added.\<close>

definition cgi_msg_id :: "hc_token \<Rightarrow> u16" where
  "cgi_msg_id t = word_of_int (sint (tok_at t 7) * 256 + sint (tok_at t 6))"

definition hex_digit :: "u8 \<Rightarrow> nat option" where
  "hex_digit c =
     (if 0x30 \<le> c \<and> c \<le> 0x39 then Some (unat c - 0x30)
      else if 0x41 \<le> c \<and> c \<le> 0x46 then Some (unat c - 0x37)
      else if 0x61 \<le> c \<and> c \<le> 0x66 then Some (unat c - 0x57)
      else None)"

text \<open>\<open>strtol\<close> of \<open>"0x"\<close> and two characters, to base 16: it stops at the first character that is not a digit.\<close>

definition strtol_hex :: "u8 \<Rightarrow> u8 \<Rightarrow> nat" where
  "strtol_hex a b =
     (case hex_digit a of
        None \<Rightarrow> 0
      | Some x \<Rightarrow> (case hex_digit b of None \<Rightarrow> x | Some y \<Rightarrow> 16 * x + y))"

text \<open>The exclusive or starts with the first character and then runs over it again.\<close>

definition nmea_xor :: "u8 list \<Rightarrow> u8" where
  "nmea_xor m = fold (\<lambda>c acc. acc XOR c) (take (length m - 5) m) (m ! 0)"

definition recv_nmea :: "u8 list \<Rightarrow> published option" where
  "recv_nmea m =
     (let n = length m
      in if n < 5 then None
         else let sentence = takeWhile (\<lambda>c. c \<noteq> 0) (take (n - 2) m)
              in if strtol_hex (m ! (n - 4)) (m ! (n - 3)) \<noteq> unat (nmea_xor m) then None
                 else if m ! (n - 2) \<noteq> 0x0D \<or> m ! (n - 1) \<noteq> 0x0A then None
                 else Some (Nmea_sentence sentence))"

definition recv_cgi :: "hc_token \<Rightarrow> published option" where
  "recv_cgi t = Some (Hc_sentence (cgi_msg_id t) (tk_value t))"

fun msg_recv_callback :: "hc_token \<Rightarrow> published option" where
  "msg_recv_callback t =
     (case tk_type t of
        TK_HC_SHORT_MSG \<Rightarrow> recv_cgi t
      | TK_HC_MSG \<Rightarrow> recv_cgi t
      | TK_NMEA_MGS \<Rightarrow> recv_nmea (tk_value t)
      | _ \<Rightarrow> None)"

section \<open>The loop\<close>

definition valid_token :: "hc_token \<Rightarrow> bool" where
  "valid_token t \<longleftrightarrow> tk_type t \<in> {TK_HC_MSG, TK_NMEA_MGS, TK_HC_SHORT_MSG}"

definition clear_error :: "hc_parser \<Rightarrow> hc_parser" where
  "clear_error p = p\<lparr>error_code := S_NONE, ps_state := S0\<rparr>"

definition dirty :: "hc_parser \<Rightarrow> nat" where
  "dirty p = (if ps_state p = S0 \<and> error_code p = S_NONE then 0 else 1)"

lemma valid_token_state:
  assumes "state_handler behind p t c = Ret (p1, t1, n)" and "tk_type t = TK_NONE" and "tk_type t1 \<notin> {TK_NONE, TK_ERROR}"
  shows "ps_state p1 = S0" and "error_code p1 = error_code p"
  using assms by (auto simp: state_handler_def deal_defs Let_def split: hc_state.splits if_splits)

lemma scan_step_end:
  assumes "scan_step behind p t = Ret (p1, t1)" and "tk_type t = TK_NONE"
  shows "tk_type t1 \<notin> {TK_NONE, TK_ERROR} \<Longrightarrow> ps_state p1 = S0 \<and> error_code p1 = error_code p"
    and "tk_type t1 = TK_NONE \<Longrightarrow> error_code p1 = error_code p"
    and "ps_state p = S0 \<Longrightarrow> length (tk_value t) + 1 < HC_PROTOCOL_MAX_LEN \<Longrightarrow> length (pending p1 reads) < length (pending p reads)"
proof -
  let ?b = "buffer p"
  from assms obtain p' t' n where b: "buf_pointer ?b < buf_last ?b" "buf_last ?b \<le> length (buf_value ?b)"
    and h: "state_handler behind p t (buf_value ?b ! buf_pointer ?b) = Ret (p', t', n)"
    by (auto simp: scan_step_def Let_def bind_exec_Ret_iff split: if_splits)
  show "ps_state p1 = S0 \<and> error_code p1 = error_code p" if "tk_type t1 \<notin> {TK_NONE, TK_ERROR}"
    using assms that b h valid_token_state [OF h assms(2)] by (auto simp: scan_step_def Let_def split: if_splits)
  show "error_code p1 = error_code p" if "tk_type t1 = TK_NONE"
  proof -
    have "tk_type t' = TK_NONE" using assms that b h by (auto simp: scan_step_def Let_def split: if_splits)
    then have "error_code p' = error_code p"
      using h by (auto simp: state_handler_def deal_defs Let_def split: hc_state.splits if_splits)
    then show ?thesis using assms that b h by (auto simp: scan_step_def Let_def split: if_splits)
  qed
  show "length (pending p1 reads) < length (pending p reads)"
    if s: "ps_state p = S0" and l: "length (tk_value t) + 1 < HC_PROTOCOL_MAX_LEN"
  proof -
    have n: "n = 1" using h s by (auto simp: state_handler_def deal_S0_def reject_def split: if_splits)
    have "pending p1 reads = drop 1 (pending p reads)"
      using assms b h n l state_handler_cases [OF h] take_drop_ahead [of "buf_pointer ?b" 1 "buf_last ?b" "buf_value ?b"]
      by (auto simp: scan_step_def pending_def Let_def)
    moreover obtain m reads' where "pending p reads = drop m (pending p reads)" "pending p reads \<noteq> []"
      using scan_step_pending [OF assms(1), of reads] by (metis drop_0)
    ultimately show ?thesis by (cases "pending p reads") auto
  qed
qed

lemma scan_loop_consumes:
  assumes "scan_loop behind p t reads = Ret (Some (p1, t1, reads1))" and "tk_type t = TK_NONE"
  shows "length (pending p1 reads1) \<le> length (pending p reads)"
    and "ps_state p = S0 \<Longrightarrow> length (tk_value t) + 1 < HC_PROTOCOL_MAX_LEN \<Longrightarrow> length (pending p1 reads1) < length (pending p reads)"
    and "tk_type t1 \<notin> {TK_NONE, TK_ERROR} \<Longrightarrow> ps_state p1 = S0 \<and> error_code p1 = error_code p"
  using assms
proof (induction behind p t reads rule: scan_loop.induct)
  case (1 behind p t reads)
  {
    assume l: "scan_loop behind p t reads = Ret (Some (p1, t1, reads1))" and k: "tk_type t = TK_NONE"
    from l obtain q r where f: "refill p reads = Some (q, r)" by (subst (asm) scan_loop.simps) (auto split: option.splits)
    then obtain p2 t2 where s: "scan_step behind q t = Ret (p2, t2)"
      and rest: "if tk_type t2 \<noteq> TK_NONE then p1 = p2 \<and> t1 = t2 \<and> reads1 = r else scan_loop behind p2 t2 r = Ret (Some (p1, t1, reads1))"
      using l by (subst (asm) (1) scan_loop.simps) (auto simp: bind_exec_Ret_iff split: if_splits)
    have q: "pending q r = pending p reads" "ps_state q = ps_state p" "error_code q = error_code p"
      using refill_Some [OF f] by auto
    have le: "length (pending p2 r) \<le> length (pending p reads)"
      using scan_step_pending [OF s, of r] q(1) by auto
    note IH = "1.IH" [OF f refl s refl]
    have a: "length (pending p1 reads1) \<le> length (pending p2 r)"
      using rest IH(1) by (auto split: if_splits)
    have "length (pending p1 reads1) \<le> length (pending p reads)" using a le by simp
    moreover have "length (pending p1 reads1) < length (pending p reads)"
      if "ps_state p = S0" "length (tk_value t) + 1 < HC_PROTOCOL_MAX_LEN"
      using a scan_step_end(3) [OF s k, of r] that q by simp
    moreover have "ps_state p1 = S0 \<and> error_code p1 = error_code p" if "tk_type t1 \<notin> {TK_NONE, TK_ERROR}"
      using scan_step_end(1,2) [OF s k] rest IH(3) that q(3) by (auto split: if_splits)
    ultimately have "length (pending p1 reads1) \<le> length (pending p reads)
      \<and> (ps_state p = S0 \<longrightarrow> length (tk_value t) + 1 < HC_PROTOCOL_MAX_LEN \<longrightarrow> length (pending p1 reads1) < length (pending p reads))
      \<and> (tk_type t1 \<notin> {TK_NONE, TK_ERROR} \<longrightarrow> ps_state p1 = S0 \<and> error_code p1 = error_code p)" by blast
  }
  note all = this
  { case 1 then show ?case using all by blast }
  { case 2 then show ?case using all by blast }
  { case 3 then show ?case using all by blast }
qed

lemma scan_consumes:
  assumes "msg_parser_scan behind p reads = Ret (Some (code, p1, t1, reads1))"
  shows "length (pending p1 reads1) < length (pending p reads)
      \<or> length (pending p1 reads1) = length (pending p reads) \<and> dirty p = 1"
    and "valid_token t1 \<Longrightarrow> dirty p1 = 0"
proof -
  have l: "length (tk_value reset_token) + 1 < HC_PROTOCOL_MAX_LEN" "tk_type reset_token = TK_NONE"
    by (simp_all add: reset_token_def HC_PROTOCOL_MAX_LEN_def)
  show "length (pending p1 reads1) < length (pending p reads)
      \<or> length (pending p1 reads1) = length (pending p reads) \<and> dirty p = 1"
  proof (cases "error_code p = S_NONE")
    case False
    then show ?thesis using assms by (simp add: msg_parser_scan_def dirty_def)
  next
    case True
    then have s: "scan_loop behind p reset_token reads = Ret (Some (p1, t1, reads1))"
      using assms by (auto simp: msg_parser_scan_def bind_exec_Ret_iff)
    show ?thesis using scan_loop_consumes(1,2) [OF s l(2)] l True by (cases "ps_state p = S0") (auto simp: dirty_def)
  qed
  show "dirty p1 = 0" if v: "valid_token t1"
  proof -
    have e: "error_code p = S_NONE"
    proof (rule ccontr)
      assume "error_code p \<noteq> S_NONE"
      then show False using assms v by (auto simp: msg_parser_scan_def valid_token_def reset_token_def)
    qed
    then have "scan_loop behind p reset_token reads = Ret (Some (p1, t1, reads1))"
      using assms by (auto simp: msg_parser_scan_def bind_exec_Ret_iff)
    from scan_loop_consumes(3) [OF this l(2)] v e show ?thesis by (auto simp: dirty_def valid_token_def)
  qed
qed

lemma pending_clear_error [simp]: "pending (clear_error p) reads = pending p reads" "dirty (clear_error p) = 0"
  by (simp_all add: pending_def clear_error_def dirty_def)

text \<open>The inner loop of \<open>node_start\<close>: scan until a valid token, dropping errors, and hand it to the callback.\<close>

function node_cycle :: "u8 \<Rightarrow> hc_parser \<Rightarrow> u8 list list \<Rightarrow> (hc_parser \<times> published option \<times> u8 list list) option exec" where
  "node_cycle behind p reads =
     bind_exec (msg_parser_scan behind p reads) (\<lambda>r.
       case r of
         None \<Rightarrow> Ret None
       | Some (code, p1, t1, reads1) \<Rightarrow>
           if valid_token t1 then Ret (Some (p1, msg_recv_callback t1, reads1))
           else node_cycle behind (clear_error p1) reads1)"
  by pat_completeness auto

termination
proof (relation "measures [\<lambda>(behind, p, reads). length (pending p reads), \<lambda>(behind, p, reads). dirty p]", simp, goal_cases)
  case (1 behind p reads r s code q p1 q1 t1 reads1)
  then show ?case using scan_consumes(1) [of behind p reads code p1 t1 reads1] by auto
qed

declare node_cycle.simps [simp del]

lemma node_cycle_consumes:
  assumes "node_cycle behind p reads = Ret (Some (p1, pub, reads1))"
  shows "length (pending p1 reads1) < length (pending p reads)
      \<or> length (pending p1 reads1) = length (pending p reads) \<and> dirty p1 < dirty p"
  using assms
proof (induction behind p reads rule: node_cycle.induct)
  case (1 behind p reads)
  note u = "1.prems" [unfolded node_cycle.simps [of behind p reads]]
  from u obtain x where x: "msg_parser_scan behind p reads = Ret (Some x)"
    by (auto simp: bind_exec_Ret_iff split: option.splits)
  obtain code q t r where x': "x = (code, q, t, r)" by (cases x)
  note s = x [unfolded x']
  have rest: "if valid_token t then p1 = q \<and> reads1 = r else node_cycle behind (clear_error q) r = Ret (Some (p1, pub, reads1))"
    using u s by (simp split: if_splits del: msg_recv_callback.simps)
  show ?case
  proof (cases "valid_token t")
    case True
    then show ?thesis using rest scan_consumes [OF s] by auto
  next
    case False
    then have "length (pending p1 reads1) < length (pending q r)"
      using "1.IH" [OF s refl refl refl refl] rest by auto
    then show ?thesis using scan_consumes(1) [OF s] by auto
  qed
qed

text \<open>The outer loop: everything the node publishes until the device has nothing more.\<close>

function node_run :: "u8 \<Rightarrow> hc_parser \<Rightarrow> u8 list list \<Rightarrow> published list exec" where
  "node_run behind p reads =
     bind_exec (node_cycle behind p reads) (\<lambda>r.
       case r of
         None \<Rightarrow> Ret []
       | Some (p1, pub, reads1) \<Rightarrow>
           bind_exec (node_run behind p1 reads1) (\<lambda>ps. Ret (case pub of None \<Rightarrow> ps | Some x \<Rightarrow> x # ps)))"
  by pat_completeness auto

termination
proof (relation "measures [\<lambda>(behind, p, reads). length (pending p reads), \<lambda>(behind, p, reads). dirty p]", simp, goal_cases)
  case (1 behind p reads r s p1 q pub reads1)
  then show ?case using node_cycle_consumes [of behind p reads p1 pub reads1] by auto
qed

declare node_run.simps [simp del]

section \<open>The frames that are published\<close>

definition clean :: "hc_parser \<Rightarrow> bool" where
  "clean p \<longleftrightarrow> buffer_ok p \<and> ps_state p = S0 \<and> error_code p = S_NONE"

lemma node_cycle_frame:
  assumes "clean p" and "pending p reads = m @ rest" and "frame_of k m" and "length m < HC_PROTOCOL_MAX_LEN"
    and "k = TK_NMEA_MGS \<Longrightarrow> behind = 0"
  obtains p1 reads1 where "node_cycle behind p reads = Ret (Some (p1, msg_recv_callback \<lparr>tk_type = k, tk_value = m\<rparr>, reads1))"
    and "clean p1" and "pending p1 reads1 = rest"
proof -
  have c: "buffer_ok p" "ps_state p = S0" "error_code p = S_NONE" using assms(1) by (simp_all add: clean_def)
  from scan_frame [OF assms(3,4) c(2) assms(5), of rest]
  have "scan_bytes behind p reset_token (pending p reads) = Ret (Some
      (p\<lparr>ps_state := S0, specified_len := 0\<rparr>, \<lparr>tk_type = k, tk_value = m\<rparr>, rest))"
    by (simp add: assms(2))
  from scan_loop_bytes [OF c(1) this] obtain p1 reads1 where
    s: "scan_loop behind p reset_token reads = Ret (Some (p1, \<lparr>tk_type = k, tk_value = m\<rparr>, reads1))" "buffer_ok p1"
      "pending p1 reads1 = rest" "ps_state p1 = S0" "error_code p1 = error_code p" by auto
  have "valid_token \<lparr>tk_type = k, tk_value = m\<rparr>" using assms(3) by (cases k) (auto simp: valid_token_def)
  then show ?thesis using s c(3)
    by (intro that [of p1 reads1])
      (auto simp: clean_def node_cycle.simps [of behind p] msg_parser_scan_def simp del: msg_recv_callback.simps)
qed

lemma node_cycle_junk:
  assumes "clean p" and "pending p reads = c # rest" and "c \<noteq> 0xAA" and "c \<noteq> 0x24"
  obtains p1 reads1 where "node_cycle behind p reads = node_cycle behind p1 reads1" and "clean p1" and "pending p1 reads1 = rest"
proof -
  have c: "buffer_ok p" "ps_state p = S0" "error_code p = S_NONE" using assms(1) by (simp_all add: clean_def)
  from scan_junk [OF c(2) assms(3,4), of behind rest]
  have "scan_bytes behind p reset_token (pending p reads) = Ret (Some
      (p\<lparr>error_code := S0\<rparr>, \<lparr>tk_type = TK_ERROR, tk_value = [c]\<rparr>, rest))"
    by (simp add: assms(2))
  from scan_loop_bytes [OF c(1) this] obtain p1 reads1 where
    s: "scan_loop behind p reset_token reads = Ret (Some (p1, \<lparr>tk_type = TK_ERROR, tk_value = [c]\<rparr>, reads1))" "buffer_ok p1"
      "pending p1 reads1 = rest" by blast
  have "node_cycle behind p reads = node_cycle behind (clear_error p1) reads1"
    using s(1) c(3) by (simp add: node_cycle.simps [of behind p] msg_parser_scan_def valid_token_def)
  then show ?thesis using s(2,3) by (intro that [of "clear_error p1" reads1]) (auto simp: clean_def clear_error_def buffer_ok_def pending_def)
qed

lemma node_cycle_skips:
  assumes "clean p" and "pending p reads = junk @ rest" and "\<forall>c \<in> set junk. c \<noteq> 0xAA \<and> c \<noteq> 0x24"
  obtains p1 reads1 where "node_cycle behind p reads = node_cycle behind p1 reads1" and "clean p1" and "pending p1 reads1 = rest"
  using assms
proof (induction junk arbitrary: p reads thesis)
  case Nil
  then show ?case by simp
next
  case (Cons c junk)
  from node_cycle_junk [OF Cons.prems(2), of reads c "junk @ rest" behind] Cons.prems(3,4) obtain p1 reads1 where
    p1: "node_cycle behind p reads = node_cycle behind p1 reads1" "clean p1" "pending p1 reads1 = junk @ rest" by auto
  from Cons.IH [OF _ p1(2,3)] Cons.prems(4) obtain p2 reads2 where
    "node_cycle behind p1 reads1 = node_cycle behind p2 reads2" "clean p2" "pending p2 reads2 = rest" by auto
  then show ?case using Cons.prems(1) p1(1) by simp
qed

lemma node_cycle_waits:
  assumes "clean p" and "pending p reads = []"
  shows "node_cycle behind p reads = Ret None"
proof -
  have "map_exec (map_option (\<lambda>(p1, t1, reads1). (p1\<lparr>buffer := buffer p\<rparr>, t1, pending p1 reads1)))
      (scan_loop behind p reset_token reads) = Ret None"
    using scan_ignores_reads [of p "buffer p" behind reset_token reads] assms by (simp add: clean_def)
  then have "scan_loop behind p reset_token reads = Ret None"
    by (cases "scan_loop behind p reset_token reads") auto
  then show ?thesis using assms(1) by (simp add: node_cycle.simps [of behind p] msg_parser_scan_def clean_def)
qed

definition no_start :: "u8 list \<Rightarrow> bool" where
  "no_start bs \<longleftrightarrow> (\<forall>c \<in> set bs. c \<noteq> 0xAA \<and> c \<noteq> 0x24)"

definition option_list :: "'a option \<Rightarrow> 'a list" where
  "option_list x = (case x of None \<Rightarrow> [] | Some y \<Rightarrow> [y])"

definition frames_between :: "(u8 list \<times> token_type \<times> u8 list) list \<Rightarrow> u8 list" where
  "frames_between parts = concat (map (\<lambda>(junk, k, m). junk @ m) parts)"

lemma node_cycle_lost:
  assumes "clean p" and "pending p reads = m @ rest" and "nmea_frame m" and "behind \<noteq> 0" and "no_start (drop 6 m)"
  obtains p1 reads1 where "node_cycle behind p reads = node_cycle behind p1 reads1" and "clean p1" and "pending p1 reads1 = rest"
proof -
  have c: "buffer_ok p" "ps_state p = S0" "error_code p = S_NONE" using assms(1) by (simp_all add: clean_def)
  from scan_nmea_lost [OF assms(3) c(2) assms(4), of rest]
  have "scan_bytes behind p reset_token (pending p reads) = Ret (Some
      (p\<lparr>ps_state := S19, specified_len := 0, error_code := S19\<rparr>, \<lparr>tk_type = TK_ERROR, tk_value = take 6 m\<rparr>, drop 6 m @ rest))"
    by (simp add: assms(2))
  from scan_loop_bytes [OF c(1) this] obtain q r where
    s: "scan_loop behind p reset_token reads = Ret (Some (q, \<lparr>tk_type = TK_ERROR, tk_value = take 6 m\<rparr>, r))" "buffer_ok q"
      "pending q r = drop 6 m @ rest" by blast
  have e: "node_cycle behind p reads = node_cycle behind (clear_error q) r"
    using s(1) c(3) by (simp add: node_cycle.simps [of behind p] msg_parser_scan_def valid_token_def)
  have "clean (clear_error q)" "pending (clear_error q) r = drop 6 m @ rest"
    using s(2,3) by (auto simp: clean_def clear_error_def buffer_ok_def pending_def)
  from node_cycle_skips [OF this, of behind] assms(5) obtain p1 reads1 where
    "node_cycle behind (clear_error q) r = node_cycle behind p1 reads1" "clean p1" "pending p1 reads1 = rest"
    by (auto simp: no_start_def)
  then show ?thesis using that e by simp
qed

text \<open>What the node makes of the frames: a sentence is lost when the byte behind the array of \<open>deal_S19\<close> is not zero.\<close>

definition published_of :: "u8 \<Rightarrow> (u8 list \<times> token_type \<times> u8 list) list \<Rightarrow> published list" where
  "published_of behind parts = concat (map (\<lambda>(_, k, m).
     if k = TK_NMEA_MGS \<and> behind \<noteq> 0 then [] else option_list (msg_recv_callback \<lparr>tk_type = k, tk_value = m\<rparr>)) parts)"

lemma node_run_frames:
  assumes "clean p" and "pending p reads = frames_between parts @ junk" and "no_start junk"
    and "\<forall>(j, k, m) \<in> set parts. no_start j \<and> frame_of k m \<and> length m < HC_PROTOCOL_MAX_LEN
      \<and> (k = TK_NMEA_MGS \<and> behind \<noteq> 0 \<longrightarrow> no_start (drop 6 m))"
  shows "node_run behind p reads = Ret (published_of behind parts)"
  using assms(1,2,4)
proof (induction parts arbitrary: p reads)
  case Nil
  from node_cycle_skips [OF Nil.prems(1), of reads junk "[]" behind] Nil.prems(2) assms(3)
  obtain p1 reads1 where "node_cycle behind p reads = node_cycle behind p1 reads1" "clean p1" "pending p1 reads1 = []"
    by (auto simp: frames_between_def no_start_def)
  then show ?case using node_cycle_waits [of p1 reads1 behind] by (simp add: node_run.simps [of behind p] published_of_def)
next
  case (Cons part parts)
  obtain j k m where part: "part = (j, k, m)" by (cases part)
  have ok: "no_start j" "frame_of k m" "length m < HC_PROTOCOL_MAX_LEN" "k = TK_NMEA_MGS \<and> behind \<noteq> 0 \<Longrightarrow> no_start (drop 6 m)"
    "\<forall>(j, k, m) \<in> set parts. no_start j \<and> frame_of k m \<and> length m < HC_PROTOCOL_MAX_LEN
      \<and> (k = TK_NMEA_MGS \<and> behind \<noteq> 0 \<longrightarrow> no_start (drop 6 m))"
    using Cons.prems(3) by (auto simp: part)
  have "pending p reads = j @ (m @ frames_between parts @ junk)"
    using Cons.prems(2) by (simp add: part frames_between_def)
  from node_cycle_skips [OF Cons.prems(1) this, of behind] ok(1) obtain p1 reads1 where
    p1: "node_cycle behind p reads = node_cycle behind p1 reads1" "clean p1" "pending p1 reads1 = m @ frames_between parts @ junk"
    by (auto simp: no_start_def)
  show ?case
  proof (cases "k = TK_NMEA_MGS \<and> behind \<noteq> 0")
    case True
    then have f: "nmea_frame m" using ok(2) by simp
    from node_cycle_lost [OF p1(2,3) f _ ok(4)] True obtain p2 reads2 where
      p2: "node_cycle behind p1 reads1 = node_cycle behind p2 reads2" "clean p2" "pending p2 reads2 = frames_between parts @ junk"
      by blast
    have "node_run behind p reads = node_run behind p2 reads2"
      using p1(1) p2(1) by (simp add: node_run.simps [of behind p] node_run.simps [of behind p2])
    then show ?thesis using Cons.IH [OF p2(2,3) ok(5)] True by (simp add: part published_of_def)
  next
    case False
    then have b: "k = TK_NMEA_MGS \<Longrightarrow> behind = 0" by blast
    from node_cycle_frame [OF p1(2,3) ok(2,3) b] obtain p2 reads2 where
      p2: "node_cycle behind p1 reads1 = Ret (Some (p2, msg_recv_callback \<lparr>tk_type = k, tk_value = m\<rparr>, reads2))"
        "clean p2" "pending p2 reads2 = frames_between parts @ junk" by blast
    show ?thesis using Cons.IH [OF p2(2,3) ok(5)] p1(1) p2(1) False
      by (simp add: node_run.simps [of behind p] part published_of_def option_list_def split: option.split del: msg_recv_callback.simps)
  qed
qed

lemma pending_of_start:
  assumes "\<forall>r \<in> set reads. length r \<le> n"
  shows "clean (init_msg_parser n buf len)" and "pending (init_msg_parser n buf len) reads = concat reads"
proof -
  show "clean (init_msg_parser n buf len)" by (simp add: clean_def init_ok)
  have "filter (\<lambda>r. length r \<le> n) reads = reads" using assms by simp
  then show "pending (init_msg_parser n buf len) reads = concat reads" by (simp add: init_ok)
qed

text \<open>C6: The frames the node hands to \<open>msg_recv_callback\<close>, and those it loses. Let the device deliver frames of the
  three protocols, each shorter than the 1024 bytes of a token, with anything between them that holds neither of the
  two start bytes, cut into reads in any way that fits the buffer. Then the node that starts with an empty buffer
  hands every frame of the two binary protocols to the callback, exactly once and in order, and publishes what that
  accepts. With NMEA sentences it depends on the byte behind the two characters that \<open>deal_S19\<close> compares with
  \<open>strcmp\<close>: if that byte is zero they reach the callback in their place like the others; if it is not, and the rest
  of the sentence holds no start byte, every sentence is dropped and the binary frames are unaffected.\<close>

theorem node_publishes_frames:
  assumes "\<forall>r \<in> set reads. length r \<le> n" and "concat reads = frames_between parts @ junk" and "no_start junk"
    and "\<forall>(j, k, m) \<in> set parts. no_start j \<and> frame_of k m \<and> length m < HC_PROTOCOL_MAX_LEN
      \<and> (k = TK_NMEA_MGS \<and> behind \<noteq> 0 \<longrightarrow> no_start (drop 6 m))"
  shows "node_run behind (init_msg_parser n buf len) reads =
    Ret (concat (map (\<lambda>(_, k, m). if k = TK_NMEA_MGS \<and> behind \<noteq> 0 then []
      else option_list (msg_recv_callback \<lparr>tk_type = k, tk_value = m\<rparr>)) parts))"
  using node_run_frames [OF pending_of_start(1) [OF assms(1)] _ assms(3,4)] assms(2) pending_of_start(2) [OF assms(1)]
  by (simp add: published_of_def)

section \<open>The NMEA checksum\<close>

definition xor_sum :: "u8 list \<Rightarrow> u8" where
  "xor_sum s = fold (\<lambda>c acc. acc XOR c) s 0"

lemma fold_xor: "fold (\<lambda>c acc. acc XOR c) s a = a XOR xor_sum s" for a :: u8
proof (induction s arbitrary: a)
  case (Cons c s)
  have "xor_sum (c # s) = c XOR xor_sum s" using Cons.IH [of c] by (simp add: xor_sum_def)
  then show ?case using Cons.IH [of "a XOR c"] by (simp add: ac_simps)
qed (simp add: xor_sum_def)

lemma xor_sum_simps: "xor_sum [] = 0" "xor_sum (c # s) = c XOR xor_sum s" "xor_sum (s @ t) = xor_sum s XOR xor_sum t"
  by (simp_all add: xor_sum_def) (simp_all add: fold_xor)

lemma nmea_xor_sum: "length t = 5 \<Longrightarrow> nmea_xor (0x24 # s @ t) = xor_sum s"
  by (simp add: nmea_xor_def fold_xor xor_sum_simps)

definition sentence_bytes :: "u8 list \<Rightarrow> u8 \<Rightarrow> u8 \<Rightarrow> u8 list" where
  "sentence_bytes s h1 h2 = 0x24 # s @ [0x2A, h1, h2, 0x0D, 0x0A]"

lemma recv_sentence:
  "recv_nmea (sentence_bytes s h1 h2) =
     (if strtol_hex h1 h2 = unat (xor_sum s) then Some (Nmea_sentence (takeWhile (\<lambda>c. c \<noteq> 0) (0x24 # s @ [0x2A, h1, h2]))) else None)"
proof -
  let ?t = "[0x2A, h1, h2, 0x0D, 0x0A]"
  have x: "nmea_xor (sentence_bytes s h1 h2) = xor_sum s" unfolding sentence_bytes_def by (rule nmea_xor_sum) simp
  have n: "length (sentence_bytes s h1 h2) = length s + 6" by (simp add: sentence_bytes_def)
  have a: "(0x24 # s @ ?t) ! (length s + 2) = h1" "(0x24 # s @ ?t) ! (length s + 3) = h2"
    "(0x24 # s @ ?t) ! (length s + 4) = 0x0D" "(0x24 # s @ ?t) ! (length s + 5) = 0x0A"
    "take (4 + length s) (0x24 # s @ ?t) = 0x24 # s @ [0x2A, h1, h2]"
    by (simp_all add: nth_append nth_Cons' take_Cons')
  show ?thesis unfolding recv_nmea_def n x Let_def using a by (simp add: sentence_bytes_def)
qed

text \<open>A sentence with one corrupted character is never published. If the checksum of a sentence is right, then it
  is published without its line end, and the same sentence with any other character at one place between the dollar
  sign and the star is rejected.\<close>

theorem corrupted_sentence_rejected:
  assumes "strtol_hex h1 h2 = unat (xor_sum (a @ c # b))" and "c \<noteq> c'" and "0 \<notin> set (a @ c # b)" and "h1 \<noteq> 0" and "h2 \<noteq> 0"
  shows "recv_nmea (sentence_bytes (a @ c # b) h1 h2) = Some (Nmea_sentence (0x24 # (a @ c # b) @ [0x2A, h1, h2]))
    \<and> recv_nmea (sentence_bytes (a @ c' # b) h1 h2) = None"
proof -
  have "takeWhile (\<lambda>c. c \<noteq> 0) (0x24 # (a @ c # b) @ [0x2A, h1, h2]) = 0x24 # (a @ c # b) @ [0x2A, h1, h2]"
    using assms(3-5) by (subst takeWhile_eq_all_conv) auto
  moreover have "xor_sum (a @ c' # b) \<noteq> xor_sum (a @ c # b)"
  proof
    assume "xor_sum (a @ c' # b) = xor_sum (a @ c # b)"
    then have "xor_sum a XOR (c' XOR xor_sum b) = xor_sum a XOR (c XOR xor_sum b)" by (simp add: xor_sum_simps)
    then have "(xor_sum a XOR xor_sum b) XOR ((xor_sum a XOR xor_sum b) XOR c')
        = (xor_sum a XOR xor_sum b) XOR ((xor_sum a XOR xor_sum b) XOR c)" by (simp add: ac_simps)
    then show False using assms(2) by (simp flip: xor.assoc)
  qed
  then have "strtol_hex h1 h2 \<noteq> unat (xor_sum (a @ c' # b))" using assms(1) by (simp add: word_unat_eq_iff)
  ultimately show ?thesis using assms(1) by (simp add: recv_sentence)
qed

text \<open>The identifier of a CGI message is read with signed characters.\<close>

lemma cgi_msg_id_small:
  assumes "tok_at t 6 < 0x80" and "tok_at t 7 < 0x80"
  shows "unat (cgi_msg_id t) = unat (tok_at t 7) * 256 + unat (tok_at t 6)"
proof -
  have s: "sint x = int (unat x)" if "x < 0x80" for x :: u8
  proof -
    have "uint x < 2 ^ 7" using that by (simp add: word_less_def)
    moreover have "- (2 ^ 7) \<le> uint x" using unsigned_greater_eq [of x] by (rule order_trans [rotated]) simp
    ultimately show ?thesis using signed_take_bit_int_eq_self [of 7 "uint x"] by (simp add: sint_uint)
  qed
  have "unat (tok_at t 7) < 128" "unat (tok_at t 6) < 128" using assms by (simp_all add: word_less_nat_alt)
  then have "unat (of_nat (unat (tok_at t 7) * 256 + unat (tok_at t 6)) :: u16) = unat (tok_at t 7) * 256 + unat (tok_at t 6)"
    unfolding unat_of_nat by simp
  moreover have "cgi_msg_id t = of_nat (unat (tok_at t 7) * 256 + unat (tok_at t 6))"
    unfolding cgi_msg_id_def s [OF assms(1)] s [OF assms(2)] by simp
  ultimately show ?thesis by simp
qed

section \<open>Examples\<close>

definition ex_sentence :: "u8 list" where
  "ex_sentence = [0x47, 0x50, 0x5A, 0x44, 0x41, 0x2C, 0x31]"

theorem corrupted_sentence_rejected_witness:
  "recv_nmea (sentence_bytes (ex_sentence @ [0x32]) 0x36 0x35) = None"
  using corrupted_sentence_rejected [of "0x36" "0x35" ex_sentence "0x30" "[]" "0x32"]
  by (simp add: ex_sentence_def xor_sum_simps strtol_hex_def hex_digit_def)

text \<open>The stream of the example: two IMU messages, and between them a sentence that the byte 1 loses.\<close>

theorem node_publishes_frames_witness:
  "node_run 1 (init_msg_parser 40 [] 0) [[1, 2, 0xAA], [], tl ex_short, sentence_bytes ex_sentence 0x36 0x34, [9], ex_short]
     = Ret [Hc_sentence 0x102 ex_short, Hc_sentence 0x102 ex_short]"
proof -
  let ?s = "sentence_bytes ex_sentence 0x36 0x34"
  have c: "msg_recv_callback \<lparr>tk_type = TK_HC_SHORT_MSG, tk_value = ex_short\<rparr> = Some (Hc_sentence 0x102 ex_short)"
    by (simp add: recv_cgi_def cgi_msg_id_def tok_at_def ex_short_def)
  have l: "length ex_short = 34" "0xAA # tl ex_short = ex_short" by (simp_all add: ex_short_def)
  have "nmea_frame ?s"
    unfolding nmea_frame_def
    by (intro exI [of _ "[0x47, 0x50, 0x5A, 0x44, 0x41]"] exI [of _ "[0x31]"] exI [of _ "[0x36, 0x34, 0x0D, 0x0A]"])
      (simp add: sentence_bytes_def ex_sentence_def nmea_head_def nmea_char_def)
  then have s: "frame_of TK_NMEA_MGS ?s" "length ?s < HC_PROTOCOL_MAX_LEN" "no_start (drop 6 ?s)" "length ?s \<le> 40"
    by (simp_all add: sentence_bytes_def ex_sentence_def no_start_def HC_PROTOCOL_MAX_LEN_def)
  have "node_run 1 (init_msg_parser 40 [] 0) [[1, 2, 0xAA], [], tl ex_short, ?s, [9], ex_short]
      = Ret (concat (map (\<lambda>(_, k, m). if k = TK_NMEA_MGS \<and> (1 :: u8) \<noteq> 0 then []
          else option_list (msg_recv_callback \<lparr>tk_type = k, tk_value = m\<rparr>))
          [([1, 2 :: u8], TK_HC_SHORT_MSG, ex_short), ([], TK_NMEA_MGS, ?s), ([9], TK_HC_SHORT_MSG, ex_short)]))"
    by (rule node_publishes_frames [where junk = "[]"])
      (use s in \<open>auto simp: frames_between_def no_start_def ex_short_frame HC_PROTOCOL_MAX_LEN_def l\<close>)
  then show ?thesis using c by (simp add: option_list_def del: msg_recv_callback.simps)
qed

end
