(* ===== verification/Chc_Cgi.thy ===== *)
theory Chc_Cgi
  imports Chc_Node Gnss_Adapter
begin

text \<open>
  The node that decodes the receiver's CGI messages, \<^verbatim>\<open>chcnav/src/hc_cgi_protocol_process_node/\<close>: the checksum of
  \<^verbatim>\<open>hc_cgi_protocol.c\<close> and the callbacks of \<^verbatim>\<open>HcCgiProtocolProcessNode.cpp\<close>. The host is little-endian and its
  \<open>float\<close> and \<open>double\<close> are IEEE 754, as the casts of the code require. Published messages are the result. Of
  \<open>rclcpp::Time\<close>, which is not in the repository, only the conversion to the message's time is a parameter, and so are
  the rounding of \<open>double\<close> where a time stamp is computed and the quaternion of three angles.
\<close>

section \<open>Checksum\<close>

definition crc_bit :: "u32 \<Rightarrow> u32" where
  "crc_bit x = (if x AND 1 \<noteq> 0 then drop_bit 1 x XOR 0xEDB88320 else drop_bit 1 x)"

definition return_crc32_value :: "u32 \<Rightarrow> u32" where
  "return_crc32_value i = (crc_bit ^^ 8) i"

fun get_crc32_value :: "u8 list \<Rightarrow> u32 \<Rightarrow> u32" where
  "get_crc32_value [] ulCRC = ulCRC"
| "get_crc32_value (b # bs) ulCRC =
     get_crc32_value bs ((drop_bit 8 ulCRC AND 0x00FFFFFF) XOR return_crc32_value ((ulCRC XOR ucast b) AND 0xFF))"

fun le_bytes :: "u8 list \<Rightarrow> nat" where
  "le_bytes [] = 0"
| "le_bytes (b # bs) = unat b + 256 * le_bytes bs"

text \<open>Below four bytes the position of the checksum wraps around.\<close>

definition check_crc32 :: "u8 list \<Rightarrow> bool exec" where
  "check_crc32 data =
     (let len = length data
      in if len < 4 then Undef
         else Ret (le_bytes (drop (len - 4) data) = unat (get_crc32_value (take (len - 4) data) 0)))"

text \<open>The bit-serial division: one step of the shift register for every bit of the message.\<close>

definition crc_serial :: "u8 list \<Rightarrow> u32 \<Rightarrow> u32" where
  "crc_serial bs s = fold (\<lambda>b s. (crc_bit ^^ 8) (s XOR ucast b)) bs s"

lemma and_one_bit: "z AND 1 \<noteq> 0 \<longleftrightarrow> bit z 0" for z :: u32
  by (simp add: bit_0 and_one_eq odd_iff_mod_2_eq_one)

lemma crc_bit_xor: "crc_bit (x XOR y) = crc_bit x XOR crc_bit y"
  unfolding crc_bit_def and_one_bit by (rule bit_word_eqI) (auto simp: bit_simps)

lemma crc_bits_xor: "(crc_bit ^^ n) (x XOR y) = (crc_bit ^^ n) x XOR (crc_bit ^^ n) y"
  by (induction n) (simp_all add: crc_bit_xor)

lemma crc_bit_zero: "crc_bit x = 0 \<Longrightarrow> x = 0"
proof -
  assume z: "crc_bit x = 0"
  have "\<not> bit x 0"
  proof
    assume "bit x 0"
    then have "bit (drop_bit 1 x XOR 0xEDB88320) 31 = bit (0 :: u32) 31" using z by (simp add: crc_bit_def and_one_bit)
    then show False by (auto simp: bit_simps dest: bit_imp_le_length)
  qed
  with z have d: "drop_bit 1 x = 0" by (simp add: crc_bit_def and_one_bit)
  show "x = 0"
  proof (rule bit_word_eqI)
    fix n assume "n < LENGTH(32)"
    show "bit x n = bit (0 :: u32) n"
    proof (cases n)
      case 0
      then show ?thesis using \<open>\<not> bit x 0\<close> by simp
    next
      case (Suc k)
      have "bit (drop_bit 1 x) k = bit (0 :: u32) k" by (simp only: d)
      then show ?thesis using Suc by (simp add: bit_simps)
    qed
  qed
qed

lemma crc_bits_inj: "(crc_bit ^^ n) x = (crc_bit ^^ n) y \<Longrightarrow> x = y"
proof -
  have z: "(crc_bit ^^ n) z = 0 \<Longrightarrow> z = 0" for z
    by (induction n) (auto dest: crc_bit_zero)
  assume "(crc_bit ^^ n) x = (crc_bit ^^ n) y"
  then have "(crc_bit ^^ n) (x XOR y) = 0" by (simp add: crc_bits_xor)
  from z [OF this] have "x XOR (x XOR y) = x" by simp
  then show "x = y" by (simp flip: xor.assoc)
qed

text \<open>A value without low bits is only shifted.\<close>

lemma crc_bits_high: "take_bit n x = 0 \<Longrightarrow> (crc_bit ^^ n) x = drop_bit n x"
proof (induction n arbitrary: x)
  case (Suc n)
  have e: "\<not> bit x 0" using Suc.prems by (metis bit_0_eq bit_take_bit_iff zero_less_Suc bot_apply bot_bool_def)
  have b: "x AND 1 = 0" using e and_one_bit by blast
  have "take_bit n (drop_bit 1 x) = 0"
    using Suc.prems by (metis add.commute drop_bit_take_bit drop_bit_of_0 plus_1_eq_Suc take_bit_drop_bit)
  moreover have "crc_bit x = drop_bit 1 x" using b by (simp add: crc_bit_def)
  ultimately show ?case using Suc.IH [of "crc_bit x"] by (simp only: funpow_Suc_right comp_apply) simp
qed simp

text \<open>The code shifts the upper 24 bits at once and runs the register only over the low byte.\<close>

lemma crc_byte_step:
  "(drop_bit 8 crc AND 0x00FFFFFF) XOR return_crc32_value ((crc XOR ucast b) AND 0xFF) = (crc_bit ^^ 8) (crc XOR ucast b)"
  for b :: u8
proof -
  let ?y = "crc XOR ucast b :: u32"
  have m: "(0xFF :: u32) = mask 8" "(0x00FFFFFF :: u32) = mask 24" by (simp_all add: mask_eq_exp_minus_1)
  have split: "?y = (?y AND mask 8) XOR push_bit 8 (drop_bit 8 ?y)"
    by (rule bit_word_eqI) (auto simp: bit_simps)
  have "(crc_bit ^^ 8) ?y = (crc_bit ^^ 8) (?y AND mask 8) XOR (crc_bit ^^ 8) (push_bit 8 (drop_bit 8 ?y))"
    by (subst split) (rule crc_bits_xor)
  also have "(crc_bit ^^ 8) (push_bit 8 (drop_bit 8 ?y)) = drop_bit 8 (push_bit 8 (drop_bit 8 ?y))"
    by (rule crc_bits_high) (rule bit_word_eqI, auto simp: bit_simps)
  also have "drop_bit 8 (push_bit 8 (drop_bit 8 ?y)) = drop_bit 8 crc AND mask 24"
  proof -
    have "\<not> bit b (8 + n)" for n using bit_imp_le_length [of b "8 + n"] by auto
    then show ?thesis by (intro bit_word_eqI) (auto simp: bit_simps)
  qed
  finally show ?thesis unfolding return_crc32_value_def m by (simp add: ac_simps)
qed

lemma crc_serial_eq: "get_crc32_value bs s = crc_serial bs s"
  by (induction bs s rule: get_crc32_value.induct) (simp_all add: crc_serial_def crc_byte_step del: funpow.simps)

lemma crc_serial_inj: "crc_serial bs s = crc_serial bs s' \<Longrightarrow> s = s'"
proof (induction bs arbitrary: s s')
  case (Cons b bs)
  have "(crc_bit ^^ 8) (s XOR ucast b) = (crc_bit ^^ 8) (s' XOR ucast b)"
    using Cons.IH Cons.prems unfolding crc_serial_def fold_simps by blast
  then have "s XOR ucast b = s' XOR ucast b" by (rule crc_bits_inj)
  then have "(s XOR ucast b) XOR ucast b = (s' XOR ucast b) XOR ucast b" by simp
  then show ?case by (simp add: xor.assoc)
qed (simp add: crc_serial_def)

lemma ucast_byte_inj: "(ucast c :: u32) = ucast c' \<Longrightarrow> c = c'" for c c' :: u8
proof (rule bit_word_eqI)
  fix n assume "(ucast c :: u32) = ucast c'" and "n < LENGTH(8)"
  then have "bit (ucast c :: u32) n = bit (ucast c' :: u32) n" by (simp only:)
  then show "bit c n = bit c' n" using \<open>n < LENGTH(8)\<close> by (simp add: bit_simps)
qed

lemma crc_serial_append: "crc_serial (a @ b) s = crc_serial b (crc_serial a s)"
  by (simp add: crc_serial_def)

text \<open>C28: The checksum is the bit-serial CRC-32 and finds every corrupted byte. The bytewise \<open>get_crc32_value\<close> equals
  the shift register run over all bits of the message; so a message that passes \<open>hc__cgi_check_crc32\<close> no longer
  passes it when any one byte before the checksum is replaced by another.\<close>

theorem crc_detects_corrupted_byte:
  "get_crc32_value bs s = fold (\<lambda>b s. (crc_bit ^^ 8) (s XOR ucast b)) bs s
   \<and> (check_crc32 (a @ c # b @ crc4) = Ret True \<and> length crc4 = 4 \<and> c \<noteq> c' \<longrightarrow> check_crc32 (a @ c' # b @ crc4) = Ret False)"
proof
  show "get_crc32_value bs s = fold (\<lambda>b s. (crc_bit ^^ 8) (s XOR ucast b)) bs s"
    by (simp only: crc_serial_eq crc_serial_def)
  have check: "check_crc32 (a @ x # b @ crc4) = Ret (le_bytes crc4 = unat (crc_serial b ((crc_bit ^^ 8) (crc_serial a 0 XOR ucast x))))"
    if "length crc4 = 4" for x
  proof -
    have "get_crc32_value (a @ x # b) 0 = crc_serial b ((crc_bit ^^ 8) (crc_serial a 0 XOR ucast x))"
      unfolding crc_serial_eq crc_serial_append by (simp add: crc_serial_def del: funpow.simps)
    then show ?thesis using that by (simp add: check_crc32_def)
  qed
  show "check_crc32 (a @ c # b @ crc4) = Ret True \<and> length crc4 = 4 \<and> c \<noteq> c' \<longrightarrow> check_crc32 (a @ c' # b @ crc4) = Ret False"
  proof (intro impI, elim conjE)
    assume *: "check_crc32 (a @ c # b @ crc4) = Ret True" "length crc4 = 4" "c \<noteq> c'"
    have "crc_serial b ((crc_bit ^^ 8) (crc_serial a 0 XOR ucast c)) \<noteq> crc_serial b ((crc_bit ^^ 8) (crc_serial a 0 XOR ucast c'))"
    proof
      assume "crc_serial b ((crc_bit ^^ 8) (crc_serial a 0 XOR ucast c)) = crc_serial b ((crc_bit ^^ 8) (crc_serial a 0 XOR ucast c'))"
      then have "crc_serial a 0 XOR ucast c = crc_serial a 0 XOR ucast c'" by (rule crc_bits_inj [OF crc_serial_inj])
      then have "crc_serial a 0 XOR (crc_serial a 0 XOR ucast c) = crc_serial a 0 XOR (crc_serial a 0 XOR ucast c')" by simp
      then have "(ucast c :: u32) = ucast c'" by (simp flip: xor.assoc)
      then show False using *(3) ucast_byte_inj by blast
    qed
    then show "check_crc32 (a @ c' # b @ crc4) = Ret False"
      using *(1) check [OF *(2)] by (simp del: funpow.simps) (metis word_unat_eq_iff)
  qed
qed

section \<open>Reading numbers\<close>

text \<open>An IEEE 754 number with \<open>eb\<close> bits of exponent and \<open>mb\<close> bits of fraction, from its bits.\<close>

definition ieee :: "nat \<Rightarrow> nat \<Rightarrow> nat \<Rightarrow> dbl" where
  "ieee eb mb bits =
     (let f = bits mod 2 ^ mb; e = bits div 2 ^ mb mod 2 ^ eb; neg = (bits div 2 ^ (mb + eb) mod 2 = 1);
          v = (if e = 0 then real f / 2 ^ (2 ^ (eb - 1) + mb - 2)
               else real (2 ^ mb + f) * 2 ^ e / 2 ^ (2 ^ (eb - 1) + mb - 1))
      in if e = 2 ^ eb - 1 then (if f \<noteq> 0 then NaN else if neg then NInf else PInf)
         else Num (if neg then - v else v))"

definition uint_at :: "nat \<Rightarrow> u8 list \<Rightarrow> nat \<Rightarrow> nat" where
  "uint_at n data i = le_bytes (take n (drop i data))"

definition float_at :: "u8 list \<Rightarrow> nat \<Rightarrow> dbl" where
  "float_at data i = ieee 8 23 (uint_at 4 data i)"

definition double_at :: "u8 list \<Rightarrow> nat \<Rightarrow> dbl" where
  "double_at data i = ieee 11 52 (uint_at 8 data i)"

definition short_at :: "u8 list \<Rightarrow> nat \<Rightarrow> int" where
  "short_at data i = (let n = int (uint_at 2 data i) in if n < 32768 then n else n - 65536)"

definition floats_at :: "u8 list \<Rightarrow> nat \<Rightarrow> dbl \<times> dbl \<times> dbl" where
  "floats_at data i = (float_at data i, float_at data (i + 4), float_at data (i + 8))"

section \<open>Time stamps\<close>

text \<open>The stamp of a message's header: \<open>int32 sec\<close>, read with \<open>sint\<close>, and \<open>uint32 nanosec\<close>.\<close>

record ros_time =
  tm_sec :: u32
  tm_nanosec :: u32

text \<open>The rounding of a \<open>double\<close> operation, and \<open>rclcpp::Time\<close> of a number of nanoseconds assigned to a stamp.\<close>

record clock_lib =
  cl_round :: "real \<Rightarrow> real"
  cl_time_msg :: "int \<Rightarrow> ros_time"

text \<open>The argument of \<open>rclcpp::Time\<close> is an \<open>int64_t\<close>: the \<open>double\<close> is truncated and must be representable.\<close>

definition to_nanoseconds :: "dbl \<Rightarrow> int exec" where
  "to_nanoseconds t =
     (case t of
        Num x \<Rightarrow>
          let n = (if x \<ge> 0 then \<lfloor>x\<rfloor> else \<lceil>x\<rceil>)
          in if - (2 ^ 63) \<le> n \<and> n < 2 ^ 63 then Ret n else Undef
      | _ \<Rightarrow> Undef)"

fun dbl_round :: "(real \<Rightarrow> real) \<Rightarrow> dbl \<Rightarrow> dbl" where
  "dbl_round r (Num x) = Num (r x)"
| "dbl_round r x = x"

text \<open>The product of the week is a whole number below \<open>2 ^ 53\<close> and exact; every other operation rounds.\<close>

definition gps_nanoseconds :: "(real \<Rightarrow> real) \<Rightarrow> nat \<Rightarrow> dbl \<Rightarrow> nat \<Rightarrow> dbl" where
  "gps_nanoseconds r week second leaps =
     (let gps = dbl_round r (dbl_add (Num (real week * 7 * 24 * 3600)) second);
          unix = dbl_round r (dbl_add gps (Num 315964800));
          utc = dbl_round r (dbl_sub unix (Num (real leaps)))
      in dbl_round r (dbl_scale (10 ^ 9) utc))"

definition gps_stamp :: "clock_lib \<Rightarrow> nat \<Rightarrow> dbl \<Rightarrow> nat \<Rightarrow> ros_time exec" where
  "gps_stamp lib week second leaps =
     bind_exec (to_nanoseconds (gps_nanoseconds (cl_round lib) week second leaps)) (\<lambda>n. Ret (cl_time_msg lib n))"

definition stamp_seconds :: "ros_time \<Rightarrow> real" where
  "stamp_seconds t = real_of_int (sint (tm_sec t)) + real (unat (tm_nanosec t)) / 10 ^ 9"

text \<open>What the code relies on: IEEE 754 rounds to the nearest number with 53 bits, and a time whose seconds fit into
  31 bits is stored as its seconds and nanoseconds.\<close>

definition rounds_double :: "(real \<Rightarrow> real) \<Rightarrow> bool" where
  "rounds_double r \<longleftrightarrow> (\<forall>x. 1 \<le> \<bar>x\<bar> \<and> \<bar>x\<bar> < 2 ^ 63 \<longrightarrow> \<bar>r x - x\<bar> \<le> \<bar>x\<bar> / 2 ^ 53)"

definition keeps_time :: "(int \<Rightarrow> ros_time) \<Rightarrow> bool" where
  "keeps_time f \<longleftrightarrow> (\<forall>n. 0 \<le> n \<and> n < 2 ^ 31 * 10 ^ 9 \<longrightarrow>
     sint (tm_sec (f n)) = n div 10 ^ 9 \<and> int (unat (tm_nanosec (f n))) = n mod 10 ^ 9)"

lemma keeps_time_seconds:
  assumes "keeps_time f" and "0 \<le> n" and "n < 2 ^ 31 * 10 ^ 9"
  shows "stamp_seconds (f n) = real_of_int n / 10 ^ 9"
proof -
  have "sint (tm_sec (f n)) = n div 10 ^ 9" "int (unat (tm_nanosec (f n))) = n mod 10 ^ 9"
    using assms by (auto simp: keeps_time_def)
  then have "real_of_int (sint (tm_sec (f n))) * 10 ^ 9 + real (unat (tm_nanosec (f n))) = real_of_int (n div 10 ^ 9 * 10 ^ 9 + n mod 10 ^ 9)"
    by (metis of_int_add of_int_mult of_int_numeral of_int_power of_int_of_nat_eq)
  also have "\<dots> = real_of_int n" by (simp only: div_mult_mod_eq)
  finally show ?thesis by (simp add: stamp_seconds_def field_simps)
qed

text \<open>The four roundings and the truncation stay below a microsecond.\<close>

lemma gps_nanoseconds_close:
  assumes "rounds_double r" and "0 < week" and "0 \<le> tow" and "leaps < 65536"
    and "real week * 604800 + tow + 315964800 - real leaps < 2147483647"
  obtains x where "gps_nanoseconds r week (Num tow) leaps = Num x" and "1 \<le> x" and "x < 2 ^ 31 * 10 ^ 9"
    and "\<bar>x / 10 ^ 9 - (real week * 604800 + tow + 315964800 - real leaps)\<bar> < 99 / 10 ^ 8"
proof -
  have R: "\<bar>r x - x\<bar> \<le> x / 2 ^ 53" if "1 \<le> x" "x < 2 ^ 63" for x
    using assms(1) [unfolded rounds_double_def, rule_format, of x] that by simp
  have l: "0 \<le> real leaps" "real leaps < 65536" "1 \<le> real week" using assms(2,4) by simp_all
  define a where "a = real week * 604800 + tow"
  have a: "604800 \<le> a" "a < 1831584383" using l assms(3,5) by (simp_all add: a_def)
  define b where "b = r a"
  have b: "\<bar>b - a\<bar> \<le> a / 2 ^ 53" using R [of a] a by (simp add: b_def)
  then have b': "\<bar>b - a\<bar> \<le> 1831584383 / 2 ^ 53" using a(2) by simp
  define c where "c = r (b + 315964800)"
  have bb: "1 \<le> b + 315964800" "b + 315964800 < 2147549184" using b' a unfolding abs_le_iff by simp_all
  have c: "\<bar>c - (b + 315964800)\<bar> \<le> 2147549184 / 2 ^ 53"
    using R [of "b + 315964800"] bb by (simp add: c_def)
  define d where "d = r (c - real leaps)"
  have cc: "1 \<le> c - real leaps" "c - real leaps < 2147549185" using bb c l a b' unfolding abs_le_iff by simp_all
  have d: "\<bar>d - (c - real leaps)\<bar> \<le> 2147549185 / 2 ^ 53"
    using R [of "c - real leaps"] cc by (simp add: d_def)
  define x where "x = r (d * 10 ^ 9)"
  have dt: "\<bar>d - (a + 315964800 - real leaps)\<bar> \<le> 6126682752 / 2 ^ 53"
    using b' c d unfolding abs_le_iff by simp
  have dd: "1 \<le> d" "d < 2147483648" using dt a l assms(5) unfolding abs_le_iff a_def by simp_all
  have x: "\<bar>x - d * 10 ^ 9\<bar> \<le> d * 10 ^ 9 / 2 ^ 53"
    using R [of "d * 10 ^ 9"] dd by (simp add: x_def)
  have x': "\<bar>x / 10 ^ 9 - d\<bar> \<le> 2147483648 / 2 ^ 53"
  proof -
    have "\<bar>x / 10 ^ 9 - d\<bar> = \<bar>x - d * 10 ^ 9\<bar> / 10 ^ 9" by (simp add: abs_if field_simps)
    also have "\<dots> \<le> d / 2 ^ 53" using x by (simp add: field_simps)
    also have "\<dots> \<le> 2147483648 / 2 ^ 53" using dd by simp
    finally show ?thesis .
  qed
  have close: "\<bar>x / 10 ^ 9 - (a + 315964800 - real leaps)\<bar> < 99 / 10 ^ 8"
    using dt x' unfolding abs_le_iff abs_less_iff by simp
  have g: "gps_nanoseconds r week (Num tow) leaps = Num x"
    by (simp add: gps_nanoseconds_def Let_def dbl_sub_def x_def d_def c_def b_def a_def mult.commute)
  show ?thesis
  proof (rule that [OF g])
    show "1 \<le> x" "x < 2 ^ 31 * 10 ^ 9"
      using close a l assms(5) unfolding abs_less_iff a_def by (simp_all add: field_simps)
    show "\<bar>x / 10 ^ 9 - (real week * 604800 + tow + 315964800 - real leaps)\<bar> < 99 / 10 ^ 8"
      using close by (simp add: a_def)
  qed
qed

lemma gps_stamp_close:
  assumes "rounds_double (cl_round lib)" and "keeps_time (cl_time_msg lib)" and "0 < week" and "0 \<le> tow" and "leaps < 65536"
    and "real week * 604800 + tow + 315964800 - real leaps < 2147483647"
  obtains st where "gps_stamp lib week (Num tow) leaps = Ret st"
    and "\<bar>stamp_seconds st - (real week * 604800 + tow + 315964800 - real leaps)\<bar> < 1 / 10 ^ 6"
proof -
  let ?t = "real week * 604800 + tow + 315964800 - real leaps"
  from gps_nanoseconds_close [OF assms(1,3-6)] obtain x where
    x: "gps_nanoseconds (cl_round lib) week (Num tow) leaps = Num x" "1 \<le> x" "x < 2 ^ 31 * 10 ^ 9" "\<bar>x / 10 ^ 9 - ?t\<bar> < 99 / 10 ^ 8"
    by blast
  let ?n = "\<lfloor>x\<rfloor>"
  obtain y where y: "real_of_int ?n = y" by simp
  have f: "y \<le> x" "x - 1 < y" unfolding y [symmetric] by linarith+
  have n: "0 \<le> ?n" "?n < 2 ^ 31 * 10 ^ 9" using x(2,3) by (simp_all add: floor_less_iff)
  have s: "gps_stamp lib week (Num tow) leaps = Ret (cl_time_msg lib ?n)"
    using x(1,2) n by (simp add: gps_stamp_def to_nanoseconds_def Let_def)
  have "stamp_seconds (cl_time_msg lib ?n) = real_of_int ?n / 10 ^ 9" by (rule keeps_time_seconds [OF assms(2) n])
  moreover have "\<bar>real_of_int ?n / 10 ^ 9 - ?t\<bar> < 1 / 10 ^ 6"
    using x(4) f unfolding abs_less_iff y by (simp add: field_simps)
  ultimately have "\<bar>stamp_seconds (cl_time_msg lib ?n) - ?t\<bar> < 1 / 10 ^ 6" by (simp only:)
  from that [OF s this] show ?thesis .
qed

section \<open>Decoding\<close>

text \<open>\<open>/chcnav/devpvt\<close> with the fields the adapter does not read.\<close>

record devpvt = Hcinspvatzcb +
  dv_stamp :: ros_time
  dv_leaps :: nat
  dv_roll :: dbl
  dv_pitch :: dbl
  dv_yaw :: dbl
  dv_euler_stdev01 :: "dbl \<times> dbl"
  dv_speed :: dbl
  dv_heading :: dbl
  dv_vehicle_angular_velocity :: "dbl \<times> dbl \<times> dbl"
  dv_vehicle_linear_velocity :: "dbl \<times> dbl \<times> dbl"
  dv_vehicle_linear_acceleration :: "dbl \<times> dbl \<times> dbl"
  dv_vehicle_linear_acceleration_without_g :: "dbl \<times> dbl \<times> dbl"
  dv_raw_angular_velocity :: "dbl \<times> dbl \<times> dbl"
  dv_raw_acceleration :: "dbl \<times> dbl \<times> dbl"
  dv_age :: dbl
  dv_ns2 :: nat
  dv_dops :: "dbl \<times> dbl \<times> dbl \<times> dbl"
  dv_warning :: nat
  dv_sensor_used :: nat
  dv_ins2gnss_vector :: "dbl \<times> dbl \<times> dbl"
  dv_ins2body_angle :: "dbl \<times> dbl \<times> dbl"
  dv_gnss2body_vector :: "dbl \<times> dbl \<times> dbl"
  dv_gnss2body_angle_z :: dbl
  dv_receiver :: "u8 list"

record devimu =
  di_stamp :: ros_time
  di_week :: nat
  di_second :: dbl
  di_angular_velocity :: "dbl \<times> dbl \<times> dbl"
  di_angular_acceleration :: "dbl \<times> dbl \<times> dbl"
  di_temp :: dbl
  di_err_status :: u8
  di_yaw :: int
  di_receiver :: u8

definition INSPVATZCB :: nat where "INSPVATZCB = 0x1201"
definition RAWIMUIB :: nat where "RAWIMUIB = 0x102"

text \<open>The leap seconds of the message are kept in \<open>g_leaps\<close>.\<close>

definition decode_pvt :: "u8 list \<Rightarrow> nat \<Rightarrow> ros_time \<Rightarrow> devpvt" where
  "decode_pvt d leaps stamp =
     \<lparr>hc_week = uint_at 2 d 22, hc_second = double_at d 24,
      hc_stat = [unat (d ! 152 AND 0x0F), unat (drop_bit 4 (d ! 152) AND 0x0F)],
      hc_latitude = double_at d 32, hc_longitude = double_at d 40, hc_altitude = float_at d 48,
      hc_undulation = float_at d 52, hc_position_stdev = floats_at d 80,
      hc_enu_velocity = floats_at d 56, hc_enu_velocity_stdev = floats_at d 92, hc_euler_stdev2 = float_at d 112,
      hc_heading2 = float_at d 148, hc_pdop = float_at d 220, hc_ns = uint_at 2 d 158,
      dv_stamp = stamp, dv_leaps = leaps, dv_roll = float_at d 72, dv_pitch = float_at d 68, dv_yaw = float_at d 76,
      dv_euler_stdev01 = (float_at d 108, float_at d 104), dv_speed = float_at d 140, dv_heading = float_at d 144,
      dv_vehicle_angular_velocity = floats_at d 116, dv_vehicle_linear_velocity = floats_at d 208,
      dv_vehicle_linear_acceleration = floats_at d 196, dv_vehicle_linear_acceleration_without_g = floats_at d 128,
      dv_raw_angular_velocity = floats_at d 172, dv_raw_acceleration = floats_at d 184,
      dv_age = float_at d 154, dv_ns2 = uint_at 2 d 160,
      dv_dops = (float_at d 164, float_at d 224, float_at d 228, float_at d 232),
      dv_warning = uint_at 2 d 168, dv_sensor_used = uint_at 2 d 170,
      dv_ins2gnss_vector = floats_at d 236, dv_ins2body_angle = floats_at d 248,
      dv_gnss2body_vector = floats_at d 260, dv_gnss2body_angle_z = float_at d 272,
      dv_receiver = take 16 (drop 276 d)\<rparr>"

definition deal_hcinspvatzcb :: "clock_lib \<Rightarrow> u8 list \<Rightarrow> nat \<Rightarrow> (devpvt list \<times> nat) exec" where
  "deal_hcinspvatzcb lib d g_leaps =
     (if length d = 296
      then let leaps = uint_at 2 d 162
           in bind_exec (gps_stamp lib (uint_at 2 d 22) (double_at d 24) leaps) (\<lambda>stamp.
                Ret ([decode_pvt d leaps stamp], leaps))
      else Ret ([], g_leaps))"

definition scaled_shorts :: "u8 list \<Rightarrow> nat \<Rightarrow> real \<Rightarrow> dbl \<times> dbl \<times> dbl" where
  "scaled_shorts d i c =
     (Num (real_of_int (short_at d i) / c), Num (real_of_int (short_at d (i + 2)) / c), Num (real_of_int (short_at d (i + 4)) / c))"

definition deal_hcrawimuib :: "clock_lib \<Rightarrow> u8 list \<Rightarrow> nat \<Rightarrow> devimu list exec" where
  "deal_hcrawimuib lib d g_leaps =
     (if length d = 68
      then bind_exec (gps_stamp lib (uint_at 2 d 22) (double_at d 24) g_leaps) (\<lambda>stamp.
        Ret [\<lparr>di_stamp = stamp, di_week = uint_at 2 d 22, di_second = double_at d 24,
              di_angular_velocity = floats_at d 32, di_angular_acceleration = floats_at d 44, di_temp = float_at d 56,
              di_err_status = d ! 60, di_yaw = short_at d 61, di_receiver = d ! 63\<rparr>])
      else if length d = 34
      then let second = Num (cl_round lib (real (uint_at 4 d 10) / 1000))
           in bind_exec (gps_stamp lib (uint_at 2 d 8) second g_leaps) (\<lambda>stamp.
             Ret [\<lparr>di_stamp = stamp, di_week = uint_at 2 d 8, di_second = second,
                   di_angular_velocity = scaled_shorts d 14 80, di_angular_acceleration = scaled_shorts d 20 5000,
                   di_temp = Num (real_of_int (short_at d 26) / 100),
                   di_err_status = d ! 28, di_yaw = 0, di_receiver = d ! 29\<rparr>])
      else Ret [])"

text \<open>\<open>hc_sentence_callback\<close>: what is published and the leap seconds afterwards.\<close>

definition hc_sentence_callback :: "clock_lib \<Rightarrow> u16 \<Rightarrow> u8 list \<Rightarrow> nat \<Rightarrow> (devpvt list \<times> devimu list \<times> nat) exec" where
  "hc_sentence_callback lib msg_id data g_leaps =
     bind_exec (check_crc32 data) (\<lambda>ok.
       if \<not> ok then Ret ([], [], g_leaps)
       else if unat msg_id = INSPVATZCB
       then bind_exec (deal_hcinspvatzcb lib data g_leaps) (\<lambda>(pvts, leaps). Ret (pvts, [], leaps))
       else if unat msg_id = RAWIMUIB
       then bind_exec (deal_hcrawimuib lib data g_leaps) (\<lambda>imus. Ret ([], imus, g_leaps))
       else Ret ([], [], g_leaps))"

section \<open>Messages for other consumers\<close>

fun dbl_square :: "dbl \<Rightarrow> dbl" where
  "dbl_square (Num x) = Num (x * x)"
| "dbl_square NaN = NaN"
| "dbl_square _ = PInf"

definition M_PI :: real where "M_PI = 314159265358979323846 / 10 ^ 20"

definition dbl_radians :: "dbl \<Rightarrow> dbl" where
  "dbl_radians x = dbl_scale (M_PI / 180) x"

definition scale3 :: "real \<Rightarrow> dbl \<times> dbl \<times> dbl \<Rightarrow> dbl \<times> dbl \<times> dbl" where
  "scale3 c v = (case v of (x, y, z) \<Rightarrow> (dbl_scale c x, dbl_scale c y, dbl_scale c z))"

record 'q imu_out =
  io_angular_velocity :: "dbl \<times> dbl \<times> dbl"
  io_linear_acceleration :: "dbl \<times> dbl \<times> dbl"
  io_orientation :: 'q

definition STATUS_NO_FIX :: int where "STATUS_NO_FIX = - 1"

definition pvt_fix :: "devpvt \<Rightarrow> NavSatFix" where
  "pvt_fix msg =
     (case hc_position_stdev msg of (s0, s1, s2) \<Rightarrow>
        \<lparr>nsf_stamp = stamp_seconds (dv_stamp msg),
         nsf_status = (if hc_stat msg ! 1 = 4 \<or> hc_stat msg ! 1 = 8 then STATUS_FIX else STATUS_NO_FIX),
         nsf_latitude = hc_latitude msg, nsf_longitude = hc_longitude msg, nsf_altitude = hc_altitude msg,
         nsf_cov0 = dbl_square s1, nsf_cov4 = dbl_square s0, nsf_cov8 = dbl_square s2\<rparr>)"

text \<open>The two orientations: the one of the IMU message from radians, the one for Autoware from the message's degrees.\<close>

definition pvt_callback :: "(dbl \<Rightarrow> dbl \<Rightarrow> dbl \<Rightarrow> 'q) \<Rightarrow> devpvt \<Rightarrow> NavSatFix \<times> 'q imu_out \<times> 'q" where
  "pvt_callback setRPY msg =
     (let yaw = (if dbl_le (dv_yaw msg) (Num 180) then dbl_neg (hc_heading2 msg) else dbl_sub (Num 360) (hc_heading2 msg))
      in (pvt_fix msg,
          \<lparr>io_angular_velocity = scale3 (M_PI / 180) (dv_vehicle_angular_velocity msg),
           io_linear_acceleration = scale3 (98 / 10) (dv_vehicle_linear_acceleration msg),
           io_orientation = setRPY (dbl_radians (dv_roll msg)) (dbl_radians (dbl_neg (dv_pitch msg))) (dbl_radians yaw)\<rparr>,
          setRPY (dv_roll msg) (dv_pitch msg) (dv_yaw msg)))"

section \<open>From the receiver's bytes to the adapter\<close>

definition crc_bytes :: "u32 \<Rightarrow> u8 list" where
  "crc_bytes w = [ucast w, ucast (drop_bit 8 w), ucast (drop_bit 16 w), ucast (drop_bit 24 w)]"

lemma le_bytes_crc: "le_bytes (crc_bytes w) = unat w"
proof -
  have b: "unat (ucast (drop_bit k w) :: u8) = unat w div 2 ^ k mod 256" for k
  proof -
    have "unat (drop_bit k w) = unat w div 2 ^ k"
      unfolding unat_drop_bit_eq by (rule drop_bit_eq_div)
    then show ?thesis by (simp add: unsigned_ucast_eq take_bit_eq_mod)
  qed
  have "unat w mod 256 + 256 * (unat w div 256 mod 256 + 256 * (unat w div 256 div 256 mod 256 + 256 * (unat w div 256 div 256 div 256))) = unat w"
    by (simp only: mod_mult_div_eq)
  then have "unat w mod 256 + 256 * (unat w div 256 mod 256 + 256 * (unat w div 65536 mod 256 + 256 * (unat w div 16777216))) = unat w"
    by (simp add: div_mult2_eq [symmetric])
  moreover have "unat w div 16777216 mod 256 = unat w div 16777216"
    using unsigned_less [of w] by (intro mod_less less_mult_imp_div_less) simp
  ultimately show ?thesis using b [of 0] b [of 8] b [of 16] b [of 24] by (simp add: crc_bytes_def)
qed

lemma check_crc32_own: "check_crc32 (body @ crc_bytes (get_crc32_value body 0)) = Ret True"
proof -
  have "length (crc_bytes w) = 4" for w by (simp add: crc_bytes_def)
  then show ?thesis by (simp add: check_crc32_def le_bytes_crc)
qed

lemma le_bytes_zero: "le_bytes (replicate k 0) = 0"
  by (induction k) simp_all

text \<open>A position frame as the receiver sends it.\<close>

definition pvt_frame :: "u8 list \<Rightarrow> bool" where
  "pvt_frame m \<longleftrightarrow> hc_frame m \<and> length m = 296 \<and> m ! 6 = 0x01 \<and> m ! 7 = 0x12 \<and> check_crc32 m = Ret True"

lemma pvt_frame_id: "pvt_frame m \<Longrightarrow> cgi_msg_id \<lparr>tk_type = k, tk_value = m\<rparr> = 0x1201"
  by (simp add: pvt_frame_def cgi_msg_id_def tok_at_def)

lemma published_frame:
  assumes "(j, k, m) \<in> set parts" and "k \<noteq> TK_NMEA_MGS"
  shows "set (option_list (msg_recv_callback \<lparr>tk_type = k, tk_value = m\<rparr>)) \<subseteq> set (published_of behind parts)"
proof -
  let ?f = "\<lambda>(_, k, m). if k = TK_NMEA_MGS \<and> behind \<noteq> 0 then [] else option_list (msg_recv_callback \<lparr>tk_type = k, tk_value = m\<rparr>)"
  have "?f (j, k, m) = option_list (msg_recv_callback \<lparr>tk_type = k, tk_value = m\<rparr>)"
    unfolding prod.case using assms(2) by (simp only: simp_thms if_False)
  moreover have "set (?f (j, k, m)) \<subseteq> set (concat (map ?f parts))"
    unfolding set_concat set_map image_image using assms(1) by (rule UN_upper)
  ultimately show ?thesis unfolding published_of_def by (simp only:)
qed

lemma uint_at_2: "uint_at 2 m i < 65536"
proof -
  have "le_bytes bs < 256 ^ length bs" for bs
  proof (induction bs)
    case (Cons b bs)
    have "unat b < 256" using unsigned_less [of b] by simp
    then show ?case using Cons by simp
  qed simp
  from this [of "take 2 (drop i m)"] show ?thesis
    unfolding uint_at_def by (rule order.strict_trans2) (simp add: power_increasing [of _ 2 "256 :: nat", simplified])
qed

text \<open>C7: A fix of the receiver reaches the estimators with the receiver's numbers. Let the device deliver, in any
  reads that fit the buffer, frames of the three protocols below 1024 bytes with no start byte between them (nor inside
  a sentence, where the indeterminate byte of \<open>deal_S19\<close> makes the parser drop it), and among them a position frame with
  a right checksum, a GPS week, a second of the week, finite coordinates and a fixed solution. Then the parser node
  publishes that frame; and until January 2038, when the \<open>int32\<close> seconds of the header end, the protocol node decodes it
  to a message whose stamp is, within a microsecond of rounding, the Unix time of the frame's own week, second and leap
  seconds; and the adapter makes of it a message for the estimators with that week, second, latitude and longitude,
  marked as fixed.\<close>

theorem receiver_fix_reaches_adapter:
  assumes "rounds_double (cl_round lib)" and "keeps_time (cl_time_msg lib)"
    and "\<forall>r \<in> set reads. length r \<le> n" and "concat reads = frames_between parts @ junk" and "no_start junk"
    and "\<forall>(j, k, m) \<in> set parts. no_start j \<and> frame_of k m \<and> length m < HC_PROTOCOL_MAX_LEN
      \<and> (k = TK_NMEA_MGS \<and> behind \<noteq> 0 \<longrightarrow> no_start (drop 6 m))"
    and "(j, TK_HC_MSG, m) \<in> set parts" and "pvt_frame m"
    and "double_at m 24 = Num tow" and "0 \<le> tow" and "tow < 604800" and "0 < uint_at 2 m 22"
    and "real (uint_at 2 m 22) * 604800 + tow + 315964800 - real (uint_at 2 m 162) < 2147483647"
    and "double_at m 32 = Num lat" and "double_at m 40 = Num lon" and "unat (drop_bit 4 (m ! 152) AND 0x0F) \<in> {4, 8}"
  shows "\<exists>ps d pvt. node_run behind (init_msg_parser n buf len) reads = Ret ps \<and> Hc_sentence 0x1201 m \<in> set ps
    \<and> hc_sentence_callback lib 0x1201 m g_leaps = Ret ([d], [], uint_at 2 m 162)
    \<and> \<bar>real_of_int (sint (tm_sec (dv_stamp d))) + real (unat (tm_nanosec (dv_stamp d))) / 10 ^ 9
        - (real (uint_at 2 m 22) * 604800 + tow + 315964800 - real (uint_at 2 m 162))\<bar> < 1 / 10 ^ 6
    \<and> adapter_callback accept_float (Hcinspvatzcb.truncate d) rejected = (Some pvt, rejected)
    \<and> pvt_week pvt = uint_at 2 m 22 \<and> pvt_tow pvt = Num tow \<and> pvt_latitude pvt = Num lat \<and> pvt_longitude pvt = Num lon
    \<and> pvt_carr_soln pvt = 2"
proof -
  let ?week = "uint_at 2 m 22" and ?leaps = "uint_at 2 m 162"
  have m: "length m = 296" "check_crc32 m = Ret True" using assms(8) by (simp_all add: pvt_frame_def)
  from gps_stamp_close [OF assms(1,2,12,10) uint_at_2 assms(13)] obtain st where
    st: "gps_stamp lib ?week (double_at m 24) ?leaps = Ret st"
      "\<bar>stamp_seconds st - (real ?week * 604800 + tow + 315964800 - real ?leaps)\<bar> < 1 / 10 ^ 6"
    unfolding assms(9) by blast
  let ?d = "decode_pvt m ?leaps st"
  have d: "hc_sentence_callback lib 0x1201 m g_leaps = Ret ([?d], [], ?leaps)"
    using st(1) m by (simp add: hc_sentence_callback_def deal_hcinspvatzcb_def INSPVATZCB_def Let_def)
  obtain pvt where pvt: "adapter_callback accept_float (Hcinspvatzcb.truncate ?d) rejected = (Some pvt, rejected)"
    using assms(9,12,14-16)
    by (auto simp: adapter_callback_def Hcinspvatzcb.defs decode_pvt_def Let_def)
  note p = adapter_callback_Some [OF pvt]
  have "pvt_week pvt = ?week" "pvt_tow pvt = Num tow" "pvt_latitude pvt = Num lat" "pvt_longitude pvt = Num lon" "pvt_carr_soln pvt = 2"
    using assms(9,14-16) by (auto simp: p(1) Hcinspvatzcb.defs decode_pvt_def)
  moreover have "dv_stamp ?d = st" by (simp add: decode_pvt_def)
  moreover have "Hc_sentence 0x1201 m \<in> set (published_of behind parts)"
    using published_frame [OF assms(7)] pvt_frame_id [OF assms(8)] by (simp add: option_list_def recv_cgi_def)
  moreover have "node_run behind (init_msg_parser n buf len) reads = Ret (published_of behind parts)"
    using node_run_frames [OF pending_of_start(1) [OF assms(3)] _ assms(5,6)] assms(4) pending_of_start(2) [OF assms(3)] by simp
  ultimately show ?thesis using st(2) d pvt unfolding stamp_seconds_def by metis
qed

lemma cut_in_three: "take n xs @ take n (drop n xs) @ drop (n + n) xs = xs"
  unfolding drop_drop [symmetric] append_take_drop_id ..

definition ex_body :: "u8 list" where
  "ex_body = [0xAA, 0xCC, 0x48, 0x43, 0x0E, 0x01, 0x01, 0x12] @ replicate 14 0 @ [0xFC, 0x08] @ replicate 128 0 @ [0x42]
     @ replicate 9 0 @ [18, 0] @ replicate 128 0"

definition ex_pvt :: "u8 list" where
  "ex_pvt = ex_body @ crc_bytes (get_crc32_value ex_body 0)"

theorem crc_detects_corrupted_byte_witness:
  "check_crc32 (take 152 ex_body @ 0x52 # drop 153 ex_body @ crc_bytes (get_crc32_value ex_body 0)) = Ret False"
proof -
  have "ex_body = take 152 ex_body @ 0x42 # drop 153 ex_body" by (simp add: ex_body_def)
  then have "check_crc32 (take 152 ex_body @ 0x42 # drop 153 ex_body @ crc_bytes (get_crc32_value ex_body 0)) = Ret True"
    using check_crc32_own [of ex_body] by (metis append.assoc append_Cons)
  then show ?thesis
    using crc_detects_corrupted_byte [of "[]" 0 "take 152 ex_body" "0x42" "drop 153 ex_body" "crc_bytes (get_crc32_value ex_body 0)" "0x52"]
    by (simp add: crc_bytes_def)
qed

lemma ex_pvt_frame:
  "pvt_frame ex_pvt" "length ex_pvt = 296" "take 292 ex_pvt = ex_body"
proof -
  show l: "length ex_pvt = 296" "take 292 ex_pvt = ex_body" by (simp_all add: ex_pvt_def ex_body_def crc_bytes_def)
  show "pvt_frame ex_pvt"
    using check_crc32_own [of ex_body] l
    by (simp add: pvt_frame_def hc_frame_def payload_len_def ex_pvt_def) (simp add: ex_body_def nth_append)
qed

lemma ex_pvt_field: "i + k \<le> 292 \<Longrightarrow> uint_at k ex_pvt i = le_bytes (take k (drop i ex_body))"
  by (simp add: uint_at_def ex_pvt_def) (simp add: ex_body_def)

text \<open>The library of the example: exact arithmetic, and the seconds and nanoseconds of a time.\<close>

definition ex_clock :: clock_lib where
  "ex_clock = \<lparr>cl_round = (\<lambda>x. x), cl_time_msg = (\<lambda>n. \<lparr>tm_sec = word_of_int (n div 10 ^ 9), tm_nanosec = word_of_int (n mod 10 ^ 9)\<rparr>)\<rparr>"

lemma div_below:
  fixes n d c :: int
  assumes "0 < d" and "n < c * d"
  shows "n div d < c"
proof (rule ccontr)
  assume "\<not> n div d < c"
  then have "c * d \<le> n div d * d" using assms(1) by (intro mult_right_mono) simp_all
  then show False using assms div_mult_mod_eq [of n d] pos_mod_sign [of d n] by linarith
qed

lemma ex_clock_laws: "rounds_double (cl_round ex_clock)" "keeps_time (cl_time_msg ex_clock)"
proof -
  show "rounds_double (cl_round ex_clock)" by (simp add: rounds_double_def ex_clock_def)
  have s: "sint (word_of_int k :: u32) = k" if "0 \<le> k" "k < 2 ^ 31" for k
    using that by (subst signed_of_int) (simp add: signed_take_bit_int_eq_self)
  have u: "int (unat (word_of_int k :: u32)) = k" if "0 \<le> k" "k < 10 ^ 9" for k
    using that by (simp add: uint_word_of_int_eq take_bit_int_eq_self)
  show "keeps_time (cl_time_msg ex_clock)"
    unfolding keeps_time_def ex_clock_def
  proof (intro allI impI conjI)
    fix n :: int
    assume n: "0 \<le> n \<and> n < 2 ^ 31 * 10 ^ 9"
    then have "0 \<le> n div 10 ^ 9" "n div 10 ^ 9 < 2 ^ 31"
      using div_below [of "10 ^ 9" n "2 ^ 31"] by (simp_all add: pos_imp_zdiv_nonneg_iff)
    from s [OF this] show "sint (tm_sec (cl_time_msg \<lparr>cl_round = (\<lambda>x. x), cl_time_msg =
      (\<lambda>n. \<lparr>tm_sec = word_of_int (n div 10 ^ 9), tm_nanosec = word_of_int (n mod 10 ^ 9)\<rparr>)\<rparr> n)) = n div 10 ^ 9" by simp
    show "int (unat (tm_nanosec (cl_time_msg \<lparr>cl_round = (\<lambda>x. x), cl_time_msg =
      (\<lambda>n. \<lparr>tm_sec = word_of_int (n div 10 ^ 9), tm_nanosec = word_of_int (n mod 10 ^ 9)\<rparr>)\<rparr> n))) = n mod 10 ^ 9"
      using u [of "n mod 10 ^ 9"] by simp
  qed
qed

theorem receiver_fix_reaches_adapter_witness:
  "\<exists>ps d pvt. node_run 1 (init_msg_parser 200 [] 0) [take 100 ex_pvt, [], take 100 (drop 100 ex_pvt), drop 200 ex_pvt] = Ret ps
     \<and> Hc_sentence 0x1201 ex_pvt \<in> set ps \<and> hc_sentence_callback ex_clock 0x1201 ex_pvt 18 = Ret ([d], [], 18)
     \<and> adapter_callback False (Hcinspvatzcb.truncate d) 0 = (Some pvt, 0) \<and> pvt_week pvt = 2300"
proof -
  have z: "double_at ex_pvt i = Num 0" if "i \<in> {24, 32, 40}" for i
    using that by (auto simp: double_at_def ex_pvt_field) (simp_all add: ex_body_def ieee_def le_bytes_zero)
  have w: "uint_at 2 ex_pvt 22 = 2300" "uint_at 2 ex_pvt 162 = 18"
    by (simp_all add: ex_pvt_field) (simp_all add: ex_body_def)
  have s: "unat (drop_bit 4 (ex_pvt ! 152) AND 0x0F) = 4"
  proof -
    have "ex_pvt ! 152 = ex_body ! 152" using nth_take [of 152 292 ex_pvt] by (simp add: ex_pvt_frame)
    then show ?thesis by (simp add: ex_body_def nth_append)
  qed
  have c: "concat [take 100 ex_pvt, [], take 100 (drop 100 ex_pvt), drop 200 ex_pvt] = frames_between [([], TK_HC_MSG, ex_pvt)] @ []"
    using cut_in_three [of 100 ex_pvt] by (simp add: frames_between_def)
  have k: "\<forall>(j, k, m) \<in> set [([], TK_HC_MSG, ex_pvt)]. no_start j \<and> frame_of k m \<and> length m < HC_PROTOCOL_MAX_LEN
      \<and> (k = TK_NMEA_MGS \<and> (1 :: u8) \<noteq> 0 \<longrightarrow> no_start (drop 6 m))"
    using ex_pvt_frame by (simp add: no_start_def pvt_frame_def HC_PROTOCOL_MAX_LEN_def)
  from receiver_fix_reaches_adapter [OF ex_clock_laws _ c _ k, of 200 "[]" ex_pvt 0 0 0 "[]" 0 18 False 0]
  show ?thesis using z w s ex_pvt_frame by (simp add: no_start_def) blast
qed

end
