(* ===== verification/Imu_Process.thy ===== *)
theory Imu_Process
  imports State_Group Livo_Rtk
begin

text \<open>
  \<open>ImuProcess\<close> of \<^verbatim>\<open>fast_livo/src/IMU_Processing.cpp\<close>: initialisation of gravity, propagation of the state with
  the IMU, or without it, and undistortion of the scan. \<open>Pose6D\<close> is that of \<^verbatim>\<open>fast_livo/include/utils/types.h\<close>.
  \<open>std::sort\<close> by time is a parameter. Left out: the IMU log file and the fields that are only printed. A mean
  acceleration of zero, by whose norm the code divides, is not considered.
\<close>

section \<open>State\<close>

definition G_m_s2 :: real where "G_m_s2 = 981 / 100"

record Pose6D =
  p6_offset_time :: real
  p6_acc :: vec3
  p6_gyr :: vec3
  p6_vel :: vec3
  p6_pos :: vec3
  p6_rot :: mat3

definition set_pose6d :: "real \<Rightarrow> vec3 \<Rightarrow> vec3 \<Rightarrow> vec3 \<Rightarrow> vec3 \<Rightarrow> mat3 \<Rightarrow> Pose6D" where
  "set_pose6d t a g v p R = \<lparr>p6_offset_time = t, p6_acc = a, p6_gyr = g, p6_vel = v, p6_pos = p, p6_rot = R\<rparr>"

record ImuProcess =
  ip_MAX_INI_COUNT :: int
  ip_imu_en :: bool
  ip_gravity_est_en :: bool
  ip_ba_bg_est_en :: bool
  ip_exposure_estimate_en :: bool
  ip_lidar_is_L515 :: bool
  ip_cov_acc :: vec3
  ip_cov_gyr :: vec3
  ip_cov_bias_gyr :: vec3
  ip_cov_bias_acc :: vec3
  ip_cov_inv_expo :: real
  Lid_rot_to_IMU :: mat3
  Lid_offset_to_IMU :: vec3
  mean_acc :: vec3
  mean_gyr :: vec3
  angvel_last :: vec3
  acc_s_last :: vec3
  b_first_frame :: bool
  imu_need_init :: bool
  imu_time_init :: bool
  init_iter_num :: int
  IMU_mean_acc_norm :: real
  IMUpose :: "Pose6D list"
  last_imu :: ImuMsg
  pcl_wait_proc :: "LPoint list"
  last_prop_end_time :: real
  time_last_scan :: real

definition new_Imu :: ImuMsg where
  "new_Imu = \<lparr>im_stamp = 0, im_acc = v3_zero, im_gyr = v3_zero\<rparr>"

text \<open>The constructor leaves \<open>IMU_mean_acc_norm\<close>, \<open>last_prop_end_time\<close>, \<open>time_last_scan\<close> and \<open>lidar_type\<close> unset.\<close>

definition new_ImuProcess :: "real \<Rightarrow> real \<Rightarrow> real \<Rightarrow> bool \<Rightarrow> ImuProcess" where
  "new_ImuProcess junk_norm junk_end junk_scan junk_l515 =
     \<lparr>ip_MAX_INI_COUNT = 20, ip_imu_en = True, ip_gravity_est_en = True, ip_ba_bg_est_en = True,
      ip_exposure_estimate_en = True, ip_lidar_is_L515 = junk_l515,
      ip_cov_acc = (1 / 10, 1 / 10, 1 / 10), ip_cov_gyr = (1 / 10, 1 / 10, 1 / 10),
      ip_cov_bias_gyr = (1 / 10, 1 / 10, 1 / 10), ip_cov_bias_acc = (1 / 10, 1 / 10, 1 / 10), ip_cov_inv_expo = 2 / 10,
      Lid_rot_to_IMU = m3_one, Lid_offset_to_IMU = v3_zero, mean_acc = (0, 0, - 1), mean_gyr = v3_zero,
      angvel_last = v3_zero, acc_s_last = v3_zero, b_first_frame = True, imu_need_init = True, imu_time_init = False,
      init_iter_num = 1, IMU_mean_acc_norm = junk_norm, IMUpose = [], last_imu = new_Imu, pcl_wait_proc = [],
      last_prop_end_time = junk_end, time_last_scan = junk_scan\<rparr>"

definition Reset_imu :: "ImuProcess \<Rightarrow> ImuProcess" where
  "Reset_imu p = p\<lparr>mean_acc := (0, 0, - 1), mean_gyr := v3_zero, angvel_last := v3_zero, imu_need_init := True,
     init_iter_num := 1, IMUpose := [], last_imu := new_Imu\<rparr>"

definition disable_imu :: "ImuProcess \<Rightarrow> ImuProcess" where
  "disable_imu p = p\<lparr>ip_imu_en := False, imu_need_init := False\<rparr>"

definition disable_gravity_est :: "ImuProcess \<Rightarrow> ImuProcess" where
  "disable_gravity_est p = p\<lparr>ip_gravity_est_en := False\<rparr>"

definition disable_bias_est :: "ImuProcess \<Rightarrow> ImuProcess" where
  "disable_bias_est p = p\<lparr>ip_ba_bg_est_en := False\<rparr>"

definition disable_exposure_est :: "ImuProcess \<Rightarrow> ImuProcess" where
  "disable_exposure_est p = p\<lparr>ip_exposure_estimate_en := False\<rparr>"

definition set_extrinsic :: "vec3 \<Rightarrow> mat3 \<Rightarrow> ImuProcess \<Rightarrow> ImuProcess" where
  "set_extrinsic transl rot p = p\<lparr>Lid_offset_to_IMU := transl, Lid_rot_to_IMU := rot\<rparr>"

definition set_covariances :: "vec3 \<Rightarrow> vec3 \<Rightarrow> vec3 \<Rightarrow> vec3 \<Rightarrow> real \<Rightarrow> int \<Rightarrow> ImuProcess \<Rightarrow> ImuProcess" where
  "set_covariances gyr acc b_g b_a inv_expo num p =
     p\<lparr>ip_cov_gyr := gyr, ip_cov_acc := acc, ip_cov_bias_gyr := b_g, ip_cov_bias_acc := b_a,
       ip_cov_inv_expo := inv_expo, ip_MAX_INI_COUNT := num\<rparr>"

section \<open>Initialisation\<close>

definition mean_step :: "ImuMsg \<Rightarrow> ImuProcess \<Rightarrow> ImuProcess" where
  "mean_step imu p =
     (let N = real_of_int (init_iter_num p)
      in p\<lparr>mean_acc := v3_add (mean_acc p) (v3_scale (1 / N) (v3_sub (im_acc imu) (mean_acc p))),
           mean_gyr := v3_add (mean_gyr p) (v3_scale (1 / N) (v3_sub (im_gyr imu) (mean_gyr p))),
           init_iter_num := init_iter_num p + 1\<rparr>)"

definition IMU_init :: "ImuMsg list \<Rightarrow> ImuProcess \<Rightarrow> StatesGroup \<Rightarrow> (ImuProcess \<times> StatesGroup) exec" where
  "IMU_init imus p s =
     (if imus = [] then Undef
      else let p = (if b_first_frame p
                    then (Reset_imu p)\<lparr>init_iter_num := 1, b_first_frame := False, mean_acc := im_acc (hd imus),
                                       mean_gyr := im_gyr (hd imus)\<rparr>
                    else p);
               p = fold mean_step imus p;
               p = p\<lparr>IMU_mean_acc_norm := v3_norm (mean_acc p), last_imu := last imus\<rparr>
           in Ret (p, s\<lparr>gravity := v3_scale (G_m_s2 / v3_norm (mean_acc p)) (v3_scale (- 1) (mean_acc p)),
                        rot_end := m3_one, bias_g := v3_zero\<rparr>))"

section \<open>Propagation without an IMU\<close>

text \<open>\<open>F * P * F.transpose() + W\<close>\<close>

definition propagate_cov :: "mat \<Rightarrow> mat \<Rightarrow> mat \<Rightarrow> mat" where
  "propagate_cov F W P = madd (mmul DIM_STATE (mmul DIM_STATE F P) (mtrans F)) W"

definition diag_noise :: "vec3 \<Rightarrow> real \<Rightarrow> mat3" where
  "diag_noise c dt = m3_diag_of (v3_scale (dt * dt) c)"

definition forward_F :: "vec3 \<Rightarrow> real \<Rightarrow> mat" where
  "forward_F bias dt =
     set_block3 3 7 (m3_scale dt m3_one) (set_block3 0 10 (m3_scale dt m3_one) (set_block3 0 0 (Exp_dt bias (- dt)) mident))"

definition forward_W :: "ImuProcess \<Rightarrow> real \<Rightarrow> mat" where
  "forward_W p dt = set_block3 7 7 (diag_noise (ip_cov_acc p) dt) (set_block3 10 10 (diag_noise (ip_cov_gyr p) dt) mzero)"

definition forward_point :: "StatesGroup \<Rightarrow> real \<Rightarrow> LPoint \<Rightarrow> LPoint" where
  "forward_point s end_offset pt =
     (let dt_j = end_offset - curvature pt / 1000;
          p_jk = v3_scale dt_j (m3_apply (m3_neg (m3_transpose (rot_end s))) (vel_end s))
      in pt\<lparr>lp_xyz := v3_add (m3_apply (Exp_dt (bias_g s) (- dt_j)) (lp_xyz pt)) p_jk\<rparr>)"

definition Forward_without_imu :: "(LPoint list \<Rightarrow> LPoint list) \<Rightarrow> ImuProcess \<Rightarrow> 'img LidarMeasureGroup \<Rightarrow> StatesGroup
    \<Rightarrow> (ImuProcess \<times> 'img LidarMeasureGroup \<times> StatesGroup \<times> LPoint list) exec" where
  "Forward_without_imu time_sort p meas s =
     (if lidar meas = [] then Undef
      else let pts = time_sort (lidar meas);
               beg = lidar_frame_beg_time meas;
               end_offset = curvature (last pts) / 1000;
               dt = (if b_first_frame p then 1 / 10 else beg - time_last_scan p);
               s1 = s\<lparr>cov := propagate_cov (forward_F (bias_g s) dt) (forward_W p dt) (cov s),
                      rot_end := m3_mult (rot_end s) (Exp_dt (bias_g s) dt),
                      pos_end := v3_add (pos_end s) (v3_scale dt (vel_end s))\<rparr>;
               out = (if ip_lidar_is_L515 p then pts else hd pts # map (forward_point s1 end_offset) (tl pts))
           in Ret (p\<lparr>b_first_frame := False, time_last_scan := beg\<rparr>, meas\<lparr>last_lio_update_time := beg + end_offset\<rparr>, s1, out))"

section \<open>Propagation with the IMU\<close>

text \<open>The local variables of the loop; \<open>pg_dt_all\<close> is the time covered so far.\<close>

record propagation =
  pg_vel :: vec3
  pg_pos :: vec3
  pg_R :: mat3
  pg_cov :: mat
  pg_angvel_last :: vec3
  pg_acc_s_last :: vec3
  pg_dt_all :: real
  pg_poses :: "Pose6D list"

definition imu_F :: "ImuProcess \<Rightarrow> mat3 \<Rightarrow> vec3 \<Rightarrow> vec3 \<Rightarrow> real \<Rightarrow> mat" where
  "imu_F p R angvel acc dt =
     (let F = set_block3 0 0 (Exp_dt angvel (- dt)) mident;
          F = (if ip_ba_bg_est_en p then set_block3 0 10 (m3_scale (- dt) m3_one) F else F);
          F = set_block3 3 7 (m3_scale dt m3_one) F;
          F = set_block3 7 0 (m3_scale dt (m3_mult (m3_neg R) (skew_sym acc))) F;
          F = (if ip_ba_bg_est_en p then set_block3 7 13 (m3_scale dt (m3_neg R)) F else F)
      in if ip_gravity_est_en p then set_block3 7 16 (m3_scale dt m3_one) F else F)"

definition imu_W :: "ImuProcess \<Rightarrow> mat3 \<Rightarrow> real \<Rightarrow> mat" where
  "imu_W p R dt =
     (let W = (if ip_exposure_estimate_en p then (mzero (6 := (mzero 6) (6 := ip_cov_inv_expo p * dt * dt))) else mzero);
          W = set_block3 0 0 (diag_noise (ip_cov_gyr p) dt) W;
          W = set_block3 7 7 (m3_scale (dt * dt) (m3_mult (m3_mult R (m3_diag_of (ip_cov_acc p))) (m3_transpose R))) W;
          W = set_block3 10 10 (diag_noise (ip_cov_bias_gyr p) dt) W
      in set_block3 13 13 (diag_noise (ip_cov_bias_acc p) dt) W)"

definition v3_mid :: "vec3 \<Rightarrow> vec3 \<Rightarrow> vec3" where
  "v3_mid a b = v3_scale (1 / 2) (v3_add a b)"

text \<open>One interval between two samples: the integration time, the offset of its end and the new state.\<close>

definition interval_dt :: "real \<Rightarrow> real \<Rightarrow> bool \<Rightarrow> ImuMsg \<Rightarrow> ImuMsg \<Rightarrow> real" where
  "interval_dt prop_beg prop_end is_last head tail =
     (if im_stamp head < prop_beg then im_stamp tail - prop_beg
      else if \<not> is_last then im_stamp tail - im_stamp head
      else prop_end - im_stamp head)"

definition interval_offset :: "real \<Rightarrow> real \<Rightarrow> bool \<Rightarrow> ImuMsg \<Rightarrow> ImuMsg \<Rightarrow> real" where
  "interval_offset prop_beg prop_end is_last head tail =
     (if im_stamp head < prop_beg \<or> \<not> is_last then im_stamp tail - prop_beg else prop_end - prop_beg)"

definition prop_interval :: "ImuProcess \<Rightarrow> StatesGroup \<Rightarrow> real \<Rightarrow> real \<Rightarrow> ImuMsg \<Rightarrow> ImuMsg \<Rightarrow> propagation \<Rightarrow> propagation" where
  "prop_interval p s dt offs head tail g =
     (let angvel_avr = v3_sub (v3_mid (im_gyr head) (im_gyr tail)) (bias_g s);
          acc_avr = v3_sub (v3_scale (G_m_s2 / v3_norm (mean_acc p)) (v3_mid (im_acc head) (im_acc tail))) (bias_a s);
          R = m3_mult (pg_R g) (Exp_dt angvel_avr dt);
          acc = v3_add (m3_apply R acc_avr) (gravity s);
          pos = v3_add (v3_add (pg_pos g) (v3_scale dt (pg_vel g))) (v3_scale (1 / 2 * dt * dt) acc);
          vel = v3_add (pg_vel g) (v3_scale dt acc)
      in g\<lparr>pg_cov := propagate_cov (imu_F p (pg_R g) angvel_avr acc_avr dt) (imu_W p (pg_R g) dt) (pg_cov g),
           pg_R := R, pg_pos := pos, pg_vel := vel, pg_angvel_last := angvel_avr, pg_acc_s_last := acc,
           pg_dt_all := pg_dt_all g + dt, pg_poses := pg_poses g @ [set_pose6d offs acc angvel_avr vel pos R]\<rparr>)"

fun prop_loop :: "ImuProcess \<Rightarrow> StatesGroup \<Rightarrow> real \<Rightarrow> real \<Rightarrow> ImuMsg list \<Rightarrow> propagation \<Rightarrow> propagation" where
  "prop_loop p s prop_beg prop_end (head # tail # rest) g =
     prop_loop p s prop_beg prop_end (tail # rest)
       (if im_stamp tail < prop_beg then g
        else prop_interval p s (interval_dt prop_beg prop_end (rest = []) head tail)
               (interval_offset prop_beg prop_end (rest = []) head tail) head tail g)"
| "prop_loop p s prop_beg prop_end _ g = g"

section \<open>Undistortion\<close>

text \<open>A point moved from the pose of its capture to the end of the scan.\<close>

definition compensate :: "ImuProcess \<Rightarrow> StatesGroup \<Rightarrow> Pose6D \<Rightarrow> LPoint \<Rightarrow> LPoint" where
  "compensate p s head pt =
     (let dt = curvature pt / 1000 - p6_offset_time head;
          R_i = m3_mult (p6_rot head) (Exp_dt (p6_gyr head) dt);
          T_ei = v3_sub (v3_add (v3_add (p6_pos head) (v3_scale dt (p6_vel head))) (v3_scale (1 / 2 * dt * dt) (p6_acc head))) (pos_end s);
          extR_Ri = m3_mult (m3_transpose (Lid_rot_to_IMU p)) (m3_transpose (rot_end s));
          exrR_extT = m3_apply (m3_transpose (Lid_rot_to_IMU p)) (Lid_offset_to_IMU p);
          P_i = lp_xyz pt
      in pt\<lparr>lp_xyz := v3_sub (m3_apply extR_Ri (v3_add (m3_apply R_i (v3_add (m3_apply (Lid_rot_to_IMU p) P_i) (Lid_offset_to_IMU p))) T_ei))
              exrR_extT\<rparr>)"

text \<open>The loop over the points, from \<open>it_pcl\<close> down; it leaves the iterator at the first point without moving it on.\<close>

fun undistort_points :: "(LPoint \<Rightarrow> LPoint) \<Rightarrow> real \<Rightarrow> nat \<Rightarrow> LPoint list \<Rightarrow> LPoint list \<times> nat" where
  "undistort_points f t 0 pts = (if curvature (pts ! 0) / 1000 > t then pts[0 := f (pts ! 0)] else pts, 0)"
| "undistort_points f t (Suc k) pts =
     (if curvature (pts ! Suc k) / 1000 > t then undistort_points f t k (pts[Suc k := f (pts ! Suc k)]) else (pts, Suc k))"

fun undistort_heads :: "ImuProcess \<Rightarrow> StatesGroup \<Rightarrow> Pose6D list \<Rightarrow> nat \<Rightarrow> LPoint list \<Rightarrow> LPoint list" where
  "undistort_heads p s [] k pts = pts"
| "undistort_heads p s (head # heads) k pts =
     (let r = undistort_points (compensate p s head) (p6_offset_time head) k pts
      in undistort_heads p s heads (snd r) (fst r))"

definition undistort :: "ImuProcess \<Rightarrow> StatesGroup \<Rightarrow> Pose6D list \<Rightarrow> LPoint list \<Rightarrow> LPoint list" where
  "undistort p s poses pts = undistort_heads p s (rev (butlast poses)) (length pts - 1) pts"

text \<open>\<open>UndistortPcl\<close> takes the scan and the pose at its start, propagates, and undistorts the scan of a LiDAR update.\<close>

definition take_scan :: "ImuProcess \<Rightarrow> 'img LidarMeasureGroup \<Rightarrow> StatesGroup \<Rightarrow> ImuProcess" where
  "take_scan p lidar_meas s =
     (if lio_vio_flg lidar_meas = LIO
      then p\<lparr>pcl_wait_proc := pcl_proc_cur lidar_meas,
             IMUpose := IMUpose p @ [set_pose6d 0 (acc_s_last p) (angvel_last p) (vel_end s) (pos_end s) (rot_end s)]\<rparr>
      else p)"

definition prop_end_of :: "EKF_STATE \<Rightarrow> 'img MeasureGroup \<Rightarrow> real" where
  "prop_end_of flag meas = (if flag = LIO then m_lio_time meas else m_vio_time meas)"

definition propagate :: "ImuProcess \<Rightarrow> EKF_STATE \<Rightarrow> 'img MeasureGroup \<Rightarrow> StatesGroup \<Rightarrow> propagation" where
  "propagate p flag meas s =
     (let g = \<lparr>pg_vel = vel_end s, pg_pos = pos_end s, pg_R = rot_end s, pg_cov = cov s,
               pg_angvel_last = angvel_last p, pg_acc_s_last = acc_s_last p, pg_dt_all = 0, pg_poses = IMUpose p\<rparr>
      in if flag = LIO \<or> flag = VIO
         then prop_loop p s (last_prop_end_time p) (prop_end_of flag meas) (last_imu p # m_imu meas) g else g)"

definition finish_update :: "real \<Rightarrow> ImuMsg \<Rightarrow> propagation \<Rightarrow> ImuProcess \<Rightarrow> 'img LidarMeasureGroup \<Rightarrow> StatesGroup
    \<Rightarrow> ImuProcess \<times> 'img LidarMeasureGroup \<times> StatesGroup \<times> LPoint list" where
  "finish_update prop_end imu g p lidar_meas s =
     (let flag = lio_vio_flg lidar_meas;
          meas1 = (if flag = LIO \<or> flag = VIO then lidar_meas\<lparr>last_lio_update_time := prop_end\<rparr> else lidar_meas);
          s1 = s\<lparr>vel_end := pg_vel g, rot_end := pg_R g, pos_end := pg_pos g,
                 inv_expo_time := (if imu_time_init p then inv_expo_time s else 1), cov := pg_cov g\<rparr>;
          p1 = p\<lparr>imu_time_init := True, angvel_last := pg_angvel_last g, acc_s_last := pg_acc_s_last g,
                 IMUpose := pg_poses g, last_imu := imu, last_prop_end_time := prop_end\<rparr>
      in if pcl_wait_proc p1 = [] \<or> flag \<noteq> LIO then (p1, meas1, s1, [])
         else (p1\<lparr>pcl_wait_proc := [], IMUpose := []\<rparr>, meas1, s1, undistort p1 s1 (IMUpose p1) (pcl_wait_proc p1)))"

definition UndistortPcl :: "ImuProcess \<Rightarrow> 'img LidarMeasureGroup \<Rightarrow> StatesGroup
    \<Rightarrow> (ImuProcess \<times> 'img LidarMeasureGroup \<times> StatesGroup \<times> LPoint list) exec" where
  "UndistortPcl p lidar_meas s =
     (if measures lidar_meas = [] then Undef
      else let meas = last (measures lidar_meas);
               p1 = take_scan p lidar_meas s
           in Ret (finish_update (prop_end_of (lio_vio_flg lidar_meas) meas) (last (last_imu p # m_imu meas))
                (propagate p1 (lio_vio_flg lidar_meas) meas s) p1 lidar_meas s))"

text \<open>\<open>Process2\<close>; the last argument is \<open>cur_pcl_un_\<close>, which keeps its points while the IMU is initialised.\<close>

definition Process2 :: "(LPoint list \<Rightarrow> LPoint list) \<Rightarrow> se3 \<Rightarrow> ImuProcess \<Rightarrow> 'img LidarMeasureGroup \<Rightarrow> StatesGroup \<Rightarrow> LPoint list
    \<Rightarrow> (ImuProcess \<times> 'img LidarMeasureGroup \<times> StatesGroup \<times> LPoint list) exec" where
  "Process2 time_sort T_G_to_W p lidar_meas s cur_pcl_un =
     (if \<not> ip_imu_en p then Forward_without_imu time_sort p lidar_meas s
      else if measures lidar_meas = [] then Undef
      else let meas = last (measures lidar_meas)
           in if imu_need_init p
              then if m_imu meas = [] then Ret (p, lidar_meas, s, cur_pcl_un)
                   else bind_exec (IMU_init (m_imu meas) p s) (\<lambda>(p1, s1).
                     Ret (p1\<lparr>imu_need_init := \<not> init_iter_num p1 > ip_MAX_INI_COUNT p1\<rparr>, lidar_meas, s1, cur_pcl_un))
              else let meas1 = GetRTKCorrectedState T_G_to_W (lio_vio_flg lidar_meas) meas
                   in UndistortPcl p (lidar_meas\<lparr>measures := butlast (measures lidar_meas) @ [meas1]\<rparr>) s)"

section \<open>The invariant of the filter state\<close>

text \<open>The attitude stays a rotation and the covariance symmetric and positive semidefinite, whatever the measurements.\<close>

definition v3_nonneg :: "vec3 \<Rightarrow> bool" where
  "v3_nonneg c = (case c of (x, y, z) \<Rightarrow> 0 \<le> x \<and> 0 \<le> y \<and> 0 \<le> z)"

definition noise_ok :: "ImuProcess \<Rightarrow> bool" where
  "noise_ok p = (v3_nonneg (ip_cov_acc p) \<and> v3_nonneg (ip_cov_gyr p) \<and> v3_nonneg (ip_cov_bias_gyr p) \<and>
     v3_nonneg (ip_cov_bias_acc p) \<and> 0 \<le> ip_cov_inv_expo p)"

definition poses_ok :: "Pose6D list \<Rightarrow> bool" where
  "poses_ok hs = (\<forall>h \<in> set hs. is_rotation (p6_rot h))"

definition imu_ok :: "ImuProcess \<Rightarrow> bool" where
  "imu_ok p = (noise_ok p \<and> poses_ok (IMUpose p))"

definition state_ok :: "StatesGroup \<Rightarrow> bool" where
  "state_ok s = (is_rotation (rot_end s) \<and> msym DIM_STATE (cov s) \<and> mpsd DIM_STATE (cov s))"

definition prop_ok :: "propagation \<Rightarrow> bool" where
  "prop_ok g = (is_rotation (pg_R g) \<and> msym DIM_STATE (pg_cov g) \<and> mpsd DIM_STATE (pg_cov g) \<and> poses_ok (pg_poses g))"

lemma diag_noise_psd: "v3_nonneg c \<Longrightarrow> m3_sym_psd (diag_noise c dt)"
  by (cases c) (simp add: diag_noise_def m3_diag_of_def v3_nonneg_def m3_sym_psd_diag)

lemma scaled_conj_psd: "v3_nonneg c \<Longrightarrow> m3_sym_psd (m3_scale (dt * dt) (m3_mult (m3_mult R (m3_diag_of c)) (m3_transpose R)))"
  by (intro m3_sym_psd_scale m3_sym_psd_conj; cases c) (simp_all add: m3_diag_of_def v3_nonneg_def m3_sym_psd_diag)

lemma imu_W_psd:
  assumes "noise_ok p"
  shows "msym DIM_STATE (imu_W p R dt)" "mpsd DIM_STATE (imu_W p R dt)"
proof -
  define W0 where "W0 = (if ip_exposure_estimate_en p then (mzero (6 := (mzero 6) (6 := ip_cov_inv_expo p * dt * dt))) else mzero)"
  have "W0 i j = mdiag (\<lambda>i. if ip_exposure_estimate_en p \<and> i = 6 then ip_cov_inv_expo p * dt * dt else 0) i j" for i j
    by (simp add: W0_def mdiag_def mzero_def)
  then have W0: "msym DIM_STATE W0" "mpsd DIM_STATE W0"
    by (rule mpsd_diagI; use assms in \<open>simp add: noise_ok_def mult.assoc\<close>)+
  have z: "W0 i j = 0" if "\<not> (i = 6 \<and> j = 6)" for i j using that by (auto simp: W0_def mzero_def)
  show "msym DIM_STATE (imu_W p R dt)" "mpsd DIM_STATE (imu_W p R dt)"
    unfolding imu_W_def Let_def W0_def [symmetric]
    by (intro set_block3_sym_psd diag_noise_psd scaled_conj_psd W0;
        use assms in \<open>simp add: noise_ok_def DIM_STATE_def set_block3_def z\<close>)+
qed

lemma forward_W_psd:
  assumes "noise_ok p"
  shows "msym DIM_STATE (forward_W p dt)" "mpsd DIM_STATE (forward_W p dt)"
  unfolding forward_W_def
  by (intro set_block3_sym_psd diag_noise_psd mzero_sym_psd;
      use assms in \<open>simp add: noise_ok_def DIM_STATE_def set_block3_def mzero_def\<close>)+

lemma propagate_cov_ok [inv_intros]:
  "msym DIM_STATE P \<Longrightarrow> msym DIM_STATE W \<Longrightarrow> msym DIM_STATE (propagate_cov F W P)"
  "mpsd DIM_STATE P \<Longrightarrow> mpsd DIM_STATE W \<Longrightarrow> mpsd DIM_STATE (propagate_cov F W P)"
  by (simp_all add: propagate_cov_def msym_add msym_conj mpsd_add mpsd_conj)

lemma prop_interval_ok: "noise_ok p \<Longrightarrow> prop_ok g \<Longrightarrow> prop_ok (prop_interval p s dt offs head tail g)"
  by (auto simp: prop_ok_def prop_interval_def Let_def poses_ok_def set_pose6d_def is_rotation_mult Exp_rotation
      propagate_cov_ok imu_W_psd)

lemma prop_loop_ok: "noise_ok p \<Longrightarrow> prop_ok g \<Longrightarrow> prop_ok (prop_loop p s b e v g)"
  by (induction p s b e v g rule: prop_loop.induct) (simp_all add: prop_interval_ok)

lemma take_scan_ok: "imu_ok p \<Longrightarrow> state_ok s \<Longrightarrow> imu_ok (take_scan p lm s)"
  by (auto simp: imu_ok_def take_scan_def noise_ok_def state_ok_def poses_ok_def set_pose6d_def)

lemma propagate_ok: "imu_ok p \<Longrightarrow> state_ok s \<Longrightarrow> prop_ok (propagate p flag meas s)"
  unfolding propagate_def Let_def
  by (auto intro!: prop_loop_ok simp: imu_ok_def state_ok_def) (simp_all add: prop_ok_def)

lemma finish_update_ok:
  assumes "finish_update e i g p lidar_meas s = (p', lidar_meas', s', out)" "imu_ok p" "prop_ok g"
  shows "imu_ok p' \<and> state_ok s'"
  using assms
  by (auto simp: finish_update_def Let_def imu_ok_def noise_ok_def prop_ok_def state_ok_def poses_ok_def split: if_splits)

lemma UndistortPcl_ok:
  assumes "UndistortPcl p lidar_meas s = Ret (p', lidar_meas', s', out)" "imu_ok p" "state_ok s"
  shows "imu_ok p' \<and> state_ok s'"
proof (rule finish_update_ok)
  let ?p = "take_scan p lidar_meas s" and ?m = "last (measures lidar_meas)"
  show "finish_update (prop_end_of (lio_vio_flg lidar_meas) ?m) (last (last_imu p # m_imu ?m))
      (propagate ?p (lio_vio_flg lidar_meas) ?m s) ?p lidar_meas s = (p', lidar_meas', s', out)"
    using assms(1) by (simp add: UndistortPcl_def Let_def split: if_splits)
  show "imu_ok ?p" "prop_ok (propagate ?p (lio_vio_flg lidar_meas) ?m s)"
    using assms(2,3) by (simp_all add: take_scan_ok propagate_ok)
qed

lemma Forward_without_imu_ok:
  assumes "Forward_without_imu srt p lidar_meas s = Ret (p', lidar_meas', s', out)" "imu_ok p" "state_ok s"
  shows "imu_ok p' \<and> state_ok s'"
  using assms
  by (auto simp: Forward_without_imu_def Let_def imu_ok_def noise_ok_def state_ok_def is_rotation_mult Exp_rotation
      propagate_cov_ok forward_W_psd split: if_splits)

lemma imu_ok_updates:
  "imu_ok (p\<lparr>IMU_mean_acc_norm := x, last_imu := i\<rparr>) = imu_ok p"
  "imu_ok (p\<lparr>mean_acc := a, mean_gyr := b, init_iter_num := n\<rparr>) = imu_ok p"
  "imu_ok (p\<lparr>imu_need_init := d\<rparr>) = imu_ok p"
  "imu_ok p \<Longrightarrow> imu_ok ((Reset_imu p)\<lparr>init_iter_num := n, b_first_frame := c, mean_acc := a, mean_gyr := b\<rparr>)"
  by (simp_all add: imu_ok_def noise_ok_def Reset_imu_def poses_ok_def)

lemma mean_step_ok: "imu_ok (fold mean_step imus p) = imu_ok p"
  by (induction imus arbitrary: p) (simp_all add: mean_step_def Let_def imu_ok_updates)

lemma IMU_init_ok:
  assumes "IMU_init imus p s = Ret (p', s')" "imu_ok p" "state_ok s"
  shows "imu_ok p' \<and> state_ok s'"
proof -
  define q where "q = fold mean_step imus (if b_first_frame p
      then (Reset_imu p)\<lparr>init_iter_num := 1, b_first_frame := False, mean_acc := im_acc (hd imus), mean_gyr := im_gyr (hd imus)\<rparr> else p)"
  have "imu_ok q" using assms(2) by (simp add: q_def mean_step_ok imu_ok_updates)
  moreover have "p' = q\<lparr>IMU_mean_acc_norm := v3_norm (mean_acc q), last_imu := last imus\<rparr>"
      "rot_end s' = m3_one" "cov s' = cov s"
    using assms(1) by (auto simp: IMU_init_def Let_def q_def split: if_splits)
  ultimately show ?thesis using assms(3) by (simp add: state_ok_def imu_ok_updates)
qed

text \<open>C24: along every call of \<open>Process2\<close> - initialisation, propagation with the IMU of either kind of update, or
  without an IMU - the attitude of the filter and the attitudes of the saved poses stay rotations and its covariance
  stays symmetric and positive semidefinite, whatever the measurements, the biases and the switches are; the noise
  covariances only have to be non-negative.\<close>

theorem process_keeps_state_ok:
  assumes "Process2 time_sort T_G_to_W p lidar_meas s cur_pcl_un = Ret (p', lidar_meas', s', out)"
    and "imu_ok p" "state_ok s"
  shows "imu_ok p' \<and> state_ok s'"
proof (cases "ip_imu_en p \<and> imu_need_init p")
  case True
  then have "p' = p \<and> s' = s \<or> (\<exists>q d. IMU_init (m_imu (last (measures lidar_meas))) p s = Ret (q, s') \<and> p' = q\<lparr>imu_need_init := d\<rparr>)"
    using assms(1) by (auto simp: Process2_def Let_def bind_exec_Ret_iff split: if_splits)
  then show ?thesis using IMU_init_ok assms(2,3) by (auto simp: imu_ok_updates)
next
  case False
  then have "Forward_without_imu time_sort p lidar_meas s = Ret (p', lidar_meas', s', out)
      \<or> (\<exists>lm. UndistortPcl p lm s = Ret (p', lidar_meas', s', out))"
    using assms(1) by (auto simp: Process2_def Let_def split: if_splits)
  then show ?thesis using Forward_without_imu_ok UndistortPcl_ok assms(2,3) by blast
qed

section \<open>The interval covered\<close>

text \<open>The interval of one pair ends at the offset stamped on its pose.\<close>

lemma prop_interval_simps:
  "pg_dt_all (prop_interval p s dt offs head tail g) = pg_dt_all g + dt"
  "pg_poses (prop_interval p s dt offs head tail g) \<noteq> []"
  "p6_offset_time (last (pg_poses (prop_interval p s dt offs head tail g))) = offs"
  by (simp_all add: prop_interval_def Let_def set_pose6d_def)

definition stamped :: "propagation \<Rightarrow> real \<Rightarrow> bool" where
  "stamped g t = (pg_dt_all g = t \<and> pg_poses g \<noteq> [] \<and> p6_offset_time (last (pg_poses g)) = t)"

lemma prop_loop_inside:
  assumes "sorted (map im_stamp (head # tail # rest))" "b \<le> im_stamp head" "pg_dt_all g = im_stamp head - b"
  shows "stamped (prop_loop p s b e (head # tail # rest) g) (e - b)"
  using assms
proof (induction rest arbitrary: head tail g)
  case Nil
  then show ?case
    by (simp add: stamped_def prop_interval_simps interval_dt_def interval_offset_def)
next
  case (Cons x rest)
  let ?g = "prop_interval p s (interval_dt b e False head tail) (interval_offset b e False head tail) head tail g"
  have "pg_dt_all ?g = im_stamp tail - b"
    using Cons.prems by (simp add: prop_interval_simps interval_dt_def)
  then have "stamped (prop_loop p s b e (tail # x # rest) ?g) (e - b)"
    using Cons.prems by (intro Cons.IH) auto
  then show ?case using Cons.prems by simp
qed

lemma last_butlast_mem: "2 \<le> length v \<Longrightarrow> last (butlast v) \<in> set v"
proof -
  assume "2 \<le> length v"
  then have "length (butlast v) \<noteq> 0" by simp
  then have "butlast v \<noteq> []" by blast
  then show ?thesis by (rule in_set_butlastD [OF last_in_set])
qed

text \<open>C23: the samples of an update, with the last sample of the previous update in front, are integrated over
  exactly the time from the end of the previous propagation to the end of this one, and the last pose saved is
  stamped with that offset - provided the last but one sample is not before the end of the previous propagation.
  Otherwise the loop stops at the last sample and what remains of the interval is lost; with no sample after the
  end of the previous propagation the state does not move at all.\<close>

theorem propagation_covers_interval:
  assumes "sorted (map im_stamp v)" "2 \<le> length v" "im_stamp (hd v) \<le> b" "pg_dt_all g = 0"
  shows "if im_stamp (last v) < b then prop_loop p s b e v g = g
         else stamped (prop_loop p s b e v g) ((if im_stamp (last (butlast v)) < b then im_stamp (last v) else e) - b)"
  using assms
proof (induction v rule: induct_list012)
  case (3 head tail rest)
  note prems = 3(3-6)
  let ?g = "prop_interval p s (interval_dt b e (rest = []) head tail) (interval_offset b e (rest = []) head tail) head tail g"
  consider "im_stamp tail < b" | "b \<le> im_stamp tail" "rest = []" | x xs where "b \<le> im_stamp tail" "rest = x # xs"
    by (metis list.exhaust not_less)
  then show ?case
  proof cases
    case 1
    with 3 show ?thesis by (cases rest) auto
  next
    case 2
    with 3 show ?thesis
      by (auto simp: stamped_def prop_interval_simps interval_dt_def interval_offset_def)
  next
    case (3 x xs)
    have "pg_dt_all ?g = im_stamp tail - b"
      using prems 3 by (auto simp: prop_interval_simps interval_dt_def)
    then have "stamped (prop_loop p s b e (tail # x # xs) ?g) (e - b)"
      using prems(1) 3 by (intro prop_loop_inside) auto
    moreover have "last (x # xs) \<in> set (tail # x # xs)" "last (butlast (tail # x # xs)) \<in> set (tail # x # xs)"
      using last_in_set [of "x # xs"] last_butlast_mem [of "tail # x # xs"] by (blast intro: list.set_intros(2), simp)
    moreover have "\<forall>y \<in> set (tail # x # xs). im_stamp tail \<le> im_stamp y"
      using prems(1) 3 by simp
    ultimately have "b \<le> im_stamp (last (x # xs))" "b \<le> im_stamp (last (butlast (tail # x # xs)))"
        "stamped (prop_loop p s b e (tail # x # xs) ?g) (e - b)"
      using 3(1) order_trans by blast+
    moreover have "prop_loop p s b e (head # tail # rest) g = prop_loop p s b e (tail # x # xs) ?g"
        "last (head # tail # rest) = last (x # xs)" "last (butlast (head # tail # rest)) = last (butlast (tail # x # xs))"
      using 3 by simp_all
    ultimately show ?thesis by (simp only: not_less [symmetric] if_False)
  qed
qed simp_all

text \<open>A sample in front, two samples after the end of the previous propagation: the interval to its end.\<close>

definition ex_sample :: "real \<Rightarrow> ImuMsg" where
  "ex_sample t = \<lparr>im_stamp = t, im_acc = (0, 0, G_m_s2), im_gyr = v3_zero\<rparr>"

definition ex_prop :: propagation where
  "ex_prop = \<lparr>pg_vel = v3_zero, pg_pos = v3_zero, pg_R = m3_one, pg_cov = init_cov, pg_angvel_last = v3_zero,
     pg_acc_s_last = v3_zero, pg_dt_all = 0, pg_poses = []\<rparr>"

theorem propagation_covers_interval_witness:
  "stamped (prop_loop (new_ImuProcess 0 0 0 False) new_StatesGroup 1 5 [ex_sample 0, ex_sample 2, ex_sample 3] ex_prop) 4"
  using propagation_covers_interval [of "[ex_sample 0, ex_sample 2, ex_sample 3]" 1 ex_prop "new_ImuProcess 0 0 0 False" new_StatesGroup 5]
  by (simp add: ex_sample_def ex_prop_def)

text \<open>The lost remainder: samples at 0, 2 and an interval from 1 to 5 are integrated up to 2 only.\<close>

lemma propagation_stops_at_sample:
  "stamped (prop_loop (new_ImuProcess 0 0 0 False) new_StatesGroup 1 5 [ex_sample 0, ex_sample 2] ex_prop) 1"
  by (simp add: stamped_def prop_interval_def set_pose6d_def interval_dt_def interval_offset_def ex_sample_def ex_prop_def Let_def)

section \<open>The undistorted scan\<close>

text \<open>One head moves the points captured after it, down from the iterator, and leaves the iterator behind them.\<close>

lemma map_key_update: "(\<And>q. curvature (f q) = curvature q) \<Longrightarrow> k < length pts \<Longrightarrow>
    map curvature (pts[k := f (pts ! k)]) = map curvature pts"
  by (simp add: map_update list_update_same_conv)

lemma undistort_points_spec:
  assumes "sorted (map curvature pts)" "k < length pts" "\<And>q. curvature (f q) = curvature q"
  shows "map curvature (fst (undistort_points f t k pts)) = map curvature pts \<and>
     (\<forall>i < length pts. fst (undistort_points f t k pts) ! i = (if i \<le> k \<and> t < curvature (pts ! i) / 1000 then f (pts ! i) else pts ! i)) \<and>
     (\<forall>i < length pts. 0 < i \<longrightarrow> (i \<le> snd (undistort_points f t k pts) \<longleftrightarrow> i \<le> k \<and> \<not> t < curvature (pts ! i) / 1000)) \<and>
     snd (undistort_points f t k pts) \<le> k"
  using assms(1,2)
proof (induction k arbitrary: pts)
  case 0
  then show ?case by (auto simp: map_key_update assms(3) nth_list_update)
next
  case (Suc k)
  let ?pts = "pts[Suc k := f (pts ! Suc k)]"
  have m: "map curvature ?pts = map curvature pts"
    by (rule map_key_update [OF assms(3) Suc.prems(2)])
  have mono: "curvature (pts ! i) \<le> curvature (pts ! Suc k)" if "i \<le> Suc k" for i
    using sorted_nth_mono [OF Suc.prems(1) that] Suc.prems(2) that by simp
  show ?case
  proof (cases "t < curvature (pts ! Suc k) / 1000")
    case True
    have IH: "map curvature (fst (undistort_points f t k ?pts)) = map curvature pts"
      "\<And>i. i < length pts \<Longrightarrow> fst (undistort_points f t k ?pts) ! i = (if i \<le> k \<and> t < curvature (?pts ! i) / 1000 then f (?pts ! i) else ?pts ! i)"
      "\<And>i. i < length pts \<Longrightarrow> 0 < i \<Longrightarrow> (i \<le> snd (undistort_points f t k ?pts) \<longleftrightarrow> i \<le> k \<and> \<not> t < curvature (?pts ! i) / 1000)"
      "snd (undistort_points f t k ?pts) \<le> k"
      using Suc.IH [of ?pts] Suc.prems m by auto
    have nth: "?pts ! i = (if i = Suc k then f (pts ! Suc k) else pts ! i)" if "i < length pts" for i
      using that by (simp add: nth_list_update)
    have e: "undistort_points f t (Suc k) pts = undistort_points f t k ?pts" using True by simp
    show ?thesis unfolding e using IH True by (auto simp: nth le_Suc_eq)
  next
    case False
    then have "\<not> t < curvature (pts ! i) / 1000" if "i \<le> Suc k" for i
      using mono [OF that] by (simp add: field_simps)
    then show ?thesis using False by auto
  qed
qed

lemma compensate_key: "curvature (compensate p s h q) = curvature q"
  by (simp add: compensate_def Let_def)

definition later :: "LPoint \<Rightarrow> Pose6D \<Rightarrow> bool" where
  "later q h = (p6_offset_time h < curvature q / 1000)"

lemma undistort_heads_spec:
  assumes "sorted (map curvature pts)" "k < length pts"
  shows "length (undistort_heads p s hs k pts) = length pts \<and>
     (\<forall>i < length pts. 0 < i \<longrightarrow> undistort_heads p s hs k pts ! i =
        (if i \<le> k then (case find (later (pts ! i)) hs of None \<Rightarrow> pts ! i | Some h \<Rightarrow> compensate p s h (pts ! i)) else pts ! i)) \<and>
     undistort_heads p s hs k pts ! 0 = fold (compensate p s) (filter (later (pts ! 0)) hs) (pts ! 0)"
  using assms
proof (induction hs arbitrary: k pts)
  case (Cons h hs)
  let ?r = "undistort_points (compensate p s h) (p6_offset_time h) k pts"
  note r = undistort_points_spec [OF Cons.prems, of "compensate p s h" "p6_offset_time h", OF compensate_key]
  have len: "length (fst ?r) = length pts" using r by (metis length_map)
  have key: "curvature (fst ?r ! i) = curvature (pts ! i)" if "i < length pts" for i
    using r that len by (metis nth_map)
  have later: "later (fst ?r ! i) = later (pts ! i)" if "i < length pts" for i
    using key [OF that] by (simp add: later_def fun_eq_iff)
  have IH: "length (undistort_heads p s hs (snd ?r) (fst ?r)) = length pts"
    "\<And>i. i < length pts \<Longrightarrow> 0 < i \<Longrightarrow> undistort_heads p s hs (snd ?r) (fst ?r) ! i =
        (if i \<le> snd ?r then (case find (later (fst ?r ! i)) hs of None \<Rightarrow> fst ?r ! i | Some h \<Rightarrow> compensate p s h (fst ?r ! i)) else fst ?r ! i)"
    "undistort_heads p s hs (snd ?r) (fst ?r) ! 0 = fold (compensate p s) (filter (later (fst ?r ! 0)) hs) (fst ?r ! 0)"
    using Cons.IH [of "fst ?r" "snd ?r"] Cons.prems r len by auto
  have e: "undistort_heads p s (h # hs) k pts = undistort_heads p s hs (snd ?r) (fst ?r)" by (simp add: Let_def)
  have pos: "undistort_heads p s hs (snd ?r) (fst ?r) ! i =
        (if i \<le> k then (case find (later (pts ! i)) (h # hs) of None \<Rightarrow> pts ! i | Some h \<Rightarrow> compensate p s h (pts ! i)) else pts ! i)"
    if "i < length pts" "0 < i" for i
  proof -
    have f: "fst ?r ! i = (if i \<le> k \<and> later (pts ! i) h then compensate p s h (pts ! i) else pts ! i)"
        and n: "i \<le> snd ?r \<longleftrightarrow> i \<le> k \<and> \<not> later (pts ! i) h"
      using r that unfolding later_def by blast+
    show ?thesis unfolding IH(2) [OF that] later [OF that(1)] n f
      by (cases "i \<le> k"; cases "later (pts ! i) h") simp_all
  qed
  have "0 < length pts" using Cons.prems(2) by linarith
  then have zero: "fst ?r ! 0 = (if later (pts ! 0) h then compensate p s h (pts ! 0) else pts ! 0)"
    using r by (simp add: later_def)
  show ?case
    unfolding e using IH(1,3) pos \<open>0 < length pts\<close> by (simp add: later zero [symmetric]) (simp add: zero)
qed (auto simp: later_def)

text \<open>Where a point of the scan is in the world: seen from a pose saved before its capture, moved on with the
  velocity, acceleration and rate of that pose; and seen from the state at the end of the scan.\<close>

definition world_from_pose :: "ImuProcess \<Rightarrow> Pose6D \<Rightarrow> LPoint \<Rightarrow> vec3" where
  "world_from_pose p h q =
     (let dt = curvature q / 1000 - p6_offset_time h
      in v3_add (m3_apply (m3_mult (p6_rot h) (Exp_dt (p6_gyr h) dt)) (v3_add (m3_apply (Lid_rot_to_IMU p) (lp_xyz q)) (Lid_offset_to_IMU p)))
           (v3_add (v3_add (p6_pos h) (v3_scale dt (p6_vel h))) (v3_scale (1 / 2 * dt * dt) (p6_acc h))))"

definition world_from_end :: "ImuProcess \<Rightarrow> StatesGroup \<Rightarrow> LPoint \<Rightarrow> vec3" where
  "world_from_end p s q =
     v3_add (m3_apply (rot_end s) (v3_add (m3_apply (Lid_rot_to_IMU p) (lp_xyz q)) (Lid_offset_to_IMU p))) (pos_end s)"

lemma v3_cancel: "v3_add (v3_sub u v) v = u" "v3_sub (v3_add u w) u = w" "v3_add u (v3_sub w v) = v3_sub (v3_add u w) v"
  by (cases u; cases v; cases w; simp)+

lemma m3_apply_sub: "m3_apply m (v3_sub u v) = v3_sub (m3_apply m u) (m3_apply m v)"
proof -
  obtain a b c d e f g h i where m: "m = ((a, b, c), (d, e, f), (g, h, i))" by (metis prod.exhaust)
  show ?thesis by (cases u; cases v) (simp add: m algebra_simps)
qed

lemma compensate_world:
  assumes "is_rotation (rot_end s)" "is_rotation (Lid_rot_to_IMU p)"
  shows "world_from_end p s (compensate p s h q) = world_from_pose p h q"
proof -
  define dt where "dt = curvature q / 1000 - p6_offset_time h"
  define x where "x = m3_apply (m3_mult (p6_rot h) (Exp_dt (p6_gyr h) dt)) (v3_add (m3_apply (Lid_rot_to_IMU p) (lp_xyz q)) (Lid_offset_to_IMU p))"
  define y where "y = v3_add (v3_add (p6_pos h) (v3_scale dt (p6_vel h))) (v3_scale (1 / 2 * dt * dt) (p6_acc h))"
  have "lp_xyz (compensate p s h q) = v3_sub (m3_apply (m3_transpose (Lid_rot_to_IMU p)) (m3_apply (m3_transpose (rot_end s)) (v3_add x (v3_sub y (pos_end s)))))
      (m3_apply (m3_transpose (Lid_rot_to_IMU p)) (Lid_offset_to_IMU p))"
    by (simp add: compensate_def Let_def x_def y_def dt_def m3_mult_apply)
  then have "world_from_end p s (compensate p s h q) = v3_add (v3_add x (v3_sub y (pos_end s))) (pos_end s)"
    by (simp add: world_from_end_def m3_apply_sub is_rotation_apply assms v3_cancel)
  also have "\<dots> = v3_add x y" by (simp add: v3_cancel)
  finally show ?thesis by (simp add: world_from_pose_def Let_def x_def y_def dt_def)
qed

text \<open>C22: undistortion of a scan sorted by time: every point but the first that was captured after some saved pose
  (other than the last) is moved exactly once, from the latest such pose in the list, so that seen from the state
  at the end of the scan it is where it was in the world when it was captured; a point captured before all of
  them is left alone. The first point of the scan is moved by every pose saved before its capture in turn.\<close>

theorem undistort_keeps_world_points:
  assumes "sorted (map curvature pts)" "pts \<noteq> []" "is_rotation (rot_end s)" "is_rotation (Lid_rot_to_IMU p)"
  shows "length (undistort p s poses pts) = length pts \<and>
     (\<forall>i. 0 < i \<and> i < length pts \<longrightarrow>
        (case find (later (pts ! i)) (rev (butlast poses)) of
           None \<Rightarrow> undistort p s poses pts ! i = pts ! i
         | Some h \<Rightarrow> world_from_end p s (undistort p s poses pts ! i) = world_from_pose p h (pts ! i))) \<and>
     undistort p s poses pts ! 0 = fold (compensate p s) (filter (later (pts ! 0)) (rev (butlast poses))) (pts ! 0)"
proof -
  have "length pts - 1 < length pts" using assms(2) by (cases pts) auto
  note spec = undistort_heads_spec [OF assms(1) this, of p s "rev (butlast poses)"]
  then show ?thesis
    using compensate_world [OF assms(3,4)] by (auto simp: undistort_def split: option.splits)
qed

text \<open>Two points at 10 and 20 ms and two saved poses at 0 and 30 ms.\<close>

definition ex_pose :: "real \<Rightarrow> Pose6D" where
  "ex_pose t = set_pose6d t v3_zero v3_zero (1, 0, 0) v3_zero m3_one"

definition ex_pt :: "real \<Rightarrow> LPoint" where
  "ex_pt c = \<lparr>lp_xyz = (1, 2, 3), lp_intensity = 0, curvature = c\<rparr>"

theorem undistort_keeps_world_points_witness:
  "world_from_end (new_ImuProcess 0 0 0 False) new_StatesGroup
     (undistort (new_ImuProcess 0 0 0 False) new_StatesGroup [ex_pose 0, ex_pose (3 / 100)] [ex_pt 10, ex_pt 20] ! 1)
   = world_from_pose (new_ImuProcess 0 0 0 False) (ex_pose 0) (ex_pt 20)"
  using undistort_keeps_world_points [of "[ex_pt 10, ex_pt 20]" new_StatesGroup "new_ImuProcess 0 0 0 False" "[ex_pose 0, ex_pose (3 / 100)]"]
  by (auto simp: ex_pt_def ex_pose_def later_def set_pose6d_def new_StatesGroup_def new_ImuProcess_def
      dest: conjunct1 [OF conjunct2] spec [where x = 1])

theorem process_keeps_state_ok_witness:
  "\<exists>p' lm' s' out. Process2 (\<lambda>pts. pts) (m3_one, v3_zero) (new_ImuProcess 0 0 0 False)
     ((new_LidarMeasureGroup :: unit LidarMeasureGroup)\<lparr>measures := [new_MeasureGroup\<lparr>m_imu := [ex_sample 1, ex_sample 2]\<rparr>]\<rparr>) new_StatesGroup [] = Ret (p', lm', s', out)
     \<and> imu_ok p' \<and> state_ok s'"
proof -
  let ?p = "new_ImuProcess 0 0 0 False" and ?lm = "(new_LidarMeasureGroup :: unit LidarMeasureGroup)\<lparr>measures := [new_MeasureGroup\<lparr>m_imu := [ex_sample 1, ex_sample 2]\<rparr>]\<rparr>"
  have "Process2 (\<lambda>pts. pts) (m3_one, v3_zero) ?p ?lm new_StatesGroup [] \<noteq> Undef"
    by (simp add: Process2_def new_ImuProcess_def IMU_init_def Let_def)
  then obtain p' lm' s' out where r: "Process2 (\<lambda>pts. pts) (m3_one, v3_zero) ?p ?lm new_StatesGroup [] = Ret (p', lm', s', out)"
    by (metis exec.exhaust prod.exhaust)
  have "imu_ok ?p" "state_ok new_StatesGroup"
    by (simp_all add: imu_ok_def noise_ok_def poses_ok_def v3_nonneg_def new_ImuProcess_def state_ok_def new_StatesGroup_def init_cov_psd)
  from process_keeps_state_ok [OF r this] r show ?thesis by blast
qed

section \<open>The initial average\<close>

definition v3_total :: "vec3 list \<Rightarrow> vec3" where
  "v3_total vs = foldr v3_add vs v3_zero"

definition averages :: "ImuProcess \<Rightarrow> ImuMsg list \<Rightarrow> bool" where
  "averages p seen = (init_iter_num p = int (length seen) + 1 \<and>
     v3_scale (real (length seen)) (mean_acc p) = v3_total (map im_acc seen) \<and>
     v3_scale (real (length seen)) (mean_gyr p) = v3_total (map im_gyr seen))"

lemma v3_total_snoc: "v3_total (vs @ [v]) = v3_add (v3_total vs) v"
proof (induction vs)
  case Nil
  show ?case by (cases v) (simp add: v3_total_def v3_zero_def)
next
  case (Cons a vs)
  have "v3_add a (v3_add b c) = v3_add (v3_add a b) c" for b c by (cases a; cases b; cases c) simp
  with Cons show ?case by (simp add: v3_total_def)
qed

lemma running_mean: "0 \<le> n \<Longrightarrow> v3_scale (n + 1) (v3_add m (v3_scale (1 / (n + 1)) (v3_sub x m))) = v3_add (v3_scale n m) x"
proof -
  assume n: "0 \<le> n"
  have "(n + 1) * (a + (b - a) / (n + 1)) = n * a + b" for a b :: real using n by (simp add: field_simps)
  then show ?thesis by (cases m; cases x) simp
qed

lemma mean_step_averages: "averages p seen \<Longrightarrow> averages (mean_step imu p) (seen @ [imu])"
  using running_mean [of "real (length seen)"]
  by (simp add: averages_def mean_step_def Let_def v3_total_snoc add.commute)

lemma fold_mean_step_averages: "averages p seen \<Longrightarrow> averages (fold mean_step imus p) (seen @ imus)"
proof (induction imus arbitrary: p seen)
  case (Cons imu imus)
  show ?case using Cons.IH [OF mean_step_averages [OF Cons.prems, of imu]] by simp
qed simp

lemma fold_mean_step_frame: "ip_MAX_INI_COUNT (fold mean_step imus p) = ip_MAX_INI_COUNT p" "b_first_frame (fold mean_step imus p) = b_first_frame p"
  by (induction imus arbitrary: p) (simp_all add: mean_step_def Let_def)

text \<open>C25: while the IMU initialises, every update adds its samples to one average: after the samples of all updates
  so far the means of acceleration and rate are exactly their averages, gravity is the mean acceleration reversed
  and scaled to 9.81, and initialisation goes on exactly until the samples seen reach the configured number.
  A sample counts once, also the first one, which is stored before the loop and then averaged in with weight one.\<close>

theorem initialisation_averages_samples:
  assumes "ip_imu_en p" "imu_need_init p" "measures lm \<noteq> []" "m_imu (last (measures lm)) \<noteq> []"
    and "if b_first_frame p then seen = [] else averages p seen"
  shows "\<exists>p' s'. Process2 time_sort T p lm s out = Ret (p', lm, s', out) \<and> \<not> b_first_frame p' \<and>
     averages p' (seen @ m_imu (last (measures lm))) \<and>
     gravity s' = v3_scale (- (G_m_s2 / v3_norm (mean_acc p'))) (mean_acc p') \<and>
     (imu_need_init p' \<longleftrightarrow> int (length (seen @ m_imu (last (measures lm)))) < ip_MAX_INI_COUNT p)"
proof -
  let ?imus = "m_imu (last (measures lm))"
  define p0 where "p0 = (if b_first_frame p
      then (Reset_imu p)\<lparr>init_iter_num := 1, b_first_frame := False, mean_acc := im_acc (hd ?imus), mean_gyr := im_gyr (hd ?imus)\<rparr> else p)"
  have "v3_scale 0 v = v3_zero" for v by (cases v) (simp add: v3_zero_def)
  then have "averages p0 seen" "\<not> b_first_frame p0" "ip_MAX_INI_COUNT p0 = ip_MAX_INI_COUNT p"
    using assms(5) by (auto simp: p0_def averages_def v3_total_def Reset_imu_def split: if_splits)
  then have q: "averages (fold mean_step ?imus p0) (seen @ ?imus)" "\<not> b_first_frame (fold mean_step ?imus p0)"
      "ip_MAX_INI_COUNT (fold mean_step ?imus p0) = ip_MAX_INI_COUNT p"
    by (simp_all add: fold_mean_step_averages fold_mean_step_frame)
  define q where "q = fold mean_step ?imus p0"
  have scale: "v3_scale a (v3_scale (- 1) v) = v3_scale (- a) v" for a v by (cases v) simp
  have av: "averages (p\<lparr>imu_need_init := d\<rparr>) x = averages p x" "averages (p\<lparr>IMU_mean_acc_norm := n, last_imu := i\<rparr>) x = averages p x" for d n i x and p
    by (simp_all add: averages_def)
  have "Process2 time_sort T p lm s out =
      Ret (q\<lparr>IMU_mean_acc_norm := v3_norm (mean_acc q), last_imu := last ?imus, imu_need_init := \<not> init_iter_num q > ip_MAX_INI_COUNT q\<rparr>, lm,
           s\<lparr>gravity := v3_scale (- (G_m_s2 / v3_norm (mean_acc q))) (mean_acc q), rot_end := m3_one, bias_g := v3_zero\<rparr>, out)"
    using assms(1-4) by (simp add: Process2_def IMU_init_def Let_def q_def p0_def scale)
  then show ?thesis using q by (auto simp: q_def [symmetric] averages_def)
qed

theorem initialisation_averages_samples_witness:
  "\<exists>p' s'. Process2 (\<lambda>pts. pts) (m3_one, v3_zero) (new_ImuProcess 0 0 0 False)
     ((new_LidarMeasureGroup :: unit LidarMeasureGroup)\<lparr>measures := [new_MeasureGroup\<lparr>m_imu := [ex_sample 1, ex_sample 2]\<rparr>]\<rparr>) new_StatesGroup [] = Ret (p',
       ((new_LidarMeasureGroup :: unit LidarMeasureGroup)\<lparr>measures := [new_MeasureGroup\<lparr>m_imu := [ex_sample 1, ex_sample 2]\<rparr>]\<rparr>), s', [])
     \<and> averages p' [ex_sample 1, ex_sample 2] \<and> imu_need_init p'"
  using initialisation_averages_samples [of "new_ImuProcess 0 0 0 False"
      "(new_LidarMeasureGroup :: unit LidarMeasureGroup)\<lparr>measures := [new_MeasureGroup\<lparr>m_imu := [ex_sample 1, ex_sample 2]\<rparr>]\<rparr>" "[]" "\<lambda>pts. pts" "(m3_one, v3_zero)" new_StatesGroup "[]"]
  by (auto simp: new_ImuProcess_def)

end
