(* ===== verification/Vio_Image.thy ===== *)
theory Vio_Image
  imports Voxel_Map Livo_Rtk
begin

text \<open>
  Images and patches of the visual odometry, \<^verbatim>\<open>fast_livo/src/vio.cpp\<close>: the interpolated patch around a pixel, the affine
  warp of a reference patch, the search level, the correlation of two patches and the projection Jacobian. An image is
  its bytes row by row; a read outside of them is undefined, a read beside a row is not. Intensities and positions
  are reals. The projection of the camera model is a parameter; \<open>isInFrame\<close> and \<open>interpolateMat_8u\<close> are those of
  \<^verbatim>\<open>vendor/vikit_common\<close>.
\<close>

section \<open>Images and cameras\<close>

type_synonym vec2 = "real \<times> real"
type_synonym mat2 = "vec2 \<times> vec2"

record Img =
  im_cols :: nat
  im_rows :: nat
  im_data :: "u8 list"

definition img_ok :: "Img \<Rightarrow> bool" where
  "img_ok w = (length (im_data w) = im_rows w * im_cols w)"

definition img_at :: "Img \<Rightarrow> int \<Rightarrow> real exec" where
  "img_at w k = (if 0 \<le> k \<and> k < int (length (im_data w)) then Ret (real (unat (im_data w ! nat k))) else Undef)"

record camera =
  cam_width :: int
  cam_height :: int
  cam_scale :: real
  cam_fx :: real
  cam_fy :: real
  cam_cx :: real
  cam_cy :: real
  cam2world :: "vec2 \<Rightarrow> vec3"
  world2cam :: "vec3 \<Rightarrow> vec2"

definition isInFrame :: "camera \<Rightarrow> int \<times> int \<Rightarrow> int \<Rightarrow> bool" where
  "isInFrame c obs boundary = (fst obs \<ge> boundary \<and> fst obs < cam_width c - boundary
     \<and> snd obs \<ge> boundary \<and> snd obs < cam_height c - boundary)"

definition cast_int :: "vec2 \<Rightarrow> int \<times> int" where
  "cast_int px = (trunc_int (fst px), trunc_int (snd px))"

definition m2_mult_vec :: "mat2 \<Rightarrow> vec2 \<Rightarrow> vec2" where
  "m2_mult_vec m v = (fst (fst m) * fst v + snd (fst m) * snd v, fst (snd m) * fst v + snd (snd m) * snd v)"

definition m2_det :: "mat2 \<Rightarrow> real" where
  "m2_det m = fst (fst m) * snd (snd m) - snd (fst m) * fst (snd m)"

definition m2_inverse :: "mat2 \<Rightarrow> mat2" where
  "m2_inverse m = ((snd (snd m) / m2_det m, - snd (fst m) / m2_det m), (- fst (snd m) / m2_det m, fst (fst m) / m2_det m))"

definition m2_of_cols :: "vec2 \<Rightarrow> vec2 \<Rightarrow> mat2" where
  "m2_of_cols a b = ((fst a, fst b), (snd a, snd b))"

definition v2_sub :: "vec2 \<Rightarrow> vec2 \<Rightarrow> vec2" where
  "v2_sub a b = (fst a - fst b, snd a - snd b)"

definition v2_scale :: "real \<Rightarrow> vec2 \<Rightarrow> vec2" where
  "v2_scale k a = (k * fst a, k * snd a)"

definition v2_norm :: "vec2 \<Rightarrow> real" where
  "v2_norm a = sqrt ((fst a)\<^sup>2 + (snd a)\<^sup>2)"

section \<open>Interpolation\<close>

text \<open>The pixel the interpolation starts from, and the weights of its four neighbours, at a pyramid scale.\<close>

definition ref_i :: "real \<Rightarrow> int \<Rightarrow> int" where
  "ref_i u scale = \<lfloor>u / real_of_int scale\<rfloor> * scale"

definition ref_weights :: "vec2 \<Rightarrow> int \<Rightarrow> real \<times> real \<times> real \<times> real" where
  "ref_weights pc scale =
     (let subpix_u_ref = (fst pc - real_of_int (ref_i (fst pc) scale)) / real_of_int scale;
          subpix_v_ref = (snd pc - real_of_int (ref_i (snd pc) scale)) / real_of_int scale
      in ((1 - subpix_u_ref) * (1 - subpix_v_ref), subpix_u_ref * (1 - subpix_v_ref),
          (1 - subpix_u_ref) * subpix_v_ref, subpix_u_ref * subpix_v_ref))"

text \<open>\<open>img_ptr\<close> in row \<open>x\<close> and column \<open>y\<close> of the patch, as an offset into the image.\<close>

definition patch_offset :: "int \<Rightarrow> nat \<Rightarrow> vec2 \<Rightarrow> int \<Rightarrow> nat \<Rightarrow> nat \<Rightarrow> int" where
  "patch_offset width patch_size_half pc scale x y =
     (ref_i (snd pc) scale - int patch_size_half * scale + int x * scale) * width
       + (ref_i (fst pc) scale - int patch_size_half * scale) + int y * scale"

definition blend :: "Img \<Rightarrow> real \<times> real \<times> real \<times> real \<Rightarrow> int \<Rightarrow> int \<Rightarrow> int \<Rightarrow> int \<Rightarrow> real exec" where
  "blend w ws k1 k2 k3 k4 =
     bind_exec (img_at w k1) (\<lambda>a. bind_exec (img_at w k2) (\<lambda>b. bind_exec (img_at w k3) (\<lambda>c. bind_exec (img_at w k4) (\<lambda>d.
       Ret (fst ws * a + fst (snd ws) * b + fst (snd (snd ws)) * c + snd (snd (snd ws)) * d)))))"

definition patch_pixel :: "Img \<Rightarrow> int \<Rightarrow> real \<times> real \<times> real \<times> real \<Rightarrow> int \<Rightarrow> int \<Rightarrow> real exec" where
  "patch_pixel w width ws scale k = blend w ws k (k + scale) (k + scale * width) (k + scale * width + scale)"

definition patch_cells :: "nat \<Rightarrow> (nat \<times> nat) list" where
  "patch_cells patch_size = concat (map (\<lambda>x. map (\<lambda>y. (x, y)) [0..<patch_size]) [0..<patch_size])"

text \<open>The values one level of a patch is filled with, and their place in the buffer.\<close>

definition image_patch :: "Img \<Rightarrow> int \<Rightarrow> nat \<Rightarrow> nat \<Rightarrow> vec2 \<Rightarrow> int \<Rightarrow> real list exec" where
  "image_patch img width patch_size patch_size_half pc scale =
     exec_map (\<lambda>(x, y). patch_pixel img width (ref_weights pc scale) scale (patch_offset width patch_size_half pc scale x y))
       (patch_cells patch_size)"

definition store_level :: "nat \<Rightarrow> nat \<Rightarrow> real list \<Rightarrow> real list \<Rightarrow> real list exec" where
  "store_level patch_size_total level values patch =
     (if length patch < patch_size_total * level + length values then Undef
      else Ret (take (patch_size_total * level) patch @ values @ drop (patch_size_total * level + length values) patch))"

definition getImagePatch :: "int \<Rightarrow> nat \<Rightarrow> nat \<Rightarrow> nat \<Rightarrow> Img \<Rightarrow> vec2 \<Rightarrow> real list \<Rightarrow> nat \<Rightarrow> real list exec" where
  "getImagePatch width patch_size patch_size_half patch_size_total img pc patch_tmp level =
     bind_exec (image_patch img width patch_size patch_size_half pc (2 ^ level)) (\<lambda>values.
       store_level patch_size_total level values patch_tmp)"

text \<open>\<open>getInterpolatedPixel\<close>: the colours of a point in an image with three bytes per pixel.\<close>

definition getInterpolatedPixel :: "int \<Rightarrow> Img \<Rightarrow> vec2 \<Rightarrow> vec3 exec" where
  "getInterpolatedPixel width img pc =
     (let k = (ref_i (snd pc) 1 * width + ref_i (fst pc) 1) * 3;
          ws = ref_weights pc 1;
          channel = (\<lambda>c. blend img ws (k + c) (k + c + 3) (k + c + width * 3) (k + c + width * 3 + 3))
      in bind_exec (channel 0) (\<lambda>b. bind_exec (channel 1) (\<lambda>g. bind_exec (channel 2) (\<lambda>r. Ret (b, g, r)))))"

section \<open>Gradients\<close>

text \<open>\<open>du\<close>, \<open>dv\<close> and the value itself, as the updates of the state use them.\<close>

definition patch_gradient :: "Img \<Rightarrow> int \<Rightarrow> real \<times> real \<times> real \<times> real \<Rightarrow> int \<Rightarrow> int \<Rightarrow> vec2 exec" where
  "patch_gradient w width ws scale k =
     bind_exec (blend w ws (k + scale) (k + scale * 2) (k + scale * width + scale) (k + scale * width + scale * 2)) (\<lambda>r.
     bind_exec (blend w ws (k - scale) k (k + scale * width - scale) (k + scale * width)) (\<lambda>l.
     bind_exec (blend w ws (k + scale * width) (k + scale + scale * width) (k + width * scale * 2) (k + width * scale * 2 + scale)) (\<lambda>d.
     bind_exec (blend w ws (k - scale * width) (k - scale * width + scale) k (k + scale)) (\<lambda>u.
       Ret (1 / 2 * (r - l), 1 / 2 * (d - u))))))"

definition computeProjectionJacobian :: "real \<Rightarrow> real \<Rightarrow> vec3 \<Rightarrow> vec3 \<times> vec3" where
  "computeProjectionJacobian fx fy p =
     (case p of (x, y, z) \<Rightarrow>
        let z_inv = 1 / z; z_inv_2 = z_inv * z_inv
        in ((fx * z_inv, 0, - fx * x * z_inv_2), (0, fy * z_inv, - fy * y * z_inv_2)))"

section \<open>Warps\<close>

definition getWarpMatrixAffineHomography :: "camera \<Rightarrow> vec2 \<Rightarrow> vec3 \<Rightarrow> vec3 \<Rightarrow> se3 \<Rightarrow> nat \<Rightarrow> mat2" where
  "getWarpMatrixAffineHomography c px_ref xyz_ref normal_ref T_cur_ref level_ref =
     (let t = snd (se3_inverse T_cur_ref);
          H_cur_ref = m3_mult (fst T_cur_ref)
                        (m3_add (m3_scale (v3_dot normal_ref xyz_ref) m3_one) (m3_neg (v3_outer t normal_ref)));
          kHalfPatchSize = 4 :: real;
          f_du_ref = cam2world c (fst px_ref + kHalfPatchSize * 2 ^ level_ref, snd px_ref);
          f_dv_ref = cam2world c (fst px_ref, snd px_ref + kHalfPatchSize * 2 ^ level_ref);
          px_cur = world2cam c (m3_apply H_cur_ref xyz_ref);
          px_du_cur = world2cam c (m3_apply H_cur_ref f_du_ref);
          px_dv_cur = world2cam c (m3_apply H_cur_ref f_dv_ref)
      in m2_of_cols (v2_scale (1 / kHalfPatchSize) (v2_sub px_du_cur px_cur)) (v2_scale (1 / kHalfPatchSize) (v2_sub px_dv_cur px_cur)))"

definition getWarpMatrixAffine :: "camera \<Rightarrow> vec2 \<Rightarrow> vec3 \<Rightarrow> real \<Rightarrow> se3 \<Rightarrow> nat \<Rightarrow> nat \<Rightarrow> nat \<Rightarrow> mat2" where
  "getWarpMatrixAffine c px_ref f_ref depth_ref T_cur_ref level_ref pyramid_level halfpatch_size =
     (let xyz_ref = v3_scale depth_ref f_ref;
          step = real halfpatch_size * 2 ^ level_ref * 2 ^ pyramid_level;
          xyz_du = cam2world c (fst px_ref + step, snd px_ref);
          xyz_dv = cam2world c (fst px_ref, snd px_ref + step);
          xyz_du_ref = v3_scale (v3_at xyz_ref 2 / v3_at xyz_du 2) xyz_du;
          xyz_dv_ref = v3_scale (v3_at xyz_ref 2 / v3_at xyz_dv 2) xyz_dv;
          px_cur = world2cam c (se3_apply T_cur_ref xyz_ref);
          px_du = world2cam c (se3_apply T_cur_ref xyz_du_ref);
          px_dv = world2cam c (se3_apply T_cur_ref xyz_dv_ref)
      in m2_of_cols (v2_scale (1 / real halfpatch_size) (v2_sub px_du px_cur)) (v2_scale (1 / real halfpatch_size) (v2_sub px_dv px_cur)))"

definition interpolateMat_8u :: "Img \<Rightarrow> vec2 \<Rightarrow> real exec" where
  "interpolateMat_8u mat px =
     (let x = \<lfloor>fst px\<rfloor>; y = \<lfloor>snd px\<rfloor>;
          subpix_x = fst px - real_of_int x; subpix_y = snd px - real_of_int y;
          w00 = (1 - subpix_x) * (1 - subpix_y); w01 = (1 - subpix_x) * subpix_y; w10 = subpix_x * (1 - subpix_y);
          w11 = 1 - w00 - w01 - w10;
          stride = int (im_cols mat);
          k = y * stride + x
      in blend mat (w00, w01, w10, w11) k (k + stride) (k + 1) (k + stride + 1))"

text \<open>A singular warp gives a quotient \<open>0 / 0\<close>, which the code tests for in one entry, or an infinite one, whose product
  with zero at the centre of the patch is converted to an integer.\<close>

definition warp_pixel :: "mat2 \<Rightarrow> Img \<Rightarrow> vec2 \<Rightarrow> real \<Rightarrow> nat \<Rightarrow> nat \<times> nat \<Rightarrow> real exec" where
  "warp_pixel A_ref_cur img_ref px_ref zoom halfpatch_size cell =
     (let px_patch = (zoom * (real (snd cell) - real halfpatch_size), zoom * (real (fst cell) - real halfpatch_size));
          q = m2_mult_vec A_ref_cur px_patch;
          px = (fst q + fst px_ref, snd q + snd px_ref)
      in if fst px < 0 \<or> snd px < 0 \<or> fst px \<ge> real (im_cols img_ref) - 1 \<or> snd px \<ge> real (im_rows img_ref) - 1
         then Ret 0 else interpolateMat_8u img_ref px)"

definition warpAffine :: "nat \<Rightarrow> mat2 \<Rightarrow> Img \<Rightarrow> vec2 \<Rightarrow> nat \<Rightarrow> nat \<Rightarrow> nat \<Rightarrow> real list \<Rightarrow> real list exec" where
  "warpAffine patch_size_total A_cur_ref img_ref px_ref search_level pyramid_level halfpatch_size patch =
     (if m2_det A_cur_ref = 0 then (if snd (snd A_cur_ref) = 0 then Ret patch else Undef)
      else bind_exec (exec_map (warp_pixel (m2_inverse A_cur_ref) img_ref px_ref (2 ^ search_level * 2 ^ pyramid_level) halfpatch_size)
                        (patch_cells (halfpatch_size * 2)))
             (\<lambda>values. store_level patch_size_total pyramid_level values patch))"

section \<open>Corners\<close>

text \<open>\<open>shiTomasiScore\<close> of \<^verbatim>\<open>vikit_common/src/vision.cpp\<close>: the smaller eigenvalue of the matrix of the gradients in a box of
  eight by eight pixels, zero too close to the border.\<close>

definition box_gradient :: "Img \<Rightarrow> int \<times> int \<Rightarrow> vec2 exec" where
  "box_gradient w xy =
     (let stride = int (im_cols w); k = stride * snd xy + fst xy
      in bind_exec (img_at w (k + 1)) (\<lambda>right. bind_exec (img_at w (k - 1)) (\<lambda>left.
         bind_exec (img_at w (k + stride)) (\<lambda>bottom. bind_exec (img_at w (k - stride)) (\<lambda>top.
           Ret (right - left, bottom - top))))))"

definition box_pixels :: "int \<Rightarrow> int \<Rightarrow> (int \<times> int) list" where
  "box_pixels u v = concat (map (\<lambda>y. map (\<lambda>x. (x, y)) [u - 4..u + 3]) [v - 4..v + 3])"

definition gradient_matrix :: "vec2 list \<Rightarrow> real \<times> real \<times> real" where
  "gradient_matrix gs = ((\<Sum>g\<leftarrow>gs. fst g * fst g) / (2 * 64), (\<Sum>g\<leftarrow>gs. snd g * snd g) / (2 * 64), (\<Sum>g\<leftarrow>gs. fst g * snd g) / (2 * 64))"

definition corner_score :: "real \<times> real \<times> real \<Rightarrow> real" where
  "corner_score m = (case m of (dXX, dYY, dXY) \<Rightarrow>
     1 / 2 * (dXX + dYY - sqrt ((dXX + dYY) * (dXX + dYY) - 4 * (dXX * dYY - dXY * dXY))))"

definition near_border :: "Img \<Rightarrow> int \<Rightarrow> int \<Rightarrow> bool" where
  "near_border w u v = (u - 4 < 1 \<or> u + 4 \<ge> int (im_cols w) - 1 \<or> v - 4 < 1 \<or> v + 4 \<ge> int (im_rows w) - 1)"

definition shiTomasiScore :: "Img \<Rightarrow> int \<times> int \<Rightarrow> real exec" where
  "shiTomasiScore w px =
     (if near_border w (fst px) (snd px) then Ret 0
      else bind_exec (exec_map (box_gradient w) (box_pixels (fst px) (snd px))) (\<lambda>gs. Ret (corner_score (gradient_matrix gs))))"

section \<open>Search level and correlation\<close>

text \<open>The number of halvings that bring the area ratio of the warp down to three, at most \<open>max_level\<close>.\<close>

function level_loop :: "nat \<Rightarrow> nat \<Rightarrow> real \<Rightarrow> nat" where
  "level_loop max_level search_level D =
     (if D > 3 \<and> search_level < max_level then level_loop max_level (search_level + 1) (D * (1 / 4)) else search_level)"
  by pat_completeness auto

termination
  by (relation "measure (\<lambda>(m, s, D). m - s)") auto

declare level_loop.simps [simp del]

definition getBestSearchLevel :: "mat2 \<Rightarrow> nat \<Rightarrow> nat" where
  "getBestSearchLevel A_cur_ref max_level = level_loop max_level 0 (m2_det A_cur_ref)"

definition calculateNCC :: "real list \<Rightarrow> real list \<Rightarrow> nat \<Rightarrow> real exec" where
  "calculateNCC ref_patch cur_patch patch_size =
     (if length ref_patch < patch_size \<or> length cur_patch < patch_size then Undef
      else let rs = take patch_size ref_patch;
               cs = take patch_size cur_patch;
               mean_ref = sum_list rs / real patch_size;
               mean_curr = sum_list cs / real patch_size;
               numerator = (\<Sum>(r, c) \<leftarrow> zip rs cs. (r - mean_ref) * (c - mean_curr));
               demoniator1 = (\<Sum>r \<leftarrow> rs. (r - mean_ref) * (r - mean_ref));
               demoniator2 = (\<Sum>c \<leftarrow> cs. (c - mean_curr) * (c - mean_curr))
           in Ret (numerator / sqrt (demoniator1 * demoniator2 + 1 / 10 ^ 10)))"

section \<open>Reads inside the image\<close>

lemma img_at_defined:
  assumes "img_ok w" "0 \<le> r" "r < int (im_rows w)" "0 \<le> c" "c < int (im_cols w)"
  shows "img_at w (r * int (im_cols w) + c) \<noteq> Undef"
proof -
  have "r * int (im_cols w) + c < (r + 1) * int (im_cols w)" using assms(5) by (simp add: algebra_simps)
  also have "\<dots> \<le> int (im_rows w) * int (im_cols w)" using assms(3) by (intro mult_right_mono) auto
  finally show ?thesis using assms by (simp add: img_at_def img_ok_def)
qed

lemma blend_defined: "blend w ws k1 k2 k3 k4 \<noteq> Undef \<longleftrightarrow>
    img_at w k1 \<noteq> Undef \<and> img_at w k2 \<noteq> Undef \<and> img_at w k3 \<noteq> Undef \<and> img_at w k4 \<noteq> Undef"
  by (cases "img_at w k1"; cases "img_at w k2"; cases "img_at w k3"; cases "img_at w k4") (simp_all add: blend_def)

lemma patch_gradient_defined: "patch_gradient w width ws scale k \<noteq> Undef \<longleftrightarrow>
    (\<forall>i \<in> {k + scale, k + scale * 2, k + scale * width + scale, k + scale * width + scale * 2, k - scale, k,
       k + scale * width - scale, k + scale * width, k + scale + scale * width, k + width * scale * 2,
       k + width * scale * 2 + scale, k - scale * width, k - scale * width + scale}. img_at w i \<noteq> Undef)"
proof -
  have "bind_exec m (\<lambda>r. bind_exec n (\<lambda>l. bind_exec p (\<lambda>d. bind_exec q (\<lambda>v. Ret (1 / 2 * (r - l), 1 / 2 * (d - v)))))) \<noteq> Undef
      \<longleftrightarrow> m \<noteq> Undef \<and> n \<noteq> Undef \<and> p \<noteq> Undef \<and> q \<noteq> Undef" for m n p q :: "real exec"
    by (cases m; cases n; cases p; cases q) simp_all
  then show ?thesis unfolding patch_gradient_def by (auto simp: blend_defined)
qed

text \<open>The pixels around an in-frame pixel, at the scale of a level, are rows and columns of the image.\<close>

lemma ref_i_bounds:
  assumes "0 < s" "(int h + 1) * s \<le> b" "b \<le> trunc_int u" "trunc_int u < n - b"
  shows "0 \<le> ref_i u s - (int h + 1) * s" "ref_i u s + (int h + 1) * s < n"
proof -
  have "0 < (int h + 1) * s" using assms(1) by simp
  then have pos: "0 < trunc_int u" using assms(2,3) by linarith
  then have "\<not> u < 0" by (auto simp: trunc_int_def)
  then have t: "trunc_int u \<le> u" "u < trunc_int u + 1"
    by (simp_all add: trunc_int_def)
  have "real_of_int ((int h + 1) * s) \<le> u" using assms(2,3) t(1) by linarith
  then have "real_of_int (int h + 1) \<le> u / real_of_int s" using assms(1) by (simp add: field_simps)
  then have "int h + 1 \<le> \<lfloor>u / real_of_int s\<rfloor>" by (simp add: le_floor_iff)
  then show "0 \<le> ref_i u s - (int h + 1) * s" using assms(1) by (simp add: ref_i_def flip: left_diff_distrib)
  have "real_of_int (ref_i u s) \<le> u"
    using mult_right_mono [OF of_int_floor_le [of "u / real_of_int s"], of "real_of_int s"] assms(1) by (simp add: ref_i_def)
  then have "real_of_int (ref_i u s) < real_of_int (trunc_int u) + 1" using t by linarith
  then have "ref_i u s \<le> trunc_int u" by linarith
  then show "ref_i u s + (int h + 1) * s < n" using assms(2,4) by linarith
qed

lemma patch_offset_defined:
  assumes "img_ok w" "0 < s" "(int h + 1) * s \<le> b" "isInFrame c (cast_int pc) b"
    and "cam_width c = int (im_cols w)" "cam_height c = int (im_rows w)"
    and "x < 2 * h" "y < 2 * h" "- 1 \<le> i" "i \<le> 2" "- 1 \<le> j" "j \<le> 2"
  shows "img_at w (patch_offset (int (im_cols w)) h pc s x y + (i * s) * int (im_cols w) + j * s) \<noteq> Undef"
proof -
  let ?r = "ref_i (snd pc) s - int h * s + int x * s + i * s" and ?c = "ref_i (fst pc) s - int h * s + int y * s + j * s"
  have f: "b \<le> trunc_int (snd pc)" "trunc_int (snd pc) < int (im_rows w) - b" "b \<le> trunc_int (fst pc)" "trunc_int (fst pc) < int (im_cols w) - b"
    using assms(4-6) by (simp_all add: isInFrame_def cast_int_def)
  note v = ref_i_bounds [OF assms(2,3) f(1,2)] and u = ref_i_bounds [OF assms(2,3) f(3,4)]
  have mul: "- ((int h + 1) * s) \<le> q * s" "q * s \<le> (int h + 1) * s" if "- (int h + 1) \<le> q" "q \<le> int h + 1" for q
    using assms(2) mult_right_mono [OF that(1), of s] mult_right_mono [OF that(2), of s] by (simp_all only: mult_minus_left)
  have "- (int h + 1) \<le> int x + i - int h" "int x + i - int h \<le> int h + 1" "- (int h + 1) \<le> int y + j - int h" "int y + j - int h \<le> int h + 1"
    using assms(7-) by linarith+
  note between = mul [OF this(1,2)] mul [OF this(3,4)]
  have r: "?r = ref_i (snd pc) s + (int x + i - int h) * s" and c: "?c = ref_i (fst pc) s + (int y + j - int h) * s"
    by (simp_all add: algebra_simps)
  have "0 \<le> ?r" "?r < int (im_rows w)" "0 \<le> ?c" "?c < int (im_cols w)"
    using u v between unfolding r c by linarith+
  then have "img_at w (?r * int (im_cols w) + ?c) \<noteq> Undef" by (rule img_at_defined [OF assms(1)])
  then show ?thesis by (simp add: patch_offset_def algebra_simps)
qed

text \<open>C19: The border of \<open>(patch_size_half + 1) * 2 ^ patch_pyrimid_level\<close> pixels is wide enough: at a pixel inside it
  every read of the patch and of its gradients, at every scale up to that of the pyramid, is a pixel of the image
  and of the row and column meant.\<close>

theorem patch_reads_in_bounds:
  assumes "img_ok w" "cam_width c = int (im_cols w)" "cam_height c = int (im_rows w)"
    and "isInFrame c (cast_int pc) ((int h + 1) * 2 ^ pyramid)" "scale_level \<le> pyramid" "(x, y) \<in> set (patch_cells (2 * h))"
  shows "patch_pixel w (cam_width c) ws (2 ^ scale_level) (patch_offset (cam_width c) h pc (2 ^ scale_level) x y) \<noteq> Undef \<and>
     patch_gradient w (cam_width c) ws (2 ^ scale_level) (patch_offset (cam_width c) h pc (2 ^ scale_level) x y) \<noteq> Undef"
proof -
  let ?s = "2 ^ scale_level :: int" and ?k = "patch_offset (cam_width c) h pc (2 ^ scale_level) x y"
  have "(int h + 1) * ?s \<le> (int h + 1) * 2 ^ pyramid" using assms(5) by (intro mult_left_mono power_increasing) auto
  moreover have "x < 2 * h" "y < 2 * h" using assms(6) by (auto simp: patch_cells_def)
  ultimately have ok: "img_at w (?k + (i * ?s) * cam_width c + j * ?s) \<noteq> Undef" if "- 1 \<le> i" "i \<le> 2" "- 1 \<le> j" "j \<le> 2" for i j
    using patch_offset_defined [OF assms(1) _ _ assms(4,2,3), of ?s h x y i j] that assms(2) by simp
  show ?thesis
    using ok [of 0 0] ok [of 0 1] ok [of 0 2] ok [of 1 0] ok [of 1 1] ok [of 1 2] ok [of 0 "- 1"] ok [of 1 "- 1"] ok [of 2 0] ok [of 2 1]
      ok [of "- 1" 0] ok [of "- 1" 1]
    unfolding patch_pixel_def blend_defined patch_gradient_defined by (simp add: algebra_simps)
qed

text \<open>An image of 9 x 9 pixels and a patch of 2 x 2 around its centre.\<close>

definition ex_img :: Img where
  "ex_img = \<lparr>im_cols = 9, im_rows = 9, im_data = map of_nat [0..<81]\<rparr>"

definition ex_cam :: camera where
  "ex_cam = \<lparr>cam_width = 9, cam_height = 9, cam_scale = 1, cam_fx = 4, cam_fy = 4, cam_cx = 4, cam_cy = 4,
     cam2world = (\<lambda>px. ((fst px - 4) / 4, (snd px - 4) / 4, 1)), world2cam = (\<lambda>p. case p of (x, y, z) \<Rightarrow> (4 * (x / z) + 4, 4 * (y / z) + 4))\<rparr>"

theorem patch_reads_in_bounds_witness:
  "patch_pixel ex_img 9 (ref_weights (4, 4) 2) 2 (patch_offset 9 1 (4, 4) 2 1 1) \<noteq> Undef"
  using patch_reads_in_bounds [of ex_img ex_cam "(4, 4)" 1 1 1 1 1]
  by (simp add: ex_img_def ex_cam_def img_ok_def isInFrame_def cast_int_def trunc_int_def patch_cells_def numeral_2_eq_2)

text \<open>Beyond that scale the border does not suffice: at twice the scale the same patch reads above the image.\<close>

lemma coarse_patch_out_of_bounds: "patch_gradient ex_img 9 ws 4 (patch_offset 9 1 (4, 4) 4 0 0) = Undef"
proof -
  have "img_at ex_img (patch_offset 9 1 (4, 4) 4 0 0 - 4 * 9) = Undef"
    by (simp add: patch_offset_def ref_i_def ex_img_def img_at_def)
  then show ?thesis using patch_gradient_defined [of ex_img 9 ws 4 "patch_offset 9 1 (4, 4) 4 0 0"] by auto
qed

section \<open>The search level\<close>

lemma level_loop_spec:
  "s \<le> m \<Longrightarrow> s \<le> level_loop m s D \<and> level_loop m s D \<le> m \<and>
     (level_loop m s D < m \<longrightarrow> D / 4 ^ (level_loop m s D - s) \<le> 3) \<and> (\<forall>k. s \<le> k \<and> k < level_loop m s D \<longrightarrow> 3 < D / 4 ^ (k - s))"
proof (induction m s D rule: level_loop.induct)
  case (1 m s D)
  show ?case
  proof (cases "D > 3 \<and> s < m")
    case True
    let ?n = "level_loop m (s + 1) (D * (1 / 4))"
    have IH: "s + 1 \<le> ?n" "?n \<le> m" "?n < m \<Longrightarrow> D * (1 / 4) / 4 ^ (?n - (s + 1)) \<le> 3"
      "\<And>k. s + 1 \<le> k \<Longrightarrow> k < ?n \<Longrightarrow> 3 < D * (1 / 4) / 4 ^ (k - (s + 1))"
      using 1 True by auto
    have e: "level_loop m s D = ?n" using True by (simp add: level_loop.simps [of m s D])
    have q: "D / 4 ^ (k - s) = D * (1 / 4) / 4 ^ (k - (s + 1))" if "s + 1 \<le> k" for k
    proof -
      have "k - s = Suc (k - (s + 1))" using that by simp
      then show ?thesis by simp
    qed
    show ?thesis unfolding e
    proof (intro conjI impI allI)
      show "s \<le> ?n" "?n \<le> m" using IH by auto
      show "D / 4 ^ (?n - s) \<le> 3" if "?n < m" using IH(1) IH(3) [OF that] by (simp only: q)
      show "3 < D / 4 ^ (k - s)" if "s \<le> k \<and> k < ?n" for k
        using that True IH(4) [of k] by (cases "k = s") (simp_all only: q, auto simp: q)
    qed
  next
    case False
    then have "level_loop m s D = s" by (simp only: level_loop.simps [of m s D] if_False)
    then show ?thesis using False 1(2) by auto
  qed
qed

text \<open>The search level is the least number of quarterings of the warp's area ratio that brings it to three or below,
  cut off at the highest level allowed.\<close>

theorem search_level_least:
  "getBestSearchLevel A max_level = (if \<exists>n \<le> max_level. m2_det A / 4 ^ n \<le> 3 then LEAST n. m2_det A / 4 ^ n \<le> 3 else max_level)"
proof -
  let ?D = "m2_det A" and ?n = "getBestSearchLevel A max_level"
  have s: "?n \<le> max_level" "?n < max_level \<Longrightarrow> ?D / 4 ^ ?n \<le> 3" "\<And>k. k < ?n \<Longrightarrow> 3 < ?D / 4 ^ k"
    using level_loop_spec [of 0 max_level ?D] by (auto simp: getBestSearchLevel_def)
  show ?thesis
  proof (cases "\<exists>n \<le> max_level. ?D / 4 ^ n \<le> 3")
    case True
    then obtain n where n: "n \<le> max_level" "?D / 4 ^ n \<le> 3" by blast
    have "?D / 4 ^ ?n \<le> 3"
    proof (cases "?n < max_level")
      case False
      then have "n \<le> ?n" using n by simp
      then show ?thesis using n False s(1) s(3) [of n] by (cases "n = ?n") auto
    qed (rule s(2))
    then have "(LEAST n. ?D / 4 ^ n \<le> 3) = ?n"
      using s(3) by (intro Least_equality) (auto simp: not_le [symmetric])
    with True show ?thesis by simp
  next
    case False
    then have "\<not> ?n < max_level" using s(1) s(2) by blast
    then have "?n = max_level" using s(1) by linarith
    then show ?thesis using False by auto
  qed
qed

section \<open>The warp of an unmoved patch\<close>

definition m2_one :: mat2 where "m2_one = ((1, 0), (0, 1))"

lemma exec_map_cong: "(\<And>x. x \<in> set xs \<Longrightarrow> f x = g x) \<Longrightarrow> exec_map f xs = exec_map g xs"
  by (induction xs) simp_all

lemma blend_swap: "blend w (a, b, c, d) k1 k2 k3 k4 = blend w (a, c, b, d) k1 k3 k2 k4"
  by (cases "img_at w k1"; cases "img_at w k2"; cases "img_at w k3"; cases "img_at w k4") (simp_all add: blend_def)

lemma interpolate_as_patch_pixel:
  "interpolateMat_8u w px = patch_pixel w (int (im_cols w)) (ref_weights px 1) 1 (\<lfloor>snd px\<rfloor> * int (im_cols w) + \<lfloor>fst px\<rfloor>)"
proof -
  have "1 - (1 - a) * (1 - b) - (1 - a) * b - a * (1 - b) = a * b" for a b :: real by (simp add: algebra_simps)
  then show ?thesis
    by (simp add: interpolateMat_8u_def Let_def patch_pixel_def ref_weights_def ref_i_def blend_swap [of w _ "(1 - _) * _"] add.commute add.left_commute)
qed

text \<open>C20: The warp and the image patch agree: with the identity as warp and no pyramid the warp of an image at an
  in-frame pixel is the image's own patch at that pixel, so that a point seen again from its reference pose at the
  same exposure has no photometric error.\<close>

theorem unmoved_patch_warps_to_itself:
  assumes "cam_width c = int (im_cols w)" "cam_height c = int (im_rows w)"
    and "isInFrame c (cast_int px) (int h + 1)"
  shows "warpAffine n m2_one w px 0 0 h patch = getImagePatch (cam_width c) (2 * h) h n w px patch 0"
proof -
  have inv: "m2_det m2_one = 1" "m2_inverse m2_one = m2_one" by (simp_all add: m2_det_def m2_inverse_def m2_one_def)
  have f: "int h + 1 \<le> trunc_int (snd px)" "trunc_int (snd px) < int (im_rows w) - (int h + 1)"
      "int h + 1 \<le> trunc_int (fst px)" "trunc_int (fst px) < int (im_cols w) - (int h + 1)"
    using assms by (simp_all add: isInFrame_def cast_int_def)
  have t: "real h + 1 \<le> u" "u < real_of_int n - real h - 1" if "int h + 1 \<le> trunc_int u" "trunc_int u < n - (int h + 1)" for u n
  proof -
    have "\<not> u < 0"
    proof
      assume "u < 0"
      then have "\<lceil>u\<rceil> \<le> 0" "trunc_int u = \<lceil>u\<rceil>" by (simp_all add: ceiling_le_iff trunc_int_def)
      then show False using that(1) by linarith
    qed
    then have "trunc_int u = \<lfloor>u\<rfloor>" by (simp add: trunc_int_def)
    then show "real h + 1 \<le> u" "u < real_of_int n - real h - 1" using that by linarith+
  qed
  have "warp_pixel m2_one w px 1 h (x, y)
      = patch_pixel w (cam_width c) (ref_weights px 1) 1 (patch_offset (cam_width c) h px 1 x y)"
    if "(x, y) \<in> set (patch_cells (2 * h))" for x y
  proof -
    have xy: "x < 2 * h" "y < 2 * h" using that by (auto simp: patch_cells_def)
    have in1: "\<not> (real y - real h + fst px < 0 \<or> real x - real h + snd px < 0
        \<or> real (im_cols w) - 1 \<le> real y - real h + fst px \<or> real (im_rows w) - 1 \<le> real x - real h + snd px)"
      using t [OF f(1,2)] t [OF f(3,4)] xy by auto
    have fl: "\<lfloor>real y - real h + a\<rfloor> = int y - int h + \<lfloor>a\<rfloor>" for a and y by linarith
    let ?q = "(real y - real h + fst px, real x - real h + snd px)"
    have "warp_pixel m2_one w px 1 h (x, y) = interpolateMat_8u w ?q"
      using in1 by (simp add: warp_pixel_def m2_mult_vec_def m2_one_def Let_def)
    moreover have "ref_weights ?q 1 = ref_weights px 1" by (simp add: ref_weights_def ref_i_def fl Let_def)
    moreover have "\<lfloor>snd ?q\<rfloor> * int (im_cols w) + \<lfloor>fst ?q\<rfloor> = patch_offset (cam_width c) h px 1 x y"
      by (simp add: patch_offset_def ref_i_def fl assms(1))
    ultimately show ?thesis by (simp only: interpolate_as_patch_pixel assms(1))
  qed
  then have "exec_map (warp_pixel m2_one w px 1 h) (patch_cells (2 * h)) = image_patch w (cam_width c) (2 * h) h px 1"
    unfolding image_patch_def by (intro exec_map_cong) (auto simp: split_beta)
  then show ?thesis
    by (simp add: warpAffine_def getImagePatch_def inv mult.commute)
qed

theorem unmoved_patch_warps_to_itself_witness:
  "warpAffine 4 m2_one ex_img (9 / 2, 17 / 4) 0 0 1 [0, 0, 0, 0] = getImagePatch 9 2 1 4 ex_img (9 / 2, 17 / 4) [0, 0, 0, 0] 0"
  using unmoved_patch_warps_to_itself [of ex_cam ex_img "(9 / 2, 17 / 4)" 1 4 "[0, 0, 0, 0]"]
  by (simp add: ex_cam_def ex_img_def isInFrame_def cast_int_def trunc_int_def)

section \<open>Corner scores\<close>

lemma box_gradient_defined:
  assumes "img_ok w" "1 \<le> x" "x < int (im_cols w) - 1" "1 \<le> y" "y < int (im_rows w) - 1"
  shows "\<exists>g. box_gradient w (x, y) = Ret g"
proof -
  let ?s = "int (im_cols w)"
  have up: "?s * y + x + ?s < ?s * int (im_rows w)"
  proof -
    have "?s * (y + 2) \<le> ?s * int (im_rows w)" using assms(5) by (intro mult_left_mono) auto
    then show ?thesis using assms(3) by (simp add: algebra_simps)
  qed
  have down: "0 \<le> ?s * y + x - ?s"
  proof -
    have "?s * 1 \<le> ?s * y" using assms(4) by (intro mult_left_mono) auto
    then show ?thesis using assms(2) by simp
  qed
  have len: "int (length (im_data w)) = ?s * int (im_rows w)" using assms(1) by (simp add: img_ok_def)
  have "\<exists>a. img_at w k = Ret a" if "?s * y + x - ?s \<le> k" "k \<le> ?s * y + x + ?s" for k
    using that up down len by (simp add: img_at_def)
  from this [of "?s * y + x + 1"] this [of "?s * y + x - 1"] this [of "?s * y + x + ?s"] this [of "?s * y + x - ?s"]
  show ?thesis using assms(2,3) by (auto simp: box_gradient_def Let_def)
qed

lemma corner_score_form:
  fixes a c b x y :: real
  shows "corner_score (a, c, b) * (x\<^sup>2 + y\<^sup>2) \<le> a * x\<^sup>2 + 2 * b * x * y + c * y\<^sup>2"
proof -
  define r where "r = sqrt ((a - c)\<^sup>2 + (2 * b)\<^sup>2)"
  have e: "(a + c) * (a + c) - 4 * (a * c - b * b) = (a - c)\<^sup>2 + (2 * b)\<^sup>2" by (simp add: power2_eq_square algebra_simps)
  have l: "corner_score (a, c, b) = 1 / 2 * (a + c - r)" unfolding corner_score_def prod.case e r_def ..
  have sq: "r\<^sup>2 = (a - c)\<^sup>2 + (2 * b)\<^sup>2" by (simp add: r_def)
  have n: "(x\<^sup>2 - y\<^sup>2)\<^sup>2 + (2 * x * y)\<^sup>2 = (x\<^sup>2 + y\<^sup>2)\<^sup>2" by (simp add: power2_eq_square algebra_simps)
  let ?p = "(a - c) * (x\<^sup>2 - y\<^sup>2) + 2 * b * (2 * x * y)"
  have "?p\<^sup>2 + ((a - c) * (2 * x * y) - 2 * b * (x\<^sup>2 - y\<^sup>2))\<^sup>2 = ((a - c)\<^sup>2 + (2 * b)\<^sup>2) * ((x\<^sup>2 - y\<^sup>2)\<^sup>2 + (2 * x * y)\<^sup>2)"
    by (simp add: power2_eq_square algebra_simps)
  then have "?p\<^sup>2 + ((a - c) * (2 * x * y) - 2 * b * (x\<^sup>2 - y\<^sup>2))\<^sup>2 = (r * (x\<^sup>2 + y\<^sup>2))\<^sup>2"
    unfolding n sq [symmetric] by (simp add: power_mult_distrib)
  then have "?p\<^sup>2 \<le> (r * (x\<^sup>2 + y\<^sup>2))\<^sup>2" using zero_le_power2 [of "(a - c) * (2 * x * y) - 2 * b * (x\<^sup>2 - y\<^sup>2)"] by linarith
  then have "\<bar>?p\<bar> \<le> \<bar>r * (x\<^sup>2 + y\<^sup>2)\<bar>" by (simp only: abs_le_square_iff)
  moreover have "0 \<le> r * (x\<^sup>2 + y\<^sup>2)" by (simp add: r_def)
  ultimately have "- (r * (x\<^sup>2 + y\<^sup>2)) \<le> ?p" by linarith
  then show ?thesis unfolding l by (simp add: algebra_simps power2_eq_square)
qed

lemma corner_score_root:
  fixes a b c :: real
  shows "(corner_score (a, c, b) - a) * (corner_score (a, c, b) - c) = b * b"
proof -
  define r where "r = sqrt ((a + c) * (a + c) - 4 * (a * c - b * b))"
  have "(a + c) * (a + c) - 4 * (a * c - b * b) = (a - c)\<^sup>2 + (2 * b)\<^sup>2" by (simp add: power2_eq_square algebra_simps)
  then have "r * r = (a + c) * (a + c) - 4 * (a * c - b * b)" unfolding r_def by simp
  moreover have l: "corner_score (a, c, b) = (a + c - r) / 2" by (simp add: corner_score_def r_def)
  moreover have "((a + c - r) / 2 - a) * ((a + c - r) / 2 - c) = (r * r - (a + c) * (a + c) + 4 * a * c) / 4" by (simp add: field_simps)
  ultimately show ?thesis by (simp add: l)
qed

lemma corner_score_attained:
  fixes a b c :: real
  shows "\<exists>x y. (x, y) \<noteq> (0, 0) \<and> corner_score (a, c, b) * (x\<^sup>2 + y\<^sup>2) = a * x\<^sup>2 + 2 * b * x * y + c * y\<^sup>2"
proof -
  let ?l = "corner_score (a, c, b)"
  note root = corner_score_root [of a c b]
  show ?thesis
  proof (cases "b = 0")
    case True
    then have "?l = a \<or> ?l = c" using root by simp
    then show ?thesis
    proof
      assume "?l = a"
      then show ?thesis using True by (intro exI [where x = "1 :: real"] exI [where x = "0 :: real"]) simp
    next
      assume "?l = c"
      then show ?thesis using True by (intro exI [where x = "0 :: real"] exI [where x = "1 :: real"]) simp
    qed
  next
    case False
    define d where "d = ?l - a"
    have r: "d * (?l - c) = b * b" using root by (simp add: d_def)
    have "a * b\<^sup>2 + 2 * b * b * d + c * d\<^sup>2 - ?l * (b\<^sup>2 + d\<^sup>2) = d * (b * b) - d * (d * (?l - c))"
      by (simp add: d_def power2_eq_square algebra_simps)
    then have "?l * (b\<^sup>2 + d\<^sup>2) = a * b\<^sup>2 + 2 * b * b * d + c * d\<^sup>2" unfolding r by simp
    then show ?thesis using False by (intro exI [where x = b] exI [where x = d]) simp
  qed
qed

lemma gradient_form:
  fixes x y :: real
  shows "(case gradient_matrix gs of (a, c, b) \<Rightarrow> a * x\<^sup>2 + 2 * b * x * y + c * y\<^sup>2) = (\<Sum>g\<leftarrow>gs. (fst g * x + snd g * y)\<^sup>2) / 128"
proof -
  have "(\<Sum>g\<leftarrow>gs. (fst g * x + snd g * y)\<^sup>2)
      = (\<Sum>g\<leftarrow>gs. fst g * fst g) * x\<^sup>2 + 2 * (\<Sum>g\<leftarrow>gs. fst g * snd g) * x * y + (\<Sum>g\<leftarrow>gs. snd g * snd g) * y\<^sup>2"
    by (induction gs) (simp_all add: power2_eq_square algebra_simps)
  then show ?thesis by (simp add: gradient_matrix_def field_simps)
qed

text \<open>C21: The corner score is what the name says. Away from the border it reads only pixels of the image and gives the least
  eigenvalue of the gradient matrix of the box: the least mean squared change of intensity in any direction, which some
  direction has; so it is never negative.\<close>

theorem corner_score_least_change:
  assumes "img_ok w" and "\<not> near_border w u v"
  shows "\<exists>gs s. exec_map (box_gradient w) (box_pixels u v) = Ret gs \<and> shiTomasiScore w (u, v) = Ret s \<and> 0 \<le> s
     \<and> (\<forall>x y. s * (x\<^sup>2 + y\<^sup>2) \<le> (\<Sum>g\<leftarrow>gs. (fst g * x + snd g * y)\<^sup>2) / 128)
     \<and> (\<exists>x y. (x, y) \<noteq> (0, 0) \<and> s * (x\<^sup>2 + y\<^sup>2) = (\<Sum>g\<leftarrow>gs. (fst g * x + snd g * y)\<^sup>2) / 128)"
proof -
  have "\<exists>g. box_gradient w p = Ret g" if "p \<in> set (box_pixels u v)" for p
  proof -
    obtain x y where p: "p = (x, y)" "u - 4 \<le> x" "x \<le> u + 3" "v - 4 \<le> y" "y \<le> v + 3" using \<open>p \<in> set (box_pixels u v)\<close> by (auto simp: box_pixels_def)
    then show ?thesis using assms(2) unfolding p(1) by (intro box_gradient_defined [OF assms(1)]) (auto simp: near_border_def)
  qed
  then obtain f where "\<And>p. p \<in> set (box_pixels u v) \<Longrightarrow> box_gradient w p = Ret (f p)" by metis
  then have gs: "exec_map (box_gradient w) (box_pixels u v) = Ret (map f (box_pixels u v))" by (rule exec_map_defined)
  define gs where "gs = map f (box_pixels u v)"
  obtain a c b where m: "gradient_matrix gs = (a, c, b)" by (cases "gradient_matrix gs") auto
  let ?s = "corner_score (a, c, b)"
  have form: "a * x\<^sup>2 + 2 * b * x * y + c * y\<^sup>2 = (\<Sum>g\<leftarrow>gs. (fst g * x + snd g * y)\<^sup>2) / 128" for x y
    using gradient_form [where gs = gs and x = x and y = y] m by simp
  have le: "?s * (x\<^sup>2 + y\<^sup>2) \<le> (\<Sum>g\<leftarrow>gs. (fst g * x + snd g * y)\<^sup>2) / 128" for x y
    using corner_score_form [of a c b x y] form [of x y] by simp
  obtain x y where e: "(x, y) \<noteq> (0, 0)" "?s * (x\<^sup>2 + y\<^sup>2) = (\<Sum>g\<leftarrow>gs. (fst g * x + snd g * y)\<^sup>2) / 128"
    using corner_score_attained [of a c b] unfolding form by blast
  have "0 < x\<^sup>2 + y\<^sup>2" using e(1) by (simp add: sum_power2_gt_zero_iff)
  moreover have "0 \<le> (\<Sum>g\<leftarrow>gs. (fst g * x + snd g * y)\<^sup>2) / 128" by (auto intro!: divide_nonneg_pos sum_list_nonneg)
  ultimately have "0 \<le> ?s" using e(2) by (metis mult_pos_pos mult.commute not_le linorder_not_less mult_neg_pos)
  moreover have "shiTomasiScore w (u, v) = Ret ?s"
    using assms(2) gs m by (simp add: shiTomasiScore_def gs_def)
  ultimately show ?thesis using gs le e unfolding gs_def [symmetric] by blast
qed

theorem corner_score_least_change_witness:
  "\<exists>s. shiTomasiScore \<lparr>im_cols = 11, im_rows = 11, im_data = replicate 121 7\<rparr> (5, 5) = Ret s \<and> 0 \<le> s"
  using corner_score_least_change [of "\<lparr>im_cols = 11, im_rows = 11, im_data = replicate 121 7\<rparr>" 5 5]
  by (auto simp: img_ok_def near_border_def)

end
