(* ===== verification/Visual_Point.thy ===== *)
theory Visual_Point
  imports Vio_Image
begin

text \<open>
  Visual map points and the features that observe them: \<^verbatim>\<open>fast_livo/src/visual_point.cpp\<close>, \<^verbatim>\<open>include/visual_point.h\<close> and
  \<^verbatim>\<open>include/feature.h\<close>. Features live on a heap, a map from addresses to records; \<open>delete\<close> unmaps an address and
  following a pointer to an unmapped address is undefined. \<open>obs_\<close> is the list of the addresses. The fields \<open>type_\<close>,
  \<open>grad_\<close> and \<open>normal_information_\<close>, which nothing reads, are left out.
\<close>

section \<open>Data\<close>

type_synonym addr = nat

record Feature =
  ft_id :: int
  ft_img :: Img
  ft_px :: vec2
  ft_f :: vec3
  ft_level :: nat
  ft_point :: addr
  ft_T_f_w :: se3
  ft_patch :: "real list"
  ft_score :: real
  ft_mean :: real
  ft_inv_expo_time :: real

type_synonym ft_heap = "addr \<rightharpoonup> Feature"

text \<open>The constructor; \<open>id_\<close>, \<open>img_\<close> and \<open>inv_expo_time_\<close> are set by the caller right after it.\<close>

definition new_Feature :: "addr \<Rightarrow> real list \<Rightarrow> vec2 \<Rightarrow> vec3 \<Rightarrow> se3 \<Rightarrow> nat \<Rightarrow> int \<Rightarrow> Img \<Rightarrow> real \<Rightarrow> Feature" where
  "new_Feature point patch px f T level fid img expo =
     \<lparr>ft_id = fid, ft_img = img, ft_px = px, ft_f = f, ft_level = level, ft_point = point, ft_T_f_w = T, ft_patch = patch,
      ft_score = 0, ft_mean = 0, ft_inv_expo_time = expo\<rparr>"

definition ft_pos :: "Feature \<Rightarrow> vec3" where
  "ft_pos f = snd (se3_inverse (ft_T_f_w f))"

record VisualPoint =
  vp_pos :: vec3
  vp_point_normal :: vec3
  previous_normal :: vec3
  obs :: "addr list"
  covariance :: mat3
  is_converged :: bool
  is_normal_initialized :: bool
  has_ref_patch :: bool
  ref_patch :: "addr option"

text \<open>The constructor leaves \<open>ref_patch\<close> unset; \<open>covariance_\<close> is set by the only caller.\<close>

definition new_VisualPoint :: "addr option \<Rightarrow> vec3 \<Rightarrow> VisualPoint" where
  "new_VisualPoint junk p =
     \<lparr>vp_pos = p, vp_point_normal = v3_zero, previous_normal = v3_zero, obs = [], covariance = m3_zero, is_converged = False,
      is_normal_initialized = False, has_ref_patch = False, ref_patch = junk\<rparr>"

section \<open>Operations\<close>

definition follow :: "(addr \<rightharpoonup> 'a) \<Rightarrow> addr \<Rightarrow> 'a exec" where
  "follow h a = (case h a of None \<Rightarrow> Undef | Some x \<Rightarrow> Ret x)"

definition free :: "addr \<Rightarrow> (addr \<rightharpoonup> 'a) \<Rightarrow> (addr \<rightharpoonup> 'a) exec" where
  "free a h = (if a \<in> dom h then Ret (h(a := None)) else Undef)"

definition addFrameRef :: "addr \<Rightarrow> VisualPoint \<Rightarrow> VisualPoint" where
  "addFrameRef ftr pt = pt\<lparr>obs := ftr # obs pt\<rparr>"

definition deleteFeatureRef :: "addr \<Rightarrow> VisualPoint \<Rightarrow> ft_heap \<Rightarrow> (VisualPoint \<times> ft_heap) exec" where
  "deleteFeatureRef ftr pt h =
     (let pt1 = (if ref_patch pt = Some ftr then pt\<lparr>ref_patch := None, has_ref_patch := False\<rparr> else pt)
      in if ftr \<in> set (obs pt1)
         then bind_exec (free ftr h) (\<lambda>h1. Ret (pt1\<lparr>obs := remove1 ftr (obs pt1)\<rparr>, h1))
         else Ret (pt1, h))"

text \<open>The two searches: the first observation that exceeds, or falls below, all before it.\<close>

definition close_step :: "VisualPoint \<Rightarrow> vec3 \<Rightarrow> ft_heap \<Rightarrow> addr \<Rightarrow> addr \<times> real \<Rightarrow> (addr \<times> real) exec" where
  "close_step pt obs_dir h a r =
     bind_exec (follow h a) (\<lambda>f.
       let cos_angle = v3_dot obs_dir (v3_normalize (v3_sub (ft_pos f) (vp_pos pt)))
       in Ret (if cos_angle > snd r then (a, cos_angle) else r))"

definition getCloseViewObs :: "vec3 \<Rightarrow> VisualPoint \<Rightarrow> ft_heap \<Rightarrow> (bool \<times> addr option) exec" where
  "getCloseViewObs framepos pt h =
     (case obs pt of
        [] \<Rightarrow> Ret (False, None)
      | a # _ \<Rightarrow> bind_exec (exec_fold (close_step pt (v3_normalize (v3_sub framepos (vp_pos pt))) h) (obs pt) (a, 0))
                  (\<lambda>r. Ret (\<not> snd r < 1 / 2, Some (fst r))))"

definition FLT_MAX :: real where
  "FLT_MAX = (2 - 1 / 2 ^ 23) * 2 ^ 127"

definition score_step :: "ft_heap \<Rightarrow> addr \<Rightarrow> addr \<times> real \<Rightarrow> (addr \<times> real) exec" where
  "score_step h a r = bind_exec (follow h a) (\<lambda>f. Ret (if ft_score f < snd r then (a, ft_score f) else r))"

definition findMinScoreFeature :: "VisualPoint \<Rightarrow> ft_heap \<Rightarrow> addr exec" where
  "findMinScoreFeature pt h =
     (case obs pt of
        [] \<Rightarrow> Undef
      | a # _ \<Rightarrow> bind_exec (exec_fold (score_step h) (obs pt) (a, FLT_MAX)) (\<lambda>r. Ret (fst r)))"

definition deleteNonRefPatchFeatures :: "VisualPoint \<Rightarrow> ft_heap \<Rightarrow> (VisualPoint \<times> ft_heap) exec" where
  "deleteNonRefPatchFeatures pt h =
     bind_exec (exec_fold free (filter (\<lambda>a. Some a \<noteq> ref_patch pt) (obs pt)) h) (\<lambda>h1.
       Ret (pt\<lparr>obs := filter (\<lambda>a. Some a = ref_patch pt) (obs pt)\<rparr>, h1))"

text \<open>The destructor.\<close>

definition delete_VisualPoint :: "VisualPoint \<Rightarrow> ft_heap \<Rightarrow> ft_heap exec" where
  "delete_VisualPoint pt h = exec_fold free (obs pt) h"

section \<open>Points and their features\<close>

text \<open>A point owns its observations: they are distinct live features that point back to it, and the reference
  patch is one of them.\<close>

definition point_ok :: "ft_heap \<Rightarrow> addr \<Rightarrow> VisualPoint \<Rightarrow> bool" where
  "point_ok h p pt = (distinct (obs pt) \<and> (\<forall>a \<in> set (obs pt). \<exists>f. h a = Some f \<and> ft_point f = p)
     \<and> (has_ref_patch pt \<longrightarrow> (\<exists>a \<in> set (obs pt). ref_patch pt = Some a)))"

lemma follow_Ret [simp]: "h a = Some x \<Longrightarrow> follow h a = Ret x"
  by (simp add: follow_def)

lemma point_ok_follow: "point_ok h p pt \<Longrightarrow> a \<in> set (obs pt) \<Longrightarrow> \<exists>f. h a = Some f \<and> follow h a = Ret f \<and> ft_point f = p"
  by (auto simp: point_ok_def)

text \<open>Changes of the heap at addresses the point does not own leave it alone.\<close>

lemma point_ok_frame: "point_ok h p pt \<Longrightarrow> (\<And>a. a \<in> set (obs pt) \<Longrightarrow> h' a = h a) \<Longrightarrow> point_ok h' p pt"
  by (auto simp: point_ok_def)

lemma free_all:
  "distinct as \<Longrightarrow> set as \<subseteq> dom h \<Longrightarrow> exec_fold free as h = Ret (\<lambda>a. if a \<in> set as then None else h a)"
proof (induction as arbitrary: h)
  case (Cons a as)
  have "exec_fold free as (h(a := None)) = Ret (\<lambda>b. if b \<in> set as then None else (h(a := None)) b)"
    using Cons.prems by (intro Cons.IH) auto
  moreover have "free a h = Ret (h(a := None))" using Cons.prems(2) by (simp add: free_def)
  ultimately show ?case by (auto simp: fun_eq_iff)
qed simp

lemma addFrameRef_ok:
  assumes "point_ok h p pt" "h a = Some f" "ft_point f = p" "a \<notin> set (obs pt)"
  shows "point_ok h p (addFrameRef a pt)"
  using assms by (auto simp: point_ok_def addFrameRef_def)

lemma deleteFeatureRef_ok:
  assumes "point_ok h p pt"
  shows "\<exists>pt' h'. deleteFeatureRef a pt h = Ret (pt', h') \<and> point_ok h' p pt' \<and> obs pt' = remove1 a (obs pt) \<and>
     h' = (if a \<in> set (obs pt) then h(a := None) else h) \<and> vp_pos pt' = vp_pos pt \<and> is_converged pt' = is_converged pt \<and>
     is_normal_initialized pt' = is_normal_initialized pt"
proof (cases "a \<in> set (obs pt)")
  case True
  then have "a \<in> dom h" using assms by (auto simp: point_ok_def)
  with True assms show ?thesis
    by (auto simp: deleteFeatureRef_def Let_def free_def point_ok_def set_remove1_eq)
next
  case False
  then show ?thesis using assms by (auto simp: deleteFeatureRef_def Let_def point_ok_def remove1_idem)
qed

lemma deleteNonRefPatchFeatures_ok:
  assumes "point_ok h p pt"
  shows "\<exists>pt' h'. deleteNonRefPatchFeatures pt h = Ret (pt', h') \<and> point_ok h' p pt' \<and>
     obs pt' = filter (\<lambda>a. Some a = ref_patch pt) (obs pt) \<and>
     (\<forall>a. h' a = (if a \<in> set (obs pt) \<and> Some a \<noteq> ref_patch pt then None else h a)) \<and> pt' = pt\<lparr>obs := obs pt'\<rparr>"
proof -
  have "exec_fold free (filter (\<lambda>a. Some a \<noteq> ref_patch pt) (obs pt)) h
      = Ret (\<lambda>a. if a \<in> set (filter (\<lambda>a. Some a \<noteq> ref_patch pt) (obs pt)) then None else h a)"
    using assms by (intro free_all) (auto simp: point_ok_def)
  then show ?thesis using assms by (auto simp: deleteNonRefPatchFeatures_def point_ok_def)
qed

section \<open>The searches\<close>

lemma score_fold:
  assumes "\<forall>a \<in> set as. \<exists>f. h a = Some f"
  shows "\<exists>r. exec_fold (score_step h) as s = Ret r \<and> (\<forall>a \<in> set as. \<forall>f. h a = Some f \<longrightarrow> snd r \<le> ft_score f) \<and> snd r \<le> snd s \<and>
     (r = s \<or> (\<exists>f. fst r \<in> set as \<and> h (fst r) = Some f \<and> snd r = ft_score f))"
  using assms
proof (induction as arbitrary: s)
  case (Cons a as)
  obtain f where f: "h a = Some f" using Cons.prems by auto
  let ?s = "if ft_score f < snd s then (a, ft_score f) else s"
  have "\<forall>a \<in> set as. \<exists>f. h a = Some f" using Cons.prems by simp
  from Cons.IH [OF this, of ?s]
  obtain r where r: "exec_fold (score_step h) as ?s = Ret r" "\<forall>a \<in> set as. \<forall>f. h a = Some f \<longrightarrow> snd r \<le> ft_score f" "snd r \<le> snd ?s"
      "r = ?s \<or> (\<exists>f. fst r \<in> set as \<and> h (fst r) = Some f \<and> snd r = ft_score f)"
    by (elim exE conjE)
  have "exec_fold (score_step h) (a # as) s = Ret r" using r(1) f by (simp add: score_step_def)
  then show ?case using r(2-) f by (auto split: if_splits)
qed simp

text \<open>The feature given up when a point has too many is one of least score among its observations, and it is
  never a freed one.\<close>

theorem least_scored_feature:
  assumes "point_ok h p pt" "obs pt \<noteq> []"
  shows "\<exists>a f. findMinScoreFeature pt h = Ret a \<and> a \<in> set (obs pt) \<and> h a = Some f \<and>
     (\<forall>b \<in> set (obs pt). \<forall>g. h b = Some g \<longrightarrow> min (ft_score f) FLT_MAX \<le> ft_score g)"
proof -
  obtain a as where obs: "obs pt = a # as" using assms(2) by (cases "obs pt") auto
  have "\<forall>a \<in> set (obs pt). \<exists>f. h a = Some f" using assms(1) by (auto simp: point_ok_def)
  from score_fold [OF this, of "(a, FLT_MAX)"]
  obtain r where r: "exec_fold (score_step h) (obs pt) (a, FLT_MAX) = Ret r"
      "\<forall>a \<in> set (obs pt). \<forall>f. h a = Some f \<longrightarrow> snd r \<le> ft_score f" "snd r \<le> FLT_MAX"
      "r = (a, FLT_MAX) \<or> (\<exists>f. fst r \<in> set (obs pt) \<and> h (fst r) = Some f \<and> snd r = ft_score f)"
    unfolding snd_conv by (elim exE conjE)
  have e: "findMinScoreFeature pt h = Ret (fst r)" using r(1) by (simp add: findMinScoreFeature_def obs)
  obtain f where f: "h a = Some f" using point_ok_follow [OF assms(1), of a] obs by auto
  show ?thesis
  proof (cases "r = (a, FLT_MAX)")
    case True
    then show ?thesis using e f r(2) obs by (intro exI [where x = a] exI [where x = f]) (auto simp: min_le_iff_disj)
  next
    case False
    then obtain g where "fst r \<in> set (obs pt)" "h (fst r) = Some g" "snd r = ft_score g" using r(4) by auto
    then show ?thesis using e r(2) by (intro exI [where x = "fst r"] exI [where x = g]) (auto simp: min_le_iff_disj)
  qed
qed

end
