(* ===== verification/Vio_Manager.thy ===== *)
theory Vio_Manager
  imports Visual_Point
begin

text \<open>
  \<open>VIOManager\<close> of \<^verbatim>\<open>fast_livo/src/vio.cpp\<close>: its state, the set-up of the grid, the frame and the insertion of points into
  the sparse visual map. Visual points live on a heap like features. The grid arrays are lists; a read or write outside
  of one is undefined. \<open>unordered_map\<close> is an association list. Members that are only printed or drawn are left out.
\<close>

section \<open>State\<close>

text \<open>\<open>CellType\<close>\<close>

definition TYPE_MAP :: int where "TYPE_MAP = 1"
definition TYPE_POINTCLOUD :: int where "TYPE_POINTCLOUD = 2"
definition TYPE_UNKNOWN :: int where "TYPE_UNKNOWN = 3"

record SubSparseMap =
  propa_errors :: "real list"
  errors :: "real list"
  warp_patch :: "real list list"
  search_levels :: "nat list"
  sub_points :: "addr list"
  inv_expo_list :: "real list"
  add_from_voxel_map :: "pointWithVar list"

definition empty_submap :: SubSparseMap where
  "empty_submap = \<lparr>propa_errors = [], errors = [], warp_patch = [], search_levels = [], sub_points = [], inv_expo_list = [],
     add_from_voxel_map = []\<rparr>"

record Frame =
  fr_id :: int
  fr_img :: Img
  fr_T_f_w :: se3

record VOXEL_POINTS =
  voxel_points :: "addr list"
  vox_count :: int

record VIOManager =
  vm_cam :: camera
  grid_size :: int
  Rli :: mat3
  Rci :: mat3
  Rcl :: mat3
  Rcw :: mat3
  Jdphi_dR :: mat3
  Jdp_dt :: mat3
  Jdp_dR :: mat3
  Pli :: vec3
  Pci :: vec3
  Pcl :: vec3
  Pcw :: vec3
  grid_num :: "int list"
  border_flag :: "bool list"
  update_flag :: "bool list"
  map_dist :: "real list"
  scan_value :: "real list"
  patch_buffer :: "real list"
  normal_en :: bool
  inverse_composition_en :: bool
  exposure_estimate_en :: bool
  raycast_en :: bool
  has_ref_patch_cache :: bool
  ncc_en :: bool
  vm_width :: int
  vm_height :: int
  grid_n_width :: int
  grid_n_height :: int
  vm_length :: int
  patch_pyrimid_level :: nat
  patch_size :: nat
  patch_size_total :: nat
  patch_size_half :: nat
  border :: int
  warp_len :: nat
  vm_max_iterations :: nat
  total_points :: nat
  img_point_cov :: real
  outlier_threshold :: real
  ncc_thre :: real
  visual_submap :: SubSparseMap
  rays_with_sample_points :: "vec3 list list"
  vm_G :: mat
  H_sub_inv :: "vec list list"
  feat_map :: "(VOXEL_LOCATION \<times> VOXEL_POINTS) list"
  sub_feat_map :: "VOXEL_LOCATION list"
  warp_map :: "(int \<times> (nat \<times> mat2)) list"
  retrieve_voxel_points :: "addr option list"
  append_voxel_points :: "pointWithVar list"
  new_frame :: Frame
  frame_counter :: int
  vm_points :: "addr \<rightharpoonup> VisualPoint"
  vm_features :: ft_heap
  vm_next :: addr
  vm_leaked :: nat

section \<open>Set-up\<close>

definition setImuToLidarExtrinsic :: "vec3 \<Rightarrow> mat3 \<Rightarrow> VIOManager \<Rightarrow> VIOManager" where
  "setImuToLidarExtrinsic transl rot v =
     v\<lparr>Pli := m3_apply (m3_neg (m3_transpose rot)) transl, Rli := m3_transpose rot\<rparr>"

definition setLidarToCameraExtrinsic :: "mat3 \<Rightarrow> vec3 \<Rightarrow> VIOManager \<Rightarrow> VIOManager" where
  "setLidarToCameraExtrinsic R P v = v\<lparr>Rcl := R, Pcl := P\<rparr>"

text \<open>The three numbers of the grid: from the size of a cell, or from the number of rows. Both quotients are of integers.\<close>

definition grid_shape :: "int \<Rightarrow> int \<Rightarrow> int \<Rightarrow> int \<Rightarrow> (int \<times> int \<times> int) exec" where
  "grid_shape width height gsize rows =
     (if gsize > 10 then Ret (gsize, width div gsize, height div gsize)
      else if rows = 0 then Undef
      else let gsize = height div rows in if gsize = 0 then Undef else Ret (gsize, width div gsize, height div gsize))"

definition depth_samples :: "real list" where
  "depth_samples = map (\<lambda>k. 1 / 10 + real k / 5) [0..<15]"

definition sample_ray :: "camera \<Rightarrow> int \<Rightarrow> int \<Rightarrow> vec3 list" where
  "sample_ray c u v = map (\<lambda>d. let xyz = cam2world c (real_of_int u, real_of_int v) in v3_scale (d / v3_at xyz 2) xyz) depth_samples"

definition grid_cells :: "int \<Rightarrow> int \<Rightarrow> (int \<times> int) list" where
  "grid_cells n_width n_height = concat (map (\<lambda>r. map (\<lambda>c. (r, c)) [1..n_width]) [1..n_height])"

definition initializeVIO :: "VIOManager \<Rightarrow> VIOManager exec" where
  "initializeVIO v =
     (let c = vm_cam v; width = cam_width c; height = cam_height c;
          rci = m3_mult (Rcl v) (Rli v);
          pci = v3_add (m3_apply (Rcl v) (Pli v)) (Pcl v);
          pic = m3_apply (m3_neg (m3_transpose rci)) pci
      in bind_exec (grid_shape width height (grid_size v) (grid_n_height v)) (\<lambda>(gsize, n_width, n_height).
           let len = n_width * n_height; n = nat len;
               cells = grid_cells n_width n_height;
               v = v\<lparr>vm_width := width, vm_height := height, Rci := rci, Pci := pci, Jdphi_dR := rci,
                     Jdp_dR := m3_mult (m3_neg rci) (skew_sym pic), grid_size := gsize, grid_n_width := n_width,
                     grid_n_height := n_height, vm_length := len, visual_submap := empty_submap\<rparr>;
               v = (if raycast_en v
                    then v\<lparr>border_flag := map (\<lambda>(r, c). r = 1 \<or> c = 1 \<or> r = n_height \<or> c = n_width) cells,
                           rays_with_sample_points :=
                             map (\<lambda>(r, c). sample_ray (vm_cam v) (gsize div 2 + (c - 1) * gsize) (gsize div 2 + (r - 1) * gsize)) cells\<rparr>
                    else v);
               total = patch_size v * patch_size v; half = patch_size v div 2
           in Ret (v\<lparr>grid_num := replicate n 0, map_dist := replicate n 0, update_flag := replicate n False,
                     scan_value := replicate n 0, patch_size_total := total, patch_size_half := half,
                     patch_buffer := replicate total 0, warp_len := total * patch_pyrimid_level v,
                     border := (int half + 1) * 2 ^ patch_pyrimid_level v, sub_feat_map := []\<rparr>)))"

definition resetGrid :: "VIOManager \<Rightarrow> VIOManager" where
  "resetGrid v =
     v\<lparr>grid_num := replicate (length (grid_num v)) TYPE_UNKNOWN, map_dist := replicate (length (map_dist v)) 10000,
       update_flag := replicate (length (update_flag v)) False, scan_value := replicate (length (scan_value v)) 0,
       retrieve_voxel_points := replicate (nat (vm_length v)) None,
       append_voxel_points := replicate (nat (vm_length v)) new_pointWithVar, total_points := 0\<rparr>"

section \<open>Frames\<close>

definition se3_mult :: "se3 \<Rightarrow> se3 \<Rightarrow> se3" where
  "se3_mult a b = (m3_mult (fst a) (fst b), v3_add (m3_apply (fst a) (snd b)) (snd a))"

definition w2f :: "Frame \<Rightarrow> vec3 \<Rightarrow> vec3" where
  "w2f f p = se3_apply (fr_T_f_w f) p"

definition f2w :: "Frame \<Rightarrow> vec3 \<Rightarrow> vec3" where
  "f2w f p = se3_apply (se3_inverse (fr_T_f_w f)) p"

definition w2c :: "VIOManager \<Rightarrow> vec3 \<Rightarrow> vec2" where
  "w2c v p = world2cam (vm_cam v) (w2f (new_frame v) p)"

definition frame_pos :: "Frame \<Rightarrow> vec3" where
  "frame_pos f = snd (se3_inverse (fr_T_f_w f))"

text \<open>\<open>initFrame\<close> throws when the image does not fit; the images here are grayscale.\<close>

datatype frame_error = EmptyImage | WrongSize

definition initFrame :: "camera \<Rightarrow> Img \<Rightarrow> int \<Rightarrow> frame_error + Frame" where
  "initFrame c img fid =
     (if im_data img = [] then Inl EmptyImage
      else if int (im_cols img) \<noteq> cam_width c \<or> int (im_rows img) \<noteq> cam_height c then Inl WrongSize
      else Inr \<lparr>fr_id = fid, fr_img = img, fr_T_f_w = (m3_one, v3_zero)\<rparr>)"

definition updateFrameState :: "StatesGroup \<Rightarrow> VIOManager \<Rightarrow> VIOManager" where
  "updateFrameState s v =
     (let rcw = m3_mult (Rci v) (m3_transpose (rot_end s));
          pcw = v3_add (m3_apply (m3_mult (m3_neg (Rci v)) (m3_transpose (rot_end s))) (pos_end s)) (Pci v)
      in v\<lparr>Rcw := rcw, Pcw := pcw, new_frame := (new_frame v)\<lparr>fr_T_f_w := (rcw, pcw)\<rparr>\<rparr>)"

section \<open>Voxels and cells\<close>

text \<open>The voxel a point is filed under, and the voxel it is looked up in: the second takes the floor and then still
  subtracts one from what is negative.\<close>

definition insert_location :: "vec3 \<Rightarrow> VOXEL_LOCATION" where
  "insert_location p = location_of (loc_xyz (1 / 2) p)"

definition retrieve_loc :: "real \<Rightarrow> int" where
  "retrieve_loc x = (let l = \<lfloor>x / (1 / 2)\<rfloor> in if l < 0 then l - 1 else l)"

definition retrieve_location :: "vec3 \<Rightarrow> VOXEL_LOCATION" where
  "retrieve_location p = \<lparr>vl_x = retrieve_loc (v3_at p 0), vl_y = retrieve_loc (v3_at p 1), vl_z = retrieve_loc (v3_at p 2)\<rparr>"

definition insertPointIntoVoxelMap :: "addr \<Rightarrow> VIOManager \<Rightarrow> VIOManager exec" where
  "insertPointIntoVoxelMap a v =
     bind_exec (follow (vm_points v) a) (\<lambda>pt.
       let loc = insert_location (vp_pos pt)
       in Ret (v\<lparr>feat_map := AList.update loc
                  (case map_of (feat_map v) loc of
                     Some x \<Rightarrow> x\<lparr>voxel_points := voxel_points x @ [a], vox_count := vox_count x + 1\<rparr>
                   | None \<Rightarrow> \<lparr>voxel_points = [a], vox_count = 0\<rparr>) (feat_map v)\<rparr>))"

text \<open>The grid cell of a pixel.\<close>

definition cell_index :: "VIOManager \<Rightarrow> vec2 \<Rightarrow> int" where
  "cell_index v pc = trunc_int (snd pc / real_of_int (grid_size v)) * grid_n_width v + trunc_int (fst pc / real_of_int (grid_size v))"

definition cell_of :: "VIOManager \<Rightarrow> vec2 \<Rightarrow> nat exec" where
  "cell_of v pc = (if 0 \<le> cell_index v pc \<and> cell_index v pc < int (length (grid_num v)) then Ret (nat (cell_index v pc)) else Undef)"

section \<open>The key of a voxel\<close>

lemma trunc_loc_of: "trunc_int (loc_of (1 / 2) x) = (if x < 0 then \<lceil>2 * x\<rceil> - 1 else \<lfloor>2 * x\<rfloor>)"
proof -
  have "x / (1 / 2) = 2 * x" by simp
  then have "loc_of (1 / 2) x = (if x < 0 then 2 * x - 1 else 2 * x)" by (simp add: loc_of_def Let_def)
  then show ?thesis by (cases "x < 0") (simp_all add: trunc_int_def)
qed

lemma retrieve_loc_cases: "retrieve_loc x = (if x < 0 then \<lfloor>2 * x\<rfloor> - 1 else \<lfloor>2 * x\<rfloor>)"
proof -
  have "\<lfloor>2 * x\<rfloor> < 0 \<longleftrightarrow> x < 0" by (simp add: floor_less_iff)
  then show ?thesis by (simp add: retrieve_loc_def Let_def mult.commute)
qed

lemma coordinate_key: "retrieve_loc x = trunc_int (loc_of (1 / 2) x) \<longleftrightarrow> 0 \<le> x \<or> 2 * x \<in> \<int>"
proof (cases "x < 0")
  case True
  have "\<lfloor>2 * x\<rfloor> = \<lceil>2 * x\<rceil> \<longleftrightarrow> 2 * x \<in> \<int>"
  proof
    assume e: "\<lfloor>2 * x\<rfloor> = \<lceil>2 * x\<rceil>"
    then have "2 * x = of_int \<lfloor>2 * x\<rfloor>" using of_int_floor_le [of "2 * x"] le_of_int_ceiling [of "2 * x"] by linarith
    then show "2 * x \<in> \<int>" by (metis Ints_of_int)
  qed (auto elim!: Ints_cases)
  then show ?thesis using True by (auto simp: trunc_loc_of retrieve_loc_cases)
qed (simp add: trunc_loc_of retrieve_loc_cases)

text \<open>C18: The voxel a point of the scan is looked up in is the voxel a visual point at the same place was filed under
  exactly when every coordinate is non-negative or a multiple of the voxel size. At all other places with a negative
  coordinate the two differ, so that visual points there are not found from the scan points that fall on them.\<close>

theorem lookup_key_matches_insert:
  "retrieve_location p = insert_location p \<longleftrightarrow> (\<forall>i < 3. 0 \<le> v3_at p i \<or> 2 * v3_at p i \<in> \<int>)"
proof -
  have "{..<3} = {0, 1, 2 :: nat}" by auto
  then have "(\<forall>i < 3. P i) \<longleftrightarrow> P 0 \<and> P 1 \<and> P 2" for P :: "nat \<Rightarrow> bool" by (metis insert_iff lessThan_iff singletonD)
  then show ?thesis
    unfolding retrieve_location_def insert_location_def location_of_def loc_xyz_def by (simp add: coordinate_key)
qed

theorem lookup_key_matches_insert_witness:
  "retrieve_location (- 3 / 4, 1, 2) \<noteq> insert_location (- 3 / 4, 1, 2) \<and> retrieve_location (- 1 / 2, 1, 2) = insert_location (- 1 / 2, 1, 2)"
proof
  have no: "(- 3 / 2 :: real) \<notin> \<int>"
  proof
    assume "(- 3 / 2 :: real) \<in> \<int>"
    then obtain k where "(- 3 / 2 :: real) = of_int k" by (auto elim: Ints_cases)
    then have "(of_int (- 3) :: real) = of_int (2 * k)" by simp
    then have "- 3 = 2 * k" by (simp only: of_int_eq_iff)
    then show False by presburger
  qed
  show "retrieve_location (- 3 / 4, 1, 2) \<noteq> insert_location (- 3 / 4, 1, 2)"
    using no by (simp add: lookup_key_matches_insert)
  show "retrieve_location (- 1 / 2, 1, 2) = insert_location (- 1 / 2, 1, 2)"
    by (simp add: lookup_key_matches_insert)
qed

section \<open>The cell of a pixel\<close>

text \<open>The border protects the grid. After \<open>initializeVIO\<close> with a border no narrower than what the cells leave over
  at the right and at the bottom, every in-frame pixel has a cell inside the arrays, in the row and column of the
  grid it lies in.\<close>

theorem cell_in_grid:
  fixes pc :: vec2
  assumes "initializeVIO v0 = Ret v" "0 < grid_size v" "0 \<le> cam_width (vm_cam v0)" "0 \<le> cam_height (vm_cam v0)"
    and "cam_width (vm_cam v0) mod grid_size v \<le> border v" "cam_height (vm_cam v0) mod grid_size v \<le> border v"
    and "isInFrame (vm_cam v) (cast_int pc) (border v)"
  shows "\<exists>r c. cell_of v pc = Ret (nat (r * grid_n_width v + c)) \<and> 0 \<le> r \<and> r < grid_n_height v \<and> 0 \<le> c \<and> c < grid_n_width v \<and>
     r * grid_size v \<le> snd pc \<and> snd pc < (r + 1) * grid_size v \<and> c * grid_size v \<le> fst pc \<and> fst pc < (c + 1) * grid_size v"
proof -
  let ?g = "grid_size v"
  have v: "vm_cam v = vm_cam v0" "grid_n_width v = cam_width (vm_cam v0) div ?g" "grid_n_height v = cam_height (vm_cam v0) div ?g"
      "length (grid_num v) = nat (grid_n_width v * grid_n_height v)" "0 < border v"
    using assms(1) by (auto simp: initializeVIO_def Let_def bind_exec_Ret_iff grid_shape_def split: if_splits)
  have cell: "0 \<le> trunc_int (u / ?g) \<and> trunc_int (u / ?g) < n div ?g \<and> trunc_int (u / ?g) * ?g \<le> u \<and> u < (trunc_int (u / ?g) + 1) * ?g"
    if "border v \<le> trunc_int u" "trunc_int u < n - border v" "n mod ?g \<le> border v" for u :: real and n :: int
  proof -
    have "\<not> u < 0"
    proof
      assume "u < 0"
      then have "trunc_int u \<le> 0" by (simp add: trunc_int_def ceiling_le_iff)
      then show False using that(1) v(5) by linarith
    qed
    then have u: "0 \<le> u" "trunc_int u = \<lfloor>u\<rfloor>" by (simp_all add: trunc_int_def)
    have q: "trunc_int (u / ?g) = \<lfloor>u / ?g\<rfloor>" using u(1) assms(2) by (simp add: trunc_int_def divide_less_0_iff)
    have b: "\<lfloor>u / ?g\<rfloor> * ?g \<le> u" "u < (\<lfloor>u / ?g\<rfloor> + 1) * ?g"
      using assms(2) floor_divide_lower [of "real_of_int ?g" u] floor_divide_upper [of "real_of_int ?g" u] by auto
    have "n - border v \<le> n div ?g * ?g" using that(3) div_mult_mod_eq [of n ?g] by linarith
    then have "u < real_of_int (n div ?g * ?g)" using that(2) u(2) by linarith
    then have "u / ?g < n div ?g" using assms(2) by (simp add: field_simps)
    then have "\<lfloor>u / ?g\<rfloor> < n div ?g" by (simp add: floor_less_iff)
    moreover have "0 \<le> \<lfloor>u / ?g\<rfloor>" using u(1) assms(2) by simp
    ultimately show ?thesis using b by (simp add: q)
  qed
  define r c where "r = trunc_int (snd pc / ?g)" and "c = trunc_int (fst pc / ?g)"
  have rc: "0 \<le> r \<and> r < grid_n_height v \<and> r * ?g \<le> snd pc \<and> snd pc < (r + 1) * ?g"
      "0 \<le> c \<and> c < grid_n_width v \<and> c * ?g \<le> fst pc \<and> fst pc < (c + 1) * ?g"
    using cell [of "snd pc" "cam_height (vm_cam v0)"] cell [of "fst pc" "cam_width (vm_cam v0)"] assms(5-7) v
    by (simp_all add: isInFrame_def cast_int_def r_def c_def)
  have "r * grid_n_width v + c < (r + 1) * grid_n_width v" using rc by (simp add: algebra_simps)
  also have "\<dots> \<le> grid_n_height v * grid_n_width v" using rc by (intro mult_right_mono) auto
  finally have "cell_of v pc = Ret (nat (r * grid_n_width v + c))"
    using rc v(4) by (simp add: cell_of_def cell_index_def mult.commute flip: r_def c_def)
  then show ?thesis using rc by blast
qed

text \<open>An image of 9 x 9 pixels, three rows of cells, patches of 2 x 2 pixels and one level.\<close>

definition ex_vio :: VIOManager where
  "ex_vio = \<lparr>vm_cam = ex_cam, grid_size = 0, Rli = m3_one, Rci = m3_one, Rcl = m3_one, Rcw = m3_one, Jdphi_dR = m3_one,
     Jdp_dt = m3_one, Jdp_dR = m3_one, Pli = v3_zero, Pci = v3_zero, Pcl = v3_zero, Pcw = v3_zero, grid_num = [],
     border_flag = [], update_flag = [], map_dist = [], scan_value = [], patch_buffer = [], normal_en = True,
     inverse_composition_en = False, exposure_estimate_en = True, raycast_en = False, has_ref_patch_cache = False,
     ncc_en = False, vm_width = 0, vm_height = 0, grid_n_width = 0, grid_n_height = 3, vm_length = 0, patch_pyrimid_level = 1,
     patch_size = 2, patch_size_total = 0, patch_size_half = 0, border = 0, warp_len = 0, vm_max_iterations = 5,
     total_points = 0, img_point_cov = 100, outlier_threshold = 1000, ncc_thre = 0, visual_submap = empty_submap,
     rays_with_sample_points = [], vm_G = mzero, H_sub_inv = [], feat_map = [], sub_feat_map = [], warp_map = [],
     retrieve_voxel_points = [], append_voxel_points = [],
     new_frame = \<lparr>fr_id = 0, fr_img = ex_img, fr_T_f_w = (m3_one, v3_zero)\<rparr>, frame_counter = 0,
     vm_points = (\<lambda>_. None), vm_features = (\<lambda>_. None), vm_next = 0, vm_leaked = 0\<rparr>"

theorem cell_in_grid_witness:
  "\<exists>v. initializeVIO ex_vio = Ret v \<and> cell_of v (4, 4) = Ret 4"
proof -
  obtain v where v: "initializeVIO ex_vio = Ret v" "grid_size v = 3" "border v = 4" "vm_cam v = ex_cam" "grid_n_width v = 3"
    by (simp add: initializeVIO_def Let_def grid_shape_def ex_vio_def ex_cam_def)
  obtain r c where rc: "cell_of v (4, 4) = Ret (nat (r * grid_n_width v + c))" "r * grid_size v \<le> snd (4 :: real, 4 :: real)"
      "snd (4 :: real, 4 :: real) < (r + 1) * grid_size v" "c * grid_size v \<le> fst (4 :: real, 4 :: real)" "fst (4 :: real, 4 :: real) < (c + 1) * grid_size v"
    using cell_in_grid [OF v(1), of "(4, 4)"] v(2-)
    by (auto simp: ex_vio_def ex_cam_def isInFrame_def cast_int_def trunc_int_def)
  then have "r = 1" "c = 1" using v(2) by auto
  then show ?thesis using rc(1) v by auto
qed

end
