(* ===== verification/Vio_Map.thy ===== *)
theory Vio_Map
  imports Vio_Manager Voxel_Residual
begin

text \<open>
  The sparse visual map of \<^verbatim>\<open>fast_livo/src/vio.cpp\<close>: retrieval of the visual points in view, new points, new observations
  and the choice of reference patches. Parameters: the iteration order of \<open>unordered_map\<close>, the values
  of uninitialised variables, and where an infinite variance is compared. Times, counts for printing and drawing are
  left out. Quotients by zero, of patches without contrast, are not considered.
\<close>

section \<open>Views of the map\<close>

definition get_at :: "nat \<Rightarrow> 'a list \<Rightarrow> 'a exec" where
  "get_at i xs = (if i < length xs then Ret (xs ! i) else Undef)"

definition put_at :: "nat \<Rightarrow> 'a \<Rightarrow> 'a list \<Rightarrow> 'a list exec" where
  "put_at i x xs = (if i < length xs then Ret (xs[i := x]) else Undef)"

text \<open>A point of the scan: its voxel is looked at, and its depth noted when it is in the frame.\<close>

definition project_point :: "pointWithVar \<Rightarrow> VIOManager \<times> (int \<Rightarrow> real) \<Rightarrow> (VIOManager \<times> (int \<Rightarrow> real)) exec" where
  "project_point pv r =
     (let v = fst r; depth_img = snd r;
          loc = retrieve_location (point_w pv);
          v = v\<lparr>sub_feat_map := (if loc \<in> set (sub_feat_map v) then sub_feat_map v else sub_feat_map v @ [loc])\<rparr>;
          pt_c = w2f (new_frame v) (point_w pv);
          px = world2cam (vm_cam v) pt_c;
          k = vm_width v * trunc_int (snd px) + trunc_int (fst px)
      in if v3_at pt_c 2 > 0 \<and> isInFrame (vm_cam v) (cast_int px) (border v)
         then (if 0 \<le> k \<and> k < vm_width v * vm_height v then Ret (v, depth_img(k := v3_at pt_c 2)) else Undef)
         else Ret (v, depth_img))"

text \<open>A visual point of a voxel: in the frame it claims its cell when no nearer point has.\<close>

definition see_point :: "addr \<Rightarrow> VIOManager \<times> bool \<Rightarrow> (VIOManager \<times> bool) exec" where
  "see_point a r =
     bind_exec (follow (vm_points (fst r)) a) (\<lambda>pt.
       let v = fst r; pc = w2c v (vp_pos pt)
       in if obs pt = [] \<or> v3_at (w2f (new_frame v) (vp_pos pt)) 2 < 0 \<or> \<not> isInFrame (vm_cam v) (cast_int pc) (border v)
          then Ret r
          else bind_exec (cell_of v pc) (\<lambda>i.
                 let cur_dist = v3_norm (v3_sub (frame_pos (new_frame v)) (vp_pos pt));
                     v = v\<lparr>grid_num := (grid_num v)[i := TYPE_MAP]\<rparr>
                 in bind_exec (get_at i (map_dist v)) (\<lambda>dist.
                      if cur_dist \<le> dist
                      then bind_exec (put_at i (Some a) (retrieve_voxel_points v)) (\<lambda>rs.
                             Ret (v\<lparr>map_dist := (map_dist v)[i := cur_dist], retrieve_voxel_points := rs\<rparr>, True))
                      else Ret (v, True))))"

definition see_voxel :: "VOXEL_LOCATION \<Rightarrow> VIOManager \<times> VOXEL_LOCATION list \<Rightarrow> (VIOManager \<times> VOXEL_LOCATION list) exec" where
  "see_voxel loc r =
     (case map_of (feat_map (fst r)) loc of
        None \<Rightarrow> Ret r
      | Some x \<Rightarrow> bind_exec (exec_fold see_point (voxel_points x) (fst r, False)) (\<lambda>q.
                    Ret (fst q, if snd q then snd r else snd r @ [loc])))"

text \<open>A ray through an empty cell, up to the first voxel with something to see.\<close>

fun cast_ray :: "VoxelMapConfig \<Rightarrow> voxel_map \<Rightarrow> vec3 list \<Rightarrow> VIOManager \<Rightarrow> VIOManager exec" where
  "cast_ray cfg plane_map [] v = Ret v"
| "cast_ray cfg plane_map (s # samples) v =
     (let sample_point_w = f2w (new_frame v) s; loc = retrieve_location sample_point_w
      in if loc \<in> set (sub_feat_map v) then Ret v
         else case map_of (feat_map v) loc of
                Some x \<Rightarrow>
                  if voxel_points x = [] then cast_ray cfg plane_map samples v
                  else bind_exec (exec_fold see_point (voxel_points x) (v, False)) (\<lambda>q.
                         Ret (if snd q then (fst q)\<lparr>sub_feat_map := sub_feat_map (fst q) @ [loc]\<rparr> else fst q))
              | None \<Rightarrow>
                  (case map_of plane_map loc of
                     None \<Rightarrow> cast_ray cfg plane_map samples v
                   | Some t \<Rightarrow>
                       let pl = plane_ptr (data (find_correspond cfg sample_point_w t)); sm = visual_submap v
                       in if vp_is_plane pl
                          then Ret (v\<lparr>visual_submap := sm\<lparr>add_from_voxel_map := add_from_voxel_map sm
                                 @ [new_pointWithVar\<lparr>point_w := vp_center pl, pv_normal := vp_normal pl\<rparr>]\<rparr>\<rparr>)
                          else cast_ray cfg plane_map samples v))"

definition cast_cell :: "VoxelMapConfig \<Rightarrow> voxel_map \<Rightarrow> nat \<Rightarrow> VIOManager \<Rightarrow> VIOManager exec" where
  "cast_cell cfg plane_map i v =
     bind_exec (get_at i (grid_num v)) (\<lambda>cell.
       if cell = TYPE_MAP then Ret v
       else bind_exec (get_at i (border_flag v)) (\<lambda>flag.
              if flag then Ret v
              else bind_exec (get_at i (rays_with_sample_points v)) (\<lambda>samples. cast_ray cfg plane_map samples v)))"

section \<open>The reference of a point\<close>

definition patch_ssd :: "nat \<Rightarrow> real \<Rightarrow> real list \<Rightarrow> real \<Rightarrow> real list \<Rightarrow> real exec" where
  "patch_ssd n a p b q =
     (if length p < n \<or> length q < n then Undef
      else Ret (\<Sum>(x, y) \<leftarrow> zip (take n p) (take n q). (a * x - b * y) * (a * x - b * y)))"

text \<open>The summed photometric error of one observation against the others, and their number.\<close>

definition others_error :: "nat \<Rightarrow> ft_heap \<Rightarrow> Feature \<Rightarrow> addr \<Rightarrow> real \<times> nat \<Rightarrow> (real \<times> nat) exec" where
  "others_error n h f b r =
     bind_exec (follow h b) (\<lambda>g.
       if ft_id g = ft_id f then Ret r
       else bind_exec (patch_ssd n 1 (ft_patch f) 1 (ft_patch g)) (\<lambda>e. Ret (fst r + e, snd r + 1)))"

definition offer_reference :: "nat \<Rightarrow> ft_heap \<Rightarrow> addr list \<Rightarrow> addr \<Rightarrow> addr option \<times> real \<Rightarrow> (addr option \<times> real) exec" where
  "offer_reference n h os a r =
     bind_exec (follow h a) (\<lambda>f. bind_exec (exec_fold (others_error n h f) os (0, 0)) (\<lambda>e.
       Ret (if snd e \<noteq> 0 \<and> fst e / real (snd e) < snd r then (Some a, fst e / real (snd e)) else r)))"

definition choose_reference :: "nat \<Rightarrow> ft_heap \<Rightarrow> VisualPoint \<Rightarrow> (addr \<times> VisualPoint) exec" where
  "choose_reference n h pt =
     (case obs pt of
        [a] \<Rightarrow> Ret (a, pt\<lparr>ref_patch := Some a, has_ref_patch := True\<rparr>)
      | os \<Rightarrow>
          if \<not> has_ref_patch pt
          then bind_exec (exec_fold (offer_reference n h os) os (None, FLT_MAX)) (\<lambda>r.
                 case fst r of None \<Rightarrow> Undef
               | Some a \<Rightarrow> Ret (a, pt\<lparr>ref_patch := Some a, has_ref_patch := True\<rparr>))
          else case ref_patch pt of None \<Rightarrow> Undef | Some a \<Rightarrow> Ret (a, pt))"

text \<open>The warp from the reference to the frame: from the normal, or from the depth and then kept by the id of the
  reference, which is the id of its frame.\<close>

definition warp_of :: "VIOManager \<Rightarrow> VisualPoint \<Rightarrow> Feature \<Rightarrow> VIOManager \<times> nat \<times> mat2" where
  "warp_of v pt f =
     (let T_cur_ref = se3_mult (fr_T_f_w (new_frame v)) (se3_inverse (ft_T_f_w f))
      in if normal_en v
         then let norm_vec = v3_normalize (m3_apply (fst (ft_T_f_w f)) (vp_point_normal pt));
                  pf = se3_apply (ft_T_f_w f) (vp_pos pt);
                  A = getWarpMatrixAffineHomography (vm_cam v) (ft_px f) pf norm_vec T_cur_ref 0
              in (v, getBestSearchLevel A 2, A)
         else case map_of (warp_map v) (ft_id f) of
                Some q \<Rightarrow> (v, q)
              | None \<Rightarrow>
                  let A = getWarpMatrixAffine (vm_cam v) (ft_px f) (ft_f f) (v3_norm (v3_sub (ft_pos f) (vp_pos pt)))
                            T_cur_ref (ft_level f) 0 (patch_size_half v);
                      q = (getBestSearchLevel A 2, A)
                  in (v\<lparr>warp_map := AList.update (ft_id f) q (warp_map v)\<rparr>, q))"

text \<open>Whether a neighbour of the point's pixel has a depth that differs by more than half a metre.\<close>

definition depth_step :: "VIOManager \<Rightarrow> (int \<Rightarrow> real) \<Rightarrow> real \<Rightarrow> vec2 \<Rightarrow> int \<times> int \<Rightarrow> bool \<Rightarrow> bool exec" where
  "depth_step v depth_img z pc uv found =
     (let k = vm_width v * (snd uv + trunc_int (snd pc)) + fst uv + trunc_int (fst pc)
      in if found then Ret True
         else if uv = (0, 0) then Ret False
         else if 0 \<le> k \<and> k < vm_width v * vm_height v then Ret (depth_img k \<noteq> 0 \<and> \<bar>z - depth_img k\<bar> > 1 / 2) else Undef)"

definition depth_continous :: "VIOManager \<Rightarrow> (int \<Rightarrow> real) \<Rightarrow> real \<Rightarrow> vec2 \<Rightarrow> bool exec" where
  "depth_continous v depth_img z pc =
     (let half = int (patch_size_half v)
      in exec_fold (depth_step v depth_img z pc) (concat (map (\<lambda>u. map (\<lambda>w. (u, w)) [- half..half]) [- half..half])) False)"

section \<open>Retrieval\<close>

text \<open>The warped reference patch at all levels, and the patch of the image in \<open>patch_buffer\<close>.\<close>

definition warp_levels :: "VIOManager \<Rightarrow> Feature \<Rightarrow> nat \<Rightarrow> mat2 \<Rightarrow> real list exec" where
  "warp_levels v f search_level A =
     exec_fold (\<lambda>level. warpAffine (patch_size_total v) A (ft_img f) (ft_px f) search_level level (patch_size_half v))
       [0..<patch_pyrimid_level v] (replicate (warp_len v) 0)"

definition vio_patch :: "VIOManager \<Rightarrow> Img \<Rightarrow> vec2 \<Rightarrow> real list \<Rightarrow> real list exec" where
  "vio_patch v img pc buf = getImagePatch (vm_width v) (patch_size v) (patch_size_half v) (patch_size_total v) img pc buf 0"

definition push_submap :: "addr \<Rightarrow> real \<Rightarrow> nat \<Rightarrow> real list \<Rightarrow> real \<Rightarrow> SubSparseMap \<Rightarrow> SubSparseMap" where
  "push_submap a err level wrap expo sm =
     sm\<lparr>sub_points := sub_points sm @ [a], propa_errors := propa_errors sm @ [err], search_levels := search_levels sm @ [level],
        errors := errors sm @ [err], warp_patch := warp_patch sm @ [wrap], inv_expo_list := inv_expo_list sm @ [expo]\<rparr>"

text \<open>What is done with a point once its reference is known.\<close>

definition compare_patches :: "real \<Rightarrow> Img \<Rightarrow> addr \<Rightarrow> VisualPoint \<Rightarrow> Feature \<Rightarrow> VIOManager \<Rightarrow> VIOManager exec" where
  "compare_patches inv_expo img a pt f v =
     (let pc = w2c v (vp_pos pt); n = patch_size_total v; (v, search_level, A) = warp_of v pt f
      in bind_exec (warp_levels v f search_level A) (\<lambda>patch_wrap.
         bind_exec (vio_patch v img pc (patch_buffer v)) (\<lambda>buf.
         bind_exec (patch_ssd n (ft_inv_expo_time f) patch_wrap inv_expo buf) (\<lambda>err.
         bind_exec (if ncc_en v then bind_exec (calculateNCC patch_wrap buf n) (\<lambda>ncc. Ret (ncc < ncc_thre v)) else Ret False) (\<lambda>bad.
           let v = v\<lparr>patch_buffer := buf\<rparr>
           in Ret (if bad \<or> err > outlier_threshold v * real n then v
                   else v\<lparr>visual_submap := push_submap a err search_level patch_wrap (ft_inv_expo_time f) (visual_submap v)\<rparr>))))))"

definition retrieve_cell :: "real \<Rightarrow> Img \<Rightarrow> (int \<Rightarrow> real) \<Rightarrow> nat \<Rightarrow> VIOManager \<Rightarrow> VIOManager exec" where
  "retrieve_cell inv_expo img depth_img i v =
     bind_exec (get_at i (grid_num v)) (\<lambda>cell.
       if cell \<noteq> TYPE_MAP then Ret v
       else bind_exec (get_at i (retrieve_voxel_points v)) (\<lambda>ptr.
         case ptr of None \<Rightarrow> Undef
       | Some a \<Rightarrow> bind_exec (follow (vm_points v) a) (\<lambda>pt.
           let pc = w2c v (vp_pos pt)
           in bind_exec (depth_continous v depth_img (v3_at (w2f (new_frame v) (vp_pos pt)) 2) pc) (\<lambda>jump.
                if jump \<or> \<not> is_normal_initialized pt then Ret v
                else if normal_en v
                then bind_exec (choose_reference (patch_size_total v) (vm_features v) pt) (\<lambda>q.
                       bind_exec (follow (vm_features v) (fst q)) (\<lambda>f.
                         compare_patches inv_expo img a (snd q) f (v\<lparr>vm_points := (vm_points v)(a \<mapsto> snd q)\<rparr>)))
                else bind_exec (getCloseViewObs (frame_pos (new_frame v)) pt (vm_features v)) (\<lambda>q.
                       case q of (True, Some b) \<Rightarrow> bind_exec (follow (vm_features v) b) (\<lambda>f. compare_patches inv_expo img a pt f v)
                               | _ \<Rightarrow> Ret v)))))"

definition retrieveFromVisualSparseMap :: "(VOXEL_LOCATION list \<Rightarrow> VOXEL_LOCATION list) \<Rightarrow> VoxelMapConfig \<Rightarrow> voxel_map \<Rightarrow> real
    \<Rightarrow> Img \<Rightarrow> pointWithVar list \<Rightarrow> VIOManager \<Rightarrow> VIOManager exec" where
  "retrieveFromVisualSparseMap order cfg plane_map inv_expo img pg v =
     (if feat_map v = [] then Ret v
      else let v = v\<lparr>visual_submap := empty_submap, sub_feat_map := [], warp_map := (if normal_en v then warp_map v else [])\<rparr>;
               cells = [0..<nat (vm_length v)]
           in bind_exec (exec_fold project_point pg (v, \<lambda>_. 0)) (\<lambda>(v, depth_img).
              bind_exec (exec_fold see_voxel (order (sub_feat_map v)) (v, [])) (\<lambda>(v, keys).
              bind_exec (if raycast_en v then exec_fold (cast_cell cfg plane_map) cells v else Ret v) (\<lambda>v.
              bind_exec (exec_fold (retrieve_cell inv_expo img depth_img) cells
                  (v\<lparr>sub_feat_map := filter (\<lambda>loc. loc \<notin> set keys) (sub_feat_map v)\<rparr>)) (\<lambda>v.
                Ret (v\<lparr>total_points := length (sub_points (visual_submap v))\<rparr>))))))"

section \<open>New points\<close>

text \<open>A candidate takes its cell when it has the best score so far and no visual point is in the cell.\<close>

definition offer_point :: "Img \<Rightarrow> pointWithVar \<Rightarrow> VIOManager \<Rightarrow> VIOManager exec" where
  "offer_point img pv v =
     (let pc = w2c v (point_w pv)
      in if \<not> isInFrame (vm_cam v) (cast_int pc) (border v) then Ret v
         else bind_exec (cell_of v pc) (\<lambda>i.
                if grid_num v ! i = TYPE_MAP then Ret v
                else bind_exec (shiTomasiScore img (cast_int pc)) (\<lambda>cur_value.
                     bind_exec (get_at i (scan_value v)) (\<lambda>best.
                          if cur_value > best
                          then bind_exec (put_at i pv (append_voxel_points v)) (\<lambda>ps.
                                 Ret (v\<lparr>scan_value := (scan_value v)[i := cur_value], append_voxel_points := ps,
                                        grid_num := (grid_num v)[i := TYPE_POINTCLOUD]\<rparr>))
                          else Ret v))))"

text \<open>\<open>new\<close> takes the next address. The patch is written completely, so its fresh content does not matter; \<open>junk\<close> is
  that of \<open>ref_patch\<close>.\<close>

definition append_point :: "addr option \<Rightarrow> real \<Rightarrow> Img \<Rightarrow> pointWithVar \<Rightarrow> VIOManager \<Rightarrow> VIOManager exec" where
  "append_point junk inv_expo img pv v =
     (let p = point_w pv; pc = w2c v p; fr = new_frame v;
          norm_vec = m3_apply (fst (fr_T_f_w fr)) (pv_normal pv);
          cos_theta = v3_dot (v3_normalize (w2f fr p)) norm_vec;
          normal = (if cos_theta < 0 then v3_scale (- 1) (pv_normal pv) else pv_normal pv);
          a = vm_next v; b = a + 1
      in bind_exec (vio_patch v img pc (replicate (patch_size_total v) 0)) (\<lambda>patch.
           let ftr = new_Feature a patch pc (cam2world (vm_cam v) pc) (fr_T_f_w fr) 0 (fr_id fr) img inv_expo;
               pt = (addFrameRef b (new_VisualPoint junk p))\<lparr>covariance := pv_var pv, is_normal_initialized := True,
                      vp_point_normal := normal, previous_normal := normal\<rparr>
           in insertPointIntoVoxelMap a
                (v\<lparr>vm_points := (vm_points v)(a \<mapsto> pt), vm_features := (vm_features v)(b \<mapsto> ftr), vm_next := b + 1\<rparr>)))"

definition append_cell :: "addr option \<Rightarrow> real \<Rightarrow> Img \<Rightarrow> nat \<Rightarrow> VIOManager \<Rightarrow> VIOManager exec" where
  "append_cell junk inv_expo img i v =
     bind_exec (get_at i (grid_num v)) (\<lambda>cell.
       if cell = TYPE_POINTCLOUD
       then bind_exec (get_at i (append_voxel_points v)) (\<lambda>pv. append_point junk inv_expo img pv v)
       else Ret v)"

definition generateVisualMapPoints :: "addr option \<Rightarrow> real \<Rightarrow> Img \<Rightarrow> pointWithVar list
    \<Rightarrow> VIOManager \<Rightarrow> VIOManager exec" where
  "generateVisualMapPoints junk inv_expo img pg v =
     (if length pg \<le> 10 then Ret v
      else bind_exec (exec_fold (offer_point img)
               (filter (\<lambda>pv. pv_normal pv \<noteq> v3_zero) pg @ add_from_voxel_map (visual_submap v)) v)
             (exec_fold (append_cell junk inv_expo img) [0..<nat (vm_length v)]))"

section \<open>New observations\<close>

definition delta_theta :: "se3 \<Rightarrow> real" where
  "delta_theta T = (if m3_trace (fst T) > 3 - 1 / 10 ^ 6 then 0 else arccos (1 / 2 * (m3_trace (fst T) - 1)))"

definition wants_view :: "VIOManager \<Rightarrow> VisualPoint \<Rightarrow> Feature \<Rightarrow> bool" where
  "wants_view v pt last_feature =
     (let delta_pose = se3_mult (ft_T_f_w last_feature) (se3_inverse (fr_T_f_w (new_frame v)))
      in v3_norm (snd delta_pose) > 1 / 2 \<or> delta_theta delta_pose > 3 / 10
         \<or> v2_norm (v2_sub (w2c v (vp_pos pt)) (ft_px last_feature)) > 40)"

text \<open>At thirty observations the one of least score goes.\<close>

definition make_room :: "VisualPoint \<Rightarrow> ft_heap \<Rightarrow> (VisualPoint \<times> ft_heap) exec" where
  "make_room pt h =
     (if length (obs pt) \<ge> 30 then bind_exec (findMinScoreFeature pt h) (\<lambda>r. deleteFeatureRef r pt h) else Ret (pt, h))"

text \<open>The patch of a point that gets no new observation is not freed: \<open>vm_leaked\<close> counts them.\<close>

definition update_point :: "real \<Rightarrow> Img \<Rightarrow> nat \<Rightarrow> VIOManager \<Rightarrow> VIOManager exec" where
  "update_point inv_expo img i v =
     bind_exec (get_at i (sub_points (visual_submap v))) (\<lambda>a.
     bind_exec (follow (vm_points v) a) (\<lambda>pt.
       if is_converged pt
       then bind_exec (deleteNonRefPatchFeatures pt (vm_features v)) (\<lambda>r.
              Ret (v\<lparr>vm_points := (vm_points v)(a \<mapsto> fst r), vm_features := snd r\<rparr>))
       else let pc = w2c v (vp_pos pt); fr = new_frame v
            in bind_exec (vio_patch v img pc (replicate (patch_size_total v) 0)) (\<lambda>patch_temp.
               if obs pt = [] then Undef
               else bind_exec (follow (vm_features v) (last (obs pt))) (\<lambda>last_feature.
                 bind_exec (make_room pt (vm_features v)) (\<lambda>r.
                   let v = v\<lparr>vm_points := (vm_points v)(a \<mapsto> fst r), vm_features := snd r\<rparr>; b = vm_next v
                   in if wants_view v pt last_feature
                      then bind_exec (put_at i True (update_flag v)) (\<lambda>flags.
                             bind_exec (get_at i (search_levels (visual_submap v))) (\<lambda>level.
                               let ftr = new_Feature a patch_temp pc (cam2world (vm_cam v) pc) (fr_T_f_w fr) level (fr_id fr) img inv_expo
                               in Ret (v\<lparr>update_flag := flags, vm_features := (vm_features v)(b \<mapsto> ftr),
                                         vm_points := (vm_points v)(a \<mapsto> addFrameRef b (fst r)), vm_next := b + 1\<rparr>)))
                      else Ret (v\<lparr>vm_leaked := vm_leaked v + 1\<rparr>))))))"

definition updateVisualMapPoints :: "real \<Rightarrow> Img \<Rightarrow> VIOManager \<Rightarrow> VIOManager exec" where
  "updateVisualMapPoints inv_expo img v = exec_fold (update_point inv_expo img) [0..<total_points v] v"

section \<open>Normals and reference patches\<close>

text \<open>The plane of the LiDAR map at the point, when the point lies on it, gives the normal.\<close>

definition on_plane :: "sigma_oracle \<Rightarrow> VoxelPlane \<Rightarrow> VisualPoint \<Rightarrow> bool" where
  "on_plane sigma_inf plane pt =
     (let pv = new_pointWithVar\<lparr>point_w := vp_pos pt, pv_var := covariance pt\<rparr>
      in in_range plane (vp_pos pt)
         \<and> (case vp_plane_var plane of
              None \<Rightarrow> sigma_inf plane (vp_pos pt)
            | Some P \<Rightarrow> 0 \<le> sigma_l plane P pv \<and> \<bar>signed_distance plane (vp_pos pt)\<bar> < 3 * sqrt (sigma_l plane P pv)))"

definition refine_normal :: "sigma_oracle \<Rightarrow> VoxelMapConfig \<Rightarrow> voxel_map \<Rightarrow> VisualPoint \<Rightarrow> VisualPoint" where
  "refine_normal sigma_inf cfg plane_map pt =
     (case map_of plane_map (insert_location (vp_pos pt)) of
        None \<Rightarrow> pt
      | Some t \<Rightarrow>
          let plane = plane_ptr (data (find_correspond cfg (vp_pos pt) t))
          in if vp_is_plane plane \<and> on_plane sigma_inf plane pt
             then let normal = (if v3_dot (previous_normal pt) (vp_normal plane) < 0 then v3_scale (- 1) (vp_normal plane) else vp_normal plane);
                      normal_update = v3_norm (v3_sub normal (previous_normal pt))
                  in pt\<lparr>vp_point_normal := normal, previous_normal := normal,
                        is_converged := is_converged pt \<or> normal_update < 1 / 10000 \<and> length (obs pt) > 10\<rparr>
             else pt)"

text \<open>The mean of a patch is computed once and kept in the feature; where it is already kept, the local variable
  that should hold it is uninitialised (\<open>junk\<close>).\<close>

definition mean_of :: "nat \<Rightarrow> real \<Rightarrow> addr \<Rightarrow> ft_heap \<Rightarrow> (real \<times> ft_heap) exec" where
  "mean_of n junk a h =
     bind_exec (follow h a) (\<lambda>f.
       if \<bar>ft_mean f\<bar> < 1 / 10 ^ 6
       then if length (ft_patch f) < n then Undef
            else let m = sum_list (take n (ft_patch f)) / real n in Ret (m, h(a \<mapsto> f\<lparr>ft_mean := m\<rparr>))
       else Ret (junk, h))"

text \<open>The sums of the correlations are not reset between the observations.\<close>

record ncc_sums =
  NCC_up :: real
  NCC_down1 :: real
  NCC_down2 :: real
  NCC_total :: real
  ncc_count :: nat

definition correlate :: "nat \<Rightarrow> (addr \<Rightarrow> addr \<Rightarrow> real) \<Rightarrow> addr \<Rightarrow> real \<Rightarrow> addr \<Rightarrow> ft_heap \<times> ncc_sums \<Rightarrow> (ft_heap \<times> ncc_sums) exec" where
  "correlate n junk a ref_mean b r =
     bind_exec (follow (fst r) a) (\<lambda>f. bind_exec (follow (fst r) b) (\<lambda>g.
       if ft_id g = ft_id f then Ret r
       else bind_exec (mean_of n (junk a b) b (fst r)) (\<lambda>(other_mean, h).
              if length (ft_patch f) < n \<or> length (ft_patch g) < n then Undef
              else let xs = map (\<lambda>x. x - ref_mean) (take n (ft_patch f)); ys = map (\<lambda>y. y - other_mean) (take n (ft_patch g)); s = snd r;
                       up = NCC_up s + (\<Sum>(x, y) \<leftarrow> zip xs ys. x * y);
                       down1 = NCC_down1 s + (\<Sum>x \<leftarrow> xs. x * x); down2 = NCC_down2 s + (\<Sum>y \<leftarrow> ys. y * y)
                   in Ret (h, \<lparr>NCC_up = up, NCC_down1 = down1, NCC_down2 = down2,
                               NCC_total = NCC_total s + \<bar>up / sqrt (down1 * down2)\<bar>, ncc_count = ncc_count s + 1\<rparr>))))"

definition score_feature :: "nat \<Rightarrow> (addr \<Rightarrow> addr \<Rightarrow> real) \<Rightarrow> VisualPoint \<Rightarrow> addr \<Rightarrow> ft_heap \<times> addr option \<times> real
    \<Rightarrow> (ft_heap \<times> addr option \<times> real) exec" where
  "score_feature n junk pt a r =
     bind_exec (mean_of n (junk a a) a (fst r)) (\<lambda>(ref_mean, h).
     bind_exec (exec_fold (correlate n junk a ref_mean) (obs pt) (h, \<lparr>NCC_up = 0, NCC_down1 = 0, NCC_down2 = 0, NCC_total = 0, ncc_count = 0\<rparr>)) (\<lambda>(h, s).
     bind_exec (follow h a) (\<lambda>f.
       let pf = se3_apply (ft_T_f_w f) (vp_pos pt);
           norm_vec = m3_apply (fst (ft_T_f_w f)) (vp_point_normal pt);
           score = NCC_total s / real (ncc_count s) + v3_dot (v3_normalize pf) norm_vec;
           h = h(a \<mapsto> f\<lparr>ft_score := score\<rparr>)
       in Ret (if score > snd (snd r) then (h, Some a, score) else (h, snd r)))))"

definition reference_point :: "sigma_oracle \<Rightarrow> VoxelMapConfig \<Rightarrow> voxel_map \<Rightarrow> (addr \<Rightarrow> addr \<Rightarrow> real) \<Rightarrow> nat \<Rightarrow> VIOManager \<Rightarrow> VIOManager exec" where
  "reference_point sigma_inf cfg plane_map junk i v =
     bind_exec (get_at i (sub_points (visual_submap v))) (\<lambda>a.
     bind_exec (follow (vm_points v) a) (\<lambda>pt.
       if \<not> is_normal_initialized pt \<or> is_converged pt \<or> length (obs pt) \<le> 5 then Ret v
       else bind_exec (get_at i (update_flag v)) (\<lambda>flag.
         if \<not> flag then Ret v
         else let pt1 = refine_normal sigma_inf cfg plane_map pt
              in bind_exec (exec_fold (score_feature (patch_size_total v) junk pt1) (obs pt1) (vm_features v, None, - 1000)) (\<lambda>(h, best, _).
                   let pt2 = (case best of None \<Rightarrow> pt1 | Some b \<Rightarrow> pt1\<lparr>ref_patch := Some b, has_ref_patch := True\<rparr>)
                   in Ret (v\<lparr>vm_features := h, vm_points := (vm_points v)(a \<mapsto> pt2)\<rparr>)))))"

definition updateReferencePatch :: "sigma_oracle \<Rightarrow> VoxelMapConfig \<Rightarrow> voxel_map \<Rightarrow> (addr \<Rightarrow> addr \<Rightarrow> real) \<Rightarrow> VIOManager \<Rightarrow> VIOManager exec" where
  "updateReferencePatch sigma_inf cfg plane_map junk v =
     (if total_points v = 0 then Ret v
      else exec_fold (reference_point sigma_inf cfg plane_map junk) [0..<length (sub_points (visual_submap v))] v)"

end
