(* ===== verification/Vio_Sound.thy ===== *)
theory Vio_Sound
  imports Vio_Map
begin

text \<open>
  The invariant of the sparse visual map: the heap of points and features is well formed, every point is filed under
  its own voxel, and what the frame refers to is alive. Every step of the visual odometry keeps it.
\<close>

section \<open>Heaps\<close>

definition heap_ok :: "nat \<Rightarrow> (addr \<rightharpoonup> VisualPoint) \<Rightarrow> ft_heap \<Rightarrow> addr \<Rightarrow> bool" where
  "heap_ok n pts fts nxt =
     (dom pts \<subseteq> {..<nxt} \<and> dom fts \<subseteq> {..<nxt}
      \<and> (\<forall>a pt. pts a = Some pt \<longrightarrow> point_ok fts a pt \<and> length (obs pt) \<le> 30)
      \<and> (\<forall>b f. fts b = Some f \<longrightarrow> length (ft_patch f) = n \<and> (\<exists>pt. pts (ft_point f) = Some pt \<and> b \<in> set (obs pt))))"

lemma heap_okD:
  assumes "heap_ok n pts fts nxt"
  shows "pts a = Some pt \<Longrightarrow> point_ok fts a pt" "pts a = Some pt \<Longrightarrow> length (obs pt) \<le> 30"
    "fts b = Some f \<Longrightarrow> length (ft_patch f) = n" "pts a = Some pt \<Longrightarrow> a < nxt" "fts b = Some f \<Longrightarrow> b < nxt"
    "fts b = Some f \<Longrightarrow> \<exists>pt. pts (ft_point f) = Some pt \<and> b \<in> set (obs pt)"
  using assms by (auto simp: heap_ok_def)

lemma heap_okI:
  assumes "\<And>a pt. pts a = Some pt \<Longrightarrow> a < nxt \<and> point_ok fts a pt \<and> length (obs pt) \<le> 30"
    and "\<And>b f. fts b = Some f \<Longrightarrow> b < nxt \<and> length (ft_patch f) = n \<and> (\<exists>pt. pts (ft_point f) = Some pt \<and> b \<in> set (obs pt))"
  shows "heap_ok n pts fts nxt"
  using assms by (auto simp: heap_ok_def)

lemma heap_ok_follow:
  assumes "heap_ok n pts fts nxt" "pts a = Some pt" "b \<in> set (obs pt)"
  shows "\<exists>f. fts b = Some f \<and> follow fts b = Ret f \<and> ft_point f = a \<and> length (ft_patch f) = n"
  using point_ok_follow [OF heap_okD(1) [OF assms(1,2)] assms(3)] heap_okD(3) [OF assms(1)] by blast

lemma heap_ok_point:
  assumes "heap_ok n pts fts nxt" "pts a = Some pt" "obs pt' = obs pt"
    and "has_ref_patch pt' \<Longrightarrow> \<exists>b \<in> set (obs pt). ref_patch pt' = Some b"
  shows "heap_ok n (pts(a \<mapsto> pt')) fts nxt"
proof (rule heap_okI)
  have "point_ok fts a pt'" using heap_okD(1) [OF assms(1,2)] assms(3,4) by (auto simp: point_ok_def)
  then show "c < nxt \<and> point_ok fts c q \<and> length (obs q) \<le> 30" if "(pts(a \<mapsto> pt')) c = Some q" for c q
    using that heap_okD(1,2,4) [OF assms(1)] assms(2,3) by (auto split: if_splits)
  show "b < nxt \<and> length (ft_patch f) = n \<and> (\<exists>q. (pts(a \<mapsto> pt')) (ft_point f) = Some q \<and> b \<in> set (obs q))" if "fts b = Some f" for b f
    using heap_okD(3,5,6) [OF assms(1) that] assms(2,3) by auto
qed

lemma heap_ok_feature:
  assumes "heap_ok n pts fts nxt" "fts b = Some f" "ft_point f' = ft_point f" "ft_patch f' = ft_patch f"
  shows "heap_ok n pts (fts(b \<mapsto> f')) nxt"
proof (rule heap_okI)
  show "a < nxt \<and> point_ok (fts(b \<mapsto> f')) a pt \<and> length (obs pt) \<le> 30" if "pts a = Some pt" for a pt
  proof -
    have "\<exists>g. (fts(b \<mapsto> f')) c = Some g \<and> ft_point g = a" if c: "c \<in> set (obs pt)" for c
      using heap_ok_follow [OF assms(1) \<open>pts a = Some pt\<close> c] assms(2,3) by (cases "c = b") auto
    then show ?thesis using heap_okD(1,2,4) [OF assms(1) that] by (simp add: point_ok_def)
  qed
  show "c < nxt \<and> length (ft_patch g) = n \<and> (\<exists>pt. pts (ft_point g) = Some pt \<and> c \<in> set (obs pt))" if "(fts(b \<mapsto> f')) c = Some g" for c g
    using that heap_okD(3,5,6) [OF assms(1)] assms(2-) by (auto split: if_splits)
qed

text \<open>Features of one point are deleted.\<close>

lemma heap_ok_delete:
  assumes "heap_ok n pts fts nxt" "pts a = Some pt" "point_ok h' a pt'" "set (obs pt') \<subseteq> set (obs pt)" "length (obs pt') \<le> 30"
    and "\<And>b. h' b = (if b \<in> set (obs pt) \<and> b \<notin> set (obs pt') then None else fts b)"
  shows "heap_ok n (pts(a \<mapsto> pt')) h' nxt"
proof (rule heap_okI)
  have owner: "ft_point f = a" if "b \<in> set (obs pt)" "fts b = Some f" for b f
    using heap_ok_follow [OF assms(1,2) that(1)] that(2) by auto
  have "point_ok h' c q" if "c \<noteq> a" "pts c = Some q" for c q
  proof (rule point_ok_frame)
    show q: "point_ok fts c q" using heap_okD(1) [OF assms(1) that(2)] .
    show "h' b = fts b" if "b \<in> set (obs q)" for b
      using assms(6) [of b] owner [of b] point_ok_follow [OF q that] \<open>c \<noteq> a\<close> by auto
  qed
  then show "c < nxt \<and> point_ok h' c q \<and> length (obs q) \<le> 30" if "(pts(a \<mapsto> pt')) c = Some q" for c q
    using that assms(3,5) heap_okD(2,4) [OF assms(1)] assms(2) by (auto split: if_splits)
  show "b < nxt \<and> length (ft_patch f) = n \<and> (\<exists>q. (pts(a \<mapsto> pt')) (ft_point f) = Some q \<and> b \<in> set (obs q))" if "h' b = Some f" for b f
  proof -
    have b: "fts b = Some f" "b \<in> set (obs pt) \<Longrightarrow> b \<in> set (obs pt')" using assms(6) [of b] that by (auto split: if_splits)
    then show ?thesis using heap_okD(3,5,6) [OF assms(1) b(1)] assms(2) by auto
  qed
qed

lemma heap_ok_add:
  assumes "heap_ok n pts fts nxt" "pts a = Some pt" "length (obs pt) < 30" "ft_point f = a" "length (ft_patch f) = n"
  shows "heap_ok n (pts(a \<mapsto> addFrameRef nxt pt)) (fts(nxt \<mapsto> f)) (nxt + 1)"
proof (rule heap_okI)
  have fresh: "nxt \<notin> set (obs q)" if "pts c = Some q" for c q
  proof
    assume "nxt \<in> set (obs q)"
    from heap_ok_follow [OF assms(1) that this] heap_okD(5) [OF assms(1), of nxt] show False by blast
  qed
  have old: "point_ok (fts(nxt \<mapsto> f)) c q" if "pts c = Some q" for c q
    by (rule point_ok_frame [OF heap_okD(1) [OF assms(1) that]]) (use fresh [OF that] in auto)
  have "point_ok (fts(nxt \<mapsto> f)) a (addFrameRef nxt pt)"
    using assms(4) fresh [OF assms(2)] by (intro addFrameRef_ok [OF old [OF assms(2)]]) auto
  then show "c < nxt + 1 \<and> point_ok (fts(nxt \<mapsto> f)) c q \<and> length (obs q) \<le> 30" if "(pts(a \<mapsto> addFrameRef nxt pt)) c = Some q" for c q
    using that old [of c q] assms(2,3) heap_okD(2,4) [OF assms(1), of c q] heap_okD(4) [OF assms(1,2)]
    by (cases "c = a") (auto simp: addFrameRef_def)
  show "b < nxt + 1 \<and> length (ft_patch g) = n \<and> (\<exists>q. (pts(a \<mapsto> addFrameRef nxt pt)) (ft_point g) = Some q \<and> b \<in> set (obs q))"
    if "(fts(nxt \<mapsto> f)) b = Some g" for b g
  proof (cases "b = nxt")
    case False
    then have "fts b = Some g" using that by simp
    from heap_okD(3,5,6) [OF assms(1) this] show ?thesis using assms(2) by (auto simp: addFrameRef_def)
  qed (use that assms(4,5) in \<open>auto simp: addFrameRef_def\<close>)
qed

lemma heap_ok_new:
  assumes "heap_ok n pts fts nxt" "obs pt = [nxt + 1]" "\<not> has_ref_patch pt" "ft_point f = nxt" "length (ft_patch f) = n"
  shows "heap_ok n (pts(nxt \<mapsto> pt)) (fts(nxt + 1 \<mapsto> f)) (nxt + 2)"
proof (rule heap_okI)
  have "point_ok (fts(nxt + 1 \<mapsto> f)) c q" if "pts c = Some q" for c q
  proof (rule point_ok_frame)
    show q: "point_ok fts c q" by (rule heap_okD(1) [OF assms(1) that])
    show "(fts(nxt + 1 \<mapsto> f)) b = fts b" if "b \<in> set (obs q)" for b
      using point_ok_follow [OF q that] heap_okD(5) [OF assms(1), of b] by auto
  qed
  moreover have "point_ok (fts(nxt + 1 \<mapsto> f)) nxt pt" using assms(2-4) by (simp add: point_ok_def)
  ultimately show "c < nxt + 2 \<and> point_ok (fts(nxt + 1 \<mapsto> f)) c q \<and> length (obs q) \<le> 30" if "(pts(nxt \<mapsto> pt)) c = Some q" for c q
    using that assms(2) heap_okD(2,4) [OF assms(1), of c q] by (cases "c = nxt") auto
  show "b < nxt + 2 \<and> length (ft_patch g) = n \<and> (\<exists>q. (pts(nxt \<mapsto> pt)) (ft_point g) = Some q \<and> b \<in> set (obs q))"
    if "(fts(nxt + 1 \<mapsto> f)) b = Some g" for b g
  proof (cases "b = nxt + 1")
    case False
    then have b: "fts b = Some g" using that by simp
    have "ft_point g \<noteq> nxt" using heap_okD(6) [OF assms(1) b] heap_okD(4) [OF assms(1), of nxt] by auto
    then show ?thesis using heap_okD(3,5,6) [OF assms(1) b] by auto
  qed (use that assms(2,4,5) in auto)
qed

section \<open>The map\<close>

definition files_ok :: "(VOXEL_LOCATION \<times> VOXEL_POINTS) list \<Rightarrow> (addr \<rightharpoonup> VisualPoint) \<Rightarrow> bool" where
  "files_ok fm pts = (distinct (map fst fm) \<and>
     (\<forall>q \<in> set fm. \<forall>a \<in> set (voxel_points (snd q)). \<exists>pt. pts a = Some pt \<and> insert_location (vp_pos pt) = fst q))"

definition submap_ok :: "SubSparseMap \<Rightarrow> (addr \<rightharpoonup> VisualPoint) \<Rightarrow> bool" where
  "submap_ok sm pts = (set (sub_points sm) \<subseteq> dom pts \<and> length (propa_errors sm) = length (sub_points sm)
     \<and> length (errors sm) = length (sub_points sm) \<and> length (warp_patch sm) = length (sub_points sm)
     \<and> length (search_levels sm) = length (sub_points sm) \<and> length (inv_expo_list sm) = length (sub_points sm))"

definition vis_ok :: "VIOManager \<Rightarrow> bool" where
  "vis_ok v = (heap_ok (patch_size_total v) (vm_points v) (vm_features v) (vm_next v) \<and> files_ok (feat_map v) (vm_points v)
     \<and> (\<forall>a. Some a \<in> set (retrieve_voxel_points v) \<longrightarrow> a \<in> dom (vm_points v)) \<and> submap_ok (visual_submap v) (vm_points v))"

text \<open>A point is changed in place, or a new one is added.\<close>

lemma files_ok_point: "files_ok fm pts \<Longrightarrow> pts a = Some pt \<Longrightarrow> vp_pos pt' = vp_pos pt \<Longrightarrow> files_ok fm (pts(a \<mapsto> pt'))"
  by (fastforce simp: files_ok_def)

lemma files_ok_new: "files_ok fm pts \<Longrightarrow> pts a = None \<Longrightarrow> files_ok fm (pts(a \<mapsto> pt'))"
  by (fastforce simp: files_ok_def)

lemma submap_ok_point: "submap_ok sm pts \<Longrightarrow> submap_ok sm (pts(a \<mapsto> pt'))"
  by (auto simp: submap_ok_def)

lemma vis_ok_point:
  assumes "vis_ok v" "vm_points v a = Some pt" "vp_pos pt' = vp_pos pt"
    and "heap_ok (patch_size_total v) ((vm_points v)(a \<mapsto> pt')) fts nxt"
  shows "vis_ok (v\<lparr>vm_points := (vm_points v)(a \<mapsto> pt'), vm_features := fts, vm_next := nxt\<rparr>)"
  using assms by (auto simp: vis_ok_def files_ok_point submap_ok_point)

lemma vis_ok_feat: "vis_ok v \<Longrightarrow> heap_ok (patch_size_total v) (vm_points v) fts (vm_next v) \<Longrightarrow> vis_ok (v\<lparr>vm_features := fts\<rparr>)"
  by (simp add: vis_ok_def)

lemma follow_iff: "follow h a = Ret x \<longleftrightarrow> h a = Some x"
  by (simp add: follow_def split: option.splits)

lemma get_at_iff: "get_at i xs = Ret x \<longleftrightarrow> i < length xs \<and> x = xs ! i"
  by (auto simp: get_at_def)

lemma put_at_iff: "put_at i x xs = Ret ys \<longleftrightarrow> i < length xs \<and> ys = xs[i := x]"
  by (auto simp: put_at_def)

lemmas exec_iffs = bind_exec_Ret_iff follow_iff get_at_iff put_at_iff

section \<open>Steps\<close>

lemma resetGrid_ok: "vis_ok v \<Longrightarrow> vis_ok (resetGrid v)"
  by (auto simp: vis_ok_def resetGrid_def)

lemma project_point_ok: "project_point pv r = Ret r' \<Longrightarrow> vis_ok (fst r) \<Longrightarrow> vis_ok (fst r')"
  by (auto simp: project_point_def Let_def vis_ok_def split: if_splits)

lemma vis_ok_grid:
  assumes "vis_ok v" "a \<in> dom (vm_points v)"
  shows "vis_ok (v\<lparr>grid_num := g\<rparr>)" "vis_ok (v\<lparr>grid_num := g, map_dist := d, retrieve_voxel_points := (retrieve_voxel_points v)[i := Some a]\<rparr>)"
proof -
  have "b \<in> dom (vm_points v)" if "Some b \<in> set ((retrieve_voxel_points v)[i := Some a])" for b
    using subsetD [OF set_update_subset_insert that] assms by (auto simp: vis_ok_def)
  with assms(1) show "vis_ok (v\<lparr>grid_num := g\<rparr>)" "vis_ok (v\<lparr>grid_num := g, map_dist := d, retrieve_voxel_points := (retrieve_voxel_points v)[i := Some a]\<rparr>)"
    by (simp_all add: vis_ok_def)
qed

lemma see_point_ok:
  assumes "see_point a r = Ret r'" "vis_ok (fst r)"
  shows "vis_ok (fst r')"
proof -
  obtain pt where pt: "vm_points (fst r) a = Some pt" using assms(1) by (auto simp: see_point_def exec_iffs)
  then have a: "a \<in> dom (vm_points (fst r))" by blast
  show ?thesis
  proof (cases "r' = r")
    case False
    then obtain i dist where i: "cell_of (fst r) (w2c (fst r) (vp_pos pt)) = Ret i" "get_at i (map_dist (fst r)) = Ret dist"
      using assms(1) pt by (auto simp: see_point_def Let_def bind_exec_Ret_iff split: if_splits)
    with assms(1) pt False vis_ok_grid [OF assms(2) a] show ?thesis
      by (auto simp: see_point_def Let_def put_at_def split: if_splits)
  qed (simp add: assms(2))
qed

lemma see_points_ok: "exec_fold see_point as r = Ret r' \<Longrightarrow> vis_ok (fst r) \<Longrightarrow> vis_ok (fst r')"
  by (rule exec_fold_inv [where P = "\<lambda>r. vis_ok (fst r)"]) (auto intro: see_point_ok)

lemma see_voxel_ok: "see_voxel loc r = Ret r' \<Longrightarrow> vis_ok (fst r) \<Longrightarrow> vis_ok (fst r')"
  by (auto simp: see_voxel_def exec_iffs split: option.splits dest: see_points_ok)

lemma vis_ok_views: "vis_ok (v\<lparr>sub_feat_map := x\<rparr>) = vis_ok v" "vis_ok (v\<lparr>warp_map := y\<rparr>) = vis_ok v"
    "vis_ok (v\<lparr>patch_buffer := z\<rparr>) = vis_ok v" "vis_ok (v\<lparr>total_points := t\<rparr>) = vis_ok v"
    "vis_ok (v\<lparr>visual_submap := (visual_submap v)\<lparr>add_from_voxel_map := l\<rparr>\<rparr>) = vis_ok v"
  by (simp_all add: vis_ok_def submap_ok_def)

lemma cast_ray_ok: "cast_ray cfg plane_map ss v = Ret v' \<Longrightarrow> vis_ok v \<Longrightarrow> vis_ok v'"
proof (induction ss)
  case (Cons s ss)
  let ?loc = "retrieve_location (f2w (new_frame v) s)"
  show ?case
  proof (cases "?loc \<in> set (sub_feat_map v)")
    case True
    then show ?thesis using Cons.prems by (simp add: Let_def)
  next
    case new: False
    show ?thesis
    proof (cases "map_of (feat_map v) ?loc")
      case (Some x)
      show ?thesis
      proof (cases "voxel_points x = []")
        case False
        then obtain q where q: "exec_fold see_point (voxel_points x) (v, False) = Ret q"
            "v' = (if snd q then (fst q)\<lparr>sub_feat_map := sub_feat_map (fst q) @ [?loc]\<rparr> else fst q)"
          using Cons.prems(1) new Some by (auto simp: Let_def bind_exec_Ret_iff simp del: exec_fold.simps)
        then show ?thesis using see_points_ok [OF q(1)] Cons.prems(2) by (simp add: vis_ok_views)
      qed (use Cons new Some in \<open>simp add: Let_def\<close>)
    next
      case None
      show ?thesis
      proof (cases "map_of plane_map ?loc")
        case (Some t)
        then show ?thesis using Cons new None by (auto simp: Let_def vis_ok_views split: if_splits)
      qed (use Cons new None in \<open>simp add: Let_def\<close>)
    qed
  qed
qed simp

lemma cast_cell_ok: "cast_cell cfg plane_map i v = Ret v' \<Longrightarrow> vis_ok v \<Longrightarrow> vis_ok v'"
  by (auto simp: cast_cell_def exec_iffs split: if_splits dest: cast_ray_ok)

lemma offer_references:
  assumes "exec_fold (offer_reference n h os) as r = Ret r'"
  shows "fst r' = fst r \<or> (\<exists>a \<in> set as. fst r' = Some a)"
  using assms
proof (induction as arbitrary: r)
  case (Cons a as)
  then obtain r1 where r1: "offer_reference n h os a r = Ret r1" "exec_fold (offer_reference n h os) as r1 = Ret r'"
    by (auto simp: bind_exec_Ret_iff)
  have "r1 = r \<or> fst r1 = Some a"
    using r1(1) by (auto simp: offer_reference_def bind_exec_Ret_iff split: if_splits)
  then show ?case using Cons.IH [OF r1(2)] by auto
qed simp

lemma choose_reference_ok:
  assumes "choose_reference n h pt = Ret q" "point_ok h a pt"
  shows "obs (snd q) = obs pt \<and> vp_pos (snd q) = vp_pos pt \<and> (has_ref_patch (snd q) \<longrightarrow> (\<exists>b \<in> set (obs pt). ref_patch (snd q) = Some b)) \<and> fst q \<in> set (obs pt)"
proof (cases "length (obs pt) = 1")
  case True
  then obtain b where "obs pt = [b]" by (auto simp: length_Suc_conv)
  then show ?thesis using assms(1) by (auto simp: choose_reference_def)
next
  case False
  then have e: "choose_reference n h pt = (if \<not> has_ref_patch pt
        then bind_exec (exec_fold (offer_reference n h (obs pt)) (obs pt) (None, FLT_MAX)) (\<lambda>r.
               case fst r of None \<Rightarrow> Undef | Some a \<Rightarrow> Ret (a, pt\<lparr>ref_patch := Some a, has_ref_patch := True\<rparr>))
        else case ref_patch pt of None \<Rightarrow> Undef | Some a \<Rightarrow> Ret (a, pt))"
    by (auto simp: choose_reference_def split: list.splits)
  show ?thesis
  proof (cases "has_ref_patch pt")
    case True
    then show ?thesis using assms e by (auto simp: point_ok_def)
  next
    case False
    then obtain r b where r: "exec_fold (offer_reference n h (obs pt)) (obs pt) (None, FLT_MAX) = Ret r" "fst r = Some b"
        "q = (b, pt\<lparr>ref_patch := Some b, has_ref_patch := True\<rparr>)"
      using assms(1) e by (auto simp: bind_exec_Ret_iff split: option.splits)
    then have "b \<in> set (obs pt)" using offer_references [OF r(1)] by auto
    then show ?thesis using r(3) by simp
  qed
qed

lemma warp_of_ok: "vis_ok (fst (warp_of v pt f)) = vis_ok v" "vm_points (fst (warp_of v pt f)) = vm_points v"
  by (auto simp: warp_of_def Let_def vis_ok_views split: option.splits)

lemma push_submap_ok: "vis_ok v \<Longrightarrow> a \<in> dom (vm_points v) \<Longrightarrow> vis_ok (v\<lparr>visual_submap := push_submap a e l w x (visual_submap v)\<rparr>)"
  by (simp add: vis_ok_def submap_ok_def push_submap_def)

lemma compare_patches_ok:
  assumes "vis_ok v" "a \<in> dom (vm_points v)"
  shows "outcome False vis_ok (compare_patches inv_expo img a pt f v)"
proof -
  obtain w l A where w: "warp_of v pt f = (w, l, A)" by (cases "warp_of v pt f") auto
  have "vis_ok w" "a \<in> dom (vm_points w)" using warp_of_ok [of v pt f] w assms by auto
  then have ok: "vis_ok (w\<lparr>patch_buffer := buf\<rparr>)"
      "vis_ok (w\<lparr>patch_buffer := buf, visual_submap := push_submap a e l p x (visual_submap w)\<rparr>)" for buf e p x
    using push_submap_ok [of "w\<lparr>patch_buffer := buf\<rparr>" a] by (simp_all add: vis_ok_views)
  show ?thesis
    unfolding compare_patches_def Let_def w prod.case
    by (intro outcome_step) (simp add: ok)
qed

lemma chosen_reference_ok:
  assumes "vis_ok v" "vm_points v a = Some pt" "choose_reference (patch_size_total v) (vm_features v) pt = Ret q"
  shows "vis_ok (v\<lparr>vm_points := (vm_points v)(a \<mapsto> snd q)\<rparr>)"
proof -
  have h: "heap_ok (patch_size_total v) (vm_points v) (vm_features v) (vm_next v)" using assms(1) by (simp add: vis_ok_def)
  note c = choose_reference_ok [OF assms(3) heap_okD(1) [OF h assms(2)]]
  have "heap_ok (patch_size_total v) ((vm_points v)(a \<mapsto> snd q)) (vm_features v) (vm_next v)"
    using c by (intro heap_ok_point [OF h assms(2)]) auto
  then have "vis_ok (v\<lparr>vm_points := (vm_points v)(a \<mapsto> snd q), vm_features := vm_features v, vm_next := vm_next v\<rparr>)"
    using c by (intro vis_ok_point [OF assms(1,2)]) auto
  then show ?thesis by simp
qed

lemma retrieve_cell_ok:
  assumes "vis_ok v"
  shows "outcome False vis_ok (retrieve_cell inv_expo img depth_img i v)"
proof -
  have c: "outcome False vis_ok (compare_patches inv_expo img a pt f w)" if "vis_ok w" "a \<in> dom (vm_points w)" for a pt f w
    using that by (rule compare_patches_ok)
  have "outcome False vis_ok
       (if jump \<or> \<not> is_normal_initialized pt then Ret v
        else if normal_en v
        then bind_exec (choose_reference (patch_size_total v) (vm_features v) pt) (\<lambda>q.
               bind_exec (follow (vm_features v) (fst q)) (\<lambda>f.
                 compare_patches inv_expo img a (snd q) f (v\<lparr>vm_points := (vm_points v)(a \<mapsto> snd q)\<rparr>)))
        else bind_exec (getCloseViewObs (frame_pos (new_frame v)) pt (vm_features v)) (\<lambda>q.
               case q of (True, Some b) \<Rightarrow> bind_exec (follow (vm_features v) b) (\<lambda>f. compare_patches inv_expo img a pt f v)
                       | _ \<Rightarrow> Ret v))"
    if "vm_points v a = Some pt" for a pt jump
    using assms c [OF chosen_reference_ok [OF assms that]] c [OF assms domI [of "vm_points v" a, OF that]] domI [of "vm_points v" a, OF that]
    by (auto intro!: outcome_step split: prod.splits bool.splits option.splits)
  then show ?thesis
    using assms unfolding retrieve_cell_def Let_def
    by (intro outcome_step) (auto intro!: outcome_step simp: follow_iff split: option.splits)
qed

lemma retrieve_ok:
  assumes "vis_ok v"
  shows "outcome False vis_ok (retrieveFromVisualSparseMap order cfg plane_map inv_expo img pg v)"
proof -
  let ?v = "v\<lparr>visual_submap := empty_submap, sub_feat_map := [], warp_map := (if normal_en v then warp_map v else [])\<rparr>"
  have v: "vis_ok ?v" using assms by (simp add: vis_ok_def submap_ok_def empty_submap_def)
  have 1: "outcome False (\<lambda>r. vis_ok (fst r)) (exec_fold project_point pg (?v, \<lambda>_. 0))"
    using v project_point_ok by (intro exec_fold_outcome) (auto simp: outcome_False)
  have 2: "outcome False (\<lambda>r. vis_ok (fst r)) (exec_fold see_voxel (order (sub_feat_map w)) (w, []))" if "vis_ok w" for w
    using that see_voxel_ok by (intro exec_fold_outcome) (auto simp: outcome_False)
  have 3: "outcome False vis_ok (if raycast_en w then exec_fold (cast_cell cfg plane_map) cells w else Ret w)" if "vis_ok w" for w cells
  proof -
    have "outcome False vis_ok (exec_fold (cast_cell cfg plane_map) cells w)"
      using that cast_cell_ok by (intro exec_fold_outcome) (auto simp: outcome_False)
    then show ?thesis using that by simp
  qed
  have 4: "outcome False vis_ok (exec_fold (retrieve_cell inv_expo img d) cells w)" if "vis_ok w" for w d cells
    using that retrieve_cell_ok by (intro exec_fold_outcome) auto
  show ?thesis
    unfolding retrieveFromVisualSparseMap_def Let_def split_beta
    by (cases "feat_map v = []", simp add: assms, simp only: if_False)
      (rule outcome_bind [OF 1], rule outcome_bind [OF 2], assumption, rule outcome_bind [OF 3], assumption,
        rule outcome_bind [OF 4], simp_all add: vis_ok_views)
qed

end
