(* ===== verification/Vio_Growth.thy ===== *)
theory Vio_Growth
  imports Vio_Sound
begin

text \<open>
  The sparse visual map grows and ages: new points, new observations and new reference patches keep the invariant of
  \<^verbatim>\<open>Vio_Sound\<close>, and the choice of reference patches never follows a freed feature.
\<close>

section \<open>New points\<close>

lemma store_level_length: "store_level n l xs p = Ret q \<Longrightarrow> length q = length p"
  by (auto simp: store_level_def split: if_splits)

lemma vio_patch_length: "vio_patch v img pc p = Ret q \<Longrightarrow> length q = length p"
  by (auto simp: vio_patch_def getImagePatch_def bind_exec_Ret_iff store_level_length)

lemma offer_point_ok:
  assumes "vis_ok v"
  shows "outcome False vis_ok (offer_point img pv v)"
proof -
  have ok: "vis_ok (v\<lparr>scan_value := x, append_voxel_points := ps, grid_num := g\<rparr>)" for x ps g
    using assms by (simp add: vis_ok_def)
  show ?thesis
    unfolding offer_point_def Let_def using assms by (auto intro!: outcome_step ok)
qed

lemma files_ok_insert:
  assumes "files_ok fm pts" "pts a = Some pt" "loc = insert_location (vp_pos pt)"
    and "set (voxel_points x) = insert a (case map_of fm loc of Some y \<Rightarrow> set (voxel_points y) | None \<Rightarrow> {})"
  shows "files_ok (AList.update loc x fm) pts"
proof -
  have d: "distinct (map fst fm)" using assms(1) by (simp add: files_ok_def)
  then have d': "distinct (map fst (AList.update loc x fm))" by (rule distinct_update)
  have "\<exists>pt. pts c = Some pt \<and> insert_location (vp_pos pt) = k" if "(k, y) \<in> set (AList.update loc x fm)" "c \<in> set (voxel_points y)" for k y c
  proof -
    have "map_of (AList.update loc x fm) k = Some y" using that(1) d' by (simp only: map_of_eq_Some_iff)
    then have "(k = loc \<and> y = x) \<or> map_of fm k = Some y" by (auto simp: update_conv' split: if_splits)
    then have "k = loc \<and> c = a \<or> (\<exists>z. map_of fm k = Some z \<and> c \<in> set (voxel_points z))"
      using that(2) assms(4) by (auto split: option.splits)
    then show ?thesis
    proof
      assume "\<exists>z. map_of fm k = Some z \<and> c \<in> set (voxel_points z)"
      then obtain z where "(k, z) \<in> set fm" "c \<in> set (voxel_points z)" by (auto dest: map_of_SomeD)
      then show ?thesis using assms(1) by (fastforce simp: files_ok_def)
    qed (use assms(2,3) in simp)
  qed
  with d' show ?thesis by (auto simp: files_ok_def)
qed

lemma insertPoint_ok:
  assumes "vis_ok v" "vm_points v a = Some pt"
  shows "outcome False vis_ok (insertPointIntoVoxelMap a v)"
proof -
  have fm: "files_ok (feat_map v) (vm_points v)" using assms(1) by (simp add: vis_ok_def)
  have "vis_ok (v\<lparr>feat_map := AList.update (insert_location (vp_pos pt)) x (feat_map v)\<rparr>)"
    if "set (voxel_points x) = insert a (case map_of (feat_map v) (insert_location (vp_pos pt)) of Some y \<Rightarrow> set (voxel_points y) | None \<Rightarrow> {})" for x
    using assms(1) files_ok_insert [OF fm assms(2) refl that] by (simp add: vis_ok_def)
  then show ?thesis
    using assms(2) by (auto simp: insertPointIntoVoxelMap_def Let_def split: option.splits)
qed

lemma append_point_ok:
  assumes "vis_ok v"
  shows "outcome False vis_ok (append_point junk expo img pv v)"
proof -
  let ?v = "\<lambda>pt ftr. v\<lparr>vm_points := (vm_points v)(vm_next v \<mapsto> pt), vm_features := (vm_features v)(vm_next v + 1 \<mapsto> ftr), vm_next := vm_next v + 1 + 1\<rparr>"
  have h: "heap_ok (patch_size_total v) (vm_points v) (vm_features v) (vm_next v)" using assms by (simp add: vis_ok_def)
  have fresh: "vm_points v (vm_next v) = None" using heap_okD(4) [OF h, of "vm_next v"] by (cases "vm_points v (vm_next v)") auto
  have ok: "vis_ok (?v pt ftr)"
    if "obs pt = [vm_next v + 1]" "\<not> has_ref_patch pt" "ft_point ftr = vm_next v" "length (ft_patch ftr) = patch_size_total v" for pt ftr
  proof -
    have "heap_ok (patch_size_total v) ((vm_points v)(vm_next v \<mapsto> pt)) ((vm_features v)(vm_next v + 1 \<mapsto> ftr)) (vm_next v + 1 + 1)"
      using heap_ok_new [OF h that] by (simp add: add.assoc)
    then show ?thesis using assms fresh by (auto simp: vis_ok_def files_ok_new submap_ok_point)
  qed
  have ins: "outcome False vis_ok (insertPointIntoVoxelMap (vm_next v) (?v pt ftr))"
    if "obs pt = [vm_next v + 1]" "\<not> has_ref_patch pt" "ft_point ftr = vm_next v" "length (ft_patch ftr) = patch_size_total v" for pt ftr
    by (rule insertPoint_ok [OF ok [OF that], where pt = pt]) simp
  show ?thesis
    unfolding append_point_def Let_def
    by (intro outcome_step ins) (simp_all add: addFrameRef_def new_VisualPoint_def new_Feature_def vio_patch_length)
qed

lemma append_cell_ok: "vis_ok v \<Longrightarrow> outcome False vis_ok (append_cell junk expo img i v)"
  by (auto simp: append_cell_def intro!: outcome_step append_point_ok)

lemma generate_ok:
  assumes "vis_ok v"
  shows "outcome False vis_ok (generateVisualMapPoints junk expo img pg v)"
proof -
  have 1: "outcome False vis_ok (exec_fold (offer_point img) ps v)" for ps
    using assms offer_point_ok by (intro exec_fold_outcome) auto
  have 2: "outcome False vis_ok (exec_fold (append_cell junk expo img) cells w)" if "vis_ok w" for w cells
    using that append_cell_ok by (intro exec_fold_outcome) auto
  show ?thesis unfolding generateVisualMapPoints_def using assms by (auto intro!: outcome_bind [OF 1] 2)
qed

section \<open>New observations\<close>

lemma outcome_if: "(c \<Longrightarrow> outcome d P x) \<Longrightarrow> (\<not> c \<Longrightarrow> outcome d P y) \<Longrightarrow> outcome d P (if c then x else y)"
  by simp

lemma findMin_in: "findMinScoreFeature pt h = Ret a \<Longrightarrow> point_ok h p pt \<Longrightarrow> a \<in> set (obs pt)"
proof -
  assume m: "findMinScoreFeature pt h = Ret a" and p: "point_ok h p pt"
  obtain b bs where obs: "obs pt = b # bs" using m by (cases "obs pt") (auto simp: findMinScoreFeature_def)
  obtain r where r: "exec_fold (score_step h) (obs pt) (b, FLT_MAX) = Ret r" "a = fst r"
    using m by (auto simp: findMinScoreFeature_def obs bind_exec_Ret_iff)
  have "\<forall>a \<in> set (obs pt). \<exists>f. h a = Some f" using p by (auto simp: point_ok_def)
  from score_fold [OF this, of "(b, FLT_MAX)"] r obs show "a \<in> set (obs pt)" by auto
qed

lemma make_room_ok:
  assumes "heap_ok n pts fts nxt" "pts a = Some pt"
  shows "outcome True (\<lambda>r. heap_ok n (pts(a \<mapsto> fst r)) (snd r) nxt \<and> length (obs (fst r)) < 30 \<and> vp_pos (fst r) = vp_pos pt) (make_room pt fts)"
proof (cases "length (obs pt) \<ge> 30")
  case False
  then show ?thesis using assms by (simp add: make_room_def fun_upd_idem)
next
  case True
  have p: "point_ok fts a pt" by (rule heap_okD(1) [OF assms])
  have ne: "obs pt \<noteq> []" using True by auto
  obtain b where b: "findMinScoreFeature pt fts = Ret b"
  proof -
    obtain c cs where obs: "obs pt = c # cs" using ne by (cases "obs pt") auto
    have "\<forall>a \<in> set (obs pt). \<exists>f. fts a = Some f" using p by (auto simp: point_ok_def)
    from score_fold [OF this, of "(c, FLT_MAX)"] obs that show thesis by (auto simp: findMinScoreFeature_def)
  qed
  have in_obs: "b \<in> set (obs pt)" by (rule findMin_in [OF b p])
  obtain pt' h' where d: "deleteFeatureRef b pt fts = Ret (pt', h')" "point_ok h' a pt'" "obs pt' = remove1 b (obs pt)"
      "h' = fts(b := None)" "vp_pos pt' = vp_pos pt"
    using deleteFeatureRef_ok [OF p, of b] in_obs by auto
  have dist: "distinct (obs pt)" using p by (simp add: point_ok_def)
  have len: "length (obs pt') < 30"
    using in_obs d(3) heap_okD(2) [OF assms] ne by (simp add: length_remove1)
  have "heap_ok n (pts(a \<mapsto> pt')) h' nxt"
    using d(3,4) len dist in_obs by (intro heap_ok_delete [OF assms d(2)]) (auto simp: set_remove1_eq)
  with True b d(1,5) len show ?thesis by (simp add: make_room_def)
qed

lemma update_point_ok:
  assumes "vis_ok v"
  shows "outcome False vis_ok (update_point expo img i v)"
proof -
  let ?n = "patch_size_total v"
  have h: "heap_ok ?n (vm_points v) (vm_features v) (vm_next v)" using assms by (simp add: vis_ok_def)
  have clear: "vis_ok (v\<lparr>vm_points := (vm_points v)(a \<mapsto> fst r), vm_features := snd r\<rparr>)"
    if a: "vm_points v a = Some pt" and r: "deleteNonRefPatchFeatures pt (vm_features v) = Ret r" for a pt r
  proof -
    obtain pt' h' where d: "r = (pt', h')" "point_ok h' a pt'" "obs pt' = filter (\<lambda>b. Some b = ref_patch pt) (obs pt)"
        "\<And>b. h' b = (if b \<in> set (obs pt) \<and> Some b \<noteq> ref_patch pt then None else vm_features v b)" "pt' = pt\<lparr>obs := obs pt'\<rparr>"
      using deleteNonRefPatchFeatures_ok [OF heap_okD(1) [OF h a]] r by auto
    have "length (obs pt') \<le> 30"
      unfolding d(3) by (rule le_trans [OF length_filter_le heap_okD(2) [OF h a]])
    then have "heap_ok ?n ((vm_points v)(a \<mapsto> pt')) h' (vm_next v)"
      using d(3,4) by (intro heap_ok_delete [OF h a d(2)]) auto
    moreover have "vp_pos pt' = vp_pos pt" by (subst d(5)) simp
    ultimately have "vis_ok (v\<lparr>vm_points := (vm_points v)(a \<mapsto> pt'), vm_features := h', vm_next := vm_next v\<rparr>)"
      using vis_ok_point [OF assms a] by blast
    then show ?thesis using d(1) by simp
  qed
  have room: "heap_ok ?n ((vm_points v)(a \<mapsto> fst r)) (snd r) (vm_next v) \<and> length (obs (fst r)) < 30 \<and> vp_pos (fst r) = vp_pos pt"
    if "vm_points v a = Some pt" "make_room pt (vm_features v) = Ret r" for a pt r
    using outcome_Ret [OF make_room_ok [OF h that(1)] that(2)] .
  have keep: "vis_ok (v\<lparr>vm_points := (vm_points v)(a \<mapsto> fst r), vm_features := snd r, vm_leaked := l\<rparr>)"
    if "vm_points v a = Some pt" "make_room pt (vm_features v) = Ret r" for a pt r l
  proof -
    have "vis_ok (v\<lparr>vm_points := (vm_points v)(a \<mapsto> fst r), vm_features := snd r, vm_next := vm_next v\<rparr>)"
      using vis_ok_point [OF assms that(1)] room [OF that] by blast
    then show ?thesis by (simp add: vis_ok_def)
  qed
  have add: "vis_ok (v\<lparr>update_flag := fl, vm_features := (snd r)(vm_next v \<mapsto> f), vm_points := (vm_points v)(a \<mapsto> addFrameRef (vm_next v) (fst r)),
      vm_next := Suc (vm_next v)\<rparr>)"
    if a: "vm_points v a = Some pt" "make_room pt (vm_features v) = Ret r" and f: "ft_point f = a" "length (ft_patch f) = ?n" for a pt r f fl
  proof -
    have "heap_ok ?n ((vm_points v)(a \<mapsto> addFrameRef (vm_next v) (fst r))) ((snd r)(vm_next v \<mapsto> f)) (vm_next v + 1)"
      using heap_ok_add [of ?n "(vm_points v)(a \<mapsto> fst r)" "snd r" "vm_next v" a "fst r" f] room [OF a] f by simp
    moreover have "vp_pos (addFrameRef (vm_next v) (fst r)) = vp_pos pt" using room [OF a] by (simp add: addFrameRef_def)
    ultimately have "vis_ok (v\<lparr>vm_points := (vm_points v)(a \<mapsto> addFrameRef (vm_next v) (fst r)), vm_features := (snd r)(vm_next v \<mapsto> f), vm_next := vm_next v + 1\<rparr>)"
      using vis_ok_point [OF assms a(1)] by blast
    then show ?thesis by (simp add: vis_ok_def)
  qed
  show ?thesis
    unfolding update_point_def Let_def
    by (intro outcome_step outcome_if)
      (simp_all add: clear keep add follow_iff new_Feature_def vio_patch_length)
qed

lemma update_ok: "vis_ok v \<Longrightarrow> outcome False vis_ok (updateVisualMapPoints expo img v)"
  unfolding updateVisualMapPoints_def by (intro exec_fold_outcome update_point_ok)

section \<open>Reference patches\<close>

text \<open>Changes of the score or the cached mean of live features leave the heap as it is otherwise.\<close>

definition core :: "Feature \<Rightarrow> addr \<times> real list" where
  "core f = (ft_point f, ft_patch f)"

definition same_features :: "ft_heap \<Rightarrow> ft_heap \<Rightarrow> bool" where
  "same_features h h' = (\<forall>b. map_option core (h b) = map_option core (h' b))"

lemma same_features_refl: "same_features h h"
  by (simp add: same_features_def)

lemma same_features_upd: "same_features h h' \<Longrightarrow> h' b = Some f \<Longrightarrow> core g = core f \<Longrightarrow> same_features h (h'(b \<mapsto> g))"
  by (simp add: same_features_def)

lemma same_features_at:
  assumes "same_features h h'" "h b = Some f"
  shows "\<exists>g. h' b = Some g \<and> core g = core f"
proof -
  have "map_option core (h' b) = Some (core f)" using assms by (simp add: same_features_def [THEN iffD1, rule_format, symmetric])
  then show ?thesis by auto
qed

lemma same_features_sym: "same_features h h' \<Longrightarrow> same_features h' h"
  by (simp add: same_features_def)

lemma heap_ok_same:
  assumes "heap_ok n pts h nxt" "same_features h h'"
  shows "heap_ok n pts h' nxt"
proof (rule heap_okI)
  show "a < nxt \<and> point_ok h' a pt \<and> length (obs pt) \<le> 30" if "pts a = Some pt" for a pt
  proof -
    have "\<exists>f. h' b = Some f \<and> ft_point f = a" if b: "b \<in> set (obs pt)" for b
      using heap_ok_follow [OF assms(1) \<open>pts a = Some pt\<close> b] same_features_at [OF assms(2)] by (metis core_def prod.inject)
    then show ?thesis using heap_okD(1,2,4) [OF assms(1) that] by (simp add: point_ok_def)
  qed
  show "b < nxt \<and> length (ft_patch g) = n \<and> (\<exists>pt. pts (ft_point g) = Some pt \<and> b \<in> set (obs pt))" if "h' b = Some g" for b g
    using same_features_at [OF same_features_sym [OF assms(2)] that] heap_okD(3,5,6) [OF assms(1)] by (metis core_def prod.inject)
qed

lemma mean_of_ok:
  assumes "same_features h h'" "h a = Some f" "n \<le> length (ft_patch f)"
  shows "outcome True (\<lambda>r. same_features h (snd r)) (mean_of n junk a h')"
proof -
  obtain g where g: "h' a = Some g" "core g = core f" using same_features_at [OF assms(1,2)] by auto
  have "same_features h (h'(a \<mapsto> g\<lparr>ft_mean := m\<rparr>))" for m by (rule same_features_upd [OF assms(1) g(1)]) (simp add: core_def)
  then show ?thesis using assms g by (simp add: mean_of_def Let_def core_def)
qed

lemma correlate_ok:
  assumes "same_features h (fst r)" "h a = Some f" "h b = Some g" "n \<le> length (ft_patch f)" "n \<le> length (ft_patch g)"
  shows "outcome True (\<lambda>r. same_features h (fst r)) (correlate n junk a m b r)"
proof -
  obtain f' g' where fg: "fst r a = Some f'" "ft_patch f' = ft_patch f" "fst r b = Some g'" "ft_patch g' = ft_patch g"
    using same_features_at [OF assms(1,2)] same_features_at [OF assms(1,3)] by (auto simp: core_def)
  have "outcome True (\<lambda>r. same_features h (snd r)) (mean_of n (junk a b) b (fst r))" by (rule mean_of_ok [OF assms(1,3,5)])
  then show ?thesis
    using fg assms(1,4,5) by (auto simp: correlate_def Let_def intro!: outcome_bind)
qed

lemma score_feature_ok:
  assumes "same_features h (fst r)" "a \<in> set (obs pt)" "\<And>b. b \<in> set (obs pt) \<Longrightarrow> \<exists>f. h b = Some f \<and> n \<le> length (ft_patch f)"
    and "fst (snd r) = None \<or> (\<exists>b \<in> set (obs pt). fst (snd r) = Some b)"
  shows "outcome True (\<lambda>r. same_features h (fst r) \<and> (fst (snd r) = None \<or> (\<exists>b \<in> set (obs pt). fst (snd r) = Some b))) (score_feature n junk pt a r)"
proof -
  obtain f where f: "h a = Some f" "n \<le> length (ft_patch f)" using assms(3) [OF assms(2)] by auto
  have 1: "outcome True (\<lambda>r. same_features h (snd r)) (mean_of n (junk a a) a (fst r))" by (rule mean_of_ok [OF assms(1) f])
  have 2: "outcome True (\<lambda>r. same_features h (fst r)) (exec_fold (correlate n junk a m) (obs pt) (h', s))" if "same_features h h'" for m h' s
  proof (rule exec_fold_outcome)
    show "outcome True (\<lambda>r. same_features h (fst r)) (correlate n junk a m b q)" if "b \<in> set (obs pt)" "same_features h (fst q)" for b q
    proof -
      obtain g where "h b = Some g" "n \<le> length (ft_patch g)" using assms(3) [OF \<open>b \<in> set (obs pt)\<close>] by auto
      then show ?thesis using correlate_ok [OF that(2) f(1) _ f(2)] by blast
    qed
  qed (use that in simp)
  have 3: "outcome True (\<lambda>r. same_features h (fst r) \<and> (fst (snd r) = None \<or> (\<exists>b \<in> set (obs pt). fst (snd r) = Some b)))
     (bind_exec (follow h' a) (\<lambda>f. Ret (if score f > snd (snd r) then (h'(a \<mapsto> f\<lparr>ft_score := score f\<rparr>), Some a, score f) else (h'(a \<mapsto> f\<lparr>ft_score := score f\<rparr>), snd r))))"
    if same: "same_features h h'" for h' score
  proof -
    obtain g where g: "h' a = Some g" using same_features_at [OF same f(1)] by auto
    have "same_features h (h'(a \<mapsto> g\<lparr>ft_score := x\<rparr>))" for x by (rule same_features_upd [OF same g]) (simp add: core_def)
    then show ?thesis using g assms(2,4) by auto
  qed
  show ?thesis
    unfolding score_feature_def Let_def
    by (rule outcome_bind [OF 1], clarsimp split: prod.split, rule outcome_bind [OF 2], assumption, clarsimp split: prod.split, rule 3, assumption)
qed

lemma outcome_total: "outcome True P m \<Longrightarrow> outcome d P m"
  by (cases m) auto

lemma outcome_get_at: "(d \<Longrightarrow> i < length xs) \<Longrightarrow> outcome d (\<lambda>x. i < length xs \<and> x = xs ! i) (get_at i xs)"
  by (auto simp: get_at_def)

lemma refine_normal_keeps:
  "obs (refine_normal s c m pt) = obs pt" "vp_pos (refine_normal s c m pt) = vp_pos pt"
  "has_ref_patch (refine_normal s c m pt) = has_ref_patch pt" "ref_patch (refine_normal s c m pt) = ref_patch pt"
  by (simp_all add: refine_normal_def Let_def split: option.split)

definition same_frame :: "VIOManager \<Rightarrow> VIOManager \<Rightarrow> bool" where
  "same_frame v w = (visual_submap w = visual_submap v \<and> update_flag w = update_flag v)"

lemma reference_point_ok:
  assumes "vis_ok v" "d \<Longrightarrow> i < length (sub_points (visual_submap v)) \<and> i < length (update_flag v)"
  shows "outcome d (\<lambda>w. vis_ok w \<and> same_frame v w) (reference_point sigma_inf cfg plane_map junk i v)"
proof -
  let ?n = "patch_size_total v"
  have h: "heap_ok ?n (vm_points v) (vm_features v) (vm_next v)" and sub: "submap_ok (visual_submap v) (vm_points v)"
    using assms(1) by (simp_all add: vis_ok_def)
  have at: "outcome d (\<lambda>x. i < length (sub_points (visual_submap v)) \<and> x = sub_points (visual_submap v) ! i) (get_at i (sub_points (visual_submap v)))"
    "outcome d (\<lambda>x. i < length (update_flag v) \<and> x = update_flag v ! i) (get_at i (update_flag v))"
    using assms(2) by (auto intro!: outcome_get_at)
  have live: "outcome d (\<lambda>pt. vm_points v a = Some pt) (follow (vm_points v) a)" if "a \<in> set (sub_points (visual_submap v))" for a
    using that sub by (auto simp: submap_ok_def follow_def split: option.splits)
  have score: "outcome d (\<lambda>r. same_features (vm_features v) (fst r) \<and> (fst (snd r) = None \<or> (\<exists>b \<in> set (obs pt1). fst (snd r) = Some b)))
      (exec_fold (score_feature ?n junk pt1) (obs pt1) (vm_features v, None, - 1000))"
    if a: "vm_points v a = Some pt" "obs pt1 = obs pt" for a pt pt1
  proof (rule outcome_total, rule exec_fold_outcome)
    fix b and r :: "ft_heap \<times> addr option \<times> real"
    assume "b \<in> set (obs pt1)" and r: "same_features (vm_features v) (fst r) \<and> (fst (snd r) = None \<or> (\<exists>b \<in> set (obs pt1). fst (snd r) = Some b))"
    moreover have "\<exists>f. vm_features v c = Some f \<and> ?n \<le> length (ft_patch f)" if "c \<in> set (obs pt1)" for c
      using heap_ok_follow [OF h a(1), of c] that a(2) by auto
    ultimately show "outcome True (\<lambda>r. same_features (vm_features v) (fst r) \<and> (fst (snd r) = None \<or> (\<exists>b \<in> set (obs pt1). fst (snd r) = Some b)))
        (score_feature ?n junk pt1 b r)"
      by (intro score_feature_ok) blast+
  qed (simp add: same_features_refl)
  have fin: "vis_ok (v\<lparr>vm_features := h', vm_points := (vm_points v)(a \<mapsto> pt2)\<rparr>)"
    if a: "vm_points v a = Some pt" and same: "same_features (vm_features v) h'"
      and pt2: "obs pt2 = obs pt" "vp_pos pt2 = vp_pos pt" "has_ref_patch pt2 \<Longrightarrow> \<exists>b \<in> set (obs pt). ref_patch pt2 = Some b" for a pt h' pt2
  proof -
    have "heap_ok ?n ((vm_points v)(a \<mapsto> pt2)) h' (vm_next v)"
      by (rule heap_ok_point [OF heap_ok_same [OF h same] a pt2(1,3)])
    from vis_ok_point [OF assms(1) a pt2(2) this] show ?thesis by (simp add: vis_ok_def)
  qed
  have ref: "\<exists>b \<in> set (obs pt). ref_patch pt = Some b" if "vm_points v a = Some pt" "has_ref_patch pt" for a pt
    using heap_okD(1) [OF h that(1)] that(2) by (simp add: point_ok_def)
  have end_step: "outcome d (\<lambda>w. vis_ok w \<and> same_frame v w) (case r of (h', best, _) \<Rightarrow>
      Ret (v\<lparr>vm_features := h', vm_points := (vm_points v)(a \<mapsto> (case best of None \<Rightarrow> pt1 | Some b \<Rightarrow> pt1\<lparr>ref_patch := Some b, has_ref_patch := True\<rparr>))\<rparr>))"
    if a: "vm_points v a = Some pt" and pt1: "pt1 = refine_normal sigma_inf cfg plane_map pt"
      and r: "same_features (vm_features v) (fst r) \<and> (fst (snd r) = None \<or> (\<exists>b \<in> set (obs pt1). fst (snd r) = Some b))" for a pt pt1 r
  proof -
    obtain h' best x where e: "r = (h', best, x)" by (cases r)
    show ?thesis
    proof (cases best)
      case None
      then show ?thesis using fin [OF a, of h' pt1] ref [OF a] r pt1 e by (simp add: same_frame_def refine_normal_keeps)
    next
      case (Some b)
      then show ?thesis using fin [OF a, of h' "pt1\<lparr>ref_patch := Some b, has_ref_patch := True\<rparr>"] r pt1 e
        by (simp add: same_frame_def refine_normal_keeps)
    qed
  qed
  show ?thesis
    unfolding reference_point_def Let_def
    by (rule outcome_bind [OF at(1)], rule outcome_bind [OF live], simp, rule outcome_if, simp add: assms(1) same_frame_def,
        rule outcome_bind [OF at(2)], rule outcome_if, simp add: assms(1) same_frame_def, rule outcome_bind [OF score], assumption,
        simp add: refine_normal_keeps, rule end_step [OF _ refl], assumption+)
qed

lemma reference_ok:
  assumes "vis_ok v" "d \<Longrightarrow> length (sub_points (visual_submap v)) \<le> length (update_flag v)"
  shows "outcome d vis_ok (updateReferencePatch sigma_inf cfg plane_map junk v)"
proof -
  have "outcome d (\<lambda>w. vis_ok w \<and> same_frame v w)
      (exec_fold (reference_point sigma_inf cfg plane_map junk) [0..<length (sub_points (visual_submap v))] v)"
  proof (rule exec_fold_outcome)
    show "outcome d (\<lambda>w. vis_ok w \<and> same_frame v w) (reference_point sigma_inf cfg plane_map junk i w)"
      if "i \<in> set [0..<length (sub_points (visual_submap v))]" "vis_ok w \<and> same_frame v w" for i w
      using that assms(2) by (intro outcome_weaken [OF reference_point_ok]) (auto simp: same_frame_def)
  qed (use assms(1) in \<open>simp add: same_frame_def\<close>)
  then show ?thesis using assms(1) by (auto simp: updateReferencePatch_def elim: outcome_weaken)
qed

end
