(* ===== verification/Vio_Update.thy ===== *)
theory Vio_Update
  imports Vio_Growth Map_Step
begin

text \<open>
  The photometric update of the state and the frame step of \<^verbatim>\<open>fast_livo/src/vio.cpp\<close>: \<open>precomputeReferencePatches\<close>,
  \<open>updateStateInverse\<close>, \<open>updateState\<close>, \<open>computeJacobianAndUpdateEKF\<close> and \<open>processFrame\<close>. The rows of \<open>H_sub\<close> and \<open>z\<close> are
  a list of pairs in the order of the points and of the pixels of a patch; \<open>H_sub_inv\<close> is a list for every point. Eigen's
  \<open>inverse()\<close> and OpenCV's \<open>resize\<close> and \<open>cvtColor\<close> are parameters. Drawing and files are left out.
\<close>

section \<open>Rows\<close>

definition v2_m23 :: "vec2 \<Rightarrow> vec3 \<times> vec3 \<Rightarrow> vec3" where
  "v2_m23 a J = v3_add (v3_scale (fst a) (fst J)) (v3_scale (snd a) (snd J))"

definition row_mult :: "vec3 \<Rightarrow> mat3 \<Rightarrow> vec3" where
  "row_mult r M = m3_apply (m3_transpose M) r"

definition row7 :: "vec3 \<Rightarrow> vec3 \<Rightarrow> real \<Rightarrow> vec" where
  "row7 a b x = (\<lambda>i. if i < 3 then v3_at a i else if i < 6 then v3_at b (i - 3) else if i = 6 then x else 0)"

text \<open>One pixel of a point's patch: Jacobian and residual.\<close>

definition photo_pixel :: "VIOManager \<Rightarrow> Img \<Rightarrow> StatesGroup \<Rightarrow> nat \<Rightarrow> nat \<Rightarrow> vec3 \<Rightarrow> real list \<Rightarrow> real \<Rightarrow> nat \<times> nat \<Rightarrow> (vec \<times> real) exec" where
  "photo_pixel v img s level search_level pf P inv_ref_expo cell =
     (let pc = world2cam (vm_cam v) pf; scale = 2 ^ (level + search_level); ws = ref_weights pc scale;
          Jdpi = computeProjectionJacobian (cam_fx (vm_cam v)) (cam_fy (vm_cam v)) pf; p_hat = skew_sym pf;
          k = patch_offset (vm_width v) (patch_size_half v) pc scale (fst cell) (snd cell)
      in bind_exec (patch_gradient img (vm_width v) ws scale k) (\<lambda>duv.
         bind_exec (patch_pixel img (vm_width v) ws scale k) (\<lambda>cur_value.
         bind_exec (get_at (patch_size_total v * level + fst cell * patch_size v + snd cell) P) (\<lambda>p.
           let Jimg = v2_scale (1 / real_of_int scale) (v2_scale (inv_expo_time s) duv);
               Jdphi = row_mult (v2_m23 Jimg Jdpi) p_hat;
               Jdp = v2_m23 (v2_scale (- 1) Jimg) Jdpi;
               JdR = v3_add (row_mult Jdphi (Jdphi_dR v)) (row_mult Jdp (Jdp_dR v));
               Jdt = row_mult Jdp (Jdp_dt v)
           in Ret (row7 JdR Jdt (if exposure_estimate_en v then cur_value else 0), inv_expo_time s * cur_value - inv_ref_expo * p)))))"

definition photo_point :: "Img \<Rightarrow> nat \<Rightarrow> VIOManager \<Rightarrow> StatesGroup \<Rightarrow> nat \<Rightarrow> (vec \<times> real) list exec" where
  "photo_point img level v s i =
     (let sm = visual_submap v
      in bind_exec (get_at i (search_levels sm)) (\<lambda>search_level.
         bind_exec (get_at i (sub_points sm)) (\<lambda>a.
         bind_exec (follow (vm_points v) a) (\<lambda>pt.
         bind_exec (get_at i (warp_patch sm)) (\<lambda>P.
         bind_exec (get_at i (inv_expo_list sm)) (\<lambda>inv_ref_expo.
           exec_map (photo_pixel v img s level search_level (v3_add (m3_apply (Rcw v) (vp_pos pt)) (Pcw v)) P inv_ref_expo)
             (patch_cells (patch_size v))))))))"

text \<open>The inverse formulation: the gradients are those of the reference patches, computed once for a level.\<close>

definition ref_pixel :: "VIOManager \<Rightarrow> nat \<Rightarrow> VisualPoint \<Rightarrow> Feature \<Rightarrow> nat \<times> nat \<Rightarrow> vec exec" where
  "ref_pixel v level pt f cell =
     (let depth = v3_norm (v3_sub (vp_pos pt) (ft_pos f)); pf = v3_scale depth (ft_f f); pc = ft_px f; R_ref_w = fst (ft_T_f_w f);
          scale = 2 ^ level; Jdpi = computeProjectionJacobian (cam_fx (vm_cam v)) (cam_fy (vm_cam v)) pf
      in bind_exec (patch_gradient (ft_img f) (vm_width v) (ref_weights pc scale) scale
             (patch_offset (vm_width v) (patch_size_half v) pc scale (fst cell) (snd cell))) (\<lambda>duv.
           let Jimg = v2_scale (1 / real_of_int scale) duv
           in Ret (row7 (row_mult (row_mult (v2_m23 Jimg Jdpi) R_ref_w) (skew_sym (vp_pos pt)))
                        (row_mult (v2_m23 (v2_scale (- 1) Jimg) Jdpi) R_ref_w) 0)))"

definition ref_point :: "nat \<Rightarrow> VIOManager \<Rightarrow> nat \<Rightarrow> vec list exec" where
  "ref_point level v i =
     bind_exec (get_at i (sub_points (visual_submap v))) (\<lambda>a.
     bind_exec (follow (vm_points v) a) (\<lambda>pt.
       case ref_patch pt of None \<Rightarrow> Undef
     | Some b \<Rightarrow> bind_exec (follow (vm_features v) b) (\<lambda>f. exec_map (ref_pixel v level pt f) (patch_cells (patch_size v)))))"

definition precomputeReferencePatches :: "nat \<Rightarrow> VIOManager \<Rightarrow> VIOManager exec" where
  "precomputeReferencePatches level v =
     (if total_points v = 0 then Ret v
      else bind_exec (exec_map (ref_point level v) [0..<total_points v]) (\<lambda>H.
             Ret (v\<lparr>H_sub_inv := H, has_ref_patch_cache := True\<rparr>)))"

definition inverse_pixel :: "VIOManager \<Rightarrow> Img \<Rightarrow> StatesGroup \<Rightarrow> nat \<Rightarrow> vec2 \<Rightarrow> real list \<Rightarrow> vec list \<Rightarrow> nat \<times> nat \<Rightarrow> (vec \<times> real) exec" where
  "inverse_pixel v img s level pc P H cell =
     (let scale = 2 ^ level; n = fst cell * patch_size v + snd cell; Rwi = rot_end s; P_wi_hat = skew_sym (pos_end s)
      in bind_exec (patch_pixel img (vm_width v) (ref_weights pc scale) scale
             (patch_offset (vm_width v) (patch_size_half v) pc scale (fst cell) (snd cell))) (\<lambda>cur_value.
         bind_exec (get_at (patch_size_total v * level + n) P) (\<lambda>p.
         bind_exec (get_at n H) (\<lambda>h.
           let J_dR = seg3 0 h; J_dt = seg3 3 h;
               JdR = v3_add (row_mult J_dR Rwi) (row_mult (row_mult J_dt P_wi_hat) Rwi);
               Jdt = row_mult J_dt Rwi
           in Ret (row7 JdR Jdt 0, cur_value - p)))))"

definition inverse_point :: "Img \<Rightarrow> nat \<Rightarrow> VIOManager \<Rightarrow> StatesGroup \<Rightarrow> nat \<Rightarrow> (vec \<times> real) list exec" where
  "inverse_point img level v s i =
     (let sm = visual_submap v
      in bind_exec (get_at i (sub_points sm)) (\<lambda>a.
         bind_exec (follow (vm_points v) a) (\<lambda>pt.
         bind_exec (get_at i (warp_patch sm)) (\<lambda>P.
         bind_exec (get_at i (H_sub_inv v)) (\<lambda>H.
           exec_map (inverse_pixel v img s level (world2cam (vm_cam v) (v3_add (m3_apply (Rcw v) (vp_pos pt)) (Pcw v))) P H)
             (patch_cells (patch_size v)))))))"

section \<open>One step\<close>

definition H_T_H :: "nat \<Rightarrow> (vec \<times> real) list \<Rightarrow> mat" where
  "H_T_H m rs = (\<lambda>i j. if i < m \<and> j < m then \<Sum>r\<leftarrow>rs. fst r i * fst r j else 0)"

definition HTz :: "(vec \<times> real) list \<Rightarrow> vec" where
  "HTz rs = (\<lambda>i. \<Sum>r\<leftarrow>rs. fst r i * snd r)"

definition vio_K_1 :: "(mat \<Rightarrow> mat) \<Rightarrow> nat \<Rightarrow> real \<Rightarrow> (vec \<times> real) list \<Rightarrow> mat \<Rightarrow> mat" where
  "vio_K_1 minv m c rs P = minv (madd (H_T_H m rs) (minv (mscale (1 / c) P)))"

definition vio_G :: "(mat \<Rightarrow> mat) \<Rightarrow> nat \<Rightarrow> real \<Rightarrow> (vec \<times> real) list \<Rightarrow> mat \<Rightarrow> mat" where
  "vio_G minv m c rs P = (\<lambda>i j. if j < m then mmul m (vio_K_1 minv m c rs P) (H_T_H m rs) i j else 0)"

definition vio_solution :: "(mat \<Rightarrow> mat) \<Rightarrow> nat \<Rightarrow> real \<Rightarrow> (vec \<times> real) list \<Rightarrow> mat \<Rightarrow> vec \<Rightarrow> vec" where
  "vio_solution minv m c rs P v =
     (\<lambda>i. - mvmul m (vio_K_1 minv m c rs P) (HTz rs) i + v i - mvmul m (vio_G minv m c rs P) v i)"

definition patch_error :: "(vec \<times> real) list \<Rightarrow> real" where
  "patch_error rs = (\<Sum>r\<leftarrow>rs. snd r * snd r)"

text \<open>What an iteration starts with: the poses of the camera, from the state.\<close>

definition set_poses :: "StatesGroup \<Rightarrow> VIOManager \<Rightarrow> VIOManager" where
  "set_poses s v =
     (let rcw = m3_mult (Rci v) (m3_transpose (rot_end s))
      in v\<lparr>Rcw := rcw, Pcw := v3_add (m3_apply (m3_mult (m3_neg (Rci v)) (m3_transpose (rot_end s))) (pos_end s)) (Pci v)\<rparr>)"

text \<open>All rows at a state, with the errors of the points written to the sub-map: for \<open>updateState\<close>, where a row has seven
  columns, and for \<open>updateStateInverse\<close>, where it has six.\<close>

definition write_errors :: "VIOManager \<Rightarrow> (vec \<times> real) list list \<Rightarrow> VIOManager exec" where
  "write_errors v rss =
     (let sm = visual_submap v
      in if length (errors sm) < length rss then Undef
         else Ret (v\<lparr>visual_submap := sm\<lparr>errors := map patch_error rss @ drop (length rss) (errors sm)\<rparr>\<rparr>))"

definition all_points :: "(nat \<Rightarrow> (vec \<times> real) list exec) \<Rightarrow> VIOManager \<Rightarrow> (VIOManager \<times> (vec \<times> real) list) exec" where
  "all_points point v =
     bind_exec (exec_map point [0..<total_points v]) (\<lambda>rss. bind_exec (write_errors v rss) (\<lambda>v. Ret (v, concat rss)))"

definition linearise :: "Img \<Rightarrow> nat \<Rightarrow> VIOManager \<Rightarrow> StatesGroup \<Rightarrow> (VIOManager \<times> (vec \<times> real) list) exec" where
  "linearise img level v s =
     (let v = set_poses s v; v = v\<lparr>Jdp_dt := m3_mult (Rci v) (m3_transpose (rot_end s))\<rparr>
      in all_points (photo_point img level v s) v)"

definition linearise_inverse :: "Img \<Rightarrow> nat \<Rightarrow> VIOManager \<Rightarrow> StatesGroup \<Rightarrow> (VIOManager \<times> (vec \<times> real) list) exec" where
  "linearise_inverse img level v s =
     bind_exec (if has_ref_patch_cache v then Ret v else precomputeReferencePatches level v) (\<lambda>v.
       let v = set_poses s v in all_points (inverse_point img level v s) v)"

section \<open>The iteration\<close>

record vio_est =
  ve_state :: StatesGroup
  old_state :: StatesGroup
  last_error :: real
  ve_vio :: VIOManager

definition mean_error :: "(vec \<times> real) list \<Rightarrow> real" where
  "mean_error rs = patch_error rs / real (length rs)"

definition vio_iterate :: "(VIOManager \<Rightarrow> StatesGroup \<Rightarrow> (VIOManager \<times> (vec \<times> real) list) exec) \<Rightarrow> (mat \<Rightarrow> mat) \<Rightarrow> nat \<Rightarrow> StatesGroup
    \<Rightarrow> vio_est \<Rightarrow> (vio_est \<times> bool) exec" where
  "vio_iterate lin minv m propagat e =
     bind_exec (lin (ve_vio e) (ve_state e)) (\<lambda>(v, rs).
       let s = ve_state e; error = mean_error rs; c = img_point_cov v
       in if rs = [] then Undef
          else if error \<le> last_error e
          then let d = vio_solution minv m c rs (cov s) (state_minus propagat s)
               in Ret (e\<lparr>ve_state := state_plus s d, old_state := s, last_error := error,
                         ve_vio := v\<lparr>vm_G := vio_G minv m c rs (cov s)\<rparr>\<rparr>,
                       v3_norm (seg3 0 d) * (573 / 10) < 1 / 1000 \<and> v3_norm (seg3 3 d) * 100 < 1 / 1000)
          else Ret (e\<lparr>ve_state := old_state e, ve_vio := v\<rparr>, True))"

primrec vio_iterations :: "(VIOManager \<Rightarrow> StatesGroup \<Rightarrow> (VIOManager \<times> (vec \<times> real) list) exec) \<Rightarrow> (mat \<Rightarrow> mat) \<Rightarrow> nat \<Rightarrow> StatesGroup
    \<Rightarrow> nat \<Rightarrow> vio_est \<Rightarrow> vio_est exec" where
  "vio_iterations lin minv m propagat 0 e = Ret e"
| "vio_iterations lin minv m propagat (Suc k) e =
     bind_exec (vio_iterate lin minv m propagat e) (\<lambda>q.
       if snd q then Ret (fst q) else vio_iterations lin minv m propagat k (fst q))"

definition run_update :: "(VIOManager \<Rightarrow> StatesGroup \<Rightarrow> (VIOManager \<times> (vec \<times> real) list) exec) \<Rightarrow> (mat \<Rightarrow> mat) \<Rightarrow> nat \<Rightarrow> StatesGroup
    \<Rightarrow> VIOManager \<times> StatesGroup \<Rightarrow> (VIOManager \<times> StatesGroup) exec" where
  "run_update lin minv m propagat r =
     (if total_points (fst r) = 0 then Ret r
      else bind_exec (vio_iterations lin minv m propagat (vm_max_iterations (fst r))
             \<lparr>ve_state = snd r, old_state = snd r, last_error = FLT_MAX, ve_vio = fst r\<rparr>) (\<lambda>e. Ret (ve_vio e, ve_state e)))"

definition updateState :: "(mat \<Rightarrow> mat) \<Rightarrow> StatesGroup \<Rightarrow> Img \<Rightarrow> nat \<Rightarrow> VIOManager \<times> StatesGroup \<Rightarrow> (VIOManager \<times> StatesGroup) exec" where
  "updateState minv propagat img level = run_update (linearise img level) minv 7 propagat"

definition updateStateInverse :: "(mat \<Rightarrow> mat) \<Rightarrow> StatesGroup \<Rightarrow> Img \<Rightarrow> nat \<Rightarrow> VIOManager \<times> StatesGroup \<Rightarrow> (VIOManager \<times> StatesGroup) exec" where
  "updateStateInverse minv propagat img level = run_update (linearise_inverse img level) minv 6 propagat"

definition update_level :: "(mat \<Rightarrow> mat) \<Rightarrow> StatesGroup \<Rightarrow> Img \<Rightarrow> nat \<Rightarrow> VIOManager \<times> StatesGroup \<Rightarrow> (VIOManager \<times> StatesGroup) exec" where
  "update_level minv propagat img level r =
     (if inverse_composition_en (fst r)
      then updateStateInverse minv propagat img level ((fst r)\<lparr>has_ref_patch_cache := False\<rparr>, snd r)
      else updateState minv propagat img level r)"

definition computeJacobianAndUpdateEKF :: "(mat \<Rightarrow> mat) \<Rightarrow> StatesGroup \<Rightarrow> Img \<Rightarrow> VIOManager \<times> StatesGroup \<Rightarrow> (VIOManager \<times> StatesGroup) exec" where
  "computeJacobianAndUpdateEKF minv propagat img r =
     (if total_points (fst r) = 0 then Ret r
      else bind_exec (exec_fold (update_level minv propagat img) (rev [0..<patch_pyrimid_level (fst r)]) r) (\<lambda>(v, s).
             let s = s\<lparr>cov := msub (cov s) (mmul DIM_STATE (vm_G v) (cov s))\<rparr>
             in Ret (updateFrameState s v, s)))"

section \<open>A frame\<close>

text \<open>Third-party code and unset memory.\<close>

record vio_lib =
  vl_inverse :: "mat \<Rightarrow> mat"
  vl_resize :: "Img \<Rightarrow> Img"
  vl_gray :: "Img \<Rightarrow> Img"
  vl_order :: "VOXEL_LOCATION list \<Rightarrow> VOXEL_LOCATION list"
  vl_sigma_inf :: sigma_oracle
  vl_ref_patch :: "addr option"
  vl_mean :: "addr \<Rightarrow> addr \<Rightarrow> real"

definition prepare_image :: "vio_lib \<Rightarrow> nat \<Rightarrow> VIOManager \<Rightarrow> Img \<Rightarrow> Img" where
  "prepare_image lib channels v img =
     (let img = (if vm_width v \<noteq> int (im_cols img) \<or> vm_height v \<noteq> int (im_rows img) then vl_resize lib img else img)
      in if channels = 3 then vl_gray lib img else img)"

definition processFrame :: "vio_lib \<Rightarrow> VoxelMapConfig \<Rightarrow> voxel_map \<Rightarrow> nat \<Rightarrow> Img \<Rightarrow> pointWithVar list \<Rightarrow> StatesGroup
    \<Rightarrow> VIOManager \<times> StatesGroup \<Rightarrow> (frame_error + VIOManager \<times> StatesGroup) exec" where
  "processFrame lib cfg plane_map channels img0 pg propagat r =
     (let v = fst r; s = snd r; img = prepare_image lib channels v img0
      in case initFrame (vm_cam v) img (frame_counter v) of
           Inl err \<Rightarrow> Ret (Inl err)
         | Inr fr \<Rightarrow>
             bind_exec (retrieveFromVisualSparseMap (vl_order lib) cfg plane_map (inv_expo_time s) img pg
                 (resetGrid (updateFrameState s (v\<lparr>new_frame := fr, frame_counter := frame_counter v + 1\<rparr>)))) (\<lambda>v.
             bind_exec (computeJacobianAndUpdateEKF (vl_inverse lib) propagat img (v, s)) (\<lambda>(v, s).
             bind_exec (generateVisualMapPoints (vl_ref_patch lib) (inv_expo_time s) img pg v) (\<lambda>v.
             bind_exec (updateVisualMapPoints (inv_expo_time s) img v) (\<lambda>v.
             bind_exec (updateReferencePatch (vl_sigma_inf lib) cfg plane_map (vl_mean lib) v) (\<lambda>v. Ret (Inr (v, s))))))))"

end
