(* ===== verification/Vio_Frame.thy ===== *)
theory Vio_Frame
  imports Vio_Update
begin

text \<open>
  What the photometric update and the frame step guarantee: every correction is the best step, the covariance is the
  posterior one, an update never ends further than one step from the best state it has seen, and the sparse visual map
  stays well formed along every run of frames.
\<close>

section \<open>The step\<close>

definition vio_rows :: "(vec \<times> real) list \<Rightarrow> row list" where
  "vio_rows rs = map (\<lambda>r. \<lparr>row_h = fst r, row_R_inv = 1, row_meas = - snd r\<rparr>) rs"

lemma sum_list_neg: "(\<Sum>x\<leftarrow>xs. - f x) = - (\<Sum>x\<leftarrow>xs. f x :: real)"
  by (induction xs) simp_all

lemma vio_as_map:
  "H_T_H m rs = info m (vio_rows rs)" "vio_G minv m c rs P = map_gain m (vio_K_1 minv m c rs P) (vio_rows rs)"
  "vio_solution minv m c rs P v = map_step m (vio_K_1 minv m c rs P) (vio_rows rs) v"
proof -
  have H: "H_T_H m rs = info m (vio_rows rs)" for rs by (intro ext) (simp add: H_T_H_def info_def vio_rows_def comp_def)
  then show "H_T_H m rs = info m (vio_rows rs)" .
  show G: "vio_G minv m c rs P = map_gain m (vio_K_1 minv m c rs P) (vio_rows rs)" unfolding vio_G_def map_gain_def H ..
  have "info_z (vio_rows rs) i = - HTz rs i" for i by (simp add: info_z_def HTz_def vio_rows_def comp_def sum_list_neg)
  then have "mvmul m K (info_z (vio_rows rs)) i = - mvmul m K (HTz rs) i" for K i by (simp add: mvmul_def sum_negf)
  then show "vio_solution minv m c rs P v = map_step m (vio_K_1 minv m c rs P) (vio_rows rs) v"
    by (simp add: vio_solution_def map_step_def G)
qed

text \<open>The squared residuals of the pixels, linearised at the state, after an error-state step \<open>d\<close>.\<close>

definition photo_cost :: "nat \<Rightarrow> (vec \<times> real) list \<Rightarrow> vec \<Rightarrow> real" where
  "photo_cost m rs d = (\<Sum>r\<leftarrow>rs. (snd r + vdot m (fst r) d)\<^sup>2)"

lemma photo_cost_map: "photo_cost m rs d = map_cost m (vio_rows rs) d"
  unfolding photo_cost_def map_cost_def vio_rows_def
  by (simp add: comp_def power2_commute power2_eq_square algebra_simps)

lemma vio_rows_weights: "\<forall>r \<in> set (vio_rows rs). 0 \<le> row_R_inv r"
  by (simp add: vio_rows_def)

text \<open>C17: The correction of the visual update is the best one: it minimises the squared photometric residuals, linearised
  at the state, plus the squared distance to the predicted state in the metric of the inverse of \<open>cov / img_point_cov\<close>,
  for seven columns and, in the inverse formulation, for six.\<close>

theorem vio_step_is_map_estimate:
  assumes "m \<le> DIM_STATE" and "msym DIM_STATE (minv (mscale (1 / c) P))" and "mpsd DIM_STATE (minv (mscale (1 / c) P))"
    and "is_inverse DIM_STATE (madd (H_T_H m rs) (minv (mscale (1 / c) P))) (vio_K_1 minv m c rs P)"
  shows "photo_cost m rs (vio_solution minv m c rs P v)
           + quad DIM_STATE (minv (mscale (1 / c) P)) (\<lambda>i. v i - vio_solution minv m c rs P v i)
         \<le> photo_cost m rs d + quad DIM_STATE (minv (mscale (1 / c) P)) (\<lambda>i. v i - d i)"
  using map_step_optimal [OF assms(1) vio_rows_weights assms(2,3) assms(4) [unfolded vio_as_map], of v d]
  by (simp add: vio_as_map photo_cost_map)

section \<open>The covariance\<close>

lemma minus_gain: "meq n (msub P (mmul n G P)) (mmul n (msub mident G) P)"
proof -
  have "meq n (mmul n mident P) P" by (rule mmul_ident)
  then show ?thesis unfolding mmul_distrib(3) by (simp add: meq_def msub_def)
qed

lemma mscale_inv: "c > 0 \<Longrightarrow> msym n a \<Longrightarrow> msym n (mscale c a)" "c > 0 \<Longrightarrow> mpsd n a \<Longrightarrow> mpsd n (mscale c a)"
proof -
  assume c: "c > 0"
  then show "msym n a \<Longrightarrow> msym n (mscale c a)" by (simp add: msym_def mscale_def)
  have "quad n (mscale c a) x = c * quad n a x" for x
    by (simp add: quad_def mscale_def sum_distrib_left algebra_simps)
  then show "mpsd n a \<Longrightarrow> mpsd n (mscale c a)" using c by (simp add: mpsd_def)
qed

text \<open>\<open>state->cov -= G * state->cov\<close> makes the covariance the posterior one, \<open>img_point_cov\<close> times the inverse of the
  information matrix of the rows the gain was computed from, and keeps it symmetric positive semidefinite.\<close>

theorem vio_cov_posterior:
  assumes "m \<le> DIM_STATE" and "c > 0" and "msym DIM_STATE P" and "mpsd DIM_STATE P"
    and "is_inverse DIM_STATE (mscale (1 / c) P) (minv (mscale (1 / c) P))"
    and "is_inverse DIM_STATE (madd (H_T_H m rs) (minv (mscale (1 / c) P))) (vio_K_1 minv m c rs P)"
  defines "P' \<equiv> msub P (mmul DIM_STATE (vio_G minv m c rs P) P)"
  shows "meq DIM_STATE P' (mscale c (vio_K_1 minv m c rs P)) \<and> msym DIM_STATE P' \<and> mpsd DIM_STATE P'"
proof -
  let ?n = DIM_STATE and ?K = "vio_K_1 minv m c rs P"
  have Q: "msym ?n (mscale (1 / c) P)" "mpsd ?n (mscale (1 / c) P)" using assms(2-4) by (auto intro!: mscale_inv)
  have inv: "is_inverse ?n (madd (info m (vio_rows rs)) (minv (mscale (1 / c) P))) ?K" using assms(6) by (simp add: vio_as_map)
  have P: "mscale c (mscale (1 / c) P) = P" using assms(2) by (simp add: mscale_def)
  have "meq ?n P' (mmul ?n (msub mident (map_gain m ?K (vio_rows rs))) P)"
    unfolding P'_def vio_as_map(2) by (rule minus_gain)
  from meq_trans [OF this posterior_cov [OF assms(1) inv assms(5), of c, unfolded P]]
  have e: "meq ?n P' (mscale c ?K)" .
  have K: "msym ?n ?K" "mpsd ?n ?K"
    by (fact posterior_inv [OF assms(1) vio_rows_weights inverse_msym [OF assms(5) Q(1)] inverse_mpsd [OF assms(5) Q] inv])+
  have "quad ?n P' x = quad ?n (mscale c ?K) x" for x
    using e by (auto simp: quad_def meq_def intro!: sum.cong)
  then show ?thesis using e mscale_inv(1) [OF assms(2) K(1)] mscale_inv(2) [OF assms(2) K(2)]
    by (auto simp: mpsd_def msym_def meq_def)
qed

section \<open>The iteration keeps the best state\<close>

text \<open>What a linearisation leaves alone.\<close>

definition same_map :: "VIOManager \<Rightarrow> VIOManager \<Rightarrow> bool" where
  "same_map v w = (vm_G w = vm_G v \<and> img_point_cov w = img_point_cov v \<and> total_points w = total_points v
     \<and> sub_points (visual_submap w) = sub_points (visual_submap v) \<and> vm_points w = vm_points v
     \<and> vm_features w = vm_features v \<and> (vis_ok v \<longrightarrow> vis_ok w))"

lemma same_map_trans: "same_map u v \<Longrightarrow> same_map v w \<Longrightarrow> same_map u w"
  by (simp add: same_map_def)

text \<open>An update from \<open>(v, s)\<close> has found a state \<open>old_state\<close> that is at least as good as \<open>s\<close>: it was linearised there, the
  gain is the one of its rows, and the state is \<open>old_state\<close> or one correction from it.\<close>

definition improved :: "(VIOManager \<Rightarrow> StatesGroup \<Rightarrow> (VIOManager \<times> (vec \<times> real) list) exec) \<Rightarrow> (mat \<Rightarrow> mat) \<Rightarrow> nat \<Rightarrow> StatesGroup
    \<Rightarrow> VIOManager \<Rightarrow> StatesGroup \<Rightarrow> vio_est \<Rightarrow> bool" where
  "improved lin minv m propagat v s e =
     (same_map v ((ve_vio e)\<lparr>vm_G := vm_G v\<rparr>) \<and> cov (ve_state e) = cov s \<and> cov (old_state e) = cov s
      \<and> (\<exists>w rs0 u u' rs. lin v s = Ret (w, rs0) \<and> lin u (old_state e) = Ret (u', rs) \<and> rs \<noteq> [] \<and> mean_error rs = last_error e
           \<and> last_error e \<le> mean_error rs0 \<and> vm_G (ve_vio e) = vio_G minv m (img_point_cov v) rs (cov s)
           \<and> (ve_state e = old_state e \<or>
              ve_state e = state_plus (old_state e) (vio_solution minv m (img_point_cov v) rs (cov s) (state_minus propagat (old_state e))))))"

lemma improvedI:
  assumes "lin v s = Ret (w, ri)" "lin u (old_state e) = Ret (u', rs)" "rs \<noteq> []" "mean_error rs = last_error e" "last_error e \<le> mean_error ri"
    and "same_map v ((ve_vio e)\<lparr>vm_G := vm_G v\<rparr>)" "cov (ve_state e) = cov s" "cov (old_state e) = cov s"
    and "vm_G (ve_vio e) = vio_G minv m (img_point_cov v) rs (cov s)"
    and "ve_state e = old_state e \<or>
      ve_state e = state_plus (old_state e) (vio_solution minv m (img_point_cov v) rs (cov s) (state_minus propagat (old_state e)))"
  shows "improved lin minv m propagat v s e"
  using assms unfolding improved_def by blast

lemma vis_ok_G: "vis_ok (v\<lparr>vm_G := g\<rparr>) = vis_ok v"
  by (simp add: vis_ok_def)

locale linearisation =
  fixes lin :: "VIOManager \<Rightarrow> StatesGroup \<Rightarrow> (VIOManager \<times> (vec \<times> real) list) exec"
  assumes keeps: "lin v s = Ret (w, rs) \<Longrightarrow> same_map v w"
begin

lemma photo_step_cases:
  assumes "vio_iterate lin minv m propagat e = Ret (e', stop)"
  obtains v rs where "lin (ve_vio e) (ve_state e) = Ret (v, rs)" "rs \<noteq> []" "mean_error rs \<le> last_error e"
      "e' = e\<lparr>ve_state := state_plus (ve_state e) (vio_solution minv m (img_point_cov v) rs (cov (ve_state e)) (state_minus propagat (ve_state e))),
              old_state := ve_state e, last_error := mean_error rs,
              ve_vio := v\<lparr>vm_G := vio_G minv m (img_point_cov v) rs (cov (ve_state e))\<rparr>\<rparr>"
  | v rs where "lin (ve_vio e) (ve_state e) = Ret (v, rs)" "mean_error rs > last_error e" stop "e' = e\<lparr>ve_state := old_state e, ve_vio := v\<rparr>"
proof -
  obtain v rs where l: "lin (ve_vio e) (ve_state e) = Ret (v, rs)" "rs \<noteq> []"
    using assms by (auto simp: vio_iterate_def bind_exec_Ret_iff Let_def split: if_splits)
  show thesis
  proof (cases "mean_error rs \<le> last_error e")
    case True
    then show ?thesis using that(1) [OF l] assms l by (simp add: vio_iterate_def Let_def)
  next
    case False
    then show ?thesis using that(2) [OF l(1)] assms l by (simp add: vio_iterate_def Let_def)
  qed
qed

lemma same_map_G: "same_map v (w\<lparr>vm_G := vm_G v\<rparr>) \<Longrightarrow> same_map w u \<Longrightarrow> same_map v (u\<lparr>vm_G := vm_G v\<rparr>)"
  by (auto simp: same_map_def vis_ok_G)

lemma iterate_improved:
  assumes "improved lin minv m propagat v s e" "vio_iterate lin minv m propagat e = Ret (e', stop)"
  shows "improved lin minv m propagat v s e'"
  using assms(2)
proof (cases rule: photo_step_cases)
  case (1 w rs)
  have w: "same_map v (w\<lparr>vm_G := vm_G v\<rparr>)" using assms(1) keeps [OF 1(1)] by (auto simp: improved_def intro: same_map_G)
  then have c: "img_point_cov w = img_point_cov v" "cov (ve_state e) = cov s" using assms(1) by (auto simp: same_map_def improved_def)
  obtain u rs0 where r0: "lin v s = Ret (u, rs0)" "last_error e \<le> mean_error rs0" using assms(1) by (auto simp: improved_def)
  show ?thesis
    using w c r0 1 by (intro improvedI [where w = u and ri = rs0 and u = "ve_vio e" and u' = w and rs = rs]) simp_all
next
  case (2 w rs)
  have "same_map v (w\<lparr>vm_G := vm_G v\<rparr>)" using assms(1) keeps [OF 2(1)] by (auto simp: improved_def intro: same_map_G)
  moreover have "vm_G w = vm_G (ve_vio e)" using keeps [OF 2(1)] by (simp add: same_map_def)
  moreover obtain w0 ri u u' rs0 where "lin v s = Ret (w0, ri)" "lin u (old_state e) = Ret (u', rs0)" "rs0 \<noteq> []"
      "mean_error rs0 = last_error e" "last_error e \<le> mean_error ri" "cov (old_state e) = cov s"
      "vm_G (ve_vio e) = vio_G minv m (img_point_cov v) rs0 (cov s)"
    using assms(1) unfolding improved_def by blast
  ultimately show ?thesis
    using 2 by (intro improvedI [where w = w0 and ri = ri and u = u and u' = u' and rs = rs0]) simp_all
qed

lemma iterations_improved:
  "improved lin minv m propagat v s e \<Longrightarrow> vio_iterations lin minv m propagat k e = Ret e' \<Longrightarrow> improved lin minv m propagat v s e'"
proof (induction k arbitrary: e)
  case (Suc k)
  then obtain e1 stop where i: "vio_iterate lin minv m propagat e = Ret (e1, stop)"
    and r: "if stop then e' = e1 else vio_iterations lin minv m propagat k e1 = Ret e'"
    by (auto simp: bind_exec_Ret_iff split: if_splits)
  from iterate_improved [OF Suc.prems(1) i] show ?case using Suc.IH [of e1] r by (auto split: if_splits)
qed simp

lemma update_cases:
  assumes "run_update lin minv m propagat (v, s) = Ret (v', s')"
  shows "(s' = s \<and> same_map v v') \<or>
    (\<exists>e. improved lin minv m propagat v s e \<and> last_error e \<le> FLT_MAX \<and> ve_vio e = v' \<and> ve_state e = s')"
proof (cases "total_points v = 0 \<or> vm_max_iterations v = 0")
  case True
  then have "v' = v \<and> s' = s" using assms by (auto simp: run_update_def split: if_splits)
  then show ?thesis by (simp add: same_map_def)
next
  case False
  then obtain k where k: "vm_max_iterations v = Suc k" by (cases "vm_max_iterations v") auto
  let ?e = "\<lparr>ve_state = s, old_state = s, last_error = FLT_MAX, ve_vio = v\<rparr>"
  obtain e where e: "vio_iterations lin minv m propagat (Suc k) ?e = Ret e" "v' = ve_vio e" "s' = ve_state e"
    using assms False k by (auto simp: run_update_def bind_exec_Ret_iff simp del: vio_iterations.simps)
  then obtain e1 stop where i: "vio_iterate lin minv m propagat ?e = Ret (e1, stop)"
    and r: "if stop then e = e1 else vio_iterations lin minv m propagat k e1 = Ret e"
    by (auto simp: bind_exec_Ret_iff split: if_splits)
  from i show ?thesis
  proof (cases rule: photo_step_cases)
    case (1 w rs)
    have "improved lin minv m propagat v s e1"
      using 1 keeps [OF 1(1)] by (intro improvedI [where w = w and ri = rs and u = v and u' = w and rs = rs]) (simp_all add: same_map_def vis_ok_G)
    then have "improved lin minv m propagat v s e" using r iterations_improved by (auto split: if_splits)
    moreover from this have "last_error e \<le> FLT_MAX" using 1(1,3) by (auto simp: improved_def)
    ultimately show ?thesis using e(2,3) by blast
  next
    case (2 w rs)
    then show ?thesis using r e keeps [OF 2(1)] by simp
  qed
qed

end

section \<open>Both formulations\<close>

lemma write_errors_keeps: "write_errors v rss = Ret w \<Longrightarrow> same_map v w"
  by (auto simp: write_errors_def Let_def same_map_def vis_ok_def submap_ok_def split: if_splits)

lemma all_points_keeps: "all_points point v = Ret (w, rs) \<Longrightarrow> same_map v w"
  by (auto simp: all_points_def bind_exec_Ret_iff write_errors_keeps)

lemma poses_keep: "same_map v (set_poses s v)" "same_map v (v\<lparr>Jdp_dt := x\<rparr>)" "same_map v (v\<lparr>H_sub_inv := h, has_ref_patch_cache := c\<rparr>)"
  "same_map v (v\<lparr>has_ref_patch_cache := c\<rparr>)" "same_map v v"
  by (simp_all add: same_map_def set_poses_def vis_ok_def Let_def)

lemma linearise_keeps: "linearise img level v s = Ret (w, rs) \<Longrightarrow> same_map v w"
  unfolding linearise_def Let_def
  by (rule same_map_trans [OF poses_keep(1) same_map_trans [OF poses_keep(2) all_points_keeps]])

lemma precompute_keeps: "precomputeReferencePatches level v = Ret w \<Longrightarrow> same_map v w"
  by (auto simp: precomputeReferencePatches_def bind_exec_Ret_iff poses_keep split: if_splits)

lemma linearise_inverse_keeps:
  assumes "linearise_inverse img level v s = Ret (w, rs)"
  shows "same_map v w"
proof -
  obtain v1 where 1: "(if has_ref_patch_cache v then Ret v else precomputeReferencePatches level v) = Ret v1"
    and 2: "all_points (inverse_point img level (set_poses s v1) s) (set_poses s v1) = Ret (w, rs)"
    using assms by (auto simp: linearise_inverse_def bind_exec_Ret_iff Let_def)
  have "same_map v v1" using 1 poses_keep(5) precompute_keeps by (auto split: if_splits)
  then show ?thesis by (rule same_map_trans [OF _ same_map_trans [OF poses_keep(1) all_points_keeps [OF 2]]])
qed

interpretation forward: linearisation "linearise img level" for img level
  by unfold_locales (rule linearise_keeps)

interpretation inverse: linearisation "linearise_inverse img level" for img level
  by unfold_locales (rule linearise_inverse_keeps)

text \<open>C16: The visual update never ends further than one correction from the best state it has seen. Either nothing has
  changed, or there is a state \<open>s0\<close>, linearised in the run, whose mean photometric error is at most that of the start state; the
  gain kept for the covariance is the one of \<open>s0\<close>; and the result is \<open>s0\<close>, when a later error was larger, or the correction of
  \<open>s0\<close>. The covariance is not touched.\<close>

theorem visual_update_keeps_best:
  assumes "updateState minv propagat img level (v, s) = Ret (v', s')"
  shows "cov s' = cov s \<and> (s' = s \<and> vm_G v' = vm_G v \<or>
    (\<exists>w rs0 u u' s0 rs. linearise img level v s = Ret (w, rs0) \<and> linearise img level u s0 = Ret (u', rs) \<and> rs \<noteq> []
       \<and> mean_error rs \<le> mean_error rs0 \<and> vm_G v' = vio_G minv 7 (img_point_cov v) rs (cov s)
       \<and> (s' = s0 \<or> s' = state_plus s0 (vio_solution minv 7 (img_point_cov v) rs (cov s) (state_minus propagat s0)))))"
proof -
  from forward.update_cases [OF assms [unfolded updateState_def]]
  show ?thesis
  proof
    assume "s' = s \<and> same_map v v'"
    then show ?thesis by (simp add: same_map_def)
  next
    assume "\<exists>e. improved (linearise img level) minv 7 propagat v s e \<and> last_error e \<le> FLT_MAX \<and> ve_vio e = v' \<and> ve_state e = s'"
    then obtain e where e: "improved (linearise img level) minv 7 propagat v s e" "ve_vio e = v'" "ve_state e = s'" by blast
    then obtain w rs0 u u' rs where "linearise img level v s = Ret (w, rs0)" "linearise img level u (old_state e) = Ret (u', rs)" "rs \<noteq> []"
        "mean_error rs \<le> mean_error rs0" "vm_G v' = vio_G minv 7 (img_point_cov v) rs (cov s)"
        "s' = old_state e \<or> s' = state_plus (old_state e) (vio_solution minv 7 (img_point_cov v) rs (cov s) (state_minus propagat (old_state e)))"
      unfolding improved_def by metis
    moreover have "cov s' = cov s" using e by (simp add: improved_def)
    ultimately show ?thesis by blast
  qed
qed

section \<open>Examples\<close>

definition ex_photo :: "(vec \<times> real) list" where
  "ex_photo = [((\<lambda>i. if i = 3 then 1 else 0), - 2)]"

lemma ex_photo_info:
  "msym DIM_STATE mident" "mpsd DIM_STATE mident"
  "msym DIM_STATE (diag_inverse (mscale (1 / 4) mident))" "mpsd DIM_STATE (diag_inverse (mscale (1 / 4) mident))"
  "is_inverse DIM_STATE (mscale (1 / 4) mident) (diag_inverse (mscale (1 / 4) mident))"
  "is_inverse DIM_STATE (madd (H_T_H 7 ex_photo) (diag_inverse (mscale (1 / 4) mident))) (vio_K_1 diag_inverse 7 4 ex_photo mident)"
proof -
  have i: "mident = mdiag (\<lambda>_. 1)" and s: "mscale (1 / 4) mident = mdiag (\<lambda>_. 1 / 4)"
    and d: "diag_inverse (mscale (1 / 4) mident) = mdiag (\<lambda>_. 4)"
    by (auto simp: mident_def mdiag_def mscale_def diag_inverse_def fun_eq_iff)
  show "msym DIM_STATE mident" "mpsd DIM_STATE mident" unfolding i by (auto intro!: inv_intros)
  show "msym DIM_STATE (diag_inverse (mscale (1 / 4) mident))" "mpsd DIM_STATE (diag_inverse (mscale (1 / 4) mident))"
    unfolding d by (auto intro!: inv_intros)
  show "is_inverse DIM_STATE (mscale (1 / 4) mident) (diag_inverse (mscale (1 / 4) mident))"
    unfolding diag_inverse_def by (rule is_inverse_diag [where d = "\<lambda>_. 1 / 4"]) (simp_all add: s)
  have "meq DIM_STATE (madd (H_T_H 7 ex_photo) (diag_inverse (mscale (1 / 4) mident))) (mdiag (\<lambda>i. if i = 3 then 5 else 4))"
    unfolding d by (auto simp: meq_def madd_def H_T_H_def ex_photo_def mdiag_def)
  from is_inverse_diag [OF this]
  show "is_inverse DIM_STATE (madd (H_T_H 7 ex_photo) (diag_inverse (mscale (1 / 4) mident))) (vio_K_1 diag_inverse 7 4 ex_photo mident)"
    by (simp add: vio_K_1_def diag_inverse_def split: if_splits)
qed

theorem vio_step_is_map_estimate_witness:
  "photo_cost 7 ex_photo (vio_solution diag_inverse 7 4 ex_photo mident (\<lambda>_. 0))
     + quad DIM_STATE (diag_inverse (mscale (1 / 4) mident)) (\<lambda>i. 0 - vio_solution diag_inverse 7 4 ex_photo mident (\<lambda>_. 0) i)
   \<le> photo_cost 7 ex_photo (\<lambda>_. 1) + quad DIM_STATE (diag_inverse (mscale (1 / 4) mident)) (\<lambda>i. 0 - 1)"
  by (rule vio_step_is_map_estimate) (simp add: DIM_STATE_def, fact ex_photo_info, fact ex_photo_info, fact ex_photo_info)

theorem vio_cov_posterior_witness:
  "msub mident (mmul DIM_STATE (vio_G diag_inverse 7 4 ex_photo mident) mident) 3 3 = 4 / 5"
proof -
  have "meq DIM_STATE (msub mident (mmul DIM_STATE (vio_G diag_inverse 7 4 ex_photo mident) mident))
      (mscale 4 (vio_K_1 diag_inverse 7 4 ex_photo mident))"
    using vio_cov_posterior [OF _ _ ex_photo_info(1,2,5,6)] by (simp add: DIM_STATE_def)
  then have "msub mident (mmul DIM_STATE (vio_G diag_inverse 7 4 ex_photo mident) mident) 3 3 = mscale 4 (vio_K_1 diag_inverse 7 4 ex_photo mident) 3 3"
    by (simp add: meq_def DIM_STATE_def)
  then show ?thesis
    by (simp add: vio_K_1_def diag_inverse_def madd_def H_T_H_def ex_photo_def mdiag_def mident_def mscale_def)
qed

text \<open>One point in the middle of the image, tracked with a patch of one pixel.\<close>

definition ex_tracked :: VIOManager where
  "ex_tracked = ex_vio\<lparr>vm_width := 9, vm_height := 9, patch_size := 1, patch_size_half := 0, patch_size_total := 1, total_points := 1,
     vm_max_iterations := 1, vm_points := [0 \<mapsto> new_VisualPoint None (0, 0, 1)],
     visual_submap := empty_submap\<lparr>sub_points := [0], search_levels := [0], warp_patch := [[30]], inv_expo_list := [1], errors := [0]\<rparr>\<rparr>"

lemma exec_defined: "m \<noteq> Undef \<Longrightarrow> \<exists>x. m = Ret x"
  by (cases m) auto

lemma ex_tracked_pixel: "\<exists>r. photo_pixel (ex_tracked\<lparr>Rcw := A, Pcw := b, Jdp_dt := C\<rparr>) ex_img s 0 0 (0, 0, 1) [30] 1 (0, 0) = Ret r"
proof -
  have k: "patch_offset 9 0 (4, 4) 1 0 0 = 40" by (simp add: patch_offset_def ref_i_def)
  have "patch_gradient ex_img 9 (ref_weights (4, 4) 1) 1 40 \<noteq> Undef" "patch_pixel ex_img 9 (ref_weights (4, 4) 1) 1 40 \<noteq> Undef"
    by (simp_all add: patch_gradient_defined patch_pixel_def blend_defined img_at_def ex_img_def)
  then obtain g p where "patch_gradient ex_img 9 (ref_weights (4, 4) 1) 1 40 = Ret g" "patch_pixel ex_img 9 (ref_weights (4, 4) 1) 1 40 = Ret p"
    using exec_defined by metis
  then show ?thesis
    by (simp add: photo_pixel_def Let_def ex_tracked_def ex_vio_def ex_cam_def k get_at_def)
qed

theorem visual_update_keeps_best_witness:
  "\<exists>v' s'. updateState diag_inverse new_StatesGroup ex_img 0 (ex_tracked, new_StatesGroup) = Ret (v', s') \<and> cov s' = init_cov"
proof -
  let ?s = new_StatesGroup
  let ?v = "ex_tracked\<lparr>Rcw := m3_one, Pcw := v3_zero, Jdp_dt := m3_one\<rparr>"
  have T: "m3_transpose m3_one = m3_one" by (simp add: m3_one_def m3_diag_def)
  have Z: "m3_apply m v3_zero = v3_zero" for m by (cases m rule: m3_transpose.cases) (simp add: v3_zero_def)
  obtain r where r: "photo_pixel ?v ex_img ?s 0 0 (0, 0, 1) [30] 1 (0, 0) = Ret r" using ex_tracked_pixel by blast
  have p: "v3_add (m3_apply m3_one (0, 0, 1)) v3_zero = (0, 0, 1)" by (simp add: m3_one_def m3_diag_def v3_zero_def)
  have "photo_point ex_img 0 ?v ?s 0 = Ret [r]"
    using r by (simp add: photo_point_def Let_def get_at_def ex_tracked_def patch_cells_def p new_VisualPoint_def)
  then have m: "exec_map (photo_point ex_img 0 ?v ?s) [0..<1] = Ret [[r]]" by (simp add: upt_rec)
  have R: "Rci ex_tracked = m3_one" "Pci ex_tracked = v3_zero" "total_points ?v = 1" "length (errors (visual_submap ?v)) = 1"
      "rot_end ?s = m3_one" "pos_end ?s = v3_zero" "total_points ex_tracked = 1" "Rci (ex_tracked\<lparr>Rcw := m3_one, Pcw := v3_zero\<rparr>) = m3_one" "vm_max_iterations ex_tracked = Suc 0"
    by (simp_all add: ex_tracked_def ex_vio_def new_StatesGroup_def)
  have "v3_add v3_zero v3_zero = v3_zero" by (simp add: v3_zero_def)
  then have "set_poses ?s ex_tracked = ex_tracked\<lparr>Rcw := m3_one, Pcw := v3_zero\<rparr>"
    by (simp add: set_poses_def Let_def R T Z)
  then have "linearise ex_img 0 ex_tracked ?s = all_points (photo_point ex_img 0 ?v ?s) ?v"
    by (simp only: linearise_def Let_def R T m3_mult_one)
  moreover have "\<exists>w. write_errors ?v [[r]] = Ret w" using R(4) by (auto simp: write_errors_def Let_def)
  ultimately obtain w where "linearise ex_img 0 ex_tracked ?s = Ret (w, [r])" using m R(3) by (auto simp: all_points_def)
  then have "\<exists>q. updateState diag_inverse ?s ex_img 0 (ex_tracked, ?s) = Ret q"
    by (simp add: updateState_def run_update_def vio_iterate_def Let_def R)
  then obtain v' s' where "updateState diag_inverse ?s ex_img 0 (ex_tracked, ?s) = Ret (v', s')" by auto
  with visual_update_keeps_best [OF this] show ?thesis by (auto simp: new_StatesGroup_def)
qed

end
