(* ===== verification/Vio_Run.thy ===== *)
theory Vio_Run
  imports Vio_Frame
begin

text \<open>
  Runs of the visual odometry: after \<open>initializeVIO\<close> and any number of frames the sparse visual map is well formed. The
  state of the filter, the scan and the LiDAR map are arbitrary in every frame, since other parts change them.
\<close>

section \<open>Frames keep the map\<close>

lemma vis_ok_cache: "vis_ok (v\<lparr>has_ref_patch_cache := c\<rparr>) = vis_ok v"
  by (simp add: vis_ok_def)

lemma vis_ok_frame: "vis_ok (v\<lparr>new_frame := fr, frame_counter := k\<rparr>) = vis_ok v"
  by (simp add: vis_ok_def)

context linearisation
begin

lemma update_keeps:
  assumes "run_update lin minv m propagat r = Ret q"
  shows "same_map (fst r) ((fst q)\<lparr>vm_G := vm_G (fst r)\<rparr>)"
proof -
  obtain v s v' s' where e: "r = (v, s)" "q = (v', s')" by (cases r; cases q)
  from update_cases [OF assms [unfolded e]] show ?thesis
    unfolding e by (auto simp: improved_def same_map_def vis_ok_G)
qed

end

lemma update_level_ok:
  assumes "vis_ok (fst r)"
  shows "outcome False (\<lambda>q. vis_ok (fst q)) (update_level minv propagat img level r)"
proof -
  have "same_map (fst r) ((fst q)\<lparr>vm_G := vm_G (fst r)\<rparr>)" if "update_level minv propagat img level r = Ret q" for q
  proof (cases "inverse_composition_en (fst r)")
    case True
    then have "run_update (linearise_inverse img level) minv 6 propagat ((fst r)\<lparr>has_ref_patch_cache := False\<rparr>, snd r) = Ret q"
      using that by (simp add: update_level_def updateStateInverse_def)
    from inverse.update_keeps [OF this] show ?thesis
      by (simp add: same_map_def vis_ok_G vis_ok_cache)
  next
    case False
    then show ?thesis using forward.update_keeps that by (simp add: update_level_def updateState_def)
  qed
  then show ?thesis using assms by (auto simp: outcome_False same_map_def vis_ok_G)
qed

lemma updateFrameState_ok: "vis_ok (updateFrameState s v) = vis_ok v"
  by (simp add: updateFrameState_def Let_def vis_ok_def)

lemma ekf_ok:
  assumes "vis_ok (fst r)"
  shows "outcome False (\<lambda>q. vis_ok (fst q)) (computeJacobianAndUpdateEKF minv propagat img r)"
proof -
  have "outcome False (\<lambda>q. vis_ok (fst q)) (exec_fold (update_level minv propagat img) levels r)" for levels
    using assms update_level_ok by (intro exec_fold_outcome) auto
  from this [of "rev [0..<patch_pyrimid_level (fst r)]"] show ?thesis
    unfolding computeJacobianAndUpdateEKF_def using assms
    by (auto intro!: outcome_if outcome_bind simp: Let_def updateFrameState_ok split: prod.split)
qed

lemma processFrame_ok:
  assumes "vis_ok (fst r)"
  shows "outcome False (\<lambda>x. \<forall>q. x = Inr q \<longrightarrow> vis_ok (fst q)) (processFrame lib cfg plane_map channels img0 pg propagat r)"
proof (cases "initFrame (vm_cam (fst r)) (prepare_image lib channels (fst r) img0) (frame_counter (fst r))")
  case (Inr fr)
  have v: "vis_ok (resetGrid (updateFrameState s ((fst r)\<lparr>new_frame := fr, frame_counter := c\<rparr>)))" for s c
    using assms by (intro resetGrid_ok) (simp add: updateFrameState_ok vis_ok_frame)
  show ?thesis
    unfolding processFrame_def Let_def Inr sum.case
    by (rule outcome_bind [OF retrieve_ok [OF v]], rule outcome_bind [OF ekf_ok], simp, simp add: split_beta,
        rule outcome_bind [OF generate_ok], simp, rule outcome_bind [OF update_ok], simp, rule outcome_bind [OF reference_ok], simp, simp, simp)
qed (simp add: processFrame_def)

section \<open>Runs\<close>

inductive vio_reach :: "VIOManager \<Rightarrow> bool" where
  start: "initializeVIO v0 = Ret v \<Longrightarrow> vm_points v0 = Map.empty \<Longrightarrow> vm_features v0 = Map.empty \<Longrightarrow> feat_map v0 = []
    \<Longrightarrow> retrieve_voxel_points v0 = [] \<Longrightarrow> vio_reach v"
| frame: "vio_reach v \<Longrightarrow> processFrame lib cfg plane_map channels img pg propagat (v, s) = Ret (Inr r) \<Longrightarrow> vio_reach (fst r)"

lemma initializeVIO_fields:
  assumes "initializeVIO v0 = Ret v"
  shows "vm_points v = vm_points v0" "vm_features v = vm_features v0" "feat_map v = feat_map v0"
    "retrieve_voxel_points v = retrieve_voxel_points v0" "visual_submap v = empty_submap"
  using assms by (auto simp: initializeVIO_def Let_def bind_exec_Ret_iff)

lemma reach_ok: "vio_reach v \<Longrightarrow> vis_ok v"
proof (induction rule: vio_reach.induct)
  case (start v0 v)
  note f = initializeVIO_fields [OF start(1)]
  have "heap_ok n Map.empty Map.empty k" for n k by (simp add: heap_ok_def)
  then show ?case using start f by (simp add: vis_ok_def files_ok_def submap_ok_def empty_submap_def)
next
  case (frame v lib cfg plane_map channels img pg propagat s r)
  then show ?case using outcome_Ret [OF processFrame_ok [of "(v, s)"] frame(2)] by simp
qed

text \<open>C15: The sparse visual map stays sound along every run. After any number of frames, every visual point has at most thirty
  observations, pairwise different live features that point back to it and carry a full patch, and its reference patch,
  when it has one, is one of them; every feature belongs to a live point; every point of a voxel is alive and filed
  under the voxel of its position, each voxel once; and the points of the last frame are alive.\<close>

theorem visual_map_sound:
  assumes "vio_reach v"
  shows "(\<forall>a pt. vm_points v a = Some pt \<longrightarrow> distinct (obs pt) \<and> length (obs pt) \<le> 30
            \<and> (\<forall>b \<in> set (obs pt). \<exists>f. vm_features v b = Some f \<and> ft_point f = a \<and> length (ft_patch f) = patch_size_total v)
            \<and> (has_ref_patch pt \<longrightarrow> (\<exists>b \<in> set (obs pt). ref_patch pt = Some b)))
     \<and> (\<forall>b f. vm_features v b = Some f \<longrightarrow> (\<exists>pt. vm_points v (ft_point f) = Some pt \<and> b \<in> set (obs pt)))
     \<and> distinct (map fst (feat_map v))
     \<and> (\<forall>(loc, x) \<in> set (feat_map v). \<forall>a \<in> set (voxel_points x). \<exists>pt. vm_points v a = Some pt \<and> insert_location (vp_pos pt) = loc)
     \<and> set (sub_points (visual_submap v)) \<subseteq> dom (vm_points v)"
proof -
  have ok: "vis_ok v" by (rule reach_ok [OF assms])
  then have h: "heap_ok (patch_size_total v) (vm_points v) (vm_features v) (vm_next v)" by (simp add: vis_ok_def)
  have "\<exists>f. vm_features v b = Some f \<and> ft_point f = a \<and> length (ft_patch f) = patch_size_total v"
    if "vm_points v a = Some pt" "b \<in> set (obs pt)" for a b pt
    using heap_ok_follow [OF h that] by blast
  moreover have "distinct (obs pt) \<and> length (obs pt) \<le> 30 \<and> (has_ref_patch pt \<longrightarrow> (\<exists>b \<in> set (obs pt). ref_patch pt = Some b))"
    if "vm_points v a = Some pt" for a pt
    using heap_okD(1,2) [OF h that] by (simp add: point_ok_def)
  moreover have "\<exists>pt. vm_points v (ft_point f) = Some pt \<and> b \<in> set (obs pt)" if "vm_features v b = Some f" for b f
    by (rule heap_okD(6) [OF h that])
  moreover have "distinct (map fst (feat_map v))" "set (sub_points (visual_submap v)) \<subseteq> dom (vm_points v)"
    "\<forall>q \<in> set (feat_map v). \<forall>a \<in> set (voxel_points (snd q)). \<exists>pt. vm_points v a = Some pt \<and> insert_location (vp_pos pt) = fst q"
    using ok by (simp_all add: vis_ok_def files_ok_def submap_ok_def)
  ultimately show ?thesis by (simp add: split_beta)
qed

text \<open>The first frame of a run, before there is a scan.\<close>

definition ex_vio_lib :: vio_lib where
  "ex_vio_lib = \<lparr>vl_inverse = diag_inverse, vl_resize = id, vl_gray = id, vl_order = id,
     vl_sigma_inf = (\<lambda>_ _. False), vl_ref_patch = None, vl_mean = (\<lambda>_ _. 0)\<rparr>"

theorem visual_map_sound_witness:
  "\<exists>v r. initializeVIO ex_vio = Ret v \<and> processFrame ex_vio_lib ex_cfg [] 1 ex_img [] new_StatesGroup (v, new_StatesGroup) = Ret (Inr r)
     \<and> distinct (map fst (feat_map (fst r)))"
proof -
  obtain v where v: "initializeVIO ex_vio = Ret v" "vm_cam v = ex_cam" "vm_width v = 9" "vm_height v = 9"
    by (simp add: initializeVIO_def Let_def grid_shape_def ex_vio_def ex_cam_def)
  note f = initializeVIO_fields [OF v(1)]
  have e: "vm_points ex_vio = Map.empty" "vm_features ex_vio = Map.empty" "feat_map ex_vio = []" "retrieve_voxel_points ex_vio = []"
    by (simp_all add: ex_vio_def)
  have img: "prepare_image ex_vio_lib (Suc 0) v ex_img = ex_img" using v(3,4) by (simp add: prepare_image_def ex_img_def)
  have "initFrame ex_cam ex_img c = Inr \<lparr>fr_id = c, fr_img = ex_img, fr_T_f_w = (m3_one, v3_zero)\<rparr>" for c
    by (simp add: initFrame_def ex_img_def ex_cam_def)
  then have "\<exists>r. processFrame ex_vio_lib ex_cfg [] 1 ex_img [] new_StatesGroup (v, new_StatesGroup) = Ret (Inr r)"
    using f(3) e(3) v(2)
    by (simp add: processFrame_def Let_def img retrieveFromVisualSparseMap_def computeJacobianAndUpdateEKF_def resetGrid_def updateFrameState_def
        generateVisualMapPoints_def updateVisualMapPoints_def updateReferencePatch_def)
  then obtain r where r: "processFrame ex_vio_lib ex_cfg [] 1 ex_img [] new_StatesGroup (v, new_StatesGroup) = Ret (Inr r)" ..
  have "vio_reach (fst r)" by (rule vio_reach.frame [OF vio_reach.start [OF v(1) e] r])
  with visual_map_sound [OF this] show ?thesis using v(1) r by blast
qed

end
