(* ===== verification/Spec2Isabelle.thy ===== *)
theory Spec2Isabelle
  imports Gnss_Chain Preproc Livox_Callback Livox_ImuQueue Lidar_Update Timeshare Global_Esikf Rtk_Graph Chc_Cgi Imu_Process Vio_Run
begin

text \<open>
  FAST-LIVO-RTK is a LiDAR-inertial-visual odometry system with RTK fusion: drivers for Livox LiDARs, a
  triggered camera and a CHCNAV receiver, the mapper \<^verbatim>\<open>fast_livo\<close>, a global back end and a real-time global
  filter. Paths below are relative to \<^verbatim>\<open>src/src\<close>.

  The parts and how they interact. The Livox SDK delivers packets to \<open>PubHandler\<close>, which normalises their
  times, converts them to points and cuts frames; \<open>Lds\<close> stores the frames in one ring buffer per device and
  wakes the threads of \<open>Lddc\<close>, which publish them. The receiver's bytes are
  framed by its parser node, checked and decoded by its protocol node, and go through the CHCNAV adapter to the
  mapper and the back end. In the mapper the callbacks fill buffers (the scans pass \<open>Preprocess\<close>),
  \<open>sync_packages\<close> cuts them into groups, \<open>ImuProcess\<close> propagates and undistorts, and the voxel map gives the
  residuals of the filter update; \<open>VIOManager\<close> then aligns image patches at the map's points to correct the same state. The mapper's odometry feeds the back end, whose worker grows a factor graph and
  returns a smoothed correction, and the real-time global filter.

  \<^bold>\<open>Theories.\<close>
  \<^item> \<open>Prelude\<close>, \<open>Geometry\<close>, \<open>Dense\<close>: words, outcomes (\<open>exec\<close> with \<open>Undef\<close> for C++ undefined behaviour, and
    the total correctness judgement \<open>outcome\<close>), lists, three-vectors and matrices; \<open>Fifo\<close>: the queue interface
    as a locale, interpreted in \<open>Livox_Ldq\<close> and \<open>Livox_ImuQueue\<close>.
  \<^item> \<open>Livox_Types\<close>, \<open>Livox_Ldq\<close>, \<open>Livox_ImuQueue\<close>, \<open>Livox_Index\<close>, \<open>Livox_Pub\<close>, \<open>Livox_Lds\<close>, \<open>Livox_Lddc\<close>,
    \<open>Livox_Callback\<close>: \<^verbatim>\<open>livox_ros_driver2/src\<close>; \<open>Timeshare\<close>: the sharing of time stamps between the
    processes of the driver and of \<^verbatim>\<open>mvs_ros2_driver\<close>, interleaved access by access.
  \<^item> \<open>Chc_Parser\<close>, \<open>Chc_Node\<close>, \<open>Chc_Cgi\<close>: the receiver's driver, \<^verbatim>\<open>chcnav/src\<close>, from the device's bytes to the
    decoded position message.
  \<^item> \<open>Gnss_Types\<close>, \<open>Gnss_Adapter\<close>, \<open>Gnss_Chain\<close>: \<^verbatim>\<open>chcnav_gnss_adapter\<close> and what its consumers see.
  \<^item> \<open>Feature_Extract\<close>, \<open>Preproc\<close>: \<^verbatim>\<open>fast_livo/src/preprocess.cpp\<close>.
  \<^item> \<open>Livo_Sync\<close>, \<open>Livo_Rtk\<close>: buffers, synchronisation and RTK input of \<^verbatim>\<open>fast_livo/src/LIVMapper.cpp\<close>.
  \<^item> \<open>So3\<close>, \<open>State_Group\<close>: \<^verbatim>\<open>fast_livo/include/utils/so3_math.h\<close> and \<open>StatesGroup\<close> of \<^verbatim>\<open>common_lib.h\<close>.
  \<^item> \<open>Imu_Process\<close>: \<^verbatim>\<open>fast_livo/src/IMU_Processing.cpp\<close>.
  \<^item> \<open>Voxel_Plane\<close>, \<open>Voxel_Octree\<close>, \<open>Voxel_Map\<close>, \<open>Voxel_Residual\<close>, \<open>Lidar_Update\<close>:
    \<^verbatim>\<open>fast_livo/src/voxel_map.cpp\<close>, bottom up: planes, octrees, the map, residuals, the filter update; \<open>Map_Step\<close>: the
    specification of one step of an iterated Kalman update, shared with the visual odometry.
  \<^item> \<open>Vio_Image\<close>, \<open>Visual_Point\<close>, \<open>Vio_Manager\<close>, \<open>Vio_Map\<close>, \<open>Vio_Update\<close>: the visual odometry, \<^verbatim>\<open>fast_livo/src/vio.cpp\<close>,
    \<^verbatim>\<open>visual_point.cpp\<close> and \<^verbatim>\<open>frame.cpp\<close>: patches and warps, points and features on a heap with explicit addresses, the grid,
    the sparse map, and the photometric update; \<open>Vio_Sound\<close>, \<open>Vio_Growth\<close>, \<open>Vio_Frame\<close>, \<open>Vio_Run\<close>: the invariant of its map,
    the guarantees of the update (a locale for the linearisation, interpreted for both formulations) and runs of frames.
  \<^item> \<open>Global_Esikf\<close>: \<^verbatim>\<open>fast_livo/src/global_esikf.cpp\<close>; \<open>Rtk_Backend\<close>, \<open>Rtk_Graph\<close>:
    \<^verbatim>\<open>fast_livo/src/optimization.cpp\<close>.

  \<^bold>\<open>Correspondence.\<close> A C++ class is a record, a method a function on it with the method's name; mutexes make a
  callback one atomic step; what the code publishes or requests is part of the result. Machine integers that index
  or wrap are words, times and coordinates are reals, \<open>dbl\<close> where the code tests for NaN. Third-party code (GTSAM,
  Eigen's solvers, PCL filters, GeographicLib, OpenCV, \<open>rclcpp::Time\<close>) is a parameter; the theorems that need a law of it name it.

  \<^bold>\<open>What is shown.\<close> For the driver: the ring buffer refines a bounded queue, slots are exclusive, times follow the
  device's clock, frames lie on a grid, and every stored frame is published once and in order. For the
  receiver: the parser is memory safe and independent of the reads, every binary frame below 1024 bytes is published once
  and sentences when an indeterminate byte allows it, corrupted messages are rejected, and a fix arrives with its own
  numbers and, until 2038, its own time. A LiDAR starts to sample exactly when all its options have been acknowledged.
  For the mapper:
  synchronisation loses and repeats no point, buffers keep their order along every run, RTK is enabled only with
  evidence, capture times survive from the packet to the buffer up to the first jump or invalid line, behind which they are
  characterised too, the voxel map is sound along every run, which is defined unless a plane fit meets three equal
  eigenvalues, planes are optimal fits, the IMU is integrated over exactly the time between updates, undistortion keeps the place of a point in
  the world, residuals go to the most likely plane, and the filter update is defined, ends, takes the optimal
  step in every iteration and updates the covariance once. For the visual odometry: patch reads stay in the image
  up to the scale the border allows, the corner score is the least eigenvalue, the correction is the optimal step, an
  update never ends further than one correction from the best state it has seen, and along every run no point, feature or
  voxel refers to freed memory. For the back end: the factor graph is well formed
  under every interleaving, loop candidates are the best ones, the correction maps the newest keyframe to its
  optimised pose; the filter's covariance stays positive semidefinite. Error theorems state what the code does
  where that is not what it means to do.

  \<^bold>\<open>Bounds and fuel.\<close> \<open>cut_octo_tree\<close> has fuel for the layers left, which \<open>init_octo_tree_ok\<close> shows to be enough
  whenever the configuration has a threshold per layer. Loops that may spin are \<open>partial_function (option)\<close>, and
  both their return and their non-termination are theorems. All other loops terminate by a measure.

  \<^bold>\<open>Not modelled.\<close> Rounding of floating point numbers, except where the receiver's time stamps and the capture times of
  Livox points are computed, whose rounding is a parameter with the error bound of IEEE 754; log files, visualisation and parameter loading, among them the
  debug images of the visual odometry; the serial, CAN, network and NTRIP connectors of \<^verbatim>\<open>chcnav\<close>, which are
  system calls around third-party code; the camera driver apart from the shared time stamp.
\<close>

end
